(* ===== verification/Prelude.thy ===== *)
theory Prelude
  imports Complex_Main "HOL-Library.Monad_Syntax"
begin

text \<open>
  Shared vocabulary of the development: the collections of rewrite rules the
  component theories add to, the generic lemmas on lists and options they use,
  and the two interfaces (locales) that several components provide: a state
  machine with an invariant, and an append-only log.
\<close>

section \<open>Collections\<close>

named_theorems dval_simps \<open>values of decimal operations\<close>
named_theorems store_simps \<open>how operations change the tables of the store\<close>
named_theorems gate_simps \<open>unfolding of the execution gates\<close>

section \<open>Type names\<close>

text \<open>
  Instants are whole microseconds since the Unix epoch (UTC), the resolution of
  Python's \<open>datetime\<close>; durations are microseconds as well.
\<close>

type_synonym instant = int
type_synonym duration = int

definition seconds :: "int \<Rightarrow> duration" where
  "seconds n = n * 1000000"

definition minutes :: "int \<Rightarrow> duration" where
  "minutes n = n * 60000000"

definition us_per_day :: int where
  "us_per_day = 86400000000"

text \<open>\<open>now.replace(hour=0, minute=0, second=0, microsecond=0)\<close> of a UTC datetime.\<close>

definition day_start :: "instant \<Rightarrow> instant" where
  "day_start t = t - t mod us_per_day"

text \<open>\<open>now.strftime("%Y-%m-%dT%H")\<close> is a function of the number of whole hours.\<close>

definition hour_bucket :: "instant \<Rightarrow> int" where
  "hour_bucket t = t div 3600000000"

definition same_day :: "instant \<Rightarrow> instant \<Rightarrow> bool" where
  "same_day s t \<longleftrightarrow> s div us_per_day = t div us_per_day"

lemma day_start_le: "day_start t \<le> t"
  by (simp add: day_start_def us_per_day_def)

lemma same_day_ge_day_start: "same_day s t \<Longrightarrow> day_start t \<le> s"
proof -
  assume "same_day s t"
  then have "t - t mod us_per_day = us_per_day * (s div us_per_day)"
    by (simp add: same_day_def minus_mod_eq_mult_div)
  also have "\<dots> \<le> s"
    by (simp add: us_per_day_def)
  finally show ?thesis by (simp add: day_start_def)
qed

lemma ge_day_start_same_day: "day_start t \<le> s \<Longrightarrow> s \<le> t \<Longrightarrow> same_day s t"
proof -
  assume a: "day_start t \<le> s" "s \<le> t"
  have "day_start t = us_per_day * (t div us_per_day)"
    by (simp add: day_start_def minus_mod_eq_mult_div)
  with a(1) have "t div us_per_day \<le> s div us_per_day"
    by (simp add: us_per_day_def)
  moreover have "s div us_per_day \<le> t div us_per_day"
    using a(2) by (simp add: us_per_day_def zdiv_mono1)
  ultimately show ?thesis by (simp add: same_day_def)
qed

section \<open>Lists and options\<close>

lemma filter_snoc: "filter P (xs @ [x]) = filter P xs @ (if P x then [x] else [])"
  by simp

lemma length_filter_snoc:
  "length (filter P (xs @ [x])) = length (filter P xs) + (if P x then 1 else 0)"
  by simp

lemma sorted_wrt_snoc: "sorted_wrt R (xs @ [x]) \<longleftrightarrow> sorted_wrt R xs \<and> (\<forall>y \<in> set xs. R y x)"
  by (simp add: sorted_wrt_append)

text \<open>The newest row satisfying a condition (\<open>ORDER BY id DESC LIMIT 1\<close>).\<close>

definition newest :: "('a \<Rightarrow> bool) \<Rightarrow> 'a list \<Rightarrow> 'a option" where
  "newest P xs = (case rev (filter P xs) of [] \<Rightarrow> None | x # _ \<Rightarrow> Some x)"

lemma newest_Nil [simp]: "newest P [] = None"
  by (simp add: newest_def)

lemma newest_snoc [simp]: "newest P (xs @ [x]) = (if P x then Some x else newest P xs)"
  by (simp add: newest_def)

lemma newest_Some_in: "newest P xs = Some x \<Longrightarrow> x \<in> set xs \<and> P x"
proof (induction xs rule: rev_induct)
  case Nil
  then show ?case by simp
next
  case (snoc y xs)
  then show ?case by (auto split: if_splits)
qed

lemma newest_None_iff: "newest P xs = None \<longleftrightarrow> (\<forall>x \<in> set xs. \<not> P x)"
  by (induction xs rule: rev_induct) auto

lemma newest_append:
  "newest P (xs @ ys) = (case newest P ys of None \<Rightarrow> newest P xs | Some y \<Rightarrow> Some y)"
proof (induction ys rule: rev_induct)
  case Nil
  then show ?case by simp
next
  case (snoc y ys)
  then show ?case
    by (simp flip: append_assoc)
qed

section \<open>Interface: a state machine with an invariant\<close>

text \<open>
  A component that is a state with operations promises an invariant: every
  operation whose side condition holds keeps it. What a client may use is that
  every state after a run of admissible operations satisfies it.
\<close>

fun run :: "('e \<Rightarrow> 's \<Rightarrow> 's) \<Rightarrow> 'e list \<Rightarrow> 's \<Rightarrow> 's" where
  "run step [] s = s"
| "run step (e # es) s = run step es (step e s)"

fun admissible :: "('e \<Rightarrow> 's \<Rightarrow> bool) \<Rightarrow> ('e \<Rightarrow> 's \<Rightarrow> 's) \<Rightarrow> 'e list \<Rightarrow> 's \<Rightarrow> bool" where
  "admissible ok step [] s = True"
| "admissible ok step (e # es) s = (ok e s \<and> admissible ok step es (step e s))"

lemma run_append: "run step (xs @ ys) s = run step ys (run step xs s)"
  by (induction xs arbitrary: s) auto

locale machine =
  fixes step :: "'e \<Rightarrow> 's \<Rightarrow> 's"
    and ok :: "'e \<Rightarrow> 's \<Rightarrow> bool"
    and inv :: "'s \<Rightarrow> bool"
  assumes step_inv: "inv s \<Longrightarrow> ok e s \<Longrightarrow> inv (step e s)"
begin

lemma run_inv: "inv s \<Longrightarrow> admissible ok step es s \<Longrightarrow> inv (run step es s)"
  by (induction es arbitrary: s) (auto intro: step_inv)

end

text \<open>
  A machine some of whose observations never change back: once \<open>stuck\<close> holds it
  holds after every further operation.
\<close>

locale latch =
  fixes step :: "'e \<Rightarrow> 's \<Rightarrow> 's" and stuck :: "'s \<Rightarrow> bool"
  assumes step_stuck: "stuck s \<Longrightarrow> stuck (step e s)"

sublocale latch \<subseteq> machine step "\<lambda>_ _. True" stuck
  by unfold_locales (rule step_stuck)

context latch
begin

lemma admissible_all: "admissible (\<lambda>_ _. True) step es s"
  by (induction es arbitrary: s) auto

lemma run_stuck: "stuck s \<Longrightarrow> stuck (run step es s)"
  by (rule run_inv [OF _ admissible_all])

end


section \<open>Interface: an append-only log\<close>

text \<open>Every operation only appends to the log: what a row said it says after every run.\<close>

locale append_only =
  fixes step :: "'e \<Rightarrow> 's \<Rightarrow> 's" and rows :: "'s \<Rightarrow> 'r list"
  assumes step_appends: "\<exists>new. rows (step e s) = rows s @ new"
begin

lemma run_appends: "\<exists>new. rows (run step es s) = rows s @ new"
proof (induction es arbitrary: s)
  case (Cons e es)
  obtain a where a: "rows (step e s) = rows s @ a" using step_appends by blast
  obtain b where "rows (run step es (step e s)) = rows (step e s) @ b" using Cons by blast
  with a show ?case by auto
qed simp

lemma run_keeps: "r \<in> set (rows s) \<Longrightarrow> r \<in> set (rows (run step es s))"
  using run_appends [of es s] by auto

lemma run_newest:
  "newest P (rows s) = Some r \<Longrightarrow> \<exists>r'. newest P (rows (run step es s)) = Some r'"
  using run_appends [of es s] by (auto simp: newest_append split: option.split)

end

end
