(* ===== verification/Decimal.thy ===== *)
theory Decimal
  imports Prelude
begin

text \<open>
  Python's \<open>decimal.Decimal\<close>: finite numbers as sign, coefficient and exponent,
  with the context-rounded arithmetic (\<open>ROUND_HALF_EVEN\<close> to \<open>prec\<close> significant
  digits) the program uses at precisions 28 (the default context), 50 and 60.
  \<open>dval\<close> is the number a \<open>decimal\<close> denotes and \<open>rnd p\<close> the rounding of a
  real number to \<open>p\<close> digits; every operation is shown to be the exact operation
  followed by \<open>rnd\<close>. Comparisons are exact, as in Python.
\<close>

section \<open>Representation and value\<close>

datatype decimal = Dec (dneg: bool) (dcoef: nat) (dexp: int)

definition dval :: "decimal \<Rightarrow> real" where
  "dval d = (if dneg d then -1 else 1) * real (dcoef d) * 10 powi dexp d"

definition dint :: "int \<Rightarrow> decimal" where
  "dint n = Dec (n < 0) (nat \<bar>n\<bar>) 0"

lemma dval_dint [simp]: "dval (dint n) = real_of_int n"
  by (simp add: dint_def dval_def)

lemma dval_Dec: "dval (Dec s c e) = (if s then -1 else 1) * real c * 10 powi e"
  by (simp add: dval_def)

text \<open>Number of decimal digits of a coefficient (1 for zero).\<close>

fun ndigits :: "nat \<Rightarrow> nat" where
  "ndigits n = (if n < 10 then 1 else Suc (ndigits (n div 10)))"

declare ndigits.simps [simp del]

lemma ndigits_pos [simp]: "0 < ndigits n"
  by (subst ndigits.simps) simp

lemma ndigits_upper: "n < 10 ^ ndigits n"
proof (induction n rule: ndigits.induct)
  case (1 n)
  then show ?case
    by (cases "n < 10") (auto simp: ndigits.simps [of n] div_less_iff_less_mult)
qed

lemma ndigits_lower: "0 < n \<Longrightarrow> 10 ^ (ndigits n - 1) \<le> n"
proof (induction n rule: ndigits.induct)
  case (1 n)
  show ?case
  proof (cases "n < 10")
    case True
    with "1.prems" show ?thesis by (simp add: ndigits.simps [of n])
  next
    case False
    with "1.IH" have "10 ^ (ndigits (n div 10) - 1) \<le> n div 10" by simp
    then have "10 ^ (ndigits (n div 10) - 1) * 10 \<le> n"
      by (simp add: less_eq_div_iff_mult_less_eq)
    moreover have "10 ^ ndigits (n div 10) = 10 ^ (ndigits (n div 10) - 1) * (10::nat)"
      by (metis ndigits_pos power_minus_mult)
    ultimately show ?thesis using False by (simp add: ndigits.simps [of n])
  qed
qed

section \<open>Rounding half to even\<close>

definition rhe :: "real \<Rightarrow> int" where
  "rhe x = (let f = \<lfloor>x\<rfloor>; r = x - of_int f
            in if r < 1/2 \<or> (r = 1/2 \<and> even f) then f else f + 1)"

definition div_half_even :: "nat \<Rightarrow> nat \<Rightarrow> nat" where
  "div_half_even n d = (let q = n div d; r = n mod d
                        in if 2 * r < d \<or> (2 * r = d \<and> even q) then q else q + 1)"

lemma rhe_of_int [simp]: "rhe (of_int n) = n"
  by (simp add: rhe_def)

lemma rhe_bounds: "of_int (rhe x) - x \<le> 1/2" "x - of_int (rhe x) \<le> 1/2"
  unfolding rhe_def Let_def by (auto simp: not_less) linarith+

lemma rhe_mono: "x \<le> y \<Longrightarrow> rhe x \<le> rhe y"
proof -
  assume xy: "x \<le> y"
  then have f: "\<lfloor>x\<rfloor> \<le> \<lfloor>y\<rfloor>" by (rule floor_mono)
  show ?thesis
  proof (cases "\<lfloor>x\<rfloor> = \<lfloor>y\<rfloor>")
    case True
    with xy show ?thesis by (auto simp: rhe_def Let_def)
  next
    case False
    with f have "\<lfloor>x\<rfloor> + 1 \<le> \<lfloor>y\<rfloor>" by simp
    then show ?thesis by (auto simp: rhe_def Let_def)
  qed
qed

lemma rhe_div_half_even: "0 < d \<Longrightarrow> int (div_half_even n d) = rhe (real n / real d)"
proof -
  assume d: "0 < d"
  have fl: "\<lfloor>real n / real d\<rfloor> = int (n div d)"
    by (simp add: floor_divide_of_nat_eq)
  have r: "real n / real d - real_of_int (int (n div d)) = real (n mod d) / real d"
    using d by (simp add: real_of_nat_div field_simps flip: of_nat_mult of_nat_add)
  have "real (n mod d) / real d < 1/2 \<longleftrightarrow> 2 * (n mod d) < d"
    using d by (simp add: field_simps) linarith
  moreover have "real (n mod d) / real d = 1/2 \<longleftrightarrow> 2 * (n mod d) = d"
    using d by (simp add: field_simps) linarith
  ultimately show ?thesis
    unfolding rhe_def div_half_even_def Let_def fl r by simp
qed

section \<open>Rounding to p significant digits\<close>

text \<open>
  \<open>rnd p x\<close>: with \<open>k\<close> the decimal exponent of \<open>x\<close> (\<open>10^k \<le> |x| < 10^(k+1)\<close>),
  the nearest multiple of \<open>10^(k-p+1)\<close>, ties to the even one.
\<close>

definition dec_exponent :: "real \<Rightarrow> int" where
  "dec_exponent x = \<lfloor>log 10 x\<rfloor>"

definition rnd_pos :: "nat \<Rightarrow> real \<Rightarrow> real" where
  "rnd_pos p x = (let e = dec_exponent x - int p + 1
                  in of_int (rhe (x / 10 powi e)) * 10 powi e)"

definition rnd :: "nat \<Rightarrow> real \<Rightarrow> real" where
  "rnd p x = (if x = 0 then 0 else if x < 0 then - rnd_pos p (- x) else rnd_pos p x)"

lemma powi10_pos [simp]: "0 < (10::real) powi k"
  by (rule zero_less_power_int) simp

lemma powi10_powr: "(10::real) powi k = 10 powr of_int k"
  by (simp add: powr_real_of_int')

lemma powi10_le_iff [simp]: "(10::real) powi j \<le> 10 powi k \<longleftrightarrow> j \<le> k"
  by (simp add: powi10_powr)

lemma powi10_less_iff [simp]: "(10::real) powi j < 10 powi k \<longleftrightarrow> j < k"
  by (simp add: powi10_powr)

lemma powi10_add: "(10::real) powi (j + k) = 10 powi j * 10 powi k"
  by (rule power_int_add) simp

lemma powi10_diff: "(10::real) powi (j - k) = 10 powi j / 10 powi k"
  by (rule power_int_diff) simp

lemma powi10_nat: "0 \<le> k \<Longrightarrow> (10::real) powi k = 10 ^ nat k"
  by (simp add: power_int_def)

lemma dec_exponent_eqI:
  assumes "10 powi k \<le> x" and "x < 10 powi (k + 1)"
  shows "dec_exponent x = k"
proof -
  have x: "0 < x" using assms(1) powi10_pos [of k] by linarith
  have "of_int k \<le> log 10 x"
    using assms(1) x by (simp add: le_log_iff powi10_powr)
  moreover have "log 10 x < of_int (k + 1)"
    using assms(2) x by (simp add: log_less_iff powi10_powr)
  ultimately show ?thesis by (simp add: dec_exponent_def floor_eq_iff)
qed

lemma dec_exponent_bounds:
  assumes "0 < x"
  shows "10 powi dec_exponent x \<le> x" "x < 10 powi (dec_exponent x + 1)"
proof -
  have l: "of_int (dec_exponent x) \<le> log 10 x" and u: "log 10 x < of_int (dec_exponent x + 1)"
    by (simp_all add: dec_exponent_def)
  from l assms show "10 powi dec_exponent x \<le> x"
    by (simp add: le_log_iff powi10_powr)
  from u assms show "x < 10 powi (dec_exponent x + 1)"
    by (simp add: log_less_iff powi10_powr)
qed

lemma dec_exponent_mono: "0 < x \<Longrightarrow> x \<le> y \<Longrightarrow> dec_exponent x \<le> dec_exponent y"
  by (simp add: dec_exponent_def floor_mono)

text \<open>Within its decade the rounded mantissa lies between \<open>10^(p-1)\<close> and \<open>10^p\<close>.\<close>

lemma rnd_pos_decade:
  assumes "0 < x" "0 < p"
  shows "10 powi dec_exponent x \<le> rnd_pos p x" "rnd_pos p x \<le> 10 powi (dec_exponent x + 1)"
proof -
  define k where "k = dec_exponent x"
  define e where "e = k - int p + 1"
  have lo: "10 powi (k - e) \<le> x / 10 powi e" and hi: "x / 10 powi e \<le> 10 powi (k + 1 - e)"
    using dec_exponent_bounds [OF assms(1)]
    by (simp_all add: k_def powi10_diff divide_right_mono less_imp_le)
  have a: "(10::real) powi (k - e) = of_int (10 ^ (p - 1))"
    and b: "(10::real) powi (k + 1 - e) = of_int (10 ^ p)"
    using assms(2) by (simp_all add: e_def powi10_nat nat_diff_distrib)
  have "10 ^ (p - 1) \<le> rhe (x / 10 powi e)" and "rhe (x / 10 powi e) \<le> 10 ^ p"
    using rhe_mono [OF lo] rhe_mono [OF hi] unfolding a b rhe_of_int .
  then have "(10::real) powi (k - e) \<le> of_int (rhe (x / 10 powi e))"
    and "of_int (rhe (x / 10 powi e)) \<le> (10::real) powi (k + 1 - e)"
    by (simp_all only: a b of_int_le_iff)
  then have "10 powi (k - e) * 10 powi e \<le> rnd_pos p x"
    and "rnd_pos p x \<le> 10 powi (k + 1 - e) * 10 powi e"
    by (simp_all add: rnd_pos_def e_def k_def Let_def)
  then show "10 powi dec_exponent x \<le> rnd_pos p x" "rnd_pos p x \<le> 10 powi (dec_exponent x + 1)"
    by (simp_all flip: powi10_add add: k_def)
qed

lemma rnd_pos_pos: "0 < x \<Longrightarrow> 0 < p \<Longrightarrow> 0 < rnd_pos p x"
  using rnd_pos_decade(1) powi10_pos less_le_trans by blast

lemma rnd_pos_mono:
  assumes "0 < x" "x \<le> y" "0 < p"
  shows "rnd_pos p x \<le> rnd_pos p y"
proof (cases "dec_exponent x = dec_exponent y")
  case True
  have "x / 10 powi e \<le> y / 10 powi e" for e
    using assms(2) by (simp add: divide_right_mono less_imp_le)
  then have "rhe (x / 10 powi e) \<le> rhe (y / 10 powi e)" for e
    by (rule rhe_mono)
  with True show ?thesis
    by (simp add: rnd_pos_def Let_def mult_right_mono less_imp_le)
next
  case False
  with dec_exponent_mono assms have "dec_exponent x + 1 \<le> dec_exponent y" by force
  then have "(10::real) powi (dec_exponent x + 1) \<le> 10 powi dec_exponent y" by simp
  with rnd_pos_decade(2) [of x p] rnd_pos_decade(1) [of y p] assms show ?thesis by linarith
qed

section \<open>Interface: a rounding function\<close>

text \<open>
  What the fixed-precision formulas of the program rely on: rounding is monotone
  and fixes zero and one, hence keeps signs. The client lemmas below
  hold for every such function; they are used at the context precisions 28, 50
  and 60 through the interpretation \<open>r\<close>.
\<close>

locale rounding =
  fixes rd :: "real \<Rightarrow> real"
  assumes rd_mono: "x \<le> y \<Longrightarrow> rd x \<le> rd y"
    and rd_zero: "rd 0 = 0"
begin

lemma rd_nonneg: "0 \<le> x \<Longrightarrow> 0 \<le> rd x"
  using rd_mono [of 0 x] by (simp add: rd_zero)

lemma rd_nonpos: "x \<le> 0 \<Longrightarrow> rd x \<le> 0"
  using rd_mono [of x 0] by (simp add: rd_zero)

text \<open>A rounded product and a rounded quotient of nonnegative numbers are monotone.\<close>

lemma rd_mult_mono: "0 \<le> a \<Longrightarrow> a \<le> b \<Longrightarrow> 0 \<le> c \<Longrightarrow> c \<le> d \<Longrightarrow> rd (a * c) \<le> rd (b * d)"
  by (intro rd_mono mult_mono) auto

lemma rd_divide_mono:
  "0 \<le> a \<Longrightarrow> a \<le> b \<Longrightarrow> 0 < d \<Longrightarrow> d \<le> c \<Longrightarrow> rd (a / c) \<le> rd (b / d)"
  by (intro rd_mono frac_le) auto

lemma rd_diff_antimono: "b \<le> b' \<Longrightarrow> rd (a - b') \<le> rd (a - b)"
  by (intro rd_mono) simp

lemma rd_diff_mono: "a \<le> a' \<Longrightarrow> rd (a - b) \<le> rd (a' - b)"
  by (intro rd_mono) simp

end

lemma rnd_zero [simp]: "rnd p 0 = 0"
  by (simp add: rnd_def)

lemma rnd_minus [simp]: "rnd p (- x) = - rnd p x"
  by (simp add: rnd_def)

lemma rnd_mono:
  assumes "0 < p" "x \<le> y"
  shows "rnd p x \<le> rnd p y"
proof -
  consider "0 < x" | "y < 0" | "x \<le> 0" "0 \<le> y" by linarith
  then show ?thesis
  proof cases
    case 1
    with assms show ?thesis by (simp add: rnd_def rnd_pos_mono)
  next
    case 2
    with assms show ?thesis by (simp add: rnd_def rnd_pos_mono)
  next
    case 3
    then have "rnd p x \<le> 0" "0 \<le> rnd p y"
      using rnd_pos_pos [of "- x" p] rnd_pos_pos [of y p] assms(1)
      by (auto simp: rnd_def less_imp_le)
    then show ?thesis by linarith
  qed
qed

interpretation r28: rounding "rnd 28"
  by unfold_locales (auto intro: rnd_mono)

interpretation r50: rounding "rnd 50"
  by unfold_locales (auto intro: rnd_mono)

interpretation r60: rounding "rnd 60"
  by unfold_locales (auto intro: rnd_mono)

lemma rnd_pos_iff: "0 < p \<Longrightarrow> 0 < rnd p x \<longleftrightarrow> 0 < x"
  using rnd_mono [of p x 0] by (cases "0 < x") (auto simp: rnd_def rnd_pos_pos not_less)

lemma rnd_nonneg: "0 < p \<Longrightarrow> 0 \<le> x \<Longrightarrow> 0 \<le> rnd p x"
  using rnd_mono [of p 0 x] by simp

text \<open>Relative error of one rounding: at most half a unit in the last of \<open>p\<close> places.\<close>

lemma rnd_error:
  assumes "0 < p"
  shows "\<bar>rnd p x - x\<bar> \<le> \<bar>x\<bar> * (10 powi (1 - int p) / 2)"
proof -
  have pos: "\<bar>rnd_pos p y - y\<bar> \<le> y * (10 powi (1 - int p) / 2)" if "0 < y" for y
  proof -
    define e where "e = dec_exponent y - int p + 1"
    have "\<bar>of_int (rhe (y / 10 powi e)) - y / 10 powi e\<bar> \<le> 1/2"
      using rhe_bounds [of "y / 10 powi e"] by linarith
    then have "\<bar>of_int (rhe (y / 10 powi e)) - y / 10 powi e\<bar> * 10 powi e \<le> 1/2 * 10 powi e"
      by (intro mult_right_mono) (auto simp: less_imp_le)
    moreover have "\<bar>of_int (rhe (y / 10 powi e)) - y / 10 powi e\<bar> * 10 powi e = \<bar>rnd_pos p y - y\<bar>"
    proof -
      have "(of_int (rhe (y / 10 powi e)) - y / 10 powi e) * 10 powi e = rnd_pos p y - y"
        by (simp add: left_diff_distrib rnd_pos_def Let_def flip: e_def)
      then show ?thesis by (metis abs_mult_pos less_imp_le powi10_pos)
    qed
    moreover have "e = dec_exponent y + (1 - int p)"
      by (simp add: e_def)
    then have "(10::real) powi e = 10 powi dec_exponent y * 10 powi (1 - int p)"
      by (simp only: powi10_add)
    moreover have "10 powi dec_exponent y * 10 powi (1 - int p) \<le> y * 10 powi (1 - int p)"
      using dec_exponent_bounds(1) [OF that] by (intro mult_right_mono) (auto simp: less_imp_le)
    ultimately show ?thesis by linarith
  qed
  consider "x = 0" | "0 < x" | "x < 0" by linarith
  then show ?thesis
    using pos [of x] pos [of "- x"] by cases (auto simp: rnd_def)
qed

section \<open>Rounding a ratio of coefficients\<close>

text \<open>
  The common core of the operations: \<open>round_ratio p s n d e\<close> is the decimal with
  at most \<open>p\<close> digits nearest to \<open>\<plusminus> n/d * 10^e\<close>, found by scaling the ratio into
  \<open>[10^(p-1), 10^p)\<close>.
\<close>

definition scaled_num :: "nat \<Rightarrow> int \<Rightarrow> nat" where
  "scaled_num n s = (if 0 \<le> s then n * 10 ^ nat s else n)"

definition scaled_den :: "nat \<Rightarrow> int \<Rightarrow> nat" where
  "scaled_den d s = (if 0 \<le> s then d else d * 10 ^ nat (- s))"

definition ratio_shift :: "nat \<Rightarrow> nat \<Rightarrow> nat \<Rightarrow> int" where
  "ratio_shift p n d =
     (let s = int p - (int (ndigits n) - int (ndigits d))
      in if scaled_num n s < 10 ^ p * scaled_den d s then s else s - 1)"

definition round_ratio :: "nat \<Rightarrow> bool \<Rightarrow> nat \<Rightarrow> nat \<Rightarrow> int \<Rightarrow> decimal" where
  "round_ratio p neg n d e =
     (let s = ratio_shift p n d; q = div_half_even (scaled_num n s) (scaled_den d s)
      in if q = 10 ^ p then Dec neg (10 ^ (p - 1)) (e - s + 1) else Dec neg q (e - s))"

lemma scaled_ratio: "real (scaled_num n s) / real (scaled_den d s) = real n / real d * 10 powi s"
  by (auto simp: scaled_num_def scaled_den_def powi10_nat power_int_def field_simps)

lemma scaled_den_pos: "0 < d \<Longrightarrow> 0 < scaled_den d s"
  by (simp add: scaled_den_def)

lemma powi10_digits:
  assumes "0 < n"
  shows "10 powi (int (ndigits n) - 1) \<le> real n"
proof -
  have "real (10 ^ (ndigits n - 1)) \<le> real n"
    by (simp only: of_nat_le_iff ndigits_lower [OF assms])
  moreover have "10 powi (int (ndigits n) - 1) = real (10 ^ (ndigits n - 1))"
    by (simp add: powi10_nat nat_diff_distrib Suc_leI)
  ultimately show ?thesis by simp
qed

lemma powi10_digits_upper: "real n < 10 powi int (ndigits n)"
proof -
  have "real n < real (10 ^ ndigits n)"
    by (simp only: of_nat_less_iff ndigits_upper)
  then show ?thesis by (simp add: powi10_nat)
qed

lemma ratio_shift_bounds:
  assumes "0 < n" "0 < d" "0 < p"
  defines "y \<equiv> real n / real d * 10 powi ratio_shift p n d"
  shows "10 powi (int p - 1) \<le> y" "y < 10 powi int p"
proof -
  define s where "s = int p - (int (ndigits n) - int (ndigits d))"
  define z where "z k = real n / real d * 10 powi k" for k
  have "10 powi (int (ndigits n) - 1) / 10 powi int (ndigits d) \<le> real n / real d"
    using powi10_digits [OF assms(1)] powi10_digits_upper [of d] assms(2)
    by (intro frac_le) auto
  then have "10 powi (int (ndigits n) - 1 - int (ndigits d)) * 10 powi s \<le> z s"
    unfolding z_def by (intro mult_right_mono) (auto simp: powi10_diff less_imp_le)
  moreover have "int (ndigits n) - 1 - int (ndigits d) + s = int p - 1" by (simp add: s_def)
  ultimately have lo: "10 powi (int p - 1) \<le> z s" by (metis powi10_add)
  have "real n / real d < 10 powi int (ndigits n) / 10 powi (int (ndigits d) - 1)"
    using powi10_digits [OF assms(2)] powi10_digits_upper [of n] assms(1)
    by (intro frac_less) auto
  then have "z s < 10 powi (int (ndigits n) - (int (ndigits d) - 1)) * 10 powi s"
    unfolding z_def by (intro mult_strict_right_mono) (auto simp: powi10_diff)
  moreover have "int (ndigits n) - (int (ndigits d) - 1) + s = int p + 1" by (simp add: s_def)
  ultimately have hi: "z s < 10 powi (int p + 1)" by (metis powi10_add)
  have c: "scaled_num n s < 10 ^ p * scaled_den d s \<longleftrightarrow> z s < 10 powi int p"
  proof -
    have "scaled_num n s < 10 ^ p * scaled_den d s \<longleftrightarrow>
        real (scaled_num n s) < real (10 ^ p * scaled_den d s)"
      by (simp only: of_nat_less_iff)
    also have "\<dots> \<longleftrightarrow> real (scaled_num n s) / real (scaled_den d s) < 10 ^ p"
      using scaled_den_pos [OF assms(2), of s] by (simp add: pos_divide_less_eq)
    finally show ?thesis by (simp only: scaled_ratio z_def powi10_nat of_nat_0_le_iff nat_int)
  qed
  have z1: "z (s - 1) = z s / 10" by (simp add: z_def powi10_diff)
  have p1: "(10::real) powi (int p + 1) = 10 powi int p * 10" "(10::real) powi (int p - 1) = 10 powi int p / 10"
    by (simp_all only: powi10_add powi10_diff power_int_1_right)
  have y: "y = z (if scaled_num n s < 10 ^ p * scaled_den d s then s else s - 1)"
    by (simp only: y_def z_def ratio_shift_def Let_def s_def)
  show "10 powi (int p - 1) \<le> y" "y < 10 powi int p"
  proof -
    have "10 powi (int p - 1) \<le> y \<and> y < 10 powi int p"
    proof (cases "z s < 10 powi int p")
      case True
      with c lo show ?thesis by (simp only: y if_True)
    next
      case False
      then have yz: "y = z s / 10" using c z1 by (simp only: y if_False)
      show ?thesis using False hi unfolding p1 yz by linarith
    qed
    then show "10 powi (int p - 1) \<le> y" "y < 10 powi int p" by simp_all
  qed
qed

lemma dneg_round_ratio: "dneg (round_ratio p neg n d e) = neg"
  by (simp add: round_ratio_def Let_def)

theorem dval_round_ratio:
  assumes "0 < d" "0 < p"
  shows "dval (round_ratio p neg n d e) = rnd p ((if neg then -1 else 1) * (real n / real d * 10 powi e))"
proof (cases "n = 0")
  case True
  have "div_half_even 0 k = 0" if "0 < k" for k
    using that by (simp add: div_half_even_def)
  then have "div_half_even (scaled_num 0 s) (scaled_den d s) = 0" for s
    using scaled_den_pos [OF assms(1)] by (simp add: scaled_num_def)
  then show ?thesis using True by (simp add: round_ratio_def dval_Dec Let_def)
next
  case False
  define s where "s = ratio_shift p n d"
  define x where "x = real n / real d * 10 powi e"
  define y where "y = real n / real d * 10 powi s"
  have y: "10 powi (int p - 1) \<le> y" "y < 10 powi int p"
    using ratio_shift_bounds False assms unfolding y_def s_def by blast+
  have xy: "x = y * 10 powi (e - s)"
    by (simp add: x_def y_def powi10_diff)
  have x: "0 < x" using False assms by (simp add: x_def)
  have "dec_exponent x = int p - 1 + (e - s)"
  proof (rule dec_exponent_eqI)
    show "10 powi (int p - 1 + (e - s)) \<le> x"
      using y(1) by (simp add: xy powi10_add mult_right_mono less_imp_le)
    have "int p - 1 + (e - s) + 1 = int p + (e - s)" by simp
    then show "x < 10 powi (int p - 1 + (e - s) + 1)"
      using y(2) by (simp only: xy powi10_add mult_strict_right_mono powi10_pos)
  qed
  then have "rnd p x = of_int (rhe (x / 10 powi (e - s))) * 10 powi (e - s)"
    using x by (simp add: rnd_def rnd_pos_def Let_def)
  also have "x / 10 powi (e - s) = real (scaled_num n s) / real (scaled_den d s)"
    by (simp add: xy scaled_ratio y_def)
  also have "rhe \<dots> = int (div_half_even (scaled_num n s) (scaled_den d s))"
    using rhe_div_half_even scaled_den_pos [OF assms(1)] by simp
  finally have r: "rnd p x = real (div_half_even (scaled_num n s) (scaled_den d s)) * 10 powi (e - s)"
    by simp
  have carry: "(10::real) ^ (p - 1) * 10 powi (e - s + 1) = 10 ^ p * 10 powi (e - s)"
    using assms(2) by (simp add: powi10_add power_minus_mult flip: power_Suc2)
  have "dval (round_ratio p neg n d e) = (if neg then -1 else 1) * rnd p x"
    using carry by (simp add: round_ratio_def Let_def dval_Dec r flip: s_def)
  then show ?thesis by (cases neg) (simp_all add: x_def)
qed

section \<open>The operations\<close>

definition dfix :: "nat \<Rightarrow> decimal \<Rightarrow> decimal" where
  "dfix p d = (if ndigits (dcoef d) \<le> p then d else round_ratio p (dneg d) (dcoef d) 1 (dexp d))"

definition signed_coef :: "decimal \<Rightarrow> int" where
  "signed_coef d = (if dneg d then - int (dcoef d) else int (dcoef d))"

text \<open>The coefficients of two decimals at their common exponent.\<close>

definition aligned :: "decimal \<Rightarrow> decimal \<Rightarrow> int \<times> int" where
  "aligned a b = (let e = min (dexp a) (dexp b)
                  in (signed_coef a * 10 ^ nat (dexp a - e), signed_coef b * 10 ^ nat (dexp b - e)))"

definition dle :: "decimal \<Rightarrow> decimal \<Rightarrow> bool" where
  "dle a b = (case aligned a b of (x, y) \<Rightarrow> x \<le> y)"

definition dlt :: "decimal \<Rightarrow> decimal \<Rightarrow> bool" where
  "dlt a b = (case aligned a b of (x, y) \<Rightarrow> x < y)"

definition deq :: "decimal \<Rightarrow> decimal \<Rightarrow> bool" where
  "deq a b = (case aligned a b of (x, y) \<Rightarrow> x = y)"

definition dadd :: "nat \<Rightarrow> decimal \<Rightarrow> decimal \<Rightarrow> decimal" where
  "dadd p a b =
     (case aligned a b of (x, y) \<Rightarrow>
        dfix p (Dec (if x + y = 0 then dneg a \<and> dneg b else x + y < 0)
                    (nat \<bar>x + y\<bar>) (min (dexp a) (dexp b))))"

definition dnegate :: "decimal \<Rightarrow> decimal" where
  "dnegate d = Dec (\<not> dneg d) (dcoef d) (dexp d)"

definition dsub :: "nat \<Rightarrow> decimal \<Rightarrow> decimal \<Rightarrow> decimal" where
  "dsub p a b = dadd p a (dnegate b)"

definition dmul :: "nat \<Rightarrow> decimal \<Rightarrow> decimal \<Rightarrow> decimal" where
  "dmul p a b = dfix p (Dec (dneg a \<noteq> dneg b) (dcoef a * dcoef b) (dexp a + dexp b))"

text \<open>\<open>abs(x)\<close> and unary minus round to the context as well.\<close>

definition dabs :: "nat \<Rightarrow> decimal \<Rightarrow> decimal" where
  "dabs p d = dfix p (Dec False (dcoef d) (dexp d))"

definition duminus :: "nat \<Rightarrow> decimal \<Rightarrow> decimal" where
  "duminus p d = dfix p (if dcoef d = 0 then Dec False 0 (dexp d) else dnegate d)"

text \<open>
  Division: \<open>None\<close> is the \<open>DivisionByZero\<close> (or \<open>InvalidOperation\<close>, 0/0) the
  default traps raise. An exact quotient is brought as close to the ideal
  exponent as trailing zeros allow.
\<close>

function strip_zeros :: "nat \<Rightarrow> int \<Rightarrow> int \<Rightarrow> nat \<times> int" where
  "strip_zeros c e ideal =
     (if 0 < c \<and> e < ideal \<and> c mod 10 = 0 then strip_zeros (c div 10) (e + 1) ideal else (c, e))"
  by pat_completeness auto
termination
  by (relation "measure (\<lambda>(c, e, ideal). nat (ideal - e))") auto

declare strip_zeros.simps [simp del]

definition ddiv :: "nat \<Rightarrow> decimal \<Rightarrow> decimal \<Rightarrow> decimal option" where
  "ddiv p a b =
     (let neg = (dneg a \<noteq> dneg b); ideal = dexp a - dexp b
      in if dcoef b = 0 then None
         else if dcoef a = 0 then Some (Dec neg 0 ideal)
         else let r = round_ratio p neg (dcoef a) (dcoef b) ideal;
                  s = ratio_shift p (dcoef a) (dcoef b)
              in if scaled_num (dcoef a) s mod scaled_den (dcoef b) s = 0
                 then case strip_zeros (dcoef r) (dexp r) ideal of (c, e) \<Rightarrow> Some (Dec neg c e)
                 else Some r)"

text \<open>The values: each operation is the exact one followed by one rounding.\<close>

lemma rnd_exact:
  assumes "m < 10 ^ p" "0 < p"
  shows "rnd p (real m * 10 powi e) = real m * 10 powi e"
proof (cases "m = 0")
  case False
  let ?x = "real m * 10 powi e"
  let ?f = "dec_exponent ?x - int p + 1"
  have x: "0 < ?x" using False by simp
  have "real m < real (10 ^ p)" by (simp only: of_nat_less_iff assms(1))
  then have "?x < 10 powi int p * 10 powi e" by (simp add: powi10_nat)
  then have "?x < 10 powi (int p + e)" by (simp only: powi10_add)
  with dec_exponent_bounds(1) [OF x] have "10 powi dec_exponent ?x < (10::real) powi (int p + e)"
    by (rule le_less_trans)
  then have le: "?f \<le> e" by simp
  define k where "k = int m * 10 ^ nat (e - ?f)"
  define g where "g = (10::real) powi ?f"
  have g: "g \<noteq> 0" by (simp add: g_def)
  have "(10::real) powi e = 10 powi (e - ?f) * 10 powi ?f"
    by (simp flip: powi10_add)
  also have "(10::real) powi (e - ?f) = 10 ^ nat (e - ?f)"
    using le by (simp add: power_int_def)
  finally have k: "?x = of_int k * g"
    by (simp add: k_def g_def)
  then have "?x / g = of_int k" using g by (metis nonzero_mult_div_cancel_right)
  then have "rnd_pos p ?x = of_int k * g"
    unfolding rnd_pos_def Let_def g_def by (simp only: rhe_of_int)
  also have "\<dots> = ?x" by (simp only: k)
  finally show ?thesis using x by (simp add: rnd_def)
qed simp

lemma rnd_idem [simp]:
  assumes "0 < p"
  shows "rnd p (rnd p x) = rnd p x"
proof -
  have pos: "rnd p (rnd_pos p y) = rnd_pos p y" if y: "0 < y" for y
  proof -
    define f where "f = dec_exponent y - int p + 1"
    define m where "m = rhe (y / 10 powi f)"
    have v: "rnd_pos p y = of_int m * 10 powi f" by (simp add: rnd_pos_def Let_def m_def f_def)
    have "y < 10 powi (dec_exponent y + 1)" by (rule dec_exponent_bounds(2) [OF y])
    also have "dec_exponent y + 1 = int p + f" by (simp add: f_def)
    finally have "y / 10 powi f < 10 powi int p"
      by (simp add: powi10_add pos_divide_less_eq)
    then have "y / 10 powi f \<le> of_int (10 ^ p)" by (simp add: powi10_nat)
    then have "m \<le> rhe (of_int (10 ^ p))" unfolding m_def by (rule rhe_mono)
    then have le: "m \<le> 10 ^ p" by (simp only: rhe_of_int)
    have "0 \<le> y / 10 powi f" using y by (simp add: less_imp_le)
    then have "rhe 0 \<le> m" unfolding m_def by (intro rhe_mono) simp
    then have nn: "0 \<le> m" using rhe_of_int [of 0] by simp
    show ?thesis
    proof (cases "m = 10 ^ p")
      case True
      then have "rnd_pos p y = real 1 * 10 powi (int p + f)" by (simp add: v powi10_add powi10_nat)
      then show ?thesis using rnd_exact [of 1 p "int p + f"] assms one_less_power [of "10::nat" p] by simp
    next
      case False
      with le nn have "nat m < 10 ^ p" by (simp add: nat_less_iff)
      moreover have "rnd_pos p y = real (nat m) * 10 powi f" using nn by (simp add: v)
      ultimately show ?thesis using rnd_exact assms by simp
    qed
  qed
  show ?thesis
  proof (cases "0 \<le> x")
    case True
    then show ?thesis using pos [of x] by (cases "x = 0") (simp_all add: rnd_def [of p x])
  next
    case False
    then have "rnd p x = - rnd_pos p (- x)" by (simp add: rnd_def)
    then show ?thesis using pos [of "- x"] False by simp
  qed
qed

lemma ndigits_le: "ndigits n \<le> p \<Longrightarrow> n < 10 ^ p"
  by (rule less_le_trans [OF ndigits_upper power_increasing]) simp_all

lemma dval_dfix [dval_simps]: "0 < p \<Longrightarrow> dval (dfix p d) = rnd p (dval d)"
  by (cases d; cases "dneg d")
    (auto simp: dfix_def dval_round_ratio dval_Dec rnd_exact [OF ndigits_le])

lemma dval_signed: "dval d = of_int (signed_coef d) * 10 powi dexp d"
  by (simp add: dval_def signed_coef_def)

lemma aligned_vals:
  assumes "aligned a b = (x, y)"
  shows "dval a = of_int x * 10 powi min (dexp a) (dexp b)"
    and "dval b = of_int y * 10 powi min (dexp a) (dexp b)"
proof -
  have "(10::real) ^ nat (k - e) * 10 powi e = 10 powi k" if "e \<le> k" for k e
    using that by (simp flip: powi10_nat powi10_add)
  then show "dval a = of_int x * 10 powi min (dexp a) (dexp b)"
    and "dval b = of_int y * 10 powi min (dexp a) (dexp b)"
    using assms by (auto simp: aligned_def Let_def dval_signed mult.assoc)
qed

lemma dle_iff [dval_simps]: "dle a b \<longleftrightarrow> dval a \<le> dval b"
  using aligned_vals [of a b] by (auto simp: dle_def split: prod.split)

lemma dlt_iff [dval_simps]: "dlt a b \<longleftrightarrow> dval a < dval b"
  using aligned_vals [of a b] by (auto simp: dlt_def split: prod.split)

lemma deq_iff [dval_simps]: "deq a b \<longleftrightarrow> dval a = dval b"
  using aligned_vals [of a b] by (auto simp: deq_def split: prod.split)

lemma dval_nat_abs: "dval (Dec (if z = 0 then s else z < 0) (nat \<bar>z\<bar>) e) = of_int z * 10 powi e"
  by (auto simp: dval_Dec)

lemma dval_dadd [dval_simps]: "0 < p \<Longrightarrow> dval (dadd p a b) = rnd p (dval a + dval b)"
proof -
  assume p: "0 < p"
  obtain x y where xy: "aligned a b = (x, y)" by fastforce
  have "dval a + dval b = of_int (x + y) * 10 powi min (dexp a) (dexp b)"
    by (simp add: aligned_vals [OF xy] distrib_right)
  with p show ?thesis
    by (simp only: dadd_def xy prod.case dval_dfix dval_nat_abs)
qed

lemma dval_dnegate [dval_simps]: "dval (dnegate d) = - dval d"
  by (simp add: dnegate_def dval_def)

lemma dval_dsub [dval_simps]: "0 < p \<Longrightarrow> dval (dsub p a b) = rnd p (dval a - dval b)"
  by (simp add: dsub_def dval_simps)

lemma dval_dmul [dval_simps]: "0 < p \<Longrightarrow> dval (dmul p a b) = rnd p (dval a * dval b)"
proof -
  assume p: "0 < p"
  have "dval (Dec (dneg a \<noteq> dneg b) (dcoef a * dcoef b) (dexp a + dexp b)) = dval a * dval b"
    by (simp add: dval_def powi10_add)
  with p show ?thesis by (simp add: dmul_def dval_dfix)
qed

lemma dval_dabs [dval_simps]: "0 < p \<Longrightarrow> dval (dabs p d) = rnd p \<bar>dval d\<bar>"
  by (simp add: dabs_def dval_dfix) (simp add: dval_def abs_mult)

lemma dval_duminus [dval_simps]: "0 < p \<Longrightarrow> dval (duminus p d) = - rnd p (dval d)"
  by (simp add: duminus_def dval_dfix dval_dnegate) (simp add: dval_def)

lemma strip_zeros_val: "strip_zeros c e i = (c', e') \<Longrightarrow> real c' * 10 powi e' = real c * 10 powi e"
proof (induction c e i rule: strip_zeros.induct)
  case (1 c e i)
  show ?case
  proof (cases "0 < c \<and> e < i \<and> c mod 10 = 0")
    case True
    then have "real c = real (c div 10) * 10"
      by (metis mod_0_imp_dvd dvd_div_mult_self of_nat_mult of_nat_numeral)
    with True "1.IH" [OF True] "1.prems" show ?thesis
      by (simp add: strip_zeros.simps [of c] powi10_add)
  next
    case False
    with "1.prems" show ?thesis by (auto simp: strip_zeros.simps [of c])
  qed
qed

lemma dval_ddiv [dval_simps]:
  assumes "0 < p" "ddiv p a b = Some q"
  shows "dval q = rnd p (dval a / dval b)"
proof -
  let ?neg = "dneg a \<noteq> dneg b" and ?i = "dexp a - dexp b"
  have b: "dcoef b \<noteq> 0"
  proof
    assume "dcoef b = 0"
    then have "ddiv p a b = None" by (simp add: ddiv_def)
    with assms(2) show False by simp
  qed
  have v: "dval a / dval b = (if ?neg then -1 else 1) * (real (dcoef a) / real (dcoef b) * 10 powi ?i)"
    by (auto simp: dval_def powi10_diff)
  show ?thesis
  proof (cases "dcoef a = 0")
    case True
    with assms b show ?thesis by (auto simp: ddiv_def Let_def dval_def)
  next
    case False
    define r where "r = round_ratio p ?neg (dcoef a) (dcoef b) ?i"
    have r: "dval r = rnd p (dval a / dval b)" "dneg r = ?neg"
      using dval_round_ratio [of "dcoef b" p ?neg "dcoef a" ?i] b assms(1)
      by (simp only: r_def v) (simp add: r_def dneg_round_ratio)
    obtain c e where ce: "strip_zeros (dcoef r) (dexp r) ?i = (c, e)" by fastforce
    have "dval (Dec ?neg c e) = dval r"
      using strip_zeros_val [OF ce] by (simp add: dval_def r(2) mult.assoc)
    have "q = Dec ?neg c e \<or> q = r"
      using assms(2) b False ce
      by (simp only: ddiv_def Let_def if_False r_def [symmetric] prod.case split: if_splits) auto
    with \<open>dval (Dec ?neg c e) = dval r\<close> r(1) show ?thesis by auto
  qed
qed

lemma ddiv_None_iff: "ddiv p a b = None \<longleftrightarrow> dval b = 0"
  by (auto simp: ddiv_def Let_def dval_def split: prod.split)

end
