(* ===== verification/Pystring.thy ===== *)
theory Pystring
  imports Prelude "HOL-Library.Char_ord"
begin

text \<open>
  The string operations of Python the program uses, on strings of characters with
  code points below 256: \<open>strip\<close>, \<open>split\<close> with a separator, \<open>startswith\<close>, \<open>lower\<close>,
  \<open>upper\<close>, \<open>in\<close>, \<open>join\<close>, decimal and hexadecimal numerals. Python's strings are of Unicode
  characters: \<open>strip\<close> here knows the blanks below 256 only, \<open>lower\<close> and \<open>upper\<close> the ASCII letters
  only (so \<open>casefold\<close> is \<open>lower\<close>), and a character above 255 of a message, such as the dash, is written
  as its UTF-8 bytes, none of which is stripped or changed in case here. What the definitions say of
  texts with other characters is not claimed of the program.
\<close>

section \<open>Characters\<close>

definition is_space :: "char \<Rightarrow> bool" where
  "is_space c = (let k = of_char c :: nat in 9 \<le> k \<and> k \<le> 13 \<or> 28 \<le> k \<and> k \<le> 32 \<or> k = 133 \<or> k = 160)"

definition is_digit :: "char \<Rightarrow> bool" where
  "is_digit c = (let k = of_char c :: nat in 48 \<le> k \<and> k \<le> 57)"

definition is_lower_az :: "char \<Rightarrow> bool" where
  "is_lower_az c = (let k = of_char c :: nat in 97 \<le> k \<and> k \<le> 122)"

definition is_upper_az :: "char \<Rightarrow> bool" where
  "is_upper_az c = (let k = of_char c :: nat in 65 \<le> k \<and> k \<le> 90)"

definition to_lower :: "char \<Rightarrow> char" where
  "to_lower c = (if is_upper_az c then char_of (of_char c + 32 :: nat) else c)"

definition to_upper :: "char \<Rightarrow> char" where
  "to_upper c = (if is_lower_az c then char_of (of_char c - 32 :: nat) else c)"

definition lower :: "string \<Rightarrow> string" where
  "lower s = map to_lower s"

definition upper :: "string \<Rightarrow> string" where
  "upper s = map to_upper s"

section \<open>Searching and splitting\<close>

definition strip :: "string \<Rightarrow> string" where
  "strip s = rev (dropWhile is_space (rev (dropWhile is_space s)))"

fun startswith :: "string \<Rightarrow> string \<Rightarrow> bool" where
  "startswith s [] = True"
| "startswith [] (p # ps) = False"
| "startswith (c # s) (p # ps) = (c = p \<and> startswith s ps)"

fun substring_in :: "string \<Rightarrow> string \<Rightarrow> bool" where
  "substring_in p [] = (p = [])"
| "substring_in p (c # s) = (startswith (c # s) p \<or> substring_in p s)"

text \<open>\<open>s.split(c)\<close> with a one-character separator: never an empty list.\<close>

fun split_on :: "char \<Rightarrow> string \<Rightarrow> string list" where
  "split_on d [] = [[]]"
| "split_on d (c # s) =
     (if c = d then [] # split_on d s
      else case split_on d s of [] \<Rightarrow> [[c]] | w # ws \<Rightarrow> (c # w) # ws)"

fun join_with :: "char \<Rightarrow> string list \<Rightarrow> string" where
  "join_with d [] = []"
| "join_with d [w] = w"
| "join_with d (w # v # ws) = w @ d # join_with d (v # ws)"

text \<open>\<open>s.replace(old, new)\<close> for a non-empty \<open>old\<close>: leftmost, non-overlapping; \<open>s.strip("c")\<close> and
  \<open>s.rstrip("c")\<close> of one character.\<close>

function replace_all :: "string \<Rightarrow> string \<Rightarrow> string \<Rightarrow> string" where
  "replace_all old new [] = []"
| "replace_all old new (c # s) =
     (if old \<noteq> [] \<and> startswith (c # s) old then new @ replace_all old new (drop (List.length old) (c # s))
      else c # replace_all old new s)"
  by pat_completeness auto
termination by (relation "measure (\<lambda>(_, _, s). List.length s)") auto

definition rstrip_char :: "char \<Rightarrow> string \<Rightarrow> string" where
  "rstrip_char d s = rev (dropWhile (\<lambda>c. c = d) (rev s))"

definition strip_char :: "char \<Rightarrow> string \<Rightarrow> string" where
  "strip_char d s = rstrip_char d (dropWhile (\<lambda>c. c = d) s)"

lemma split_on_not_Nil [simp]: "split_on d s \<noteq> []"
  by (induction s) (auto split: list.split)

lemma join_split [simp]: "join_with d (split_on d s) = s"
proof (induction s)
  case (Cons c s)
  then show ?case by (cases "split_on d s") (auto elim: list.set_cases, metis join_with.simps list.exhaust append_Cons)
qed simp

lemma split_on_no_sep: "w \<in> set (split_on d s) \<Longrightarrow> d \<notin> set w"
proof (induction s arbitrary: w)
  case (Cons c s)
  then show ?case by (cases "split_on d s") (auto split: if_splits)
qed simp

lemma startswith_iff: "startswith s p \<longleftrightarrow> (\<exists>t. s = p @ t)"
  by (induction s p rule: startswith.induct) auto

lemma strip_subset: "set (strip s) \<subseteq> set s"
  by (auto simp: strip_def dest!: set_dropWhileD)

text \<open>An em dash, in UTF-8.\<close>

definition dash :: string where
  "dash = [CHR 0xE2, CHR 0x80, CHR 0x94]"

section \<open>Redaction\<close>

lemma substring_in_iff: "substring_in p s \<longleftrightarrow> (\<exists>a b. s = a @ p @ b)"
proof (induction s)
  case (Cons c s)
  have "(\<exists>a b. c # s = a @ p @ b) \<longleftrightarrow> (\<exists>b. c # s = p @ b) \<or> (\<exists>a b. s = a @ p @ b)"
    by (metis append_Cons append_Nil list.exhaust list.inject)
  then show ?case using Cons by (simp add: startswith_iff)
qed auto

text \<open>No occurrence of the secret survives, when the replacement shares no character with it.\<close>

lemma replace_all_removes:
  assumes "old \<noteq> []" "set old \<inter> set new = {}" "new \<noteq> []"
  shows "\<not> substring_in old (replace_all old new s)
    \<and> (\<forall>p. p \<noteq> [] \<longrightarrow> length p < length old \<longrightarrow> startswith (replace_all old new s) p \<longrightarrow> set p \<inter> set new = {} \<longrightarrow> startswith s p)"
  using assms
proof (induction old new s rule: replace_all.induct)
  case (1 old new)
  then show ?case by (auto simp: startswith_iff)
next
  case (2 old new c s)
  obtain n ns where new: "new = n # ns" using 2(5) by (cases new) auto
  show ?case
  proof (cases "startswith (c # s) old")
    case True
    have r: "replace_all old new (c # s) = new @ replace_all old new (drop (length old) (c # s))"
      using True 2(3) by simp
    have ih: "\<not> substring_in old (replace_all old new (drop (length old) (c # s)))"
      using 2(1) [OF _ 2(3-5)] True 2(3) by blast
    have "\<not> substring_in old (new @ rest)" if "\<not> substring_in old rest" for rest
    proof -
      have "\<not> substring_in old (xs @ rest)" if "set xs \<subseteq> set new" for xs
        using that
      proof (induction xs)
        case (Cons x xs)
        obtain y ys where old: "old = y # ys" using 2(3) by (cases old) auto
        have "x \<noteq> y" using Cons.prems 2(4) old by auto
        then have "\<not> startswith (x # xs @ rest) old" by (simp add: old)
        with Cons show ?case by simp
      qed (use \<open>\<not> substring_in old rest\<close> in simp)
      then show ?thesis by simp
    qed
    with ih have "\<not> substring_in old (replace_all old new (c # s))" unfolding r by blast
    moreover have "\<not> startswith (new @ rest) p" if "p \<noteq> []" "set p \<inter> set new = {}" for p rest
      using that by (cases p) (auto simp: new)
    ultimately show ?thesis unfolding r by blast
  next
    case False
    have r: "replace_all old new (c # s) = c # replace_all old new s" using False by simp
    have ih: "\<not> substring_in old (replace_all old new s)"
      "\<And>p. p \<noteq> [] \<Longrightarrow> length p < length old \<Longrightarrow> startswith (replace_all old new s) p \<Longrightarrow> set p \<inter> set new = {} \<Longrightarrow> startswith s p"
      using 2(2) [OF _ 2(3-5)] False by blast+
    have pre: "startswith (c # s) p"
      if "p \<noteq> []" "length p \<le> length old" "startswith (c # replace_all old new s) p" "set p \<inter> set new = {}" for p
    proof (cases p)
      case (Cons d q)
      with that have "c = d" "startswith (replace_all old new s) q" by simp_all
      moreover from this have "q = [] \<or> startswith s q" using that Cons ih(2) [of q] by auto
      ultimately show ?thesis using Cons by auto
    qed (use that in simp)
    have "\<not> startswith (c # replace_all old new s) old"
      using pre [of old] False 2(3,4) by blast
    with ih(1) pre show ?thesis unfolding r by auto
  qed
qed

fun joined :: "string \<Rightarrow> string list \<Rightarrow> string" where
  "joined sep [] = []"
| "joined sep [p] = p"
| "joined sep (p # q # ps) = p @ sep @ joined sep (q # ps)"

text \<open>Whatever the replacement: the text is pieces joined by the secret, none of which holds it, and the result is
  the same pieces joined by the replacement.\<close>

lemma replace_all_pieces:
  assumes "old \<noteq> []"
  shows "\<exists>ps. s = joined old ps \<and> replace_all old new s = joined new ps
    \<and> ps \<noteq> [] \<and> (\<forall>p \<in> set ps. \<not> substring_in old p)"
  using assms
proof (induction old new s rule: replace_all.induct)
  case (1 old new)
  then show ?case by (intro exI [of _ "[[]]"]) simp
next
  case (2 old new c s)
  have join: "joined sep (q # ps) = q @ (if ps = [] then [] else sep @ joined sep ps)" for sep q ps
    by (cases ps) simp_all
  show ?case
  proof (cases "startswith (c # s) old")
    case True
    with 2(1) 2(3) obtain ps where ps: "drop (length old) (c # s) = joined old ps"
      "replace_all old new (drop (length old) (c # s)) = joined new ps" "ps \<noteq> []" "\<forall>p \<in> set ps. \<not> substring_in old p"
      by blast
    from True have "c # s = old @ drop (length old) (c # s)" by (metis startswith_iff append_eq_conv_conj)
    then have "c # s = joined old ([] # ps)" using ps(1,3) by (simp add: join)
    moreover have "replace_all old new (c # s) = joined new ([] # ps)" using True 2(3) ps(2,3) by (simp add: join)
    ultimately show ?thesis using ps(4) 2(3) by (intro exI [of _ "[] # ps"]) simp
  next
    case False
    with 2(2) 2(3) obtain ps where ps: "s = joined old ps" "replace_all old new s = joined new ps"
      "ps \<noteq> []" "\<forall>p \<in> set ps. \<not> substring_in old p" by blast
    then obtain q qs where q: "ps = q # qs" by (cases ps) auto
    have "\<not> startswith (c # q) old"
      using False unfolding ps(1) q join by (metis startswith_iff append.assoc append_Cons)
    moreover have "replace_all old new (c # s) = joined new ((c # q) # qs)" using False ps(2) by (simp add: q join)
    moreover have "c # s = joined old ((c # q) # qs)" using ps(1) by (simp add: q join)
    ultimately show ?thesis using ps(4) q by (intro exI [of _ "(c # q) # qs"]) simp
  qed
qed

section \<open>Numerals\<close>

fun nat_str :: "nat \<Rightarrow> string" where
  "nat_str n = (if n < 10 then [char_of (48 + n)] else nat_str (n div 10) @ [char_of (48 + n mod 10)])"

declare nat_str.simps [simp del]

definition int_str :: "int \<Rightarrow> string" where
  "int_str k = (if k < 0 then CHR ''-'' # nat_str (nat (- k)) else nat_str (nat k))"

definition digit_val :: "char \<Rightarrow> nat" where
  "digit_val c = of_char c - 48"

definition parse_nat :: "string \<Rightarrow> nat option" where
  "parse_nat s = (if s \<noteq> [] \<and> list_all is_digit s
                  then Some (foldl (\<lambda>n c. 10 * n + digit_val c) 0 s) else None)"

definition hex_digit :: "nat \<Rightarrow> char" where
  "hex_digit n = (if n < 10 then char_of (48 + n) else char_of (87 + n))"

definition hex_val :: "char \<Rightarrow> nat option" where
  "hex_val c = (let k = of_char c :: nat
                in if 48 \<le> k \<and> k \<le> 57 then Some (k - 48)
                   else if 97 \<le> k \<and> k \<le> 102 then Some (k - 87)
                   else if 65 \<le> k \<and> k \<le> 70 then Some (k - 55) else None)"

fun parse_hex :: "nat \<Rightarrow> string \<Rightarrow> nat option" where
  "parse_hex acc [] = Some acc"
| "parse_hex acc (c # s) = (case hex_val c of None \<Rightarrow> None | Some v \<Rightarrow> parse_hex (16 * acc + v) s)"

end
