(* ===== verification/Dectext.thy ===== *)
theory Dectext
  imports Decimal Pystring
begin

text \<open>
  Decimals as text: \<open>str(Decimal)\<close>, \<open>format(Decimal, "f")\<close> as \<open>storage/db.py\<close> stores
  money, and the \<open>Decimal(text)\<close> parser that reads it back. A decimal of the model is finite: on the
  texts of NaN and the infinities, which \<open>Decimal\<close> accepts, the parser is \<open>None\<close>, as on a text that raises.
\<close>

section \<open>Printing\<close>

definition zeros :: "nat \<Rightarrow> string" where
  "zeros n = replicate n (CHR ''0'')"

definition sign_str :: "decimal \<Rightarrow> string" where
  "sign_str d = (if dneg d then ''-'' else [])"

text \<open>\<open>decimal_to_text\<close>: fixed point, never an exponent.\<close>

definition decimal_to_text :: "decimal \<Rightarrow> string" where
  "decimal_to_text d =
     sign_str d @
     (let ds = nat_str (dcoef d)
      in if 0 \<le> dexp d then (if dcoef d = 0 then ''0'' else ds @ zeros (nat (dexp d)))
         else let k = nat (- dexp d); padded = zeros (Suc k - List.length ds) @ ds; n = List.length padded - k
              in take n padded @ ''.'' @ drop n padded)"

text \<open>\<open>str(d)\<close>: the to-scientific-string conversion of the specification.\<close>

definition dec_str :: "decimal \<Rightarrow> string" where
  "dec_str d =
     (let ds = nat_str (dcoef d);
          leftdigits = dexp d + int (List.length ds);
          dotplace = (if dexp d \<le> 0 \<and> - 6 < leftdigits then leftdigits else 1);
          body = (if dotplace \<le> 0 then ''0.'' @ zeros (nat (- dotplace)) @ ds
                  else if int (List.length ds) \<le> dotplace then ds @ zeros (nat dotplace - List.length ds)
                  else take (nat dotplace) ds @ ''.'' @ drop (nat dotplace) ds)
      in sign_str d @ body
         @ (if leftdigits = dotplace then []
            else CHR ''E'' # (if leftdigits < dotplace then [] else ''+'') @ int_str (leftdigits - dotplace)))"

section \<open>Parsing\<close>

definition digits_nat :: "string \<Rightarrow> nat" where
  "digits_nat s = foldl (\<lambda>n c. 10 * n + digit_val c) 0 s"

definition parse_mantissa :: "string \<Rightarrow> (string \<times> string) option" where
  "parse_mantissa s =
     (let ip = takeWhile is_digit s; r = dropWhile is_digit s
      in case r of
           [] \<Rightarrow> if ip = [] then None else Some (ip, [])
         | c # fp \<Rightarrow> if c = CHR ''.'' \<and> list_all is_digit fp \<and> ip @ fp \<noteq> [] then Some (ip, fp) else None)"

definition parse_exponent :: "string \<Rightarrow> int option" where
  "parse_exponent s =
     (case s of
        [] \<Rightarrow> Some 0
      | _ # r \<Rightarrow>
          (let neg = (r \<noteq> [] \<and> hd r = CHR ''-'');
               ds = (if r \<noteq> [] \<and> (hd r = CHR ''-'' \<or> hd r = CHR ''+'') then tl r else r)
           in if ds \<noteq> [] \<and> list_all is_digit ds
              then Some (if neg then - int (digits_nat ds) else int (digits_nat ds)) else None))"

definition is_exp_mark :: "char \<Rightarrow> bool" where
  "is_exp_mark c = (c = CHR ''e'' \<or> c = CHR ''E'')"

text \<open>\<open>Decimal(text)\<close> for finite numbers; \<open>None\<close> is the \<open>InvalidOperation\<close> (or a special
  value, which the stored texts never are).\<close>

definition parse_unsigned :: "bool \<Rightarrow> string \<Rightarrow> decimal option" where
  "parse_unsigned neg s =
     (case parse_mantissa (takeWhile (\<lambda>c. \<not> is_exp_mark c) s) of
        None \<Rightarrow> None
      | Some (ip, fp) \<Rightarrow>
          (case parse_exponent (dropWhile (\<lambda>c. \<not> is_exp_mark c) s) of
             None \<Rightarrow> None
           | Some e \<Rightarrow> Some (Dec neg (digits_nat (ip @ fp)) (e - int (List.length fp)))))"

definition text_to_decimal :: "string \<Rightarrow> decimal option" where
  "text_to_decimal text =
     (let s = filter (\<lambda>c. c \<noteq> CHR ''_'') (strip text)
      in if s \<noteq> [] \<and> hd s = CHR ''-'' then parse_unsigned True (tl s)
         else if s \<noteq> [] \<and> hd s = CHR ''+'' then parse_unsigned False (tl s)
         else parse_unsigned False s)"

section \<open>Digits\<close>

lemma digit_char: "n < 10 \<Longrightarrow> is_digit (char_of (48 + n)) \<and> digit_val (char_of (48 + n)) = n"
  by (simp add: is_digit_def digit_val_def Let_def)

lemma list_all_nat_str: "list_all is_digit (nat_str n)"
proof (induction n rule: nat_str.induct)
  case (1 n)
  have "is_digit (char_of (48 + n mod 10))" using digit_char [of "n mod 10"] by simp
  then show ?case using 1 digit_char [of n] by (subst nat_str.simps) simp
qed

lemma nat_str_not_Nil [simp]: "nat_str n \<noteq> []"
  by (subst nat_str.simps) simp

lemma digits_nat_snoc: "digits_nat (s @ [c]) = 10 * digits_nat s + digit_val c"
  by (simp add: digits_nat_def)

lemma digits_nat_str [simp]: "digits_nat (nat_str n) = n"
proof (induction n rule: nat_str.induct)
  case (1 n)
  show ?case
  proof (cases "n < 10")
    case True
    then show ?thesis using digit_char [of n] by (subst nat_str.simps) (simp add: digits_nat_def)
  next
    case False
    then show ?thesis
      using 1 digit_char [of "n mod 10"] by (subst nat_str.simps) (simp add: digits_nat_snoc)
  qed
qed

lemma digits_nat_append: "digits_nat (s @ t) = digits_nat s * 10 ^ List.length t + digits_nat t"
proof (induction t rule: rev_induct)
  case (snoc c t)
  have "digits_nat (s @ t @ [c]) = 10 * digits_nat (s @ t) + digit_val c"
    using digits_nat_snoc [of "s @ t" c] by simp
  with snoc show ?case by (simp add: digits_nat_snoc algebra_simps)
qed (simp add: digits_nat_def)

lemma digits_nat_zeros [simp]: "digits_nat (zeros n) = 0"
  by (induction n) (simp_all add: zeros_def digits_nat_def digit_val_def)

lemma list_all_zeros [simp]: "list_all is_digit (zeros n)"
  by (simp add: zeros_def list_all_iff is_digit_def)

lemma zeros_Suc: "zeros (Suc n) = CHR ''0'' # zeros n"
  by (simp add: zeros_def)

lemma length_zeros [simp]: "List.length (zeros n) = n"
  by (simp add: zeros_def)

lemma digit_not_mark: "is_digit c \<Longrightarrow> \<not> is_exp_mark c \<and> c \<noteq> CHR ''.'' \<and> c \<noteq> CHR ''_'' \<and> \<not> is_space c \<and> c \<noteq> CHR ''-'' \<and> c \<noteq> CHR ''+''"
  by (auto simp: is_digit_def is_exp_mark_def is_space_def Let_def)


section \<open>Round trip of stored money\<close>

lemma takeWhile_digits: "list_all is_digit s \<Longrightarrow> takeWhile is_digit s = s"
  by (simp add: list_all_iff)

lemma dropWhile_digits: "list_all is_digit s \<Longrightarrow> dropWhile is_digit s = []"
  by (simp add: list_all_iff)

lemma parse_mantissa_int: "list_all is_digit ip \<Longrightarrow> ip \<noteq> [] \<Longrightarrow> parse_mantissa ip = Some (ip, [])"
  by (simp add: parse_mantissa_def takeWhile_digits dropWhile_digits Let_def)

lemma parse_mantissa_point:
  assumes "list_all is_digit ip" "list_all is_digit fp" "ip \<noteq> []"
  shows "parse_mantissa (ip @ CHR ''.'' # fp) = Some (ip, fp)"
proof -
  have p: "\<not> is_digit CHR ''.''" by (simp add: is_digit_def)
  have "takeWhile is_digit (ip @ CHR ''.'' # fp) = ip"
    using assms(1) p by (simp add: takeWhile_append2 list_all_iff)
  moreover have "dropWhile is_digit (ip @ CHR ''.'' # fp) = CHR ''.'' # fp"
    using assms(1) p by (simp add: dropWhile_append2 list_all_iff)
  ultimately show ?thesis using assms by (simp add: parse_mantissa_def Let_def)
qed

definition plain_char :: "char \<Rightarrow> bool" where
  "plain_char c = (is_digit c \<or> c = CHR ''.'')"

lemma plain_char_props: "plain_char c \<Longrightarrow> \<not> is_exp_mark c \<and> c \<noteq> CHR ''_'' \<and> \<not> is_space c \<and> c \<noteq> CHR ''-'' \<and> c \<noteq> CHR ''+''"
  using digit_not_mark by (auto simp: plain_char_def is_exp_mark_def is_space_def Let_def)

lemma strip_no_space: "list_all (\<lambda>c. \<not> is_space c) s \<Longrightarrow> strip s = s"
proof -
  assume a: "list_all (\<lambda>c. \<not> is_space c) s"
  have d: "dropWhile is_space t = t" if "list_all (\<lambda>c. \<not> is_space c) t" for t
    using that by (cases t) auto
  have "list_all (\<lambda>c. \<not> is_space c) (rev s)" using a by (simp add: list_all_iff)
  with a show ?thesis by (simp add: strip_def d)
qed

lemma parse_unsigned_plain:
  assumes "list_all plain_char s" "parse_mantissa s = Some (ip, fp)"
  shows "parse_unsigned neg s = Some (Dec neg (digits_nat (ip @ fp)) (- int (List.length fp)))"
proof -
  have "takeWhile (\<lambda>c. \<not> is_exp_mark c) s = s" "dropWhile (\<lambda>c. \<not> is_exp_mark c) s = []"
    using assms(1) plain_char_props by (auto simp: list_all_iff takeWhile_eq_all_conv)
  then show ?thesis unfolding parse_unsigned_def using assms(2) by (simp only:) (simp add: parse_exponent_def)
qed

lemma text_to_decimal_plain:
  assumes "list_all plain_char s" "parse_mantissa s = Some (ip, fp)" "s \<noteq> []"
  shows "text_to_decimal ((if neg then ''-'' else []) @ s)
    = Some (Dec neg (digits_nat (ip @ fp)) (- int (List.length fp)))"
proof -
  let ?t = "(if neg then ''-'' else []) @ s"
  have "list_all (\<lambda>c. \<not> is_space c) s" "list_all (\<lambda>c. c \<noteq> CHR ''_'') s"
    using assms(1) by (induction s) (auto dest: plain_char_props)
  then have "list_all (\<lambda>c. \<not> is_space c) ?t" "list_all (\<lambda>c. c \<noteq> CHR ''_'') ?t"
    by (cases neg; simp add: is_space_def)+
  then have t: "filter (\<lambda>c. c \<noteq> CHR ''_'') (strip ?t) = ?t"
    by (simp add: strip_no_space filter_id_conv list_all_iff)
  have "hd s \<noteq> CHR ''-''" "hd s \<noteq> CHR ''+''"
    using assms(1,3) plain_char_props [of "hd s"] by (auto simp: list_all_iff)
  then show ?thesis
    using parse_unsigned_plain [OF assms(1,2)] assms(3)
    unfolding text_to_decimal_def t Let_def by (cases neg) auto
qed

lemma digits_plain: "list_all is_digit s \<Longrightarrow> list_all plain_char s"
  by (simp add: list_all_iff plain_char_def)

lemma plain_no_mark: "list_all plain_char s \<Longrightarrow> \<not> list_ex is_exp_mark ((if neg then ''-'' else []) @ s)"
proof -
  assume "list_all plain_char s"
  then have "\<not> list_ex is_exp_mark s" by (induction s) (auto dest: plain_char_props)
  then show ?thesis by (cases neg) (simp_all add: is_exp_mark_def)
qed

text \<open>Stored money reads back: parsing what \<open>decimal_to_text\<close> writes gives the very same
  decimal (sign, coefficient and exponent), except that a positive exponent is written out as
  zeros; the value is always the same, and the text has no exponent mark.\<close>

theorem decimal_text_roundtrip:
  "text_to_decimal (decimal_to_text d)
     = Some (if 0 \<le> dexp d then Dec (dneg d) (dcoef d * 10 ^ nat (dexp d)) 0 else d)
   \<and> map_option dval (text_to_decimal (decimal_to_text d)) = Some (dval d)
   \<and> \<not> list_ex is_exp_mark (decimal_to_text d)"
proof -
  have "text_to_decimal (decimal_to_text d)
     = Some (if 0 \<le> dexp d then Dec (dneg d) (dcoef d * 10 ^ nat (dexp d)) 0 else d)
   \<and> \<not> list_ex is_exp_mark (decimal_to_text d)"
  proof (cases "0 \<le> dexp d")
    case True
    let ?b = "if dcoef d = 0 then ''0'' else nat_str (dcoef d) @ zeros (nat (dexp d))"
    have b: "list_all is_digit ?b" "?b \<noteq> []"
      using list_all_nat_str by (auto simp: is_digit_def)
    have n: "digits_nat ?b = dcoef d * 10 ^ nat (dexp d)"
      by (simp add: digits_nat_append) (simp add: digits_nat_def digit_val_def)
    have t: "decimal_to_text d = (if dneg d then ''-'' else []) @ ?b"
      using True by (simp add: decimal_to_text_def sign_str_def Let_def)
    have "text_to_decimal (decimal_to_text d) = Some (Dec (dneg d) (digits_nat (?b @ [])) (- int (List.length ([]::string))))"
      unfolding t by (rule text_to_decimal_plain [OF digits_plain [OF b(1)] parse_mantissa_int [OF b] b(2)])
    moreover have "\<not> list_ex is_exp_mark (decimal_to_text d)"
      unfolding t by (rule plain_no_mark [OF digits_plain [OF b(1)]])
    ultimately show ?thesis using True n by (simp del: append.simps add: n)
  next
    case False
    define k where "k = nat (- dexp d)"
    define padded where "padded = zeros (Suc k - List.length (nat_str (dcoef d))) @ nat_str (dcoef d)"
    define ip where "ip = take (List.length padded - k) padded"
    define fp where "fp = drop (List.length padded - k) padded"
    have len: "k < List.length padded" by (simp add: padded_def)
    have split: "ip @ fp = padded" "List.length fp = k" "ip \<noteq> []"
      using len by (auto simp: ip_def fp_def)
    have pd: "list_all is_digit padded" by (simp add: padded_def list_all_nat_str)
    then have d: "list_all is_digit ip" "list_all is_digit fp"
      using split(1) by (metis list_all_append)+
    have n: "digits_nat (ip @ fp) = dcoef d" by (simp add: split(1) padded_def digits_nat_append)
    have t: "decimal_to_text d = (if dneg d then ''-'' else []) @ (ip @ CHR ''.'' # fp)"
      using False by (simp add: decimal_to_text_def sign_str_def Let_def ip_def fp_def padded_def k_def)
    have pl: "list_all plain_char (ip @ CHR ''.'' # fp)"
      using d digits_plain by (simp add: plain_char_def)
    have "text_to_decimal (decimal_to_text d) = Some (Dec (dneg d) (digits_nat (ip @ fp)) (- int (List.length fp)))"
      unfolding t by (rule text_to_decimal_plain [OF pl parse_mantissa_point [OF d split(3)]]) simp
    moreover have "- int (List.length fp) = dexp d" using False by (simp add: split(2) k_def)
    moreover have "\<not> list_ex is_exp_mark (decimal_to_text d)"
      unfolding t by (rule plain_no_mark [OF pl])
    ultimately show ?thesis using False n by simp
  qed
  moreover have "dval (Dec (dneg d) (dcoef d * 10 ^ nat (dexp d)) 0) = dval d" if "0 \<le> dexp d"
    using that by (simp add: dval_def powi10_nat)
  ultimately show ?thesis by auto
qed

section \<open>str and Decimal\<close>

definition exponent_str :: "int \<Rightarrow> string" where
  "exponent_str k = CHR ''E'' # (if k < 0 then [] else ''+'') @ int_str k"

definition exponent_char :: "char \<Rightarrow> bool" where
  "exponent_char c = (is_digit c \<or> c = CHR ''E'' \<or> c = CHR ''+'' \<or> c = CHR ''-'')"

lemma exponent_str_chars: "list_all exponent_char (exponent_str k)"
  using list_all_nat_str by (auto simp: exponent_str_def int_str_def exponent_char_def list_all_iff)

lemma digits_nat_int_str: "0 \<le> k \<Longrightarrow> int (digits_nat (nat_str (nat k))) = k"
  by simp

lemma nat_str_hd: "hd (nat_str n) \<noteq> CHR ''-'' \<and> hd (nat_str n) \<noteq> CHR ''+''"
proof -
  have "is_digit (hd (nat_str n))"
    using list_all_nat_str [of n] nat_str_not_Nil [of n] by (cases "nat_str n") simp_all
  then show ?thesis using digit_not_mark by blast
qed

lemma parse_exponent_str: "parse_exponent (exponent_str k) = Some k"
  using list_all_nat_str nat_str_hd
  by (auto simp: parse_exponent_def exponent_str_def int_str_def Let_def)

lemma text_to_decimal_sci:
  assumes "list_all plain_char m" "parse_mantissa m = Some (ip, fp)" "m \<noteq> []"
  shows "text_to_decimal ((if neg then ''-'' else []) @ m @ exponent_str k)
    = Some (Dec neg (digits_nat (ip @ fp)) (k - int (List.length fp)))"
proof -
  let ?e = "exponent_str k"
  let ?t = "(if neg then ''-'' else []) @ m @ ?e"
  have ec: "\<not> is_space c \<and> c \<noteq> CHR ''_''" if "exponent_char c" for c
    using that digit_not_mark [of c] by (auto simp: exponent_char_def is_space_def Let_def)
  have "list_all (\<lambda>c. \<not> is_space c) (m @ ?e)" "list_all (\<lambda>c. c \<noteq> CHR ''_'') (m @ ?e)"
    using assms(1) exponent_str_chars [of k] ec plain_char_props by (auto simp: list_all_iff)
  then have "list_all (\<lambda>c. \<not> is_space c) ?t" "list_all (\<lambda>c. c \<noteq> CHR ''_'') ?t"
    by (cases neg; simp add: is_space_def)+
  then have t: "filter (\<lambda>c. c \<noteq> CHR ''_'') (strip ?t) = ?t"
    by (simp add: strip_no_space filter_id_conv list_all_iff)
  have nm: "\<not> is_exp_mark c" if "c \<in> set m" for c
    using that assms(1) plain_char_props by (auto simp: list_all_iff)
  have e: "?e = CHR ''E'' # tl ?e" by (simp add: exponent_str_def)
  have "takeWhile (\<lambda>c. \<not> is_exp_mark c) (m @ ?e) = m"
    by (subst takeWhile_append2) (auto simp: nm, subst e, simp add: is_exp_mark_def)
  moreover have "dropWhile (\<lambda>c. \<not> is_exp_mark c) (m @ ?e) = ?e"
    by (subst dropWhile_append2) (auto simp: nm, subst e, subst (2) e, simp add: is_exp_mark_def)
  ultimately have "takeWhile (\<lambda>c. \<not> is_exp_mark c) (m @ ?e) = m" "dropWhile (\<lambda>c. \<not> is_exp_mark c) (m @ ?e) = ?e" .
  then have u: "parse_unsigned neg (m @ ?e) = Some (Dec neg (digits_nat (ip @ fp)) (k - int (List.length fp)))"
    by (simp add: parse_unsigned_def assms(2) parse_exponent_str)
  have "hd m \<noteq> CHR ''-''" "hd m \<noteq> CHR ''+''"
    using assms(1,3) plain_char_props [of "hd m"] by (auto simp: list_all_iff)
  then show ?thesis
    using u assms(3) unfolding text_to_decimal_def t Let_def by (cases neg) auto
qed

lemma dec_str_roundtrip [simp]: "text_to_decimal (dec_str d) = Some d"
proof -
  define ds n where "ds = nat_str (dcoef d)" and "n = List.length (nat_str (dcoef d))"
  define L where "L = dexp d + int n"
  have ds: "list_all is_digit ds" "ds \<noteq> []" "digits_nat ds = dcoef d" "List.length ds = n" "0 < n"
    by (simp_all add: ds_def n_def list_all_nat_str)
  have point: "list_all plain_char (ip @ CHR ''.'' # fp)" "parse_mantissa (ip @ CHR ''.'' # fp) = Some (ip, fp)"
    if "list_all is_digit ip" "list_all is_digit fp" "ip \<noteq> []" for ip fp
    using that digits_plain parse_mantissa_point by (auto simp: plain_char_def)
  have sgn: "sign_str d = (if dneg d then ''-'' else [])" by (simp add: sign_str_def)
  have td: "list_all is_digit (take k ds)" "list_all is_digit (drop k ds)" for k
    using ds(1) by (auto simp: list_all_iff dest: in_set_takeD in_set_dropD)
  show ?thesis
  proof (cases "dexp d \<le> 0 \<and> - 6 < L")
    case True
    then have str: "dec_str d = sign_str d @ (if L \<le> 0 then ''0'' @ CHR ''.'' # (zeros (nat (- L)) @ ds)
        else if int n \<le> L then ds @ zeros (nat L - n) else take (nat L) ds @ CHR ''.'' # drop (nat L) ds)"
      by (simp add: dec_str_def Let_def L_def ds_def n_def)
    consider "L \<le> 0" | "0 < L" "int n \<le> L" | "0 < L" "L < int n" by linarith
    then show ?thesis
    proof cases
      case 1
      then have "dec_str d = (if dneg d then ''-'' else []) @ (''0'' @ CHR ''.'' # (zeros (nat (- L)) @ ds))"
        using str sgn by simp
      moreover have "list_all is_digit ''0''" "list_all is_digit (zeros (nat (- L)) @ ds)"
        using ds(1) by (simp_all add: is_digit_def)
      moreover have "digits_nat (''0'' @ zeros (nat (- L)) @ ds) = dcoef d"
        by (simp only: digits_nat_append digits_nat_zeros ds(3)) (simp add: digits_nat_def digit_val_def)
      moreover have "- int (List.length (zeros (nat (- L)) @ ds)) = dexp d" using 1 by (simp add: L_def ds(4))
      ultimately show ?thesis
        using text_to_decimal_plain [OF point, of "''0''" "zeros (nat (- L)) @ ds" "dneg d"]
        by (simp del: append.simps of_nat_add List.length_append add: decimal.expand)
    next
      case 2
      with True have "dexp d = 0" by (simp add: L_def)
      then show ?thesis
        using 2 str sgn text_to_decimal_plain [OF digits_plain [OF ds(1)] parse_mantissa_int [OF ds(1,2)] ds(2), where neg = "dneg d"] ds(3)
        by (simp add: L_def zeros_def decimal.expand)
    next
      case 3
      then have s: "dec_str d = (if dneg d then ''-'' else []) @ (take (nat L) ds @ CHR ''.'' # drop (nat L) ds)"
        using str sgn by simp
      have "take (nat L) ds \<noteq> []" using 3 ds(2) by simp
      note p = point [OF td(1) td(2) [of "nat L"] this]
      have "- int (List.length (drop (nat L) ds)) = dexp d" using 3 by (simp add: L_def ds(4))
      then show ?thesis
        using text_to_decimal_plain [OF p, where neg = "dneg d"] ds(3) unfolding s by (simp add: decimal.expand)
    qed
  next
    case False
    then have L: "L \<noteq> 1" using ds(5) by (auto simp: L_def)
    have str: "dec_str d = (if dneg d then ''-'' else []) @ (if n \<le> 1 then ds else take 1 ds @ CHR ''.'' # drop 1 ds) @ exponent_str (L - 1)"
      using False L Suc_leI [OF ds(5)]
      by (auto simp: dec_str_def Let_def L_def ds_def n_def exponent_str_def sign_str_def zeros_def intro: le_antisym)
    show ?thesis
    proof (cases "n \<le> 1")
      case True
      then show ?thesis
        using str text_to_decimal_sci [OF digits_plain [OF ds(1)] parse_mantissa_int [OF ds(1,2)] ds(2), where neg = "dneg d" and k = "L - 1"] ds(3,5)
        by (simp add: L_def decimal.expand)
    next
      case nn: False
      have "take 1 ds \<noteq> []" using ds(2) by simp
      note p = point [OF td(1) td(2) [of 1] this]
      have "L - 1 - int (List.length (drop 1 ds)) = dexp d" using nn by (simp add: L_def ds(4))
      then show ?thesis
        using str nn text_to_decimal_sci [OF p, where neg = "dneg d" and k = "L - 1"] ds(3)
        by (simp add: decimal.expand)
    qed
  qed
qed

end
