(* ===== verification/Json.thy ===== *)
theory Json
  imports Dectext
begin

text \<open>
  JSON values as Python's \<open>json\<close> module gives them: numbers are integers or floats
  (a float is kept as its \<open>repr\<close>), objects keep the order of their keys.
\<close>

datatype json =
    JNull
  | JBool bool
  | JInt int
  | JFloat string
  | JStr string
  | JArr "json list"
  | JObj "(string \<times> json) list"

text \<open>A Python \<open>dict\<close> decoded from JSON; \<open>get\<close> is the method, the last binding wins.\<close>

type_synonym dict = "(string \<times> json) list"

definition get :: "dict \<Rightarrow> string \<Rightarrow> json option" where
  "get d k = map_of (rev d) k"

definition get_default :: "dict \<Rightarrow> string \<Rightarrow> json \<Rightarrow> json" where
  "get_default d k v = (case get d k of None \<Rightarrow> v | Some x \<Rightarrow> x)"

text \<open>Truth of a value; a float is true unless its text denotes zero.\<close>

definition truthy :: "json \<Rightarrow> bool" where
  "truthy j = (case j of
     JNull \<Rightarrow> False | JBool b \<Rightarrow> b | JInt n \<Rightarrow> n \<noteq> 0
   | JFloat r \<Rightarrow> (case text_to_decimal r of Some d \<Rightarrow> dcoef d \<noteq> 0 | None \<Rightarrow> True)
   | JStr s \<Rightarrow> s \<noteq> [] | JArr xs \<Rightarrow> xs \<noteq> [] | JObj kvs \<Rightarrow> kvs \<noteq> [])"

text \<open>\<open>str(v)\<close> of a scalar (the only values the program converts).\<close>

definition str_of :: "json \<Rightarrow> string option" where
  "str_of j = (case j of
     JNull \<Rightarrow> Some ''None'' | JBool b \<Rightarrow> Some (if b then ''True'' else ''False'')
   | JInt n \<Rightarrow> Some (int_str n) | JFloat r \<Rightarrow> Some r | JStr s \<Rightarrow> Some s
   | JArr _ \<Rightarrow> None | JObj _ \<Rightarrow> None)"

text \<open>\<open>Decimal(str(v))\<close>; \<open>None\<close> raises.\<close>

definition decimal_of :: "json \<Rightarrow> decimal option" where
  "decimal_of j = (case str_of j of None \<Rightarrow> None | Some s \<Rightarrow> text_to_decimal s)"

text \<open>Python's \<open>==\<close> on decoded scalars: integers, floats and booleans compare as numbers.\<close>

definition num_of :: "json \<Rightarrow> decimal option" where
  "num_of j = (case j of JInt n \<Rightarrow> Some (dint n) | JBool b \<Rightarrow> Some (dint (if b then 1 else 0))
                       | JFloat r \<Rightarrow> text_to_decimal r | _ \<Rightarrow> None)"

definition json_eq :: "json \<Rightarrow> json \<Rightarrow> bool" where
  "json_eq a b = (case (num_of a, num_of b) of
     (Some x, Some y) \<Rightarrow> deq x y
   | _ \<Rightarrow> a = b)"

lemma json_eq_refl [simp]: "json_eq a a"
  by (auto simp: json_eq_def deq_iff split: option.split)

end
