(* ===== verification/Calendar.thy ===== *)
theory Calendar
  imports Pystring
begin

text \<open>
  The proleptic Gregorian calendar of Python's \<open>datetime\<close>: the date of a day number
  and the texts the program builds from it (\<open>strftime("%Y-%m-%dT%H")\<close>,
  \<open>date().isoformat()\<close>).
\<close>

record civil =
  c_year :: int
  c_month :: int
  c_day :: int

definition civil_of_days :: "int \<Rightarrow> civil" where
  "civil_of_days days =
     (let z = days + 719468;
          era = z div 146097;
          doe = z mod 146097;
          yoe = (doe - doe div 1460 + doe div 36524 - doe div 146096) div 365;
          doy = doe - (365 * yoe + yoe div 4 - yoe div 100);
          mp = (5 * doy + 2) div 153;
          m = (if mp < 10 then mp + 3 else mp - 9)
      in \<lparr>c_year = yoe + era * 400 + (if m \<le> 2 then 1 else 0), c_month = m,
          c_day = doy - (153 * mp + 2) div 5 + 1\<rparr>)"

definition pad :: "nat \<Rightarrow> string \<Rightarrow> string" where
  "pad n s = replicate (n - List.length s) (CHR ''0'') @ s"

definition date_text :: "instant \<Rightarrow> string" where
  "date_text t =
     (let c = civil_of_days (t div us_per_day)
      in pad 4 (int_str (c_year c)) @ ''-'' @ pad 2 (int_str (c_month c)) @ ''-'' @ pad 2 (int_str (c_day c)))"

definition hour_text :: "instant \<Rightarrow> string" where
  "hour_text t = date_text t @ ''T'' @ pad 2 (int_str ((t mod us_per_day) div 3600000000))"

text \<open>\<open>now.isoformat()\<close> of a UTC datetime.\<close>

definition iso_text :: "instant \<Rightarrow> string" where
  "iso_text t =
     (let s = (t mod us_per_day) div 1000000; us = t mod 1000000
      in date_text t @ ''T'' @ pad 2 (int_str (s div 3600)) @ '':'' @ pad 2 (int_str (s mod 3600 div 60))
         @ '':'' @ pad 2 (int_str (s mod 60)) @ (if us = 0 then [] else ''.'' @ pad 6 (int_str us)) @ ''+00:00'')"

lemma hour_bucket_same_day: "hour_bucket s = hour_bucket t \<Longrightarrow> s div us_per_day = t div us_per_day"
proof -
  assume "hour_bucket s = hour_bucket t"
  moreover have "x div us_per_day = hour_bucket x div 24" for x
    by (simp add: hour_bucket_def us_per_day_def flip: zdiv_zmult2_eq)
  ultimately show ?thesis by simp
qed

lemma hour_text_cong: "hour_bucket s = hour_bucket t \<Longrightarrow> hour_text s = hour_text t"
proof -
  assume h: "hour_bucket s = hour_bucket t"
  have "(x mod us_per_day) div 3600000000 = hour_bucket x - 24 * (x div us_per_day)" for x
  proof -
    have "x mod us_per_day = x + (- 24 * (x div us_per_day)) * 3600000000"
      by (simp add: us_per_day_def minus_div_mult_eq_mod [symmetric])
    then show ?thesis by (simp only: div_mult_self1) (simp add: hour_bucket_def)
  qed
  with h hour_bucket_same_day [OF h] show ?thesis by (simp add: hour_text_def date_text_def)
qed

lemma date_text_epoch: "hour_text 0 = ''1970-01-01T00''"
  by code_simp

end
