(* ===== verification/Config.thy ===== *)
theory Config
  imports Decimal Pystring
begin

text \<open>
  \<open>config.py\<close>: the settings and their validators. Values arrive already typed by
  pydantic (a \<open>Decimal\<close>, an \<open>int\<close>, a string); what the module itself does, the
  comma-separated lists, the HTTPS rule and the list of GMX chains, is modelled.
\<close>

datatype secret_backend_choice = AutoBackend | KeyringBackend | EnvBackend

record settings =
  secret_backend :: secret_backend_choice
  base_rpc_urls :: "string list"
  arbitrum_rpc_urls :: "string list"
  gmx_rest_peers :: "string list"
  btc_esplora_peers :: "string list"
  base_nfpm_addresses :: "string list"
  base_tracked_pools :: "string list"
  aave_pool_base :: string
  dexpaprika_base_url :: string
  ntfy_server :: string
  hedge_rebalance_band :: decimal
  auto_rebalance_enabled :: bool
  rebalance_min_interval_minutes :: int
  rebalance_min_notional_usd :: decimal
  strategy_rebalance_minutes :: int
  alert_cooldown_minutes :: int
  snapshot_staleness_minutes :: int
  quota_alert_used_pct :: decimal
  scheduler_alerts_minutes :: int
  watchdog_heartbeat_minutes :: int
  watchdog_digest_hour :: int
  max_position_usd :: decimal
  max_delta_per_run_usd :: decimal
  max_daily_adjustments :: int
  allowed_markets :: "string list"
  arm_ttl_minutes :: int
  order_rate_limit_seconds :: int
  approval_timeout_minutes :: int
  gmx_chain_id :: int
  execution_account :: string

definition default_settings :: settings where
  "default_settings = \<lparr>
     secret_backend = AutoBackend,
     base_rpc_urls = [''https://base-rpc.publicnode.com'', ''https://base.llamarpc.com'',
                      ''https://mainnet.base.org''],
     arbitrum_rpc_urls = [''https://arb1.arbitrum.io/rpc'', ''https://arbitrum-one-rpc.publicnode.com'',
                          ''https://arbitrum.llamarpc.com''],
     gmx_rest_peers = [''https://arbitrum.gmxapi.io/v1'', ''https://arbitrum.gmxapi.ai/v1''],
     btc_esplora_peers = [''https://blockstream.info/api'', ''https://mempool.space/api''],
     base_nfpm_addresses = [''0x827922686190790b37229fd06084350E74485b72'',
                            ''0xa990c6a764b73bf43cee5bb40339c3322fb9d55f''],
     base_tracked_pools = [''0x56aeaf4af2df4bdfd9d865830fefdd278b25e7ef''],
     aave_pool_base = ''0xA238Dd80C259a72e81d7e4664a9801593F98d1c5'',
     dexpaprika_base_url = ''https://api.dexpaprika.com'',
     ntfy_server = ''https://ntfy.sh'',
     hedge_rebalance_band = Dec False 75 (- 3),
     auto_rebalance_enabled = False,
     rebalance_min_interval_minutes = 60,
     rebalance_min_notional_usd = dint 250,
     strategy_rebalance_minutes = 15,
     alert_cooldown_minutes = 60,
     snapshot_staleness_minutes = 90,
     quota_alert_used_pct = Dec False 80 (- 2),
     scheduler_alerts_minutes = 5,
     watchdog_heartbeat_minutes = 5,
     watchdog_digest_hour = 13,
     max_position_usd = dint 20000,
     max_delta_per_run_usd = dint 5000,
     max_daily_adjustments = 4,
     allowed_markets = [''ETH/USD''],
     arm_ttl_minutes = 30,
     order_rate_limit_seconds = 60,
     approval_timeout_minutes = 10,
     gmx_chain_id = 42161,
     execution_account = ''0xC155A616e39D7B83E37e8FD9d2106E1BC056d7Fe''\<rparr>"

definition parse_comma_separated :: "string \<Rightarrow> string list" where
  "parse_comma_separated value = filter (\<lambda>w. w \<noteq> []) (map strip (split_on CHR '','' value))"

datatype settings_error = UrlNotHttps string | NotGmxVenue int

fun require_https_urls :: "string list \<Rightarrow> settings_error option" where
  "require_https_urls [] = None"
| "require_https_urls (url # urls) =
     (if \<not> startswith url ''https://'' then Some (UrlNotHttps url) else require_https_urls urls)"

definition require_https_url :: "string \<Rightarrow> settings_error option" where
  "require_https_url value = (if \<not> startswith value ''https://'' then Some (UrlNotHttps value) else None)"

definition gmx_chain_ids :: "int list" where
  "gmx_chain_ids = [42161, 421614, 43114]"

definition known_gmx_chain :: "int \<Rightarrow> settings_error option" where
  "known_gmx_chain value = (if value \<notin> set gmx_chain_ids then Some (NotGmxVenue value) else None)"

text \<open>Pydantic collects the errors of every field in declaration order; construction
  fails when there is one.\<close>

definition settings_errors :: "settings \<Rightarrow> settings_error list" where
  "settings_errors s = List.map_filter id
     [require_https_urls (base_rpc_urls s), require_https_urls (arbitrum_rpc_urls s),
      require_https_urls (gmx_rest_peers s), require_https_urls (btc_esplora_peers s),
      require_https_url (dexpaprika_base_url s), require_https_url (ntfy_server s),
      known_gmx_chain (gmx_chain_id s)]"

definition load_settings :: "settings \<Rightarrow> settings_error list + settings" where
  "load_settings s = (if settings_errors s = [] then Inr s else Inl (settings_errors s))"

lemma require_https_urls_None: "require_https_urls urls = None \<longleftrightarrow> list_all (\<lambda>u. startswith u ''https://'') urls"
  by (induction urls) auto

lemma require_https_url_None: "require_https_url u = None \<longleftrightarrow> startswith u ''https://''"
  by (simp add: require_https_url_def)

lemma known_gmx_chain_None: "known_gmx_chain n = None \<longleftrightarrow> n \<in> {42161, 421614, 43114}"
  by (simp add: known_gmx_chain_def gmx_chain_ids_def)

lemma map_filter_id_Nil: "List.map_filter id xs = [] \<longleftrightarrow> list_all (\<lambda>x. x = None) xs"
  by (induction xs) (auto simp: map_filter_simps split: option.splits)

text \<open>Settings load exactly when every provider URL uses HTTPS and the chain is one GMX
  runs on (so Base is rejected); what loads is what was given.\<close>

theorem load_settings_iff:
  "load_settings s = Inr s' \<longleftrightarrow>
     s' = s
     \<and> list_all (\<lambda>u. startswith u ''https://'')
         (base_rpc_urls s @ arbitrum_rpc_urls s @ gmx_rest_peers s @ btc_esplora_peers s)
     \<and> startswith (dexpaprika_base_url s) ''https://'' \<and> startswith (ntfy_server s) ''https://''
     \<and> gmx_chain_id s \<in> {42161, 421614, 43114}"
  by (auto simp: load_settings_def settings_errors_def map_filter_id_Nil
      require_https_urls_None require_https_url_None known_gmx_chain_None simp del: map_filter_simps)

lemma default_settings_load: "load_settings default_settings = Inr default_settings"
  by (simp only: load_settings_iff) (simp add: default_settings_def)

lemma parse_comma_separated_items:
  "w \<in> set (parse_comma_separated s) \<Longrightarrow> w \<noteq> [] \<and> CHR '','' \<notin> set w"
  by (auto simp: parse_comma_separated_def dest!: split_on_no_sep strip_subset [THEN subsetD])

end
