(* ===== verification/Instruction.thy ===== *)
theory Instruction
  imports Json Calendar Config
begin

text \<open>
  \<open>execute/instruction.py\<close>: the typed order instruction, its validator and its
  idempotency key. The hash (\<open>hashlib.sha256\<close>, as hexadecimal text) is a parameter.
\<close>

datatype action = SetSlTrigger | ResizeShort | CancelOrder

definition action_text :: "action \<Rightarrow> string" where
  "action_text a = (case a of SetSlTrigger \<Rightarrow> ''set-sl-trigger'' | ResizeShort \<Rightarrow> ''resize-short''
                            | CancelOrder \<Rightarrow> ''cancel-order'')"

definition market_default :: string where
  "market_default = ''ETH/USD''"

record order_instruction =
  i_action :: action
  i_market :: string
  i_trigger_price :: "decimal option"
  i_target_eth :: "decimal option"
  i_order_key :: "string option"

datatype instruction_error =
    SetSlNeedsPriceAndKey | ResizeNeedsTarget | CancelNeedsKey
  | TriggerOutOfRange decimal | TargetOutOfRange decimal | KeyNotHex string

definition required_params :: "order_instruction \<Rightarrow> instruction_error + order_instruction" where
  "required_params i =
     (if i_action i = SetSlTrigger \<and> (i_trigger_price i = None \<or> i_order_key i = None) then Inl SetSlNeedsPriceAndKey
      else if i_action i = ResizeShort \<and> i_target_eth i = None then Inl ResizeNeedsTarget
      else if i_action i = CancelOrder \<and> i_order_key i = None then Inl CancelNeedsKey
      else case (i_trigger_price i, i_target_eth i, i_order_key i) of (tp, te, ok) \<Rightarrow>
        if (case tp of None \<Rightarrow> False | Some p \<Rightarrow> \<not> (dlt (dint 0) p \<and> dlt p (dint 1000000)))
        then Inl (TriggerOutOfRange (the tp))
        else if (case te of None \<Rightarrow> False | Some t \<Rightarrow> \<not> (dle (dint 0) t \<and> dle t (dint 100)))
        then Inl (TargetOutOfRange (the te))
        else if (case ok of None \<Rightarrow> False | Some k \<Rightarrow> \<not> (startswith k ''0x'' \<and> List.length k = 66))
        then Inl (KeyNotHex (the ok))
        else Inr i)"

definition canonical :: "order_instruction \<Rightarrow> string" where
  "canonical i = join_with CHR ''|''
     [action_text (i_action i), i_market i,
      (case i_trigger_price i of Some p \<Rightarrow> dec_str p | None \<Rightarrow> ''-''),
      (case i_target_eth i of Some t \<Rightarrow> dec_str t | None \<Rightarrow> ''-''),
      lower (case i_order_key i of Some k \<Rightarrow> (if k = [] then ''-'' else k) | None \<Rightarrow> ''-'')]"

definition idempotency_key :: "(string \<Rightarrow> string) \<Rightarrow> order_instruction \<Rightarrow> instant \<Rightarrow> string" where
  "idempotency_key sha256 i now = sha256 (canonical i @ ''|'' @ hour_text now)"

definition summary :: "order_instruction \<Rightarrow> string" where
  "summary i = join_with CHR '' ''
     ([''action='' @ action_text (i_action i), ''market='' @ i_market i]
      @ (case i_trigger_price i of Some p \<Rightarrow> [''trigger_price=$'' @ dec_str p] | None \<Rightarrow> [])
      @ (case i_target_eth i of Some t \<Rightarrow> [''target_eth='' @ dec_str t] | None \<Rightarrow> [])
      @ (case i_order_key i of Some k \<Rightarrow> (if k = [] then [] else [''order='' @ k]) | None \<Rightarrow> []))"

text \<open>\<open>model_dump()\<close> as it is serialized (\<open>json.dumps(..., default=str)\<close>).\<close>

definition model_dump :: "order_instruction \<Rightarrow> json" where
  "model_dump i = JObj
     [(''action'', JStr (action_text (i_action i))), (''market'', JStr (i_market i)),
      (''trigger_price'', (case i_trigger_price i of Some p \<Rightarrow> JStr (dec_str p) | None \<Rightarrow> JNull)),
      (''target_eth'', (case i_target_eth i of Some t \<Rightarrow> JStr (dec_str t) | None \<Rightarrow> JNull)),
      (''order_key'', (case i_order_key i of Some k \<Rightarrow> JStr k | None \<Rightarrow> JNull))]"

section \<open>What a validated instruction guarantees\<close>

text \<open>The validator accepts an instruction exactly when every parameter its action needs is
  present and each parameter given, needed or not, is in its hard range; it never changes it.\<close>

theorem required_params_iff:
  "required_params i = Inr j \<longleftrightarrow> j = i
     \<and> (case i_action i of SetSlTrigger \<Rightarrow> i_trigger_price i \<noteq> None \<and> i_order_key i \<noteq> None
          | ResizeShort \<Rightarrow> i_target_eth i \<noteq> None | CancelOrder \<Rightarrow> i_order_key i \<noteq> None)
     \<and> (case i_trigger_price i of None \<Rightarrow> True | Some p \<Rightarrow> 0 < dval p \<and> dval p < 1000000)
     \<and> (case i_target_eth i of None \<Rightarrow> True | Some t \<Rightarrow> 0 \<le> dval t \<and> dval t \<le> 100)
     \<and> (case i_order_key i of None \<Rightarrow> True | Some k \<Rightarrow> startswith k ''0x'' \<and> List.length k = 66)"
  by (cases "i_action i"; cases "i_trigger_price i"; cases "i_target_eth i"; cases "i_order_key i")
    (auto simp: required_params_def dlt_iff dle_iff)

section \<open>Identity of a decision\<close>

lemma split_at_first:
  "c \<notin> set a \<Longrightarrow> c \<notin> set b \<Longrightarrow> a @ c # r = b @ c # s \<longleftrightarrow> a = b \<and> r = s"
proof (induction a arbitrary: b)
  case Nil
  then show ?case by (cases b) auto
next
  case (Cons x a)
  then show ?case by (cases b) auto
qed

lemma nat_str_no_bar: "CHR ''|'' \<notin> set (nat_str n)"
proof -
  have "\<not> is_digit CHR ''|''" by (simp add: is_digit_def)
  then show ?thesis using list_all_nat_str [of n] by (auto simp: list_all_iff)
qed

lemma dec_str_no_bar: "CHR ''|'' \<notin> set (dec_str d)"
proof -
  have "set (take n (nat_str m)) \<subseteq> set (nat_str m)" "set (drop n (nat_str m)) \<subseteq> set (nat_str m)" for n m
    by (rule set_take_subset, rule set_drop_subset)
  then have "CHR ''|'' \<notin> set (take n (nat_str m))" "CHR ''|'' \<notin> set (drop n (nat_str m))" for n m
    using nat_str_no_bar [of m] by blast+
  then show ?thesis
    using nat_str_no_bar by (auto simp: dec_str_def Let_def sign_str_def zeros_def int_str_def)
qed

lemma action_text_no_bar: "CHR ''|'' \<notin> set (action_text a)"
  by (cases a) (simp_all add: action_text_def)

lemma action_text_inject [simp]: "action_text a = action_text b \<longleftrightarrow> a = b"
  by (cases a; cases b) (simp_all add: action_text_def)

definition opt_dec_text :: "decimal option \<Rightarrow> string" where
  "opt_dec_text x = (case x of Some p \<Rightarrow> dec_str p | None \<Rightarrow> ''-'')"

definition key_text :: "string option \<Rightarrow> string" where
  "key_text x = lower (case x of Some k \<Rightarrow> (if k = [] then ''-'' else k) | None \<Rightarrow> ''-'')"

lemma opt_dec_text_no_bar: "CHR ''|'' \<notin> set (opt_dec_text x)"
  using dec_str_no_bar by (cases x) (auto simp: opt_dec_text_def)

lemma canonical_parts:
  "canonical i = action_text (i_action i) @ CHR ''|'' # i_market i @ CHR ''|'' # opt_dec_text (i_trigger_price i)
     @ CHR ''|'' # opt_dec_text (i_target_eth i) @ CHR ''|'' # key_text (i_order_key i)"
  by (simp add: canonical_def opt_dec_text_def key_text_def)

lemma canonical_eq_iff:
  assumes "CHR ''|'' \<notin> set (i_market i)" "CHR ''|'' \<notin> set (i_market j)"
  shows "canonical i = canonical j \<longleftrightarrow>
    i_action i = i_action j \<and> i_market i = i_market j
    \<and> opt_dec_text (i_trigger_price i) = opt_dec_text (i_trigger_price j)
    \<and> opt_dec_text (i_target_eth i) = opt_dec_text (i_target_eth j)
    \<and> key_text (i_order_key i) = key_text (i_order_key j)"
  unfolding canonical_parts
  by (simp only: split_at_first action_text_no_bar opt_dec_text_no_bar assms simp_thms action_text_inject)

lemma idempotency_key_same_hour:
  "hour_bucket s = hour_bucket t \<Longrightarrow> idempotency_key sha i s = idempotency_key sha i t"
  by (simp add: idempotency_key_def hour_text_cong [of s t])

text \<open>The idempotency key identifies the decision within its UTC hour: for a hash without
  collisions, two instructions for markets without a bar get the same key in the same hour
  exactly when action, market, the texts of both numbers and the lower-cased order key agree.\<close>

theorem idempotency_key_identifies:
  assumes "inj sha256" "CHR ''|'' \<notin> set (i_market i)" "CHR ''|'' \<notin> set (i_market j)"
    and "hour_bucket s = hour_bucket t"
  shows "idempotency_key sha256 i s = idempotency_key sha256 j t \<longleftrightarrow>
    i_action i = i_action j \<and> i_market i = i_market j
    \<and> opt_dec_text (i_trigger_price i) = opt_dec_text (i_trigger_price j)
    \<and> opt_dec_text (i_target_eth i) = opt_dec_text (i_target_eth j)
    \<and> key_text (i_order_key i) = key_text (i_order_key j)"
proof -
  have "idempotency_key sha256 i s = idempotency_key sha256 j t \<longleftrightarrow> canonical i = canonical j"
    using injD [OF assms(1)] by (auto simp: idempotency_key_def hour_text_cong [OF assms(4)])
  then show ?thesis using canonical_eq_iff [OF assms(2,3)] by simp
qed

lemma idempotency_key_identifies_witness:
  "idempotency_key id \<lparr>i_action = ResizeShort, i_market = ''ETH/USD'', i_trigger_price = None,
      i_target_eth = Some (dint 1), i_order_key = None\<rparr> 5
   \<noteq> idempotency_key id \<lparr>i_action = ResizeShort, i_market = ''ETH/USD'', i_trigger_price = None,
      i_target_eth = Some (dint 2), i_order_key = None\<rparr> 7"
  by (subst idempotency_key_identifies)
    (simp_all add: hour_bucket_def opt_dec_text_def dec_str_def dint_def nat_str.simps Let_def sign_str_def zeros_def)

end
