(* ===== verification/Store.thy ===== *)
theory Store
  imports Instruction
begin

text \<open>
  The SQLite database (\<open>storage/sql/*.sql\<close>) as a record of tables, each the list of its
  rows in insertion order. Timestamp columns hold the instant their ISO text denotes; JSON
  columns hold the decoded value. A row id is \<open>max(id) + 1\<close>, SQLite's rule for an
  \<open>INTEGER PRIMARY KEY\<close>.
\<close>

section \<open>Row types\<close>

datatype phase = Intent | Simulation | Submission | Confirmation | Blocked | Rejected

text \<open>Why a gate refused, or an approval failed: one constructor per message of the code,
  carrying the values interpolated into it.\<close>

datatype reason =
    KillSwitchPresent
  | DryRunNoArmFlag
  | NoArmedFile
  | ArmedUnreadable string
  | ArmedExpired instant
  | MarketNotAllowed string "string list"
  | PositionExceeds decimal decimal
  | DeltaExceeds decimal decimal
  | DailyCapReached nat int
  | RateLimited instant int
  | PrepareFailed json
  | ApprovedVia string
  | RejectedVia string
  | ApprovalTimeout int
  | NoNtfyTopic
  | AutoRebalanceGatesPassed
  | ConsecutiveFailures nat
  | PostconditionMismatch action string

datatype audit_payload =
    IntentPayload order_instruction bool
  | ReasonPayload reason
  | PlanPayload json decimal decimal
  | SubmissionPayload json reason
  | FailedPayload dict
  | ConfirmedPayload dict
  | ArmPayload "int option"

record audit_row =
  au_id :: nat
  au_ts :: instant
  au_actor :: string
  au_action :: string
  au_phase :: phase
  au_key :: "string option"
  au_payload :: audit_payload

record snapshot_row =
  s_id :: nat
  s_ts :: instant
  s_chain :: string
  s_block :: "int option"
  s_kind :: string

datatype position_kind = KLp | KPerp | KLend | KBorrow | KHolding | KOrder

record position_row =
  p_id :: nat
  p_wallet :: string
  p_venue :: string
  p_chain :: string
  p_kind :: position_kind
  p_external :: string
  p_group :: string
  p_opened_at :: "instant option"
  p_closed_at :: "instant option"
  p_metadata :: "dict option"

datatype event_type = EOpen | EModify | EPartialClose | EFullClose | EHarvest | ERebalance | EObserved

record event_row =
  e_id :: nat
  e_position :: nat
  e_ts :: instant
  e_type :: event_type
  e_delta :: dict
  e_state :: dict

text \<open>The result of the execution pipeline, which the rebalance journal keeps.\<close>

datatype status = SDryRun | SBlocked | SRejected | SReplayed | SConfirmed | SFailed

datatype detail =
    DReason reason | DReplayed | DDryRun | DSubmissionFailed json | DPostcondition | DConfirmed

record execution_result =
  x_status :: status
  x_detail :: detail
  x_plan :: "json option"
  x_response :: "dict option"
  x_key :: string

text \<open>The net-capital thesis of a journal row: one constructor per message.\<close>

datatype thesis =
    ThesisNoState
  | ThesisBadPrice
  | ThesisHold "decimal option" decimal
  | ThesisMove "(decimal \<times> decimal) option" "decimal option" decimal

record rebalance_row =
  rb_id :: nat
  rb_ts :: instant
  rb_decision :: string
  rb_current_eth :: "decimal option"
  rb_target_eth :: "decimal option"
  rb_deviation :: "decimal option"
  rb_band :: decimal
  rb_price_usd :: "decimal option"
  rb_est_move_usd :: "decimal option"
  rb_executed :: bool
  rb_key :: "string option"
  rb_snapshot :: "nat option"
  rb_gates :: dict
  rb_thesis :: thesis
  rb_outcome :: "execution_result option"

record alert_row =
  al_id :: nat
  al_ts :: instant
  al_rule :: string
  al_severity :: string
  al_payload :: dict
  al_delivered :: bool
  al_ntfy_status :: "string option"

record heartbeat_row =
  hb_id :: nat
  hb_ts :: instant
  hb_kind :: string
  hb_ok :: bool
  hb_block :: "int option"
  hb_detail :: dict

record call_row =
  cl_id :: nat
  cl_ts :: instant
  cl_provider :: nat
  cl_endpoint :: string
  cl_credits :: int
  cl_status :: "int option"
  cl_latency :: "int option"
  cl_correlation :: "string option"

record order_row =
  or_id :: nat
  or_ts :: instant
  or_venue :: string
  or_key :: string
  or_type :: int
  or_trigger :: "decimal option"
  or_size :: "string option"
  or_status :: string
  or_raw :: dict

record provider_row =
  pv_id :: nat
  pv_name :: string
  pv_base_url :: string
  pv_rate_limit :: int
  pv_rate_period :: string
  pv_has_credits :: bool
  pv_credit_limit :: "int option"
  pv_free_tier :: bool
  pv_config :: "dict option"

record cost_row =
  co_id :: nat
  co_provider :: nat
  co_pattern :: string
  co_credits :: int

text \<open>Market data; prices and volumes are the fixed-point texts the columns hold.\<close>

record pool_metric_row =
  pm_id :: nat
  pm_ts :: instant
  pm_network :: string
  pm_pool :: string
  pm_source :: string
  pm_price_usd :: "string option"
  pm_liquidity_usd :: "string option"
  pm_volume_24h_usd :: "string option"
  pm_txns_24h :: "int option"
  pm_fee :: "string option"
  pm_raw :: dict

record ohlcv_row =
  oh_id :: nat
  oh_network :: string
  oh_pool :: string
  oh_interval :: string
  oh_start :: string
  oh_end :: string
  oh_open :: string
  oh_high :: string
  oh_low :: string
  oh_close :: string
  oh_volume :: "string option"
  oh_source :: string
  oh_as_of :: instant

record store =
  audit_log :: "audit_row list"
  snapshots :: "snapshot_row list"
  positions :: "position_row list"
  position_events :: "event_row list"
  rebalance_log :: "rebalance_row list"
  alerts_log :: "alert_row list"
  recorder_heartbeat :: "heartbeat_row list"
  api_call_log :: "call_row list"
  order_rows :: "order_row list"
  providers :: "provider_row list"
  endpoint_costs :: "cost_row list"
  pool_metrics :: "pool_metric_row list"
  ohlcv :: "ohlcv_row list"

definition empty_store :: store where
  "empty_store = \<lparr>audit_log = [], snapshots = [], positions = [], position_events = [],
     rebalance_log = [], alerts_log = [], recorder_heartbeat = [], api_call_log = [],
     order_rows = [], providers = [], endpoint_costs = [], pool_metrics = [], ohlcv = []\<rparr>"

section \<open>Row ids\<close>

definition max_id :: "nat list \<Rightarrow> nat" where
  "max_id ids = foldr max ids 0"

definition next_id :: "nat list \<Rightarrow> nat" where
  "next_id ids = Suc (max_id ids)"

lemma max_id_ge: "i \<in> set ids \<Longrightarrow> i \<le> max_id ids"
  by (induction ids) (auto simp: max_id_def)

lemma next_id_fresh: "next_id ids \<notin> set ids"
  using max_id_ge by (fastforce simp: next_id_def)

lemma max_id_append: "max_id (xs @ [x]) = max (max_id xs) x"
  by (induction xs) (auto simp: max_id_def)

text \<open>A table whose ids increase in insertion order; inserting keeps it so, and then the newest
  row by id (\<open>ORDER BY id DESC LIMIT 1\<close>) is the last one.\<close>

definition ids_increasing :: "nat list \<Rightarrow> bool" where
  "ids_increasing ids = sorted_wrt (<) ids"

lemma ids_increasing_insert: "ids_increasing ids \<Longrightarrow> ids_increasing (ids @ [next_id ids])"
  by (auto simp: ids_increasing_def sorted_wrt_snoc next_id_def intro: le_imp_less_Suc max_id_ge)

section \<open>Inserts\<close>

definition insert_audit ::
  "instant \<Rightarrow> string \<Rightarrow> string \<Rightarrow> phase \<Rightarrow> string option \<Rightarrow> audit_payload \<Rightarrow> store \<Rightarrow> store" where
  "insert_audit ts actor act phase key payload db =
     db\<lparr>audit_log := audit_log db @
       [\<lparr>au_id = next_id (map au_id (audit_log db)), au_ts = ts, au_actor = actor, au_action = act,
         au_phase = phase, au_key = key, au_payload = payload\<rparr>]\<rparr>"

definition insert_snapshot :: "instant \<Rightarrow> string \<Rightarrow> int option \<Rightarrow> string \<Rightarrow> store \<Rightarrow> store" where
  "insert_snapshot ts chain block kind db =
     db\<lparr>snapshots := snapshots db @
       [\<lparr>s_id = next_id (map s_id (snapshots db)), s_ts = ts, s_chain = chain, s_block = block, s_kind = kind\<rparr>]\<rparr>"

definition insert_event :: "nat \<Rightarrow> instant \<Rightarrow> event_type \<Rightarrow> dict \<Rightarrow> dict \<Rightarrow> store \<Rightarrow> store" where
  "insert_event position ts type delta state db =
     db\<lparr>position_events := position_events db @
       [\<lparr>e_id = next_id (map e_id (position_events db)), e_position = position, e_ts = ts, e_type = type,
         e_delta = delta, e_state = state\<rparr>]\<rparr>"

text \<open>The newest snapshot time (\<open>SELECT MAX(ts)\<close>).\<close>

definition newest_snapshot_ts :: "store \<Rightarrow> instant option" where
  "newest_snapshot_ts db = (case map s_ts (snapshots db) of [] \<Rightarrow> None | t # ts \<Rightarrow> Some (foldl max t ts))"

lemma foldl_max_ge: "(t::int) \<le> foldl max t ts \<and> (\<forall>x \<in> set ts. x \<le> foldl max t ts)"
proof (induction ts arbitrary: t)
  case (Cons x ts)
  have "max t x \<le> foldl max (max t x) ts" "\<forall>y \<in> set ts. y \<le> foldl max (max t x) ts"
    using Cons.IH [of "max t x"] by auto
  then show ?case by auto
qed simp

lemma foldl_max_in: "foldl max (t::int) ts \<in> set (t # ts)"
proof (induction ts arbitrary: t)
  case (Cons x ts)
  then show ?case using Cons [of "max t x"] by (auto simp: max_def split: if_splits)
qed simp

lemma newest_snapshot_ts_Some:
  "newest_snapshot_ts db = Some t \<longleftrightarrow>
     t \<in> s_ts ` set (snapshots db) \<and> (\<forall>r \<in> set (snapshots db). s_ts r \<le> t)"
proof (cases "snapshots db")
  case (Cons r rs)
  let ?m = "foldl max (s_ts r) (map s_ts rs)"
  have "?m \<in> s_ts ` set (snapshots db)" using foldl_max_in [of "s_ts r" "map s_ts rs"] Cons by auto
  moreover have "\<forall>r \<in> set (snapshots db). s_ts r \<le> ?m" using foldl_max_ge [of "s_ts r" "map s_ts rs"] Cons by auto
  ultimately show ?thesis
    using Cons by (auto simp: newest_snapshot_ts_def intro: antisym)
qed (simp add: newest_snapshot_ts_def)

end
