(* ===== verification/Positions.thy ===== *)
theory Positions
  imports Store
begin

text \<open>
  The position tables and their life cycle: the upserts every recorder performs, the
  \<open>observed\<close> events they append, and \<open>portfolio/lifecycle.py\<close>, which derives open, modify and
  full-close events from them. \<open>None\<close> is an exception.
\<close>

section \<open>Upserts\<close>

text \<open>The columns of the uniqueness constraint of \<open>positions\<close>.\<close>

record position_key =
  k_wallet :: string
  k_venue :: string
  k_chain :: string
  k_kind :: position_kind
  k_external :: string

definition key_of :: "position_row \<Rightarrow> position_key" where
  "key_of r = \<lparr>k_wallet = p_wallet r, k_venue = p_venue r, k_chain = p_chain r, k_kind = p_kind r,
     k_external = p_external r\<rparr>"

definition position_id :: "store \<Rightarrow> position_key \<Rightarrow> nat option" where
  "position_id db key = map_option p_id (find (\<lambda>r. key_of r = key) (positions db))"

definition insert_position :: "position_key \<Rightarrow> string \<Rightarrow> instant \<Rightarrow> dict option \<Rightarrow> store \<Rightarrow> store" where
  "insert_position key group_tag ts metadata db =
     db\<lparr>positions := positions db @
       [\<lparr>p_id = next_id (map p_id (positions db)), p_wallet = k_wallet key, p_venue = k_venue key,
         p_chain = k_chain key, p_kind = k_kind key, p_external = k_external key, p_group = group_tag,
         p_opened_at = Some ts, p_closed_at = None, p_metadata = metadata\<rparr>]\<rparr>"

text \<open>\<open>ON CONFLICT DO NOTHING\<close> and \<open>ON CONFLICT DO UPDATE SET metadata_json\<close>.\<close>

definition upsert_ignore :: "position_key \<Rightarrow> string \<Rightarrow> instant \<Rightarrow> store \<Rightarrow> store" where
  "upsert_ignore key group_tag ts db =
     (if key \<in> key_of ` set (positions db) then db else insert_position key group_tag ts None db)"

definition upsert_metadata :: "position_key \<Rightarrow> string \<Rightarrow> instant \<Rightarrow> dict \<Rightarrow> store \<Rightarrow> store" where
  "upsert_metadata key group_tag ts metadata db =
     (if key \<in> key_of ` set (positions db)
      then db\<lparr>positions := map (\<lambda>r. if key_of r = key then r\<lparr>p_metadata := Some metadata\<rparr> else r) (positions db)\<rparr>
      else insert_position key group_tag ts (Some metadata) db)"

definition insert_observed :: "position_key \<Rightarrow> instant \<Rightarrow> dict \<Rightarrow> store \<Rightarrow> store option" where
  "insert_observed key ts state db =
     map_option (\<lambda>pid. insert_event pid ts EObserved [] state db) (position_id db key)"

section \<open>Derived events (portfolio/lifecycle.py)\<close>

definition tracked_fields :: "string list" where
  "tracked_fields = [''liquidity'', ''size_tokens'', ''amount'', ''amount_usd'', ''total_collateral_usd'']"

fun first_present :: "string list \<Rightarrow> dict \<Rightarrow> (string \<times> json) option" where
  "first_present [] state = None"
| "first_present (f # fs) state = (case get state f of Some v \<Rightarrow> Some (f, v) | None \<Rightarrow> first_present fs state)"

definition tracked :: "dict \<Rightarrow> (string \<times> json) option" where
  "tracked state = first_present tracked_fields state"

definition observed_states :: "nat \<Rightarrow> store \<Rightarrow> dict list" where
  "observed_states pid db =
     map e_state (filter (\<lambda>e. e_position e = pid \<and> e_type e = EObserved) (position_events db))"

definition observe :: "nat \<Rightarrow> instant \<Rightarrow> store \<Rightarrow> event_type option \<times> store" where
  "observe pid ts db =
     (case take 2 (rev (observed_states pid db)) of
        [] \<Rightarrow> (None, db)
      | [newest_state] \<Rightarrow> (Some EOpen, insert_event pid ts EOpen [] newest_state db)
      | newest_state # previous # _ \<Rightarrow>
          (case (tracked newest_state, tracked previous) of
             (Some (field, new_value), Some (_, old_value)) \<Rightarrow>
               if json_eq new_value old_value then (None, db)
               else (Some EModify,
                     insert_event pid ts EModify
                       [(''field'', JStr field), (''old'', old_value), (''new'', new_value)] newest_state db)
           | _ \<Rightarrow> (None, db)))"

definition close_position :: "nat \<Rightarrow> instant \<Rightarrow> store \<Rightarrow> store" where
  "close_position pid ts db =
     (let db1 = insert_event pid ts EFullClose [] [] db
      in db1\<lparr>positions := map (\<lambda>r. if p_id r = pid then r\<lparr>p_closed_at := Some ts\<rparr> else r) (positions db1)\<rparr>)"

definition open_rows :: "string \<Rightarrow> string \<Rightarrow> position_kind \<Rightarrow> store \<Rightarrow> position_row list" where
  "open_rows wallet venue kind db =
     filter (\<lambda>r. p_wallet r = wallet \<and> p_venue r = venue \<and> p_kind r = kind \<and> p_closed_at r = None) (positions db)"

definition vanished :: "string \<Rightarrow> string \<Rightarrow> position_kind \<Rightarrow> string list \<Rightarrow> store \<Rightarrow> position_row list" where
  "vanished wallet venue kind present db =
     filter (\<lambda>r. lower (p_external r) \<notin> set (map lower present)) (open_rows wallet venue kind db)"

definition reconcile_closures ::
  "string \<Rightarrow> string \<Rightarrow> position_kind \<Rightarrow> string list \<Rightarrow> instant \<Rightarrow> store \<Rightarrow> string list \<times> store" where
  "reconcile_closures wallet venue kind present ts db =
     (let rows = vanished wallet venue kind present db
      in (map p_external rows, fold (\<lambda>r. close_position (p_id r) ts) rows db))"

section \<open>What the upserts promise\<close>

text \<open>Keys and ids identify rows, ids increase, and every event belongs to a row.\<close>

definition positions_ok :: "store \<Rightarrow> bool" where
  "positions_ok db \<longleftrightarrow> distinct (map key_of (positions db)) \<and> ids_increasing (map p_id (positions db))
     \<and> ids_increasing (map e_id (position_events db))
     \<and> list_all (\<lambda>e. e_position e \<in> p_id ` set (positions db)) (position_events db)"

lemma positions_okD:
  assumes "positions_ok db"
  shows "distinct (map key_of (positions db))" "ids_increasing (map p_id (positions db))"
    "ids_increasing (map e_id (position_events db))"
    "\<And>e. e \<in> set (position_events db) \<Longrightarrow> e_position e \<in> p_id ` set (positions db)"
  using assms by (auto simp: positions_ok_def list_all_iff)

lemma ids_increasing_distinct: "ids_increasing ids \<Longrightarrow> distinct ids"
  by (simp add: ids_increasing_def strict_sorted_iff)

lemma key_of_insert: "key_of (last (positions (insert_position key g ts md db))) = key"
  by (simp add: insert_position_def key_of_def)

lemma insert_position_simps [store_simps]:
  "position_events (insert_position key g ts md db) = position_events db"
  "map key_of (positions (insert_position key g ts md db)) = map key_of (positions db) @ [key]"
  "map p_id (positions (insert_position key g ts md db)) = map p_id (positions db) @ [next_id (map p_id (positions db))]"
  by (simp_all add: insert_position_def key_of_def)

lemma insert_event_simps [store_simps]:
  "positions (insert_event pid ts type delta state db) = positions db"
  "snapshots (insert_event pid ts type delta state db) = snapshots db"
  "observed_states q (insert_event pid ts type delta state db)
     = observed_states q db @ (if q = pid \<and> type = EObserved then [state] else [])"
  by (simp_all add: insert_event_def observed_states_def)

lemma set_map_ids: "p_id ` set ps = set (map p_id ps)"
  by simp

lemma insert_position_ok: "positions_ok db \<Longrightarrow> key \<notin> key_of ` set (positions db) \<Longrightarrow> positions_ok (insert_position key g ts md db)"
  unfolding positions_ok_def store_simps set_map_ids
  by (auto simp: list_all_iff intro: ids_increasing_insert)

lemma map_update_simps:
  "map key_of (map (\<lambda>r. if P r then r\<lparr>p_metadata := md\<rparr> else r) ps) = map key_of ps"
  "map p_id (map (\<lambda>r. if P r then r\<lparr>p_metadata := md\<rparr> else r) ps) = map p_id ps"
  "map key_of (map (\<lambda>r. if P r then r\<lparr>p_closed_at := c\<rparr> else r) ps) = map key_of ps"
  "map p_id (map (\<lambda>r. if P r then r\<lparr>p_closed_at := c\<rparr> else r) ps) = map p_id ps"
  by (simp_all add: key_of_def)

lemma upsert_ok:
  assumes "positions_ok db"
  shows "positions_ok (upsert_ignore key g ts db)" "positions_ok (upsert_metadata key g ts md db)"
proof -
  show "positions_ok (upsert_ignore key g ts db)"
    using assms by (simp add: upsert_ignore_def insert_position_ok)
  show "positions_ok (upsert_metadata key g ts md db)"
  proof (cases "key \<in> key_of ` set (positions db)")
    case True
    then show ?thesis using assms
      unfolding upsert_metadata_def positions_ok_def set_map_ids
      by (simp add: map_update_simps del: map_map set_map)
  qed (simp add: assms upsert_metadata_def insert_position_ok)
qed

lemma insert_event_ok:
  "positions_ok db \<Longrightarrow> pid \<in> p_id ` set (positions db) \<Longrightarrow> positions_ok (insert_event pid ts type delta state db)"
  by (auto simp: positions_ok_def insert_event_def list_all_iff intro: ids_increasing_insert)

lemma position_id_in: "position_id db key = Some pid \<Longrightarrow> pid \<in> p_id ` set (positions db)"
  by (auto simp: position_id_def find_Some_iff)

lemma position_id_None: "position_id db key = None \<longleftrightarrow> key \<notin> key_of ` set (positions db)"
  by (auto simp: position_id_def find_None_iff image_iff)

lemma insert_position_present: "key \<in> key_of ` set (positions (insert_position key g ts md db))"
  by (simp add: set_map [symmetric] store_simps del: set_map)

lemma upsert_present:
  "position_id (upsert_ignore key g ts db) key \<noteq> None" "position_id (upsert_metadata key g ts md db) key \<noteq> None"
  unfolding position_id_None not_not
proof -
  show "key \<in> key_of ` set (positions (upsert_ignore key g ts db))"
    by (simp add: upsert_ignore_def insert_position_present)
  show "key \<in> key_of ` set (positions (upsert_metadata key g ts md db))"
  proof (cases "key \<in> key_of ` set (positions db)")
    case True
    then show ?thesis
      unfolding upsert_metadata_def by (simp add: set_map [symmetric] map_update_simps del: set_map map_map)
  qed (simp add: upsert_metadata_def insert_position_present)
qed

section \<open>Closing what the sweep no longer shows\<close>

lemma close_position_simps [store_simps]:
  "positions (close_position pid ts db)
     = map (\<lambda>r. if p_id r = pid then r\<lparr>p_closed_at := Some ts\<rparr> else r) (positions db)"
  "map (\<lambda>e. (e_position e, e_type e)) (position_events (close_position pid ts db))
     = map (\<lambda>e. (e_position e, e_type e)) (position_events db) @ [(pid, EFullClose)]"
  by (simp_all add: close_position_def insert_event_def)

lemma fold_close:
  "positions (fold (\<lambda>r. close_position (p_id r) ts) rows db)
     = map (\<lambda>r. if p_id r \<in> p_id ` set rows then r\<lparr>p_closed_at := Some ts\<rparr> else r) (positions db)
   \<and> map (\<lambda>e. (e_position e, e_type e)) (position_events (fold (\<lambda>r. close_position (p_id r) ts) rows db))
     = map (\<lambda>e. (e_position e, e_type e)) (position_events db) @ map (\<lambda>r. (p_id r, EFullClose)) rows"
  by (induction rows arbitrary: db) (auto simp: store_simps)

lemma row_by_id:
  assumes "ids_increasing (map p_id ps)" "r \<in> set ps" "set qs \<subseteq> set ps"
  shows "p_id r \<in> p_id ` set qs \<longleftrightarrow> r \<in> set qs"
proof -
  have "inj_on p_id (set ps)" using ids_increasing_distinct [OF assms(1)] by (simp add: distinct_map)
  then show ?thesis using assms(2,3) by (auto simp: inj_on_def image_iff)
qed

lemma vanished_iff:
  "r \<in> set (vanished wallet venue kind present db) \<longleftrightarrow> r \<in> set (positions db) \<and> p_wallet r = wallet
     \<and> p_venue r = venue \<and> p_kind r = kind \<and> p_closed_at r = None
     \<and> lower (p_external r) \<notin> set (map lower present)"
  by (auto simp: vanished_def open_rows_def)

lemma reconcile_positions:
  assumes "positions_ok db"
  shows "positions (snd (reconcile_closures wallet venue kind present ts db))
     = map (\<lambda>r. if r \<in> set (vanished wallet venue kind present db) then r\<lparr>p_closed_at := Some ts\<rparr> else r) (positions db)"
proof -
  have "p_id r \<in> p_id ` set (vanished wallet venue kind present db) \<longleftrightarrow> r \<in> set (vanished wallet venue kind present db)"
    if "r \<in> set (positions db)" for r
    by (rule row_by_id [OF positions_okD(2) [OF assms] that]) (auto simp: vanished_iff)
  then show ?thesis by (simp add: reconcile_closures_def Let_def fold_close)
qed

text \<open>A sweep closes exactly the open rows of its wallet, venue and kind that it no longer
  shows (ids compared without case), each with one full-close event appended, touches no other
  row, and closes nothing more when it is repeated.\<close>

theorem reconcile_closes_exactly:
  assumes "positions_ok db" and "reconcile_closures wallet venue kind present ts db = (gone, db')"
  shows "positions db' = map (\<lambda>r. if r \<in> set (vanished wallet venue kind present db)
                                  then r\<lparr>p_closed_at := Some ts\<rparr> else r) (positions db)
    \<and> map (\<lambda>e. (e_position e, e_type e)) (position_events db')
        = map (\<lambda>e. (e_position e, e_type e)) (position_events db)
          @ map (\<lambda>r. (p_id r, EFullClose)) (vanished wallet venue kind present db)
    \<and> gone = map p_external (vanished wallet venue kind present db)
    \<and> fst (reconcile_closures wallet venue kind present ts' db') = []"
proof -
  have db': "db' = snd (reconcile_closures wallet venue kind present ts db)" using assms(2) by simp
  have pos: "positions db' = map (\<lambda>r. if r \<in> set (vanished wallet venue kind present db)
      then r\<lparr>p_closed_at := Some ts\<rparr> else r) (positions db)"
    unfolding db' by (rule reconcile_positions [OF assms(1)])
  have "r \<notin> set (vanished wallet venue kind present db')" for r
  proof
    assume r: "r \<in> set (vanished wallet venue kind present db')"
    then have "r \<in> set (positions db')" unfolding vanished_iff by blast
    then obtain q where q: "q \<in> set (positions db)"
        "r = (if q \<in> set (vanished wallet venue kind present db) then q\<lparr>p_closed_at := Some ts\<rparr> else q)"
      unfolding pos set_map by blast
    show False
    proof (cases "q \<in> set (vanished wallet venue kind present db)")
      case True
      with q(2) r show ?thesis unfolding vanished_iff [of r] by simp
    next
      case False
      with q r show ?thesis unfolding vanished_iff [of r] vanished_iff [of q] by (simp only: if_False) blast
    qed
  qed
  then have again: "vanished wallet venue kind present db' = []"
    using last_in_set by blast
  have ev: "map (\<lambda>e. (e_position e, e_type e)) (position_events db') = map (\<lambda>e. (e_position e, e_type e)) (position_events db)
      @ map (\<lambda>r. (p_id r, EFullClose)) (vanished wallet venue kind present db)"
    unfolding db' reconcile_closures_def Let_def snd_conv using fold_close by blast
  have gone: "gone = map p_external (vanished wallet venue kind present db)"
    using assms(2) by (simp add: reconcile_closures_def Let_def)
  have "fst (reconcile_closures wallet venue kind present ts' db') = []"
    unfolding reconcile_closures_def again Let_def fst_conv by simp
  then show ?thesis
    using pos ev gone by blast
qed

section \<open>Replaying the derived events\<close>

lemma json_eq_cases:
  "json_eq a b \<longleftrightarrow> (case num_of a of Some x \<Rightarrow> (\<exists>y. num_of b = Some y \<and> dval x = dval y) | None \<Rightarrow> a = b)"
  by (auto simp: json_eq_def deq_iff split: option.splits)

lemma json_eq_trans: "json_eq a b \<Longrightarrow> json_eq b c \<Longrightarrow> json_eq a c"
  by (auto simp: json_eq_cases split: option.splits)

lemma json_eq_sym: "json_eq a b \<Longrightarrow> json_eq b a"
  by (auto simp: json_eq_cases split: option.splits)

definition events_of :: "nat \<Rightarrow> store \<Rightarrow> event_row list" where
  "events_of pid db = filter (\<lambda>e. e_position e = pid) (position_events db)"

definition replay_event :: "json option \<Rightarrow> event_row \<Rightarrow> json option" where
  "replay_event v e = (case e_type e of
     EOpen \<Rightarrow> map_option snd (tracked (e_state e)) | EModify \<Rightarrow> get (e_delta e) ''new'' | _ \<Rightarrow> v)"

definition replay_events :: "nat \<Rightarrow> store \<Rightarrow> json option" where
  "replay_events pid db = foldl replay_event None (events_of pid db)"

definition opens :: "nat \<Rightarrow> store \<Rightarrow> nat" where
  "opens pid db = List.length (filter (\<lambda>e. e_type e = EOpen) (events_of pid db))"

text \<open>One recording of a position followed by the derivation of its transition.\<close>

definition record_and_observe :: "nat \<Rightarrow> instant \<times> dict \<Rightarrow> store \<Rightarrow> store" where
  "record_and_observe pid obs db =
     snd (observe pid (fst obs) (insert_event pid (fst obs) EObserved [] (snd obs) db))"

definition replayed :: "nat \<Rightarrow> store \<Rightarrow> bool" where
  "replayed pid db = (if observed_states pid db = [] then opens pid db = 0
     else opens pid db = 1 \<and> (case (replay_events pid db, tracked (last (observed_states pid db))) of
            (Some v, Some (_, w)) \<Rightarrow> json_eq v w | _ \<Rightarrow> False))"

lemma events_of_insert:
  "events_of pid (insert_event pid ts type delta state db) = events_of pid db @
     [\<lparr>e_id = next_id (map e_id (position_events db)), e_position = pid, e_ts = ts, e_type = type,
       e_delta = delta, e_state = state\<rparr>]"
  by (simp add: events_of_def insert_event_def)

lemma replay_insert [store_simps]:
  "replay_events pid (insert_event pid ts type delta state db)
     = (case type of EOpen \<Rightarrow> map_option snd (tracked state) | EModify \<Rightarrow> get delta ''new''
          | _ \<Rightarrow> replay_events pid db)"
  "opens pid (insert_event pid ts type delta state db) = opens pid db + (if type = EOpen then 1 else 0)"
  by (cases type; simp add: replay_events_def opens_def events_of_insert replay_event_def)
    (simp add: opens_def events_of_insert)

lemma observe_cases:
  assumes "observed_states pid db = os @ [s]" and "tracked s = Some (f, v)" and "list_all (\<lambda>s. tracked s \<noteq> None) os"
  shows "snd (observe pid ts db) =
    (if os = [] then insert_event pid ts EOpen [] s db
     else case tracked (last os) of
       Some (_, w) \<Rightarrow> if json_eq v w then db
          else insert_event pid ts EModify [(''field'', JStr f), (''old'', w), (''new'', v)] s db
     | None \<Rightarrow> db)"
proof (cases os rule: rev_cases)
  case (snoc os' t)
  with assms show ?thesis by (auto simp: observe_def)
qed (use assms in \<open>simp add: observe_def\<close>)

lemma record_and_observe_replayed:
  assumes "replayed pid db" and "list_all (\<lambda>s. tracked s \<noteq> None) (observed_states pid db)"
    and "tracked (snd obs) \<noteq> None"
  shows "replayed pid (record_and_observe pid obs db)
     \<and> observed_states pid (record_and_observe pid obs db) = observed_states pid db @ [snd obs]"
proof -
  obtain f v where s: "tracked (snd obs) = Some (f, v)" using assms(3) by auto
  let ?db = "insert_event pid (fst obs) EObserved [] (snd obs) db"
  have os: "observed_states pid ?db = observed_states pid db @ [snd obs]" by (simp add: store_simps)
  note step = observe_cases [OF os s assms(2), of "fst obs"]
  show ?thesis
  proof (cases "observed_states pid db = []")
    case True
    with assms(1) show ?thesis
      by (simp add: record_and_observe_def step replayed_def store_simps s)
  next
    case False
    then obtain g w where w: "tracked (last (observed_states pid db)) = Some (g, w)"
      using assms(2) last_in_set [OF False] by (fastforce simp: list_all_iff)
    with False assms(1) obtain u where u: "replay_events pid db = Some u" "json_eq u w"
      by (auto simp: replayed_def split: option.splits)
    with False assms(1) w s show ?thesis
      by (auto simp: record_and_observe_def step replayed_def store_simps get_def
          intro: json_eq_trans json_eq_sym)
  qed
qed

lemma record_all_replayed:
  assumes "replayed pid db" "list_all (\<lambda>s. tracked s \<noteq> None) (observed_states pid db)"
    "list_all (\<lambda>obs. tracked (snd obs) \<noteq> None) obss"
  shows "replayed pid (fold (record_and_observe pid) obss db)
    \<and> observed_states pid (fold (record_and_observe pid) obss db) = observed_states pid db @ map snd obss"
  using assms
proof (induction obss arbitrary: db)
  case (Cons obs obss)
  have "replayed pid (record_and_observe pid obs db)
     \<and> observed_states pid (record_and_observe pid obs db) = observed_states pid db @ [snd obs]"
    using Cons.prems by (intro record_and_observe_replayed) auto
  with Cons.IH [of "record_and_observe pid obs db"] Cons.prems show ?case by simp
qed simp

text \<open>C40. Replaying a position's derived events reconstructs it: after any series of observations
  that all carry a tracked field, each followed by \<open>observe\<close>, there is exactly one open event and
  the open and modify events replay to a value equal to the tracked field of the last observation.\<close>

theorem lifecycle_replay_reconstructs:
  assumes "events_of pid db = []" "obss \<noteq> []" "list_all (\<lambda>obs. tracked (snd obs) \<noteq> None) obss"
  shows "opens pid (fold (record_and_observe pid) obss db) = 1
    \<and> (\<exists>v f w. replay_events pid (fold (record_and_observe pid) obss db) = Some v
         \<and> tracked (snd (last obss)) = Some (f, w) \<and> json_eq v w)"
proof -
  have none: "observed_states pid db = []"
    using assms(1) by (auto simp: observed_states_def events_of_def filter_empty_conv)
  then have "replayed pid db" using assms(1) by (simp add: replayed_def opens_def)
  from record_all_replayed [OF this _ assms(3)] none assms(2) show ?thesis
    by (auto simp: replayed_def last_map split: option.splits)
qed

lemma lifecycle_replay_reconstructs_witness:
  "opens 1 (fold (record_and_observe 1) [(0, [(''liquidity'', JInt 5)]), (7, [(''liquidity'', JInt 9)])] empty_store) = 1
    \<and> (\<exists>v f w. replay_events 1 (fold (record_and_observe 1) [(0, [(''liquidity'', JInt 5)]), (7, [(''liquidity'', JInt 9)])] empty_store) = Some v
         \<and> tracked (snd (last [(0::instant, [(''liquidity'', JInt 5)]), (7, [(''liquidity'', JInt 9)])])) = Some (f, w) \<and> json_eq v w)"
  by (rule lifecycle_replay_reconstructs)
    (simp_all add: events_of_def empty_store_def tracked_def tracked_fields_def get_def)

section \<open>Histories of the position tables\<close>

text \<open>Everything that writes the two tables: a recorder's upsert with its observed event (a
  failure rolls the transaction back), the derivation of a transition, a sweep's closures.\<close>

datatype position_op =
    RecordIgnore position_key string instant dict
  | RecordMetadata position_key string instant dict dict
  | ObserveOp nat instant
  | ReconcileOp string string position_kind "string list" instant

definition or_rollback :: "store \<Rightarrow> store option \<Rightarrow> store" where
  "or_rollback db r = (case r of None \<Rightarrow> db | Some db' \<Rightarrow> db')"

fun position_step :: "position_op \<Rightarrow> store \<Rightarrow> store" where
  "position_step (RecordIgnore key g ts state) db =
     or_rollback db (insert_observed key ts state (upsert_ignore key g ts db))"
| "position_step (RecordMetadata key g ts md state) db =
     or_rollback db (insert_observed key ts state (upsert_metadata key g ts md db))"
| "position_step (ObserveOp pid ts) db = snd (observe pid ts db)"
| "position_step (ReconcileOp wallet venue kind present ts) db = snd (reconcile_closures wallet venue kind present ts db)"

lemma insert_observed_ok:
  "positions_ok db \<Longrightarrow> insert_observed key ts state db = Some db' \<Longrightarrow> positions_ok db'"
  by (auto simp: insert_observed_def intro: insert_event_ok position_id_in)

lemma insert_observed_total:
  "\<exists>db'. insert_observed key ts state (upsert_ignore key g ts' db) = Some db'"
  "\<exists>db'. insert_observed key ts state (upsert_metadata key g ts' md db) = Some db'"
  using upsert_present [of key] by (auto simp: insert_observed_def)

lemma observe_shape:
  "snd (observe pid ts db) = db \<or>
     observed_states pid db \<noteq> [] \<and> (\<exists>type delta state. snd (observe pid ts db) = insert_event pid ts type delta state db)"
proof (cases "take 2 (rev (observed_states pid db))")
  case (Cons s rest)
  then have "observed_states pid db \<noteq> []" by auto
  with Cons show ?thesis
    by (auto simp: observe_def split: list.splits option.splits if_splits)
qed (simp add: observe_def)

lemma observed_in: "positions_ok db \<Longrightarrow> observed_states pid db \<noteq> [] \<Longrightarrow> pid \<in> p_id ` set (positions db)"
  by (auto simp: observed_states_def filter_empty_conv dest: positions_okD(4))

lemma close_position_ok:
  assumes "positions_ok db" "pid \<in> p_id ` set (positions db)"
  shows "positions_ok (close_position pid ts db)"
proof -
  have "positions_ok (insert_event pid ts EFullClose [] [] db)" using assms by (rule insert_event_ok)
  then show ?thesis
    unfolding positions_ok_def close_position_def Let_def set_map_ids
    by (simp add: map_update_simps del: map_map set_map)
qed

lemma fold_close_ok:
  "positions_ok db \<Longrightarrow> p_id ` set rows \<subseteq> p_id ` set (positions db) \<Longrightarrow>
   positions_ok (fold (\<lambda>r. close_position (p_id r) ts) rows db)"
proof (induction rows arbitrary: db)
  case (Cons r rows)
  have "p_id ` set (positions (close_position (p_id r) ts db)) = p_id ` set (positions db)"
    unfolding set_map_ids store_simps map_update_simps ..
  with Cons show ?case by (simp add: close_position_ok)
qed simp

interpretation position_tables: machine position_step "\<lambda>_ _. True" positions_ok
proof
  fix db e
  assume ok: "positions_ok db"
  show "positions_ok (position_step e db)"
  proof (cases e)
    case (RecordIgnore key g ts state)
    then show ?thesis
      using insert_observed_ok [OF upsert_ok(1) [OF ok]] ok by (auto simp: or_rollback_def split: option.split)
  next
    case (RecordMetadata key g ts md state)
    then show ?thesis
      using insert_observed_ok [OF upsert_ok(2) [OF ok]] ok by (auto simp: or_rollback_def split: option.split)
  next
    case (ObserveOp pid ts)
    then show ?thesis
      using observe_shape [of pid ts db] ok
      by (auto simp del: set_map intro: insert_event_ok [OF ok observed_in [OF ok]])
  next
    case (ReconcileOp wallet venue kind present ts)
    then show ?thesis
      using ok by (auto simp: reconcile_closures_def Let_def vanished_iff intro!: fold_close_ok)
  qed
qed

definition closed_row :: "nat \<Rightarrow> store \<Rightarrow> bool" where
  "closed_row pid db \<longleftrightarrow> list_ex (\<lambda>r. p_id r = pid \<and> p_closed_at r \<noteq> None) (positions db)"

lemma closed_row_map:
  assumes "closed_row pid db" "positions db' = map f (positions db)"
    and "\<And>r. p_id (f r) = p_id r" "\<And>r. p_closed_at r \<noteq> None \<Longrightarrow> p_closed_at (f r) \<noteq> None"
  shows "closed_row pid db'"
proof -
  obtain r where r: "r \<in> set (positions db)" "p_id r = pid" "p_closed_at r \<noteq> None"
    using assms(1) unfolding closed_row_def list_ex_iff by blast
  then have "f r \<in> set (positions db')" using assms(2) by simp
  moreover have "p_id (f r) = pid" "p_closed_at (f r) \<noteq> None" using r(2) assms(3) assms(4) [OF r(3)] by auto
  ultimately show ?thesis unfolding closed_row_def list_ex_iff by blast
qed

lemma upsert_closed:
  assumes "closed_row pid db"
  shows "closed_row pid (upsert_ignore key g ts db)" "closed_row pid (upsert_metadata key g ts md db)"
proof -
  show "closed_row pid (upsert_ignore key g ts db)"
    using assms by (simp add: upsert_ignore_def insert_position_def closed_row_def)
  show "closed_row pid (upsert_metadata key g ts md db)"
  proof (cases "key \<in> key_of ` set (positions db)")
    case True
    show ?thesis
      by (rule closed_row_map [OF assms, of _ "\<lambda>r. if key_of r = key then r\<lparr>p_metadata := Some md\<rparr> else r"])
        (use True in \<open>simp_all add: upsert_metadata_def\<close>)
  qed (use assms in \<open>simp add: upsert_metadata_def insert_position_def closed_row_def\<close>)
qed

lemma insert_observed_positions: "insert_observed key ts state db = Some db' \<Longrightarrow> positions db' = positions db"
  by (auto simp: insert_observed_def store_simps)

lemma closed_row_cong: "positions db = positions db' \<Longrightarrow> closed_row pid db = closed_row pid db'"
  by (simp add: closed_row_def)

interpretation closure: latch position_step "closed_row pid" for pid
proof
  fix db e
  assume closed: "closed_row pid db"
  note upserts = upsert_closed [OF closed]
  show "closed_row pid (position_step e db)"
  proof (cases e)
    case (RecordIgnore key g ts state)
    then show ?thesis using closed upserts(1) [of key g ts]
      by (auto simp: or_rollback_def closed_row_cong [OF insert_observed_positions] split: option.split)
  next
    case (RecordMetadata key g ts md state)
    then show ?thesis using closed upserts(2) [of key g ts md]
      by (auto simp: or_rollback_def closed_row_cong [OF insert_observed_positions] split: option.split)
  next
    case (ObserveOp q ts)
    have "positions (snd (observe q ts db)) = positions db"
      using observe_shape [of q ts db] by (auto simp: store_simps)
    then show ?thesis using closed ObserveOp by (simp add: closed_row_def)
  next
    case (ReconcileOp wallet venue kind present ts)
    let ?rows = "vanished wallet venue kind present db"
    show ?thesis
      by (rule closed_row_map [OF closed, of _ "\<lambda>r. if p_id r \<in> p_id ` set ?rows then r\<lparr>p_closed_at := Some ts\<rparr> else r"])
        (simp_all add: ReconcileOp reconcile_closures_def Let_def conjunct1 [OF fold_close])
  qed
qed

text \<open>A position once marked closed stays closed for good: no recorder clears \<open>closed_at\<close>, so
  a position that reappears under the same external id is observed again but never reopened.\<close>

theorem closed_position_stays_closed:
  "closed_row pid db \<Longrightarrow> closed_row pid (run position_step ops db)"
  by (rule closure.run_stuck)

definition sample_key :: position_key where
  "sample_key = \<lparr>k_wallet = ''w'', k_venue = ''gmx'', k_chain = ''arbitrum'', k_kind = KPerp, k_external = ''0xK''\<rparr>"

definition sample_store :: store where
  "sample_store = run position_step
     [RecordMetadata sample_key ''lp_hedge'' 10 [] [(''size_tokens'', JStr ''2'')],
      ReconcileOp ''w'' ''gmx'' KPerp [] 20] empty_store"

lemma sample_store_closed: "closed_row 1 sample_store"
  by (simp add: sample_store_def sample_key_def empty_store_def closed_row_def upsert_metadata_def insert_position_def
      next_id_def max_id_def insert_observed_def position_id_def key_of_def or_rollback_def insert_event_def
      reconcile_closures_def vanished_def open_rows_def close_position_def Let_def)

lemma closed_position_stays_closed_witness:
  "closed_row 1 (run position_step [RecordMetadata sample_key ''lp_hedge'' 30 [] [(''size_tokens'', JStr ''2'')]] sample_store)"
  by (rule closed_position_stays_closed [OF sample_store_closed])

lemma positions_ok_empty: "positions_ok empty_store"
  by (simp add: positions_ok_def empty_store_def ids_increasing_def)

definition sample_open :: store where
  "sample_open = run position_step
     [RecordMetadata sample_key ''lp_hedge'' 10 [] [(''size_tokens'', JStr ''2'')]] empty_store"

lemma sample_vanished: "map p_external (vanished ''w'' ''gmx'' KPerp [] sample_open) = [''0xK'']"
  by (simp add: sample_open_def sample_key_def empty_store_def upsert_metadata_def insert_position_def
      next_id_def max_id_def insert_observed_def position_id_def key_of_def or_rollback_def insert_event_def
      vanished_def open_rows_def)

lemma reconcile_closes_exactly_witness:
  "fst (reconcile_closures ''w'' ''gmx'' KPerp [] 20 sample_open) = [''0xK'']
   \<and> fst (reconcile_closures ''w'' ''gmx'' KPerp [] 30 (snd (reconcile_closures ''w'' ''gmx'' KPerp [] 20 sample_open))) = []"
proof -
  have ok: "positions_ok sample_open"
    unfolding sample_open_def by (rule position_tables.run_inv [OF positions_ok_empty]) simp
  show ?thesis
    using reconcile_closes_exactly [OF ok prod.collapse [symmetric], where ts' = 30] sample_vanished by simp
qed

end
