(* ===== verification/Roots.thy ===== *)
theory Roots
  imports Decimal
begin

text \<open>
  Square roots, powers and \<open>quantize\<close> of \<open>Decimal\<close>. The square root follows the
  algorithm of the standard library: an integer square root with one digit more
  than the precision, whose last digit is made \<open>sticky\<close> when the root is inexact,
  and one final rounding. \<open>dval_sqrt_ratio\<close> shows it is the correctly rounded root.
\<close>

section \<open>Integer square root\<close>

fun isqrt :: "nat \<Rightarrow> nat" where
  "isqrt n = (if n = 0 then 0
              else let r = 2 * isqrt (n div 4) in if (r + 1) * (r + 1) \<le> n then r + 1 else r)"

declare isqrt.simps [simp del]

lemma isqrt_bounds: "isqrt n * isqrt n \<le> n \<and> n < (isqrt n + 1) * (isqrt n + 1)"
proof (induction n rule: isqrt.induct)
  case (1 n)
  show ?case
  proof (cases "n = 0")
    case False
    define q where "q = isqrt (n div 4)"
    from "1" False have "q * q \<le> n div 4" "n div 4 < (q + 1) * (q + 1)"
      by (simp_all add: q_def)
    then have "4 * (q * q) \<le> n" "n < 4 * ((q + 1) * (q + 1))" by linarith+
    then have "(2 * q) * (2 * q) \<le> n" "n < (2 * q + 2) * (2 * q + 2)"
      by (simp_all add: algebra_simps)
    then show ?thesis
      using False by (simp add: isqrt.simps [of n] Let_def flip: q_def)
  qed (simp add: isqrt.simps)
qed

lemma isqrt_le_sqrt: "real (isqrt n) \<le> sqrt (real n)"
proof -
  have "real (isqrt n * isqrt n) \<le> real n" by (simp only: of_nat_le_iff isqrt_bounds)
  then show ?thesis by (simp add: real_le_rsqrt power2_eq_square)
qed

lemma sqrt_less_isqrt: "real n < r * r \<Longrightarrow> 0 \<le> r \<Longrightarrow> sqrt (real n) < r"
  by (rule real_less_lsqrt) (simp_all add: power2_eq_square)

section \<open>Sticky rounding\<close>

text \<open>
  A number strictly between two integers, the lower one with more than \<open>p\<close>
  digits, rounds like either of them that is not a multiple of five: no boundary
  between two \<open>p\<close>-digit numbers lies in between.
\<close>

lemma rhe_eq_if_no_half:
  assumes "u \<le> v" and "\<And>i. u \<le> of_int i + 1/2 \<Longrightarrow> of_int i + 1/2 \<le> v \<Longrightarrow> False"
  shows "rhe u = rhe v"
proof (rule ccontr)
  assume "rhe u \<noteq> rhe v"
  with rhe_mono [OF assms(1)] have l: "rhe u + 1 \<le> rhe v" by simp
  have "u \<le> of_int (rhe u) + 1/2" using rhe_bounds [of u] by linarith
  moreover have "of_int (rhe v) - 1/2 \<le> v" using rhe_bounds [of v] by linarith
  with l have "of_int (rhe u) + 1/2 \<le> v" by linarith
  ultimately show False by (rule assms(2))
qed

lemma rhe_sticky:
  assumes "u \<le> v" "0 < j" and "\<And>i. u \<le> of_int (5 * i) \<Longrightarrow> of_int (5 * i) \<le> v \<Longrightarrow> False"
  shows "rhe (u / 10 ^ j) = rhe (v / 10 ^ j)"
proof (rule rhe_eq_if_no_half)
  show "u / 10 ^ j \<le> v / 10 ^ j" using assms(1) by (simp add: divide_right_mono)
next
  fix i :: int
  assume i: "u / 10 ^ j \<le> of_int i + 1/2" "of_int i + 1/2 \<le> v / 10 ^ j"
  have "(of_int i + 1/2) * 10 ^ j = (real_of_int (5 * ((2 * i + 1) * 10 ^ (j - 1))))"
    using power_minus_mult [OF assms(2), of "10::real"] by (simp add: algebra_simps)
  moreover from i have "u \<le> (of_int i + 1/2) * 10 ^ j" "(of_int i + 1/2) * 10 ^ j \<le> v"
    by (simp_all add: pos_divide_le_eq pos_le_divide_eq)
  ultimately show False using assms(3) by metis
qed

definition sticky :: "nat \<Rightarrow> bool \<Rightarrow> nat" where
  "sticky m exact = (if \<not> exact \<and> m mod 5 = 0 then m + 1 else m)"

lemma int_between: "real m < y \<Longrightarrow> y < real m + 1 \<Longrightarrow> y \<le> of_int i \<Longrightarrow> of_int i \<le> real m + 1 \<Longrightarrow> i = int m + 1"
  by linarith

lemma rnd_sticky:
  assumes p: "0 < p" and m: "10 ^ p \<le> m" and y: "real m \<le> y" "y < real m + 1"
    and ex: "exact \<longleftrightarrow> y = real m"
  shows "rnd p (real (sticky m exact)) = rnd p y"
proof (cases exact)
  case True
  with ex show ?thesis by (simp add: sticky_def)
next
  case False
  with ex y have y0: "real m < y" by simp
  define k where "k = int (ndigits m) - 1"
  have m0: "0 < m" using m by (metis gr0I leD zero_less_power zero_less_numeral)
  have up: "m + 1 \<le> 10 ^ ndigits m" using ndigits_upper [of m] by simp
  have nd: "p < ndigits m"
    using m ndigits_upper [of m] by (meson le_less_trans power_less_imp_less_exp one_less_numeral_iff semiring_norm(76))
  have lo: "10 powi k \<le> real m" using powi10_digits [OF m0] by (simp add: k_def)
  have hi: "real m + 1 \<le> 10 powi (k + 1)"
    using up by (simp add: k_def powi10_nat) (metis of_nat_1 of_nat_add of_nat_le_iff of_nat_numeral of_nat_power Suc_eq_plus1 add.commute)
  have dy: "dec_exponent y = k"
    using y0 y(2) lo hi by (intro dec_exponent_eqI) linarith+
  have st: "real (sticky m exact) < 10 powi (k + 1)"
  proof (cases "m mod 5 = 0")
    case True
    have "(10::nat) ^ ndigits m mod 5 = 0"
      using nd by (cases "ndigits m") auto
    then have "m + 1 \<noteq> 10 ^ ndigits m" using True by presburger
    with up have "real (m + 1) < real (10 ^ ndigits m)" by (simp only: of_nat_less_iff)
    then show ?thesis by (simp add: sticky_def True False k_def powi10_nat)
  next
    case F: False
    then show ?thesis using hi by (simp add: sticky_def F)
  qed
  have ds: "dec_exponent (real (sticky m exact)) = k"
    using lo st by (intro dec_exponent_eqI) (auto simp: sticky_def)
  define j where "j = nat (k - int p + 1)"
  have j: "0 < j" "k - int p + 1 = int j" using nd by (simp_all add: j_def k_def)
  have "rhe (real (sticky m exact) / 10 ^ j) = rhe (y / 10 ^ j)"
  proof (cases "m mod 5 = 0")
    case True
    have "y \<le> of_int (5 * i) \<Longrightarrow> of_int (5 * i) \<le> real (m + 1) \<Longrightarrow> False" for i
      using int_between [OF y0 y(2), of "5 * i"] True by simp presburger
    then have "rhe (y / 10 ^ j) = rhe (real (m + 1) / 10 ^ j)"
      using y by (intro rhe_sticky [OF _ j(1)]) simp_all
    then show ?thesis by (simp add: sticky_def False True)
  next
    case F: False
    have "real m \<le> of_int (5 * i) \<Longrightarrow> of_int (5 * i) \<le> y \<Longrightarrow> False" for i
    proof -
      assume "real m \<le> of_int (5 * i)" "of_int (5 * i) \<le> y"
      with y(2) have "int m = 5 * i" by linarith
      with F show False by presburger
    qed
    then show ?thesis
      unfolding sticky_def using F y0 by (intro rhe_sticky [OF _ j(1)]) simp_all
  qed
  moreover have "0 < real (sticky m exact)" "0 < y" using m0 y0 by (auto simp: sticky_def)
  ultimately show ?thesis
    by (simp add: rnd_def rnd_pos_def Let_def dy ds j(2) powi10_nat)
qed


lemma rnd_scale: "rnd p (x * 10 powi k) = rnd p x * 10 powi k"
proof -
  have pos: "rnd_pos p (y * 10 powi k) = rnd_pos p y * 10 powi k" if y: "0 < y" for y
  proof -
    have "dec_exponent (y * 10 powi k) = dec_exponent y + k"
    proof (rule dec_exponent_eqI)
      show "10 powi (dec_exponent y + k) \<le> y * 10 powi k"
        using dec_exponent_bounds(1) [OF y] by (simp add: powi10_add)
      have "10 powi (dec_exponent y + k + 1) = 10 powi (dec_exponent y + 1) * (10::real) powi k"
        by (simp flip: powi10_add add: algebra_simps)
      then show "y * 10 powi k < 10 powi (dec_exponent y + k + 1)"
        using dec_exponent_bounds(2) [OF y] by simp
    qed
    then have e: "dec_exponent (y * 10 powi k) - int p + 1 = (dec_exponent y - int p + 1) + k" by simp
    have "(10::real) powi k \<noteq> 0" by simp
    then have "y * 10 powi k / (g * 10 powi k) = y / g" for g by simp
    then show ?thesis unfolding rnd_pos_def Let_def e powi10_add [of _ k] by simp
  qed
  have k: "\<not> (10::real) powi k < 0" by (simp add: not_less less_imp_le)
  consider "x = 0" | "0 < x" | "x < 0" by linarith
  then show ?thesis
    using pos [of x] pos [of "- x"] k by cases (simp_all add: rnd_def mult_less_0_iff)
qed

section \<open>Square root of a ratio and of a decimal\<close>

text \<open>
  \<open>sqrt_ratio p n d e\<close> is the root of \<open>n/d * 10^e\<close> to \<open>p\<close> digits. The ratio is
  scaled by an even power of ten until its integer root has more than \<open>p\<close> digits.
\<close>

definition sqrt_shift :: "nat \<Rightarrow> nat \<Rightarrow> nat \<Rightarrow> int" where
  "sqrt_shift p n d = (2 * int p + 2 + int (ndigits d) - int (ndigits n)) div 2"

definition sqrt_ratio :: "nat \<Rightarrow> nat \<Rightarrow> nat \<Rightarrow> int \<Rightarrow> decimal" where
  "sqrt_ratio p n d e =
     (let n' = (if odd e then 10 * n else n);
          s = sqrt_shift p n' d;
          num = scaled_num n' (2 * s);
          den = scaled_den d (2 * s);
          r = isqrt (num div den)
      in dfix p (Dec False (sticky r (r * r * den = num)) (e div 2 - s)))"

text \<open>\<open>Decimal.sqrt\<close>; \<open>None\<close> is the \<open>InvalidOperation\<close> of a negative number.\<close>

definition dsqrt :: "nat \<Rightarrow> decimal \<Rightarrow> decimal option" where
  "dsqrt p x =
     (if dcoef x = 0 then Some (Dec (dneg x) 0 (dexp x div 2))
      else if dneg x then None
      else let c = (if odd (dexp x) then 10 * dcoef x else dcoef x); r = isqrt c
           in if r * r = c then Some (dfix p (Dec False r (dexp x div 2)))
              else Some (sqrt_ratio p (dcoef x) 1 (dexp x)))"

lemma isqrt_ratio:
  fixes num den :: nat
  assumes "0 < den"
  defines "y \<equiv> sqrt (real num / real den)" and "r \<equiv> isqrt (num div den)"
  shows "real r \<le> y" "y < real r + 1" "r * r * den = num \<longleftrightarrow> y = real r"
proof -
  have c: "real (num div den) \<le> real num / real den" "real num / real den < real (num div den) + 1"
    using of_int_floor_le [of "real num / real den"] floor_less_iff [of "real num / real den" "int (num div den) + 1"]
    by (simp_all add: floor_divide_of_nat_eq)
  have "real r \<le> sqrt (real (num div den))" unfolding r_def by (rule isqrt_le_sqrt)
  also have "\<dots> \<le> y" unfolding y_def using c(1) by simp
  finally show "real r \<le> y" .
  have "num div den + 1 \<le> (r + 1) * (r + 1)" using isqrt_bounds [of "num div den"] by (simp add: r_def)
  then have "real (num div den + 1) \<le> real ((r + 1) * (r + 1))"
    by (simp only: of_nat_le_iff)
  then have "real (num div den) + 1 \<le> (real r + 1) * (real r + 1)"
    by (simp only: of_nat_add of_nat_mult of_nat_1)
  with c(2) have "real num / real den < (real r + 1)\<^sup>2" by (simp add: power2_eq_square)
  then show "y < real r + 1" unfolding y_def by (intro real_less_lsqrt) auto
  have "r * r * den = num \<longleftrightarrow> real (r * r * den) = real num"
    by (simp only: of_nat_eq_iff)
  also have "\<dots> \<longleftrightarrow> real r * real r * real den = real num"
    by (simp only: of_nat_mult)
  also have "\<dots> \<longleftrightarrow> real num / real den = real r * real r"
    using assms(1) by (auto simp: field_simps)
  also have "\<dots> \<longleftrightarrow> y = sqrt (real r * real r)"
    unfolding y_def by (simp only: real_sqrt_eq_iff)
  also have "sqrt (real r * real r) = real r" by simp
  finally show "r * r * den = num \<longleftrightarrow> y = real r" .
qed

lemma sqrt_shift_big:
  assumes "0 < n" "0 < d"
  shows "10 ^ p \<le> isqrt (scaled_num n (2 * sqrt_shift p n d) div scaled_den d (2 * sqrt_shift p n d))"
proof -
  define s where "s = sqrt_shift p n d"
  define c where "c = scaled_num n (2 * s) div scaled_den d (2 * s)"
  have "10 powi (int (ndigits n) - 1) / 10 powi int (ndigits d) \<le> real n / real d"
    using powi10_digits [OF assms(1)] powi10_digits_upper [of d] assms(2)
    by (intro frac_le) auto
  then have "10 powi (int (ndigits n) - 1 - int (ndigits d)) * 10 powi (2 * s) \<le> real n / real d * 10 powi (2 * s)"
    by (intro mult_right_mono) (auto simp: powi10_diff less_imp_le)
  then have "10 powi (int (ndigits n) - 1 - int (ndigits d) + 2 * s) \<le> real n / real d * 10 powi (2 * s)"
    by (simp only: powi10_add)
  moreover have "2 * int p \<le> int (ndigits n) - 1 - int (ndigits d) + 2 * s"
    unfolding s_def sqrt_shift_def by linarith
  then have "10 powi (2 * int p) \<le> (10::real) powi (int (ndigits n) - 1 - int (ndigits d) + 2 * s)"
    by simp
  moreover have "(10::real) powi (2 * int p) = real (10 ^ (2 * p))"
    by (simp add: powi10_nat nat_mult_distrib)
  ultimately have "real (10 ^ (2 * p)) \<le> real (scaled_num n (2 * s)) / real (scaled_den d (2 * s))"
    by (simp only: scaled_ratio)
  then have "real (10 ^ (2 * p) * scaled_den d (2 * s)) \<le> real (scaled_num n (2 * s))"
    using scaled_den_pos [OF assms(2)] by (simp add: pos_le_divide_eq)
  then have "10 ^ (2 * p) \<le> c"
    unfolding c_def using scaled_den_pos [OF assms(2)]
    by (simp only: of_nat_le_iff less_eq_div_iff_mult_less_eq)
  then have "10 ^ p * 10 ^ p < (isqrt c + 1) * (isqrt c + 1)"
    using isqrt_bounds [of c] by (simp add: power_add mult_2)
  then have "10 ^ p < isqrt c + 1"
    by (meson mult_le_mono not_less)
  then show ?thesis by (simp add: c_def s_def)
qed

lemma sqrt_even_power: "sqrt (a * 10 powi (2 * k)) = sqrt a * 10 powi k"
proof -
  have "(10::real) powi (2 * k) = (10 powi k)\<^sup>2"
    by (simp add: power2_eq_square flip: powi10_add mult_2)
  then show ?thesis by (simp add: real_sqrt_mult less_imp_le)
qed

lemma sqrt_halve_exponent:
  "sqrt (real n / real d * 10 powi e)
   = sqrt (real (if odd e then 10 * n else n) / real d) * 10 powi (e div 2)"
proof (cases "odd e")
  case True
  then have "e = 2 * (e div 2) + 1" by presburger
  then have "(10::real) powi e = 10 powi (2 * (e div 2)) * 10"
    by (metis powi10_add power_int_1_right)
  then have "real n / real d * 10 powi e = real (10 * n) / real d * 10 powi (2 * (e div 2))"
    by simp
  then have "sqrt (real n / real d * 10 powi e) = sqrt (real (10 * n) / real d) * 10 powi (e div 2)"
    by (simp only: sqrt_even_power)
  with True show ?thesis by presburger
next
  case False
  then have "2 * (e div 2) = e" by presburger
  with False show ?thesis using sqrt_even_power [of "real n / real d" "e div 2"] by simp
qed

theorem dval_sqrt_ratio:
  assumes "0 < n" "0 < d" "0 < p"
  shows "dval (sqrt_ratio p n d e) = rnd p (sqrt (real n / real d * 10 powi e))"
proof -
  define n' where "n' = (if odd e then 10 * n else n)"
  define s where "s = sqrt_shift p n' d"
  define num where "num = scaled_num n' (2 * s)"
  define den where "den = scaled_den d (2 * s)"
  define r where "r = isqrt (num div den)"
  define y where "y = sqrt (real num / real den)"
  have n': "0 < n'" using assms(1) by (simp add: n'_def)
  have den: "0 < den" using scaled_den_pos [OF assms(2)] by (simp add: den_def)
  have "10 ^ p \<le> r" unfolding r_def num_def den_def s_def by (rule sqrt_shift_big [OF n' assms(2)])
  then have "rnd p (real (sticky r (r * r * den = num))) = rnd p y"
    using isqrt_ratio [OF den, of num] unfolding r_def y_def by (intro rnd_sticky [OF assms(3)]) auto
  moreover have "dval (sqrt_ratio p n d e) = rnd p (real (sticky r (r * r * den = num)) * 10 powi (e div 2 - s))"
    using assms(3) by (simp add: sqrt_ratio_def Let_def dval_dfix dval_Dec flip: n'_def s_def num_def den_def r_def)
  moreover have "y = sqrt (real n' / real d) * 10 powi s"
    by (simp only: y_def num_def den_def scaled_ratio sqrt_even_power)
  then have "y * 10 powi (e div 2 - s) = sqrt (real n / real d * 10 powi e)"
    by (simp only: sqrt_halve_exponent n'_def [symmetric]) (simp add: powi10_diff)
  ultimately show ?thesis by (metis rnd_scale)
qed


theorem dval_dsqrt [dval_simps]:
  assumes "0 < p" "dsqrt p x = Some r"
  shows "dval r = rnd p (sqrt (dval x))"
proof (cases "dcoef x = 0")
  case True
  with assms show ?thesis by (auto simp: dsqrt_def dval_def)
next
  case False
  let ?c = "if odd (dexp x) then 10 * dcoef x else dcoef x"
  have n: "\<not> dneg x" using assms(2) False by (auto simp: dsqrt_def split: if_splits)
  then have v: "dval x = real (dcoef x) / real 1 * 10 powi dexp x" by (simp add: dval_def)
  show ?thesis
  proof (cases "isqrt ?c * isqrt ?c = ?c")
    case True
    then have "r = dfix p (Dec False (isqrt ?c) (dexp x div 2))"
      using assms(2) False n by (simp add: dsqrt_def Let_def)
    moreover have "sqrt (real ?c / real 1) = real (isqrt ?c)"
    proof -
      have "real ?c / real 1 = real (isqrt ?c * isqrt ?c)" by (simp only: True div_by_1 of_nat_1)
      then show ?thesis by (simp only: of_nat_mult) simp
    qed
    ultimately show ?thesis
      unfolding v sqrt_halve_exponent using assms(1) by (simp add: dval_dfix dval_Dec)
  next
    case False2: False
    then have "r = sqrt_ratio p (dcoef x) 1 (dexp x)"
      using assms(2) False n by (simp add: dsqrt_def Let_def)
    then show ?thesis
      unfolding v using False assms(1) by (simp only: dval_sqrt_ratio)
  qed
qed

lemma dsqrt_None_iff: "dsqrt p x = None \<longleftrightarrow> dval x < 0"
  by (auto simp: dsqrt_def Let_def dval_def mult_less_0_iff not_less less_imp_le)

section \<open>Quantize\<close>

text \<open>
  \<open>d.quantize(Decimal("1E<e>"))\<close>: the multiple of \<open>10^e\<close> nearest to \<open>d\<close>, ties to
  even; \<open>None\<close> is the \<open>InvalidOperation\<close> when it has more than \<open>p\<close> digits.
\<close>

definition dquantize :: "nat \<Rightarrow> decimal \<Rightarrow> int \<Rightarrow> decimal option" where
  "dquantize p d e =
     (let c = div_half_even (scaled_num (dcoef d) (dexp d - e)) (scaled_den 1 (dexp d - e))
      in if p < ndigits c then None else Some (Dec (dneg d) c e))"

lemma dval_dquantize:
  assumes "dquantize p d e = Some r"
  shows "dval r = (if dneg d then - 1 else 1) * (of_int (rhe (\<bar>dval d\<bar> / 10 powi e)) * 10 powi e)"
proof -
  have "\<bar>dval d\<bar> / 10 powi e = real (dcoef d) / real 1 * 10 powi (dexp d - e)"
    by (simp add: dval_def powi10_diff abs_mult)
  also have "\<dots> = real (scaled_num (dcoef d) (dexp d - e)) / real (scaled_den 1 (dexp d - e))"
    by (rule scaled_ratio [symmetric])
  finally have "rhe (\<bar>dval d\<bar> / 10 powi e)
      = int (div_half_even (scaled_num (dcoef d) (dexp d - e)) (scaled_den 1 (dexp d - e)))"
    using rhe_div_half_even [OF scaled_den_pos] by simp
  with assms show ?thesis
    by (auto simp: dquantize_def Let_def dval_Dec split: if_splits)
qed

section \<open>Powers\<close>

text \<open>\<open>Decimal(10) ** k\<close> for an integer \<open>k\<close>.\<close>

definition dpow10 :: "nat \<Rightarrow> int \<Rightarrow> decimal" where
  "dpow10 p k = (if 0 \<le> k then dfix p (Dec False (10 ^ nat k) 0) else Dec False 1 k)"

lemma rnd_pow10 [simp]: "0 < p \<Longrightarrow> rnd p (10 powi k) = 10 powi k"
  using rnd_exact [of 1 p k] one_less_power [of "10::nat" p] by simp

lemma dval_dpow10 [dval_simps]: "0 < p \<Longrightarrow> dval (dpow10 p k) = 10 powi k"
  using rnd_pow10 [of p k] by (auto simp: dpow10_def dval_dfix dval_Dec powi10_nat simp del: rnd_pow10)

text \<open>\<open>1.0001 ** t\<close> and \<open>1.0001 ** (t/2)\<close>, correctly rounded to \<open>p\<close> digits.\<close>

definition tick_pow :: "nat \<Rightarrow> int \<Rightarrow> decimal" where
  "tick_pow p t =
     (if 0 \<le> t then dfix p (Dec False (10001 ^ nat t) (- 4 * t))
      else round_ratio p False (10 ^ (4 * nat (- t))) (10001 ^ nat (- t)) 0)"

definition tick_half_pow :: "nat \<Rightarrow> int \<Rightarrow> decimal" where
  "tick_half_pow p t =
     (if even t then tick_pow p (t div 2)
      else if 0 \<le> t then sqrt_ratio p (10001 ^ nat t) 1 (- 4 * t)
      else sqrt_ratio p (10 ^ (4 * nat (- t))) (10001 ^ nat (- t)) 0)"

definition tick_base :: real where
  "tick_base = 10001 / 10000"

lemma tick_base_gt: "1 < tick_base"
  by (simp add: tick_base_def)

lemma tick_base_up: "0 \<le> t \<Longrightarrow> tick_base powi t = real (10001 ^ nat t) * 10 powi (- 4 * t)"
proof -
  assume t: "0 \<le> t"
  have "- 4 * t = - int (4 * nat t)" using t by simp
  then have "(10::real) powi (- 4 * t) = inverse (10 powi int (4 * nat t))"
    by (simp only: power_int_minus)
  also have "\<dots> = inverse (10000 ^ nat t)"
    by (simp only: powi10_nat of_nat_0_le_iff nat_int power_mult) simp
  finally have "(10::real) powi (- 4 * t) = inverse (10000 ^ nat t)" .
  moreover have "tick_base powi t = 10001 ^ nat t / 10000 ^ nat t"
    using t by (simp only: tick_base_def power_int_def if_True power_divide)
  ultimately show ?thesis by (simp only: divide_inverse of_nat_power of_nat_numeral)
qed

lemma tick_base_down:
  "t < 0 \<Longrightarrow> tick_base powi t = real (10 ^ (4 * nat (- t))) / real (10001 ^ nat (- t)) * 10 powi 0"
  by (simp add: tick_base_def power_int_def power_divide power_mult)

lemma dval_tick_pow [dval_simps]: "0 < p \<Longrightarrow> dval (tick_pow p t) = rnd p (tick_base powi t)"
proof (cases "0 \<le> t")
  case True
  then show "0 < p \<Longrightarrow> dval (tick_pow p t) = rnd p (tick_base powi t)"
    unfolding tick_base_up [OF True] by (simp add: tick_pow_def dval_dfix dval_Dec)
next
  case False
  then have "t < 0" by simp
  show "0 < p \<Longrightarrow> dval (tick_pow p t) = rnd p (tick_base powi t)"
    unfolding tick_base_down [OF \<open>t < 0\<close>] using False by (simp add: tick_pow_def dval_round_ratio)
qed

theorem dval_tick_half_pow [dval_simps]:
  assumes "0 < p"
  shows "dval (tick_half_pow p t) = rnd p (sqrt (tick_base powi t))"
proof -
  consider "even t" | "odd t" "0 \<le> t" | "odd t" "t < 0" by linarith
  then show ?thesis
  proof cases
    case 1
    then have "t = 2 * (t div 2)" by presburger
    then have "tick_base powi t = (tick_base powi (t div 2))\<^sup>2"
      using tick_base_gt by (metis power_int_mult power_int_numeral mult.commute)
    then have "sqrt (tick_base powi t) = tick_base powi (t div 2)"
      using tick_base_gt by simp
    with 1 assms show ?thesis by (simp add: tick_half_pow_def dval_tick_pow)
  next
    case 2
    then show ?thesis
      unfolding tick_base_up [OF 2(2)]
      using assms dval_sqrt_ratio [of "10001 ^ nat t" 1 p "- 4 * t"] by (simp add: tick_half_pow_def)
  next
    case 3
    then show ?thesis
      unfolding tick_base_down [OF 3(2)]
      using assms dval_sqrt_ratio [of "10 ^ (4 * nat (- t))" "10001 ^ nat (- t)" p 0]
      by (simp add: tick_half_pow_def)
  qed
qed


text \<open>Evaluation of decimal expressions on concrete operands.\<close>

lemmas dec_eval =
  dadd_def dsub_def dmul_def ddiv_def dabs_def duminus_def dnegate_def dint_def dfix_def
  aligned_def signed_coef_def dle_def dlt_def deq_def round_ratio_def ratio_shift_def
  scaled_num_def scaled_den_def div_half_even_def ndigits.simps strip_zeros.simps Let_def
  dquantize_def dpow10_def tick_pow_def

end
