(* ===== verification/Clmath.thy ===== *)
theory Clmath
  imports Roots
begin

text \<open>
  \<open>lp/clmath.py\<close>: the concentrated-liquidity formulas, at precision 60.
  \<open>amount0_of\<close> and \<open>amount1_of\<close> state the formulas over the reals with an
  arbitrary rounding; \<open>position_amounts\<close> is the program's routine and is shown to
  compute them with \<open>rnd 60\<close>. Monotonicity in the price, the invariant the hedge
  sizing rests on, is proved for every monotone rounding.
\<close>

section \<open>The routines\<close>

definition cl_prec :: nat where
  "cl_prec = 60"

text \<open>\<open>_Q96 = Decimal(2) ** 96\<close> is evaluated when the module is imported, under the
  default context of 28 digits.\<close>

definition q96 :: decimal where
  "q96 = dfix 28 (Dec False (2 ^ 96) 0)"

definition tick_to_sqrt_price :: "int \<Rightarrow> decimal" where
  "tick_to_sqrt_price tick = tick_half_pow cl_prec tick"

definition sqrt_price_from_x96 :: "int \<Rightarrow> decimal option" where
  "sqrt_price_from_x96 sqrt_price_x96 = ddiv cl_prec (dint sqrt_price_x96) q96"

definition price_from_tick :: "int \<Rightarrow> int \<Rightarrow> int \<Rightarrow> decimal" where
  "price_from_tick tick dec0 dec1 =
     dmul cl_prec (tick_pow cl_prec tick) (dpow10 cl_prec (dec0 - dec1))"

definition dzero :: decimal where
  "dzero = Dec False 0 0"

definition position_amounts :: "decimal \<Rightarrow> int \<Rightarrow> int \<Rightarrow> decimal \<Rightarrow> (decimal \<times> decimal) option" where
  "position_amounts liquidity tick_lower tick_upper sqrt_price =
     (let sqrt_lower = tick_half_pow cl_prec tick_lower;
          sqrt_upper = tick_half_pow cl_prec tick_upper
      in if dle sqrt_price sqrt_lower then do {
           amount0 \<leftarrow> ddiv cl_prec (dmul cl_prec liquidity (dsub cl_prec sqrt_upper sqrt_lower))
                                 (dmul cl_prec sqrt_lower sqrt_upper);
           Some (amount0, dzero)
         }
         else if dle sqrt_upper sqrt_price then
           Some (dzero, dmul cl_prec liquidity (dsub cl_prec sqrt_upper sqrt_lower))
         else do {
           amount0 \<leftarrow> ddiv cl_prec (dmul cl_prec liquidity (dsub cl_prec sqrt_upper sqrt_price))
                                 (dmul cl_prec sqrt_price sqrt_upper);
           Some (amount0, dmul cl_prec liquidity (dsub cl_prec sqrt_price sqrt_lower))
         })"

lemma cl_prec_pos [simp]: "0 < cl_prec"
  by (simp add: cl_prec_def)

lemma dval_dzero [simp]: "dval dzero = 0"
  by (simp add: dzero_def dval_def)

section \<open>The formulas\<close>

definition amount0_of :: "(real \<Rightarrow> real) \<Rightarrow> real \<Rightarrow> real \<Rightarrow> real \<Rightarrow> real \<Rightarrow> real" where
  "amount0_of rd l lo up s =
     (if s \<le> lo then rd (rd (l * rd (up - lo)) / rd (lo * up))
      else if up \<le> s then 0
      else rd (rd (l * rd (up - s)) / rd (s * up)))"

definition amount1_of :: "(real \<Rightarrow> real) \<Rightarrow> real \<Rightarrow> real \<Rightarrow> real \<Rightarrow> real \<Rightarrow> real" where
  "amount1_of rd l lo up s =
     (if s \<le> lo then 0
      else if up \<le> s then rd (l * rd (up - lo))
      else rd (l * rd (s - lo)))"

text \<open>What else the formulas need of a rounding: nonzero numbers do not round to zero.\<close>

locale sign_rounding = rounding +
  assumes rd_pos: "0 < x \<Longrightarrow> 0 < rd x"
begin

lemma ratio_nonneg: "0 \<le> l \<Longrightarrow> a \<le> b \<Longrightarrow> 0 < c \<Longrightarrow> 0 \<le> rd (rd (l * rd (b - a)) / rd c)"
  by (intro rd_nonneg divide_nonneg_pos mult_nonneg_nonneg rd_pos) auto

lemma ratio_antimono:
  assumes "0 \<le> l" "0 < s" "s \<le> s'" "s' \<le> up"
  shows "rd (rd (l * rd (up - s')) / rd (s' * up)) \<le> rd (rd (l * rd (up - s)) / rd (s * up))"
proof (intro rd_divide_mono)
  show "0 \<le> rd (l * rd (up - s'))"
    using assms by (intro rd_nonneg mult_nonneg_nonneg) auto
  show "rd (l * rd (up - s')) \<le> rd (l * rd (up - s))"
    using assms by (intro rd_mult_mono rd_diff_antimono rd_nonneg) auto
  show "0 < rd (s * up)" using assms by (intro rd_pos mult_pos_pos) auto
  show "rd (s * up) \<le> rd (s' * up)"
    using assms by (intro rd_mono mult_right_mono) auto
qed

lemma amount0_nonneg: "0 \<le> l \<Longrightarrow> 0 < lo \<Longrightarrow> lo \<le> up \<Longrightarrow> 0 \<le> amount0_of rd l lo up s"
  by (auto simp: amount0_of_def intro!: ratio_nonneg)

lemma amount1_nonneg: "0 \<le> l \<Longrightarrow> lo \<le> up \<Longrightarrow> 0 \<le> amount1_of rd l lo up s"
  by (auto simp: amount1_of_def intro!: rd_nonneg mult_nonneg_nonneg)

lemma amount0_antimono:
  assumes "0 \<le> l" "0 < lo" "lo \<le> up" "s \<le> s'"
  shows "amount0_of rd l lo up s' \<le> amount0_of rd l lo up s"
proof -
  consider "s' \<le> lo" | "up \<le> s'" "\<not> s' \<le> lo" | "lo < s'" "s' < up" "s \<le> lo" | "lo < s" "s' < up"
    using assms by linarith
  then show ?thesis
  proof cases
    case 2
    then show ?thesis using amount0_nonneg [OF assms(1-3), of s] by (simp add: amount0_of_def)
  next
    case 3
    then show ?thesis using ratio_antimono [of l lo s' up] assms by (simp add: amount0_of_def)
  next
    case 4
    then show ?thesis using ratio_antimono [of l s s' up] assms by (simp add: amount0_of_def)
  qed (use assms in \<open>simp add: amount0_of_def\<close>)
qed

lemma amount1_mono:
  assumes "0 \<le> l" "lo \<le> up" "s \<le> s'"
  shows "amount1_of rd l lo up s \<le> amount1_of rd l lo up s'"
proof -
  have step: "rd (l * rd (a - lo)) \<le> rd (l * rd (b - lo))" if "lo \<le> a" "a \<le> b" for a b
    using assms(1) that by (intro rd_mult_mono rd_diff_mono rd_nonneg) auto
  show ?thesis
    using assms step [of s s'] step [of s up] amount1_nonneg [of l lo up s']
    by (auto simp: amount1_of_def)
qed

end

interpretation s60: sign_rounding "rnd 60"
  by unfold_locales (simp add: rnd_pos_iff)

interpretation s50: sign_rounding "rnd 50"
  by unfold_locales (simp add: rnd_pos_iff)

interpretation s28: sign_rounding "rnd 28"
  by unfold_locales (simp add: rnd_pos_iff)

section \<open>The routines compute the formulas\<close>

definition sqrt_tick :: "int \<Rightarrow> real" where
  "sqrt_tick t = rnd 60 (sqrt (tick_base powi t))"

lemma dval_tick_to_sqrt_price [dval_simps]: "dval (tick_to_sqrt_price t) = sqrt_tick t"
  by (simp add: tick_to_sqrt_price_def dval_tick_half_pow sqrt_tick_def cl_prec_def)

lemma sqrt_tick_pos [simp]: "0 < sqrt_tick t"
  using tick_base_gt by (simp add: sqrt_tick_def rnd_pos_iff)

lemma sqrt_tick_mono: "s \<le> t \<Longrightarrow> sqrt_tick s \<le> sqrt_tick t"
  using tick_base_gt by (auto simp: sqrt_tick_def intro!: rnd_mono power_int_increasing)

lemma ddiv_Some_dval:
  assumes "0 < p" "dval b \<noteq> 0"
  obtains q where "ddiv p a b = Some q" "dval q = rnd p (dval a / dval b)"
  using assms dval_ddiv ddiv_None_iff [of p a b] by (cases "ddiv p a b") auto

lemma position_amounts_values:
  obtains a0 a1 where "position_amounts l tlo tup s = Some (a0, a1)"
    "dval a0 = amount0_of (rnd 60) (dval l) (sqrt_tick tlo) (sqrt_tick tup) (dval s)"
    "dval a1 = amount1_of (rnd 60) (dval l) (sqrt_tick tlo) (sqrt_tick tup) (dval s)"
proof -
  let ?lo = "tick_half_pow 60 tlo" and ?up = "tick_half_pow 60 tup"
  have v: "dval ?lo = sqrt_tick tlo" "dval ?up = sqrt_tick tup"
    by (simp_all add: sqrt_tick_def dval_tick_half_pow)
  have pos: "rnd 60 (sqrt_tick tlo * sqrt_tick tup) \<noteq> 0"
    using s60.rd_pos [of "sqrt_tick tlo * sqrt_tick tup"] by simp
  have pos2: "sqrt_tick tlo < dval s \<Longrightarrow> rnd 60 (dval s * sqrt_tick tup) \<noteq> 0"
  proof -
    assume "sqrt_tick tlo < dval s"
    then have "0 < dval s" using sqrt_tick_pos [of tlo] by linarith
    then have "0 < rnd 60 (dval s * sqrt_tick tup)" by (intro s60.rd_pos mult_pos_pos) simp_all
    then show ?thesis by simp
  qed
  obtain q where q: "ddiv 60 (dmul 60 l (dsub 60 ?up ?lo)) (dmul 60 ?lo ?up) = Some q"
      "dval q = rnd 60 (rnd 60 (dval l * rnd 60 (sqrt_tick tup - sqrt_tick tlo)) / rnd 60 (sqrt_tick tlo * sqrt_tick tup))"
    by (rule ddiv_Some_dval [of 60 "dmul 60 ?lo ?up" "dmul 60 l (dsub 60 ?up ?lo)"]) (use pos in \<open>auto simp: dval_simps v\<close>)
  show ?thesis
  proof (cases "dval s \<le> sqrt_tick tlo")
    case True
    then show ?thesis
      using q by (intro that) (auto simp: position_amounts_def dval_simps v amount0_of_def amount1_of_def cl_prec_def)
  next
    case F: False
    show ?thesis
    proof (cases "sqrt_tick tup \<le> dval s")
      case True
      with F show ?thesis
        by (intro that) (auto simp: position_amounts_def dval_simps v amount0_of_def amount1_of_def cl_prec_def)
    next
      case False
      obtain q' where q': "ddiv 60 (dmul 60 l (dsub 60 ?up s)) (dmul 60 s ?up) = Some q'"
        "dval q' = rnd 60 (rnd 60 (dval l * rnd 60 (sqrt_tick tup - dval s)) / rnd 60 (dval s * sqrt_tick tup))"
        by (rule ddiv_Some_dval [of 60 "dmul 60 s ?up" "dmul 60 l (dsub 60 ?up s)"]) (use pos2 F in \<open>auto simp: dval_simps v\<close>)
      with F False show ?thesis
        by (intro that) (auto simp: position_amounts_def dval_simps v amount0_of_def amount1_of_def cl_prec_def)
    qed
  qed
qed


section \<open>What the formulas guarantee\<close>

text \<open>The hedge-sizing invariant of \<open>position_amounts\<close>, with every intermediate
  rounding of the 60-digit context: for a nonnegative liquidity and an ordered tick
  range the routine returns amounts for every price, both are nonnegative, and as the
  price rises \<open>amount0\<close> never increases and \<open>amount1\<close> never decreases.\<close>

theorem position_amounts_monotone:
  assumes "0 \<le> dval liquidity" "tick_lower \<le> tick_upper" "dval s \<le> dval s'"
  shows "\<exists>a0 a1 b0 b1. position_amounts liquidity tick_lower tick_upper s = Some (a0, a1)
      \<and> position_amounts liquidity tick_lower tick_upper s' = Some (b0, b1)
      \<and> 0 \<le> dval b0 \<and> dval b0 \<le> dval a0 \<and> 0 \<le> dval a1 \<and> dval a1 \<le> dval b1"
proof -
  obtain a0 a1 where a: "position_amounts liquidity tick_lower tick_upper s = Some (a0, a1)"
    "dval a0 = amount0_of (rnd 60) (dval liquidity) (sqrt_tick tick_lower) (sqrt_tick tick_upper) (dval s)"
    "dval a1 = amount1_of (rnd 60) (dval liquidity) (sqrt_tick tick_lower) (sqrt_tick tick_upper) (dval s)"
    by (rule position_amounts_values)
  obtain b0 b1 where b: "position_amounts liquidity tick_lower tick_upper s' = Some (b0, b1)"
    "dval b0 = amount0_of (rnd 60) (dval liquidity) (sqrt_tick tick_lower) (sqrt_tick tick_upper) (dval s')"
    "dval b1 = amount1_of (rnd 60) (dval liquidity) (sqrt_tick tick_lower) (sqrt_tick tick_upper) (dval s')"
    by (rule position_amounts_values)
  have o: "sqrt_tick tick_lower \<le> sqrt_tick tick_upper" by (rule sqrt_tick_mono [OF assms(2)])
  show ?thesis
    using a b s60.amount0_antimono [OF assms(1) sqrt_tick_pos o assms(3)]
      s60.amount1_mono [OF assms(1) o assms(3)]
      s60.amount0_nonneg [OF assms(1) sqrt_tick_pos o, of "dval s'"]
      s60.amount1_nonneg [OF assms(1) o, of "dval s"] by auto
qed

theorem position_amounts_monotone_witness:
  "\<exists>a0 a1 b0 b1. position_amounts (dint 1000000) 2 6 (Dec False 10002 (- 4)) = Some (a0, a1)
      \<and> position_amounts (dint 1000000) 2 6 (Dec False 10003 (- 4)) = Some (b0, b1)
      \<and> 0 \<le> dval b0 \<and> dval b0 \<le> dval a0 \<and> 0 \<le> dval a1 \<and> dval a1 \<le> dval b1"
  by (rule position_amounts_monotone) (simp_all add: dval_Dec)


section \<open>Accuracy\<close>

text \<open>One rounding to \<open>p\<close> digits multiplies by a factor within \<open>unit_err p\<close> of one.\<close>

definition unit_err :: "nat \<Rightarrow> real" where
  "unit_err p = 10 powi (1 - int p) / 2"

lemma rnd_factor:
  assumes "0 < p"
  obtains d where "rnd p x = x * (1 + d)" "\<bar>d\<bar> \<le> unit_err p"
proof (cases "x = 0")
  case True
  then show ?thesis by (intro that [of 0]) (auto simp: unit_err_def less_imp_le)
next
  case False
  have "\<bar>rnd p x - x\<bar> \<le> \<bar>x\<bar> * unit_err p"
    using rnd_error [OF assms, of x] by (simp add: unit_err_def)
  with False have "\<bar>(rnd p x - x) / x\<bar> \<le> unit_err p"
    by (simp add: abs_divide pos_divide_le_eq mult.commute)
  moreover have "rnd p x = x * (1 + (rnd p x - x) / x)"
    using False by (simp add: field_simps)
  ultimately show ?thesis by (rule that [rotated])
qed

lemma four_factors:
  fixes u :: real
  assumes u: "u \<le> 1/100" and d: "\<bar>a\<bar> \<le> u" "\<bar>b\<bar> \<le> u" "\<bar>c\<bar> \<le> u" "\<bar>d\<bar> \<le> u"
  shows "\<bar>(1 + a) * (1 + b) / (1 + c) * (1 + d) - 1\<bar> \<le> 5 * u"
proof -
  have u0: "0 \<le> u" using d(1) by linarith
  have two: "\<bar>(1 + x) * (1 + y) - 1\<bar> \<le> e + v + e * v" if "\<bar>x\<bar> \<le> e" "\<bar>y\<bar> \<le> v" for x y e v :: real
  proof -
    have "\<bar>x * y\<bar> \<le> e * v"
      unfolding abs_mult using that by (intro mult_mono) auto
    moreover have "(1 + x) * (1 + y) - 1 = x + y + x * y" by (simp add: algebra_simps)
    ultimately show ?thesis using that by linarith
  qed
  have sq: "u * u \<le> u / 100" using mult_left_mono [OF u u0] by simp
  have ab: "\<bar>(1 + a) * (1 + b) - 1\<bar> \<le> 201/100 * u"
    using two [OF d(1) d(2)] sq by linarith
  have abd: "\<bar>(1 + ((1 + a) * (1 + b) - 1)) * (1 + d) - 1\<bar> \<le> 201/100 * u + u + 201/100 * (u * u)"
    using two [OF ab d(4)] by (simp only: mult.assoc)
  define g where "g = (1 + a) * (1 + b) * (1 + d)"
  have g: "\<bar>g - 1\<bar> \<le> 304/100 * u"
    using abd sq u0 by (simp add: g_def)
  have c1: "99/100 \<le> 1 + c" using d(3) u by linarith
  have "\<bar>g - (1 + c)\<bar> \<le> 404/100 * u" using g d(3) by linarith
  also have "\<dots> \<le> 5 * u * (1 + c)"
    using mult_left_mono [OF c1, of "5 * u"] u0 by simp
  finally have "\<bar>(g - (1 + c)) / (1 + c)\<bar> \<le> 5 * u"
    using c1 by (simp add: abs_divide pos_divide_le_eq)
  moreover have "(g - (1 + c)) / (1 + c) = (1 + a) * (1 + b) / (1 + c) * (1 + d) - 1"
    using c1 by (simp add: g_def field_simps)
  ultimately show ?thesis by simp
qed

lemma ratio_accuracy:
  assumes p: "4 \<le> p"
  shows "\<bar>rnd p (rnd p (l * rnd p z) / rnd p w) - l * z / w\<bar> \<le> \<bar>l * z / w\<bar> * (5 * unit_err p)"
proof -
  have p0: "0 < p" using p by simp
  have "(10::real) powi (1 - int p) \<le> 10 powi (- 2)"
    using p by (simp only: powi10_le_iff)
  moreover have "(10::real) powi (- 2) = 1/100" by (simp add: power_int_def power2_eq_square)
  ultimately have u: "unit_err p \<le> 1/100" unfolding unit_err_def by linarith
  obtain a where a: "rnd p z = z * (1 + a)" "\<bar>a\<bar> \<le> unit_err p" by (rule rnd_factor [OF p0])
  obtain b where b: "rnd p (l * rnd p z) = l * rnd p z * (1 + b)" "\<bar>b\<bar> \<le> unit_err p"
    by (rule rnd_factor [OF p0])
  obtain c where c: "rnd p w = w * (1 + c)" "\<bar>c\<bar> \<le> unit_err p" by (rule rnd_factor [OF p0])
  let ?q = "rnd p (l * rnd p z) / rnd p w"
  obtain d where d: "rnd p ?q = ?q * (1 + d)" "\<bar>d\<bar> \<le> unit_err p" by (rule rnd_factor [OF p0])
  have "rnd p ?q = l * z / w * ((1 + a) * (1 + b) / (1 + c) * (1 + d))"
    by (simp only: d(1)) (simp only: b(1), simp add: a(1) c(1))
  then have "rnd p ?q - l * z / w = l * z / w * ((1 + a) * (1 + b) / (1 + c) * (1 + d) - 1)"
    by (simp only: right_diff_distrib mult_1_right)
  then have "\<bar>rnd p ?q - l * z / w\<bar> = \<bar>l * z / w\<bar> * \<bar>(1 + a) * (1 + b) / (1 + c) * (1 + d) - 1\<bar>"
    by (simp only: abs_mult)
  also have "\<dots> \<le> \<bar>l * z / w\<bar> * (5 * unit_err p)"
    by (intro mult_left_mono four_factors u a b c d) simp
  finally show ?thesis .
qed

text \<open>The 60-digit context buys what the module promises: inside the range (with
  the two boundary prices as computed) \<open>amount0\<close> is within a relative error of
  \<open>5/2 * 10^-59\<close> of the whitepaper formula \<open>L (sqrt_upper - s) / (s sqrt_upper)\<close>, all
  four roundings included.\<close>

theorem position_amount0_accuracy:
  assumes "sqrt_tick tick_lower < dval s" "dval s < sqrt_tick tick_upper"
  shows "\<exists>a0 a1. position_amounts liquidity tick_lower tick_upper s = Some (a0, a1)
      \<and> \<bar>dval a0 - dval liquidity * (sqrt_tick tick_upper - dval s) / (dval s * sqrt_tick tick_upper)\<bar>
        \<le> \<bar>dval liquidity * (sqrt_tick tick_upper - dval s) / (dval s * sqrt_tick tick_upper)\<bar>
          * (5 / (2 * 10 ^ 59))"
proof -
  obtain a0 a1 where a: "position_amounts liquidity tick_lower tick_upper s = Some (a0, a1)"
    "dval a0 = amount0_of (rnd 60) (dval liquidity) (sqrt_tick tick_lower) (sqrt_tick tick_upper) (dval s)"
    by (rule position_amounts_values)
  have "(10::real) powi (1 - int 60) = 1 / 10 ^ 59"
    by (simp only: powi10_diff power_int_1_right powi10_nat of_nat_0_le_iff nat_int) simp
  then have "5 * unit_err 60 = 5 / (2 * 10 ^ 59)" by (simp add: unit_err_def)
  then show ?thesis
    using a assms ratio_accuracy [of 60 "dval liquidity" "sqrt_tick tick_upper - dval s" "dval s * sqrt_tick tick_upper"]
    by (simp only: amount0_of_def not_le if_False) auto
qed

lemma sqrt_tick_examples: "sqrt_tick 2 = 1.0001" "1.0002 < sqrt_tick 6"
proof -
  have "tick_to_sqrt_price 2 = Dec False 10001 (- 4)" "tick_to_sqrt_price 6 = Dec False 1000300030001 (- 12)"
    by (simp_all add: tick_to_sqrt_price_def tick_half_pow_def cl_prec_def dec_eval)
  then have "sqrt_tick 2 = dval (Dec False 10001 (- 4))" "sqrt_tick 6 = dval (Dec False 1000300030001 (- 12))"
    by (simp_all flip: dval_tick_to_sqrt_price)
  then show "sqrt_tick 2 = 1.0001" "1.0002 < sqrt_tick 6"
    by (simp_all add: dval_Dec power_int_def power_one_over)
qed

lemma position_amount0_accuracy_witness:
  "\<exists>a0 a1. position_amounts (dint 1000000) 2 6 (Dec False 10002 (- 4)) = Some (a0, a1)
      \<and> \<bar>dval a0 - 1000000 * (sqrt_tick 6 - 1.0002) / (1.0002 * sqrt_tick 6)\<bar>
        \<le> \<bar>1000000 * (sqrt_tick 6 - 1.0002) / (1.0002 * sqrt_tick 6)\<bar> * (5 / (2 * 10 ^ 59))"
proof -
  have v: "dval (Dec False 10002 (- 4)) = 1.0002" by (simp add: dval_Dec power_int_def power_one_over)
  have "sqrt_tick 2 < dval (Dec False 10002 (- 4))" "dval (Dec False 10002 (- 4)) < sqrt_tick 6"
    using sqrt_tick_examples by (simp_all add: v)
  from position_amount0_accuracy [OF this, of "dint 1000000"] show ?thesis by (simp only: v dval_dint) simp
qed

text \<open>\<open>_Q96\<close> is not \<open>2^96\<close>: it is computed under the 28-digit default context, so
  \<open>sqrt_price_from_x96\<close> divides by \<open>2^96 + 4\<close> although its own context has 60 digits.\<close>

theorem sqrt_price_from_x96_divisor:
  "\<exists>q. sqrt_price_from_x96 x = Some q \<and> dval q = rnd 60 (of_int x / (2 ^ 96 + 4))"
proof -
  have d: "q96 = Dec False 7922816251426433759354395034 1"
    by (simp add: q96_def dec_eval)
  have v: "dval q96 = 2 ^ 96 + 4" by (simp add: d dval_Dec)
  then obtain q where "ddiv 60 (dint x) q96 = Some q" "dval q = rnd 60 (dval (dint x) / dval q96)"
    by (rule_tac ddiv_Some_dval [of 60 q96 "dint x"]) auto
  with v show ?thesis by (simp add: sqrt_price_from_x96_def cl_prec_def)
qed

end
