(* ===== verification/Hedge.thy ===== *)
theory Hedge
  imports Clmath Config
begin

text \<open>
  \<open>hedge/engine.py\<close>: coverage analysis of a liquidity position against a short, at
  precision 50. \<open>lp_state\<close>, \<open>quadrant_of\<close>, \<open>analyze\<close> and \<open>simulate\<close> follow the
  source line by line; a \<open>None\<close> result is a decimal exception (division by zero, the
  root of a negative number, too many digits for \<open>quantize\<close>).
\<close>

definition hedge_prec :: nat where
  "hedge_prec = 50"

definition token0_decimals :: int where
  "token0_decimals = 18"

definition token1_decimals :: int where
  "token1_decimals = 6"

record lp_params =
  tick_lower :: int
  tick_upper :: int
  liquidity :: int

record short_params =
  size_eth :: decimal
  entry_price :: decimal
  sl_trigger :: "decimal option"
  collateral_usd :: "decimal option"

datatype quadrant = BelowRange | Q4 | Q3 | Q2 | Q1 | AboveRange

datatype hedge_flag =
    NakedLp | OverHedged | UnderHedged | NearBandEdge | PriceNearSl
  | SlCorrelatedWithTopExit | SlBelowQ1Q2Rule | TargetExceedsConfiguredMax

record hedge_analysis =
  a_price_usd :: decimal
  a_quadrant :: quadrant
  range_position_pct :: "decimal option"
  floor_price :: decimal
  ceiling_price :: decimal
  q4_profit_take_price :: decimal
  q1_q2_boundary_price :: decimal
  lp_delta_eth :: decimal
  lp_delta_max_eth :: decimal
  lp_value_usd :: decimal
  short_size_eth :: decimal
  coverage_ratio_eth :: "decimal option"
  coverage_notional_pct :: "decimal option"
  delta_matched_target_eth :: decimal
  break_even_short_size :: "decimal option"
  rebalance_needed :: bool
  distance_to_floor_pct :: decimal
  distance_to_ceiling_pct :: decimal
  distance_to_sl_pct :: "decimal option"
  premium_if_sl_fires :: "decimal option"
  flags :: "hedge_flag list"

record sim_point =
  sp_price_usd :: decimal
  sp_quadrant :: quadrant
  sp_lp_value_usd :: decimal
  sp_lp_change_usd :: decimal
  sp_short_pnl_usd :: decimal
  sp_net_usd :: decimal

section \<open>State of the position at a price\<close>

definition sqrt_price_for :: "decimal \<Rightarrow> decimal option" where
  "sqrt_price_for price_usd = do {
     raw_price \<leftarrow> ddiv hedge_prec price_usd (dpow10 hedge_prec (token0_decimals - token1_decimals));
     dsqrt hedge_prec raw_price
   }"

definition lp_state :: "lp_params \<Rightarrow> decimal \<Rightarrow> (decimal \<times> decimal \<times> decimal) option" where
  "lp_state lp price_usd = do {
     sqrt_price \<leftarrow> sqrt_price_for price_usd;
     (amount0_raw, amount1_raw) \<leftarrow>
       position_amounts (dint (liquidity lp)) (tick_lower lp) (tick_upper lp) sqrt_price;
     eth \<leftarrow> ddiv hedge_prec amount0_raw (dpow10 hedge_prec token0_decimals);
     usdc \<leftarrow> ddiv hedge_prec amount1_raw (dpow10 hedge_prec token1_decimals);
     Some (eth, usdc, dadd hedge_prec (dmul hedge_prec eth price_usd) usdc)
   }"

definition quadrant_of :: "decimal \<Rightarrow> decimal \<Rightarrow> decimal \<Rightarrow> (quadrant \<times> decimal option) option" where
  "quadrant_of price_usd floor_usd ceiling_usd =
     (if dlt price_usd floor_usd then Some (BelowRange, None)
      else if dle ceiling_usd price_usd then Some (AboveRange, None)
      else do {
        pct \<leftarrow> ddiv hedge_prec (dsub hedge_prec price_usd floor_usd) (dsub hedge_prec ceiling_usd floor_usd);
        Some (if dlt pct (Dec False 25 (- 2)) then (Q4, Some pct)
              else if dlt pct (Dec False 50 (- 2)) then (Q3, Some pct)
              else if dlt pct (Dec False 75 (- 2)) then (Q2, Some pct)
              else (Q1, Some pct))
      })"

section \<open>Analysis\<close>

text \<open>\<open>None\<close> for an optional argument is Python's \<open>None\<close>; \<open>opt_div\<close> threads a decimal
  exception through a value that is only computed in one branch.\<close>

definition coverage_part ::
  "short_params option \<Rightarrow> decimal \<Rightarrow> decimal \<Rightarrow> decimal
   \<Rightarrow> (hedge_flag list \<times> decimal option \<times> decimal option) option" where
  "coverage_part short short_size delta_eth price_usd =
     (if short = None \<or> deq short_size dzero then Some ([NakedLp], None, None)
      else if deq delta_eth dzero then Some ([OverHedged], None, None)
      else do {
        c \<leftarrow> ddiv hedge_prec short_size delta_eth;
        n \<leftarrow> ddiv hedge_prec (dmul hedge_prec short_size price_usd) (dmul hedge_prec delta_eth price_usd);
        Some ([], Some c, Some (dmul hedge_prec n (dint 100)))
      })"

definition rebalance_part :: "decimal \<Rightarrow> decimal \<Rightarrow> decimal \<Rightarrow> decimal \<Rightarrow> bool option" where
  "rebalance_part short_size target delta_max band =
     (if dlt dzero delta_max then do {
        deviation \<leftarrow> ddiv hedge_prec (dabs hedge_prec (dsub hedge_prec short_size target)) delta_max;
        Some (dlt band deviation)
      } else Some False)"

definition band_flags :: "decimal option \<Rightarrow> decimal \<Rightarrow> decimal \<Rightarrow> decimal \<Rightarrow> decimal \<Rightarrow> hedge_flag list" where
  "band_flags coverage_eth short_size target band delta_max =
     (if coverage_eth \<noteq> None then
        if dlt (dmul hedge_prec band delta_max) (dsub hedge_prec short_size target) then [OverHedged]
        else if dlt (dmul hedge_prec band delta_max) (dsub hedge_prec target short_size) then [UnderHedged]
        else []
      else [])"

definition sl_part ::
  "short_params option \<Rightarrow> decimal \<Rightarrow> decimal \<Rightarrow> decimal \<Rightarrow> decimal
   \<Rightarrow> (hedge_flag list \<times> decimal option \<times> decimal option) option" where
  "sl_part short short_size price_usd ceiling_usd q1_q2 =
     (case short of None \<Rightarrow> Some ([], None, None)
      | Some s \<Rightarrow> (case sl_trigger s of None \<Rightarrow> Some ([], None, None)
         | Some trigger \<Rightarrow> do {
             q \<leftarrow> ddiv hedge_prec (dsub hedge_prec trigger price_usd) price_usd;
             let distance_sl = dmul hedge_prec q (dint 100);
             let premium = dmul hedge_prec short_size (dsub hedge_prec (entry_price s) trigger);
             Some ((if dle (dabs hedge_prec distance_sl) (dint 3) then [PriceNearSl] else [])
                   @ (if dlt trigger ceiling_usd then [SlCorrelatedWithTopExit] else [])
                   @ (if dlt trigger q1_q2 then [SlBelowQ1Q2Rule] else []),
                   Some distance_sl, Some premium)
           }))"

definition pct_of :: "decimal \<Rightarrow> decimal \<Rightarrow> decimal option" where
  "pct_of x price = do { q \<leftarrow> ddiv hedge_prec x price; Some (dmul hedge_prec q (dint 100)) }"

definition break_even_part :: "decimal \<Rightarrow> decimal \<Rightarrow> decimal \<Rightarrow> decimal \<Rightarrow> decimal option option" where
  "break_even_part entry floor_usd value_at_entry value_at_floor =
     (if dlt floor_usd entry then do {
        b \<leftarrow> ddiv hedge_prec (dsub hedge_prec value_at_entry value_at_floor) (dsub hedge_prec entry floor_usd);
        Some (Some b)
      } else Some None)"

definition floor_of :: "lp_params \<Rightarrow> decimal" where
  "floor_of lp = price_from_tick (tick_lower lp) 18 6"

definition ceiling_of :: "lp_params \<Rightarrow> decimal" where
  "ceiling_of lp = price_from_tick (tick_upper lp) 18 6"

text \<open>Python's \<open>min(a, b)\<close> is \<open>b\<close> only when \<open>b < a\<close>.\<close>

definition dmin :: "decimal \<Rightarrow> decimal \<Rightarrow> decimal" where
  "dmin a b = (if dlt b a then b else a)"

definition max_delta :: "lp_params \<Rightarrow> decimal option" where
  "max_delta lp = do {
     (max_raw, _) \<leftarrow> position_amounts (dint (liquidity lp)) (tick_lower lp) (tick_upper lp)
                        (dmul hedge_prec (tick_to_sqrt_price (tick_lower lp)) (Dec False 999 (- 3)));
     ddiv hedge_prec max_raw (dpow10 hedge_prec token0_decimals)
   }"

definition analyze :: "settings \<Rightarrow> lp_params \<Rightarrow> short_params option \<Rightarrow> decimal \<Rightarrow> hedge_analysis option" where
  "analyze settings lp short price_usd = do {
     let floor_usd = floor_of lp;
     let ceiling_usd = ceiling_of lp;
     (quadrant, pct) \<leftarrow> quadrant_of price_usd floor_usd ceiling_usd;
     (delta_eth, _, lp_value) \<leftarrow> lp_state lp price_usd;
     delta_max \<leftarrow> max_delta lp;
     let short_size = (case short of None \<Rightarrow> dzero | Some s \<Rightarrow> size_eth s);
     (flags1, coverage_eth, coverage_notional) \<leftarrow> coverage_part short short_size delta_eth price_usd;
     let band = hedge_rebalance_band settings;
     let target = delta_eth;
     needed \<leftarrow> rebalance_part short_size target delta_max band;
     let flags2 = band_flags coverage_eth short_size target band delta_max;
     let entry = (case short of None \<Rightarrow> price_usd | Some s \<Rightarrow> entry_price s);
     (_, _, value_at_entry) \<leftarrow> lp_state lp entry;
     (_, _, value_at_floor) \<leftarrow> lp_state lp floor_usd;
     break_even \<leftarrow> break_even_part entry floor_usd value_at_entry value_at_floor;
     distance_floor \<leftarrow> pct_of (dsub hedge_prec price_usd floor_usd) price_usd;
     distance_ceiling \<leftarrow> pct_of (dsub hedge_prec ceiling_usd price_usd) price_usd;
     let flags3 = (if dle (dmin (dabs hedge_prec distance_floor) (dabs hedge_prec distance_ceiling)) (dint 2)
                   then [NearBandEdge] else []);
     let q1_q2 = dadd hedge_prec floor_usd (dmul hedge_prec (Dec False 75 (- 2)) (dsub hedge_prec ceiling_usd floor_usd));
     let q4_take = dadd hedge_prec floor_usd (dmul hedge_prec (Dec False 25 (- 2)) (dsub hedge_prec ceiling_usd floor_usd));
     (flags4, distance_sl, premium) \<leftarrow> sl_part short short_size price_usd ceiling_usd q1_q2;
     let max_position = max_position_usd settings;
     let flags5 = (if dlt dzero max_position \<and> dlt max_position (dmul hedge_prec target price_usd)
                   then [TargetExceedsConfiguredMax] else []);
     position_pct \<leftarrow> (case pct of None \<Rightarrow> Some None
        | Some r \<Rightarrow> do { q \<leftarrow> dquantize hedge_prec (dmul hedge_prec r (dint 100)) (- 2); Some (Some q) });
     Some \<lparr>a_price_usd = price_usd, a_quadrant = quadrant, range_position_pct = position_pct,
           floor_price = floor_usd, ceiling_price = ceiling_usd,
           q4_profit_take_price = q4_take, q1_q2_boundary_price = q1_q2,
           lp_delta_eth = delta_eth, lp_delta_max_eth = delta_max, lp_value_usd = lp_value,
           short_size_eth = short_size, coverage_ratio_eth = coverage_eth,
           coverage_notional_pct = coverage_notional, delta_matched_target_eth = target,
           break_even_short_size = break_even, rebalance_needed = needed,
           distance_to_floor_pct = distance_floor, distance_to_ceiling_pct = distance_ceiling,
           distance_to_sl_pct = distance_sl, premium_if_sl_fires = premium,
           flags = flags1 @ flags2 @ flags3 @ flags4 @ flags5\<rparr>
   }"

section \<open>Simulation\<close>

fun sim_points ::
  "lp_params \<Rightarrow> short_params option \<Rightarrow> decimal \<Rightarrow> decimal list \<Rightarrow> sim_point list option" where
  "sim_points lp short entry_value [] = Some []"
| "sim_points lp short entry_value (price # prices) = do {
     (_, _, val) \<leftarrow> lp_state lp price;
     let lp_change = dsub hedge_prec val entry_value;
     let short_pnl = (case short of
                        Some s \<Rightarrow> dmul hedge_prec (size_eth s) (dsub hedge_prec (entry_price s) price)
                      | None \<Rightarrow> dzero);
     (quadrant, _) \<leftarrow> quadrant_of price (floor_of lp) (ceiling_of lp);
     points \<leftarrow> sim_points lp short entry_value prices;
     Some (\<lparr>sp_price_usd = price, sp_quadrant = quadrant, sp_lp_value_usd = val,
            sp_lp_change_usd = lp_change, sp_short_pnl_usd = short_pnl,
            sp_net_usd = dadd hedge_prec lp_change short_pnl\<rparr> # points)
   }"

definition simulate :: "lp_params \<Rightarrow> short_params option \<Rightarrow> decimal list \<Rightarrow> decimal \<Rightarrow> sim_point list option" where
  "simulate lp short prices entry = do {
     (_, _, entry_value) \<leftarrow> lp_state lp entry;
     sim_points lp short entry_value prices
   }"


section \<open>Values\<close>

lemma hedge_prec_pos [simp]: "0 < hedge_prec"
  by (simp add: hedge_prec_def)

definition sqrt_price_val :: "real \<Rightarrow> real" where
  "sqrt_price_val price = rnd 50 (sqrt (rnd 50 (price / 10 ^ 12)))"

lemma sqrt_price_val_mono: "x \<le> y \<Longrightarrow> sqrt_price_val x \<le> sqrt_price_val y"
  by (simp add: sqrt_price_val_def divide_right_mono rnd_mono)

lemma ddiv_pow10:
  obtains q where "ddiv hedge_prec a (dpow10 hedge_prec k) = Some q" "dval q = rnd 50 (dval a / 10 powi k)"
  by (rule ddiv_Some_dval [of hedge_prec "dpow10 hedge_prec k" a]) (auto simp: dval_simps hedge_prec_def)

lemma sqrt_price_for_value:
  assumes "0 \<le> dval price"
  obtains s where "sqrt_price_for price = Some s" "dval s = sqrt_price_val (dval price)"
proof -
  obtain q where q: "ddiv hedge_prec price (dpow10 hedge_prec 12) = Some q" "dval q = rnd 50 (dval price / 10 powi 12)"
    by (rule ddiv_pow10)
  have "0 \<le> dval q" using q(2) assms by (simp add: rnd_nonneg)
  then obtain s where s: "dsqrt hedge_prec q = Some s"
    using dsqrt_None_iff [of hedge_prec q] by fastforce
  then have "dval s = rnd 50 (sqrt (dval q))" using dval_dsqrt [of hedge_prec q s] by (simp add: hedge_prec_def)
  with q s show ?thesis
    by (intro that [of s]) (simp_all add: sqrt_price_for_def token0_decimals_def token1_decimals_def sqrt_price_val_def)
qed

lemma sqrt_price_for_None: "dval price < 0 \<Longrightarrow> sqrt_price_for price = None"
proof -
  assume a: "dval price < 0"
  obtain q where q: "ddiv hedge_prec price (dpow10 hedge_prec 12) = Some q" "dval q = rnd 50 (dval price / 10 powi 12)"
    by (rule ddiv_pow10)
  have "0 < rnd 50 (- (dval price / 10 powi 12))" using a by (intro s50.rd_pos) simp
  then have "dval q < 0" unfolding q(2) by simp
  then show ?thesis
    using q(1) dsqrt_None_iff [of hedge_prec q]
    by (simp add: sqrt_price_for_def token0_decimals_def token1_decimals_def)
qed

definition delta_val :: "lp_params \<Rightarrow> real \<Rightarrow> real" where
  "delta_val lp s = rnd 50 (amount0_of (rnd 60) (of_int (liquidity lp))
      (sqrt_tick (tick_lower lp)) (sqrt_tick (tick_upper lp)) s / 10 ^ 18)"

definition usdc_val :: "lp_params \<Rightarrow> real \<Rightarrow> real" where
  "usdc_val lp s = rnd 50 (amount1_of (rnd 60) (of_int (liquidity lp))
      (sqrt_tick (tick_lower lp)) (sqrt_tick (tick_upper lp)) s / 10 ^ 6)"

lemma lp_state_value:
  assumes "0 \<le> dval price"
  obtains e u v where "lp_state lp price = Some (e, u, v)"
    "dval e = delta_val lp (sqrt_price_val (dval price))"
    "dval u = usdc_val lp (sqrt_price_val (dval price))"
    "dval v = rnd 50 (rnd 50 (dval e * dval price) + dval u)"
proof -
  obtain s where s: "sqrt_price_for price = Some s" "dval s = sqrt_price_val (dval price)"
    by (rule sqrt_price_for_value [OF assms])
  obtain a0 a1 where a: "position_amounts (dint (liquidity lp)) (tick_lower lp) (tick_upper lp) s = Some (a0, a1)"
    "dval a0 = amount0_of (rnd 60) (dval (dint (liquidity lp))) (sqrt_tick (tick_lower lp)) (sqrt_tick (tick_upper lp)) (dval s)"
    "dval a1 = amount1_of (rnd 60) (dval (dint (liquidity lp))) (sqrt_tick (tick_lower lp)) (sqrt_tick (tick_upper lp)) (dval s)"
    by (rule position_amounts_values)
  obtain e where e: "ddiv hedge_prec a0 (dpow10 hedge_prec 18) = Some e" "dval e = rnd 50 (dval a0 / 10 powi 18)"
    by (rule ddiv_pow10)
  obtain u where u: "ddiv hedge_prec a1 (dpow10 hedge_prec 6) = Some u" "dval u = rnd 50 (dval a1 / 10 powi 6)"
    by (rule ddiv_pow10)
  show ?thesis
    using s a e u
    by (intro that [of e u "dadd hedge_prec (dmul hedge_prec e price) u"])
      (simp_all add: lp_state_def token0_decimals_def token1_decimals_def delta_val_def usdc_val_def dval_simps hedge_prec_def)
qed

lemma lp_state_None: "dval price < 0 \<Longrightarrow> lp_state lp price = None"
  by (simp add: lp_state_def sqrt_price_for_None)

lemma delta_val_nonneg: "0 \<le> liquidity lp \<Longrightarrow> tick_lower lp \<le> tick_upper lp \<Longrightarrow> 0 \<le> delta_val lp s"
  by (simp add: delta_val_def s60.amount0_nonneg sqrt_tick_mono rnd_nonneg)

lemma delta_val_antimono:
  "0 \<le> liquidity lp \<Longrightarrow> tick_lower lp \<le> tick_upper lp \<Longrightarrow> s \<le> s' \<Longrightarrow> delta_val lp s' \<le> delta_val lp s"
  by (auto simp: delta_val_def intro!: rnd_mono divide_right_mono s60.amount0_antimono sqrt_tick_mono)

lemma usdc_val_mono:
  "0 \<le> liquidity lp \<Longrightarrow> tick_lower lp \<le> tick_upper lp \<Longrightarrow> s \<le> s' \<Longrightarrow> usdc_val lp s \<le> usdc_val lp s'"
  by (auto simp: usdc_val_def intro!: rnd_mono divide_right_mono s60.amount1_mono sqrt_tick_mono)

lemma max_delta_value:
  obtains m where "max_delta lp = Some m" "dval m = delta_val lp (rnd 50 (sqrt_tick (tick_lower lp) * (999/1000)))"
proof -
  define s where "s = dmul hedge_prec (tick_to_sqrt_price (tick_lower lp)) (Dec False 999 (- 3))"
  have "(10::real) powi (- 3) = 1/1000" by (simp add: power_int_def power3_eq_cube)
  then have s: "dval s = rnd 50 (sqrt_tick (tick_lower lp) * (999/1000))"
    by (simp add: s_def dval_simps dval_Dec hedge_prec_def)
  obtain a0 a1 where a: "position_amounts (dint (liquidity lp)) (tick_lower lp) (tick_upper lp) s = Some (a0, a1)"
    "dval a0 = amount0_of (rnd 60) (dval (dint (liquidity lp))) (sqrt_tick (tick_lower lp)) (sqrt_tick (tick_upper lp)) (dval s)"
    by (rule position_amounts_values)
  obtain m where m: "ddiv hedge_prec a0 (dpow10 hedge_prec 18) = Some m" "dval m = rnd 50 (dval a0 / 10 powi 18)"
    by (rule ddiv_pow10)
  show ?thesis
    using a m s by (intro that [of m]) (simp_all add: max_delta_def token0_decimals_def delta_val_def flip: s_def)
qed

text \<open>The \<open>0.999\<close> margin survives the rounding: the probe price is below the floor.\<close>

lemma probe_below: "0 < x \<Longrightarrow> rnd 50 (x * (999/1000)) \<le> x"
proof -
  assume x: "0 < x"
  obtain d where d: "rnd 50 (x * (999/1000)) = x * (999/1000) * (1 + d)" "\<bar>d\<bar> \<le> unit_err 50"
    by (rule rnd_factor [OF zero_less_numeral])
  have "(10::real) powi (1 - int 50) \<le> 10 powi (- 4)" by (simp only: powi10_le_iff)
  moreover have "(10::real) powi (- 4) = 1/10000" by (simp add: power_int_def power4_eq_xxxx)
  ultimately have "d \<le> 1/10000" using d(2) by (simp add: unit_err_def)
  then have "(999/1000) * (1 + d) \<le> 1" by simp
  with x have "x * ((999/1000) * (1 + d)) \<le> x * 1" by (intro mult_left_mono) auto
  with d(1) show ?thesis by (simp only: mult.assoc mult_1_right)
qed

lemma delta_val_below: "s \<le> sqrt_tick (tick_lower lp) \<Longrightarrow> s' \<le> sqrt_tick (tick_lower lp) \<Longrightarrow> delta_val lp s = delta_val lp s'"
  by (simp add: delta_val_def amount0_of_def)

text \<open>C33. The exposure the hedge follows is monotone and bounded: for prices \<open>0 \<le> p \<le> p'\<close>
  the position is worked out at both, its ETH amount does not increase and its USDC amount
  does not decrease, and the ETH amount lies between zero and \<open>lp_delta_max_eth\<close>, the
  amount \<open>analyze\<close> computes just below the floor.\<close>

theorem lp_delta_monotone_bounded:
  assumes "0 \<le> liquidity lp" "tick_lower lp \<le> tick_upper lp" "0 \<le> dval price" "dval price \<le> dval price'"
  shows "\<exists>e u v e' u' v' m. lp_state lp price = Some (e, u, v) \<and> lp_state lp price' = Some (e', u', v')
     \<and> max_delta lp = Some m
     \<and> 0 \<le> dval e' \<and> dval e' \<le> dval e \<and> dval e \<le> dval m \<and> dval u \<le> dval u'"
proof -
  obtain e u v where 1: "lp_state lp price = Some (e, u, v)"
    "dval e = delta_val lp (sqrt_price_val (dval price))" "dval u = usdc_val lp (sqrt_price_val (dval price))"
    by (rule lp_state_value [OF assms(3)])
  obtain e' u' v' where 2: "lp_state lp price' = Some (e', u', v')"
    "dval e' = delta_val lp (sqrt_price_val (dval price'))" "dval u' = usdc_val lp (sqrt_price_val (dval price'))"
    by (rule lp_state_value [OF order_trans [OF assms(3,4)]])
  let ?probe = "rnd 50 (sqrt_tick (tick_lower lp) * (999/1000))"
  obtain m where m: "max_delta lp = Some m" "dval m = delta_val lp ?probe" by (rule max_delta_value)
  have probe: "?probe \<le> sqrt_tick (tick_lower lp)" by (rule probe_below) simp
  have "delta_val lp (sqrt_price_val (dval price)) \<le> delta_val lp ?probe"
  proof (cases "?probe \<le> sqrt_price_val (dval price)")
    case True
    then show ?thesis by (rule delta_val_antimono [OF assms(1,2)])
  next
    case False
    with probe have "delta_val lp (sqrt_price_val (dval price)) = delta_val lp ?probe"
      by (intro delta_val_below) auto
    then show ?thesis by simp
  qed
  with 1 2 m show ?thesis
    using delta_val_nonneg [OF assms(1,2)] sqrt_price_val_mono [OF assms(4)]
      delta_val_antimono [OF assms(1,2)] usdc_val_mono [OF assms(1,2)] by auto
qed


lemma lp_delta_monotone_bounded_witness:
  "\<exists>e u v e' u' v' m. lp_state \<lparr>tick_lower = 2, tick_upper = 6, liquidity = 1000\<rparr> (dint 1000) = Some (e, u, v)
     \<and> lp_state \<lparr>tick_lower = 2, tick_upper = 6, liquidity = 1000\<rparr> (dint 2000) = Some (e', u', v')
     \<and> max_delta \<lparr>tick_lower = 2, tick_upper = 6, liquidity = 1000\<rparr> = Some m
     \<and> 0 \<le> dval e' \<and> dval e' \<le> dval e \<and> dval e \<le> dval m \<and> dval u \<le> dval u'"
  by (rule lp_delta_monotone_bounded) simp_all

section \<open>Quadrants\<close>

text \<open>Quadrants are ordered from below the range to above it.\<close>

definition quadrant_rank :: "quadrant \<Rightarrow> nat" where
  "quadrant_rank q = (case q of BelowRange \<Rightarrow> 0 | Q4 \<Rightarrow> 1 | Q3 \<Rightarrow> 2 | Q2 \<Rightarrow> 3 | Q1 \<Rightarrow> 4 | AboveRange \<Rightarrow> 5)"

instantiation quadrant :: linorder
begin

definition less_eq_quadrant :: "quadrant \<Rightarrow> quadrant \<Rightarrow> bool" where
  "less_eq_quadrant q r = (quadrant_rank q \<le> quadrant_rank r)"

definition less_quadrant :: "quadrant \<Rightarrow> quadrant \<Rightarrow> bool" where
  "less_quadrant q r = (quadrant_rank q < quadrant_rank r)"

instance
  by standard (auto simp: less_eq_quadrant_def less_quadrant_def quadrant_rank_def split: quadrant.splits)

end

definition quadrant_val :: "real \<Rightarrow> real \<Rightarrow> real \<Rightarrow> quadrant" where
  "quadrant_val price lo hi =
     (if price < lo then BelowRange else if hi \<le> price then AboveRange
      else let r = rnd 50 (rnd 50 (price - lo) / rnd 50 (hi - lo))
           in if r < 1/4 then Q4 else if r < 1/2 then Q3 else if r < 3/4 then Q2 else Q1)"

lemma dval_hundredths [simp]: "dval (Dec False n (- 2)) = real n / 100"
  by (simp add: dval_Dec power_int_def power2_eq_square)

lemma quadrant_of_value:
  "\<exists>r. quadrant_of price lo hi = Some (quadrant_val (dval price) (dval lo) (dval hi), r)
     \<and> (case r of None \<Rightarrow> True | Some d \<Rightarrow> 0 \<le> dval d \<and> dval d \<le> 1)"
proof (cases "dval lo \<le> dval price \<and> dval price < dval hi")
  case True
  have g: "0 < rnd 50 (dval hi - dval lo)" using True by (intro s50.rd_pos) simp
  obtain d where d: "ddiv hedge_prec (dsub hedge_prec price lo) (dsub hedge_prec hi lo) = Some d"
    "dval d = rnd 50 (rnd 50 (dval price - dval lo) / rnd 50 (dval hi - dval lo))"
    by (rule ddiv_Some_dval [of hedge_prec "dsub hedge_prec hi lo" "dsub hedge_prec price lo"])
      (use g in \<open>simp_all add: dval_simps hedge_prec_def\<close>)
  have n: "0 \<le> rnd 50 (dval price - dval lo)" using True by (simp add: rnd_nonneg)
  have "rnd 50 (dval price - dval lo) \<le> rnd 50 (dval hi - dval lo)" using True by (intro rnd_mono) auto
  then have "rnd 50 (rnd 50 (dval price - dval lo) / rnd 50 (dval hi - dval lo)) \<le> rnd 50 (10 powi 0)"
    using g by (intro rnd_mono) simp_all
  moreover have "rnd 50 (10 powi 0) = 1" using rnd_pow10 [of 50 0] by (simp del: rnd_pow10)
  ultimately have "dval d \<le> 1" unfolding d(2) by linarith
  moreover have "0 \<le> dval d" unfolding d(2) by (rule rnd_nonneg [OF _ divide_nonneg_pos [OF n g]]) simp
  moreover have "quadrant_of price lo hi = Some (quadrant_val (dval price) (dval lo) (dval hi), Some d)"
  proof -
    have 1: "\<not> dlt price lo" "\<not> dle hi price" "\<not> dval price < dval lo" "\<not> dval hi \<le> dval price"
      using True by (simp_all add: dlt_iff dle_iff)
    have "quadrant_val (dval price) (dval lo) (dval hi)
        = (if dval d < 1/4 then Q4 else if dval d < 1/2 then Q3 else if dval d < 3/4 then Q2 else Q1)"
      by (simp only: quadrant_val_def Let_def 1 if_False d(2))
    then show ?thesis using 1(1,2) d(1) by (simp add: quadrant_of_def dlt_iff)
  qed
  ultimately show ?thesis by simp
next
  case False
  then consider "dval price < dval lo" | "\<not> dval price < dval lo" "dval hi \<le> dval price" by linarith
  then show ?thesis by cases (simp_all add: quadrant_of_def quadrant_val_def dlt_iff dle_iff)
qed

lemma quadrant_val_mono:
  assumes "lo < hi" "x \<le> y"
  shows "quadrant_val x lo hi \<le> quadrant_val y lo hi"
proof -
  have "rnd 50 (rnd 50 (x - lo) / rnd 50 (hi - lo)) \<le> rnd 50 (rnd 50 (y - lo) / rnd 50 (hi - lo))"
    using assms s50.rd_pos [of "hi - lo"] by (intro rnd_mono divide_right_mono) auto
  with assms(2) show ?thesis
    by (auto simp: quadrant_val_def Let_def less_eq_quadrant_def quadrant_rank_def)
qed

text \<open>\<open>quadrant_of\<close> is total on an ordered range (the division never fails, although both
  operands are rounded), the fraction it reports lies in \<open>[0, 1]\<close>, and a higher price
  never gives a lower quadrant.\<close>

theorem quadrant_monotone:
  assumes "dval lo < dval hi" "dval p \<le> dval p'"
  shows "\<exists>q r q' r'. quadrant_of p lo hi = Some (q, r) \<and> quadrant_of p' lo hi = Some (q', r') \<and> q \<le> q'
     \<and> (case r of None \<Rightarrow> True | Some d \<Rightarrow> 0 \<le> dval d \<and> dval d \<le> 1)"
  using quadrant_of_value [of p lo hi] quadrant_of_value [of p' lo hi]
    quadrant_val_mono [OF assms(1,2)] by auto

lemma quadrant_monotone_witness:
  "\<exists>q r q' r'. quadrant_of (dint 1500) (dint 1000) (dint 2000) = Some (q, r)
     \<and> quadrant_of (dint 1700) (dint 1000) (dint 2000) = Some (q', r') \<and> q \<le> q'
     \<and> (case r of None \<Rightarrow> True | Some d \<Rightarrow> 0 \<le> dval d \<and> dval d \<le> 1)"
  by (rule quadrant_monotone) simp_all


section \<open>When the analysis returns\<close>

lemma rnd_eq_0_iff: "0 < p \<Longrightarrow> rnd p x = 0 \<longleftrightarrow> x = 0"
  using rnd_pos_iff [of p x] rnd_pos_iff [of p "- x"] by (cases "x = 0") auto

lemma ddiv_total: "dval b \<noteq> 0 \<Longrightarrow> \<exists>q. ddiv p a b = Some q"
  using ddiv_None_iff [of p a b] by auto

lemma coverage_part_total:
  assumes "dval price \<noteq> 0"
  shows "\<exists>c n. coverage_part short sz delta price = Some
    (if short = None \<or> dval sz = 0 then [NakedLp] else if dval delta = 0 then [OverHedged] else [], c, n)
    \<and> (c = None \<longleftrightarrow> short = None \<or> dval sz = 0 \<or> dval delta = 0)"
proof (cases "short = None \<or> dval sz = 0 \<or> dval delta = 0")
  case False
  then have "dval (dmul hedge_prec delta price) \<noteq> 0"
    using assms by (simp add: dval_simps rnd_eq_0_iff)
  then obtain n c where "ddiv hedge_prec (dmul hedge_prec sz price) (dmul hedge_prec delta price) = Some n"
    "ddiv hedge_prec sz delta = Some c"
    using ddiv_total False by meson
  with False show ?thesis by (simp add: coverage_part_def dval_simps)
qed (auto simp: coverage_part_def dval_simps)

lemma rebalance_part_total: "\<exists>b. rebalance_part sz target delta_max band = Some b"
proof (cases "dval delta_max = 0")
  case False
  then obtain q where "ddiv hedge_prec (dabs hedge_prec (dsub hedge_prec sz target)) delta_max = Some q"
    using ddiv_total by blast
  then show ?thesis by (auto simp: rebalance_part_def)
qed (auto simp: rebalance_part_def dval_simps)

lemma break_even_part_total: "\<exists>b. break_even_part entry flr v w = Some b"
proof (cases "dval flr < dval entry")
  case True
  then have "dval (dsub hedge_prec entry flr) \<noteq> 0" by (simp add: dval_simps rnd_eq_0_iff)
  then obtain q where "ddiv hedge_prec (dsub hedge_prec v w) (dsub hedge_prec entry flr) = Some q"
    using ddiv_total by blast
  then show ?thesis by (simp add: break_even_part_def)
qed (simp add: break_even_part_def dval_simps)

lemma pct_of_total: "dval price \<noteq> 0 \<Longrightarrow> \<exists>q. pct_of x price = Some q"
  using ddiv_total [of price hedge_prec x] by (auto simp: pct_of_def)

lemma sl_part_total:
  assumes "dval price \<noteq> 0"
  shows "\<exists>fl d p. sl_part short sz price ceil q1q2 = Some (fl, d, p)
    \<and> set fl \<subseteq> {PriceNearSl, SlCorrelatedWithTopExit, SlBelowQ1Q2Rule}"
proof (cases "\<exists>s t. short = Some s \<and> sl_trigger s = Some t")
  case True
  then obtain s t where "short = Some s" "sl_trigger s = Some t" by blast
  moreover obtain q where "ddiv hedge_prec (dsub hedge_prec t price) price = Some q"
    using ddiv_total [OF assms] by blast
  ultimately show ?thesis by (auto simp: sl_part_def Let_def)
qed (auto simp: sl_part_def split: option.splits)

lemma quantize_total:
  assumes "0 \<le> dval d" "dval d \<le> 100"
  shows "\<exists>q. dquantize hedge_prec d (- 2) = Some q"
proof -
  define c where "c = div_half_even (scaled_num (dcoef d) (dexp d - (- 2))) (scaled_den 1 (dexp d - (- 2)))"
  have "int c = rhe (real (dcoef d) / real 1 * 10 powi (dexp d - (- 2)))"
    using rhe_div_half_even [OF scaled_den_pos [of 1]] by (simp only: c_def scaled_ratio zero_less_one)
  also have "real (dcoef d) / real 1 * 10 powi (dexp d - (- 2)) = \<bar>dval d\<bar> * 100"
    by (simp add: dval_def powi10_add abs_mult)
  also have "rhe \<dots> \<le> rhe (of_int 10000)" using assms by (intro rhe_mono) simp
  finally have "int c \<le> 10000" by (simp only: rhe_of_int)
  then have "c \<le> 10000" by simp
  then have "ndigits c \<le> 5"
  proof -
    have "10 ^ (ndigits c - 1) < (10::nat) ^ 5" if "0 < c"
      using ndigits_lower [OF that] \<open>c \<le> 10000\<close> by simp
    then have "0 < c \<Longrightarrow> ndigits c - 1 < 5" by (metis power_less_imp_less_exp one_less_numeral_iff semiring_norm(76))
    then show ?thesis by (cases "c = 0") (auto simp: ndigits.simps [of 0])
  qed
  then show ?thesis by (simp only: dquantize_def hedge_prec_def Let_def flip: c_def) simp
qed

lemma floor_of_nonneg: "0 \<le> dval (floor_of lp)"
  using tick_base_gt
  by (simp add: floor_of_def price_from_tick_def dval_simps cl_prec_def rnd_nonneg)

lemma lp_state_total: "0 \<le> dval price \<Longrightarrow> \<exists>e u v. lp_state lp price = Some (e, u, v)"
  using lp_state_value by meson

lemma position_pct_total:
  assumes "case r of None \<Rightarrow> True | Some d \<Rightarrow> 0 \<le> dval d \<and> dval d \<le> 1"
  shows "\<exists>x. (case r of None \<Rightarrow> Some None
     | Some d \<Rightarrow> do { q \<leftarrow> dquantize hedge_prec (dmul hedge_prec d (dint 100)) (- 2); Some (Some q) }) = Some x"
proof (cases r)
  case (Some d)
  have "(10::real) powi 2 = 100" by (simp add: power_int_def)
  then have h: "rnd 50 100 = 100" using rnd_pow10 [of 50 2] by (simp del: rnd_pow10)
  have "rnd 50 (dval d * 100) \<le> rnd 50 100" using assms Some by (intro rnd_mono) auto
  then have "0 \<le> dval (dmul hedge_prec d (dint 100))" "dval (dmul hedge_prec d (dint 100)) \<le> 100"
    using assms Some h by (auto simp: dval_simps hedge_prec_def intro!: rnd_nonneg)
  with quantize_total Some show ?thesis by fastforce
qed simp


text \<open>The flag list of an analysis, from the flags of its parts.\<close>

lemma analyze_parts:
  assumes "0 < dval price" "case short of None \<Rightarrow> True | Some s \<Rightarrow> 0 \<le> dval (entry_price s)"
  shows "\<exists>a e u v c rest. analyze settings lp short price = Some a
    \<and> lp_state lp price = Some (e, u, v) \<and> lp_delta_eth a = e \<and> lp_value_usd a = v
    \<and> max_delta lp = Some (lp_delta_max_eth a)
    \<and> flags a = (if short = None \<or> dval (short_size_eth a) = 0 then [NakedLp]
                 else if dval e = 0 then [OverHedged] else [])
               @ band_flags c (short_size_eth a) e (hedge_rebalance_band settings) (lp_delta_max_eth a)
               @ rest
    \<and> (c = None \<longleftrightarrow> short = None \<or> dval (short_size_eth a) = 0 \<or> dval e = 0)
    \<and> set rest \<inter> {NakedLp, OverHedged, UnderHedged} = {}
    \<and> short_size_eth a = (case short of None \<Rightarrow> dzero | Some s \<Rightarrow> size_eth s)"
proof -
  have nz: "dval price \<noteq> 0" using assms(1) by simp
  let ?flr = "floor_of lp" and ?ceil = "ceiling_of lp"
  let ?sz = "case short of None \<Rightarrow> dzero | Some s \<Rightarrow> size_eth s"
  let ?q1q2 = "dadd hedge_prec ?flr (dmul hedge_prec (Dec False 75 (- 2)) (dsub hedge_prec ?ceil ?flr))"
  let ?band = "hedge_rebalance_band settings"
  let ?entry = "case short of None \<Rightarrow> price | Some s \<Rightarrow> entry_price s"
  obtain q r where q: "quadrant_of price ?flr ?ceil = Some (q, r)"
    "case r of None \<Rightarrow> True | Some d \<Rightarrow> 0 \<le> dval d \<and> dval d \<le> 1"
    using quadrant_of_value [of price ?flr ?ceil] by auto
  obtain pp where pp: "(case r of None \<Rightarrow> Some None
     | Some d \<Rightarrow> do { q \<leftarrow> dquantize hedge_prec (dmul hedge_prec d (dint 100)) (- 2); Some (Some q) }) = Some pp"
    using position_pct_total [OF q(2)] by blast
  obtain e u v where e: "lp_state lp price = Some (e, u, v)" using lp_state_total assms(1) by fastforce
  obtain m where m: "max_delta lp = Some m" using max_delta_value by blast
  obtain c n where c: "coverage_part short ?sz e price = Some
    (if short = None \<or> dval ?sz = 0 then [NakedLp] else if dval e = 0 then [OverHedged] else [], c, n)"
    "c = None \<longleftrightarrow> short = None \<or> dval ?sz = 0 \<or> dval e = 0"
    using coverage_part_total [OF nz, of short ?sz e] by (elim exE conjE) (rule that)
  obtain b where b: "rebalance_part ?sz e m ?band = Some b" using rebalance_part_total by blast
  have "0 \<le> dval ?entry" using assms by (cases short) auto
  then obtain e1 u1 v1 where 1: "lp_state lp ?entry = Some (e1, u1, v1)" using lp_state_total by blast
  obtain e2 u2 v2 where 2: "lp_state lp ?flr = Some (e2, u2, v2)" using lp_state_total [OF floor_of_nonneg] by blast
  obtain be where be: "break_even_part ?entry ?flr v1 v2 = Some be" using break_even_part_total by blast
  obtain df where df: "pct_of (dsub hedge_prec price ?flr) price = Some df" using pct_of_total [OF nz] by blast
  obtain dc where dc: "pct_of (dsub hedge_prec ?ceil price) price = Some dc" using pct_of_total [OF nz] by blast
  obtain f4 ds pr where f4: "sl_part short ?sz price ?ceil ?q1q2 = Some (f4, ds, pr)"
    "set f4 \<subseteq> {PriceNearSl, SlCorrelatedWithTopExit, SlBelowQ1Q2Rule}"
    using sl_part_total [OF nz] by blast
  let ?f3 = "if dle (dmin (dabs hedge_prec df) (dabs hedge_prec dc)) (dint 2) then [NearBandEdge] else []"
  let ?f5 = "if dlt dzero (max_position_usd settings) \<and> dlt (max_position_usd settings) (dmul hedge_prec e price)
             then [TargetExceedsConfiguredMax] else []"
  show ?thesis
    by (rule exI, rule exI [of _ e], rule exI [of _ u], rule exI [of _ v], rule exI [of _ c],
        rule exI [of _ "?f3 @ f4 @ ?f5"], rule conjI,
        simp only: analyze_def Let_def q(1) e m c(1) b 1 2 be df dc f4(1) pp bind.bind_lunit prod.case)
      (use f4(2) in \<open>auto simp: e m c(2)\<close>)
qed

text \<open>\<open>analyze\<close> returns for every positive price and nonnegative short entry, and for no
  other: none of its divisions, roots or quantizations can fail then, and a price that is
  not positive, or a negative entry, raises.\<close>

theorem analyze_returns_iff:
  "analyze settings lp short price \<noteq> None \<longleftrightarrow>
     0 < dval price \<and> (case short of None \<Rightarrow> True | Some s \<Rightarrow> 0 \<le> dval (entry_price s))"
proof (cases "0 < dval price \<and> (case short of None \<Rightarrow> True | Some s \<Rightarrow> 0 \<le> dval (entry_price s))")
  case True
  then show ?thesis using analyze_parts [of price short settings lp] by auto
next
  case F: False
  have "analyze settings lp short price = None"
  proof (cases "dval price < 0")
    case True
    then show ?thesis by (simp add: analyze_def lp_state_None Let_def bind_eq_None_conv split_def)
  next
    case False
    consider "dval price = 0" | s where "short = Some s" "dval (entry_price s) < 0"
      using F False by (cases short) auto
    then show ?thesis
    proof cases
      case 1
      then have "pct_of x price = None" for x
        using ddiv_None_iff [of hedge_prec x price] by (simp add: pct_of_def)
      then show ?thesis by (simp add: analyze_def Let_def bind_eq_None_conv split_def)
    next
      case 2
      then show ?thesis by (simp add: analyze_def lp_state_None Let_def bind_eq_None_conv split_def)
    qed
  qed
  with F show ?thesis by simp
qed

text \<open>What the flags of an analysis mean: \<open>naked-lp\<close> is raised exactly when there is no short
  or it has size zero; over- and under-hedged are never raised together; and a position whose
  short deviates from the target by more than the band times the maximal delta (in the
  program's arithmetic) is flagged on the right side.\<close>

theorem analyze_flags:
  assumes "analyze settings lp short price = Some a"
  shows "(NakedLp \<in> set (flags a) \<longleftrightarrow> short = None \<or> dval (short_size_eth a) = 0)
    \<and> \<not> (OverHedged \<in> set (flags a) \<and> UnderHedged \<in> set (flags a))
    \<and> (UnderHedged \<in> set (flags a) \<longleftrightarrow>
         short \<noteq> None \<and> dval (short_size_eth a) \<noteq> 0 \<and> dval (lp_delta_eth a) \<noteq> 0
         \<and> \<not> rnd 50 (dval (hedge_rebalance_band settings) * dval (lp_delta_max_eth a))
             < rnd 50 (dval (short_size_eth a) - dval (lp_delta_eth a))
         \<and> rnd 50 (dval (hedge_rebalance_band settings) * dval (lp_delta_max_eth a))
             < rnd 50 (dval (lp_delta_eth a) - dval (short_size_eth a)))"
proof -
  have "analyze settings lp short price \<noteq> None" using assms by simp
  then have pos: "0 < dval price" "case short of None \<Rightarrow> True | Some s \<Rightarrow> 0 \<le> dval (entry_price s)"
    by (simp_all only: analyze_returns_iff)
  from analyze_parts [OF pos, of settings lp]
  obtain e c rest where p: "lp_delta_eth a = e"
    "flags a = (if short = None \<or> dval (short_size_eth a) = 0 then [NakedLp]
                 else if dval e = 0 then [OverHedged] else [])
               @ band_flags c (short_size_eth a) e (hedge_rebalance_band settings) (lp_delta_max_eth a) @ rest"
    "c = None \<longleftrightarrow> short = None \<or> dval (short_size_eth a) = 0 \<or> dval e = 0"
    "set rest \<inter> {NakedLp, OverHedged, UnderHedged} = {}"
    using assms by (elim exE conjE) simp
  have n: "NakedLp \<notin> set rest" "OverHedged \<notin> set rest" "UnderHedged \<notin> set rest" using p(4) by auto
  show ?thesis
    using p(3) n unfolding p(1,2) by (auto simp: band_flags_def dval_simps hedge_prec_def)
qed


lemma analyze_flags_witness:
  "\<exists>a. analyze default_settings \<lparr>tick_lower = 2, tick_upper = 6, liquidity = 1000\<rparr> None (dint 1000) = Some a
    \<and> NakedLp \<in> set (flags a) \<and> UnderHedged \<notin> set (flags a)"
proof -
  have "analyze default_settings \<lparr>tick_lower = 2, tick_upper = 6, liquidity = 1000\<rparr> None (dint 1000) \<noteq> None"
    unfolding analyze_returns_iff by simp
  then obtain a where "analyze default_settings \<lparr>tick_lower = 2, tick_upper = 6, liquidity = 1000\<rparr> None (dint 1000) = Some a"
    by blast
  with analyze_flags [OF this] show ?thesis by auto
qed

section \<open>Break-even sizing\<close>

lemma analyze_break_even:
  assumes "analyze settings lp (Some short) price = Some a"
  shows "\<exists>e1 u1 v1 e2 u2 v2. lp_state lp (entry_price short) = Some (e1, u1, v1)
    \<and> lp_state lp (floor_of lp) = Some (e2, u2, v2)
    \<and> break_even_part (entry_price short) (floor_of lp) v1 v2 = Some (break_even_short_size a)"
  using assms unfolding analyze_def Let_def option.case
  by (elim bind_eq_Some_conv [THEN iffD1, elim_format] exE conjE) (auto simp: bind_eq_Some_conv split: prod.splits)

text \<open>The rounding errors of the break-even size against the simulated profit and loss.\<close>

lemma break_even_error:
  assumes "0 < p" "g \<noteq> 0"
  shows "\<bar>rnd p (- d + rnd p (rnd p (d / g) * g))\<bar> \<le> \<bar>d\<bar> * ((2 + unit_err p) * unit_err p * (1 + unit_err p))"
proof -
  let ?u = "unit_err p"
  obtain a where a: "rnd p (d / g) = d / g * (1 + a)" "\<bar>a\<bar> \<le> ?u" by (rule rnd_factor [OF assms(1)])
  obtain b where b: "rnd p (rnd p (d / g) * g) = rnd p (d / g) * g * (1 + b)" "\<bar>b\<bar> \<le> ?u" by (rule rnd_factor [OF assms(1)])
  let ?n = "- d + rnd p (rnd p (d / g) * g)"
  obtain c where c: "rnd p ?n = ?n * (1 + c)" "\<bar>c\<bar> \<le> ?u" by (rule rnd_factor [OF assms(1)])
  have "rnd p (rnd p (d / g) * g) = d * (1 + a) * (1 + b)"
    by (simp only: b(1)) (simp add: a(1) assms(2))
  then have "?n = d * (a + b + a * b)" by (simp add: algebra_simps)
  then have "rnd p ?n = d * ((a + b + a * b) * (1 + c))"
    using c(1) by (simp only: mult.assoc)
  then have "\<bar>rnd p ?n\<bar> = \<bar>d\<bar> * (\<bar>a + b + a * b\<bar> * \<bar>1 + c\<bar>)" by (simp only: abs_mult)
  moreover have "\<bar>a * b\<bar> \<le> ?u * ?u" unfolding abs_mult using a(2) b(2) by (intro mult_mono) auto
  then have "\<bar>a + b + a * b\<bar> \<le> (2 + ?u) * ?u"
    using a(2) b(2) by (simp add: algebra_simps)
  moreover have "\<bar>1 + c\<bar> \<le> 1 + ?u" using c(2) by linarith
  ultimately show ?thesis
    by (auto intro!: mult_left_mono mult_mono order_trans [OF abs_ge_zero])
qed

text \<open>Break-even sizing does what the strategy document asks: when \<open>analyze\<close> reports a
  break-even size, a short of that size simulated at the floor of the range offsets the value
  the position lost since the entry up to a relative error of \<open>3 * 10^-49\<close>.\<close>

theorem break_even_offsets_loss:
  assumes "analyze settings lp (Some short) price = Some a" "break_even_short_size a = Some s"
  shows "\<exists>pt. simulate lp (Some (short\<lparr>size_eth := s\<rparr>)) [floor_of lp] (entry_price short) = Some [pt]
    \<and> \<bar>dval (sp_net_usd pt)\<bar> \<le> \<bar>dval (sp_lp_change_usd pt)\<bar> * (3 / 10 ^ 49)"
proof -
  let ?e = "entry_price short" and ?f = "floor_of lp"
  obtain e1 u1 v1 e2 u2 v2 where v: "lp_state lp ?e = Some (e1, u1, v1)" "lp_state lp ?f = Some (e2, u2, v2)"
    "break_even_part ?e ?f v1 v2 = Some (Some s)"
    using analyze_break_even [OF assms(1)] assms(2) by auto
  obtain q r where q: "quadrant_of ?f ?f (ceiling_of lp) = Some (q, r)"
    using quadrant_of_value by blast
  define pt where "pt = \<lparr>sp_price_usd = ?f, sp_quadrant = q, sp_lp_value_usd = v2,
     sp_lp_change_usd = dsub hedge_prec v2 v1, sp_short_pnl_usd = dmul hedge_prec s (dsub hedge_prec ?e ?f),
     sp_net_usd = dadd hedge_prec (dsub hedge_prec v2 v1) (dmul hedge_prec s (dsub hedge_prec ?e ?f))\<rparr>"
  have sim: "simulate lp (Some (short\<lparr>size_eth := s\<rparr>)) [?f] ?e = Some [pt]"
    by (simp add: simulate_def v q pt_def Let_def)
  define d where "d = rnd 50 (dval v1 - dval v2)"
  define g where "g = rnd 50 (dval ?e - dval ?f)"
  from v(3) have lt: "dval ?f < dval ?e" and s: "ddiv hedge_prec (dsub hedge_prec v1 v2) (dsub hedge_prec ?e ?f) = Some s"
    by (auto simp: break_even_part_def dlt_iff bind_eq_Some_conv split: if_splits)
  have g: "g \<noteq> 0" using s50.rd_pos [of "dval ?e - dval ?f"] lt by (simp add: g_def)
  have sv: "dval s = rnd 50 (d / g)"
    using dval_ddiv [OF hedge_prec_pos s] by (simp add: dval_simps d_def g_def hedge_prec_def)
  have ch: "dval (sp_lp_change_usd pt) = - d"
    using rnd_minus [of 50 "dval v1 - dval v2"] by (simp add: pt_def dval_simps d_def hedge_prec_def)
  have net: "dval (sp_net_usd pt) = rnd 50 (- d + rnd 50 (rnd 50 (d / g) * g))"
    using ch by (simp add: pt_def dval_simps sv hedge_prec_def flip: g_def)
  have u: "unit_err 50 = 1 / (2 * 10 ^ 49)"
    by (simp only: unit_err_def powi10_diff power_int_1_right powi10_nat of_nat_0_le_iff nat_int) simp
  have "(2 + unit_err 50) * unit_err 50 * (1 + unit_err 50) \<le> 3 / 10 ^ 49" unfolding u by simp
  then have "\<bar>d\<bar> * ((2 + unit_err 50) * unit_err 50 * (1 + unit_err 50)) \<le> \<bar>d\<bar> * (3 / 10 ^ 49)"
    by (rule mult_left_mono) simp
  with break_even_error [OF zero_less_numeral g, of _ d]
  have "\<bar>dval (sp_net_usd pt)\<bar> \<le> \<bar>dval (sp_lp_change_usd pt)\<bar> * (3 / 10 ^ 49)"
    unfolding net ch abs_minus_cancel by (rule order_trans)
  with sim show ?thesis by blast
qed


lemma break_even_part_Some: "dlt flr entry \<Longrightarrow> break_even_part entry flr v w = Some b \<Longrightarrow> b \<noteq> None"
  by (cases "ddiv hedge_prec (dsub hedge_prec v w) (dsub hedge_prec entry flr)") (auto simp: break_even_part_def)

definition example_lp :: lp_params where
  "example_lp = \<lparr>tick_lower = 2, tick_upper = 6, liquidity = 1000\<rparr>"

definition example_short :: short_params where
  "example_short = \<lparr>size_eth = dint 1, entry_price = dint 2000000000000, sl_trigger = None, collateral_usd = None\<rparr>"

lemma break_even_offsets_loss_witness:
  "\<exists>a s pt. analyze default_settings example_lp (Some example_short) (dint 1000) = Some a
    \<and> break_even_short_size a = Some s
    \<and> simulate example_lp (Some (example_short\<lparr>size_eth := s\<rparr>)) [floor_of example_lp]
        (entry_price example_short) = Some [pt]
    \<and> \<bar>dval (sp_net_usd pt)\<bar> \<le> \<bar>dval (sp_lp_change_usd pt)\<bar> * (3 / 10 ^ 49)"
proof -
  have "analyze default_settings example_lp (Some example_short) (dint 1000) \<noteq> None"
    unfolding analyze_returns_iff by (simp add: example_short_def)
  then obtain a where a: "analyze default_settings example_lp (Some example_short) (dint 1000) = Some a" by blast
  have "floor_of example_lp = Dec False 100020001000000000000 (- 8)"
    by (simp add: floor_of_def example_lp_def price_from_tick_def cl_prec_def dec_eval)
  then have "dval (floor_of example_lp) = 1000200010000" by (simp add: dval_Dec power_int_def power_one_over)
  then have "dlt (floor_of example_lp) (entry_price example_short)"
    by (simp add: dlt_iff example_short_def)
  then have "break_even_short_size a \<noteq> None"
    using analyze_break_even [OF a] break_even_part_Some by blast
  then obtain s where s: "break_even_short_size a = Some s" by blast
  show ?thesis using break_even_offsets_loss [OF a s] a s by blast
qed

end
