(* ===== verification/Recorders.thy ===== *)
theory Recorders
  imports Positions Hedge
begin

text \<open>
  What each source records (\<open>record\<close> of \<open>portfolio/aave.py\<close>, \<open>portfolio/holdings.py\<close>,
  \<open>clients/btc.py\<close>, \<open>lp/discovery.py\<close> and \<open>record_observation\<close> of \<open>clients/gmx.py\<close>), and
  \<open>hedge/state.py\<close>, which reads the newest states back. \<open>None\<close> is an exception.
\<close>

section \<open>Serialized values (model_dump in JSON mode)\<close>

definition dec_json :: "decimal \<Rightarrow> json" where
  "dec_json d = JStr (dec_str d)"

definition opt_json :: "('a \<Rightarrow> json) \<Rightarrow> 'a option \<Rightarrow> json" where
  "opt_json f x = (case x of None \<Rightarrow> JNull | Some v \<Rightarrow> f v)"

section \<open>Aave account\<close>

record aave_account =
  aa_wallet :: string
  aa_total_collateral_usd :: decimal
  aa_total_debt_usd :: decimal
  aa_available_borrows_usd :: decimal
  aa_liq_threshold_bps :: int
  aa_ltv_bps :: int
  aa_health_factor :: decimal
  aa_block_number :: int

definition aave_dump :: "aave_account \<Rightarrow> dict" where
  "aave_dump a =
     [(''wallet'', JStr (aa_wallet a)),
      (''total_collateral_usd'', dec_json (aa_total_collateral_usd a)),
      (''total_debt_usd'', dec_json (aa_total_debt_usd a)),
      (''available_borrows_usd'', dec_json (aa_available_borrows_usd a)),
      (''liq_threshold_bps'', JInt (aa_liq_threshold_bps a)),
      (''ltv_bps'', JInt (aa_ltv_bps a)),
      (''health_factor'', dec_json (aa_health_factor a)),
      (''block_number'', JInt (aa_block_number a))]"

definition aave_key :: "string \<Rightarrow> position_kind \<Rightarrow> position_key" where
  "aave_key wallet kind = \<lparr>k_wallet = wallet, k_venue = ''aave-v3'', k_chain = ''base'', k_kind = kind, k_external = ''account''\<rparr>"

definition record_aave_side ::
  "string \<Rightarrow> aave_account \<Rightarrow> instant \<Rightarrow> position_kind \<Rightarrow> decimal \<Rightarrow> store \<Rightarrow> store option" where
  "record_aave_side wallet account ts kind amount db =
     insert_observed (aave_key wallet kind) ts
       (aave_dump account @ [(''amount_usd'', dec_json amount), (''source'', JStr ''on-chain:aave-pool'')])
       (upsert_ignore (aave_key wallet kind) ''defi'' ts db)"

definition record_aave :: "string \<Rightarrow> aave_account \<Rightarrow> instant \<Rightarrow> store \<Rightarrow> (nat \<times> store) option" where
  "record_aave wallet account ts db =
     (case record_aave_side wallet account ts KLend (aa_total_collateral_usd account) db of
        None \<Rightarrow> None
      | Some db1 \<Rightarrow> map_option (\<lambda>db2. (2, db2))
                     (record_aave_side wallet account ts KBorrow (aa_total_debt_usd account) db1))"

section \<open>Wallet holdings\<close>

record holding =
  h_chain :: string
  h_symbol :: string
  h_token :: "string option"
  h_amount :: decimal
  h_block_number :: int

definition holding_dump :: "holding \<Rightarrow> dict" where
  "holding_dump h =
     [(''chain'', JStr (h_chain h)), (''symbol'', JStr (h_symbol h)), (''token'', opt_json JStr (h_token h)),
      (''amount'', dec_json (h_amount h)), (''block_number'', JInt (h_block_number h))]"

definition holding_key :: "string \<Rightarrow> string \<Rightarrow> string \<Rightarrow> position_key" where
  "holding_key wallet chain symbol =
     \<lparr>k_wallet = wallet, k_venue = ''wallet'', k_chain = chain, k_kind = KHolding, k_external = chain @ '':'' @ symbol\<rparr>"

fun record_holdings :: "string \<Rightarrow> string \<Rightarrow> holding list \<Rightarrow> instant \<Rightarrow> store \<Rightarrow> (nat \<times> store) option" where
  "record_holdings wallet chain [] ts db = Some (0, db)"
| "record_holdings wallet chain (h # hs) ts db =
     (let key = holding_key wallet chain (h_symbol h)
      in case insert_observed key ts (holding_dump h @ [(''source'', JStr ''on-chain:balance'')])
                (upsert_ignore key ''holdings'' ts db) of
           None \<Rightarrow> None
         | Some db1 \<Rightarrow> map_option (\<lambda>(n, db2). (Suc n, db2)) (record_holdings wallet chain hs ts db1))"

section \<open>Bitcoin balance\<close>

record btc_stats =
  bt_address :: string
  bt_confirmed_sats :: int
  bt_pending_sats :: int
  bt_tx_count :: int
  bt_unconfirmed_tx_count :: int
  bt_source :: string

definition sats_per_btc :: decimal where
  "sats_per_btc = Dec False (10 ^ 8) 0"

definition balance_btc :: "btc_stats \<Rightarrow> decimal option" where
  "balance_btc s = ddiv 28 (dint (bt_confirmed_sats s)) sats_per_btc"

definition provider_for :: "string \<Rightarrow> string" where
  "provider_for peer = (if substring_in ''blockstream'' peer then ''blockstream'' else ''mempool'')"

definition btc_key :: "string \<Rightarrow> position_key" where
  "btc_key wallet = \<lparr>k_wallet = wallet, k_venue = ''native'', k_chain = ''bitcoin'', k_kind = KHolding, k_external = ''btc''\<rparr>"

definition record_btc :: "string \<Rightarrow> btc_stats \<Rightarrow> instant \<Rightarrow> store \<Rightarrow> store option" where
  "record_btc wallet stats ts db =
     (case balance_btc stats of
        None \<Rightarrow> None
      | Some balance \<Rightarrow>
          insert_observed (btc_key wallet) ts
            [(''symbol'', JStr ''BTC''), (''amount'', dec_json balance),
             (''confirmed_sats'', JInt (bt_confirmed_sats stats)), (''pending_sats'', JInt (bt_pending_sats stats)),
             (''tx_count'', JInt (bt_tx_count stats)), (''source'', JStr (''esplora:'' @ provider_for (bt_source stats)))]
            (upsert_ignore (btc_key wallet) ''holdings'' ts db))"

section \<open>GMX perpetual\<close>

record gmx_order =
  go_key :: string
  go_type :: int
  go_kind :: string
  go_trigger_price :: "decimal option"
  go_full_close :: bool
  go_size_delta_usd :: "decimal option"
  go_auto_cancel :: bool
  go_is_long :: "bool option"
  go_raw :: dict

record gmx_position =
  gp_key :: string
  gp_account :: string
  gp_market_address :: string
  gp_index_name :: "string option"
  gp_pool_name :: "string option"
  gp_is_long :: bool
  gp_size_usd :: decimal
  gp_size_tokens :: decimal
  gp_entry_price :: "decimal option"
  gp_mark_price :: "decimal option"
  gp_liquidation_price :: "decimal option"
  gp_collateral_usd :: "decimal option"
  gp_collateral_amount :: "decimal option"
  gp_leverage :: "decimal option"
  gp_pnl :: "decimal option"
  gp_pending_borrowing_fees_usd :: "decimal option"
  gp_pending_funding_fees_usd :: "decimal option"
  gp_related_orders :: "gmx_order list"

definition gmx_dump :: "gmx_position \<Rightarrow> dict" where
  "gmx_dump p =
     [(''key'', JStr (gp_key p)), (''account'', JStr (gp_account p)),
      (''market_address'', JStr (gp_market_address p)),
      (''index_name'', opt_json JStr (gp_index_name p)), (''pool_name'', opt_json JStr (gp_pool_name p)),
      (''is_long'', JBool (gp_is_long p)), (''size_usd'', dec_json (gp_size_usd p)),
      (''size_tokens'', dec_json (gp_size_tokens p)), (''entry_price'', opt_json dec_json (gp_entry_price p)),
      (''mark_price'', opt_json dec_json (gp_mark_price p)),
      (''liquidation_price'', opt_json dec_json (gp_liquidation_price p)),
      (''collateral_usd'', opt_json dec_json (gp_collateral_usd p)),
      (''collateral_amount'', opt_json dec_json (gp_collateral_amount p)),
      (''leverage'', opt_json dec_json (gp_leverage p)), (''pnl'', opt_json dec_json (gp_pnl p)),
      (''pending_borrowing_fees_usd'', opt_json dec_json (gp_pending_borrowing_fees_usd p)),
      (''pending_funding_fees_usd'', opt_json dec_json (gp_pending_funding_fees_usd p))]"

definition gmx_key :: "gmx_position \<Rightarrow> position_key" where
  "gmx_key p = \<lparr>k_wallet = gp_account p, k_venue = ''gmx'', k_chain = ''arbitrum'', k_kind = KPerp, k_external = gp_key p\<rparr>"

definition sl_orders :: "gmx_position \<Rightarrow> gmx_order list" where
  "sl_orders p = filter (\<lambda>ord. go_kind ord = ''stop-loss-decrease'' \<and> go_trigger_price ord \<noteq> None) (gp_related_orders p)"

definition gmx_state :: "gmx_position \<Rightarrow> dict" where
  "gmx_state p = gmx_dump p @
     [(''stop_loss_triggers'', JArr (map (\<lambda>ord. opt_json dec_json (go_trigger_price ord)) (sl_orders p))),
      (''stop_loss_orders'', JArr (map (\<lambda>ord. JObj
         [(''trigger'', opt_json dec_json (go_trigger_price ord)),
          (''size_usd'', (if go_full_close ord then JNull else opt_json dec_json (go_size_delta_usd ord))),
          (''is_full_close'', JBool (go_full_close ord))]) (sl_orders p)))]"

definition order_size :: "gmx_order \<Rightarrow> string option" where
  "order_size ord = (if go_full_close ord then Some ''FULL_CLOSE'' else map_option dec_str (go_size_delta_usd ord))"

text \<open>Orders are unique by venue, external key and time.\<close>

definition upsert_order :: "instant \<Rightarrow> gmx_order \<Rightarrow> store \<Rightarrow> store" where
  "upsert_order ts ord db =
     (let same = (\<lambda>r. or_venue r = ''gmx'' \<and> or_key r = go_key ord \<and> or_ts r = ts)
      in if list_ex same (order_rows db)
         then db\<lparr>order_rows := map (\<lambda>r. if same r
                then r\<lparr>or_trigger := go_trigger_price ord, or_size := order_size ord, or_raw := go_raw ord\<rparr> else r) (order_rows db)\<rparr>
         else db\<lparr>order_rows := order_rows db @
                [\<lparr>or_id = next_id (map or_id (order_rows db)), or_ts = ts, or_venue = ''gmx'', or_key = go_key ord,
                  or_type = go_type ord, or_trigger = go_trigger_price ord, or_size = order_size ord,
                  or_status = ''open'', or_raw = go_raw ord\<rparr>]\<rparr>)"

definition record_observation :: "gmx_position \<Rightarrow> instant \<Rightarrow> store \<Rightarrow> store option" where
  "record_observation p now db =
     (let metadata = [(''market'', JStr (gp_market_address p)), (''pool'', opt_json JStr (gp_pool_name p))]
      in case insert_observed (gmx_key p) now (gmx_state p)
                (upsert_metadata (gmx_key p) ''lp_hedge'' now metadata db) of
           None \<Rightarrow> None
         | Some db1 \<Rightarrow> Some (fold (upsert_order now) (gp_related_orders p) db1))"

section \<open>Concentrated-liquidity position\<close>

record lp_position =
  lp_nfpm :: string
  lp_token_id :: int
  lp_custody :: string
  lp_custodian :: string
  lp_token0 :: string
  lp_token1 :: string
  lp_tick_spacing :: int
  lp_tick_lower :: int
  lp_tick_upper :: int
  lp_liquidity :: int
  lp_tokens_owed0 :: int
  lp_tokens_owed1 :: int
  lp_pool :: "string option"
  lp_pool_unresolved :: bool
  lp_pool_tick :: "int option"
  lp_sqrt_price_x96 :: "int option"
  lp_amount0 :: "decimal option"
  lp_amount1 :: "decimal option"
  lp_price_usd :: "decimal option"
  lp_token0_price_usd :: "decimal option"
  lp_token1_price_usd :: "decimal option"
  lp_pool_volume_usd_24h :: "decimal option"
  lp_in_range :: "bool option"
  lp_block_number :: int
  lp_warnings :: "string list"

definition lp_dump :: "lp_position \<Rightarrow> dict" where
  "lp_dump p =
     [(''nfpm'', JStr (lp_nfpm p)), (''token_id'', JInt (lp_token_id p)), (''custody'', JStr (lp_custody p)),
      (''custodian'', JStr (lp_custodian p)), (''token0'', JStr (lp_token0 p)), (''token1'', JStr (lp_token1 p)),
      (''tick_spacing'', JInt (lp_tick_spacing p)), (''tick_lower'', JInt (lp_tick_lower p)),
      (''tick_upper'', JInt (lp_tick_upper p)), (''liquidity'', JInt (lp_liquidity p)),
      (''tokens_owed0'', JInt (lp_tokens_owed0 p)), (''tokens_owed1'', JInt (lp_tokens_owed1 p)),
      (''pool'', opt_json JStr (lp_pool p)), (''pool_unresolved'', JBool (lp_pool_unresolved p)),
      (''pool_tick'', opt_json JInt (lp_pool_tick p)), (''sqrt_price_x96'', opt_json JInt (lp_sqrt_price_x96 p)),
      (''amount0'', opt_json dec_json (lp_amount0 p)), (''amount1'', opt_json dec_json (lp_amount1 p)),
      (''price_usd'', opt_json dec_json (lp_price_usd p)),
      (''token0_price_usd'', opt_json dec_json (lp_token0_price_usd p)),
      (''token1_price_usd'', opt_json dec_json (lp_token1_price_usd p)),
      (''pool_volume_usd_24h'', opt_json dec_json (lp_pool_volume_usd_24h p)),
      (''in_range'', opt_json JBool (lp_in_range p)), (''block_number'', JInt (lp_block_number p)),
      (''warnings'', JArr (map JStr (lp_warnings p)))]"

definition lp_external :: "lp_position \<Rightarrow> string" where
  "lp_external p = lower (lp_nfpm p) @ '':'' @ int_str (lp_token_id p)"

definition lp_key :: "string \<Rightarrow> lp_position \<Rightarrow> position_key" where
  "lp_key wallet p = \<lparr>k_wallet = wallet, k_venue = ''aerodrome-slipstream'', k_chain = ''base'', k_kind = KLp, k_external = lp_external p\<rparr>"

definition record_lp :: "string \<Rightarrow> lp_position \<Rightarrow> instant \<Rightarrow> store \<Rightarrow> store option" where
  "record_lp wallet p ts db =
     insert_observed (lp_key wallet p) ts (lp_dump p)
       (upsert_metadata (lp_key wallet p) ''lp_hedge'' ts
         [(''pool'', opt_json JStr (lp_pool p)), (''custody'', JStr (lp_custody p))] db)"

section \<open>Reading the newest states (hedge/state.py)\<close>

definition newest_open_state :: "position_kind \<Rightarrow> store \<Rightarrow> dict option" where
  "newest_open_state kind db =
     map_option e_state
       (newest (\<lambda>e. e_type e = EObserved
          \<and> list_ex (\<lambda>p. p_id p = e_position e \<and> p_kind p = kind \<and> p_closed_at p = None) (positions db))
        (position_events db))"

text \<open>Pydantic's conversion of a JSON value to an \<open>int\<close> field, as far as the recorder's own states
  need it: integers (and booleans, which are integers).\<close>

definition int_field :: "dict \<Rightarrow> string \<Rightarrow> int option" where
  "int_field d k = (case get d k of
     Some (JInt n) \<Rightarrow> Some n | Some (JBool b) \<Rightarrow> Some (if b then 1 else 0) | _ \<Rightarrow> None)"

definition decimal_field :: "dict \<Rightarrow> string \<Rightarrow> decimal option" where
  "decimal_field d k = (case get d k of Some v \<Rightarrow> decimal_of v | None \<Rightarrow> None)"

text \<open>\<open>triggers[0] if triggers else None\<close>; the outer \<open>None\<close> raises.\<close>

definition first_trigger :: "dict \<Rightarrow> decimal option option" where
  "first_trigger perp =
     (let triggers = get_default perp ''stop_loss_triggers'' JNull
      in if \<not> truthy triggers then Some None
         else case triggers of
           JArr (t # _) \<Rightarrow> map_option Some (decimal_of t)
         | JStr (c # _) \<Rightarrow> map_option Some (text_to_decimal [c])
         | _ \<Rightarrow> None)"

definition collateral_field :: "dict \<Rightarrow> decimal option option" where
  "collateral_field perp =
     (let v = get_default perp ''collateral_usd'' JNull
      in if truthy v then map_option Some (decimal_of v) else Some None)"

definition short_of_state :: "dict \<Rightarrow> short_params option" where
  "short_of_state perp =
     (case (decimal_field perp ''size_tokens'', decimal_field perp ''entry_price'', first_trigger perp, collateral_field perp) of
        (Some sz, Some entry, Some sl, Some col) \<Rightarrow>
          Some \<lparr>size_eth = sz, entry_price = entry, sl_trigger = sl, collateral_usd = col\<rparr>
      | _ \<Rightarrow> None)"

definition lp_of_state :: "dict \<Rightarrow> lp_params option" where
  "lp_of_state st =
     (case (int_field st ''tick_lower'', int_field st ''tick_upper'', int_field st ''liquidity'') of
        (Some lo, Some up, Some l) \<Rightarrow> Some \<lparr>tick_lower = lo, tick_upper = up, liquidity = l\<rparr>
      | _ \<Rightarrow> None)"

definition latest_inputs :: "store \<Rightarrow> (lp_params \<times> short_params option \<times> decimal) option option" where
  "latest_inputs db =
     (case newest_open_state KLp db of
        None \<Rightarrow> Some None
      | Some st \<Rightarrow>
          if get_default st ''price_usd'' JNull = JNull then Some None
          else (case (lp_of_state st, decimal_field st ''price_usd'') of
                  (Some lp, Some price) \<Rightarrow>
                    (case newest_open_state KPerp db of
                       None \<Rightarrow> Some (Some (lp, None, price))
                     | Some perp \<Rightarrow> map_option (\<lambda>sh. Some (lp, Some sh, price)) (short_of_state perp))
                | _ \<Rightarrow> None))"

section \<open>What a recording changes in the newest states\<close>

definition open_id :: "position_kind \<Rightarrow> store \<Rightarrow> nat \<Rightarrow> bool" where
  "open_id kind db pid = list_ex (\<lambda>p. p_id p = pid \<and> p_kind p = kind \<and> p_closed_at p = None) (positions db)"

definition closed_key :: "position_key \<Rightarrow> store \<Rightarrow> bool" where
  "closed_key key db = list_ex (\<lambda>r. key_of r = key \<and> p_closed_at r \<noteq> None) (positions db)"

lemma newest_open_state_alt:
  "newest_open_state kind db
     = map_option e_state (newest (\<lambda>e. e_type e = EObserved \<and> open_id kind db (e_position e)) (position_events db))"
  by (simp add: newest_open_state_def open_id_def)

lemma newest_cong: "(\<And>x. x \<in> set xs \<Longrightarrow> P x = Q x) \<Longrightarrow> newest P xs = newest Q xs"
  unfolding newest_def by (metis filter_cong)

text \<open>Both upserts at once: the tables afterwards look the same to every query on older events.\<close>

definition upsert :: "dict option \<Rightarrow> position_key \<Rightarrow> string \<Rightarrow> instant \<Rightarrow> store \<Rightarrow> store" where
  "upsert md key g ts db = (case md of None \<Rightarrow> upsert_ignore key g ts db | Some m \<Rightarrow> upsert_metadata key g ts m db)"

lemma upsert_events: "position_events (upsert md key g ts db) = position_events db"
  by (auto simp: upsert_def upsert_ignore_def upsert_metadata_def store_simps split: option.split)

lemma list_ex_map_inv: "(\<And>x. Q (f x) = Q x) \<Longrightarrow> list_ex Q (map f xs) = list_ex Q xs"
  by (induction xs) simp_all

lemma open_id_insert: "pid \<noteq> next_id (map p_id (positions db)) \<Longrightarrow> open_id kind (insert_position key g ts md db) pid = open_id kind db pid"
  by (simp add: open_id_def insert_position_def)

lemma open_id_map: "open_id kind (db\<lparr>positions := map (\<lambda>r. if P r then r\<lparr>p_metadata := m\<rparr> else r) (positions db)\<rparr>) pid
    = open_id kind db pid"
  unfolding open_id_def by (simp add: list_ex_map_inv)

lemma open_id_upsert:
  assumes "pid \<in> p_id ` set (positions db)"
  shows "open_id kind (upsert md key g ts db) pid = open_id kind db pid"
proof -
  have "pid \<noteq> next_id (map p_id (positions db))"
    using assms next_id_fresh [of "map p_id (positions db)"] unfolding set_map_ids by blast
  then show ?thesis
    by (simp add: upsert_def upsert_ignore_def upsert_metadata_def open_id_insert open_id_map split: option.split)
qed

lemma closed_key_upsert: "closed_key key (upsert md key g ts db) = closed_key key db"
proof -
  have "key \<notin> key_of ` set (positions db) \<Longrightarrow> \<not> closed_key key db"
    by (auto simp: closed_key_def list_ex_iff)
  moreover have "closed_key key (insert_position key g ts m db) = closed_key key db" for m
    by (simp add: closed_key_def insert_position_def)
  moreover have "closed_key key (db\<lparr>positions := map (\<lambda>r. if P r then r\<lparr>p_metadata := m\<rparr> else r) (positions db)\<rparr>)
      = closed_key key db" for P m
    unfolding closed_key_def by (simp add: list_ex_map_inv key_of_def)
  ultimately show ?thesis
    by (simp add: upsert_def upsert_ignore_def upsert_metadata_def split: option.split)
qed

lemma upsert_positions_ok: "positions_ok db \<Longrightarrow> positions_ok (upsert md key g ts db)"
  by (simp add: upsert_def upsert_ok split: option.split)

lemma position_id_row: "position_id db key = Some pid \<Longrightarrow> \<exists>r \<in> set (positions db). key_of r = key \<and> p_id r = pid"
proof -
  have "find P xs = Some x \<Longrightarrow> x \<in> set xs \<and> P x" for P xs and x :: position_row
    by (induction xs) (auto split: if_splits)
  then show "position_id db key = Some pid \<Longrightarrow> ?thesis" unfolding position_id_def by blast
qed

lemma open_id_found:
  assumes "positions_ok db" "position_id db key = Some pid"
  shows "open_id kind db pid \<longleftrightarrow> k_kind key = kind \<and> \<not> closed_key key db"
proof -
  obtain r where r: "r \<in> set (positions db)" "key_of r = key" "p_id r = pid"
    using position_id_row [OF assms(2)] by blast
  have inj: "inj_on p_id (set (positions db))" "inj_on key_of (set (positions db))"
    using positions_okD(1) [OF assms(1)] ids_increasing_distinct [OF positions_okD(2) [OF assms(1)]]
    unfolding distinct_map by blast+
  have one: "q = r" if "q \<in> set (positions db)" "p_id q = pid \<or> key_of q = key" for q
    using that(2) inj_onD [OF inj(1) _ that(1) r(1)] inj_onD [OF inj(2) _ that(1) r(1)] r(2,3) by auto
  have "p_kind r = k_kind key" using r(2) by (auto simp: key_of_def)
  then show ?thesis
    using one r unfolding open_id_def closed_key_def list_ex_iff by metis
qed

lemma newest_open_after_record:
  assumes "positions_ok db" "insert_observed key ts st (upsert md key g ts' db) = Some db'"
  shows "newest_open_state kind db'
     = (if k_kind key = kind \<and> \<not> closed_key key db then Some st else newest_open_state kind db)"
proof -
  let ?u = "upsert md key g ts' db"
  obtain pid where pid: "position_id ?u key = Some pid" and db': "db' = insert_event pid ts EObserved [] st ?u"
    using assms(2) by (auto simp: insert_observed_def)
  have op: "open_id kind db' q = open_id kind ?u q" for q
    by (simp add: open_id_def db' store_simps)
  have new: "open_id kind ?u pid \<longleftrightarrow> k_kind key = kind \<and> \<not> closed_key key db"
    using open_id_found [OF upsert_positions_ok [OF assms(1)] pid] by (simp add: closed_key_upsert)
  have old: "newest (\<lambda>e. e_type e = EObserved \<and> open_id kind ?u (e_position e)) (position_events db)
      = newest (\<lambda>e. e_type e = EObserved \<and> open_id kind db (e_position e)) (position_events db)"
    by (rule newest_cong) (simp add: open_id_upsert positions_okD(4) [OF assms(1)])
  show ?thesis
    unfolding newest_open_state_alt op unfolding db' insert_event_def
    by (simp add: upsert_events old new)
qed

lemma closed_key_other:
  "insert_observed key ts st (upsert md key g ts' db) = Some db' \<Longrightarrow> key \<noteq> key' \<Longrightarrow> closed_key key' db' = closed_key key' db"
proof -
  assume a: "insert_observed key ts st (upsert md key g ts' db) = Some db'" "key \<noteq> key'"
  have "closed_key key' (insert_position key g t m db) = closed_key key' db" for m t
    by (simp add: closed_key_def insert_position_def)
  moreover have "closed_key key' (db\<lparr>positions := map (\<lambda>r. if P r then r\<lparr>p_metadata := m\<rparr> else r) (positions db)\<rparr>)
      = closed_key key' db" for P m
    unfolding closed_key_def by (simp add: list_ex_map_inv key_of_def)
  moreover have "closed_key key' db' = closed_key key' (upsert md key g ts' db)"
    using insert_observed_positions [OF a(1)] by (simp add: closed_key_def)
  ultimately show ?thesis
    by (simp add: upsert_def upsert_ignore_def upsert_metadata_def split: option.split)
qed

lemma insert_observed_upsert_ok:
  "positions_ok db \<Longrightarrow> insert_observed key ts st (upsert md key g ts' db) = Some db' \<Longrightarrow> positions_ok db'"
  by (blast intro: insert_observed_ok upsert_positions_ok)

text \<open>The two hedge recorders in these terms.\<close>

lemma record_lp_upsert:
  "record_lp wallet p ts db = insert_observed (lp_key wallet p) ts (lp_dump p)
     (upsert (Some [(''pool'', opt_json JStr (lp_pool p)), (''custody'', JStr (lp_custody p))])
        (lp_key wallet p) ''lp_hedge'' ts db)"
  by (simp add: record_lp_def upsert_def)

lemma upsert_order_tables: "positions (upsert_order ts ord db) = positions db"
  "position_events (upsert_order ts ord db) = position_events db"
  by (simp_all add: upsert_order_def Let_def)

lemma fold_orders_tables: "positions (fold (upsert_order ts) ords db) = positions db"
  "position_events (fold (upsert_order ts) ords db) = position_events db"
  by (induction ords arbitrary: db) (simp_all add: upsert_order_tables)

lemma record_observation_upsert:
  assumes "record_observation p now db = Some db'"
  obtains db1 md where "insert_observed (gmx_key p) now (gmx_state p)
      (upsert (Some md) (gmx_key p) ''lp_hedge'' now db) = Some db1"
    "positions db' = positions db1" "position_events db' = position_events db1"
  using assms unfolding record_observation_def Let_def
  by (auto simp: upsert_def fold_orders_tables split: option.splits)

lemma newest_open_cong:
  "positions db = positions db' \<Longrightarrow> position_events db = position_events db' \<Longrightarrow> newest_open_state kind db = newest_open_state kind db'"
  by (simp add: newest_open_state_def)

lemma newest_open_after_observation:
  assumes "positions_ok db" "record_observation p now db = Some db'"
  shows "newest_open_state kind db'
     = (if kind = KPerp \<and> \<not> closed_key (gmx_key p) db then Some (gmx_state p) else newest_open_state kind db)"
proof -
  obtain db1 md where db1: "insert_observed (gmx_key p) now (gmx_state p)
      (upsert (Some md) (gmx_key p) ''lp_hedge'' now db) = Some db1"
    "positions db' = positions db1" "position_events db' = position_events db1"
    using assms(2) by (rule record_observation_upsert)
  have "newest_open_state kind db' = newest_open_state kind db1" by (rule newest_open_cong) fact+
  moreover have "k_kind (gmx_key p) = KPerp" by (simp add: gmx_key_def)
  ultimately show ?thesis by (auto simp: newest_open_after_record [OF assms(1) db1(1)])
qed

section \<open>Round trip of the hedge state\<close>

lemma dec_str_not_Nil [simp]: "dec_str d \<noteq> []"
proof
  assume "dec_str d = []"
  then have "text_to_decimal [] = Some d" by (metis dec_str_roundtrip)
  then show False by (simp add: text_to_decimal_def strip_def parse_unsigned_def parse_mantissa_def)
qed

lemma decimal_of_dec_json [simp]: "decimal_of (dec_json d) = Some d"
  by (simp add: decimal_of_def dec_json_def str_of_def)

lemma dec_json_not_null [simp]: "dec_json d \<noteq> JNull" "truthy (dec_json d)"
  by (simp_all add: dec_json_def truthy_def)

definition recorded_short :: "gmx_position \<Rightarrow> decimal \<Rightarrow> short_params" where
  "recorded_short q entry = \<lparr>size_eth = gp_size_tokens q, entry_price = entry,
     sl_trigger = (case sl_orders q of [] \<Rightarrow> None | ord # _ \<Rightarrow> go_trigger_price ord),
     collateral_usd = gp_collateral_usd q\<rparr>"

lemma get_miss [simp]: "get (d @ [(k, v)]) k' = (if k' = k then Some v else get d k')"
  "get [] k' = None"
  by (simp_all add: get_def)

lemma get_Cons: "get ((k, v) # d) k' = (case get d k' of Some w \<Rightarrow> Some w | None \<Rightarrow> if k' = k then Some v else None)"
  by (auto simp: get_def map_add_def split: option.split)

lemma gmx_state_fields:
  "get (gmx_state q) ''size_tokens'' = Some (dec_json (gp_size_tokens q))"
  "get (gmx_state q) ''entry_price'' = Some (opt_json dec_json (gp_entry_price q))"
  "get (gmx_state q) ''collateral_usd'' = Some (opt_json dec_json (gp_collateral_usd q))"
  "get (gmx_state q) ''stop_loss_triggers'' = Some (JArr (map (\<lambda>ord. opt_json dec_json (go_trigger_price ord)) (sl_orders q)))"
  by (simp_all add: gmx_state_def gmx_dump_def get_Cons)

lemma lp_dump_fields:
  "get (lp_dump p) ''tick_lower'' = Some (JInt (lp_tick_lower p))"
  "get (lp_dump p) ''tick_upper'' = Some (JInt (lp_tick_upper p))"
  "get (lp_dump p) ''liquidity'' = Some (JInt (lp_liquidity p))"
  "get (lp_dump p) ''price_usd'' = Some (opt_json dec_json (lp_price_usd p))"
  by (simp_all add: lp_dump_def get_Cons)

lemma short_of_gmx_state:
  assumes "gp_entry_price q = Some entry"
  shows "short_of_state (gmx_state q) = Some (recorded_short q entry)"
proof -
  have "first_trigger (gmx_state q) = Some (sl_trigger (recorded_short q entry))"
  proof (cases "sl_orders q")
    case (Cons ord rest)
    then have "ord \<in> set (sl_orders q)" by simp
    then obtain tr where "go_trigger_price ord = Some tr" unfolding sl_orders_def by auto
    with Cons show ?thesis
      by (simp add: first_trigger_def get_default_def gmx_state_fields truthy_def opt_json_def recorded_short_def)
  qed (simp add: first_trigger_def get_default_def gmx_state_fields truthy_def recorded_short_def)
  moreover have "collateral_field (gmx_state q) = Some (gp_collateral_usd q)"
    by (cases "gp_collateral_usd q")
      (simp_all add: collateral_field_def get_default_def gmx_state_fields opt_json_def, simp add: truthy_def)
  ultimately show ?thesis
    using assms by (simp add: short_of_state_def decimal_field_def gmx_state_fields opt_json_def recorded_short_def)
qed

text \<open>C31. What the recorder stores is what the hedge analysis reads: after recording a priced
  liquidity position and then a short with an entry price, neither of them marked closed, the
  latest inputs are exactly that position's ticks and liquidity, the short's size, entry, first
  stop-loss trigger and collateral, and the price, with no loss in any decimal.\<close>

theorem recorded_hedge_reads_back:
  assumes "positions_ok db" "record_lp wallet p ts db = Some db1" "record_observation q now db1 = Some db2"
    and "lp_price_usd p = Some price" "gp_entry_price q = Some entry"
    and "\<not> closed_key (lp_key wallet p) db" "\<not> closed_key (gmx_key q) db"
  shows "latest_inputs db2 = Some (Some
    (\<lparr>tick_lower = lp_tick_lower p, tick_upper = lp_tick_upper p, liquidity = lp_liquidity p\<rparr>,
     Some (recorded_short q entry), price))"
proof -
  note lp = assms(2) [unfolded record_lp_upsert]
  have kinds: "k_kind (lp_key wallet p) = KLp" "lp_key wallet p \<noteq> gmx_key q"
    by (simp_all add: lp_key_def gmx_key_def)
  have ok1: "positions_ok db1" by (rule insert_observed_upsert_ok [OF assms(1) lp])
  have "\<not> closed_key (gmx_key q) db1"
    using closed_key_other [OF lp kinds(2)] assms(7) by simp
  then have perp: "newest_open_state KPerp db2 = Some (gmx_state q)"
    using newest_open_after_observation [OF ok1 assms(3)] by simp
  have lpst: "newest_open_state KLp db2 = Some (lp_dump p)"
    using newest_open_after_observation [OF ok1 assms(3), of KLp] newest_open_after_record [OF assms(1) lp, of KLp]
      kinds(1) assms(6) by simp
  show ?thesis
    using assms(4) short_of_gmx_state [OF assms(5)]
    by (simp add: latest_inputs_def lpst perp get_default_def lp_dump_fields opt_json_def lp_of_state_def int_field_def
        decimal_field_def)
qed

text \<open>A short that is closed and opened again keeps its GMX position key; because its row
  stays closed, recording it again changes nothing the hedge analysis sees.\<close>

theorem reopened_short_invisible:
  assumes "positions_ok db" "closed_key (gmx_key q) db" "record_observation q now db = Some db'"
  shows "latest_inputs db' = latest_inputs db"
proof -
  have "newest_open_state kind db' = newest_open_state kind db" for kind
    using newest_open_after_observation [OF assms(1,3)] assms(2) by simp
  then show ?thesis by (simp only: latest_inputs_def)
qed

definition sample_lp :: lp_position where
  "sample_lp = \<lparr>lp_nfpm = ''0xN'', lp_token_id = 7, lp_custody = ''wallet'', lp_custodian = ''w'', lp_token0 = ''0xA'',
     lp_token1 = ''0xB'', lp_tick_spacing = 100, lp_tick_lower = - 200, lp_tick_upper = 300, lp_liquidity = 10 ^ 15,
     lp_tokens_owed0 = 0, lp_tokens_owed1 = 0, lp_pool = None, lp_pool_unresolved = False, lp_pool_tick = None,
     lp_sqrt_price_x96 = None, lp_amount0 = None, lp_amount1 = None, lp_price_usd = Some (dint 2000),
     lp_token0_price_usd = None, lp_token1_price_usd = None, lp_pool_volume_usd_24h = None, lp_in_range = None,
     lp_block_number = 5, lp_warnings = []\<rparr>"

definition sample_perp :: gmx_position where
  "sample_perp = \<lparr>gp_key = ''0xK'', gp_account = ''w'', gp_market_address = ''0xM'', gp_index_name = Some ''ETH/USD'',
     gp_pool_name = None, gp_is_long = False, gp_size_usd = dint 4000, gp_size_tokens = dint 2,
     gp_entry_price = Some (dint 2100), gp_mark_price = None, gp_liquidation_price = None, gp_collateral_usd = None,
     gp_collateral_amount = None, gp_leverage = None, gp_pnl = None, gp_pending_borrowing_fees_usd = None,
     gp_pending_funding_fees_usd = None, gp_related_orders = []\<rparr>"

lemma record_lp_total: "\<exists>db'. record_lp wallet p ts db = Some db'"
  unfolding record_lp_def by (rule insert_observed_total(2))

lemma record_observation_total: "\<exists>db'. record_observation p now db = Some db'"
proof -
  obtain db1 where "insert_observed (gmx_key p) now (gmx_state p) (upsert_metadata (gmx_key p) ''lp_hedge'' now
      [(''market'', JStr (gp_market_address p)), (''pool'', opt_json JStr (gp_pool_name p))] db) = Some db1"
    using insert_observed_total(2) by blast
  then show ?thesis by (simp add: record_observation_def)
qed

lemma recorded_hedge_reads_back_witness:
  "\<exists>db1 db2. record_lp ''w'' sample_lp 0 empty_store = Some db1 \<and> record_observation sample_perp 1 db1 = Some db2
     \<and> latest_inputs db2 = Some (Some (\<lparr>tick_lower = - 200, tick_upper = 300, liquidity = 10 ^ 15\<rparr>,
         Some (recorded_short sample_perp (dint 2100)), dint 2000))"
proof -
  obtain db1 where db1: "record_lp ''w'' sample_lp 0 empty_store = Some db1" using record_lp_total by blast
  obtain db2 where db2: "record_observation sample_perp 1 db1 = Some db2" using record_observation_total by blast
  have "\<not> closed_key k empty_store" for k by (simp add: closed_key_def empty_store_def)
  with recorded_hedge_reads_back [OF positions_ok_empty db1 db2, of "dint 2000" "dint 2100"] db1 db2
  show ?thesis by (simp add: sample_lp_def sample_perp_def)
qed

lemma reopened_short_invisible_witness:
  "\<exists>db'. record_observation sample_perp 30 sample_store = Some db' \<and> latest_inputs db' = latest_inputs sample_store"
proof -
  obtain db' where db': "record_observation sample_perp 30 sample_store = Some db'" using record_observation_total by blast
  have "positions_ok sample_store"
    unfolding sample_store_def by (rule position_tables.run_inv [OF positions_ok_empty]) simp
  moreover have "closed_key (gmx_key sample_perp) sample_store"
    by (simp add: sample_store_def sample_key_def sample_perp_def gmx_key_def empty_store_def closed_key_def
        upsert_metadata_def insert_position_def next_id_def max_id_def insert_observed_def position_id_def key_of_def
        or_rollback_def insert_event_def reconcile_closures_def vanished_def open_rows_def close_position_def Let_def)
  ultimately show ?thesis using reopened_short_invisible [OF _ _ db'] db' by blast
qed

end
