(* ===== verification/Windows.thy ===== *)
theory Windows
  imports Prelude
begin

text \<open>
  Sliding-window limits: several components admit an operation only while the weight
  already used since some start time leaves room for it (submissions per day, submissions
  per rate-limit interval, API credits per period, alerts per cooldown). The
  interface is the function that gives the start of the window ending at a time.
\<close>

text \<open>Weight used since the start of the window of \<open>t\<close>, as the admission checks query it
  (no upper bound: rows stamped later than \<open>t\<close> count too), and weight inside the window.\<close>

definition used_since :: "instant \<Rightarrow> (instant \<times> nat) list \<Rightarrow> nat" where
  "used_since start rows = sum_list (map snd (filter (\<lambda>r. start \<le> fst r) rows))"

definition used_between :: "instant \<Rightarrow> instant \<Rightarrow> (instant \<times> nat) list \<Rightarrow> nat" where
  "used_between start t rows = sum_list (map snd (filter (\<lambda>r. start \<le> fst r \<and> fst r \<le> t) rows))"

lemma used_since_snoc: "used_since s (rows @ [(t, w)]) = used_since s rows + (if s \<le> t then w else 0)"
  by (simp add: used_since_def)

lemma used_between_snoc:
  "used_between s u (rows @ [(t, w)]) = used_between s u rows + (if s \<le> t \<and> t \<le> u then w else 0)"
  by (simp add: used_between_def)

lemma used_between_le: "s \<le> s' \<Longrightarrow> used_between s' u rows \<le> used_since s rows"
  by (induction rows) (auto simp: used_between_def used_since_def)

lemma used_since_antimono: "s \<le> s' \<Longrightarrow> used_since s' rows \<le> used_since s rows"
  by (induction rows) (auto simp: used_since_def)

lemma used_since_ones: "used_since s (map (\<lambda>t. (t, 1)) ts) = List.length (filter (\<lambda>t. s \<le> t) ts)"
  by (induction ts) (auto simp: used_since_def)

locale limiter =
  fixes start :: "instant \<Rightarrow> instant"
  assumes start_mono: "s \<le> t \<Longrightarrow> start s \<le> start t"
begin

text \<open>No window, wherever it ends, holds more than the cap.\<close>

lemma admit_keeps_cap:
  assumes inv: "\<forall>u. used_between (start u) u rows \<le> cap" and room: "used_since (start t) rows + w \<le> cap"
  shows "\<forall>u. used_between (start u) u (rows @ [(t, w)]) \<le> cap"
proof
  fix u
  show "used_between (start u) u (rows @ [(t, w)]) \<le> cap"
  proof (cases "start u \<le> t \<and> t \<le> u")
    case True
    then have "start t \<le> start u" by (intro start_mono) simp
    then have "used_between (start u) u rows \<le> used_since (start t) rows" by (rule used_between_le)
    with room True show ?thesis by (simp add: used_between_snoc)
  next
    case False
    with inv show ?thesis by (auto simp: used_between_snoc)
  qed
qed

lemma empty_cap: "\<forall>u. used_between (start u) u [] \<le> cap"
  by (simp add: used_between_def)

text \<open>A window limit of one is spacing: admitted times lie in windows of their own.\<close>

lemma admit_one_alone:
  "used_since (start t) rows + 1 \<le> 1 \<Longrightarrow> (s, Suc w) \<in> set rows \<Longrightarrow> s < start t"
  by (induction rows) (auto simp: used_since_def split: if_splits)

end

text \<open>The day of a time, and a window of fixed length that excludes its left end.\<close>

definition after_cutoff :: "duration \<Rightarrow> instant \<Rightarrow> instant" where
  "after_cutoff d t = t - d + 1"

interpretation day: limiter day_start
proof
  fix s t :: instant
  assume "s \<le> t"
  then have "s div us_per_day \<le> t div us_per_day" by (intro zdiv_mono1) (simp_all add: us_per_day_def)
  moreover have "day_start x = us_per_day * (x div us_per_day)" for x
    by (simp add: day_start_def minus_mod_eq_mult_div)
  ultimately show "day_start s \<le> day_start t" by (simp add: us_per_day_def)
qed

interpretation open_window: limiter "after_cutoff d"
  by unfold_locales (simp add: after_cutoff_def)

interpretation closed_window: limiter "\<lambda>t. t - d" for d
  by unfold_locales simp

end
