(* ===== verification/Quota.thy ===== *)
theory Quota
  imports Store Windows "HOL-Library.List_Lexorder" "HOL-Library.Multiset"
begin

text \<open>
  \<open>quota/tracker.py\<close>: rate windows, credit budgets and the log of calls, per upstream. Durations are
  microseconds; the packaged seed (\<open>providers.json\<close>) is data, an argument of \<open>ensure_providers\<close>. The
  clock and the sleeper are parameters over an environment state.
\<close>

datatype quota_error =
    UnknownProvider string
  | UnknownPeriod string
  | CreditsExhausted string

datatype quota_reason = RateLimit | CreditBudget

record quota_verdict =
  qv_allowed :: bool
  qv_wait :: duration
  qv_reason :: "quota_reason option"

definition period_seconds :: "string \<Rightarrow> quota_error + duration" where
  "period_seconds p =
     (if p = ''second'' then Inr (seconds 1) else if p = ''minute'' then Inr (seconds 60)
      else if p = ''hour'' then Inr (seconds 3600) else if p = ''day'' then Inr (seconds 86400)
      else Inl (UnknownPeriod p))"

section \<open>Shell patterns (fnmatch.fnmatchcase)\<close>

datatype glob = Star | AnyChar | Exactly char | OneOf bool "(char \<times> char) list"

text \<open>The contents of a bracket: ranges and single characters.\<close>

fun bracket_ranges :: "string \<Rightarrow> (char \<times> char) list" where
  "bracket_ranges (a # m # b # s) =
     (if m = CHR ''-'' then (a, b) # bracket_ranges s else (a, a) # bracket_ranges (m # b # s))"
| "bracket_ranges (a # s) = (a, a) # bracket_ranges s"
| "bracket_ranges [] = []"

text \<open>The text of a bracket opened before \<open>s\<close> and what follows it: the closing bracket is not the first
  character, nor the first after a leading \<open>!\<close>. \<open>None\<close> when it is never closed.\<close>

definition bracket_end :: "string \<Rightarrow> (string \<times> string) option" where
  "bracket_end s =
     (let skip = (if startswith s ''!]'' then 2 else if startswith s ''!'' \<or> startswith s '']'' then 1 else 0);
          inner = takeWhile (\<lambda>c. c \<noteq> CHR '']'') (drop skip s);
          after = drop (skip + List.length inner) s
      in if after = [] then None else Some (take skip s @ inner, tl after))"

function glob_tokens :: "string \<Rightarrow> glob list" where
  "glob_tokens [] = []"
| "glob_tokens (c # s) =
     (if c = CHR ''*'' then Star # glob_tokens s
      else if c = CHR ''?'' then AnyChar # glob_tokens s
      else if c = CHR ''['' then
        (case bracket_end s of None \<Rightarrow> Exactly c # glob_tokens s
         | Some (stuff, rest) \<Rightarrow>
             (if startswith stuff ''!'' then OneOf False (bracket_ranges (tl stuff)) else OneOf True (bracket_ranges stuff))
             # glob_tokens rest)
      else Exactly c # glob_tokens s)"
  by pat_completeness auto
termination
  by (relation "measure List.length") (auto simp: bracket_end_def Let_def split: if_splits)

definition in_ranges :: "(char \<times> char) list \<Rightarrow> char \<Rightarrow> bool" where
  "in_ranges rs c = list_ex (\<lambda>(a, b). a \<le> c \<and> c \<le> b) rs"

fun glob_match :: "glob list \<Rightarrow> string \<Rightarrow> bool" where
  "glob_match [] s = (s = [])"
| "glob_match (Star # g) [] = glob_match g []"
| "glob_match (Star # g) (c # s) = (glob_match g (c # s) \<or> glob_match (Star # g) s)"
| "glob_match (AnyChar # g) [] = False"
| "glob_match (AnyChar # g) (c # s) = glob_match g s"
| "glob_match (Exactly d # g) [] = False"
| "glob_match (Exactly d # g) (c # s) = (c = d \<and> glob_match g s)"
| "glob_match (OneOf pos rs # g) [] = False"
| "glob_match (OneOf pos rs # g) (c # s) = (in_ranges rs c = pos \<and> glob_match g s)"

definition fnmatch :: "string \<Rightarrow> string \<Rightarrow> bool" where
  "fnmatch s pattern = glob_match (glob_tokens pattern) s"

section \<open>Configuration\<close>

record provider_seed =
  sd_name :: string
  sd_base_url :: string
  sd_rate_limit :: int
  sd_rate_period :: string
  sd_has_credits :: bool
  sd_credit_limit :: "int option"
  sd_free_tier :: "bool option"
  sd_config :: "dict option"
  sd_costs :: "(string \<times> int) list"

definition provider_of_seed :: "nat \<Rightarrow> provider_seed \<Rightarrow> provider_row" where
  "provider_of_seed i s =
     \<lparr>pv_id = i, pv_name = sd_name s, pv_base_url = sd_base_url s, pv_rate_limit = sd_rate_limit s,
      pv_rate_period = sd_rate_period s, pv_has_credits = sd_has_credits s, pv_credit_limit = sd_credit_limit s,
      pv_free_tier = (case sd_free_tier s of None \<Rightarrow> True | Some b \<Rightarrow> b),
      pv_config = (case sd_config s of Some (kv # d) \<Rightarrow> Some (kv # d) | _ \<Rightarrow> None)\<rparr>"

definition upsert_provider :: "provider_seed \<Rightarrow> store \<Rightarrow> store" where
  "upsert_provider s db =
     (if sd_name s \<in> pv_name ` set (providers db)
      then db\<lparr>providers := map (\<lambda>r. if pv_name r = sd_name s then provider_of_seed (pv_id r) s else r) (providers db)\<rparr>
      else db\<lparr>providers := providers db @ [provider_of_seed (next_id (map pv_id (providers db))) s]\<rparr>)"

definition upsert_cost :: "nat \<Rightarrow> string \<times> int \<Rightarrow> store \<Rightarrow> store" where
  "upsert_cost pid pc db =
     (if (pid, fst pc) \<in> (\<lambda>r. (co_provider r, co_pattern r)) ` set (endpoint_costs db)
      then db\<lparr>endpoint_costs := map (\<lambda>r. if co_provider r = pid \<and> co_pattern r = fst pc
               then r\<lparr>co_credits := snd pc\<rparr> else r) (endpoint_costs db)\<rparr>
      else db\<lparr>endpoint_costs := endpoint_costs db @
               [\<lparr>co_id = next_id (map co_id (endpoint_costs db)), co_provider = pid, co_pattern = fst pc,
                 co_credits = snd pc\<rparr>]\<rparr>)"

definition provider_row_of :: "store \<Rightarrow> string \<Rightarrow> quota_error + provider_row" where
  "provider_row_of db name =
     (case find (\<lambda>r. pv_name r = name) (providers db) of None \<Rightarrow> Inl (UnknownProvider name) | Some r \<Rightarrow> Inr r)"

fun ensure_providers :: "provider_seed list \<Rightarrow> store \<Rightarrow> quota_error + store" where
  "ensure_providers [] db = Inr db"
| "ensure_providers (s # ss) db =
     (let db1 = upsert_provider s db
      in case provider_row_of db1 (sd_name s) of Inl e \<Rightarrow> Inl e
         | Inr row \<Rightarrow> ensure_providers ss (fold (upsert_cost (pv_id row)) (sd_costs s) db1))"

text \<open>Longest matching pattern wins, the largest weight among equally long ones; 1 when none matches.\<close>

definition larger_pair :: "nat \<times> int \<Rightarrow> nat \<times> int \<Rightarrow> nat \<times> int" where
  "larger_pair p q = (if fst p < fst q \<or> fst p = fst q \<and> snd p < snd q then q else p)"

definition matching_costs :: "store \<Rightarrow> nat \<Rightarrow> string \<Rightarrow> (nat \<times> int) list" where
  "matching_costs db pid endpoint =
     map (\<lambda>r. (List.length (co_pattern r), co_credits r))
       (filter (\<lambda>r. co_provider r = pid \<and> fnmatch endpoint (co_pattern r)) (endpoint_costs db))"

definition endpoint_credits :: "store \<Rightarrow> string \<Rightarrow> string \<Rightarrow> quota_error + int" where
  "endpoint_credits db provider endpoint =
     (case provider_row_of db provider of Inl e \<Rightarrow> Inl e
      | Inr row \<Rightarrow>
        Inr (case matching_costs db (pv_id row) endpoint of [] \<Rightarrow> 1 | m # ms \<Rightarrow> snd (foldl larger_pair m ms)))"

section \<open>Accounting\<close>

definition window_rows :: "store \<Rightarrow> nat \<Rightarrow> instant \<Rightarrow> call_row list" where
  "window_rows db pid window_start =
     sort_key cl_ts (filter (\<lambda>r. cl_provider r = pid \<and> window_start \<le> cl_ts r) (api_call_log db))"

definition month_start :: "instant \<Rightarrow> instant" where
  "month_start now = (now div us_per_day - (c_day (civil_of_days (now div us_per_day)) - 1)) * us_per_day"

definition month_credits :: "store \<Rightarrow> nat \<Rightarrow> instant \<Rightarrow> int" where
  "month_credits db pid now =
     sum_list (map cl_credits (filter (\<lambda>r. cl_provider r = pid \<and> month_start now \<le> cl_ts r) (api_call_log db)))"

definition credits_mode :: "provider_row \<Rightarrow> bool" where
  "credits_mode row = (case pv_config row of None \<Rightarrow> False
     | Some config \<Rightarrow> get_default config ''window'' (JStr ''calls'') = JStr ''credits'')"

definition window_used :: "provider_row \<Rightarrow> call_row list \<Rightarrow> int" where
  "window_used row rows = (if credits_mode row then sum_list (map cl_credits rows) else int (List.length rows))"

definition allowed_verdict :: quota_verdict where
  "allowed_verdict = \<lparr>qv_allowed = True, qv_wait = 0, qv_reason = None\<rparr>"

definition check :: "store \<Rightarrow> instant \<Rightarrow> string \<Rightarrow> string \<Rightarrow> quota_error + quota_verdict" where
  "check db now provider endpoint =
     (case provider_row_of db provider of Inl e \<Rightarrow> Inl e
      | Inr row \<Rightarrow>
      case endpoint_credits db provider endpoint of Inl e \<Rightarrow> Inl e
      | Inr credits \<Rightarrow>
      case period_seconds (pv_rate_period row) of Inl e \<Rightarrow> Inl e
      | Inr period \<Rightarrow>
        let rows = window_rows db (pv_id row) (now - period);
            incoming = (if credits_mode row then credits else 1)
        in if window_used row rows + incoming > pv_rate_limit row then
             let oldest = (case rows of [] \<Rightarrow> now | r # _ \<Rightarrow> cl_ts r)
             in Inr \<lparr>qv_allowed = False, qv_wait = max (oldest + period - now) 0, qv_reason = Some RateLimit\<rparr>
           else case pv_credit_limit row of
             None \<Rightarrow> Inr allowed_verdict
           | Some limit \<Rightarrow>
               if month_credits db (pv_id row) now + credits > limit
               then Inr \<lparr>qv_allowed = False, qv_wait = 0, qv_reason = Some CreditBudget\<rparr>
               else Inr allowed_verdict)"

definition record_call :: "string \<Rightarrow> string \<Rightarrow> int option \<Rightarrow> int option \<Rightarrow> string option \<Rightarrow> instant \<Rightarrow> store
    \<Rightarrow> quota_error + store" where
  "record_call provider endpoint status latency_ms correlation_id now db =
     (case provider_row_of db provider of Inl e \<Rightarrow> Inl e
      | Inr row \<Rightarrow>
      case endpoint_credits db provider endpoint of Inl e \<Rightarrow> Inl e
      | Inr credits \<Rightarrow>
        Inr (db\<lparr>api_call_log := api_call_log db @
               [\<lparr>cl_id = next_id (map cl_id (api_call_log db)), cl_ts = now, cl_provider = pv_id row,
                 cl_endpoint = endpoint, cl_credits = credits, cl_status = status, cl_latency = latency_ms,
                 cl_correlation = correlation_id\<rparr>]\<rparr>))"

text \<open>
  The blocking loop, with a bound on the number of checks: \<open>None\<close> when it has not returned after
  \<open>fuel\<close> of them. \<open>0.05\<close> seconds is the shortest sleep.
\<close>

definition shortest_sleep :: duration where
  "shortest_sleep = 50000"

fun wait_for_slot :: "nat \<Rightarrow> ('e \<Rightarrow> instant) \<Rightarrow> (duration \<Rightarrow> 'e \<Rightarrow> 'e) \<Rightarrow> store \<Rightarrow> string \<Rightarrow> string \<Rightarrow> 'e
    \<Rightarrow> ((quota_error + unit) \<times> 'e) option" where
  "wait_for_slot 0 clock sleeper db provider endpoint env = None"
| "wait_for_slot (Suc fuel) clock sleeper db provider endpoint env =
     (case check db (clock env) provider endpoint of Inl e \<Rightarrow> Some (Inl e, env)
      | Inr verdict \<Rightarrow>
        if qv_allowed verdict then Some (Inr (), env)
        else if qv_reason verdict = Some CreditBudget then Some (Inl (CreditsExhausted provider), env)
        else wait_for_slot fuel clock sleeper db provider endpoint (sleeper (max (qv_wait verdict) shortest_sleep) env))"

section \<open>Reporting\<close>

record quota_summary =
  qs_provider :: string
  qs_window_used :: int
  qs_window_limit :: int
  qs_rate_period :: string
  qs_credits_mode :: bool
  qs_month_credits :: int
  qs_credit_limit :: "int option"
  qs_pct :: rat

text \<open>\<open>pct_used\<close> is the exact quotient; the source's float division and rounding to six digits are left out.\<close>

definition provider_summary :: "store \<Rightarrow> instant \<Rightarrow> string \<Rightarrow> quota_error + quota_summary" where
  "provider_summary db now provider =
     (case provider_row_of db provider of Inl e \<Rightarrow> Inl e
      | Inr row \<Rightarrow>
      case period_seconds (pv_rate_period row) of Inl e \<Rightarrow> Inl e
      | Inr period \<Rightarrow>
        let used = window_used row (window_rows db (pv_id row) (now - period));
            month = month_credits db (pv_id row) now;
            pct = (case pv_credit_limit row of
                     Some l \<Rightarrow> if l \<noteq> 0 then Fract month l
                               else if pv_rate_limit row \<noteq> 0 then Fract used (pv_rate_limit row) else 0
                   | None \<Rightarrow> if pv_rate_limit row \<noteq> 0 then Fract used (pv_rate_limit row) else 0)
        in Inr \<lparr>qs_provider = pv_name row, qs_window_used = used, qs_window_limit = pv_rate_limit row,
             qs_rate_period = pv_rate_period row, qs_credits_mode = credits_mode row, qs_month_credits = month,
             qs_credit_limit = pv_credit_limit row, qs_pct = pct\<rparr>)"

fun all_ok :: "('e + 'a) list \<Rightarrow> 'e + 'a list" where
  "all_ok [] = Inr []"
| "all_ok (Inl e # xs) = Inl e"
| "all_ok (Inr x # xs) = (case all_ok xs of Inl e \<Rightarrow> Inl e | Inr ys \<Rightarrow> Inr (x # ys))"

definition summaries :: "store \<Rightarrow> instant \<Rightarrow> quota_error + quota_summary list" where
  "summaries db now = all_ok (map (provider_summary db now) (sort (map pv_name (providers db))))"

section \<open>The blocking loop returns\<close>

lemma length_filter_mono: "(\<And>x. x \<in> set xs \<Longrightarrow> P x \<Longrightarrow> Q x) \<Longrightarrow> List.length (filter P xs) \<le> List.length (filter Q xs)"
  by (induction xs) auto

lemma length_filter_strict:
  "(\<And>x. x \<in> set xs \<Longrightarrow> P x \<Longrightarrow> Q x) \<Longrightarrow> y \<in> set xs \<Longrightarrow> Q y \<Longrightarrow> \<not> P y \<Longrightarrow>
   List.length (filter P xs) < List.length (filter Q xs)"
proof (induction xs)
  case (Cons x xs)
  then have le: "List.length (filter P xs) \<le> List.length (filter Q xs)" by (intro length_filter_mono) auto
  show ?case
  proof (cases "y = x")
    case True
    with Cons.prems le show ?thesis by auto
  next
    case False
    with Cons have "List.length (filter P xs) < List.length (filter Q xs)" by auto
    with Cons.prems show ?thesis by auto
  qed
qed simp

definition calls_of :: "provider_row \<Rightarrow> store \<Rightarrow> call_row list" where
  "calls_of row db = filter (\<lambda>r. cl_provider r = pv_id row) (api_call_log db)"

lemma set_window_rows: "set (window_rows db pid s) = {r \<in> set (api_call_log db). cl_provider r = pid \<and> s \<le> cl_ts r}"
  by (auto simp: window_rows_def)

lemma window_used_rows: "window_used row (window_rows db pid s) =
  window_used row (filter (\<lambda>r. cl_provider r = pid \<and> s \<le> cl_ts r) (api_call_log db))"
proof -
  have "sum_list (map f (sort_key g xs)) = sum_list (map f xs)" for f :: "call_row \<Rightarrow> int" and g :: "call_row \<Rightarrow> instant" and xs
    by (metis mset_map mset_sort sum_mset_sum_list)
  then show ?thesis by (simp add: window_used_def window_rows_def)
qed

text \<open>How many more checks can be denied for the rate: the rows in the window, those after its start
  counted twice.\<close>

definition pending :: "provider_row \<Rightarrow> duration \<Rightarrow> store \<Rightarrow> instant \<Rightarrow> nat" where
  "pending row d db now =
     List.length (filter (\<lambda>r. now - d \<le> cl_ts r) (calls_of row db))
     + List.length (filter (\<lambda>r. now - d < cl_ts r) (calls_of row db))"

lemma pending_decreases:
  assumes "r \<in> set (calls_of row db)" "now - d \<le> cl_ts r" "now < now'" "cl_ts r \<le> now' - d"
  shows "pending row d db now' < pending row d db now"
proof (cases "now - d < cl_ts r")
  case True
  have "List.length (filter (\<lambda>r. now' - d < cl_ts r) (calls_of row db)) < List.length (filter (\<lambda>r. now - d < cl_ts r) (calls_of row db))"
    by (rule length_filter_strict [where y = r]) (use assms True in auto)
  moreover have "List.length (filter (\<lambda>r. now' - d \<le> cl_ts r) (calls_of row db)) \<le> List.length (filter (\<lambda>r. now - d \<le> cl_ts r) (calls_of row db))"
    by (rule length_filter_mono) (use assms in auto)
  ultimately show ?thesis by (simp add: pending_def)
next
  case False
  have "List.length (filter (\<lambda>r. now' - d \<le> cl_ts r) (calls_of row db)) < List.length (filter (\<lambda>r. now - d \<le> cl_ts r) (calls_of row db))"
    by (rule length_filter_strict [where y = r]) (use assms False in auto)
  moreover have "List.length (filter (\<lambda>r. now' - d < cl_ts r) (calls_of row db)) \<le> List.length (filter (\<lambda>r. now - d < cl_ts r) (calls_of row db))"
    by (rule length_filter_mono) (use assms in auto)
  ultimately show ?thesis by (simp add: pending_def)
qed

lemma pending_bound: "pending row d db now \<le> 2 * List.length (api_call_log db)"
proof -
  have "List.length (filter P (calls_of row db)) \<le> List.length (api_call_log db)" for P
    unfolding calls_of_def by (rule le_trans [OF length_filter_le length_filter_le])
  then show ?thesis unfolding pending_def by (smt (verit) add_mono mult_2)
qed

text \<open>What one more call weighs in the window.\<close>

definition incoming :: "provider_row \<Rightarrow> int \<Rightarrow> int" where
  "incoming row credits = (if credits_mode row then credits else 1)"

lemma check_known:
  assumes "provider_row_of db p = Inr row" "endpoint_credits db p e = Inr credits"
    "period_seconds (pv_rate_period row) = Inr d"
  shows "check db now p e =
    (let rows = window_rows db (pv_id row) (now - d) in
     if pv_rate_limit row < window_used row rows + incoming row credits
     then Inr \<lparr>qv_allowed = False, qv_wait = max ((case rows of [] \<Rightarrow> now | r # _ \<Rightarrow> cl_ts r) + d - now) 0, qv_reason = Some RateLimit\<rparr>
     else case pv_credit_limit row of None \<Rightarrow> Inr allowed_verdict
       | Some limit \<Rightarrow> if month_credits db (pv_id row) now + credits > limit
           then Inr \<lparr>qv_allowed = False, qv_wait = 0, qv_reason = Some CreditBudget\<rparr> else Inr allowed_verdict)"
  using assms by (simp add: check_def incoming_def Let_def)

lemma window_rows_hd_le:
  assumes "window_rows db pid s = y # ys" "x \<in> set (window_rows db pid s)"
  shows "cl_ts y \<le> cl_ts x"
proof -
  have "sorted (map cl_ts (window_rows db pid s))" unfolding window_rows_def by (rule sorted_sort_key)
  with assms show ?thesis by auto
qed

lemma wait_returns_aux:
  assumes known: "provider_row_of db p = Inr row" "endpoint_credits db p e = Inr credits"
    "period_seconds (pv_rate_period row) = Inr d"
    and fits: "incoming row credits \<le> pv_rate_limit row"
    and sleeps: "\<And>t env. clock env + t \<le> clock (sleeper t env)"
  shows "pending row d db (clock env) < fuel \<Longrightarrow>
    \<exists>r env'. wait_for_slot fuel clock sleeper db p e env = Some (r, env')
      \<and> (r = Inr () \<and> check db (clock env') p e = Inr allowed_verdict \<or> r = Inl (CreditsExhausted p))"
proof (induction fuel arbitrary: env)
  case (Suc fuel)
  let ?now = "clock env" and ?rows = "window_rows db (pv_id row) (clock env - d)"
  show ?case
  proof (cases "pv_rate_limit row < window_used row ?rows + incoming row credits")
    case True
    have "?rows \<noteq> []"
    proof
      assume "?rows = []"
      then have "window_used row ?rows = 0" by (simp add: window_used_def)
      with True fits show False by simp
    qed
    then obtain y ys where y: "?rows = y # ys" by (cases ?rows) auto
    let ?w = "max (cl_ts y + d - ?now) 0"
    let ?env = "sleeper (max ?w shortest_sleep) env"
    have c: "check db ?now p e = Inr \<lparr>qv_allowed = False, qv_wait = ?w, qv_reason = Some RateLimit\<rparr>"
      using True y by (simp add: check_known [OF known] Let_def)
    have later: "?now + (cl_ts y + d - ?now) \<le> clock ?env" "?now < clock ?env"
      using sleeps [of env "max ?w shortest_sleep"] by (simp_all add: shortest_sleep_def)
    have "y \<in> set ?rows" using y by simp
    then have "y \<in> set (calls_of row db)" "?now - d \<le> cl_ts y" by (auto simp: set_window_rows calls_of_def)
    from pending_decreases [OF this later(2)] later(1)
    have "pending row d db (clock ?env) < pending row d db ?now" by simp
    with Suc.prems have "pending row d db (clock ?env) < fuel" by simp
    from Suc.IH [OF this] c show ?thesis by simp
  next
    case False
    then have "check db ?now p e = Inr allowed_verdict
      \<or> check db ?now p e = Inr \<lparr>qv_allowed = False, qv_wait = 0, qv_reason = Some CreditBudget\<rparr>"
      by (auto simp: check_known [OF known] Let_def split: option.split)
    then show ?thesis by (auto simp: allowed_verdict_def)
  qed
qed simp

lemma window_used_nonneg: "\<forall>r \<in> set (api_call_log db). 0 \<le> cl_credits r \<Longrightarrow> 0 \<le> window_used row (window_rows db pid s)"
  by (auto simp: window_used_def set_window_rows intro!: sum_list_nonneg)

lemma wait_never_returns:
  assumes "provider_row_of db p = Inr row" "endpoint_credits db p e = Inr credits"
    "period_seconds (pv_rate_period row) = Inr d" "pv_rate_limit row < incoming row credits"
    "\<forall>r \<in> set (api_call_log db). 0 \<le> cl_credits r"
  shows "wait_for_slot fuel clock sleeper db p e env = None"
proof (induction fuel arbitrary: env)
  case (Suc fuel)
  have "pv_rate_limit row < window_used row (window_rows db (pv_id row) (clock env - d)) + incoming row credits"
    using window_used_nonneg [OF assms(5), of row "pv_id row" "clock env - d"] assms(4) by linarith
  then obtain w where "check db (clock env) p e = Inr \<lparr>qv_allowed = False, qv_wait = w, qv_reason = Some RateLimit\<rparr>"
    by (simp add: check_known [OF assms(1-3)] Let_def)
  with Suc show ?case by simp
qed simp

text \<open>C35. The blocking wait for a rate slot returns, after at most two checks per logged call and one
  more, exactly when the call by itself fits the provider's limit; then it either holds an allowed
  verdict at that moment or raises the credit error. A call whose own weight exceeds the limit of a
  credits-mode provider makes it wait for ever: the loop has no exit for that case.\<close>

theorem wait_for_slot_returns_iff:
  assumes "provider_row_of db p = Inr row" "endpoint_credits db p e = Inr credits"
    "period_seconds (pv_rate_period row) = Inr d"
    and "\<forall>r \<in> set (api_call_log db). 0 \<le> cl_credits r"
    and "\<And>t env. clock env + t \<le> clock (sleeper t env)"
  shows "if incoming row credits \<le> pv_rate_limit row
    then (\<exists>r env'. wait_for_slot (2 * List.length (api_call_log db) + 1) clock sleeper db p e env = Some (r, env')
      \<and> (r = Inr () \<and> check db (clock env') p e = Inr allowed_verdict \<or> r = Inl (CreditsExhausted p)))
    else (\<forall>fuel. wait_for_slot fuel clock sleeper db p e env = None)"
proof (cases "incoming row credits \<le> pv_rate_limit row")
  case True
  have "pending row d db (clock env) < 2 * List.length (api_call_log db) + 1" using pending_bound [of row d db "clock env"] by simp
  from wait_returns_aux [OF assms(1-3) True assms(5) this] True show ?thesis by simp
next
  case False
  then show ?thesis by (simp add: wait_never_returns [OF assms(1-3) _ assms(4)])
qed

definition two_per_second :: store where
  "two_per_second = empty_store\<lparr>
     providers := [\<lparr>pv_id = 1, pv_name = ''rpc'', pv_base_url = ''https://rpc'', pv_rate_limit = 2, pv_rate_period = ''second'',
       pv_has_credits = False, pv_credit_limit = None, pv_free_tier = True, pv_config = None\<rparr>],
     api_call_log := [\<lparr>cl_id = 1, cl_ts = 0, cl_provider = 1, cl_endpoint = ''/a'', cl_credits = 1, cl_status = Some 200,
         cl_latency = None, cl_correlation = None\<rparr>,
       \<lparr>cl_id = 2, cl_ts = 10, cl_provider = 1, cl_endpoint = ''/a'', cl_credits = 1, cl_status = Some 200,
         cl_latency = None, cl_correlation = None\<rparr>]\<rparr>"

lemma wait_for_slot_returns_iff_witness:
  "\<exists>r env'. wait_for_slot 5 (\<lambda>t. t) (\<lambda>d t. t + d) two_per_second ''rpc'' ''/a'' 20 = Some (r, env')
     \<and> (r = Inr () \<and> check two_per_second env' ''rpc'' ''/a'' = Inr allowed_verdict \<or> r = Inl (CreditsExhausted ''rpc''))"
proof -
  let ?row = "hd (providers two_per_second)"
  have r: "provider_row_of two_per_second ''rpc'' = Inr ?row" by (simp add: two_per_second_def provider_row_of_def)
  have c: "endpoint_credits two_per_second ''rpc'' ''/a'' = Inr 1"
    unfolding endpoint_credits_def r by (simp add: two_per_second_def matching_costs_def empty_store_def)
  have d: "period_seconds (pv_rate_period ?row) = Inr (seconds 1)" by (simp add: two_per_second_def period_seconds_def)
  have p: "\<forall>r \<in> set (api_call_log two_per_second). 0 \<le> cl_credits r" by (simp add: two_per_second_def)
  have f: "incoming ?row 1 \<le> pv_rate_limit ?row" by (simp add: two_per_second_def incoming_def credits_mode_def)
  have l: "2 * List.length (api_call_log two_per_second) + 1 = 5" by (simp add: two_per_second_def)
  show ?thesis
    using wait_for_slot_returns_iff [OF r c d p, of "\<lambda>t. t" "\<lambda>d t. t + d" 20] f unfolding l by simp
qed

section \<open>No window is ever overdrawn\<close>

text \<open>A client's call: checked at one time and, when allowed, recorded when the answer is in.\<close>

record quota_call =
  qc_provider :: string
  qc_endpoint :: string
  qc_checked :: instant
  qc_recorded :: instant
  qc_status :: "int option"
  qc_latency :: "int option"
  qc_correlation :: "string option"

definition gated_call :: "quota_call \<Rightarrow> store \<Rightarrow> store" where
  "gated_call c db =
     (case check db (qc_checked c) (qc_provider c) (qc_endpoint c) of
        Inl _ \<Rightarrow> db
      | Inr verdict \<Rightarrow>
          if qv_allowed verdict
          then (case record_call (qc_provider c) (qc_endpoint c) (qc_status c) (qc_latency c) (qc_correlation c)
                  (qc_recorded c) db of
                  Inl _ \<Rightarrow> db | Inr db' \<Rightarrow> db')
          else db)"

text \<open>The calls of a provider as weighted rows of a sliding window.\<close>

definition usage :: "provider_row \<Rightarrow> store \<Rightarrow> (instant \<times> nat) list" where
  "usage row db = map (\<lambda>r. (cl_ts r, nat (if credits_mode row then cl_credits r else 1))) (calls_of row db)"

definition nonneg_weights :: "store \<Rightarrow> bool" where
  "nonneg_weights db \<longleftrightarrow> (\<forall>r \<in> set (api_call_log db). 0 \<le> cl_credits r) \<and> (\<forall>c \<in> set (endpoint_costs db). 0 \<le> co_credits c)"

definition within_rate :: "store \<Rightarrow> provider_row \<Rightarrow> bool" where
  "within_rate db row \<longleftrightarrow> (case period_seconds (pv_rate_period row) of Inl _ \<Rightarrow> True
     | Inr d \<Rightarrow> \<forall>u. used_between (u - d) u (usage row db) \<le> nat (pv_rate_limit row))"

definition quota_ok :: "store \<Rightarrow> bool" where
  "quota_ok db \<longleftrightarrow> nonneg_weights db \<and> distinct (map pv_id (providers db)) \<and> (\<forall>row \<in> set (providers db). within_rate db row)"

lemma used_since_usage:
  assumes "\<forall>r \<in> set (api_call_log db). 0 \<le> cl_credits r"
  shows "int (used_since s (usage row db)) = window_used row (window_rows db (pv_id row) s)"
proof -
  have e: "filter (\<lambda>r. cl_provider r = pv_id row \<and> s \<le> cl_ts r) (api_call_log db) = filter (\<lambda>r. s \<le> cl_ts r) (calls_of row db)"
    by (simp add: calls_of_def conj_commute)
  have sum: "int (used_since s (map (\<lambda>r. (cl_ts r, nat (g r))) rs)) = sum_list (map g (filter (\<lambda>r. s \<le> cl_ts r) rs))"
    if "\<forall>r \<in> set rs. 0 \<le> g r" for g and rs :: "call_row list"
    using that by (induction rs) (auto simp: used_since_def)
  have "\<forall>r \<in> set (calls_of row db). 0 \<le> (if credits_mode row then cl_credits r else 1)" using assms by (auto simp: calls_of_def)
  from sum [OF this] show ?thesis
    unfolding window_used_rows e usage_def by (simp add: window_used_def sum_list_triv)
qed

lemma endpoint_credits_nonneg:
  assumes "nonneg_weights db" "endpoint_credits db p e = Inr credits"
  shows "0 \<le> credits"
proof -
  have "0 \<le> snd (foldl larger_pair m ms)" if "\<forall>x \<in> set (m # ms). 0 \<le> snd x" for m ms
    using that by (induction ms arbitrary: m) (auto simp: larger_pair_def)
  moreover have "\<forall>x \<in> set (matching_costs db i e). 0 \<le> snd x" for i
    using assms(1) by (auto simp: matching_costs_def nonneg_weights_def)
  ultimately have "0 \<le> (case matching_costs db i e of [] \<Rightarrow> 1 | m # ms \<Rightarrow> snd (foldl larger_pair m ms))" for i
    by (cases "matching_costs db i e") (simp, metis list.simps(5))
  then show ?thesis using assms(2) by (auto simp: endpoint_credits_def split: sum.splits)
qed

text \<open>What a gated call changes: nothing, or one row for a provider whose limit leaves room.\<close>

lemma gated_call_cases:
  obtains (same) "gated_call c db = db"
  | (logged) row credits d new where "row \<in> set (providers db)" "endpoint_credits db (qc_provider c) (qc_endpoint c) = Inr credits"
      "period_seconds (pv_rate_period row) = Inr d"
      "window_used row (window_rows db (pv_id row) (qc_checked c - d)) + incoming row credits \<le> pv_rate_limit row"
      "gated_call c db = db\<lparr>api_call_log := api_call_log db @ [new]\<rparr>"
      "cl_ts new = qc_recorded c" "cl_provider new = pv_id row" "cl_credits new = credits"
proof (cases "check db (qc_checked c) (qc_provider c) (qc_endpoint c)")
  case (Inl e)
  then show ?thesis using same by (simp add: gated_call_def)
next
  case (Inr v)
  then obtain row credits d where known: "provider_row_of db (qc_provider c) = Inr row"
    "endpoint_credits db (qc_provider c) (qc_endpoint c) = Inr credits" "period_seconds (pv_rate_period row) = Inr d"
    by (auto simp: check_def split: sum.splits)
  show ?thesis
  proof (cases "qv_allowed v")
    case False
    with Inr show ?thesis using same by (simp add: gated_call_def)
  next
    case True
    have "row \<in> set (providers db)" using known(1)
      by (auto simp: provider_row_of_def find_Some_iff split: option.splits)
    moreover have "window_used row (window_rows db (pv_id row) (qc_checked c - d)) + incoming row credits \<le> pv_rate_limit row"
      using Inr True by (auto simp: check_known [OF known] Let_def split: if_splits)
    ultimately show ?thesis using logged [OF _ known(2,3)] Inr True known
      by (simp add: gated_call_def record_call_def)
  qed
qed

interpretation quota: machine gated_call "\<lambda>c :: quota_call. \<lambda>_. qc_checked c \<le> qc_recorded c" quota_ok
proof
  fix db and c :: quota_call
  assume ok: "quota_ok db" and t: "qc_checked c \<le> qc_recorded c"
  show "quota_ok (gated_call c db)"
  proof (cases rule: gated_call_cases [of c db])
    case same
    with ok show ?thesis by simp
  next
    case (logged row credits d new)
    have nn: "nonneg_weights db" using ok by (simp add: quota_ok_def)
    have cr: "0 \<le> credits" using endpoint_credits_nonneg [OF nn logged(2)] .
    let ?db = "gated_call c db"
    let ?w = "nat (if credits_mode row then credits else 1)"
    have "within_rate ?db r" if r: "r \<in> set (providers db)" for r
    proof (cases "pv_id r = pv_id row")
      case True
      then have [simp]: "r = row" using ok r logged(1) by (auto simp: quota_ok_def distinct_map inj_on_def)
      have u: "usage row ?db = usage row db @ [(qc_recorded c, ?w)]"
        using logged(5-8) by (simp add: usage_def calls_of_def)
      have "int (used_since (qc_checked c - d) (usage row db)) + incoming row credits \<le> pv_rate_limit row"
        using logged(4) nn by (simp add: used_since_usage nonneg_weights_def)
      moreover have "used_since (qc_recorded c - d) (usage row db) \<le> used_since (qc_checked c - d) (usage row db)"
        using t by (intro used_since_antimono) simp
      ultimately have "used_since (qc_recorded c - d) (usage row db) + ?w \<le> nat (pv_rate_limit row)"
        using cr by (auto simp: incoming_def split: if_splits)
      then show ?thesis using closed_window.admit_keeps_cap [of d "usage row db" _ "qc_recorded c" ?w] ok r logged(3)
        by (auto simp: within_rate_def quota_ok_def u)
    next
      case False
      then have "usage r ?db = usage r db" using logged(5,7) by (simp add: usage_def calls_of_def)
      then have "within_rate ?db r = within_rate db r" by (simp only: within_rate_def)
      then show ?thesis using ok r by (simp add: quota_ok_def)
    qed
    moreover have "nonneg_weights ?db" using nn logged(5,8) cr by (simp add: nonneg_weights_def)
    ultimately show ?thesis using ok logged(5) by (simp add: quota_ok_def)
  qed
qed

text \<open>However calls to however many endpoints and providers interleave, and however long each takes
  between its check and its log entry, no provider's log ever shows more use inside one of its rate
  windows than its limit: requests for a calls-mode provider, summed weights for a credits-mode one.\<close>

lemma gated_windows_bounded:
  assumes "api_call_log db = []" "distinct (map pv_id (providers db))" "\<forall>c \<in> set (endpoint_costs db). 0 \<le> co_credits c"
    "admissible (\<lambda>c _. qc_checked c \<le> qc_recorded c) gated_call calls db"
    "row \<in> set (providers (run gated_call calls db))" "period_seconds (pv_rate_period row) = Inr d"
  shows "window_used row (filter (\<lambda>r. u - d \<le> cl_ts r \<and> cl_ts r \<le> u) (calls_of row (run gated_call calls db))) \<le> max 0 (pv_rate_limit row)"
proof -
  have "quota_ok db" using assms(1-3)
    by (auto simp: quota_ok_def nonneg_weights_def within_rate_def usage_def calls_of_def used_between_def split: sum.split)
  then have ok: "quota_ok (run gated_call calls db)" by (rule quota.run_inv [OF _ assms(4)])
  let ?db = "run gated_call calls db"
  have sum: "int (used_between s u (map (\<lambda>r. (cl_ts r, nat (g r))) rs)) = sum_list (map g (filter (\<lambda>r. s \<le> cl_ts r \<and> cl_ts r \<le> u) rs))"
    if "\<forall>r \<in> set rs. 0 \<le> g r" for g s and rs :: "call_row list"
    using that by (induction rs) (auto simp: used_between_def)
  have "\<forall>r \<in> set (calls_of row ?db). 0 \<le> (if credits_mode row then cl_credits r else 1)"
    using ok by (auto simp: quota_ok_def nonneg_weights_def calls_of_def)
  from sum [OF this, of "u - d"]
  have "int (used_between (u - d) u (usage row ?db)) = window_used row (filter (\<lambda>r. u - d \<le> cl_ts r \<and> cl_ts r \<le> u) (calls_of row ?db))"
    unfolding usage_def by (simp add: window_used_def sum_list_triv)
  moreover have "used_between (u - d) u (usage row ?db) \<le> nat (pv_rate_limit row)"
    using ok assms(5,6) by (auto simp: quota_ok_def within_rate_def)
  ultimately show ?thesis by linarith
qed

end
