(* ===== verification/Alerts.thy ===== *)
theory Alerts
  imports Recorders Quota
begin

text \<open>
  \<open>alerts/rules.py\<close>: the rules over the recorded state, and the bookkeeping of firings in
  \<open>alerts_log\<close>. Texts are UTF-8 bytes. \<open>pct_repr\<close> stands for the float arithmetic of a summary's
  \<open>pct_used\<close> (the quotient rounded to six digits, as text).
\<close>

section \<open>Values in messages\<close>

record alert =
  at_rule :: string
  at_severity :: string
  at_title :: string
  at_message :: string
  at_inputs :: dict
  at_tags :: "string list"

text \<open>\<open>_num\<close>: the outer \<open>None\<close> raises (\<open>quantize\<close> beyond the default precision).\<close>

definition num :: "nat \<Rightarrow> decimal option \<Rightarrow> string option option" where
  "num places v = (case v of None \<Rightarrow> Some None
     | Some d \<Rightarrow> map_option (\<lambda>q. Some (dec_str q)) (dquantize 28 d (- int places)))"

definition shown :: "string option \<Rightarrow> string" where
  "shown s = (case s of None \<Rightarrow> ''None'' | Some t \<Rightarrow> t)"

definition shown_json :: "string option \<Rightarrow> json" where
  "shown_json s = opt_json JStr s"

definition flag_name :: "hedge_flag \<Rightarrow> string" where
  "flag_name f = (case f of NakedLp \<Rightarrow> ''naked-lp'' | OverHedged \<Rightarrow> ''over-hedged'' | UnderHedged \<Rightarrow> ''under-hedged''
     | NearBandEdge \<Rightarrow> ''near-band-edge'' | PriceNearSl \<Rightarrow> ''price-near-sl''
     | SlCorrelatedWithTopExit \<Rightarrow> ''sl-correlated-with-top-exit'' | SlBelowQ1Q2Rule \<Rightarrow> ''sl-below-q1q2-rule''
     | TargetExceedsConfiguredMax \<Rightarrow> ''target-exceeds-configured-max'')"

definition quadrant_name :: "quadrant \<Rightarrow> string" where
  "quadrant_name q = (case q of BelowRange \<Rightarrow> ''below-range'' | Q4 \<Rightarrow> ''Q4'' | Q3 \<Rightarrow> ''Q3'' | Q2 \<Rightarrow> ''Q2'' | Q1 \<Rightarrow> ''Q1''
     | AboveRange \<Rightarrow> ''above-range'')"

section \<open>Hedge rules\<close>

definition base_inputs :: "hedge_analysis \<Rightarrow> dict option" where
  "base_inputs a = do {
     price \<leftarrow> num 4 (Some (a_price_usd a));
     delta \<leftarrow> num 4 (Some (lp_delta_eth a));
     short \<leftarrow> num 4 (Some (short_size_eth a));
     coverage \<leftarrow> num 4 (coverage_ratio_eth a);
     Some [(''price_usd'', shown_json price), (''quadrant'', JStr (quadrant_name (a_quadrant a))),
           (''lp_delta_eth'', shown_json delta), (''short_size_eth'', shown_json short),
           (''coverage_ratio_eth'', shown_json coverage)]
   }"

definition naked_lp_alert :: "hedge_analysis \<Rightarrow> dict \<Rightarrow> alert option" where
  "naked_lp_alert a base = do {
     delta \<leftarrow> num 4 (Some (lp_delta_eth a));
     price \<leftarrow> num 2 (Some (a_price_usd a));
     Some \<lparr>at_rule = ''naked-lp'', at_severity = ''urgent'', at_title = ''HEDGE: naked LP'',
       at_message = ''No short leg against '' @ shown delta @ '' ETH of LP delta '' @ dash
         @ '' downside is unhedged (price $'' @ shown price @ '').'',
       at_inputs = base, at_tags = [''rotating_light'']\<rparr>
   }"

definition near_sl_alert :: "hedge_analysis \<Rightarrow> dict \<Rightarrow> alert option" where
  "near_sl_alert a base = do {
     price \<leftarrow> num 2 (Some (a_price_usd a));
     distance \<leftarrow> num 2 (distance_to_sl_pct a);
     exact_distance \<leftarrow> num 4 (distance_to_sl_pct a);
     Some \<lparr>at_rule = ''price-near-sl'', at_severity = ''urgent'', at_title = ''HEDGE: price near stop-loss'',
       at_message = ''Price $'' @ shown price @ '' is '' @ shown distance @ ''% from the SL trigger '' @ dash
         @ '' a stop-out re-exposes the LP downside.'',
       at_inputs = base @ [(''distance_to_sl_pct'', shown_json exact_distance)],
       at_tags = [''rotating_light'', ''chart_with_downwards_trend'']\<rparr>
   }"

definition near_edge_alert :: "hedge_analysis \<Rightarrow> dict \<Rightarrow> alert option" where
  "near_edge_alert a base = do {
     price \<leftarrow> num 2 (Some (a_price_usd a));
     above \<leftarrow> num 2 (Some (distance_to_floor_pct a));
     below \<leftarrow> num 2 (Some (distance_to_ceiling_pct a));
     exact_above \<leftarrow> num 4 (Some (distance_to_floor_pct a));
     exact_below \<leftarrow> num 4 (Some (distance_to_ceiling_pct a));
     Some \<lparr>at_rule = ''near-band-edge'', at_severity = ''high'', at_title = ''LP: price near band edge'',
       at_message = ''Price $'' @ shown price @ '' '' @ dash @ '' '' @ shown above @ ''% above floor, '' @ shown below
         @ ''% below ceiling (quadrant decision points apply).'',
       at_inputs = base @ [(''distance_to_floor_pct'', shown_json exact_above), (''distance_to_ceiling_pct'', shown_json exact_below)],
       at_tags = [''warning'']\<rparr>
   }"

definition rebalance_alert :: "settings \<Rightarrow> hedge_analysis \<Rightarrow> dict \<Rightarrow> alert option" where
  "rebalance_alert settings a base = do {
     short \<leftarrow> num 4 (Some (short_size_eth a));
     target \<leftarrow> num 4 (Some (delta_matched_target_eth a));
     break_even \<leftarrow> num 4 (break_even_short_size a);
     Some \<lparr>at_rule = ''rebalance-needed'', at_severity = ''high'', at_title = ''HEDGE: coverage drift beyond band'',
       at_message = ''Short '' @ shown short @ '' ETH vs delta-matched target '' @ shown target
         @ '' ETH '' @ dash @ '' deviation exceeds the '' @ dec_str (hedge_rebalance_band settings)
         @ '' band (recommendation only; execution is S9-gated).'',
       at_inputs = base @ [(''delta_matched_target_eth'', shown_json target), (''break_even_short_size'', shown_json break_even),
         (''flags'', JArr (map (\<lambda>f. JStr (flag_name f)) (flags a)))],
       at_tags = [''warning'', ''scales'']\<rparr>
   }"

text \<open>\<open>if cond: alerts.append(...)\<close>.\<close>

definition append_if :: "bool \<Rightarrow> 'a option \<Rightarrow> 'a list \<Rightarrow> 'a list option" where
  "append_if c x xs = (if c then map_option (\<lambda>a. xs @ [a]) x else Some xs)"

definition hedge_alerts :: "store \<Rightarrow> settings \<Rightarrow> alert list option" where
  "hedge_alerts db settings = do {
     inputs \<leftarrow> latest_inputs db;
     case inputs of None \<Rightarrow> Some []
     | Some (lp, short, price) \<Rightarrow> do {
         a \<leftarrow> analyze settings lp short price;
         base \<leftarrow> base_inputs a;
         alerts1 \<leftarrow> append_if (NakedLp \<in> set (flags a)) (naked_lp_alert a base) [];
         alerts2 \<leftarrow> append_if (PriceNearSl \<in> set (flags a)) (near_sl_alert a base) alerts1;
         alerts3 \<leftarrow> append_if (NearBandEdge \<in> set (flags a)) (near_edge_alert a base) alerts2;
         append_if (rebalance_needed a) (rebalance_alert settings a base) alerts3
       }
   }"

section \<open>Staleness, quota and health\<close>

definition staleness_message :: "settings \<Rightarrow> string \<Rightarrow> string" where
  "staleness_message settings detail =
     detail @ '' (threshold '' @ int_str (snapshot_staleness_minutes settings) @ '' min) '' @ dash
       @ '' the scheduled recorder is not landing data.''"

definition stale_alert :: "settings \<Rightarrow> string \<Rightarrow> json \<Rightarrow> json \<Rightarrow> alert" where
  "stale_alert settings detail newest_ts age_minutes =
     \<lparr>at_rule = ''snapshot-stale'', at_severity = ''high'', at_title = ''RECORDER: snapshots stale'',
       at_message = staleness_message settings detail,
       at_inputs = [(''newest_ts'', newest_ts), (''age_minutes'', age_minutes)], at_tags = [''warning'', ''hourglass'']\<rparr>"

definition staleness_alert :: "store \<Rightarrow> settings \<Rightarrow> instant \<Rightarrow> alert option" where
  "staleness_alert db settings now =
     (case newest_snapshot_ts db of
        None \<Rightarrow> Some (stale_alert settings ''no snapshots recorded at all'' JNull JNull)
      | Some t \<Rightarrow>
          let age_minutes = (now - t) div minutes 1
          in if age_minutes \<le> snapshot_staleness_minutes settings then None
             else Some (stale_alert settings (''newest snapshot is '' @ int_str age_minutes @ '' min old'')
                          (JStr (iso_text t)) (JInt age_minutes)))"

text \<open>\<open>format(used, ".0%")\<close>.\<close>

definition percent_text :: "decimal \<Rightarrow> string" where
  "percent_text d = sign_str d
     @ nat_str (div_half_even (scaled_num (dcoef d) (dexp d + 2)) (scaled_den 1 (dexp d + 2))) @ ''%''"

definition summary_dict :: "(rat \<Rightarrow> string) \<Rightarrow> quota_summary \<Rightarrow> dict" where
  "summary_dict pct_repr s =
     [(''provider'', JStr (qs_provider s)), (''window_used'', JInt (qs_window_used s)),
      (''window_limit'', JInt (qs_window_limit s)), (''rate_period'', JStr (qs_rate_period s)),
      (''window_mode'', JStr (if qs_credits_mode s then ''credits'' else ''calls'')),
      (''month_credits'', JInt (qs_month_credits s)), (''credit_limit'', opt_json JInt (qs_credit_limit s)),
      (''pct_used'', JFloat (pct_repr (qs_pct s)))]"

definition quota_alert :: "(rat \<Rightarrow> string) \<Rightarrow> settings \<Rightarrow> quota_summary \<Rightarrow> alert option option" where
  "quota_alert pct_repr settings s =
     (case qs_credit_limit s of None \<Rightarrow> Some None
      | Some limit \<Rightarrow>
          if limit = 0 then Some None
          else do {
            used \<leftarrow> ddiv 28 (dint (qs_month_credits s)) (dint limit);
            Some (if dle (quota_alert_used_pct settings) used
              then Some \<lparr>at_rule = ''quota-critical'', at_severity = ''high'',
                     at_title = ''QUOTA: '' @ qs_provider s @ '' monthly budget'',
                     at_message = qs_provider s @ '': '' @ int_str (qs_month_credits s) @ ''/'' @ int_str limit
                       @ '' monthly credits used ('' @ percent_text used @ '') '' @ dash @ '' throttle or raise the budget.'',
                     at_inputs = summary_dict pct_repr s, at_tags = [''warning'', ''fuelpump'']\<rparr>
              else None)
          })"

text \<open>What \<open>evaluate\<close> can raise.\<close>

datatype alert_error = AlertQuota quota_error | AlertPython

definition or_python :: "'a option \<Rightarrow> alert_error + 'a" where
  "or_python x = (case x of None \<Rightarrow> Inl AlertPython | Some a \<Rightarrow> Inr a)"

fun quota_alert_list :: "(rat \<Rightarrow> string) \<Rightarrow> settings \<Rightarrow> quota_summary list \<Rightarrow> alert list option" where
  "quota_alert_list pct_repr settings [] = Some []"
| "quota_alert_list pct_repr settings (s # ss) = do {
     a \<leftarrow> quota_alert pct_repr settings s;
     rest \<leftarrow> quota_alert_list pct_repr settings ss;
     Some (case a of None \<Rightarrow> rest | Some x \<Rightarrow> x # rest)
   }"

definition quota_alerts :: "(rat \<Rightarrow> string) \<Rightarrow> store \<Rightarrow> settings \<Rightarrow> instant \<Rightarrow> alert_error + alert list" where
  "quota_alerts pct_repr db settings now =
     (case summaries db now of Inl e \<Rightarrow> Inl (AlertQuota e)
      | Inr ss \<Rightarrow> or_python (quota_alert_list pct_repr settings ss))"

text \<open>\<open>health\<close> maps the names of checks (in the order they ran) to their results.\<close>

fun comma_join :: "string list \<Rightarrow> string" where
  "comma_join [] = []"
| "comma_join [s] = s"
| "comma_join (s # ss) = s @ '', '' @ comma_join ss"

definition health_alert :: "(string \<times> string) list \<Rightarrow> alert option" where
  "health_alert health =
     (let failed = filter (\<lambda>(name, result). result \<noteq> ''ok'') health
      in if failed = [] then None
         else Some \<lparr>at_rule = ''healthcheck-degraded'', at_severity = ''high'', at_title = ''SYSTEM: healthcheck degraded'',
           at_message = ''Failing checks: '' @ comma_join (sort (map fst failed)) @ ''.'',
           at_inputs = [(''failed'', JObj (map (\<lambda>(name, result). (name, JStr result)) failed))],
           at_tags = [''warning'', ''stethoscope'']\<rparr>)"

definition option_list :: "'a option \<Rightarrow> 'a list" where
  "option_list x = (case x of None \<Rightarrow> [] | Some a \<Rightarrow> [a])"

definition evaluate :: "(rat \<Rightarrow> string) \<Rightarrow> store \<Rightarrow> settings \<Rightarrow> instant \<Rightarrow> (string \<times> string) list option
    \<Rightarrow> alert_error + alert list" where
  "evaluate pct_repr db settings now health =
     (case hedge_alerts db settings of None \<Rightarrow> Inl AlertPython
      | Some hedge \<Rightarrow>
      case quota_alerts pct_repr db settings now of Inl e \<Rightarrow> Inl e
      | Inr quota \<Rightarrow>
        Inr (hedge @ option_list (staleness_alert db settings now) @ quota
          @ (case health of None \<Rightarrow> [] | Some h \<Rightarrow> option_list (health_alert h))))"

section \<open>Bookkeeping\<close>

definition latest :: "instant list \<Rightarrow> instant option" where
  "latest ts = (case ts of [] \<Rightarrow> None | t # rest \<Rightarrow> Some (foldl max t rest))"

definition firings :: "string \<Rightarrow> store \<Rightarrow> instant list" where
  "firings rule db = map al_ts (filter (\<lambda>r. al_rule r = rule) (alerts_log db))"

definition cooling :: "store \<Rightarrow> settings \<Rightarrow> instant \<Rightarrow> alert \<Rightarrow> bool" where
  "cooling db settings now a =
     (case latest (firings (at_rule a) db) of None \<Rightarrow> False
      | Some t \<Rightarrow> now - t < minutes (alert_cooldown_minutes settings))"

definition apply_cooldown :: "store \<Rightarrow> alert list \<Rightarrow> settings \<Rightarrow> instant \<Rightarrow> alert list \<times> alert list" where
  "apply_cooldown db alerts settings now = partition (\<lambda>a. \<not> cooling db settings now a) alerts"

definition record_alert :: "alert \<Rightarrow> instant \<Rightarrow> store \<Rightarrow> nat \<times> store" where
  "record_alert a now db =
     (let i = next_id (map al_id (alerts_log db))
      in (i, db\<lparr>alerts_log := alerts_log db @
            [\<lparr>al_id = i, al_ts = now, al_rule = at_rule a, al_severity = at_severity a, al_payload = at_inputs a,
              al_delivered = False, al_ntfy_status = None\<rparr>]\<rparr>))"

definition mark_delivery :: "nat \<Rightarrow> bool \<Rightarrow> string \<Rightarrow> store \<Rightarrow> store" where
  "mark_delivery i delivered ntfy_status db =
     db\<lparr>alerts_log := map (\<lambda>r. if al_id r = i then r\<lparr>al_delivered := delivered, al_ntfy_status := Some ntfy_status\<rparr> else r)
          (alerts_log db)\<rparr>"

section \<open>When each rule fires\<close>

text \<open>The rule table: the condition on the recorded state under which each rule is due.\<close>

definition hedged :: "store \<Rightarrow> settings \<Rightarrow> (hedge_analysis \<Rightarrow> bool) \<Rightarrow> bool" where
  "hedged db settings P \<longleftrightarrow> (\<exists>lp short price a. latest_inputs db = Some (Some (lp, short, price))
     \<and> analyze settings lp short price = Some a \<and> P a)"

definition over_budget :: "settings \<Rightarrow> quota_summary \<Rightarrow> bool" where
  "over_budget settings s \<longleftrightarrow> (\<exists>limit used. qs_credit_limit s = Some limit \<and> limit \<noteq> 0
     \<and> ddiv 28 (dint (qs_month_credits s)) (dint limit) = Some used \<and> dle (quota_alert_used_pct settings) used)"

definition due :: "store \<Rightarrow> settings \<Rightarrow> instant \<Rightarrow> (string \<times> string) list option \<Rightarrow> string \<Rightarrow> bool" where
  "due db settings now health rule \<longleftrightarrow>
     rule = ''naked-lp'' \<and> hedged db settings (\<lambda>a. NakedLp \<in> set (flags a))
   \<or> rule = ''price-near-sl'' \<and> hedged db settings (\<lambda>a. PriceNearSl \<in> set (flags a))
   \<or> rule = ''near-band-edge'' \<and> hedged db settings (\<lambda>a. NearBandEdge \<in> set (flags a))
   \<or> rule = ''rebalance-needed'' \<and> hedged db settings rebalance_needed
   \<or> rule = ''snapshot-stale'' \<and> (\<forall>r \<in> set (snapshots db). minutes (snapshot_staleness_minutes settings + 1) \<le> now - s_ts r)
   \<or> rule = ''quota-critical'' \<and> (\<exists>ss. summaries db now = Inr ss \<and> (\<exists>s \<in> set ss. over_budget settings s))
   \<or> rule = ''healthcheck-degraded'' \<and> (\<exists>h. health = Some h \<and> (\<exists>c \<in> set h. snd c \<noteq> ''ok''))"

lemma append_if_rules:
  assumes "append_if c x xs = Some ys" "\<And>a. x = Some a \<Longrightarrow> at_rule a = r"
  shows "at_rule ` set ys = at_rule ` set xs \<union> (if c then {r} else {})"
  using assms by (auto simp: append_if_def split: if_splits)

lemma hedge_alert_rules:
  "naked_lp_alert a b = Some x \<Longrightarrow> at_rule x = ''naked-lp''"
  "near_sl_alert a b = Some x \<Longrightarrow> at_rule x = ''price-near-sl''"
  "near_edge_alert a b = Some x \<Longrightarrow> at_rule x = ''near-band-edge''"
  "rebalance_alert settings a b = Some x \<Longrightarrow> at_rule x = ''rebalance-needed''"
  by (auto simp: naked_lp_alert_def near_sl_alert_def near_edge_alert_def rebalance_alert_def bind_eq_Some_conv)

lemma hedge_alerts_rules:
  assumes "hedge_alerts db settings = Some xs"
  shows "at_rule ` set xs =
     (if hedged db settings (\<lambda>a. NakedLp \<in> set (flags a)) then {''naked-lp''} else {})
   \<union> (if hedged db settings (\<lambda>a. PriceNearSl \<in> set (flags a)) then {''price-near-sl''} else {})
   \<union> (if hedged db settings (\<lambda>a. NearBandEdge \<in> set (flags a)) then {''near-band-edge''} else {})
   \<union> (if hedged db settings rebalance_needed then {''rebalance-needed''} else {})"
proof -
  obtain inputs where i: "latest_inputs db = Some inputs" using assms by (auto simp: hedge_alerts_def bind_eq_Some_conv)
  show ?thesis
  proof (cases inputs)
    case None
    with assms i show ?thesis by (simp add: hedge_alerts_def hedged_def)
  next
    case (Some t)
    obtain lp short price where t: "t = (lp, short, price)" by (cases t) auto
    obtain a b a1 a2 a3 where s: "analyze settings lp short price = Some a"
      "append_if (NakedLp \<in> set (flags a)) (naked_lp_alert a b) [] = Some a1"
      "append_if (PriceNearSl \<in> set (flags a)) (near_sl_alert a b) a1 = Some a2"
      "append_if (NearBandEdge \<in> set (flags a)) (near_edge_alert a b) a2 = Some a3"
      "append_if (rebalance_needed a) (rebalance_alert settings a b) a3 = Some xs"
      using assms i Some t by (auto simp: hedge_alerts_def bind_eq_Some_conv)
    have h: "hedged db settings P = P a" for P using i Some t s(1) by (simp add: hedged_def)
    have "at_rule ` set a1 = at_rule ` set ([] :: alert list) \<union> (if NakedLp \<in> set (flags a) then {''naked-lp''} else {})"
      by (rule append_if_rules [OF s(2)]) (rule hedge_alert_rules)
    moreover have "at_rule ` set a2 = at_rule ` set a1 \<union> (if PriceNearSl \<in> set (flags a) then {''price-near-sl''} else {})"
      by (rule append_if_rules [OF s(3)]) (rule hedge_alert_rules)
    moreover have "at_rule ` set a3 = at_rule ` set a2 \<union> (if NearBandEdge \<in> set (flags a) then {''near-band-edge''} else {})"
      by (rule append_if_rules [OF s(4)]) (rule hedge_alert_rules)
    moreover have "at_rule ` set xs = at_rule ` set a3 \<union> (if rebalance_needed a then {''rebalance-needed''} else {})"
      by (rule append_if_rules [OF s(5)]) (rule hedge_alert_rules)
    ultimately show ?thesis by (simp only: h list.set image_empty Un_empty_left)
  qed
qed

lemma staleness_alert_due:
  "staleness_alert db settings now \<noteq> None \<longleftrightarrow>
     (\<forall>r \<in> set (snapshots db). minutes (snapshot_staleness_minutes settings + 1) \<le> now - s_ts r)"
proof (cases "newest_snapshot_ts db")
  case None
  then have "snapshots db = []" by (simp add: newest_snapshot_ts_def split: list.splits)
  with None show ?thesis by (simp add: staleness_alert_def)
next
  case (Some t)
  then have t: "t \<in> s_ts ` set (snapshots db)" "\<forall>r \<in> set (snapshots db). s_ts r \<le> t" by (simp_all add: newest_snapshot_ts_Some)
  have "\<not> (now - t) div minutes 1 \<le> n \<longleftrightarrow> minutes (n + 1) \<le> now - t" for n
  proof -
    have "60000000 * ((now - t) div 60000000) + (now - t) mod 60000000 = now - t" by simp
    moreover have "0 \<le> (now - t) mod 60000000" "(now - t) mod 60000000 < 60000000" by simp_all
    ultimately show ?thesis unfolding minutes_def by (simp del: minus_mod_eq_mult_div mult_div_mod_eq) linarith
  qed
  from this [of "snapshot_staleness_minutes settings"]
  have "staleness_alert db settings now \<noteq> None \<longleftrightarrow> minutes (snapshot_staleness_minutes settings + 1) \<le> now - t"
    by (auto simp: staleness_alert_def Let_def Some)
  also have "\<dots> \<longleftrightarrow> (\<forall>r \<in> set (snapshots db). minutes (snapshot_staleness_minutes settings + 1) \<le> now - s_ts r)"
  proof
    assume "minutes (snapshot_staleness_minutes settings + 1) \<le> now - t"
    with t(2) show "\<forall>r \<in> set (snapshots db). minutes (snapshot_staleness_minutes settings + 1) \<le> now - s_ts r" by fastforce
  next
    assume "\<forall>r \<in> set (snapshots db). minutes (snapshot_staleness_minutes settings + 1) \<le> now - s_ts r"
    with t(1) show "minutes (snapshot_staleness_minutes settings + 1) \<le> now - t" by blast
  qed
  finally show ?thesis .
qed

lemma staleness_alert_rule: "staleness_alert db settings now = Some a \<Longrightarrow> at_rule a = ''snapshot-stale''"
  by (auto simp: staleness_alert_def stale_alert_def Let_def split: option.splits if_splits)

lemma quota_alert_due:
  assumes "quota_alert pr settings s = Some x"
  shows "at_rule ` set_option x = (if over_budget settings s then {''quota-critical''} else {})"
  using assms
  by (auto simp: quota_alert_def over_budget_def bind_eq_Some_conv split: option.splits if_splits)

lemma quota_alert_list_due:
  "quota_alert_list pr settings ss = Some xs \<Longrightarrow>
     at_rule ` set xs = (if \<exists>s \<in> set ss. over_budget settings s then {''quota-critical''} else {})"
proof (induction ss arbitrary: xs)
  case (Cons s ss)
  then obtain x rest where x: "quota_alert pr settings s = Some x" "quota_alert_list pr settings ss = Some rest"
    "xs = (case x of None \<Rightarrow> rest | Some y \<Rightarrow> y # rest)" by (auto simp: bind_eq_Some_conv)
  have "at_rule ` set xs = at_rule ` set_option x \<union> at_rule ` set rest" using x(3) by (cases x) auto
  with quota_alert_due [OF x(1)] Cons.IH [OF x(2)] show ?case by auto
qed simp

lemma health_alert_due: "at_rule ` set (option_list (health_alert h)) = (if \<exists>c \<in> set h. snd c \<noteq> ''ok'' then {''healthcheck-degraded''} else {})"
proof -
  have "filter (\<lambda>(name, result). result \<noteq> ''ok'') h = [] \<longleftrightarrow> \<not> (\<exists>c \<in> set h. snd c \<noteq> ''ok'')"
    by (auto simp: filter_empty_conv)
  then show ?thesis by (simp add: health_alert_def option_list_def Let_def)
qed

text \<open>C16. The rule table: when evaluation returns, the rules that fired are exactly the rules due by the
  recorded state: the hedge rules by the analysis of the newest recorded state, staleness when every
  snapshot is at least a minute older than the limit, the quota rule when some provider's monthly share
  reaches the threshold, the health rule when some check failed.\<close>

theorem rules_fire_when_due:
  assumes "evaluate pct_repr db settings now health = Inr alerts"
  shows "(\<exists>a \<in> set alerts. at_rule a = rule) \<longleftrightarrow> due db settings now health rule"
proof -
  obtain hedge ss quota where e: "hedge_alerts db settings = Some hedge" "summaries db now = Inr ss"
    "quota_alert_list pct_repr settings ss = Some quota"
    "alerts = hedge @ option_list (staleness_alert db settings now) @ quota
       @ (case health of None \<Rightarrow> [] | Some h \<Rightarrow> option_list (health_alert h))"
    using assms by (auto simp: evaluate_def quota_alerts_def or_python_def split: option.splits sum.splits)
  have s: "at_rule ` set (option_list (staleness_alert db settings now)) = (if staleness_alert db settings now = None then {} else {''snapshot-stale''})"
    using staleness_alert_rule by (auto simp: option_list_def split: option.splits)
  have h: "at_rule ` set (case health of None \<Rightarrow> [] | Some h \<Rightarrow> option_list (health_alert h))
      = (if \<exists>h. health = Some h \<and> (\<exists>c \<in> set h. snd c \<noteq> ''ok'') then {''healthcheck-degraded''} else {})"
    by (cases health) (simp_all add: health_alert_due)
  have q: "(\<exists>ss. summaries db now = Inr ss \<and> (\<exists>s \<in> set ss. over_budget settings s)) \<longleftrightarrow> (\<exists>s \<in> set ss. over_budget settings s)"
    using e(2) by simp
  have one: "rule \<in> (if c then {r} else {}) \<longleftrightarrow> rule = r \<and> c" "rule \<in> (if c then {} else {r}) \<longleftrightarrow> rule = r \<and> \<not> c" for c and r :: string
    by simp_all
  have "(\<exists>a \<in> set alerts. at_rule a = rule) \<longleftrightarrow> rule \<in> at_rule ` set alerts" by (auto simp only: image_iff)
  also have "\<dots> \<longleftrightarrow> due db settings now health rule"
    unfolding e(4) set_append image_Un hedge_alerts_rules [OF e(1)] s h quota_alert_list_due [OF e(3)] due_def Un_iff one q
      staleness_alert_due [symmetric] by (simp only: disj_assoc)
  finally show ?thesis .
qed

lemma rules_fire_when_due_witness:
  "\<exists>alerts. evaluate (\<lambda>_. ''0.0'') empty_store default_settings 0 (Some [(''db_integrity'', ''ok''), (''secrets_present'', ''missing'')]) = Inr alerts
     \<and> (\<exists>a \<in> set alerts. at_rule a = ''healthcheck-degraded'') \<and> \<not> (\<exists>a \<in> set alerts. at_rule a = ''naked-lp'')"
proof -
  let ?h = "Some [(''db_integrity'', ''ok''), (''secrets_present'', ''missing'')]"
  have l: "latest_inputs empty_store = Some None" by (simp add: latest_inputs_def newest_open_state_def empty_store_def)
  have q: "summaries empty_store 0 = Inr []" by (simp add: summaries_def empty_store_def)
  have "hedge_alerts empty_store default_settings = Some []" by (simp add: hedge_alerts_def l)
  then obtain alerts where a: "evaluate (\<lambda>_. ''0.0'') empty_store default_settings 0 ?h = Inr alerts"
    by (simp add: evaluate_def quota_alerts_def q or_python_def)
  have "due empty_store default_settings 0 ?h ''healthcheck-degraded''" by (simp add: due_def)
  moreover have "\<not> due empty_store default_settings 0 ?h ''naked-lp''" by (simp add: due_def hedged_def l)
  ultimately show ?thesis using a rules_fire_when_due [OF a] by blast
qed

section \<open>Cooldown\<close>

lemma cooling_iff:
  "cooling db settings now a \<longleftrightarrow>
     (\<exists>r \<in> set (alerts_log db). al_rule r = at_rule a \<and> now - al_ts r < minutes (alert_cooldown_minutes settings))"
proof (cases "firings (at_rule a) db")
  case Nil
  then show ?thesis by (auto simp: cooling_def latest_def firings_def filter_empty_conv)
next
  case (Cons t ts)
  have e: "r \<in> set (alerts_log db) \<and> al_rule r = at_rule a \<Longrightarrow> al_ts r \<in> set (t # ts)" for r
    unfolding Cons [symmetric] by (auto simp: firings_def)
  have "foldl max t ts \<in> set (firings (at_rule a) db)" using foldl_max_in [of t ts] Cons by simp
  then obtain r where r: "r \<in> set (alerts_log db)" "al_rule r = at_rule a" "al_ts r = foldl max t ts"
    by (auto simp: firings_def)
  have "al_ts q \<le> foldl max t ts" if "q \<in> set (alerts_log db)" "al_rule q = at_rule a" for q
    using e [of q] that foldl_max_ge [of t ts] by auto
  with r show ?thesis by (fastforce simp: cooling_def latest_def Cons)
qed

text \<open>Two firings of a rule are of the same check or at least a cooldown apart, and none is in the future.\<close>

definition spaced :: "duration \<Rightarrow> alert_row list \<Rightarrow> bool" where
  "spaced w rows \<longleftrightarrow> (\<forall>r \<in> set rows. \<forall>s \<in> set rows. al_rule r = al_rule s \<longrightarrow> al_ts r \<noteq> al_ts s \<longrightarrow> w \<le> \<bar>al_ts r - al_ts s\<bar>)"

definition stamped_by :: "instant \<Rightarrow> alert_row list \<Rightarrow> bool" where
  "stamped_by now rows \<longleftrightarrow> (\<forall>r \<in> set rows. al_ts r \<le> now)"

lemma spaced_append:
  assumes "spaced w rows" "stamped_by now rows" "\<forall>r \<in> set new. al_ts r = now"
    "\<forall>r \<in> set new. \<forall>s \<in> set rows. al_rule s = al_rule r \<longrightarrow> w \<le> now - al_ts s"
  shows "spaced w (rows @ new) \<and> stamped_by now (rows @ new)"
  using assms unfolding spaced_def stamped_by_def set_append by (simp add: ball_Un) (metis abs_minus_commute abs_of_nonneg diff_ge_0_iff_ge)

end
