(* ===== verification/Dashboard.thy ===== *)
theory Dashboard
  imports Alerts "HOL-Library.Sublist"
begin

text \<open>
  \<open>dashboard/read.py\<close>, \<open>dashboard/app.py\<close> and the socket-free parts of \<open>dashboard/server.py\<close>: the read-only views of
  the store, the router over them, the fan-out of events to subscribers and the watcher of the snapshots
  table. Joins without an order yield the rows of \<open>positions\<close> in their order.
\<close>

section \<open>Panels\<close>

definition panel_kinds :: "(string \<times> position_kind list) list" where
  "panel_kinds = [(''lp'', [KLp]), (''hedge'', [KPerp]), (''defi'', [KLend, KBorrow]), (''holdings'', [KHolding])]"

definition default_stale_after :: duration where
  "default_stale_after = seconds 300"

text \<open>The newest snapshot of a kind, and its age.\<close>

definition source_staleness :: "store \<Rightarrow> instant \<Rightarrow> string \<Rightarrow> (instant \<times> duration) option" where
  "source_staleness db now kind =
     map_option (\<lambda>t. (t, now - t)) (latest (map s_ts (filter (\<lambda>s. s_kind s = kind) (snapshots db))))"

record panel_entry =
  pe_kind :: position_kind
  pe_external :: string
  pe_as_of :: instant
  pe_state :: dict

definition observed_of :: "nat \<Rightarrow> event_row \<Rightarrow> bool" where
  "observed_of pid e \<longleftrightarrow> e_position e = pid \<and> e_type e = EObserved"

definition entry_of :: "store \<Rightarrow> position_row \<Rightarrow> panel_entry option" where
  "entry_of db p =
     map_option (\<lambda>e. \<lparr>pe_kind = p_kind p, pe_external = p_external p, pe_as_of = e_ts e, pe_state = e_state e\<rparr>)
       (newest (observed_of (p_id p)) (position_events db))"

definition latest_entries :: "store \<Rightarrow> position_kind list \<Rightarrow> panel_entry list" where
  "latest_entries db kinds =
     List.map_filter (entry_of db) (filter (\<lambda>p. p_closed_at p = None \<and> p_kind p \<in> set kinds) (positions db))"

record source_panel =
  pn_kind :: string
  pn_as_of :: "instant option"
  pn_staleness :: "duration option"
  pn_stale :: bool
  pn_entries :: "panel_entry list"

definition panel_of :: "store \<Rightarrow> instant \<Rightarrow> duration \<Rightarrow> string \<times> position_kind list \<Rightarrow> source_panel" where
  "panel_of db now stale_after pk =
     (let s = source_staleness db now (fst pk)
      in \<lparr>pn_kind = fst pk, pn_as_of = map_option fst s, pn_staleness = map_option snd s,
          pn_stale = (case s of None \<Rightarrow> True | Some (_, age) \<Rightarrow> stale_after < age),
          pn_entries = latest_entries db (snd pk)\<rparr>)"

definition latest_view :: "store \<Rightarrow> instant \<Rightarrow> duration \<Rightarrow> source_panel list" where
  "latest_view db now stale_after = map (panel_of db now stale_after) panel_kinds"

section \<open>History\<close>

definition history_fields :: "(string \<times> position_kind \<times> string list) list" where
  "history_fields =
     [(''lp'', KLp, [''price_usd'', ''token0_price_usd'', ''token1_price_usd'', ''pool_volume_usd_24h'', ''liquidity'',
         ''amount0'', ''amount1'', ''tokens_owed0'', ''tokens_owed1'', ''pool_tick'']),
      (''perp'', KPerp, [''mark_price'', ''entry_price'', ''liquidation_price'', ''size_usd'', ''size_tokens'',
         ''collateral_usd'', ''leverage'', ''pnl'', ''pending_funding_fees_usd'', ''pending_borrowing_fees_usd''])]"

definition history_limit :: nat where
  "history_limit = 500"

text \<open>\<open>str\<close> of a decoded value: \<open>repr\<close> stands for that of a container.\<close>

definition point_value :: "(json \<Rightarrow> string) \<Rightarrow> dict \<Rightarrow> string \<Rightarrow> string option" where
  "point_value repr state field =
     (case get_default state field JNull of JNull \<Rightarrow> None | v \<Rightarrow> Some (case str_of v of Some s \<Rightarrow> s | None \<Rightarrow> repr v))"

definition history_rows :: "store \<Rightarrow> position_kind \<Rightarrow> string option \<Rightarrow> event_row list" where
  "history_rows db kind since =
     filter (\<lambda>e. e_type e = EObserved \<and> list_ex (\<lambda>p. p_id p = e_position e \<and> p_kind p = kind) (positions db)
        \<and> (case since of Some (c # cs) \<Rightarrow> c # cs \<le> iso_text (e_ts e) | _ \<Rightarrow> True))
       (position_events db)"

text \<open>\<open>None\<close>: a field that is not on the list raises.\<close>

definition history :: "(json \<Rightarrow> string) \<Rightarrow> store \<Rightarrow> string \<Rightarrow> string \<Rightarrow> string option \<Rightarrow> nat \<Rightarrow> (instant \<times> string option) list option" where
  "history repr db kind field since limit =
     (case map_of history_fields kind of
        None \<Rightarrow> None
      | Some (pk, allowed) \<Rightarrow>
          if field \<notin> set allowed then None
          else Some (map (\<lambda>e. (e_ts e, point_value repr (e_state e) field)) (take limit (history_rows db pk since))))"

section \<open>Derived metrics\<close>

text \<open>The decimal of a float's \<open>str\<close>, for a number of microseconds read as seconds: trailing zeros gone but one.\<close>

fun trim_zeros :: "nat \<Rightarrow> nat \<Rightarrow> nat \<times> nat" where
  "trim_zeros n 0 = (n, 0)"
| "trim_zeros n (Suc k) = (if n mod 10 = 0 then trim_zeros (n div 10) k else (n, Suc k))"

definition seconds_decimal :: "nat \<Rightarrow> decimal" where
  "seconds_decimal us = (let (n, k) = trim_zeros us 5 in Dec False n (- int k - 1))"

datatype run_rate_reason = TooFewSamples | FeeNotRecorded | NonPositiveInterval

definition open_observed :: "position_kind \<Rightarrow> store \<Rightarrow> event_row \<Rightarrow> bool" where
  "open_observed kind db e \<longleftrightarrow> e_type e = EObserved
     \<and> list_ex (\<lambda>p. p_id p = e_position e \<and> p_kind p = kind \<and> p_closed_at p = None) (positions db)"

text \<open>Of the two newest samples of the open perpetuals; the outer \<open>None\<close> raises.\<close>

definition funding_run_rate :: "store \<Rightarrow> (run_rate_reason + decimal) option" where
  "funding_run_rate db =
     (case rev (filter (open_observed KPerp db) (position_events db)) of
        new # old # _ \<Rightarrow>
          (case (get_default (e_state new) ''pending_funding_fees_usd'' JNull, get_default (e_state old) ''pending_funding_fees_usd'' JNull) of
             (JNull, _) \<Rightarrow> Some (Inl FeeNotRecorded)
           | (_, JNull) \<Rightarrow> Some (Inl FeeNotRecorded)
           | (f_new, f_old) \<Rightarrow>
               if e_ts new \<le> e_ts old then Some (Inl NonPositiveInterval)
               else (case (decimal_of f_new, decimal_of f_old) of
                       (Some a, Some b) \<Rightarrow>
                         map_option (\<lambda>q. Inr (dmul 28 q (dint 86400)))
                           (ddiv 28 (dsub 28 a b) (seconds_decimal (nat (e_ts new - e_ts old))))
                     | _ \<Rightarrow> None))
      | _ \<Rightarrow> Some (Inl TooFewSamples))"

definition analysis_dict :: "hedge_analysis \<Rightarrow> dict" where
  "analysis_dict a =
     [(''price_usd'', dec_json (a_price_usd a)), (''quadrant'', JStr (quadrant_name (a_quadrant a))),
      (''range_position_pct'', opt_json dec_json (range_position_pct a)), (''floor_price'', dec_json (floor_price a)),
      (''ceiling_price'', dec_json (ceiling_price a)), (''q4_profit_take_price'', dec_json (q4_profit_take_price a)),
      (''q1_q2_boundary_price'', dec_json (q1_q2_boundary_price a)), (''lp_delta_eth'', dec_json (lp_delta_eth a)),
      (''lp_delta_max_eth'', dec_json (lp_delta_max_eth a)), (''lp_value_usd'', dec_json (lp_value_usd a)),
      (''short_size_eth'', dec_json (short_size_eth a)), (''coverage_ratio_eth'', opt_json dec_json (coverage_ratio_eth a)),
      (''coverage_notional_pct'', opt_json dec_json (coverage_notional_pct a)),
      (''delta_matched_target_eth'', dec_json (delta_matched_target_eth a)),
      (''break_even_short_size'', opt_json dec_json (break_even_short_size a)),
      (''rebalance_needed'', JBool (rebalance_needed a)), (''distance_to_floor_pct'', dec_json (distance_to_floor_pct a)),
      (''distance_to_ceiling_pct'', dec_json (distance_to_ceiling_pct a)),
      (''distance_to_sl_pct'', opt_json dec_json (distance_to_sl_pct a)),
      (''premium_if_sl_fires'', opt_json dec_json (premium_if_sl_fires a)),
      (''flags'', JArr (map (\<lambda>f. JStr (flag_name f)) (flags a)))]"

text \<open>The combined profit is never derivable and always null, so it is left out.\<close>

record derived_view =
  dv_analysis :: dict
  dv_hedge_upnl_usd :: "string option"
  dv_run_rate :: "run_rate_reason + decimal"

text \<open>The outer \<open>None\<close> raises.\<close>

definition derived :: "(json \<Rightarrow> string) \<Rightarrow> store \<Rightarrow> settings \<Rightarrow> derived_view option option" where
  "derived repr db settings =
     (case latest_inputs db of
        None \<Rightarrow> None
      | Some None \<Rightarrow> Some None
      | Some (Some (lp, short, price)) \<Rightarrow>
          (case (analyze settings lp short price, funding_run_rate db) of
             (Some a, Some rate) \<Rightarrow>
               Some (Some \<lparr>dv_analysis = analysis_dict a,
                  dv_hedge_upnl_usd = Option.bind (newest_open_state KPerp db) (\<lambda>perp. point_value repr perp ''pnl''),
                  dv_run_rate = rate\<rparr>)
           | _ \<Rightarrow> None))"

section \<open>Routes\<close>

datatype route_body =
    PageBody
  | EchartsBody
  | LatestBody "source_panel list"
  | DerivedBody "derived_view option"
  | HistoryBody "(instant \<times> string option) list"
  | ErrorBody dict

record route_result =
  rr_status :: int
  rr_content_type :: string
  rr_body :: route_body
  rr_headers :: "(string \<times> string) list"

definition json_result :: "route_body \<Rightarrow> int \<Rightarrow> route_result" where
  "json_result body status =
     \<lparr>rr_status = status, rr_content_type = ''application/json; charset=utf-8'', rr_body = body, rr_headers = []\<rparr>"

text \<open>\<open>None\<close> raises; \<open>quoted\<close> stands for \<open>repr\<close> of a string in the error text.\<close>

definition route :: "(json \<Rightarrow> string) \<Rightarrow> (string \<Rightarrow> string) \<Rightarrow> string \<Rightarrow> (string \<rightharpoonup> string) \<Rightarrow> store \<Rightarrow> settings \<Rightarrow> instant \<Rightarrow> route_result option" where
  "route repr quoted path query db settings now =
     (if path = ''/'' then Some \<lparr>rr_status = 200, rr_content_type = ''text/html; charset=utf-8'', rr_body = PageBody, rr_headers = []\<rparr>
      else if path = ''/static/echarts.min.js''
      then Some \<lparr>rr_status = 200, rr_content_type = ''application/javascript; charset=utf-8'', rr_body = EchartsBody,
                 rr_headers = [(''Content-Encoding'', ''gzip''), (''Cache-Control'', ''max-age=86400'')]\<rparr>
      else if path = ''/api/latest'' then Some (json_result (LatestBody (latest_view db now default_stale_after)) 200)
      else if path = ''/api/derived'' then map_option (\<lambda>v. json_result (DerivedBody v) 200) (derived repr db settings)
      else if path = ''/api/history''
      then let kind = (case query ''kind'' of None \<Rightarrow> [] | Some k \<Rightarrow> k);
               field = (case query ''field'' of None \<Rightarrow> [] | Some f \<Rightarrow> f)
           in Some (case history repr db kind field (query ''since'') history_limit of
                None \<Rightarrow> json_result (ErrorBody [(''error'', JStr (''field '' @ quoted field @ '' not chartable for kind '' @ quoted kind))]) 400
              | Some points \<Rightarrow> json_result (HistoryBody points) 200)
      else Some (json_result (ErrorBody [(''error'', JStr ''not found''), (''path'', JStr path)]) 404))"

section \<open>Export\<close>

definition export_series :: "(string \<times> string) list" where
  "export_series = [(''lp'', ''price_usd''), (''perp'', ''mark_price''), (''perp'', ''size_tokens''), (''lp'', ''pool_volume_usd_24h''),
     (''perp'', ''pending_funding_fees_usd'')]"

record bootstrap =
  bo_latest :: "source_panel list"
  bo_derived :: "derived_view option"
  bo_history :: "(string \<times> (instant \<times> string option) list) list"

definition export_bootstrap :: "(json \<Rightarrow> string) \<Rightarrow> store \<Rightarrow> settings \<Rightarrow> instant \<Rightarrow> bootstrap option" where
  "export_bootstrap repr db settings now =
     map_option (\<lambda>dv. \<lparr>bo_latest = latest_view db now default_stale_after, bo_derived = dv,
         bo_history = map (\<lambda>(kind, field). (kind @ ''.'' @ field,
            case history repr db kind field None history_limit of None \<Rightarrow> [] | Some points \<Rightarrow> points)) export_series\<rparr>)
       (derived repr db settings)"

section \<open>The panels are honest\<close>

lemma latest_max: "latest ts = Some t \<Longrightarrow> t \<in> set ts \<and> (\<forall>u \<in> set ts. u \<le> t)"
proof (cases ts)
  case (Cons u us)
  assume "latest ts = Some t"
  then show ?thesis using foldl_max_ge [of u us] foldl_max_in [of u us] by (auto simp: Cons latest_def)
qed (simp add: latest_def)

text \<open>A panel is shown as fresh exactly when the newest snapshot of its source is young enough: a source that never
  recorded is stale, and the time shown is that of a recorded snapshot, no other of the source being newer.\<close>

theorem panels_honest:
  "list_all (\<lambda>p. case pn_as_of p of
       None \<Rightarrow> pn_stale p \<and> pn_staleness p = None \<and> list_all (\<lambda>s. s_kind s \<noteq> pn_kind p) (snapshots db)
     | Some t \<Rightarrow> pn_stale p = (stale_after < now - t) \<and> pn_staleness p = Some (now - t)
         \<and> list_ex (\<lambda>s. s_kind s = pn_kind p \<and> s_ts s = t) (snapshots db)
         \<and> list_all (\<lambda>s. s_ts s \<le> t) (filter (\<lambda>s. s_kind s = pn_kind p) (snapshots db)))
     (latest_view db now stale_after)"
proof -
  have "case pn_as_of p of
       None \<Rightarrow> pn_stale p \<and> pn_staleness p = None \<and> list_all (\<lambda>s. s_kind s \<noteq> pn_kind p) (snapshots db)
     | Some t \<Rightarrow> pn_stale p = (stale_after < now - t) \<and> pn_staleness p = Some (now - t)
         \<and> list_ex (\<lambda>s. s_kind s = pn_kind p \<and> s_ts s = t) (snapshots db)
         \<and> list_all (\<lambda>s. s_ts s \<le> t) (filter (\<lambda>s. s_kind s = pn_kind p) (snapshots db))"
    if p: "p = panel_of db now stale_after pk" for p pk
  proof (cases "latest (map s_ts (filter (\<lambda>s. s_kind s = fst pk) (snapshots db)))")
    case None
    then have "filter (\<lambda>s. s_kind s = fst pk) (snapshots db) = []" by (auto simp: latest_def split: list.splits)
    with None show ?thesis by (simp add: p panel_of_def source_staleness_def Let_def filter_empty_conv list_all_iff)
  next
    case (Some t)
    from latest_max [OF Some] show ?thesis
      using Some by (auto simp: p panel_of_def source_staleness_def Let_def list_all_iff list_ex_iff)
  qed
  then show ?thesis by (simp add: latest_view_def list_all_iff)
qed

section \<open>Charts\<close>

text \<open>What every writer of the position tables leaves: the old events first, the old rows under their ids and kinds.\<close>

definition extends :: "store \<Rightarrow> store \<Rightarrow> bool" where
  "extends db db1 \<longleftrightarrow> (\<exists>events rows f. position_events db1 = position_events db @ events \<and> positions db1 = map f (positions db) @ rows
     \<and> (\<forall>r. p_id (f r) = p_id r \<and> p_kind (f r) = p_kind r) \<and> (\<forall>r \<in> set rows. p_id r \<notin> p_id ` set (positions db)))"

lemma extendsI:
  "position_events db1 = position_events db @ events \<Longrightarrow> positions db1 = map f (positions db) \<Longrightarrow>
   (\<And>r. p_id (f r) = p_id r \<and> p_kind (f r) = p_kind r) \<Longrightarrow> extends db db1"
  unfolding extends_def by (intro exI [of _ events] exI [of _ "[]"] exI [of _ f]) simp

lemma extends_event: "extends db (insert_event p t ty de st db)"
  by (rule extendsI [where f = "\<lambda>r. r"]) (simp_all add: insert_event_def)

lemma extends_trans:
  assumes "extends a b" "extends b c"
  shows "extends a c"
proof -
  obtain e f r where 1: "position_events b = position_events a @ e" "positions b = map f (positions a) @ r"
    "\<forall>r. p_id (f r) = p_id r \<and> p_kind (f r) = p_kind r" "\<forall>q \<in> set r. p_id q \<notin> p_id ` set (positions a)"
    using assms(1) unfolding extends_def by blast
  obtain e' f' r' where 2: "position_events c = position_events b @ e'" "positions c = map f' (positions b) @ r'"
    "\<forall>r. p_id (f' r) = p_id r \<and> p_kind (f' r) = p_kind r" "\<forall>q \<in> set r'. p_id q \<notin> p_id ` set (positions b)"
    using assms(2) unfolding extends_def by blast
  have ids: "p_id ` set (positions a) \<subseteq> p_id ` set (positions b)" unfolding 1(2) using 1(3) by (auto simp: image_image image_Un)
  have "p_id q \<notin> p_id ` set (positions a)" if q: "q \<in> set (map f' r @ r')" for q
  proof (cases "q \<in> set r'")
    case True
    then show ?thesis using 2(4) ids by blast
  next
    case False
    then obtain q' where "q' \<in> set r" "q = f' q'" using q by auto
    then show ?thesis using 1(4) 2(3) by simp
  qed
  moreover have "positions c = map (f' \<circ> f) (positions a) @ map f' r @ r'" "position_events c = position_events a @ e @ e'"
    by (simp_all add: 1 2)
  moreover have "p_id ((f' \<circ> f) q) = p_id q \<and> p_kind ((f' \<circ> f) q) = p_kind q" for q using 1(3) 2(3) by simp
  ultimately show ?thesis unfolding extends_def by blast
qed

lemma extends_insert: "extends db (insert_position key g ts md db)"
proof -
  have "next_id (map p_id (positions db)) \<notin> p_id ` set (positions db)"
    using next_id_fresh [of "map p_id (positions db)"] by simp
  then show ?thesis
    unfolding extends_def by (intro exI [of _ "[]"] exI [of _ "drop (List.length (positions db)) (positions (insert_position key g ts md db))"] exI [of _ "\<lambda>r. r"])
      (simp add: insert_position_def)
qed

lemma extends_refl: "extends db db"
  by (rule extendsI [where f = "\<lambda>r. r"]) simp_all

lemma extends_upsert: "extends db (upsert_ignore key g ts db)" "extends db (upsert_metadata key g ts md db)"
proof -
  show "extends db (upsert_ignore key g ts db)" by (simp add: upsert_ignore_def extends_refl extends_insert)
  show "extends db (upsert_metadata key g ts md db)"
  proof (cases "key \<in> key_of ` set (positions db)")
    case True
    then show ?thesis
      by (intro extendsI [where f = "\<lambda>r. if key_of r = key then r\<lparr>p_metadata := Some md\<rparr> else r"]) (simp_all add: upsert_metadata_def)
  qed (simp add: upsert_metadata_def extends_insert)
qed

lemma extends_observed: "extends db u \<Longrightarrow> extends db (or_rollback db (insert_observed key ts st u))"
  by (auto simp: insert_observed_def or_rollback_def extends_refl split: option.split intro: extends_trans extends_event)

lemma extends_close: "extends db (close_position pid ts db)"
proof -
  have "extends (insert_event pid ts EFullClose [] [] db) (close_position pid ts db)"
    by (rule extendsI [where f = "\<lambda>r. if p_id r = pid then r\<lparr>p_closed_at := Some ts\<rparr> else r" and events = "[]"])
      (simp_all add: close_position_def Let_def)
  then show ?thesis using extends_event extends_trans by blast
qed

lemma extends_fold_close: "extends db (fold (\<lambda>r. close_position (p_id r) ts) rows db)"
proof (induction rows arbitrary: db)
  case (Cons r rows)
  show ?case using extends_trans [OF extends_close Cons] by simp
qed (simp add: extends_refl)

lemma step_extends: "extends db (position_step op db)"
proof (cases op)
  case (ObserveOp pid ts)
  then show ?thesis using observe_shape [of pid ts db] by (auto simp: extends_refl extends_event)
qed (auto simp: reconcile_closures_def Let_def intro: extends_observed extends_upsert extends_fold_close)

lemma run_extends: "extends db (run position_step ops db)"
proof (induction ops arbitrary: db)
  case (Cons op ops)
  show ?case using extends_trans [OF step_extends Cons] by simp
qed (simp add: extends_refl)

lemma history_rows_extends:
  assumes "extends db db1" "positions_ok db"
  shows "\<exists>more. history_rows db1 kind since = history_rows db kind since @ more"
proof -
  obtain e f r where x: "position_events db1 = position_events db @ e" "positions db1 = map f (positions db) @ r"
    "\<forall>r. p_id (f r) = p_id r \<and> p_kind (f r) = p_kind r" "\<forall>q \<in> set r. p_id q \<notin> p_id ` set (positions db)"
    using assms(1) unfolding extends_def by blast
  have same: "list_ex (\<lambda>p. p_id p = e_position v \<and> p_kind p = kind) (positions db1)
      = list_ex (\<lambda>p. p_id p = e_position v \<and> p_kind p = kind) (positions db)" if "v \<in> set (position_events db)" for v
  proof -
    have "e_position v \<in> p_id ` set (positions db)" using positions_okD(4) [OF assms(2) that] .
    then have "\<not> list_ex (\<lambda>p. p_id p = e_position v \<and> p_kind p = kind) r" using x(4) by (auto simp: list_ex_iff)
    then show ?thesis using x(3) by (simp add: x(2) list_ex_map_inv)
  qed
  have "filter (\<lambda>v. e_type v = EObserved \<and> list_ex (\<lambda>p. p_id p = e_position v \<and> p_kind p = kind) (positions db1)
        \<and> (case since of Some (c # cs) \<Rightarrow> c # cs \<le> iso_text (e_ts v) | _ \<Rightarrow> True)) (position_events db) = history_rows db kind since"
    unfolding history_rows_def by (rule filter_cong) (simp_all add: same)
  then show ?thesis by (auto simp: history_rows_def x(1))
qed

text \<open>A chart stops moving: the history returns the oldest rows up to its limit, so once a source has that many
  observations, whatever the recorders write afterwards the answer stays the same.\<close>

theorem history_freezes_at_its_limit:
  assumes "positions_ok db" "map_of history_fields kind = Some (pk, listed)" "limit \<le> List.length (history_rows db pk since)"
  shows "history repr (run position_step ops db) kind field since limit = history repr db kind field since limit"
proof -
  obtain more where "history_rows (run position_step ops db) pk since = history_rows db pk since @ more"
    using history_rows_extends [OF run_extends assms(1)] by blast
  then show ?thesis using assms(2,3) by (simp add: history_def)
qed

definition charted :: store where
  "charted = run position_step [RecordMetadata sample_key ''lp_hedge'' 10 [] [(''pnl'', JStr ''1'')]] empty_store"

lemma charted_rows: "List.length (history_rows charted KPerp None) = 1"
  by (simp add: charted_def history_rows_def sample_key_def empty_store_def upsert_metadata_def insert_position_def next_id_def max_id_def
      insert_observed_def position_id_def key_of_def or_rollback_def insert_event_def)

lemma history_freezes_at_its_limit_witness:
  "history (\<lambda>_. []) (run position_step [RecordMetadata sample_key ''lp_hedge'' 20 [] [(''pnl'', JStr ''7'')]] charted) ''perp'' ''pnl'' None 1
   = history (\<lambda>_. []) charted ''perp'' ''pnl'' None 1 \<and> history (\<lambda>_. []) charted ''perp'' ''pnl'' None 1 = Some [(10, Some ''1'')]"
proof -
  have ok: "positions_ok charted" unfolding charted_def by (rule position_tables.run_inv [OF positions_ok_empty]) simp
  have listed: "map_of history_fields ''perp'' = Some (KPerp, snd (the (map_of history_fields ''perp'')))" by (simp add: history_fields_def)
  have "history (\<lambda>_. []) charted ''perp'' ''pnl'' None 1 = Some [(10, Some ''1'')]"
    by (simp add: history_def history_fields_def charted_def history_rows_def sample_key_def empty_store_def upsert_metadata_def
        insert_position_def next_id_def max_id_def insert_observed_def position_id_def key_of_def or_rollback_def insert_event_def
        point_value_def get_def get_default_def str_of_def)
  moreover have "history (\<lambda>_. []) (run position_step [RecordMetadata sample_key ''lp_hedge'' 20 [] [(''pnl'', JStr ''7'')]] charted) ''perp'' ''pnl'' None 1
      = history (\<lambda>_. []) charted ''perp'' ''pnl'' None 1"
    by (rule history_freezes_at_its_limit [OF ok listed]) (simp add: charted_rows)
  ultimately show ?thesis by simp
qed

section \<open>Subscribers\<close>

text \<open>The queues of the subscribers, oldest event first.\<close>

record broadcaster =
  bc_queues :: "(nat \<times> string list) list"
  bc_next :: nat

definition queue_size :: nat where
  "queue_size = 16"

definition new_broadcaster :: broadcaster where
  "new_broadcaster = \<lparr>bc_queues = [], bc_next = 0\<rparr>"

definition subscribe :: "broadcaster \<Rightarrow> nat \<times> broadcaster" where
  "subscribe b = (bc_next b, b\<lparr>bc_queues := bc_queues b @ [(bc_next b, [])], bc_next := Suc (bc_next b)\<rparr>)"

definition unsubscribe :: "nat \<Rightarrow> broadcaster \<Rightarrow> broadcaster" where
  "unsubscribe i b = b\<lparr>bc_queues := filter (\<lambda>(j, _). j \<noteq> i) (bc_queues b)\<rparr>"

definition has_room :: "nat \<times> string list \<Rightarrow> bool" where
  "has_room q \<longleftrightarrow> List.length (snd q) < queue_size"

definition publish_event :: "string \<Rightarrow> broadcaster \<Rightarrow> nat \<times> broadcaster" where
  "publish_event event b =
     (List.length (filter has_room (bc_queues b)),
      b\<lparr>bc_queues := map (\<lambda>q. if has_room q then (fst q, snd q @ [event]) else q) (bc_queues b)\<rparr>)"

text \<open>A subscriber takes its oldest event.\<close>

definition take_event :: "nat \<Rightarrow> broadcaster \<Rightarrow> string option \<times> broadcaster" where
  "take_event i b =
     (Option.bind (map_of (bc_queues b) i) (\<lambda>es. case es of [] \<Rightarrow> None | e # _ \<Rightarrow> Some e),
      b\<lparr>bc_queues := map (\<lambda>(j, es). (j, if j = i then tl es else es)) (bc_queues b)\<rparr>)"

definition subscriber_count :: "broadcaster \<Rightarrow> nat" where
  "subscriber_count b = List.length (bc_queues b)"

datatype broadcast_op = Subscribe | Unsubscribe nat | Publish string | TakeEvent nat

fun broadcast_step :: "broadcast_op \<Rightarrow> broadcaster \<Rightarrow> broadcaster" where
  "broadcast_step Subscribe b = snd (subscribe b)"
| "broadcast_step (Unsubscribe i) b = unsubscribe i b"
| "broadcast_step (Publish e) b = snd (publish_event e b)"
| "broadcast_step (TakeEvent i) b = snd (take_event i b)"

fun published :: "broadcast_op list \<Rightarrow> string list" where
  "published [] = []"
| "published (Publish e # ops) = e # published ops"
| "published (_ # ops) = published ops"

text \<open>The writer never blocks: queues stay within their size, whoever does not read, and a subscriber sees events
  in the order they were published.\<close>

definition queue_ok :: "nat \<Rightarrow> string list \<Rightarrow> nat \<times> string list \<Rightarrow> bool" where
  "queue_ok n es q \<longleftrightarrow> fst q < n \<and> List.length (snd q) \<le> queue_size \<and> subseq (snd q) es"

definition broadcast_ok :: "string list \<Rightarrow> broadcaster \<Rightarrow> bool" where
  "broadcast_ok es b \<longleftrightarrow> list_all (queue_ok (bc_next b) es) (bc_queues b)"

lemma subseq_tl: "subseq q es \<Longrightarrow> subseq (tl q) es"
  by (cases q) (auto intro: subseq_Cons')

lemma queue_ok_map:
  assumes "list_all (queue_ok n es) qs" "\<And>q. queue_ok n es q \<Longrightarrow> queue_ok m fs (f q)"
  shows "list_all (queue_ok m fs) (map f qs)"
  using assms by (auto simp: list_all_iff)

lemma broadcast_step_ok:
  assumes "broadcast_ok es b"
  shows "broadcast_ok (es @ published [op]) (broadcast_step op b)"
proof (cases op)
  case Subscribe
  then show ?thesis using assms
    by (auto simp: broadcast_ok_def subscribe_def list_all_iff queue_ok_def queue_size_def less_Suc_eq)
next
  case (Unsubscribe i)
  then show ?thesis using assms by (auto simp: broadcast_ok_def unsubscribe_def list_all_iff)
next
  case (Publish e)
  have "queue_ok n (es @ [e]) (if has_room q then (fst q, snd q @ [e]) else q)" if "queue_ok n es q" for n q
    using that by (auto simp: queue_ok_def has_room_def queue_size_def subseq_rev_drop_many intro: list_emb_append_mono)
  with queue_ok_map assms show ?thesis by (simp add: Publish broadcast_ok_def publish_event_def)
next
  case (TakeEvent i)
  have "queue_ok n es (case q of (j, es) \<Rightarrow> (j, if j = i then tl es else es))" if "queue_ok n es q" for n q
    using that by (cases q) (auto simp: queue_ok_def intro: subseq_tl)
  with queue_ok_map assms show ?thesis by (simp add: TakeEvent broadcast_ok_def take_event_def)
qed

text \<open>However subscribers come, go, read or stall, no queue ever exceeds its size and every subscriber holds a
  subsequence of the events published, in their order.\<close>

theorem broadcasts_bounded_in_order:
  "list_all (\<lambda>(i, q). List.length q \<le> queue_size \<and> subseq q (published ops)) (bc_queues (run broadcast_step ops new_broadcaster))"
proof -
  have "broadcast_ok es b \<Longrightarrow> broadcast_ok (es @ published ops) (run broadcast_step ops b)" for es b
  proof (induction ops arbitrary: es b)
    case (Cons op ops)
    have "published (op # ops) = published [op] @ published ops" by (cases op) simp_all
    with Cons.IH [OF broadcast_step_ok [OF Cons.prems, of op]] show ?case by simp
  qed simp
  moreover have "broadcast_ok [] new_broadcaster" by (simp add: broadcast_ok_def new_broadcaster_def)
  ultimately have "broadcast_ok ([] @ published ops) (run broadcast_step ops new_broadcaster)" by blast
  then show ?thesis by (auto simp: broadcast_ok_def queue_ok_def list_all_iff)
qed

section \<open>The watcher of the snapshots table\<close>

text \<open>\<open>wt_max_id\<close> reads the largest snapshot id, \<open>wt_publish\<close> publishes an update.\<close>

record 'w watched =
  wt_max_id :: "'w \<Rightarrow> nat"
  wt_publish :: "'w \<Rightarrow> 'w"
  wt_sleep :: "'w \<Rightarrow> 'w"
  wt_stopped :: "'w \<Rightarrow> bool"

definition max_snapshot_id :: "store \<Rightarrow> nat" where
  "max_snapshot_id db = max_id (map s_id (snapshots db))"

definition watcher_ends :: "'w watched \<Rightarrow> nat option \<Rightarrow> nat \<Rightarrow> 'w \<Rightarrow> bool" where
  "watcher_ends wt max_ticks ticks w \<longleftrightarrow> wt_stopped wt w \<or> (case max_ticks of None \<Rightarrow> False | Some n \<Rightarrow> n \<le> ticks)"

text \<open>The counts are of updates published and of ticks; \<open>lastid\<close> is the id last seen.\<close>

partial_function (option) watcher_run :: "'w watched \<Rightarrow> nat option \<Rightarrow> nat \<Rightarrow> nat \<Rightarrow> nat \<Rightarrow> 'w \<Rightarrow> (nat \<times> nat \<times> 'w) option" where
  "watcher_run wt max_ticks lastid sent ticks w =
     (if watcher_ends wt max_ticks ticks w then Some (sent, lastid, w)
      else let current = wt_max_id wt w;
               w1 = (if lastid < current then wt_publish wt w else w)
           in watcher_run wt max_ticks (max lastid current) (if lastid < current then sent + 1 else sent) (ticks + 1)
                (if watcher_ends wt max_ticks (ticks + 1) w1 then w1 else wt_sleep wt w1))"

text \<open>A bounded watch ends, and publishes at most one update per tick and never more than new snapshot ids appeared.\<close>

theorem watcher_ends_and_counts:
  "\<exists>sent lastid w1. watcher_run wt (Some n) from_id 0 0 w = Some (sent, lastid, w1) \<and> sent \<le> n \<and> from_id + sent \<le> lastid"
proof -
  have "\<exists>sent' lastid' w1. watcher_run wt (Some n) lastid sent ticks w = Some (sent', lastid', w1)
      \<and> sent' \<le> sent + (n - ticks) \<and> lastid + sent' \<le> lastid' + sent" for lastid sent ticks w
  proof (induction "n - ticks" arbitrary: lastid sent ticks w)
    case 0
    then show ?case by (subst watcher_run.simps) (simp add: watcher_ends_def)
  next
    case (Suc k)
    show ?case
    proof (cases "watcher_ends wt (Some n) ticks w")
      case True
      then show ?thesis by (subst watcher_run.simps) simp
    next
      case False
      let ?c = "wt_max_id wt w"
      let ?w1 = "if lastid < ?c then wt_publish wt w else w"
      have k: "k = n - (ticks + 1)" using Suc.hyps(2) by simp
      obtain sent' lastid' w2 where r: "watcher_run wt (Some n) (max lastid ?c) (if lastid < ?c then sent + 1 else sent) (ticks + 1)
          (if watcher_ends wt (Some n) (ticks + 1) ?w1 then ?w1 else wt_sleep wt ?w1) = Some (sent', lastid', w2)"
        "sent' \<le> (if lastid < ?c then sent + 1 else sent) + (n - (ticks + 1))"
        "max lastid ?c + sent' \<le> lastid' + (if lastid < ?c then sent + 1 else sent)"
        using Suc.hyps(1) [OF k] by blast
      moreover have "sent' \<le> sent + (n - ticks)" "lastid + sent' \<le> lastid' + sent"
        using r(2,3) Suc.hyps(2) by (auto split: if_splits)
      ultimately show ?thesis using False by (subst watcher_run.simps) (simp add: Let_def)
    qed
  qed
  from this [of from_id 0 0 w] show ?thesis by simp
qed

section \<open>The run rate of two positions\<close>

text \<open>The two newest samples may be of different positions: two perpetuals whose fees never change, recorded a second
  apart, show the difference of their fees as a rate per day.\<close>

definition perp_row :: "nat \<Rightarrow> position_row" where
  "perp_row i = \<lparr>p_id = i, p_wallet = ''w'', p_venue = ''gmx'', p_chain = ''arbitrum'', p_kind = KPerp, p_external = nat_str i,
     p_group = ''lp_hedge'', p_opened_at = Some 0, p_closed_at = None, p_metadata = None\<rparr>"

definition perp_sample :: "nat \<Rightarrow> nat \<Rightarrow> instant \<Rightarrow> string \<Rightarrow> event_row" where
  "perp_sample i pid ts fees = \<lparr>e_id = i, e_position = pid, e_ts = ts, e_type = EObserved, e_delta = [],
     e_state = [(''pending_funding_fees_usd'', JStr fees)]\<rparr>"

definition two_perps :: store where
  "two_perps = empty_store\<lparr>positions := [perp_row 1, perp_row 2],
     position_events := [perp_sample 1 1 0 ''1'', perp_sample 2 2 1000000 ''2'', perp_sample 3 1 60000000 ''1'', perp_sample 4 2 61000000 ''2'']\<rparr>"

lemma run_rate_mixes_positions: "\<exists>r. funding_run_rate two_perps = Some (Inr r) \<and> dval r = 86400"
proof -
  have rows: "rev (filter (open_observed KPerp two_perps) (position_events two_perps))
      = [perp_sample 4 2 61000000 ''2'', perp_sample 3 1 60000000 ''1'', perp_sample 2 2 1000000 ''2'', perp_sample 1 1 0 ''1'']"
    by (simp add: two_perps_def open_observed_def perp_sample_def perp_row_def)
  have fees: "decimal_of (JStr ''2'') = Some (Dec False 2 0)" "decimal_of (JStr ''1'') = Some (Dec False 1 0)" by code_simp+
  have five: "trim_zeros 1000000 5 = trim_zeros 1000000 (Suc (Suc (Suc (Suc (Suc 0)))))" by (rule arg_cong) simp
  have dt: "seconds_decimal 1000000 = Dec False 10 (- 1)" unfolding seconds_decimal_def five by simp
  obtain q where q: "ddiv 28 (dsub 28 (Dec False 2 0) (Dec False 1 0)) (Dec False 10 (- 1)) = Some q"
    using ddiv_total [of "Dec False 10 (- 1)"] by (auto simp: dval_Dec)
  have ex: "rnd p x = x" if "x = real m * 10 powi e" "m < 10 ^ p" "0 < p" for p x m e
    using rnd_exact [OF that(2,3)] that(1) by simp
  have "dval (dsub 28 (Dec False 2 0) (Dec False 1 0)) = 1" by (simp add: dval_dsub dval_Dec ex [where m = 1 and e = 0])
  then have "dval q = 1" using dval_ddiv [OF _ q] by (simp add: dval_Dec power_int_def ex [where m = 1 and e = 0])
  then have "dval (dmul 28 q (dint 86400)) = 86400" by (simp add: dval_dmul ex [where m = 86400 and e = 0])
  moreover have "funding_run_rate two_perps = Some (Inr (dmul 28 q (dint 86400)))"
    unfolding funding_run_rate_def rows by (simp add: perp_sample_def get_default_def get_def fees dt q [simplified])
  ultimately show ?thesis by blast
qed

end
