(* ===== verification/Transport.thy ===== *)
theory Transport
  imports Quota
begin

text \<open>
  \<open>clients/base.py\<close>: the quota-gated, retrying HTTP transport with a circuit breaker. The HTTP client,
  the clock, the sleeper, the jitter, \<open>uuid4\<close> and the float arithmetic of latencies are parameters over
  an environment; a response carries what decoding its text yields. The result is \<open>None\<close> only when a
  wait for a slot does not return within \<open>fuel\<close> checks.
\<close>

section \<open>Parameters and state\<close>

record response =
  rs_status :: int
  rs_size :: nat
  rs_json :: "json option"
  rs_lines :: "json list option"

datatype http_method = GET | POST

record request =
  rq_method :: http_method
  rq_path :: string
  rq_params :: "dict option"
  rq_json :: "dict option"

record 'e outside =
  o_clock :: "'e \<Rightarrow> instant"
  o_sleep :: "duration \<Rightarrow> 'e \<Rightarrow> 'e"
  o_send :: "request \<Rightarrow> 'e \<Rightarrow> (string + response) \<times> 'e"
  o_jitter :: "duration \<Rightarrow> 'e \<Rightarrow> duration \<times> 'e"
  o_uuid :: "'e \<Rightarrow> string \<times> 'e"
  o_millis :: "duration \<Rightarrow> int"

record transport =
  tr_provider :: string
  tr_max_attempts :: nat
  tr_threshold :: nat
  tr_cooldown :: duration
  tr_failures :: nat
  tr_opened_at :: "instant option"

datatype last_error = NoAttempt | SendFailed string | StatusFailed int

datatype transport_error =
    NotHttps string
  | CircuitOpen nat duration
  | Exhausted string nat last_error
  | ClientError int string
  | TooLarge string nat
  | InvalidJson string

text \<open>What a request raises: a transport error, or the quota tracker's own.\<close>

datatype raised = TransportRaised transport_error | QuotaRaised quota_error

definition max_response_bytes :: nat where
  "max_response_bytes = 10 * 1024 * 1024"

definition retryable_status :: "int list" where
  "retryable_status = [429, 500, 502, 503, 504]"

definition new_transport :: "string \<Rightarrow> string \<Rightarrow> nat \<Rightarrow> nat \<Rightarrow> duration \<Rightarrow> transport_error + transport" where
  "new_transport base_url provider max_attempts breaker_threshold breaker_cooldown =
     (if \<not> startswith base_url ''https://'' then Inl (NotHttps base_url)
      else Inr \<lparr>tr_provider = provider, tr_max_attempts = max_attempts, tr_threshold = breaker_threshold,
             tr_cooldown = breaker_cooldown, tr_failures = 0, tr_opened_at = None\<rparr>)"

section \<open>Circuit breaker\<close>

definition breaker_gate :: "transport \<Rightarrow> instant \<Rightarrow> transport_error option" where
  "breaker_gate t now =
     (case tr_opened_at t of None \<Rightarrow> None
      | Some opened \<Rightarrow>
          let elapsed = now - opened
          in if elapsed < tr_cooldown t then Some (CircuitOpen (tr_failures t) (tr_cooldown t - elapsed)) else None)"

definition on_exhausted :: "instant \<Rightarrow> transport \<Rightarrow> transport" where
  "on_exhausted now t =
     (let failures = tr_failures t + 1
      in t\<lparr>tr_failures := failures,
           tr_opened_at := (if tr_threshold t \<le> failures then Some now else tr_opened_at t)\<rparr>)"

definition on_success :: "transport \<Rightarrow> transport" where
  "on_success t = t\<lparr>tr_failures := 0, tr_opened_at := None\<rparr>"

section \<open>Requests\<close>

definition backoff :: "'e outside \<Rightarrow> nat \<Rightarrow> nat \<Rightarrow> 'e \<Rightarrow> 'e" where
  "backoff out max_attempts attempt env =
     (if max_attempts \<le> attempt + 1 then env
      else let base = 500000 * 2 ^ attempt;
               (jitter, env1) = o_jitter out (base div 4) env
           in o_sleep out (base + jitter) env1)"

definition parse_response :: "response \<Rightarrow> string \<Rightarrow> bool \<Rightarrow> transport \<Rightarrow> (raised + json) \<times> transport" where
  "parse_response r path ndjson t =
     (if rs_size r > max_response_bytes then (Inl (TransportRaised (TooLarge path (rs_size r))), on_success t)
      else case (if ndjson then map_option JArr (rs_lines r) else rs_json r) of
        None \<Rightarrow> (Inl (TransportRaised (InvalidJson path)), t)
      | Some payload \<Rightarrow> (Inr payload, on_success t))"

type_synonym 'e traffic = "transport \<times> store \<times> 'e"

text \<open>
  The attempts from number \<open>k\<close> on, \<open>left\<close> of them: an answer, an error raised inside the loop, or
  \<open>Inl\<close> of the last failure when all are spent.
\<close>

datatype loop_end = Spent last_error | Answered response | Raise raised

fun attempts :: "nat \<Rightarrow> 'e outside \<Rightarrow> string \<Rightarrow> nat \<Rightarrow> string \<Rightarrow> string \<Rightarrow> request
    \<Rightarrow> nat \<Rightarrow> nat \<Rightarrow> last_error \<Rightarrow> store \<times> 'e \<Rightarrow> (loop_end \<times> store \<times> 'e) option" where
  "attempts fuel out provider max_attempts endpoint correlation_id rq 0 k last_error (db, env) =
     Some (Spent last_error, db, env)"
| "attempts fuel out provider max_attempts endpoint correlation_id rq (Suc left) k last_error (db, env) =
     (case wait_for_slot fuel (o_clock out) (o_sleep out) db provider endpoint env of
        None \<Rightarrow> None
      | Some (Inl e, env1) \<Rightarrow> Some (Raise (QuotaRaised e), db, env1)
      | Some (Inr _, env1) \<Rightarrow>
          let started = o_clock out env1 in
          (case o_send out rq env1 of
             (Inl exc, env2) \<Rightarrow>
               (case record_call provider endpoint None None (Some correlation_id) (o_clock out env2) db of
                  Inl e \<Rightarrow> Some (Raise (QuotaRaised e), db, env2)
                | Inr db2 \<Rightarrow>
                    attempts fuel out provider max_attempts endpoint correlation_id rq left (k + 1) (SendFailed exc)
                      (db2, backoff out max_attempts k env2))
           | (Inr r, env2) \<Rightarrow>
               let latency_ms = o_millis out (o_clock out env2 - started) in
               (case record_call provider endpoint (Some (rs_status r)) (Some latency_ms) (Some correlation_id)
                       (o_clock out env2) db of
                  Inl e \<Rightarrow> Some (Raise (QuotaRaised e), db, env2)
                | Inr db2 \<Rightarrow>
                    if rs_status r \<in> set retryable_status then
                      attempts fuel out provider max_attempts endpoint correlation_id rq left (k + 1)
                        (StatusFailed (rs_status r)) (db2, backoff out max_attempts k env2)
                    else if 400 \<le> rs_status r then
                      Some (Raise (TransportRaised (ClientError (rs_status r) endpoint)), db2, env2)
                    else Some (Answered r, db2, env2))))"

definition request_json :: "nat \<Rightarrow> 'e outside \<Rightarrow> request \<Rightarrow> string option \<Rightarrow> bool \<Rightarrow> 'e traffic
    \<Rightarrow> ((raised + json) \<times> 'e traffic) option" where
  "request_json fuel out rq label ndjson w =
     (let (t, db, env) = w;
          endpoint = (case label of Some (c # cs) \<Rightarrow> c # cs | _ \<Rightarrow> rq_path rq)
      in case breaker_gate t (o_clock out env) of
           Some e \<Rightarrow> Some (Inl (TransportRaised e), w)
         | None \<Rightarrow>
           let (correlation_id, env0) = o_uuid out env in
           case attempts fuel out (tr_provider t) (tr_max_attempts t) endpoint correlation_id rq
                  (tr_max_attempts t) 0 NoAttempt (db, env0) of
             None \<Rightarrow> None
           | Some (Raise e, db1, env1) \<Rightarrow> Some (Inl e, t, db1, env1)
           | Some (Answered r, db1, env1) \<Rightarrow>
               let (res, t1) = parse_response r endpoint ndjson t in Some (res, t1, db1, env1)
           | Some (Spent last_error, db1, env1) \<Rightarrow>
               Some (Inl (TransportRaised (Exhausted endpoint (tr_max_attempts t) last_error)),
                     on_exhausted (o_clock out env1) t, db1, env1))"

definition get_json :: "nat \<Rightarrow> 'e outside \<Rightarrow> string \<Rightarrow> dict option \<Rightarrow> string option \<Rightarrow> 'e traffic
    \<Rightarrow> ((raised + json) \<times> 'e traffic) option" where
  "get_json fuel out path params label w =
     request_json fuel out \<lparr>rq_method = GET, rq_path = path, rq_params = params, rq_json = None\<rparr> label False w"

definition get_ndjson :: "nat \<Rightarrow> 'e outside \<Rightarrow> string \<Rightarrow> dict option \<Rightarrow> string option \<Rightarrow> 'e traffic
    \<Rightarrow> ((raised + json list) \<times> 'e traffic) option" where
  "get_ndjson fuel out path params label w =
     (case request_json fuel out \<lparr>rq_method = GET, rq_path = path, rq_params = params, rq_json = None\<rparr> label True w of
        None \<Rightarrow> None
      | Some (Inl e, w1) \<Rightarrow> Some (Inl e, w1)
      | Some (Inr (JArr items), w1) \<Rightarrow> Some (Inr items, w1)
      | Some (Inr payload, w1) \<Rightarrow> Some (Inr [payload], w1))"

definition post_json :: "nat \<Rightarrow> 'e outside \<Rightarrow> string \<Rightarrow> dict \<Rightarrow> string option \<Rightarrow> 'e traffic
    \<Rightarrow> ((raised + json) \<times> 'e traffic) option" where
  "post_json fuel out path payload label w =
     request_json fuel out \<lparr>rq_method = POST, rq_path = path, rq_params = None, rq_json = Some payload\<rparr> label False w"

section \<open>Every attempt is a gated, logged call\<close>

text \<open>What the outside is relied on for: time does not run backwards.\<close>

definition clock_runs :: "'e outside \<Rightarrow> bool" where
  "clock_runs out \<longleftrightarrow>
     (\<forall>d env. o_clock out env \<le> o_clock out (o_sleep out d env))
     \<and> (\<forall>rq env. o_clock out env \<le> o_clock out (snd (o_send out rq env)))
     \<and> (\<forall>d env. o_clock out env \<le> o_clock out (snd (o_jitter out d env)))
     \<and> (\<forall>env. o_clock out env \<le> o_clock out (snd (o_uuid out env)))"

text \<open>A counter of the requests sent: sending adds one, nothing else changes it.\<close>

definition counts_sends :: "'e outside \<Rightarrow> ('e \<Rightarrow> nat) \<Rightarrow> bool" where
  "counts_sends out sent \<longleftrightarrow>
     (\<forall>d env. sent (o_sleep out d env) = sent env)
     \<and> (\<forall>rq env. sent (snd (o_send out rq env)) = Suc (sent env))
     \<and> (\<forall>d env. sent (snd (o_jitter out d env)) = sent env)
     \<and> (\<forall>env. sent (snd (o_uuid out env)) = sent env)"

abbreviation timely :: "quota_call list \<Rightarrow> store \<Rightarrow> bool" where
  "timely \<equiv> admissible (\<lambda>c _. qc_checked c \<le> qc_recorded c) gated_call"

lemma wait_for_slot_allowed:
  assumes "wait_for_slot fuel clock sleeper db p e env = Some (Inr u, env1)"
  shows "\<exists>v. check db (clock env1) p e = Inr v \<and> qv_allowed v"
  using assms
proof (induction fuel arbitrary: env)
  case (Suc fuel)
  then show ?case by (auto split: sum.splits if_splits)
qed simp

lemma wait_for_slot_sent:
  assumes "wait_for_slot fuel clock sleeper db p e env = Some (r, env1)" "\<And>d env. sent (sleeper d env) = sent env"
  shows "sent env1 = sent env"
  using assms
proof (induction fuel arbitrary: env)
  case (Suc fuel)
  then show ?case by (fastforce split: sum.splits if_splits)
qed simp

lemma record_after_check:
  assumes "check db now p e = Inr v"
  shows "\<exists>db2. record_call p e st la co t db = Inr db2"
  using assms by (auto simp: check_def record_call_def split: sum.splits)

lemma backoff_sent: "counts_sends out sent \<Longrightarrow> sent (backoff out m k env) = sent env"
  by (auto simp: backoff_def counts_sends_def Let_def split: prod.split) (metis snd_conv)

lemma attempts_gated:
  assumes "attempts fuel out p m e cid rq left k le (db, env) = Some (res, db1, env1)"
    "clock_runs out" "counts_sends out sent"
  shows "\<exists>calls. db1 = run gated_call calls db \<and> timely calls db \<and> List.length calls \<le> left
    \<and> List.length (api_call_log db1) = List.length (api_call_log db) + List.length calls
    \<and> sent env1 = sent env + List.length calls
    \<and> ((\<exists>l. res = Spent l) \<longrightarrow> List.length calls = left)
    \<and> (\<forall>x. res = Raise (TransportRaised x) \<longrightarrow> (\<exists>s. x = ClientError s e))"
  using assms(1)
proof (induction left arbitrary: k le db env)
  case 0
  then show ?case by (auto intro: exI [of _ "[]"])
next
  case (Suc left)
  let ?w = "wait_for_slot fuel (o_clock out) (o_sleep out) db p e env"
  have sl: "\<And>d env. sent (o_sleep out d env) = sent env" using assms(3) by (simp add: counts_sends_def)
  have "?w \<noteq> None"
  proof
    assume "?w = None"
    with Suc.prems show False by simp
  qed
  then obtain r enva where w: "?w = Some (r, enva)" by (cases ?w) auto
  have sa: "sent enva = sent env" by (rule wait_for_slot_sent [where sent = sent, OF w sl])
  show ?case
  proof (cases r)
    case (Inl q)
    have "res = Raise (QuotaRaised q) \<and> db1 = db \<and> env1 = enva" using Suc.prems unfolding attempts.simps w Inl by simp
    with sa show ?thesis by (intro exI [of _ "[]"]) simp
  next
    case (Inr u)
    obtain v where v: "check db (o_clock out enva) p e = Inr v" "qv_allowed v"
      using wait_for_slot_allowed [OF w [unfolded Inr]] by blast
    obtain resp envb where send: "o_send out rq enva = (resp, envb)" by fastforce
    have tb: "o_clock out enva \<le> o_clock out envb" "sent envb = Suc (sent enva)"
      using assms(2,3) send by (metis clock_runs_def snd_conv, metis counts_sends_def snd_conv)
    define st where "st = (case resp of Inl _ \<Rightarrow> None | Inr a \<Rightarrow> Some (rs_status a))"
    define la where "la = (case resp of Inl _ \<Rightarrow> None | Inr a \<Rightarrow> Some (o_millis out (o_clock out envb - o_clock out enva)))"
    obtain db2 where db2: "record_call p e st la (Some cid) (o_clock out envb) db = Inr db2"
      using record_after_check [OF v(1)] by blast
    define c where "c = \<lparr>qc_provider = p, qc_endpoint = e, qc_checked = o_clock out enva, qc_recorded = o_clock out envb,
      qc_status = st, qc_latency = la, qc_correlation = Some cid\<rparr>"
    have len: "List.length (api_call_log db2) = Suc (List.length (api_call_log db))"
      using db2 by (auto simp: record_call_def split: sum.splits)
    have g: "gated_call c db = db2" using v db2 by (simp add: gated_call_def c_def)
    have t: "qc_checked c \<le> qc_recorded c" using tb by (simp add: c_def)
    consider (again) k' le' envc where "attempts fuel out p m e cid rq left k' le' (db2, envc) = Some (res, db1, env1)" "sent envc = sent envb"
      | (stop) "db1 = db2" "env1 = envb" "\<nexists>l. res = Spent l" "\<forall>x. res = Raise (TransportRaised x) \<longrightarrow> (\<exists>s. x = ClientError s e)"
    proof (cases resp)
      case (Inl exc)
      have "attempts fuel out p m e cid rq left (k + 1) (SendFailed exc) (db2, backoff out m k envb) = Some (res, db1, env1)"
        using Suc.prems db2 unfolding attempts.simps w Inr by (simp add: st_def la_def Inl send)
      with again backoff_sent [OF assms(3)] show ?thesis by blast
    next
      case r: (Inr a)
      have step: "(if rs_status a \<in> set retryable_status
          then attempts fuel out p m e cid rq left (k + 1) (StatusFailed (rs_status a)) (db2, backoff out m k envb)
          else if 400 \<le> rs_status a then Some (Raise (TransportRaised (ClientError (rs_status a) e)), db2, envb)
          else Some (Answered a, db2, envb)) = Some (res, db1, env1)"
        using Suc.prems db2 unfolding attempts.simps w Inr by (simp add: st_def la_def r send Let_def)
      show ?thesis
      proof (cases "rs_status a \<in> set retryable_status")
        case True
        with step again backoff_sent [OF assms(3)] show ?thesis by simp
      next
        case False
        with step have "db1 = db2" "env1 = envb" "\<nexists>l. res = Spent l" "\<forall>x. res = Raise (TransportRaised x) \<longrightarrow> (\<exists>s. x = ClientError s e)" by (auto split: if_splits)
        with stop show ?thesis by blast
      qed
    qed
    then show ?thesis
    proof cases
      case again
      obtain calls where "db1 = run gated_call calls db2" "timely calls db2" "List.length calls \<le> left"
        "List.length (api_call_log db1) = List.length (api_call_log db2) + List.length calls"
        "sent env1 = sent envc + List.length calls" "(\<exists>l. res = Spent l) \<longrightarrow> List.length calls = left"
        "\<forall>x. res = Raise (TransportRaised x) \<longrightarrow> (\<exists>s. x = ClientError s e)"
        using Suc.IH [OF again(1)] by blast
      with g t len again(2) tb(2) sa show ?thesis by (intro exI [of _ "c # calls"]) auto
    next
      case stop
      with g t len tb(2) sa show ?thesis by (intro exI [of _ "[c]"]) auto
    qed
  qed
qed

text \<open>The transport refines the gated calls of the quota tracker: whatever a request comes to, what it
  did to the store is a sequence of calls each checked before it was sent and logged after, one per
  request that left the machine and never more than \<open>max_attempts\<close>; and giving up means exactly that
  many. So no traffic escapes the accounting, retries included.\<close>

lemma request_gated:
  assumes "request_json fuel out rq label ndjson (t, db, env) = Some (res, t1, db1, env1)"
    "clock_runs out" "counts_sends out sent"
  shows "\<exists>calls. db1 = run gated_call calls db \<and> timely calls db \<and> sent env1 = sent env + List.length calls
    \<and> List.length (api_call_log db1) = List.length (api_call_log db) + List.length calls
    \<and> List.length calls \<le> tr_max_attempts t
    \<and> ((\<exists>e n l. res = Inl (TransportRaised (Exhausted e n l))) \<longrightarrow> List.length calls = tr_max_attempts t)"
proof (cases "breaker_gate t (o_clock out env)")
  case (Some e)
  then have "res = Inl (TransportRaised e) \<and> db1 = db \<and> env1 = env" using assms(1) by (simp add: request_json_def Let_def)
  moreover have "\<nexists>a n l. e = Exhausted a n l" using Some by (auto simp: breaker_gate_def Let_def split: option.splits if_splits)
  ultimately show ?thesis by (intro exI [of _ "[]"]) auto
next
  case None
  define ep where "ep = (case label of Some (c # cs) \<Rightarrow> c # cs | _ \<Rightarrow> rq_path rq)"
  obtain cid env0 where u: "o_uuid out env = (cid, env0)" by fastforce
  have s0: "sent env0 = sent env" using assms(3) u by (metis counts_sends_def snd_conv)
  let ?a = "attempts fuel out (tr_provider t) (tr_max_attempts t) ep cid rq (tr_max_attempts t) 0 NoAttempt (db, env0)"
  have "?a \<noteq> None"
  proof
    assume "?a = None"
    with assms(1) None u show False by (simp add: request_json_def ep_def)
  qed
  then obtain le dba enva where a: "?a = Some (le, dba, enva)" by (metis option.exhaust prod_cases3)
  obtain calls where c: "dba = run gated_call calls db" "timely calls db" "List.length calls \<le> tr_max_attempts t"
    "sent enva = sent env + List.length calls \<and> List.length (api_call_log dba) = List.length (api_call_log db) + List.length calls" "(\<exists>l. le = Spent l) \<longrightarrow> List.length calls = tr_max_attempts t"
    "\<forall>x. le = Raise (TransportRaised x) \<longrightarrow> (\<exists>s. x = ClientError s ep)"
    using attempts_gated [OF a assms(2,3)] s0 by auto
  have p: "fst (parse_response r ep ndjson t) \<noteq> Inl (TransportRaised (Exhausted q n l))" for r q n l
    by (auto simp: parse_response_def split: option.split)
  have "db1 = dba \<and> env1 = enva \<and> ((\<exists>e n l. res = Inl (TransportRaised (Exhausted e n l))) \<longrightarrow> (\<exists>l. le = Spent l))"
  proof (cases le)
    case (Raise e)
    with assms(1) None u a have "res = Inl e" "db1 = dba" "env1 = enva" by (simp_all add: request_json_def flip: ep_def)
    with c(6) Raise show ?thesis by auto
  next
    case (Answered r)
    obtain v t2 where v: "parse_response r ep ndjson t = (v, t2)" by fastforce
    with Answered assms(1) None u a have "res = v" "db1 = dba" "env1 = enva" by (simp_all add: request_json_def flip: ep_def)
    with p [of r] v show ?thesis by auto
  next
    case (Spent l)
    with assms(1) None u a show ?thesis by (simp add: request_json_def flip: ep_def)
  qed
  with c show ?thesis by (intro exI [of _ calls]) auto
qed

text \<open>An outside for the witnesses: time and the number of requests sent; every request takes 5 us and
  fails with status 503.\<close>

definition failing_outside :: "(instant \<times> nat) outside" where
  "failing_outside =
     \<lparr>o_clock = fst, o_sleep = (\<lambda>d (t, n). (t + max d 0, n)),
      o_send = (\<lambda>rq (t, n). (Inr \<lparr>rs_status = 503, rs_size = 0, rs_json = None, rs_lines = None\<rparr>, (t + 5, Suc n))),
      o_jitter = (\<lambda>d env. (0, env)), o_uuid = (\<lambda>env. (''id'', env)), o_millis = (\<lambda>d. d div 1000)\<rparr>"

definition example_transport :: transport where
  "example_transport = \<lparr>tr_provider = ''rpc'', tr_max_attempts = 2, tr_threshold = 1, tr_cooldown = seconds 60,
     tr_failures = 0, tr_opened_at = None\<rparr>"

definition example_request :: request where
  "example_request = \<lparr>rq_method = GET, rq_path = ''/a'', rq_params = None, rq_json = None\<rparr>"

lemma failing_outside_ok: "clock_runs failing_outside \<and> counts_sends failing_outside snd"
  by (auto simp: clock_runs_def counts_sends_def failing_outside_def split: prod.split)

definition example_run :: "((raised + json) \<times> (instant \<times> nat) traffic) option" where
  "example_run = request_json 5 failing_outside example_request None False (example_transport, two_per_second, (30, 0))"

lemma example_run_exhausted:
  "example_run \<noteq> None \<and> fst (the example_run) = Inl (TransportRaised (Exhausted ''/a'' 2 (StatusFailed 503)))"
  by code_simp

section \<open>The circuit breaker\<close>

lemma attempts_raise:
  assumes "attempts fuel out p m e cid rq left k l (db, env) = Some (Raise (TransportRaised x), db1, env1)"
  shows "\<exists>s. x = ClientError s e"
  using assms
proof (induction left arbitrary: k l db env)
  case (Suc left)
  then show ?case by (auto simp: Let_def split: option.splits sum.splits prod.splits if_splits)
qed simp


lemma closed_breaker_follows:
  assumes "request_json fuel out rq label ndjson (t, db, env) = Some (res, t1, db1, env1)" "breaker_gate t (o_clock out env) = None"
  shows "case res of
      Inr _ \<Rightarrow> t1 = t\<lparr>tr_failures := 0, tr_opened_at := None\<rparr>
    | Inl (TransportRaised (TooLarge _ _)) \<Rightarrow> t1 = t\<lparr>tr_failures := 0, tr_opened_at := None\<rparr>
    | Inl (TransportRaised (Exhausted _ _ _)) \<Rightarrow> t1 = t\<lparr>tr_failures := tr_failures t + 1,
          tr_opened_at := (if tr_threshold t \<le> tr_failures t + 1 then Some (o_clock out env1) else tr_opened_at t)\<rparr>
    | Inl _ \<Rightarrow> t1 = t"
proof -
  define ep where "ep = (case label of Some (c # cs) \<Rightarrow> c # cs | _ \<Rightarrow> rq_path rq)"
  obtain cid env0 where u: "o_uuid out env = (cid, env0)" by fastforce
  let ?a = "attempts fuel out (tr_provider t) (tr_max_attempts t) ep cid rq (tr_max_attempts t) 0 NoAttempt (db, env0)"
  have "?a \<noteq> None"
  proof
    assume "?a = None"
    with assms u show False by (simp add: request_json_def ep_def)
  qed
  then obtain le dba enva where a: "?a = Some (le, dba, enva)" by (metis option.exhaust prod_cases3)
  show ?thesis
  proof (cases le)
    case (Raise e)
    with assms u a have r: "res = Inl e" "t1 = t" by (simp_all add: request_json_def flip: ep_def)
    show ?thesis
    proof (cases e)
      case (TransportRaised x)
      then obtain s where "x = ClientError s ep" using attempts_raise [OF a [unfolded Raise TransportRaised]] by blast
      with r TransportRaised show ?thesis by simp
    qed (use r in simp)
  next
    case (Answered r)
    obtain v t2 where v: "parse_response r ep ndjson t = (v, t2)" by fastforce
    with Answered assms u a have "res = v" "t1 = t2" by (simp_all add: request_json_def flip: ep_def)
    with v show ?thesis by (auto simp: parse_response_def on_success_def split: if_splits option.splits)
  next
    case (Spent l)
    with assms u a have "res = Inl (TransportRaised (Exhausted ep (tr_max_attempts t) l))"
      "t1 = on_exhausted (o_clock out enva) t" "env1 = enva" by (auto simp: request_json_def simp flip: ep_def)
    then show ?thesis by (simp add: on_exhausted_def Let_def)
  qed
qed

text \<open>C36. The breaker follows the outcomes of the requests: a payload (or an oversized answer) closes it and
  clears the count; a request that spent all its attempts adds one to the count and, from the threshold
  on, opens it at that moment; every other failure leaves it as it was. And while it is open, until the
  cooldown has passed, a request fails at once without a call, a log entry or a wait.\<close>

theorem breaker_follows_outcomes:
  assumes "request_json fuel out rq label ndjson (t, db, env) = Some (res, t1, db1, env1)"
  shows "(case res of
      Inr _ \<Rightarrow> t1 = t\<lparr>tr_failures := 0, tr_opened_at := None\<rparr>
    | Inl (TransportRaised (TooLarge _ _)) \<Rightarrow> t1 = t\<lparr>tr_failures := 0, tr_opened_at := None\<rparr>
    | Inl (TransportRaised (Exhausted _ _ _)) \<Rightarrow> t1 = t\<lparr>tr_failures := tr_failures t + 1,
          tr_opened_at := (if tr_threshold t \<le> tr_failures t + 1 then Some (o_clock out env1) else tr_opened_at t)\<rparr>
    | Inl _ \<Rightarrow> t1 = t)
    \<and> (\<forall>opened. tr_opened_at t = Some opened \<longrightarrow> o_clock out env < opened + tr_cooldown t \<longrightarrow>
         res = Inl (TransportRaised (CircuitOpen (tr_failures t) (opened + tr_cooldown t - o_clock out env)))
         \<and> t1 = t \<and> db1 = db \<and> env1 = env)"
proof (cases "breaker_gate t (o_clock out env)")
  case (Some e)
  then have "res = Inl (TransportRaised e) \<and> t1 = t \<and> db1 = db \<and> env1 = env" using assms by (simp add: request_json_def Let_def)
  with Some show ?thesis by (auto simp: breaker_gate_def Let_def split: option.splits if_splits)
next
  case None
  then have closed: "\<not> (tr_opened_at t = Some opened \<and> o_clock out env < opened + tr_cooldown t)" for opened
    by (auto simp: breaker_gate_def Let_def split: if_splits)
  with closed_breaker_follows [OF assms None] show ?thesis by blast
qed

lemma breaker_follows_outcomes_witness:
  "\<exists>res t1 db1 env1. example_run = Some (res, t1, db1, env1) \<and> tr_failures t1 = 1 \<and> tr_opened_at t1 = Some (fst env1)"
proof -
  obtain res t1 db1 env1 where r: "example_run = Some (res, t1, db1, env1)"
    using example_run_exhausted by (cases example_run) auto
  have res: "res = Inl (TransportRaised (Exhausted ''/a'' 2 (StatusFailed 503)))"
    using conjunct2 [OF example_run_exhausted] unfolding r option.sel fst_conv .
  from breaker_follows_outcomes [OF r [unfolded example_run_def], unfolded res]
  have "t1 = example_transport\<lparr>tr_failures := 1, tr_opened_at := Some (fst env1)\<rparr>"
    by (simp add: example_transport_def failing_outside_def)
  with r show ?thesis
    by (intro exI [of _ res] exI [of _ t1] exI [of _ db1] exI [of _ env1] conjI) simp_all
qed

section \<open>What requests leave alone\<close>

text \<open>The stores differ in the log of calls only.\<close>

definition log_only :: "store \<Rightarrow> store \<Rightarrow> bool" where
  "log_only db db1 \<longleftrightarrow> (\<exists>log. db1 = db\<lparr>api_call_log := log\<rparr>)"

lemma log_only_refl [simp, intro]: "log_only db db"
  unfolding log_only_def by (intro exI [of _ "api_call_log db"]) simp

lemma log_only_trans: "log_only a b \<Longrightarrow> log_only b c \<Longrightarrow> log_only a c"
  by (auto simp: log_only_def)

lemma log_only_tables: "log_only db db1 \<Longrightarrow> snapshots db1 = snapshots db \<and> positions db1 = positions db
  \<and> position_events db1 = position_events db \<and> order_rows db1 = order_rows db"
  by (auto simp: log_only_def)

lemma record_call_frame: "record_call p e st la co t db = Inr db2 \<Longrightarrow> log_only db db2"
  by (auto simp: record_call_def log_only_def split: sum.splits)

lemma attempts_frame:
  assumes "attempts fuel out p m e cid rq left k l (db, env) = Some (r, db1, env1)"
  shows "log_only db db1"
  using assms
proof (induction left arbitrary: k l db env)
  case (Suc left)
  have again: "log_only db db1"
    if "record_call p e st la co t db = Inr db2" "attempts fuel out p m e cid rq left k' l' (db2, env2) = Some (r, db1, env1)"
    for st la co t db2 k' l' env2
    using log_only_trans [OF record_call_frame [OF that(1)] Suc.IH [OF that(2)]] .
  from Suc.prems show ?case
    by (auto simp: Let_def split: option.splits sum.splits prod.splits if_splits intro: record_call_frame again)
qed simp

lemma request_frame:
  assumes "request_json fuel out rq label nd (t, db, env) = Some (r, t1, db1, env1)"
  shows "log_only db db1"
  using assms
  by (auto simp: request_json_def Let_def split: option.splits prod.splits loop_end.splits dest: attempts_frame)

lemma post_frame: "post_json fuel out path payload label (t, db, env) = Some (r, t1, db1, env1) \<Longrightarrow> log_only db db1"
  unfolding post_json_def by (rule request_frame)

text \<open>What a request adds to the log: rows under its own label.\<close>

definition logged :: "string \<Rightarrow> store \<Rightarrow> store \<Rightarrow> bool" where
  "logged e db db1 \<longleftrightarrow> (\<exists>rows. db1 = db\<lparr>api_call_log := api_call_log db @ rows\<rparr> \<and> (\<forall>r \<in> set rows. cl_endpoint r = e))"

lemma logged_refl [simp, intro]: "logged e db db"
  unfolding logged_def by (intro exI [of _ "[]"]) simp

lemma logged_trans: "logged e a b \<Longrightarrow> logged e b c \<Longrightarrow> logged e a c"
  unfolding logged_def by force

lemma logged_log_only: "logged e db db1 \<Longrightarrow> log_only db db1"
  by (auto simp: logged_def log_only_def)

lemma record_call_logged: "record_call p e st la co t db = Inr db2 \<Longrightarrow> logged e db db2"
  by (auto simp: record_call_def logged_def split: sum.splits)

lemma attempts_logged:
  assumes "attempts fuel out p m e cid rq left k l (db, env) = Some (r, db1, env1)"
  shows "logged e db db1"
  using assms
proof (induction left arbitrary: k l db env)
  case (Suc left)
  have again: "logged e db db1"
    if "record_call p e st la co t db = Inr db2" "attempts fuel out p m e cid rq left k' l' (db2, env2) = Some (r, db1, env1)"
    for st la co t db2 k' l' env2
    using logged_trans [OF record_call_logged [OF that(1)] Suc.IH [OF that(2)]] .
  from Suc.prems show ?case
    by (auto simp: Let_def split: option.splits sum.splits prod.splits if_splits intro: record_call_logged again)
qed simp

lemma request_logged:
  assumes "request_json fuel out rq (Some (c # cs)) nd (t, db, env) = Some (r, t1, db1, env1)"
  shows "logged (c # cs) db db1"
  using assms
  by (auto simp: request_json_def Let_def split: option.splits prod.splits loop_end.splits dest: attempts_logged)

text \<open>A request sends at most as often as its transport may attempt, whatever the clock does.\<close>

lemma attempts_sends:
  assumes "attempts fuel out p m e cid rq left k l (db, env) = Some (r, db1, env1)" "counts_sends out sent"
  shows "sent env1 \<le> sent env + left"
  using assms(1)
proof (induction left arbitrary: k l db env)
  case (Suc left)
  have slot: "sent enva = sent env" if "wait_for_slot fuel (o_clock out) (o_sleep out) db' p e env = Some (v, enva)" for db' v enva
    using wait_for_slot_sent [where sent = sent, OF that] assms(2) by (simp add: counts_sends_def)
  have send: "sent envb = Suc (sent enva)" if "o_send out rq enva = (v, envb)" for v enva envb
    using assms(2) that by (metis counts_sends_def snd_conv)
  have again: "sent env1 \<le> sent envc + left"
    if "attempts fuel out p m e cid rq left k' l' (db2, envc) = Some (r, db1, env1)" for k' l' db2 envc
    using Suc.IH [OF that] .
  from Suc.prems show ?case
    by (auto simp: Let_def backoff_sent [OF assms(2)] split: option.splits sum.splits prod.splits if_splits dest!: slot send again)
qed simp

lemma request_sends:
  assumes "request_json fuel out rq label nd (t, db, env) = Some (r, t1, db1, env1)" "counts_sends out sent"
  shows "sent env1 \<le> sent env + tr_max_attempts t \<and> tr_max_attempts t1 = tr_max_attempts t"
proof -
  have id: "sent env0 = sent env" if "o_uuid out env = (v, env0)" for v env0
    using assms(2) that by (metis counts_sends_def snd_conv)
  have keep: "tr_max_attempts t1 = tr_max_attempts t" if "parse_response x path nd t = (v, t1)" for x path v t1
    using that by (auto simp: parse_response_def on_success_def split: if_splits option.splits)
  from assms(1) show ?thesis
    by (auto simp: request_json_def Let_def on_exhausted_def split: option.splits prod.splits loop_end.splits
        dest!: attempts_sends [OF _ assms(2)] keep id)
qed

section \<open>Traffic\<close>

text \<open>A process serves one request after another, each on some transport in some breaker state.\<close>

fun serve :: "nat \<Rightarrow> 'e outside \<Rightarrow> (transport \<times> request \<times> string option \<times> bool) list \<Rightarrow> store \<times> 'e \<Rightarrow> (store \<times> 'e) option" where
  "serve fuel out [] (db, env) = Some (db, env)"
| "serve fuel out ((t, rq, label, ndjson) # rest) (db, env) =
     (case request_json fuel out rq label ndjson (t, db, env) of
        None \<Rightarrow> None | Some (_, _, db1, env1) \<Rightarrow> serve fuel out rest (db1, env1))"

lemma admissible_append: "admissible ok step (xs @ ys) s \<longleftrightarrow> admissible ok step xs s \<and> admissible ok step ys (run step xs s)"
  by (induction xs arbitrary: s) auto

lemma serve_gated:
  assumes "serve fuel out rs (db, env) = Some (db1, env1)" "clock_runs out" "counts_sends out sent"
  shows "\<exists>calls. db1 = run gated_call calls db \<and> timely calls db \<and> sent env1 = sent env + List.length calls
    \<and> List.length (api_call_log db1) = List.length (api_call_log db) + List.length calls"
  using assms(1)
proof (induction rs arbitrary: db env)
  case Nil
  then show ?case by (auto intro: exI [of _ "[]"])
next
  case (Cons r rs)
  obtain t rq label nd where r: "r = (t, rq, label, nd)" by (cases r) auto
  let ?q = "request_json fuel out rq label nd (t, db, env)"
  have "?q \<noteq> None" using Cons.prems unfolding r serve.simps by (cases ?q) simp_all
  then obtain res t2 db2 env2 where q: "?q = Some (res, t2, db2, env2)" by (metis option.exhaust prod_cases3)
  then have rest: "serve fuel out rs (db2, env2) = Some (db1, env1)" using Cons.prems r by simp
  obtain c where c: "db2 = run gated_call c db" "timely c db" "sent env2 = sent env + List.length c"
    "List.length (api_call_log db2) = List.length (api_call_log db) + List.length c"
    using request_gated [where sent = sent, OF q assms(2,3)] by blast
  obtain d where "db1 = run gated_call d db2" "timely d db2" "sent env1 = sent env2 + List.length d"
    "List.length (api_call_log db1) = List.length (api_call_log db2) + List.length d" using Cons.IH [OF rest] by blast
  with c show ?case by (intro exI [of _ "c @ d"]) (simp add: run_append admissible_append)
qed

text \<open>C13. Whatever requests are made one after another from an empty log, on whichever transports and whatever
  the upstreams answer, the traffic really sent (counted at the network, retries included) is all in the
  log, and no rate window of any provider ever holds more of it than the provider's limit. This is of the
  transports alone: a recorder that rolls its transaction back takes rows of the log with it
  (\<open>failed_cycle_forgets_calls\<close> of \<open>Cycle\<close>).\<close>

theorem traffic_within_quota:
  assumes "serve fuel out rs (db, env) = Some (db1, env1)" "clock_runs out" "counts_sends out sent"
    "api_call_log db = []" "distinct (map pv_id (providers db))" "\<forall>c \<in> set (endpoint_costs db). 0 \<le> co_credits c"
  shows "sent env1 = sent env + List.length (api_call_log db1)
    \<and> (\<forall>row \<in> set (providers db1). \<forall>d u. period_seconds (pv_rate_period row) = Inr d \<longrightarrow>
         window_used row (filter (\<lambda>r. u - d \<le> cl_ts r \<and> cl_ts r \<le> u) (calls_of row db1)) \<le> max 0 (pv_rate_limit row))"
proof -
  obtain calls where c: "db1 = run gated_call calls db" "timely calls db" "sent env1 = sent env + List.length calls"
    "List.length (api_call_log db1) = List.length (api_call_log db) + List.length calls"
    using serve_gated [where sent = sent, OF assms(1-3)] by blast
  then have "sent env1 = sent env + List.length (api_call_log db1)" using assms(4) by simp
  moreover have "window_used row (filter (\<lambda>r. u - d \<le> cl_ts r \<and> cl_ts r \<le> u) (calls_of row db1)) \<le> max 0 (pv_rate_limit row)"
    if "row \<in> set (providers db1)" "period_seconds (pv_rate_period row) = Inr d" for row d u
    using gated_windows_bounded [OF assms(4-6) c(2)] that unfolding c(1) by blast
  ultimately show ?thesis by blast
qed

definition served :: "(store \<times> (instant \<times> nat)) option" where
  "served = serve 5 failing_outside [(example_transport, example_request, None, False), (example_transport, example_request, None, True)]
     (two_per_second\<lparr>api_call_log := []\<rparr>, (30, 0))"

lemma traffic_within_quota_witness:
  "\<exists>db1 env1. served = Some (db1, env1) \<and> snd env1 = List.length (api_call_log db1) \<and> List.length (api_call_log db1) = 4"
proof -
  have n: "map_option (\<lambda>s. List.length (api_call_log (fst s))) served = Some 4" by code_simp
  then obtain db1 env1 where s: "served = Some (db1, env1)" by (cases served) auto
  have "snd env1 = snd (30 :: instant, 0 :: nat) + List.length (api_call_log db1)"
    using traffic_within_quota [where sent = snd, OF s [unfolded served_def]] failing_outside_ok
    by (simp add: two_per_second_def empty_store_def)
  moreover have "List.length (api_call_log db1) = 4" using n unfolding s by simp
  ultimately show ?thesis using s by (intro exI [of _ db1] exI [of _ env1]) simp
qed

end
