(* ===== verification/Health.thy ===== *)
theory Health
  imports Store
begin

text \<open>
  \<open>secrets.py\<close>, the lookup of a named secret, and \<open>watchdog/heartbeat.py\<close>: freshness of the
  recorder and the ping of the external dead-man's switch. The keyring, the environment and the
  HTTP client are parameters.
\<close>

section \<open>Secrets\<close>

text \<open>\<open>keyring_get\<close>: the outer \<open>None\<close> is an exception of the backend; \<open>env_get\<close>: \<open>os.environ\<close>.\<close>

record secret_sources =
  keyring_get :: "string \<Rightarrow> string option option"
  env_get :: "string \<Rightarrow> string option"

definition or_none :: "string option \<Rightarrow> string option" where
  "or_none v = (case v of Some s \<Rightarrow> if s = [] then None else Some s | None \<Rightarrow> None)"

definition keyring_provider :: "secret_sources \<Rightarrow> string \<Rightarrow> string option" where
  "keyring_provider src name = (case keyring_get src name of None \<Rightarrow> None | Some v \<Rightarrow> or_none v)"

definition env_provider :: "secret_sources \<Rightarrow> string \<Rightarrow> string option" where
  "env_provider src name = or_none (env_get src (''DEXPAPRIKA_SECRET_'' @ upper name))"

definition chain_provider :: "secret_sources \<Rightarrow> string \<Rightarrow> string option" where
  "chain_provider src name =
     (case keyring_provider src name of Some v \<Rightarrow> Some v | None \<Rightarrow> env_provider src name)"

definition resolve_secret :: "secret_sources \<Rightarrow> settings \<Rightarrow> string \<Rightarrow> string option" where
  "resolve_secret src settings name =
     (case secret_backend settings of
        KeyringBackend \<Rightarrow> keyring_provider src name
      | EnvBackend \<Rightarrow> env_provider src name
      | AutoBackend \<Rightarrow> chain_provider src name)"

lemma resolve_secret_not_Nil: "resolve_secret src settings name \<noteq> Some []"
  by (auto simp: resolve_secret_def keyring_provider_def env_provider_def chain_provider_def or_none_def
      split: secret_backend_choice.splits option.splits if_splits)

section \<open>Freshness\<close>

datatype health_reason = HealthNoSnapshots | HealthStale duration duration | HealthFresh

record health_verdict =
  hv_ok :: bool
  hv_newest :: "instant option"
  hv_age :: "duration option"
  hv_reason :: health_reason

text \<open>Durations in microseconds; \<open>max_age\<close> overrides the configured staleness limit.\<close>

definition assess_health :: "store \<Rightarrow> settings \<Rightarrow> instant \<Rightarrow> duration option \<Rightarrow> health_verdict" where
  "assess_health db settings now max_age =
     (let limit = (case max_age of Some d \<Rightarrow> d | None \<Rightarrow> minutes (snapshot_staleness_minutes settings))
      in case newest_snapshot_ts db of
           None \<Rightarrow> \<lparr>hv_ok = False, hv_newest = None, hv_age = None, hv_reason = HealthNoSnapshots\<rparr>
         | Some t \<Rightarrow>
             (let age = now - t
              in if limit < age
                 then \<lparr>hv_ok = False, hv_newest = Some t, hv_age = Some age, hv_reason = HealthStale age limit\<rparr>
                 else \<lparr>hv_ok = True, hv_newest = Some t, hv_age = Some age, hv_reason = HealthFresh\<rparr>))"

lemma assess_health_ok:
  "hv_ok (assess_health db settings now max_age) \<longleftrightarrow>
     (\<exists>r \<in> set (snapshots db). now - s_ts r
        \<le> (case max_age of Some d \<Rightarrow> d | None \<Rightarrow> minutes (snapshot_staleness_minutes settings)))"
proof (cases "newest_snapshot_ts db")
  case None
  then have "snapshots db = []" by (simp add: newest_snapshot_ts_def split: list.splits)
  with None show ?thesis by (simp add: assess_health_def Let_def)
next
  case (Some t)
  then have "t \<in> s_ts ` set (snapshots db)" "\<forall>r \<in> set (snapshots db). s_ts r \<le> t"
    by (simp_all add: newest_snapshot_ts_Some)
  with Some show ?thesis by (force simp: assess_health_def Let_def)
qed

section \<open>The ping\<close>

text \<open>\<open>urlparse(url).path\<close> of an \<open>https://\<close> URL whose host has no square brackets: no query,
  fragment or parameters of the last segment.\<close>

definition cut_params :: "string \<Rightarrow> string" where
  "cut_params path =
     (let last_segment = rev (takeWhile (\<lambda>c. c \<noteq> CHR ''/'') (rev path));
          upto = take (List.length path - List.length last_segment) path
      in upto @ takeWhile (\<lambda>c. c \<noteq> CHR '';'') last_segment)"

definition url_path :: "string \<Rightarrow> string" where
  "url_path url =
     (let clean = filter (\<lambda>c. c \<noteq> CHR 0x09 \<and> c \<noteq> CHR 0x0A \<and> c \<noteq> CHR 0x0D) url;
          rest = dropWhile (\<lambda>c. c \<noteq> CHR ''/'' \<and> c \<noteq> CHR ''?'' \<and> c \<noteq> CHR ''#'') (drop 8 clean)
      in cut_params (takeWhile (\<lambda>c. c \<noteq> CHR ''?'') (takeWhile (\<lambda>c. c \<noteq> CHR ''#'') rest)))"

definition url_token :: "string \<Rightarrow> string" where
  "url_token url = strip_char CHR ''/'' (url_path url)"

definition redacted :: string where
  "redacted = ''REDACTED''"

definition redact :: "string \<Rightarrow> string \<Rightarrow> string" where
  "redact text url =
     (let out = replace_all url redacted text
      in if url_token url \<noteq> [] then replace_all (url_token url) redacted out else out)"

datatype ping_state = PingOk | PingFail | PingStart

definition state_suffix :: "ping_state \<Rightarrow> string" where
  "state_suffix st = (case st of PingOk \<Rightarrow> [] | PingFail \<Rightarrow> ''/fail'' | PingStart \<Rightarrow> ''/start'')"

record ping_result =
  pr_configured :: bool
  pr_sent :: bool
  pr_state :: ping_state
  pr_status_code :: "int option"
  pr_error :: "string option"

text \<open>The HTTP GET of the client: the text of an exception or the status code.\<close>

type_synonym 'e http_get = "string \<Rightarrow> 'e \<Rightarrow> (string + int) \<times> 'e"

definition ping :: "secret_sources \<Rightarrow> settings \<Rightarrow> 'e http_get \<Rightarrow> ping_state \<Rightarrow> 'e \<Rightarrow> ping_result \<times> 'e" where
  "ping src settings http st e =
     (let none = \<lparr>pr_configured = True, pr_sent = False, pr_state = st, pr_status_code = None, pr_error = None\<rparr>
      in case resolve_secret src settings ''heartbeat_url'' of
           None \<Rightarrow> (none\<lparr>pr_configured := False\<rparr>, e)
         | Some url \<Rightarrow>
             if url = [] then (none\<lparr>pr_configured := False\<rparr>, e)
             else if \<not> startswith url ''https://''
             then (none\<lparr>pr_error := Some ''heartbeat_url must be https://''\<rparr>, e)
             else (case http (rstrip_char CHR ''/'' url @ state_suffix st) e of
                     (Inl msg, e') \<Rightarrow> (none\<lparr>pr_error := Some (redact msg url)\<rparr>, e')
                   | (Inr code, e') \<Rightarrow> (none\<lparr>pr_sent := True, pr_status_code := Some code\<rparr>, e')))"

record heartbeat_result =
  hr_verdict :: health_verdict
  hr_ping :: ping_result

definition run_heartbeat ::
  "secret_sources \<Rightarrow> settings \<Rightarrow> 'e http_get \<Rightarrow> store \<Rightarrow> instant \<Rightarrow> 'e \<Rightarrow> heartbeat_result \<times> 'e" where
  "run_heartbeat src settings http db now e =
     (let verdict = assess_health db settings now None
      in case ping src settings http (if hv_ok verdict then PingOk else PingFail) e of
           (r, e') \<Rightarrow> (\<lparr>hr_verdict = verdict, hr_ping = r\<rparr>, e'))"

section \<open>Properties\<close>

lemma redact_removes_token:
  assumes "url_token url \<noteq> []" "set (url_token url) \<inter> set redacted = {}"
  shows "\<not> substring_in (url_token url) (redact text url)"
  using replace_all_removes [OF assms(1,2)] assms(1) by (simp add: redact_def Let_def redacted_def)

text \<open>The error a failed ping reports never contains the secret token of the URL, whatever the
  HTTP client put into its message, provided the token shares no letter with the redaction mark.\<close>

theorem ping_error_hides_token:
  assumes "resolve_secret src settings ''heartbeat_url'' = Some url"
    and "url_token url \<noteq> []" "set (url_token url) \<inter> set redacted = {}"
    and "startswith url ''https://''"
    and "pr_error (fst (ping src settings http st e)) = Some msg"
  shows "\<not> substring_in (url_token url) msg"
proof (cases "http (rstrip_char CHR ''/'' url @ state_suffix st) e")
  case (Pair r e')
  then show ?thesis
    using assms(1,4,5) redact_removes_token [OF assms(2,3)]
    by (cases r) (auto simp: ping_def Let_def split: if_splits)
qed

lemma ping_error_hides_token_witness:
  "\<not> substring_in ''3f-9b1'' (the (pr_error (fst (ping
      \<lparr>keyring_get = (\<lambda>_. None), env_get = (\<lambda>_. Some ''https://hc-ping.com/3f-9b1'')\<rparr> default_settings
      (\<lambda>u e. (Inl (''timeout for '' @ u), e)) PingFail ()))))"
proof -
  have t: "url_token ''https://hc-ping.com/3f-9b1'' = ''3f-9b1''" by code_simp
  have r: "resolve_secret \<lparr>keyring_get = (\<lambda>_. None), env_get = (\<lambda>_. Some ''https://hc-ping.com/3f-9b1'')\<rparr>
      default_settings ''heartbeat_url'' = Some ''https://hc-ping.com/3f-9b1''"
    by (simp add: resolve_secret_def default_settings_def chain_provider_def keyring_provider_def env_provider_def or_none_def)
  show ?thesis
    by (rule ping_error_hides_token [OF r, unfolded t, where http = "\<lambda>u e. (Inl (''timeout for '' @ u), e)"
          and st = PingFail and e = "()"])
      (use r in \<open>simp_all add: redacted_def ping_def Let_def\<close>)
qed

text \<open>The dead-man's switch is fed only while data lands: the heartbeat requests the plain
  (success) URL exactly when some snapshot is younger than the staleness limit, and otherwise the
  failure URL; without a configured secret it requests nothing.\<close>

theorem heartbeat_reports_health:
  assumes "resolve_secret src settings ''heartbeat_url'' = Some url" "startswith url ''https://''"
  shows "snd (run_heartbeat src settings http db now e)
     = snd (http (rstrip_char CHR ''/'' url @
         (if list_ex (\<lambda>r. now - s_ts r \<le> minutes (snapshot_staleness_minutes settings)) (snapshots db)
          then [] else ''/fail'')) e)"
proof -
  have "hv_ok (assess_health db settings now None)
      \<longleftrightarrow> list_ex (\<lambda>r. now - s_ts r \<le> minutes (snapshot_staleness_minutes settings)) (snapshots db)"
    by (simp add: assess_health_ok list_ex_iff)
  moreover have "url \<noteq> []" using resolve_secret_not_Nil assms(1) by auto
  ultimately show ?thesis
    using assms by (auto simp: run_heartbeat_def Let_def ping_def state_suffix_def split: prod.split sum.split)
qed

lemma heartbeat_reports_health_witness:
  "snd (run_heartbeat \<lparr>keyring_get = (\<lambda>_. None), env_get = (\<lambda>_. Some ''https://hc-ping.com/3f'')\<rparr> default_settings
     (\<lambda>u log. (Inr 200, log @ [u])) empty_store 5 []) = [''https://hc-ping.com/3f/fail'']"
  by (subst heartbeat_reports_health [where url = "''https://hc-ping.com/3f''"])
    (simp_all add: resolve_secret_def default_settings_def chain_provider_def keyring_provider_def env_provider_def
      or_none_def empty_store_def rstrip_char_def)

end
