(* ===== verification/Ntfy.thy ===== *)
theory Ntfy
  imports Alerts Transport Health
begin

text \<open>
  \<open>alerts/ntfy.py\<close>, the publisher that keeps its topic secret, and the \<open>alerts check\<close> command of
  \<open>cli.py\<close>, which evaluates, records and delivers. Parameters: \<open>validate\<close> is the receipt model of
  pydantic (\<open>None\<close> raises), \<open>err_text\<close> is \<open>str\<close> of a transport error, \<open>repr\<close> is \<open>str\<close> of a container.
\<close>

section \<open>The client\<close>

definition priorities :: "(string \<times> int) list" where
  "priorities = [(''min'', 1), (''low'', 2), (''default'', 3), (''high'', 4), (''urgent'', 5)]"

record ntfy_client =
  nc_topic :: string

definition new_ntfy_client :: "settings \<Rightarrow> string \<Rightarrow> transport_error + ntfy_client \<times> transport" where
  "new_ntfy_client settings topic =
     (case new_transport (ntfy_server settings) ''ntfy'' 4 5 (seconds 60) of Inl e \<Rightarrow> Inl e
      | Inr t \<Rightarrow> Inr (\<lparr>nc_topic = topic\<rparr>, t))"

text \<open>What an operation raises: a transport or quota error, or another exception.\<close>

datatype ntfy_raised = NtfyRaised raised | NtfyPython

type_synonym ('a, 'e) ntfy_result = "((ntfy_raised + 'a) \<times> 'e traffic) option"

definition publish_payload :: "ntfy_client \<Rightarrow> string \<Rightarrow> string \<Rightarrow> int \<Rightarrow> string list \<Rightarrow> string option \<Rightarrow> json list option \<Rightarrow> dict" where
  "publish_payload client title message priority tags click actions =
     [(''topic'', JStr (nc_topic client)), (''title'', JStr title), (''message'', JStr message), (''priority'', JInt priority)]
     @ (if tags \<noteq> [] then [(''tags'', JArr (map JStr tags))] else [])
     @ (case click of Some (c # cs) \<Rightarrow> [(''click'', JStr (c # cs))] | _ \<Rightarrow> [])
     @ (case actions of Some (a # as) \<Rightarrow> [(''actions'', JArr (a # as))] | _ \<Rightarrow> [])"

text \<open>\<open>raw.pop("topic", None)\<close>, after replacing what is not an object by the empty one.\<close>

definition without_topic :: "json \<Rightarrow> dict" where
  "without_topic raw = (case raw of JObj d \<Rightarrow> filter (\<lambda>(k, v). k \<noteq> ''topic'') d | _ \<Rightarrow> [])"

definition publish :: "nat \<Rightarrow> 'e outside \<Rightarrow> (dict \<Rightarrow> 'r option) \<Rightarrow> ntfy_client \<Rightarrow> string \<Rightarrow> string \<Rightarrow> string
    \<Rightarrow> string list \<Rightarrow> string option \<Rightarrow> json list option \<Rightarrow> 'e traffic \<Rightarrow> ('r, 'e) ntfy_result" where
  "publish fuel out validate client title message priority tags click actions w =
     (case map_of priorities priority of
        None \<Rightarrow> Some (Inl NtfyPython, w)
      | Some level \<Rightarrow>
          (case post_json fuel out ''/'' (publish_payload client title message level tags click actions) (Some ''publish'') w of
             None \<Rightarrow> None
           | Some (Inl e, w1) \<Rightarrow> Some (Inl (NtfyRaised e), w1)
           | Some (Inr raw, w1) \<Rightarrow>
               (case validate (without_topic raw) of
                  None \<Rightarrow> Some (Inl NtfyPython, w1) | Some receipt \<Rightarrow> Some (Inr receipt, w1))))"

text \<open>Replies are read from the topic's own path; an exception is raised again with its text redacted.\<close>

definition reply_text :: "(json \<Rightarrow> string) \<Rightarrow> json \<Rightarrow> string option" where
  "reply_text repr item =
     (case item of
        JObj d \<Rightarrow>
          if get d ''event'' = Some (JStr ''message'')
          then Some (case get_default d ''message'' (JStr []) of JStr s \<Rightarrow> s | v \<Rightarrow> (case str_of v of Some s \<Rightarrow> s | None \<Rightarrow> repr v))
          else None
      | _ \<Rightarrow> None)"

definition poll_path :: "ntfy_client \<Rightarrow> string" where
  "poll_path client = ''/'' @ nc_topic client @ ''/json''"

text \<open>The class of the exception a request raises, which \<open>poll\<close> keeps; an unknown rate period is a missing key.\<close>

datatype exc_class = TransportErrorC | CircuitOpenErrorC | QuotaErrorC | QuotaExceededErrorC | KeyErrorC

fun class_of :: "raised \<Rightarrow> exc_class" where
  "class_of (TransportRaised (CircuitOpen n d)) = CircuitOpenErrorC"
| "class_of (TransportRaised e) = TransportErrorC"
| "class_of (QuotaRaised (CreditsExhausted p)) = QuotaExceededErrorC"
| "class_of (QuotaRaised (UnknownProvider p)) = QuotaErrorC"
| "class_of (QuotaRaised (UnknownPeriod p)) = KeyErrorC"

definition poll :: "nat \<Rightarrow> 'e outside \<Rightarrow> (json \<Rightarrow> string) \<Rightarrow> (raised \<Rightarrow> string) \<Rightarrow> ntfy_client \<Rightarrow> int \<Rightarrow> 'e traffic
    \<Rightarrow> ((exc_class \<times> string + string list) \<times> 'e traffic) option" where
  "poll fuel out repr raised_text client since_unix w =
     (case get_ndjson fuel out (poll_path client) (Some [(''poll'', JStr ''1''), (''since'', JStr (int_str since_unix))])
             (Some ''poll'') w of
        None \<Rightarrow> None
      | Some (Inl e, w1) \<Rightarrow> Some (Inl (class_of e, replace_all (nc_topic client) ''REDACTED'' (raised_text e)), w1)
      | Some (Inr items, w1) \<Rightarrow> Some (Inr (concat (map (\<lambda>i. option_list (reply_text repr i)) items)), w1))"

section \<open>The check command\<close>

datatype delivery = Delivered | NoTopic | DeliveryFailed

datatype check_end = Uncaught | QuotaFailure quota_error | Reported "(alert \<times> delivery) list" "alert list" bool

text \<open>Each alert is recorded before the attempt to deliver it; an exception other than a transport
  error ends the loop.\<close>

fun deliver :: "nat \<Rightarrow> 'e outside \<Rightarrow> (dict \<Rightarrow> 'r option) \<Rightarrow> (transport_error \<Rightarrow> string) \<Rightarrow> ntfy_client \<Rightarrow> instant
    \<Rightarrow> alert list \<Rightarrow> (alert \<times> delivery) list \<Rightarrow> 'e traffic \<Rightarrow> ((ntfy_raised + (alert \<times> delivery) list) \<times> 'e traffic) option" where
  "deliver fuel out validate err_text client now [] acc w = Some (Inr acc, w)"
| "deliver fuel out validate err_text client now (a # as) acc (t, db, env) =
     (let (alert_id, db1) = record_alert a now db
      in case publish fuel out validate client (at_title a) (at_message a) (at_severity a) (at_tags a) None None (t, db1, env) of
           None \<Rightarrow> None
         | Some (Inr receipt, t2, db2, env2) \<Rightarrow>
             deliver fuel out validate err_text client now as (acc @ [(a, Delivered)]) (t2, mark_delivery alert_id True ''200'' db2, env2)
         | Some (Inl (NtfyRaised (TransportRaised e)), t2, db2, env2) \<Rightarrow>
             deliver fuel out validate err_text client now as (acc @ [(a, DeliveryFailed)])
               (t2, mark_delivery alert_id False (err_text e) db2, env2)
         | Some (Inl other, w2) \<Rightarrow> Some (Inl other, w2))"

definition record_undelivered :: "instant \<Rightarrow> alert \<Rightarrow> store \<Rightarrow> store" where
  "record_undelivered now a db = (let (alert_id, db1) = record_alert a now db in mark_delivery alert_id False ''no-topic'' db1)"

definition alerts_check :: "nat \<Rightarrow> 'e outside \<Rightarrow> (rat \<Rightarrow> string) \<Rightarrow> (dict \<Rightarrow> 'r option) \<Rightarrow> (transport_error \<Rightarrow> string)
    \<Rightarrow> settings \<Rightarrow> string option \<Rightarrow> (string \<times> string) list \<Rightarrow> instant \<Rightarrow> store \<times> 'e \<Rightarrow> (check_end \<times> store \<times> 'e) option" where
  "alerts_check fuel out pct_repr validate err_text settings topic health now st =
     (let (db, env) = st in
      case evaluate pct_repr db settings now (Some health) of
        Inl AlertPython \<Rightarrow> Some (Uncaught, db, env)
      | Inl (AlertQuota e) \<Rightarrow> Some (QuotaFailure e, db, env)
      | Inr alerts \<Rightarrow>
          let (fire, suppressed) = apply_cooldown db alerts settings now in
          case (if fire = [] then None else topic) of
            None \<Rightarrow> Some (Reported (map (\<lambda>a. (a, NoTopic)) fire) suppressed (fire \<noteq> []),
                          fold (record_undelivered now) fire db, env)
          | Some name \<Rightarrow>
              (case new_ntfy_client settings name of
                 Inl e \<Rightarrow> Some (Uncaught, db, env)
               | Inr (client, t) \<Rightarrow>
                   (case deliver fuel out validate err_text client now fire [] (t, db, env) of
                      None \<Rightarrow> None
                    | Some (Inr fired, t1, db1, env1) \<Rightarrow>
                        Some (Reported fired suppressed (\<exists>x \<in> set fired. snd x = DeliveryFailed), db1, env1)
                    | Some (Inl (NtfyRaised (QuotaRaised e)), t1, db1, env1) \<Rightarrow> Some (QuotaFailure e, db1, env1)
                    | Some (Inl other, t1, db1, env1) \<Rightarrow> Some (Uncaught, db1, env1))))"

definition exit_code :: "check_end \<Rightarrow> int option" where
  "exit_code r = (case r of Uncaught \<Rightarrow> None | QuotaFailure _ \<Rightarrow> Some 1 | Reported _ _ degraded \<Rightarrow> Some (if degraded then 3 else 0))"

section \<open>The topic stays secret\<close>

lemma publish_logged:
  assumes "publish fuel out validate client ti me pr tg cl ac (t, db, env) = Some (r, t1, db1, env1)"
  shows "logged ''publish'' db db1"
  using assms request_logged [where c = "CHR ''p''" and cs = "''ublish''"]
  by (fastforce simp: publish_def post_json_def split: option.splits sum.splits prod.splits)

lemma poll_logged:
  assumes "poll fuel out repr rt client since (t, db, env) = Some (r, t1, db1, env1)"
  shows "logged ''poll'' db db1"
  using assms request_logged [where c = "CHR ''p''" and cs = "''oll''"]
  by (fastforce simp: poll_def get_ndjson_def split: option.splits sum.splits prod.splits json.splits)

text \<open>What a failed poll raises: the class of the request's error, and its text with every occurrence of the
  topic replaced: the pieces between them, none of which holds the topic, joined by the mark.\<close>

lemma poll_error_redacted:
  assumes "poll fuel out repr rt client since w = Some (Inl (c, text), w1)" "nc_topic client \<noteq> []"
  shows "\<exists>e pieces. c = class_of e \<and> rt e = joined (nc_topic client) pieces \<and> text = joined ''REDACTED'' pieces
    \<and> (\<forall>p \<in> set pieces. \<not> substring_in (nc_topic client) p)
    \<and> (set (nc_topic client) \<inter> set ''REDACTED'' = {} \<longrightarrow> \<not> substring_in (nc_topic client) text)"
proof -
  from assms(1) obtain e where e: "c = class_of e" "text = replace_all (nc_topic client) ''REDACTED'' (rt e)"
    by (auto simp: poll_def split: option.splits sum.splits prod.splits)
  obtain pieces where "rt e = joined (nc_topic client) pieces" "text = joined ''REDACTED'' pieces"
    "\<forall>p \<in> set pieces. \<not> substring_in (nc_topic client) p"
    using replace_all_pieces [OF assms(2), of "rt e" "''REDACTED''"] e(2) by metis
  then show ?thesis
    using replace_all_removes [OF assms(2), of "''REDACTED''" "rt e"] e by (intro exI [of _ e] exI [of _ pieces]) simp
qed

text \<open>Two requests that differ in the topic of the body only, and two answers that differ in what the server
  echoes of it: the \<open>topic\<close> field of the object, and the size it gives the text while below the cap.\<close>

definition same_but_topic :: "request \<Rightarrow> request \<Rightarrow> bool" where
  "same_but_topic rq rq' \<longleftrightarrow> rq_method rq = rq_method rq' \<and> rq_path rq = rq_path rq' \<and> rq_params rq = rq_params rq'
     \<and> map_option (filter (\<lambda>(k, v). k \<noteq> ''topic'')) (rq_json rq) = map_option (filter (\<lambda>(k, v). k \<noteq> ''topic'')) (rq_json rq')"

definition same_answer :: "response \<Rightarrow> response \<Rightarrow> bool" where
  "same_answer r r' \<longleftrightarrow> rs_status r = rs_status r'
     \<and> (rs_size r = rs_size r' \<or> rs_size r \<le> max_response_bytes \<and> rs_size r' \<le> max_response_bytes)
     \<and> rel_option (\<lambda>x y. without_topic x = without_topic y) (rs_json r) (rs_json r')"

text \<open>A server and a network that answer such requests alike: what they say of one topic they say of the other.
  Nothing is asked of the answers to requests that differ elsewhere, in the path for instance.\<close>

definition topic_blind :: "'e outside \<Rightarrow> bool" where
  "topic_blind out \<longleftrightarrow> (\<forall>rq rq' env. same_but_topic rq rq' \<longrightarrow>
     snd (o_send out rq env) = snd (o_send out rq' env)
     \<and> rel_sum (=) same_answer (fst (o_send out rq env)) (fst (o_send out rq' env)))"

fun same_end :: "loop_end \<Rightarrow> loop_end \<Rightarrow> bool" where
  "same_end (Spent l) (Spent l') \<longleftrightarrow> l = l'"
| "same_end (Raise e) (Raise e') \<longleftrightarrow> e = e'"
| "same_end (Answered r) (Answered r') \<longleftrightarrow> same_answer r r'"
| "same_end _ _ \<longleftrightarrow> False"

lemma attempts_blind:
  assumes "topic_blind out" "same_but_topic rq rq'"
  shows "rel_option (rel_prod same_end (=)) (attempts fuel out p m e cid rq left k l s) (attempts fuel out p m e cid rq' left k l s)"
proof (induction left arbitrary: k l s)
  case 0
  then show ?case by (cases s) simp
next
  case (Suc left)
  obtain db env where s: "s = (db, env)" by (cases s)
  show ?case
  proof (cases "wait_for_slot fuel (o_clock out) (o_sleep out) db p e env")
    case None
    then show ?thesis by (simp add: s)
  next
    case (Some w)
    obtain v env1 where w: "w = (v, env1)" by (cases w)
    obtain x y env2 where send: "o_send out rq env1 = (x, env2)" "o_send out rq' env1 = (y, env2)" "rel_sum (=) same_answer x y"
      using assms unfolding topic_blind_def by (metis prod.collapse)
    show ?thesis
    proof (cases v)
      case (Inl q)
      then show ?thesis by (simp add: s Some w)
    next
      case (Inr u)
      from send(3) show ?thesis
        by (cases rule: rel_sum.cases) (auto simp: s Some w Inr send(1,2) Let_def same_answer_def Suc split: sum.split)
    qed
  qed
qed

lemma parse_blind:
  assumes "same_answer r r'"
  shows "rel_prod (rel_sum (=) (\<lambda>x y. without_topic x = without_topic y)) (=) (parse_response r path False t) (parse_response r' path False t)"
  using assms by (auto simp: parse_response_def same_answer_def elim!: option.rel_cases)

text \<open>Publishing on behalf of two topics is then indistinguishable: the same result, breaker, store and environment.\<close>

lemma publish_blind:
  assumes "topic_blind out"
  shows "publish fuel out validate \<lparr>nc_topic = a\<rparr> ti me pr tg cl ac w = publish fuel out validate \<lparr>nc_topic = b\<rparr> ti me pr tg cl ac w"
proof (cases "map_of priorities pr")
  case (Some level)
  obtain t db env where w: "w = (t, db, env)" by (cases w)
  obtain cid env0 where u: "o_uuid out env = (cid, env0)" by fastforce
  let ?rq = "\<lambda>c. \<lparr>rq_method = POST, rq_path = ''/'', rq_params = None,
    rq_json = Some (publish_payload \<lparr>nc_topic = c\<rparr> ti me level tg cl ac)\<rparr>"
  let ?a = "\<lambda>c. attempts fuel out (tr_provider t) (tr_max_attempts t) ''publish'' cid (?rq c) (tr_max_attempts t) 0 NoAttempt (db, env0)"
  let ?p = "\<lambda>c. post_json fuel out ''/'' (publish_payload \<lparr>nc_topic = c\<rparr> ti me level tg cl ac) (Some ''publish'') w"
  have "same_but_topic (?rq a) (?rq b)" by (simp add: same_but_topic_def publish_payload_def)
  from attempts_blind [OF assms this] have "rel_option (rel_prod same_end (=)) (?a a) (?a b)" .
  then have "rel_option (rel_prod (rel_sum (=) (\<lambda>x y. without_topic x = without_topic y)) (=)) (?p a) (?p b)"
  proof (cases rule: option.rel_cases)
    case None
    then show ?thesis by (simp add: post_json_def request_json_def w u Let_def split: option.split)
  next
    case (Some x y)
    obtain le le' db1 env1 where xy: "x = (le, db1, env1)" "y = (le', db1, env1)" "same_end le le'"
      using Some(3) by (cases x; cases y) auto
    note s = post_json_def request_json_def w u Some(1,2) xy(1,2) Let_def
    show ?thesis
    proof (cases le)
      case (Answered r)
      then obtain r' where r': "le' = Answered r'" "same_answer r r'" using xy(3) by (cases le') auto
      show ?thesis using parse_blind [OF r'(2), of "''publish''" t] Answered r'(1)
        by (auto simp: s split: option.split prod.split)
    qed (use xy(3) in \<open>cases le'; simp add: s split: option.split\<close>)+
  qed
  then show ?thesis by (cases rule: option.rel_cases) (auto simp: publish_def Some elim!: rel_sum.cases)
qed (simp add: publish_def)

text \<open>C20. Topic hygiene. Publishing tells nobody the topic but the body of its request: with a server and a network
  that answer alike for two topics, publishing for one and for the other is indistinguishable, in the result
  (so in every exception and its text, and in the receipt), the state of the breaker, the database and
  the requests that follow; in particular neither the path of the request nor the log of calls can depend on
  it. Whatever the server answers, the rows of the log carry the fixed labels, nothing else of the
  database changes, and the receipt is built from an object without the topic. Polling has the topic in its path:
  a failed poll raises the class of the request's error with a text in which every occurrence of the topic is
  replaced by the mark, and which does not contain a topic that shares no character with the mark.\<close>

theorem topic_never_leaks:
  assumes "nc_topic client \<noteq> []"
  shows "(topic_blind out \<longrightarrow> publish fuel out validate client ti me pr tg cl ac (t, db, env)
        = publish fuel out validate \<lparr>nc_topic = other\<rparr> ti me pr tg cl ac (t, db, env))
    \<and> (publish fuel out validate client ti me pr tg cl ac (t, db, env) = Some (r, t1, db1, env1) \<longrightarrow>
      logged ''publish'' db db1 \<and> (\<forall>receipt. r = Inr receipt \<longrightarrow> (\<exists>d. get d ''topic'' = None \<and> validate d = Some receipt)))
    \<and> (poll fuel out repr rt client since (t, db, env) = Some (q, t1, db1, env1) \<longrightarrow>
      logged ''poll'' db db1 \<and> (\<forall>c text. q = Inl (c, text) \<longrightarrow>
        (\<exists>e pieces. c = class_of e \<and> rt e = joined (nc_topic client) pieces \<and> text = joined ''REDACTED'' pieces
          \<and> (\<forall>p \<in> set pieces. \<not> substring_in (nc_topic client) p)
          \<and> (set (nc_topic client) \<inter> set ''REDACTED'' = {} \<longrightarrow> \<not> substring_in (nc_topic client) text))))"
proof (intro conjI impI)
  assume "topic_blind out"
  moreover have "client = \<lparr>nc_topic = nc_topic client\<rparr>" by simp
  ultimately show "publish fuel out validate client ti me pr tg cl ac (t, db, env)
      = publish fuel out validate \<lparr>nc_topic = other\<rparr> ti me pr tg cl ac (t, db, env)" by (metis publish_blind)
next
  have none: "get (without_topic raw) ''topic'' = None" for raw
    by (auto simp: get_def without_topic_def map_of_eq_None_iff split: json.split)
  assume p: "publish fuel out validate client ti me pr tg cl ac (t, db, env) = Some (r, t1, db1, env1)"
  show "logged ''publish'' db db1" by (rule publish_logged [OF p])
  from p none show "\<forall>receipt. r = Inr receipt \<longrightarrow> (\<exists>d. get d ''topic'' = None \<and> validate d = Some receipt)"
    by (auto simp: publish_def split: option.splits sum.splits prod.splits)
next
  assume p: "poll fuel out repr rt client since (t, db, env) = Some (q, t1, db1, env1)"
  show "logged ''poll'' db db1" by (rule poll_logged [OF p])
  show "\<forall>c text. q = Inl (c, text) \<longrightarrow>
        (\<exists>e pieces. c = class_of e \<and> rt e = joined (nc_topic client) pieces \<and> text = joined ''REDACTED'' pieces
          \<and> (\<forall>p \<in> set pieces. \<not> substring_in (nc_topic client) p)
          \<and> (set (nc_topic client) \<inter> set ''REDACTED'' = {} \<longrightarrow> \<not> substring_in (nc_topic client) text))"
  proof (intro allI impI)
    fix c shown assume "q = Inl (c, shown)"
    with p have p1: "poll fuel out repr rt client since (t, db, env) = Some (Inl (c, shown), t1, db1, env1)" by simp
    show "\<exists>e pieces. c = class_of e \<and> rt e = joined (nc_topic client) pieces \<and> shown = joined ''REDACTED'' pieces
          \<and> (\<forall>p \<in> set pieces. \<not> substring_in (nc_topic client) p)
          \<and> (set (nc_topic client) \<inter> set ''REDACTED'' = {} \<longrightarrow> \<not> substring_in (nc_topic client) shown)"
      by (rule poll_error_redacted [OF p1 assms])
  qed
qed

section \<open>Firings are recorded first, and spaced\<close>

text \<open>What a check appends to the audit trail: one row per attempted alert.\<close>

definition fired_rows :: "instant \<Rightarrow> alert list \<Rightarrow> alert_row list \<Rightarrow> bool" where
  "fired_rows now as rows \<longleftrightarrow> map al_rule rows = map at_rule as \<and> map al_payload rows = map at_inputs as
     \<and> (\<forall>r \<in> set rows. al_ts r = now)"

lemma fired_rows_Cons:
  "fired_rows now (a # as) (r # rs) \<longleftrightarrow> al_rule r = at_rule a \<and> al_payload r = at_inputs a \<and> al_ts r = now \<and> fired_rows now as rs"
  by (auto simp: fired_rows_def)

definition alert_ids_ok :: "store \<Rightarrow> bool" where
  "alert_ids_ok db \<longleftrightarrow> distinct (map al_id (alerts_log db))"

lemma mark_recorded:
  assumes "record_alert a now db = (i, db1)" "logged e db1 db2"
  shows "alerts_log (mark_delivery i d s db2) = alerts_log db @
    [\<lparr>al_id = i, al_ts = now, al_rule = at_rule a, al_severity = at_severity a, al_payload = at_inputs a,
      al_delivered = d, al_ntfy_status = Some s\<rparr>]"
proof -
  have i: "i = next_id (map al_id (alerts_log db))" and l: "alerts_log db2 = alerts_log db @
    [\<lparr>al_id = i, al_ts = now, al_rule = at_rule a, al_severity = at_severity a, al_payload = at_inputs a,
      al_delivered = False, al_ntfy_status = None\<rparr>]"
    using assms by (auto simp: record_alert_def Let_def logged_def)
  have "i \<notin> al_id ` set (alerts_log db)" using next_id_fresh [of "map al_id (alerts_log db)"] by (simp add: i)
  then have "map (\<lambda>r. if al_id r = i then r\<lparr>al_delivered := d, al_ntfy_status := Some s\<rparr> else r) (alerts_log db) = alerts_log db"
    by (intro map_idI) auto
  then show ?thesis by (simp add: mark_delivery_def l)
qed

text \<open>The rows of deliveries that came to an end have a status; that of one broken off by an exception has none.\<close>

definition ended :: "alert_row \<Rightarrow> bool" where
  "ended row \<longleftrightarrow> al_ntfy_status row \<noteq> None"

definition broken_off :: "alert_row list \<Rightarrow> bool" where
  "broken_off rows \<longleftrightarrow> rows \<noteq> [] \<and> list_all ended (butlast rows) \<and> \<not> ended (last rows) \<and> \<not> al_delivered (last rows)"

lemma ended_marked [simp]:
  "ended \<lparr>al_id = i, al_ts = now, al_rule = r, al_severity = v, al_payload = d, al_delivered = b, al_ntfy_status = Some s\<rparr>"
  by (simp add: ended_def)

lemma broken_off_Cons: "ended row \<Longrightarrow> broken_off rows \<Longrightarrow> broken_off (row # rows)"
  by (simp add: broken_off_def)

lemma deliver_rows:
  assumes "deliver fuel out validate err_text client now as acc (t, db, env) = Some (r, t1, db1, env1)"
  shows "\<exists>n rows. n \<le> List.length as \<and> alerts_log db1 = alerts_log db @ rows \<and> fired_rows now (take n as) rows
    \<and> (case r of Inl _ \<Rightarrow> broken_off rows | Inr _ \<Rightarrow> list_all ended rows)
    \<and> (\<forall>fired. r = Inr fired \<longrightarrow> (\<exists>ds. fired = acc @ zip as ds \<and> List.length ds = List.length as \<and> n = List.length as
          \<and> list_all2 (\<lambda>d row. al_delivered row \<longleftrightarrow> d = Delivered) ds rows \<and> NoTopic \<notin> set ds))"
  using assms
proof (induction as arbitrary: acc t db env)
  case Nil
  then show ?case by (auto simp: fired_rows_def)
next
  case (Cons a as)
  obtain i db2 where rec: "record_alert a now db = (i, db2)" by fastforce
  let ?p = "publish fuel out validate client (at_title a) (at_message a) (at_severity a) (at_tags a) None None (t, db2, env)"
  have "?p \<noteq> None"
  proof
    assume "?p = None"
    with Cons.prems rec show False by simp
  qed
  then obtain q t3 db3 env3 where p: "?p = Some (q, t3, db3, env3)" by (metis option.exhaust prod_cases4)
  note log = publish_logged [OF p]
  have step: ?case
    if d: "deliver fuel out validate err_text client now as (acc @ [(a, d)]) (t3, mark_delivery i v s db3, env3) = Some (r, t1, db1, env1)"
      "v \<longleftrightarrow> d = Delivered" "d \<noteq> NoTopic" for d v s
  proof -
    let ?row = "\<lparr>al_id = i, al_ts = now, al_rule = at_rule a, al_severity = at_severity a, al_payload = at_inputs a,
      al_delivered = v, al_ntfy_status = Some s\<rparr>"
    from Cons.IH [OF d(1)] obtain n rows where n: "n \<le> List.length as" "alerts_log db1 = alerts_log db @ ?row # rows"
      "fired_rows now (take n as) rows" "case r of Inl _ \<Rightarrow> broken_off rows | Inr _ \<Rightarrow> list_all ended rows"
      "\<forall>fired. r = Inr fired \<longrightarrow> (\<exists>ds. fired = (acc @ [(a, d)]) @ zip as ds \<and> List.length ds = List.length as \<and> n = List.length as
          \<and> list_all2 (\<lambda>d row. al_delivered row \<longleftrightarrow> d = Delivered) ds rows \<and> NoTopic \<notin> set ds)"
      unfolding mark_recorded [OF rec log] by auto
    show ?thesis
    proof (intro exI [of _ "Suc n"] exI [of _ "?row # rows"] conjI allI impI)
      fix fired assume "r = Inr fired"
      with n(5) obtain ds where "fired = (acc @ [(a, d)]) @ zip as ds" "List.length ds = List.length as" "n = List.length as"
          "list_all2 (\<lambda>d row. al_delivered row \<longleftrightarrow> d = Delivered) ds rows" "NoTopic \<notin> set ds" by blast
      with d show "\<exists>ds. fired = acc @ zip (a # as) ds \<and> List.length ds = List.length (a # as) \<and> Suc n = List.length (a # as)
          \<and> list_all2 (\<lambda>d row. al_delivered row \<longleftrightarrow> d = Delivered) ds (?row # rows) \<and> NoTopic \<notin> set ds"
        by (intro exI [of _ "d # ds"]) auto
    next
      show "case r of Inl _ \<Rightarrow> broken_off (?row # rows) | Inr _ \<Rightarrow> list_all ended (?row # rows)"
        using n(4) by (cases r) (simp_all add: broken_off_Cons ended_def)
    qed (use n(1-3) in \<open>simp_all add: fired_rows_Cons\<close>)
  qed
  have stop: ?case if "db1 = db3" "\<nexists>f. r = Inr f"
    using log rec that
    by (intro exI [of _ 1] exI [of _ "[\<lparr>al_id = i, al_ts = now, al_rule = at_rule a, al_severity = at_severity a,
        al_payload = at_inputs a, al_delivered = False, al_ntfy_status = None\<rparr>]"])
      (auto simp: record_alert_def Let_def logged_def fired_rows_def broken_off_def ended_def split: sum.split)
  note prems = Cons.prems [unfolded deliver.simps rec Let_def prod.case p option.case]
  show ?case
  proof (cases q)
    case (Inr x)
    with prems show ?thesis by (intro step [where d = Delivered]) simp_all
  next
    case q: (Inl x)
    show ?thesis
    proof (cases "\<exists>e. x = NtfyRaised (TransportRaised e)")
      case True
      then obtain e where "x = NtfyRaised (TransportRaised e)" by blast
      with prems q show ?thesis by (intro step [where d = DeliveryFailed and v = False and s = "err_text e"]) simp_all
    next
      case False
      with prems q show ?thesis by (intro stop) (auto split: ntfy_raised.splits raised.splits)
    qed
  qed
qed

text \<open>Nothing is sent without a row: the requests sent are at most a transport's attempts for each row added.\<close>

lemma publish_sends:
  assumes "publish fuel out validate client ti me pr tg cl ac (t, db, env) = Some (r, t1, db1, env1)" "counts_sends out sent"
  shows "sent env1 \<le> sent env + tr_max_attempts t \<and> tr_max_attempts t1 = tr_max_attempts t"
  using assms(1)
  by (auto simp: publish_def post_json_def split: option.splits sum.splits prod.splits dest!: request_sends [OF _ assms(2)])

lemma record_alert_adds: "record_alert a now db = (i, db1) \<Longrightarrow> List.length (alerts_log db1) = Suc (List.length (alerts_log db))"
  by (auto simp: record_alert_def Let_def)

lemma logged_alerts: "logged e db db1 \<Longrightarrow> alerts_log db1 = alerts_log db"
  by (auto simp: logged_def)

lemma deliver_sends:
  assumes "deliver fuel out validate err_text client now as acc (t, db, env) = Some (r, t1, db1, env1)" "counts_sends out sent"
  shows "sent env1 + tr_max_attempts t * List.length (alerts_log db) \<le> sent env + tr_max_attempts t * List.length (alerts_log db1)"
  using assms(1)
proof (induction as arbitrary: acc t db env)
  case (Cons a as)
  obtain i db2 where rec: "record_alert a now db = (i, db2)" by fastforce
  let ?p = "publish fuel out validate client (at_title a) (at_message a) (at_severity a) (at_tags a) None None (t, db2, env)"
  have "?p \<noteq> None"
  proof
    assume "?p = None"
    with Cons.prems rec show False by simp
  qed
  then obtain q t3 db3 env3 where p: "?p = Some (q, t3, db3, env3)" by (metis option.exhaust prod_cases4)
  have rows: "List.length (alerts_log db3) = Suc (List.length (alerts_log db))"
    using record_alert_adds [OF rec] logged_alerts [OF publish_logged [OF p]] by simp
  note sends = publish_sends [OF p assms(2)]
  have step: ?case
    if "deliver fuel out validate err_text client now as acc' (t3, mark_delivery i v s db3, env3) = Some (r, t1, db1, env1)" for acc' v s
    using Cons.IH [OF that] sends rows by (simp add: mark_delivery_def)
  have stop: ?case if "db1 = db3" "env1 = env3" using that sends rows by simp
  note prems = Cons.prems [unfolded deliver.simps rec Let_def prod.case p option.case]
  then show ?case using step stop by (auto split: sum.splits ntfy_raised.splits raised.splits)
qed simp

lemma new_client_attempts: "new_ntfy_client settings topic = Inr (client, t) \<Longrightarrow> tr_max_attempts t = 4"
  by (auto simp: new_ntfy_client_def new_transport_def split: sum.splits if_splits)

lemma record_undelivered_rows:
  "\<exists>rows. alerts_log (fold (record_undelivered now) as db) = alerts_log db @ rows \<and> fired_rows now as rows
     \<and> list_all (\<lambda>r. \<not> al_delivered r) rows \<and> list_all ended rows"
proof (induction as arbitrary: db)
  case (Cons a as)
  obtain i db2 where rec: "record_alert a now db = (i, db2)" by fastforce
  have "record_undelivered now a db = mark_delivery i False ''no-topic'' db2" by (simp add: record_undelivered_def rec)
  then have "alerts_log (record_undelivered now a db) = alerts_log db @ [\<lparr>al_id = i, al_ts = now, al_rule = at_rule a,
      al_severity = at_severity a, al_payload = at_inputs a, al_delivered = False, al_ntfy_status = Some ''no-topic''\<rparr>]"
    using mark_recorded [OF rec logged_refl] by simp
  moreover obtain rows where "alerts_log (fold (record_undelivered now) as (record_undelivered now a db))
      = alerts_log (record_undelivered now a db) @ rows" "fired_rows now as rows" "list_all (\<lambda>r. \<not> al_delivered r) rows" "list_all ended rows"
    using Cons.IH by blast
  ultimately show ?case
    by (intro exI [of _ "\<lparr>al_id = i, al_ts = now, al_rule = at_rule a, al_severity = at_severity a, al_payload = at_inputs a,
        al_delivered = False, al_ntfy_status = Some ''no-topic''\<rparr> # rows"]) (simp add: fired_rows_Cons)
qed (simp add: fired_rows_def)

text \<open>The three ways a check that evaluated its rules goes on: nobody to tell (or nothing to tell), no client, or a
  delivery that comes to an end or is broken off.\<close>

lemma check_without_topic:
  fixes out :: "'e outside"
  assumes "(if fire = [] then None else topic) = None"
  shows "\<exists>rows. alerts_log (fold (record_undelivered now) fire db) = alerts_log db @ rows \<and> fired_rows now fire rows
    \<and> list_all ended rows \<and> list_all2 (\<lambda>f row. al_delivered row \<longleftrightarrow> snd f = Delivered) (map (\<lambda>a. (a, NoTopic)) fire) rows
    \<and> (fire \<noteq> [] \<longleftrightarrow> (\<exists>row \<in> set rows. \<not> al_delivered row))"
proof -
  obtain rows where rows: "alerts_log (fold (record_undelivered now) fire db) = alerts_log db @ rows"
    "fired_rows now fire rows" "list_all (\<lambda>r. \<not> al_delivered r) rows" "list_all ended rows" using record_undelivered_rows by blast
  have len: "List.length rows = List.length fire" using rows(2) unfolding fired_rows_def by (metis length_map)
  have und: "list_all2 (\<lambda>f row. al_delivered row \<longleftrightarrow> snd f = Delivered) (map (\<lambda>a. (a, NoTopic)) as) rs"
    if "list_all (\<lambda>r. \<not> al_delivered r) rs" "List.length rs = List.length as" for as :: "alert list" and rs
    using that by (induction as arbitrary: rs) (auto simp: length_Suc_conv)
  have "fire \<noteq> [] \<longleftrightarrow> (\<exists>row \<in> set rows. \<not> al_delivered row)" using rows(3) len by (cases rows) auto
  with rows und [OF rows(3) len] show ?thesis by blast
qed

lemma delivered_zip:
  assumes "List.length ds = List.length as" "list_all2 (\<lambda>d row. al_delivered row \<longleftrightarrow> d = Delivered) ds rs" "NoTopic \<notin> set ds"
  shows "map fst (zip as ds) = as \<and> list_all2 (\<lambda>f row. al_delivered row \<longleftrightarrow> snd f = Delivered) (zip as ds) rs
    \<and> ((\<exists>x \<in> set (zip as ds). snd x = DeliveryFailed) \<longleftrightarrow> (\<exists>row \<in> set rs. \<not> al_delivered row))"
  using assms
proof (induction as arbitrary: ds rs)
  case (Cons a as)
  then show ?case by (cases ds; cases rs) (auto, (metis delivery.exhaust)+)
qed auto

lemma check_with_client:
  assumes "deliver fuel out validate err_text client now fire [] (t, db, env) = Some (q, t2, db2, env2)" "tr_max_attempts t = 4"
  shows "\<exists>n rows. n \<le> List.length fire \<and> alerts_log db2 = alerts_log db @ rows \<and> fired_rows now (take n fire) rows
    \<and> (\<forall>sent. counts_sends out sent \<longrightarrow> sent env2 \<le> sent env + 4 * n)
    \<and> (case q of Inl _ \<Rightarrow> broken_off rows
       | Inr fired \<Rightarrow> n = List.length fire \<and> map fst fired = fire \<and> list_all ended rows
           \<and> list_all2 (\<lambda>f row. al_delivered row \<longleftrightarrow> snd f = Delivered) fired rows
           \<and> ((\<exists>x \<in> set fired. snd x = DeliveryFailed) \<longleftrightarrow> (\<exists>row \<in> set rows. \<not> al_delivered row)))"
proof -
  from deliver_rows [OF assms(1)] obtain n rows where rows: "n \<le> List.length fire" "alerts_log db2 = alerts_log db @ rows"
    "fired_rows now (take n fire) rows" "case q of Inl _ \<Rightarrow> broken_off rows | Inr _ \<Rightarrow> list_all ended rows"
    "\<forall>fired. q = Inr fired \<longrightarrow> (\<exists>ds. fired = zip fire ds \<and> List.length ds = List.length fire \<and> n = List.length fire
      \<and> list_all2 (\<lambda>d row. al_delivered row \<longleftrightarrow> d = Delivered) ds rows \<and> NoTopic \<notin> set ds)" by auto
  have len: "List.length rows = n" using rows(1,3) unfolding fired_rows_def by (metis length_map length_take min.absorb2)
  have "sent env2 \<le> sent env + 4 * n" if "counts_sends out sent" for sent
    using deliver_sends [OF assms(1) that] by (simp add: assms(2) rows(2) len)
  moreover have "case q of Inl _ \<Rightarrow> broken_off rows
       | Inr fired \<Rightarrow> n = List.length fire \<and> map fst fired = fire \<and> list_all ended rows
           \<and> list_all2 (\<lambda>f row. al_delivered row \<longleftrightarrow> snd f = Delivered) fired rows
           \<and> ((\<exists>x \<in> set fired. snd x = DeliveryFailed) \<longleftrightarrow> (\<exists>row \<in> set rows. \<not> al_delivered row))"
  proof (cases q)
    case (Inr fired)
    with rows(5) obtain ds where ds: "fired = zip fire ds" "List.length ds = List.length fire" "n = List.length fire"
      "list_all2 (\<lambda>d row. al_delivered row \<longleftrightarrow> d = Delivered) ds rows" "NoTopic \<notin> set ds" by blast
    from delivered_zip [OF ds(2,4,5)] rows(4) show ?thesis unfolding Inr ds(1) by (simp add: ds(3))
  qed (use rows(4) in simp)
  ultimately show ?thesis using rows(1-3) by blast
qed

lemma check_records_every_firing_facts:
  assumes "alerts_check fuel out pct_repr validate err_text settings topic health now (db, env) = Some (res, db1, env1)"
    "evaluate pct_repr db settings now (Some health) = Inr alerts"
  shows "let fire = filter (\<lambda>a. \<not> cooling db settings now a) alerts in
    \<exists>n rows. n \<le> List.length fire \<and> alerts_log db1 = alerts_log db @ rows \<and> fired_rows now (take n fire) rows
    \<and> (\<forall>sent. counts_sends out sent \<longrightarrow> sent env1 \<le> sent env + 4 * n)
    \<and> (case res of Reported fired suppressed degraded \<Rightarrow>
         n = List.length fire \<and> map fst fired = fire \<and> suppressed = filter (cooling db settings now) alerts
         \<and> list_all ended rows \<and> list_all2 (\<lambda>f row. al_delivered row \<longleftrightarrow> snd f = Delivered) fired rows
         \<and> (degraded \<longleftrightarrow> (\<exists>row \<in> set rows. \<not> al_delivered row))
       | _ \<Rightarrow> fire \<noteq> [] \<and> (\<exists>name. topic = Some name \<and> (case new_ntfy_client settings name of
             Inl _ \<Rightarrow> rows = [] \<and> env1 = env | Inr _ \<Rightarrow> broken_off rows)))"
proof -
  define fire where "fire = filter (\<lambda>a. \<not> cooling db settings now a) alerts"
  let ?late = "filter (cooling db settings now) alerts"
  have cool: "apply_cooldown db alerts settings now = (fire, ?late)" by (simp add: apply_cooldown_def fire_def o_def)
  note run = assms(1) [unfolded alerts_check_def assms(2) Let_def prod.case sum.case cool]
  show ?thesis
  proof (cases "if fire = [] then None else topic")
    case None
    from check_without_topic [OF this] obtain rows where rows: "alerts_log (fold (record_undelivered now) fire db) = alerts_log db @ rows"
      "fired_rows now fire rows" "list_all ended rows"
      "list_all2 (\<lambda>f row. al_delivered row \<longleftrightarrow> snd f = Delivered) (map (\<lambda>a. (a, NoTopic)) fire) rows"
      "fire \<noteq> [] \<longleftrightarrow> (\<exists>row \<in> set rows. \<not> al_delivered row)" by blast
    have "res = Reported (map (\<lambda>a. (a, NoTopic)) fire) ?late (fire \<noteq> [])"
      "db1 = fold (record_undelivered now) fire db" "env1 = env" using run unfolding None by simp_all
    with rows show ?thesis unfolding Let_def fire_def [symmetric]
      by (intro exI [of _ "List.length fire"] exI [of _ rows]) (simp add: o_def)
  next
    case (Some name)
    then have tell: "fire \<noteq> []" "topic = Some name" by (auto split: if_splits)
    show ?thesis
    proof (cases "new_ntfy_client settings name")
      case (Inl e)
      with run Some have "res = Uncaught" "db1 = db" "env1 = env" by simp_all
      with tell Inl show ?thesis unfolding Let_def fire_def [symmetric]
        by (intro exI [of _ 0] exI [of _ "[]"]) (simp add: fired_rows_def)
    next
      case (Inr ct)
      obtain client t where ct: "ct = (client, t)" by fastforce
      let ?d = "deliver fuel out validate err_text client now fire [] (t, db, env)"
      note run2 = run [unfolded Some option.case Inr ct sum.case prod.case]
      have "?d \<noteq> None" using run2 by (cases ?d) simp_all
      then obtain q t2 db2 env2 where d: "?d = Some (q, t2, db2, env2)" by (metis option.exhaust prod_cases4)
      have "db1 = db2 \<and> env1 = env2" and res: "case q of Inl _ \<Rightarrow> res = Uncaught \<or> (\<exists>e. res = QuotaFailure e)
          | Inr fired \<Rightarrow> res = Reported fired ?late (\<exists>x \<in> set fired. snd x = DeliveryFailed)"
        using run2 unfolding d option.case prod.case by (auto split: sum.splits ntfy_raised.splits raised.splits)
      with check_with_client [OF d new_client_attempts [OF Inr [unfolded ct]]] tell show ?thesis
        unfolding Let_def fire_def [symmetric] by (cases q) (auto simp: Inr)
    qed
  qed
qed

text \<open>C17. Recorded first, never lost. However a check ends, what it appended to the audit trail are the firings it
  got to, in order, each with the inputs that tripped it, and nothing was sent for any other: the requests sent are
  at most the four attempts of each row. A check that reports recorded all the alerts not cooling down; a row
  is marked delivered exactly when its notification was, and the degraded exit says that some row was not. A check
  broken off in the middle (an exhausted quota, an answer that is no receipt) has the row of the alert it was
  delivering, without a status, behind those of the alerts before it; only when no client can be made for the
  server at all does it end before the first row, and then nothing was sent.\<close>

theorem check_records_every_firing:
  assumes "alerts_check fuel out pct_repr validate err_text settings topic health now (db, env) = Some (res, db1, env1)"
    "evaluate pct_repr db settings now (Some health) = Inr alerts"
  shows "let fire = filter (\<lambda>a. \<not> cooling db settings now a) alerts in
    \<exists>n rows. n \<le> List.length fire \<and> alerts_log db1 = alerts_log db @ rows \<and> fired_rows now (take n fire) rows
    \<and> (\<forall>sent. counts_sends out sent \<longrightarrow> sent env1 \<le> sent env + 4 * n)
    \<and> (case res of Reported fired suppressed degraded \<Rightarrow>
         n = List.length fire \<and> map fst fired = fire \<and> suppressed = filter (cooling db settings now) alerts
         \<and> list_all ended rows \<and> list_all2 (\<lambda>f row. al_delivered row \<longleftrightarrow> snd f = Delivered) fired rows
         \<and> (degraded \<longleftrightarrow> (\<exists>row \<in> set rows. \<not> al_delivered row))
       | _ \<Rightarrow> fire \<noteq> [] \<and> (\<exists>name. topic = Some name \<and> (case new_ntfy_client settings name of
             Inl _ \<Rightarrow> rows = [] \<and> env1 = env | Inr _ \<Rightarrow> broken_off rows)))"
  using assms by (rule check_records_every_firing_facts)

lemma empty_evaluation:
  "evaluate pr empty_store default_settings now (Some [])
     = Inr [stale_alert default_settings ''no snapshots recorded at all'' JNull JNull]"
proof -
  have l: "latest_inputs empty_store = Some None" by (simp add: latest_inputs_def newest_open_state_def empty_store_def)
  have q: "summaries empty_store now = Inr []" by (simp add: summaries_def empty_store_def)
  have s: "newest_snapshot_ts empty_store = None" by (simp add: newest_snapshot_ts_def empty_store_def)
  have "hedge_alerts empty_store default_settings = Some []" by (simp add: hedge_alerts_def l)
  then show ?thesis
    by (simp add: evaluate_def quota_alerts_def q or_python_def staleness_alert_def s option_list_def health_alert_def)
qed

lemma check_records_every_firing_witness:
  "\<exists>fired db1 env1. alerts_check 5 failing_outside (\<lambda>_. ''0.0'') Some (\<lambda>_. ''error'') default_settings None [] 60 (empty_store, (0, 0))
       = Some (Reported fired [] True, db1, env1)
     \<and> map al_rule (alerts_log db1) = [''snapshot-stale''] \<and> \<not> al_delivered (hd (alerts_log db1))"
proof -
  have c: "\<not> cooling empty_store default_settings 60 a" for a by (simp add: cooling_iff empty_store_def)
  have e: "alerts_log empty_store = []" by (simp add: empty_store_def)
  have run: "\<exists>fired db1 env1. alerts_check 5 failing_outside (\<lambda>_. ''0.0'') Some (\<lambda>_. ''error'') default_settings None [] 60 (empty_store, (0, 0))
      = Some (Reported fired [] True, db1, env1)"
    by (simp add: alerts_check_def empty_evaluation apply_cooldown_def c)
  then obtain fired db1 env1 where r: "alerts_check 5 failing_outside (\<lambda>_. ''0.0'') Some (\<lambda>_. ''error'') default_settings None [] 60 (empty_store, (0, 0))
      = Some (Reported fired [] True, db1, env1)" by blast
  from check_records_every_firing [OF r empty_evaluation]
  have rows: "fired_rows 60 [stale_alert default_settings ''no snapshots recorded at all'' JNull JNull] (alerts_log db1)"
    "\<exists>row \<in> set (alerts_log db1). \<not> al_delivered row" unfolding Let_def by (auto simp: c e)
  then have "map al_rule (alerts_log db1) = [''snapshot-stale'']" by (simp add: fired_rows_def stale_alert_def)
  with rows r show ?thesis by (cases "alerts_log db1") auto
qed

text \<open>A history of the database: checks at times that do not run backwards, with anything in between that
  leaves the audit trail alone.\<close>

inductive check_history :: "settings \<Rightarrow> store \<Rightarrow> instant \<Rightarrow> store \<Rightarrow> instant \<Rightarrow> bool" for settings where
  start: "check_history settings db t db t"
| other: "check_history settings db t db1 u \<Longrightarrow> alerts_log db2 = alerts_log db1 \<Longrightarrow> check_history settings db t db2 u"
| checked: "check_history settings db t db1 u \<Longrightarrow> u \<le> now \<Longrightarrow>
    (\<exists>fuel (out :: nat outside) pct_repr (validate :: dict \<Rightarrow> unit option) err_text topic health env res env2.
       alerts_check fuel out pct_repr validate err_text settings topic health now (db1, env) = Some (res, db2, env2)) \<Longrightarrow>
    check_history settings db t db2 now"

text \<open>C18. Cooldown: over any history of checks, two firings of the same rule are of the same check or at
  least the cooldown apart, whatever was delivered.\<close>

theorem firings_spaced:
  assumes "check_history settings db t db1 u" "alerts_log db = []"
  shows "spaced (minutes (alert_cooldown_minutes settings)) (alerts_log db1)"
proof -
  let ?w = "minutes (alert_cooldown_minutes settings)"
  have later: "stamped_by t rows \<Longrightarrow> t \<le> u \<Longrightarrow> stamped_by u rows" for t u rows by (fastforce simp: stamped_by_def)
  from assms have "spaced ?w (alerts_log db1) \<and> stamped_by u (alerts_log db1)"
  proof (induction rule: check_history.induct)
    case (checked db t db1 u now db2)
    then obtain fuel and out :: "nat outside" and pr and validate :: "dict \<Rightarrow> unit option" and et topic health env res env2
      where run: "alerts_check fuel out pr validate et settings topic health now (db1, env) = Some (res, db2, env2)" by blast
    have old: "spaced ?w (alerts_log db1)" "stamped_by now (alerts_log db1)" using checked later by blast+
    show ?case
    proof (cases "evaluate pr db1 settings now (Some health)")
      case (Inl e)
      with run old show ?thesis by (auto simp: alerts_check_def split: alert_error.splits)
    next
      case (Inr alerts)
      let ?fire = "filter (\<lambda>a. \<not> cooling db1 settings now a) alerts"
      from check_records_every_firing_facts [OF run Inr] obtain n rows where rows: "alerts_log db2 = alerts_log db1 @ rows"
        "fired_rows now (take n ?fire) rows" unfolding Let_def by blast
      have "\<exists>a \<in> set ?fire. at_rule a = al_rule r" if "r \<in> set rows" for r
      proof -
        have "al_rule r \<in> set (map at_rule (take n ?fire))"
          using rows(2) that unfolding fired_rows_def by (metis imageI list.set_map)
        then obtain a where "a \<in> set (take n ?fire)" "at_rule a = al_rule r" by auto
        with in_set_takeD show ?thesis by metis
      qed
      then have "\<forall>r \<in> set rows. \<forall>s \<in> set (alerts_log db1). al_rule s = al_rule r \<longrightarrow> ?w \<le> now - al_ts s"
        by (fastforce simp: cooling_iff not_less)
      with spaced_append [OF old, of rows] rows(2) show ?thesis by (simp add: rows(1) fired_rows_def)
    qed
  qed (auto simp: spaced_def stamped_by_def)
  then show ?thesis ..
qed

text \<open>A server that echoes the whole body of a request, the topic included.\<close>

definition echo_outside :: "(instant \<times> nat) outside" where
  "echo_outside = failing_outside\<lparr>o_send := (\<lambda>rq (t, n). (Inr \<lparr>rs_status = 200, rs_size = 50,
     rs_json = map_option JObj (rq_json rq), rs_lines = None\<rparr>, (t + 5, Suc n)))\<rparr>"

lemma echo_blind: "topic_blind echo_outside"
proof -
  have "rel_option (\<lambda>x y. without_topic x = without_topic y) (map_option JObj (rq_json rq)) (map_option JObj (rq_json rq'))"
    if "same_but_topic rq rq'" for rq rq'
    using that by (cases "rq_json rq"; cases "rq_json rq'") (simp_all add: same_but_topic_def without_topic_def)
  then show ?thesis by (simp add: topic_blind_def echo_outside_def same_answer_def case_prod_beta)
qed

lemma topic_never_leaks_witness:
  "publish 5 echo_outside Some \<lparr>nc_topic = ''my-topic''\<rparr> ''t'' ''m'' ''high'' [] None None (example_transport, empty_store, (0, 0))
     = publish 5 echo_outside Some \<lparr>nc_topic = ''another''\<rparr> ''t'' ''m'' ''high'' [] None None (example_transport, empty_store, (0, 0))
   \<and> logged ''poll'' empty_store (fst (snd (snd (the (poll 5 failing_outside (\<lambda>_. []) (\<lambda>_. ''no route to https://ntfy.sh/my-topic/json'')
     \<lparr>nc_topic = ''my-topic''\<rparr> 0 (example_transport, empty_store, (0, 0)))))))"
proof -
  let ?p = "poll 5 failing_outside (\<lambda>_. []) (\<lambda>_. ''no route to https://ntfy.sh/my-topic/json'')
     \<lparr>nc_topic = ''my-topic''\<rparr> 0 (example_transport, empty_store, (0, 0))"
  have "?p \<noteq> None" by code_simp
  then obtain q t1 db1 env1 where p: "?p = Some (q, t1, db1, env1)" by (metis option.exhaust prod_cases4)
  have "nc_topic \<lparr>nc_topic = ''my-topic''\<rparr> \<noteq> []" by simp
  note facts = topic_never_leaks [OF this, where validate = Some]
  have "logged ''poll'' empty_store db1" by (rule facts [THEN conjunct2, THEN conjunct2, THEN mp, OF p, THEN conjunct1])
  then show ?thesis by (intro conjI facts [THEN conjunct1, THEN mp, OF echo_blind]) (simp add: p)
qed

lemma firings_spaced_witness:
  "\<exists>db. check_history default_settings empty_store 0 db 60 \<and> alerts_log db \<noteq> [] \<and> spaced (minutes 60) (alerts_log db)"
proof -
  let ?out = "\<lparr>o_clock = (\<lambda>_. 0), o_sleep = (\<lambda>_ e. e), o_send = (\<lambda>_ e. (Inl ''down'', e)),
    o_jitter = (\<lambda>_ e. (0, e)), o_uuid = (\<lambda>e. (''id'', e)), o_millis = (\<lambda>_. 0)\<rparr> :: nat outside"
  have c: "\<not> cooling empty_store default_settings 60 a" for a by (simp add: cooling_iff empty_store_def)
  define db where "db = record_undelivered 60 (stale_alert default_settings ''no snapshots recorded at all'' JNull JNull) empty_store"
  have run: "\<exists>res. alerts_check 5 ?out (\<lambda>_. ''0.0'') (\<lambda>_. Some ()) (\<lambda>_. ''error'') default_settings None [] 60 (empty_store, 0)
      = Some (res, db, 0)"
    by (simp add: alerts_check_def empty_evaluation apply_cooldown_def c db_def)
  then have h: "check_history default_settings empty_store 0 db 60"
    by (intro check_history.checked [OF check_history.start]) (simp, blast)
  have "alerts_log db \<noteq> []"
    by (simp add: db_def record_undelivered_def record_alert_def Let_def mark_delivery_def)
  with firings_spaced [OF h] h show ?thesis
    by (intro exI [of _ db]) (simp add: empty_store_def default_settings_def)
qed

end
