(* ===== verification/Digest.thy ===== *)
theory Digest
  imports Dashboard Ntfy
begin

text \<open>
  \<open>watchdog/digest.py\<close>: the daily digest, composed from the dashboard's views and delivered with ntfy.
  \<open>repr\<close> stands for Python's \<open>str\<close> of a JSON container. Symbols are spelled in UTF-8.
\<close>

section \<open>Texts\<close>

definition times_sign :: string where "times_sign = [CHR 0xC3, CHR 0x97]"

definition delta_sign :: string where "delta_sign = [CHR 0xCE, CHR 0x94]"

definition at_least_sign :: string where "at_least_sign = [CHR 0xE2, CHR 0x89, CHR 0xA5]"

definition check_mark :: string where "check_mark = [CHR 0xE2, CHR 0x9C, CHR 0x85]"

definition warning_sign :: string where "warning_sign = [CHR 0xE2, CHR 0x9A, CHR 0xA0, CHR 0xEF, CHR 0xB8, CHR 0x8F]"

text \<open>\<open>format(d, ".4f")\<close>.\<close>

definition fixed4 :: "decimal \<Rightarrow> string" where
  "fixed4 d =
     (let n = div_half_even (scaled_num (dcoef d) (dexp d + 4)) (scaled_den 1 (dexp d + 4))
      in sign_str d @ nat_str (n div 10000) @ ''.'' @ pad 4 (nat_str (n mod 10000)))"

definition reason_text :: "run_rate_reason \<Rightarrow> string" where
  "reason_text r = (case r of
     TooFewSamples \<Rightarrow> ''needs '' @ at_least_sign @ '' 2 hedge samples''
   | FeeNotRecorded \<Rightarrow> ''funding fee not recorded in both samples''
   | NonPositiveInterval \<Rightarrow> ''non-positive sample interval'')"

text \<open>\<open>str(d.get(k))\<close>.\<close>

definition value_text :: "(json \<Rightarrow> string) \<Rightarrow> dict \<Rightarrow> string \<Rightarrow> string" where
  "value_text repr d k = (let v = get_default d k JNull in case str_of v of Some s \<Rightarrow> s | None \<Rightarrow> repr v)"

section \<open>The digest\<close>

record digest =
  dg_title :: string
  dg_message :: string
  dg_all_ok :: bool
  dg_priority :: string
  dg_tags :: "string list"
  dg_concerns :: "string list"

definition near_sl_pct :: decimal where "near_sl_pct = dint 3"

definition near_floor_pct :: decimal where "near_floor_pct = dint 5"

definition nearer :: "decimal option \<Rightarrow> decimal \<Rightarrow> bool" where
  "nearer d limit = (case d of None \<Rightarrow> False | Some x \<Rightarrow> dlt (dabs 28 x) limit)"

text \<open>\<open>value or Decimal(0)\<close>.\<close>

definition or_zero :: "decimal option \<Rightarrow> decimal" where
  "or_zero d = (case d of None \<Rightarrow> dint 0 | Some x \<Rightarrow> if deq x (dint 0) then dint 0 else x)"

text \<open>The lines and concerns of the position, then those of the derived metrics.\<close>

definition lp_part :: "(json \<Rightarrow> string) \<Rightarrow> source_panel \<Rightarrow> string list \<times> string list" where
  "lp_part repr lp =
     (case pn_entries lp of
        e # _ \<Rightarrow>
          if pe_state e \<noteq> []
          then ([''LP: '' @ (if truthy (get_default (pe_state e) ''in_range'' JNull) then ''in range'' else ''OUT OF RANGE'')
                  @ '' @ $'' @ value_text repr (pe_state e) ''price_usd''],
                if get_default (pe_state e) ''in_range'' JNull = JBool False then [''LP out of range''] else [])
          else ([''LP: no open position''], [''no LP position''])
      | [] \<Rightarrow> ([''LP: no open position''], [''no LP position'']))"

definition derived_part :: "(json \<Rightarrow> string) \<Rightarrow> derived_view option \<Rightarrow> string list \<times> string list" where
  "derived_part repr dv =
     (case dv of
        None \<Rightarrow> ([''Hedge/derived: unavailable (no priced LP + hedge)''], [''no derived metrics''])
      | Some v \<Rightarrow>
          let a = dv_analysis v;
              net_delta = dsub 28 (or_zero (decimal_field a ''lp_delta_eth'')) (or_zero (decimal_field a ''short_size_eth''));
              dsl = decimal_field a ''distance_to_sl_pct'';
              dfl = decimal_field a ''distance_to_floor_pct''
          in ([''Hedge: coverage '' @ (if get_default a ''coverage_ratio_eth'' JNull = JNull then ''n/a'' else value_text repr a ''coverage_ratio_eth'')
                 @ times_sign @ '', net '' @ delta_sign @ '' '' @ fixed4 net_delta @ '' ETH, quadrant '' @ value_text repr a ''quadrant'']
                @ (case dsl of None \<Rightarrow> [] | Some d \<Rightarrow> [''dist to SL: '' @ dec_str d @ ''%''])
                @ [''rebalance: '' @ (if truthy (get_default a ''rebalance_needed'' JNull) then ''NEEDED'' else ''ok''),
                   ''funding/day: '' @ (case dv_run_rate v of Inr r \<Rightarrow> ''$'' @ dec_str r | Inl why \<Rightarrow> reason_text why)]
                @ (case dv_hedge_upnl_usd v of None \<Rightarrow> [] | Some u \<Rightarrow> [''hedge uPnL: $'' @ u]),
              (if nearer dsl near_sl_pct then [''near stop-loss ('' @ dec_str (the dsl) @ ''%)''] else [])
                @ (if nearer dfl near_floor_pct then [''near range floor ('' @ dec_str (the dfl) @ ''%)''] else [])))"

fun semicolon_join :: "string list \<Rightarrow> string" where
  "semicolon_join [] = []"
| "semicolon_join [c] = c"
| "semicolon_join (c # d # cs) = c @ ''; '' @ semicolon_join (d # cs)"

definition digest_of :: "string list \<Rightarrow> string list \<Rightarrow> digest" where
  "digest_of report concerns =
     (let all_ok = (concerns = []); message = join_with (CHR 0x0A) report
      in \<lparr>dg_title = ''dexpaprika '' @ dash @ (if all_ok then '' all clear '' @ check_mark else '' attention '' @ warning_sign),
          dg_message = (if all_ok then message else message @ [CHR 0x0A, CHR 0x0A] @ ''Concerns: '' @ semicolon_join concerns),
          dg_all_ok = all_ok, dg_priority = (if all_ok then ''low'' else ''default''),
          dg_tags = (if all_ok then [''white_check_mark''] else [''warning'']), dg_concerns = concerns\<rparr>)"

text \<open>\<open>None\<close>: the derived metrics raise.\<close>

definition build_digest :: "(json \<Rightarrow> string) \<Rightarrow> store \<Rightarrow> settings \<Rightarrow> instant \<Rightarrow> digest option" where
  "build_digest repr db settings now =
     (let stale_after = seconds (snapshot_staleness_minutes settings * 60);
          lp = panel_of db now stale_after (''lp'', [KLp]);
          hedge = panel_of db now stale_after (''hedge'', [KPerp])
      in map_option (\<lambda>dv. digest_of (fst (lp_part repr lp) @ fst (derived_part repr dv))
             ((if pn_stale lp then [''LP data stale''] else []) @ (if pn_stale hedge then [''hedge data stale''] else [])
                @ snd (lp_part repr lp) @ snd (derived_part repr dv)))
           (derived repr db settings))"

datatype digest_error = DigestPython | DigestTransport transport_error | DigestNtfy ntfy_raised

record digest_result =
  dr_sent :: bool
  dr_reason :: "string option"
  dr_digest :: digest

text \<open>\<open>validate\<close> is that of the receipt; the outer \<open>None\<close> is a wait that does not return.\<close>

definition send_digest :: "nat \<Rightarrow> 'e outside \<Rightarrow> (json \<Rightarrow> string) \<Rightarrow> (dict \<Rightarrow> 'r option) \<Rightarrow> secret_sources \<Rightarrow> settings \<Rightarrow> instant
    \<Rightarrow> store \<times> 'e \<Rightarrow> ((digest_error + digest_result) \<times> store \<times> 'e) option" where
  "send_digest fuel out repr validate src settings now w =
     (let (db, env) = w in
      case build_digest repr db settings now of
        None \<Rightarrow> Some (Inl DigestPython, w)
      | Some d \<Rightarrow>
          (case resolve_secret src settings ''ntfy_topic'' of
             None \<Rightarrow> Some (Inr \<lparr>dr_sent = False, dr_reason = Some ''ntfy_topic not configured'', dr_digest = d\<rparr>, w)
           | Some topic \<Rightarrow>
               (case new_ntfy_client settings topic of
                  Inl e \<Rightarrow> Some (Inl (DigestTransport e), w)
                | Inr (client, t) \<Rightarrow>
                    (case publish fuel out validate client (dg_title d) (dg_message d) (dg_priority d) (dg_tags d) None None (t, db, env) of
                       None \<Rightarrow> None
                     | Some (Inl e, t1, db1, env1) \<Rightarrow> Some (Inl (DigestNtfy e), db1, env1)
                     | Some (Inr receipt, t1, db1, env1) \<Rightarrow>
                         Some (Inr \<lparr>dr_sent = True, dr_reason = None, dr_digest = d\<rparr>, db1, env1)))))"

section \<open>What all clear means\<close>

text \<open>The newest snapshot of a source is no older than the limit.\<close>

definition source_fresh :: "store \<Rightarrow> settings \<Rightarrow> instant \<Rightarrow> string \<Rightarrow> bool" where
  "source_fresh db settings now kind \<longleftrightarrow>
     list_ex (\<lambda>s. s_kind s = kind \<and> now - s_ts s \<le> seconds (snapshot_staleness_minutes settings * 60)) (snapshots db)"

lemma panel_fresh: "pn_stale (panel_of db now (seconds (snapshot_staleness_minutes settings * 60)) (kind, ks)) \<longleftrightarrow> \<not> source_fresh db settings now kind"
proof (cases "latest (map s_ts (filter (\<lambda>s. s_kind s = kind) (snapshots db)))")
  case None
  then have "filter (\<lambda>s. s_kind s = kind) (snapshots db) = []" by (auto simp: latest_def split: list.splits)
  with None show ?thesis by (auto simp: panel_of_def source_staleness_def Let_def source_fresh_def filter_empty_conv list_ex_iff)
next
  case (Some t)
  from latest_max [OF Some] show ?thesis
    using Some by (force simp: panel_of_def source_staleness_def Let_def source_fresh_def list_ex_iff)
qed

lemma digest_of_fields: "dg_all_ok (digest_of ls cs) = (cs = [])" "dg_concerns (digest_of ls cs) = cs"
  "dg_priority (digest_of ls cs) = ''low'' \<longleftrightarrow> cs = []"
  by (simp_all add: digest_of_def Let_def)

lemma all_clear_facts:
  assumes "build_digest repr db settings now = Some d"
  shows "dg_all_ok d = (dg_concerns d = [])" "dg_priority d = ''low'' \<longleftrightarrow> dg_all_ok d"
    "dg_all_ok d \<longleftrightarrow> source_fresh db settings now ''lp'' \<and> source_fresh db settings now ''hedge''
    \<and> snd (lp_part repr (panel_of db now 0 (''lp'', [KLp]))) = []
    \<and> (\<exists>dv. derived repr db settings = Some dv \<and> snd (derived_part repr dv) = [])"
proof -
  have p: "lp_part repr (panel_of db now s pk) = lp_part repr (panel_of db now 0 pk)" for s pk
    by (simp add: lp_part_def panel_of_def Let_def)
  obtain dv ls where d: "derived repr db settings = Some dv" "d = digest_of ls
      ((if \<not> source_fresh db settings now ''lp'' then [''LP data stale''] else [])
       @ (if \<not> source_fresh db settings now ''hedge'' then [''hedge data stale''] else [])
       @ snd (lp_part repr (panel_of db now 0 (''lp'', [KLp]))) @ snd (derived_part repr dv))"
    using assms p [of "seconds (snapshot_staleness_minutes settings * 60)" "(''lp'', [KLp])"]
    by (auto simp only: build_digest_def Let_def panel_fresh map_option_eq_Some)
  show "dg_all_ok d = (dg_concerns d = [])" "dg_priority d = ''low'' \<longleftrightarrow> dg_all_ok d"
    by (simp_all add: d(2) digest_of_fields)
  show "dg_all_ok d \<longleftrightarrow> source_fresh db settings now ''lp'' \<and> source_fresh db settings now ''hedge''
    \<and> snd (lp_part repr (panel_of db now 0 (''lp'', [KLp]))) = []
    \<and> (\<exists>dv. derived repr db settings = Some dv \<and> snd (derived_part repr dv) = [])"
    by (simp add: d digest_of_fields)
qed

text \<open>The digest says all clear exactly when both sources are fresh, the first open position has a recorded state that is
  not out of range, and the derived metrics exist with the price no nearer to the stop-loss and to the
  range floor than the thresholds; otherwise it names a concern and is sent as attention.\<close>

theorem all_clear_iff:
  assumes "build_digest repr db settings now = Some d"
  shows "dg_all_ok d = (dg_concerns d = []) \<and> (dg_priority d = ''low'' \<longleftrightarrow> dg_all_ok d)
    \<and> (dg_all_ok d \<longleftrightarrow> source_fresh db settings now ''lp'' \<and> source_fresh db settings now ''hedge''
         \<and> (\<exists>e es. latest_entries db [KLp] = e # es \<and> pe_state e \<noteq> [] \<and> get_default (pe_state e) ''in_range'' JNull \<noteq> JBool False)
         \<and> (\<exists>v. derived repr db settings = Some (Some v)
              \<and> \<not> nearer (decimal_field (dv_analysis v) ''distance_to_sl_pct'') near_sl_pct
              \<and> \<not> nearer (decimal_field (dv_analysis v) ''distance_to_floor_pct'') near_floor_pct))"
proof -
  have lp: "snd (lp_part repr (panel_of db now 0 (''lp'', [KLp]))) = [] \<longleftrightarrow>
      (\<exists>e es. latest_entries db [KLp] = e # es \<and> pe_state e \<noteq> [] \<and> get_default (pe_state e) ''in_range'' JNull \<noteq> JBool False)"
    by (auto simp: lp_part_def panel_of_def Let_def split: list.splits)
  have dv: "snd (derived_part repr dv) = [] \<longleftrightarrow> (\<exists>v. dv = Some v
      \<and> \<not> nearer (decimal_field (dv_analysis v) ''distance_to_sl_pct'') near_sl_pct
      \<and> \<not> nearer (decimal_field (dv_analysis v) ''distance_to_floor_pct'') near_floor_pct)" for dv
    by (auto simp: derived_part_def Let_def split: option.splits)
  show ?thesis using all_clear_facts [OF assms] unfolding lp dv by blast
qed

section \<open>An unhedged position\<close>

lemma decimal_of_none: "decimal_of JNull = None"
  by code_simp

text \<open>No short at all is no concern of the digest: with fresh data, the position in range and the floor far away it
  says all clear, whatever the coverage.\<close>

theorem unhedged_is_all_clear:
  assumes "latest_inputs db = Some (Some (lp, None, price))" "build_digest repr db settings now = Some d"
    "source_fresh db settings now ''lp'' \<and> source_fresh db settings now ''hedge''"
    "latest_entries db [KLp] = [e]" "get (pe_state e) ''in_range'' = Some (JBool True)"
    "analyze settings lp None price = Some a" "\<not> dlt (dabs 28 (distance_to_floor_pct a)) near_floor_pct"
  shows "dg_all_ok d \<and> distance_to_sl_pct a = None"
proof -
  have none: "distance_to_sl_pct a = None"
    using assms(6) by (auto simp: analyze_def sl_part_def Let_def bind_eq_Some_conv split: prod.splits)
  obtain v where v: "derived repr db settings = Some (Some v)" "dv_analysis v = analysis_dict a"
    using assms(2) by (auto simp: build_digest_def derived_def assms(1,6) split: option.splits)
  have "decimal_field (analysis_dict a) ''distance_to_sl_pct'' = None" "decimal_field (analysis_dict a) ''distance_to_floor_pct'' = Some (distance_to_floor_pct a)"
    by (simp_all add: decimal_field_def analysis_dict_def get_Cons none opt_json_def decimal_of_none)
  moreover have "pe_state e \<noteq> []" using assms(5) by (auto simp: get_def)
  ultimately show ?thesis
    using all_clear_facts(3) [OF assms(2)] assms(3,4,5,7) none v
    by (auto simp: lp_part_def panel_of_def Let_def derived_part_def nearer_def get_default_def)
qed

text \<open>A recorded position in range, two fresh snapshots, and no perpetual.\<close>

definition unhedged_state :: dict where
  "unhedged_state = [(''tick_lower'', JInt 2), (''tick_upper'', JInt 6), (''liquidity'', JInt 1000),
     (''price_usd'', JStr ''2E+12''), (''in_range'', JBool True)]"

definition unhedged :: store where
  "unhedged = empty_store\<lparr>
     snapshots := [\<lparr>s_id = 1, s_ts = 0, s_chain = ''base'', s_block = None, s_kind = ''lp''\<rparr>,
                   \<lparr>s_id = 2, s_ts = 0, s_chain = ''arbitrum'', s_block = None, s_kind = ''hedge''\<rparr>],
     positions := [\<lparr>p_id = 1, p_wallet = ''w'', p_venue = ''aerodrome-slipstream'', p_chain = ''base'', p_kind = KLp,
        p_external = ''n:1'', p_group = ''lp_hedge'', p_opened_at = Some 0, p_closed_at = None, p_metadata = None\<rparr>],
     position_events := [\<lparr>e_id = 1, e_position = 1, e_ts = 0, e_type = EObserved, e_delta = [], e_state = unhedged_state\<rparr>]\<rparr>"

lemma unhedged_price: "decimal_of (JStr ''2E+12'') = Some (Dec False 2 12)"
  by code_simp

lemma unhedged_inputs: "latest_inputs unhedged = Some (Some (example_lp, None, Dec False 2 12))"
  by (simp add: latest_inputs_def newest_open_state_def newest_def unhedged_def empty_store_def unhedged_state_def get_default_def get_def
      lp_of_state_def int_field_def decimal_field_def unhedged_price example_lp_def)

lemma analyze_floor_distance:
  "analyze settings lp short price = Some a \<Longrightarrow> pct_of (dsub hedge_prec price (floor_of lp)) price = Some (distance_to_floor_pct a)"
  by (auto simp: analyze_def Let_def bind_eq_Some_conv split: prod.splits)

lemma unhedged_floor:
  assumes "analyze default_settings example_lp None (Dec False 2 12) = Some a"
  shows "\<not> dlt (dabs 28 (distance_to_floor_pct a)) near_floor_pct"
proof -
  have floor: "floor_of example_lp = Dec False 100020001000000000000 (- 8)"
    by (simp add: floor_of_def example_lp_def price_from_tick_def cl_prec_def dec_eval)
  have floor_val: "dval (floor_of example_lp) = 1000200010000" by (simp add: floor dval_Dec power_int_def power_one_over)
  have price: "dval (Dec False 2 12) = 2000000000000" by (simp add: dval_Dec power_int_def)
  have ex: "rnd p x = x" if "x = real m * 10 powi e" "m < 10 ^ p" "0 < p" for p x m e
    using rnd_exact [OF that(2,3)] that(1) by simp
  obtain q where q: "ddiv hedge_prec (dsub hedge_prec (Dec False 2 12) (floor_of example_lp)) (Dec False 2 12) = Some q"
    "distance_to_floor_pct a = dmul hedge_prec q (dint 100)"
    using analyze_floor_distance [OF assms] by (auto simp: pct_of_def bind_eq_Some_conv)
  have "dval (dsub hedge_prec (Dec False 2 12) (floor_of example_lp)) = 999799990000"
    by (simp add: dval_dsub hedge_prec_def floor_val price ex [where m = 99979999 and e = 4] power_int_def)
  then have "dval q = 499899995 / 10 ^ 9"
    using dval_ddiv [OF _ q(1)] by (simp add: hedge_prec_def price ex [where m = 499899995 and e = "- 9"] power_int_def power_one_over)
  then have "dval (distance_to_floor_pct a) = 499899995 / 10 ^ 7"
    by (simp add: q(2) dval_dmul hedge_prec_def dval_dint ex [where m = 499899995 and e = "- 7"] power_int_def power_one_over)
  then have "dval (dabs 28 (distance_to_floor_pct a)) = 499899995 / 10 ^ 7"
    by (simp add: dval_dabs ex [where m = 499899995 and e = "- 7"] power_int_def power_one_over)
  then show ?thesis by (simp add: dlt_iff near_floor_pct_def dval_dint)
qed

lemma unhedged_views:
  "latest_entries unhedged [KLp] = [\<lparr>pe_kind = KLp, pe_external = ''n:1'', pe_as_of = 0, pe_state = unhedged_state\<rparr>]"
  "source_fresh unhedged default_settings 0 ''lp'' \<and> source_fresh unhedged default_settings 0 ''hedge''"
  "funding_run_rate unhedged = Some (Inl TooFewSamples)"
  "get unhedged_state ''in_range'' = Some (JBool True)"
  by (simp_all add: latest_entries_def unhedged_def empty_store_def entry_of_def newest_def observed_of_def List.map_filter_def
      source_fresh_def default_settings_def seconds_def funding_run_rate_def open_observed_def unhedged_state_def get_def)

lemma unhedged_digest:
  obtains a d where "analyze default_settings example_lp None (Dec False 2 12) = Some a"
    "build_digest (\<lambda>_. []) unhedged default_settings 0 = Some d"
proof -
  have "analyze default_settings example_lp None (Dec False 2 12) \<noteq> None"
    unfolding analyze_returns_iff by (simp add: dval_Dec)
  then obtain a where a: "analyze default_settings example_lp None (Dec False 2 12) = Some a" by blast
  then obtain d where "build_digest (\<lambda>_. []) unhedged default_settings 0 = Some d"
    by (simp add: build_digest_def derived_def unhedged_inputs unhedged_views(3) Let_def)
  with a that show ?thesis by blast
qed

lemma unhedged_is_all_clear_witness: "\<exists>d. build_digest (\<lambda>_. []) unhedged default_settings 0 = Some d \<and> dg_all_ok d"
proof -
  obtain a d where r: "analyze default_settings example_lp None (Dec False 2 12) = Some a"
    "build_digest (\<lambda>_. []) unhedged default_settings 0 = Some d" by (rule unhedged_digest)
  have "get (pe_state \<lparr>pe_kind = KLp, pe_external = ''n:1'', pe_as_of = 0, pe_state = unhedged_state\<rparr>) ''in_range'' = Some (JBool True)"
    by (simp add: unhedged_views(4))
  from unhedged_is_all_clear [OF unhedged_inputs r(2) unhedged_views(2,1) this r(1) unhedged_floor [OF r(1)]] r(2)
  show ?thesis by blast
qed

lemma all_clear_iff_witness: "\<exists>d. build_digest (\<lambda>_. []) unhedged default_settings 0 = Some d \<and> dg_all_ok d = (dg_concerns d = [])"
proof -
  obtain a d where r: "analyze default_settings example_lp None (Dec False 2 12) = Some a"
    "build_digest (\<lambda>_. []) unhedged default_settings 0 = Some d" by (rule unhedged_digest)
  with all_clear_iff [OF r(2)] show ?thesis by blast
qed

end
