(* ===== verification/Safety.thy ===== *)
theory Safety
  imports Store Windows
begin

text \<open>
  \<open>execute/safety.py\<close>: the kill switch, the armed state, the hard limits and the failure
  counter. The world is the database, the two files of the data directory, the state \<open>'e\<close>
  of everything outside (sidecar, venue, phone) and, for the ordering properties only, the
  trace of effects in the order they happened.
\<close>

section \<open>The world of the executor\<close>

text \<open>What reading the armed-state file gives: the state \<open>arm\<close> writes; a text for which
  \<open>json.loads\<close>, the key lookup or \<open>fromisoformat\<close> fails with an error the check catches; or JSON of
  another shape (\<open>TypeError\<close>, not caught).\<close>

datatype armed_content = ArmedState instant instant | ArmedCorrupt string | ArmedIllTyped

datatype sidecar_request =
    PrepareReq order_instruction
  | SubmitReq order_instruction string
  | ReadOrdersReq

datatype effect =
    AuditEff phase string
  | SidecarEff sidecar_request
  | ApprovalEff string
  | KillEff reason

record 'e world =
  database :: store
  kill_file :: "(instant \<times> reason) list option"
  armed_file :: "armed_content option"
  env :: 'e
  trace :: "effect list"

section \<open>Gates\<close>

datatype gate = Allowed | Refused reason

definition check_kill_switch :: "'e world \<Rightarrow> gate" where
  "check_kill_switch w = (if kill_file w \<noteq> None then Refused KillSwitchPresent else Allowed)"

definition trip_kill_switch :: "reason \<Rightarrow> instant \<Rightarrow> 'e world \<Rightarrow> 'e world" where
  "trip_kill_switch why now w =
     w\<lparr>kill_file := Some ((case kill_file w of None \<Rightarrow> [] | Some ls \<Rightarrow> ls) @ [(now, why)]),
       database := insert_audit now ''executor'' ''kill-switch-trip'' Blocked None (ReasonPayload why) (database w),
       trace := trace w @ [KillEff why, AuditEff Blocked ''kill-switch-trip'']\<rparr>"

text \<open>\<open>arm\<close>: \<open>Inl\<close> is the \<open>RuntimeError\<close> while the kill switch exists.\<close>

definition arm :: "settings \<Rightarrow> int option \<Rightarrow> instant \<Rightarrow> 'e world \<Rightarrow> reason + 'e world" where
  "arm settings ttl_minutes now w =
     (case check_kill_switch w of
        Refused r \<Rightarrow> Inl r
      | Allowed \<Rightarrow>
          (let ttl = (case ttl_minutes of Some m \<Rightarrow> m | None \<Rightarrow> arm_ttl_minutes settings)
           in Inr (w\<lparr>armed_file := Some (ArmedState now (now + minutes ttl))\<rparr>)))"

text \<open>\<open>check_armed\<close>: \<open>None\<close> is the uncaught \<open>TypeError\<close>.\<close>

definition check_armed :: "bool \<Rightarrow> instant \<Rightarrow> 'e world \<Rightarrow> gate option" where
  "check_armed arm_flag now w =
     (if \<not> arm_flag then Some (Refused DryRunNoArmFlag)
      else case armed_file w of
        None \<Rightarrow> Some (Refused NoArmedFile)
      | Some (ArmedCorrupt e) \<Rightarrow> Some (Refused (ArmedUnreadable e))
      | Some ArmedIllTyped \<Rightarrow> None
      | Some (ArmedState _ expires) \<Rightarrow>
          if expires \<le> now then Some (Refused (ArmedExpired expires)) else Some Allowed)"

definition recent_submissions :: "store \<Rightarrow> instant \<Rightarrow> instant list" where
  "recent_submissions db since =
     sort (map au_ts (filter (\<lambda>r. au_phase r = Submission \<and> since \<le> au_ts r) (audit_log db)))"

definition check_limits :: "settings \<Rightarrow> store \<Rightarrow> instant \<Rightarrow> string \<Rightarrow> decimal \<Rightarrow> decimal \<Rightarrow> gate" where
  "check_limits settings db now market new_position_usd delta_usd =
     (if market \<notin> set (allowed_markets settings) then Refused (MarketNotAllowed market (allowed_markets settings))
      else if dlt (dint 0) (max_position_usd settings) \<and> dlt (max_position_usd settings) new_position_usd
      then Refused (PositionExceeds new_position_usd (max_position_usd settings))
      else if dlt (dint 0) (max_delta_per_run_usd settings) \<and> dlt (max_delta_per_run_usd settings) delta_usd
      then Refused (DeltaExceeds delta_usd (max_delta_per_run_usd settings))
      else let today = recent_submissions db (day_start now)
           in if 0 < max_daily_adjustments settings \<and> max_daily_adjustments settings \<le> int (List.length today)
              then Refused (DailyCapReached (List.length today) (max_daily_adjustments settings))
              else let cutoff = now - seconds (order_rate_limit_seconds settings);
                       window = filter (\<lambda>t. cutoff < t) (recent_submissions db cutoff)
                   in if window \<noteq> [] then Refused (RateLimited (last window) (order_rate_limit_seconds settings))
                      else Allowed)"

definition failures_to_trip :: nat where
  "failures_to_trip = 3"

definition consecutive_submit_failures :: "store \<Rightarrow> nat" where
  "consecutive_submit_failures db =
     (let rows = take 10 (rev (filter (\<lambda>r. (au_phase r = Confirmation \<or> au_phase r = Rejected)
                                          \<and> au_actor r = ''executor'') (audit_log db)))
      in List.length (filter (\<lambda>r. au_action r = ''submit-failed'') (takeWhile (\<lambda>r. au_phase r \<noteq> Confirmation) rows)))"

section \<open>The limits as window limits\<close>

definition submission_times :: "store \<Rightarrow> instant list" where
  "submission_times db = map au_ts (filter (\<lambda>r. au_phase r = Submission) (audit_log db))"

definition submission_rows :: "store \<Rightarrow> (instant \<times> nat) list" where
  "submission_rows db = map (\<lambda>t. (t, 1)) (submission_times db)"

lemma used_since_submissions:
  "used_since s (submission_rows db) = List.length (filter (\<lambda>t. s \<le> t) (submission_times db))"
  unfolding submission_rows_def by (rule used_since_ones)

lemma length_recent_submissions:
  "List.length (recent_submissions db since) = used_since since (submission_rows db)"
  unfolding used_since_submissions
  by (simp add: recent_submissions_def submission_times_def filter_map comp_def conj_commute)

lemma set_recent_submissions: "t \<in> set (recent_submissions db since) \<longleftrightarrow> t \<in> set (submission_times db) \<and> since \<le> t"
  by (auto simp: recent_submissions_def submission_times_def)

lemma submission_times_insert [store_simps]:
  "submission_times (insert_audit ts actor act phase key payload db)
     = submission_times db @ (if phase = Submission then [ts] else [])"
  by (simp add: submission_times_def insert_audit_def)

lemma check_limits_Allowed:
  "check_limits settings db now market pos delta = Allowed \<longleftrightarrow>
     market \<in> set (allowed_markets settings)
     \<and> (dval (max_position_usd settings) \<le> 0 \<or> dval pos \<le> dval (max_position_usd settings))
     \<and> (dval (max_delta_per_run_usd settings) \<le> 0 \<or> dval delta \<le> dval (max_delta_per_run_usd settings))
     \<and> (max_daily_adjustments settings \<le> 0
        \<or> int (used_since (day_start now) (submission_rows db)) < max_daily_adjustments settings)
     \<and> (\<forall>t \<in> set (submission_times db). t \<le> now - seconds (order_rate_limit_seconds settings))"
proof -
  let ?cut = "now - seconds (order_rate_limit_seconds settings)"
  have w: "filter (\<lambda>t. ?cut < t) (recent_submissions db ?cut) = []
      \<longleftrightarrow> (\<forall>t \<in> set (submission_times db). t \<le> ?cut)"
    by (auto simp: filter_empty_conv set_recent_submissions not_less)
  show ?thesis
    unfolding check_limits_def Let_def w length_recent_submissions [symmetric]
    by (auto simp: dlt_iff not_less)
qed

text \<open>\<open>check_limits\<close> allows exactly the orders the configured limits permit: the market is
  listed, position and delta are within their (enabled) caps, fewer than the cap of submissions
  are recorded since the start of the UTC day, and no submission is younger than the rate
  limit, also across midnight.\<close>

theorem check_limits_allows_iff:
  "check_limits settings db now market pos delta = Allowed \<longleftrightarrow>
     market \<in> set (allowed_markets settings)
     \<and> (dval (max_position_usd settings) \<le> 0 \<or> dval pos \<le> dval (max_position_usd settings))
     \<and> (dval (max_delta_per_run_usd settings) \<le> 0 \<or> dval delta \<le> dval (max_delta_per_run_usd settings))
     \<and> (max_daily_adjustments settings \<le> 0
        \<or> int (List.length (filter (\<lambda>t. day_start now \<le> t) (submission_times db))) < max_daily_adjustments settings)
     \<and> list_all (\<lambda>t. t \<le> now - seconds (order_rate_limit_seconds settings)) (submission_times db)"
  by (simp add: check_limits_Allowed used_since_submissions list_all_iff)

section \<open>The failure counter\<close>

text \<open>\<open>consecutive_submit_failures\<close> looks at ten audit rows only. With nothing but failed
  submissions recorded since the last confirmation it is the number of them, up to ten; but
  rejected approvals count towards the ten rows, so ten of them in a row hide any number of
  failures before them.\<close>

theorem consecutive_failures_bounded_window:
  assumes "audit_log db = old @ rows"
    and "\<And>r. r \<in> set rows \<Longrightarrow> au_actor r = ''executor'' \<and> au_phase r = Rejected"
    and "old = [] \<or> au_phase (last old) = Confirmation \<and> au_actor (last old) = ''executor''"
  shows "consecutive_submit_failures db
     = List.length (filter (\<lambda>r. au_action r = ''submit-failed'') (take 10 (rev rows)))"
proof -
  let ?P = "\<lambda>r. (au_phase r = Confirmation \<or> au_phase r = Rejected) \<and> au_actor r = ''executor''"
  have rows: "filter ?P rows = rows" using assms(2) by (simp add: filter_id_conv)
  have tw: "takeWhile (\<lambda>r. au_phase r \<noteq> Confirmation) (take n (rev rows) @ rest) = take n (rev rows) @ takeWhile (\<lambda>r. au_phase r \<noteq> Confirmation) rest" for n rest
    using assms(2) by (intro takeWhile_append2) (auto dest!: in_set_takeD)
  have "takeWhile (\<lambda>r. au_phase r \<noteq> Confirmation) (take n (rev (filter ?P old))) = []" for n
  proof (cases "old = []")
    case False
    then obtain o' l where "old = o' @ [l]" by (metis rev_exhaust)
    with assms(3) show ?thesis by (cases n) auto
  qed simp
  then show ?thesis
    using assms(1) rows by (simp add: consecutive_submit_failures_def Let_def tw)
qed

end
