(* ===== verification/Approval.thy ===== *)
theory Approval
  imports Store
begin

text \<open>
  \<open>execute/approval.py\<close>: the out-of-band approval. Publisher, poller, clock and sleeper are
  the four callables the code takes; each works on the state \<open>'e\<close> of the outside and the
  first two may raise (\<open>None\<close>). The polling loop is a partial function: a clock that never
  reaches the deadline keeps it running, which is the value \<open>None\<close>.
\<close>

record decision =
  approved :: bool
  why :: reason

record 'e channel =
  ch_publish :: "string \<Rightarrow> string \<Rightarrow> string \<Rightarrow> 'e \<Rightarrow> unit option \<times> 'e"
  ch_poll :: "int \<Rightarrow> 'e \<Rightarrow> string list option \<times> 'e"
  ch_clock :: "'e \<Rightarrow> instant \<times> 'e"
  ch_sleep :: "duration \<Rightarrow> 'e \<Rightarrow> 'e"

definition approve_token :: "string \<Rightarrow> string" where
  "approve_token instruction_id = ''approve '' @ instruction_id"

definition reject_token :: "string \<Rightarrow> string" where
  "reject_token instruction_id = ''reject '' @ instruction_id"

text \<open>The first text that is one of the two tokens decides.\<close>

fun scan_replies :: "string \<Rightarrow> string list \<Rightarrow> decision option" where
  "scan_replies instruction_id [] = None"
| "scan_replies instruction_id (text # texts) =
     (let lowered = lower (strip text)
      in if lowered = lower (approve_token instruction_id) then Some \<lparr>approved = True, why = ApprovedVia text\<rparr>
         else if lowered = lower (reject_token instruction_id) then Some \<lparr>approved = False, why = RejectedVia text\<rparr>
         else scan_replies instruction_id texts)"

partial_function (option) poll_loop ::
  "'e channel \<Rightarrow> string \<Rightarrow> int \<Rightarrow> instant \<Rightarrow> int \<Rightarrow> duration \<Rightarrow> 'e \<Rightarrow> (decision option \<times> 'e) option" where
  "poll_loop ch instruction_id since deadline timeout_minutes interval e =
     (case ch_clock ch e of (t, e1) \<Rightarrow>
        if t < deadline then
          (case ch_poll ch since e1 of (r, e2) \<Rightarrow>
             (case r of
                None \<Rightarrow> Some (None, e2)
              | Some texts \<Rightarrow>
                  (case scan_replies instruction_id texts of
                     Some d \<Rightarrow> Some (Some d, e2)
                   | None \<Rightarrow> poll_loop ch instruction_id since deadline timeout_minutes interval (ch_sleep ch interval e2))))
        else Some (Some \<lparr>approved = False, why = ApprovalTimeout timeout_minutes\<rparr>, e1))"

definition unix_time :: "instant \<Rightarrow> int" where
  "unix_time t = (if 0 \<le> t then t div 1000000 else - ((- t) div 1000000))"

definition newline :: string where
  "newline = [char_of (10::nat)]"

definition request_approval ::
  "'e channel \<Rightarrow> string \<Rightarrow> string \<Rightarrow> int \<Rightarrow> duration \<Rightarrow> 'e \<Rightarrow> (decision option \<times> 'e) option" where
  "request_approval ch instruction_id message timeout_minutes interval e =
     (case ch_clock ch e of (started, e1) \<Rightarrow>
        (case ch_publish ch ''EXECUTE approval required''
           (message @ newline @ newline @ ''Reply '' @ [CHR 0x27] @ approve_token instruction_id @ [CHR 0x27]
            @ '' or '' @ [CHR 0x27] @ reject_token instruction_id @ [CHR 0x27] @ '' within ''
            @ int_str timeout_minutes @ '' min.'') ''urgent'' e1 of (r, e2) \<Rightarrow>
           (case r of
              None \<Rightarrow> Some (None, e2)
            | Some _ \<Rightarrow> poll_loop ch instruction_id (unix_time started) (started + minutes timeout_minutes)
                          timeout_minutes interval e2)))"

section \<open>What an approval means\<close>

lemma scan_replies_approved:
  "scan_replies i texts = Some d \<Longrightarrow> approved d \<Longrightarrow>
     \<exists>text \<in> set texts. why d = ApprovedVia text \<and> lower (strip text) = lower (approve_token i)"
  by (induction texts) (auto simp: Let_def split: if_splits)

definition from_channel :: "'e channel \<Rightarrow> string \<Rightarrow> int \<Rightarrow> decision \<Rightarrow> bool" where
  "from_channel ch i since d \<longleftrightarrow> (\<exists>e1 e2 texts text. ch_poll ch since e1 = (Some texts, e2)
     \<and> text \<in> set texts \<and> why d = ApprovedVia text \<and> lower (strip text) = lower (approve_token i))"

lemma poll_loop_approved:
  assumes ret: "poll_loop ch i since deadline m iv e = Some r"
  shows "\<forall>d. fst r = Some d \<and> approved d \<longrightarrow> from_channel ch i since d"
proof (rule poll_loop.raw_induct [where P = "\<lambda>ch i since deadline m iv e r.
    \<forall>d. fst r = Some d \<and> approved d \<longrightarrow> from_channel ch i since d", OF _ ret])
  fix f :: "'e channel \<Rightarrow> string \<Rightarrow> int \<Rightarrow> instant \<Rightarrow> int \<Rightarrow> duration \<Rightarrow> 'e \<Rightarrow> (decision option \<times> 'e) option"
  fix ch :: "'e channel" and i since deadline m iv e r
  assume IH: "\<And>ch i since deadline m iv e r. f ch i since deadline m iv e = Some r \<Longrightarrow>
      \<forall>d. fst r = Some d \<and> approved d \<longrightarrow> from_channel ch i since d"
    and eq: "(case ch_clock ch e of (t, e1) \<Rightarrow>
        if t < deadline then
          (case ch_poll ch since e1 of (r, e2) \<Rightarrow>
             (case r of None \<Rightarrow> Some (None, e2)
              | Some texts \<Rightarrow>
                  (case scan_replies i texts of Some d \<Rightarrow> Some (Some d, e2)
                   | None \<Rightarrow> f ch i since deadline m iv (ch_sleep ch iv e2))))
        else Some (Some \<lparr>approved = False, why = ApprovalTimeout m\<rparr>, e1)) = Some r"
  obtain t e1 where t: "ch_clock ch e = (t, e1)" by fastforce
  obtain p e2 where p: "ch_poll ch since e1 = (p, e2)" by fastforce
  show "\<forall>d. fst r = Some d \<and> approved d \<longrightarrow> from_channel ch i since d"
  proof (cases "t < deadline")
    case True
    show ?thesis
    proof (cases p)
      case None
      with eq t p True show ?thesis by auto
    next
      case (Some texts)
      show ?thesis
      proof (cases "scan_replies i texts")
        case None
        with eq t p True Some show ?thesis by (auto intro: IH [rule_format])
      next
        case (Some d)
        with eq t p True \<open>p = Some texts\<close> have "r = (Some d, e2)" by auto
        with scan_replies_approved [OF Some] p \<open>p = Some texts\<close> show ?thesis
          by (auto simp: from_channel_def)
      qed
    qed
  next
    case False
    with eq t show ?thesis by auto
  qed
qed

text \<open>C12. Approval binds to the instruction: \<open>request_approval\<close> approves only on a reply, polled from
  the channel since it was started, that is the approve token of this very instruction id up
  to case and surrounding blanks; a bare "yes" or a token for another id approves nothing.\<close>

theorem approval_binds_to_instruction:
  assumes "request_approval ch i message m iv e = Some (Some d, e')" "approved d"
  shows "\<exists>e1 e2 texts text. ch_poll ch (unix_time (fst (ch_clock ch e))) e1 = (Some texts, e2)
     \<and> text \<in> set texts \<and> why d = ApprovedVia text \<and> lower (strip text) = lower (approve_token i)"
proof -
  obtain t e1 where t: "ch_clock ch e = (t, e1)" by fastforce
  from assms(1) t obtain e2 where "poll_loop ch i (unix_time t) (t + minutes m) m iv e2 = Some (Some d, e')"
    by (auto simp: request_approval_def split: prod.splits option.splits)
  from poll_loop_approved [OF this] assms(2) t show ?thesis by (simp add: from_channel_def)
qed

section \<open>The request ends\<close>

text \<open>What the loop needs of the outside to end: reading the clock, polling and sleeping never
  turn the clock back, and sleeping for the poll interval moves it on by that much.\<close>

definition clock_advances :: "'e channel \<Rightarrow> ('e \<Rightarrow> instant) \<Rightarrow> duration \<Rightarrow> bool" where
  "clock_advances ch clk iv \<longleftrightarrow> (\<forall>e. fst (ch_clock ch e) = clk e) \<and> (\<forall>e. clk e \<le> clk (snd (ch_clock ch e)))
     \<and> (\<forall>s e. clk e \<le> clk (snd (ch_poll ch s e))) \<and> (\<forall>e. clk e + iv \<le> clk (ch_sleep ch iv e))"

lemma poll_loop_returns:
  assumes "clock_advances ch clk iv" "0 < iv"
  shows "\<exists>r. poll_loop ch i since deadline m iv e = Some r"
proof (induction "nat (deadline - clk e)" arbitrary: e rule: less_induct)
  case less
  obtain t e1 where t: "ch_clock ch e = (t, e1)" by fastforce
  obtain p e2 where p: "ch_poll ch since e1 = (p, e2)" by fastforce
  have 1: "t = clk e" "clk e \<le> clk e1" "clk e1 \<le> clk e2" "clk e2 + iv \<le> clk (ch_sleep ch iv e2)"
    using assms(1) t p unfolding clock_advances_def by (metis fst_conv snd_conv)+
  show ?case
  proof (cases "t < deadline")
    case True
    with 1 assms(2) have "nat (deadline - clk (ch_sleep ch iv e2)) < nat (deadline - clk e)" by simp
    then obtain r where "poll_loop ch i since deadline m iv (ch_sleep ch iv e2) = Some r"
      using less by blast
    with True show ?thesis
      by (subst poll_loop.simps) (auto simp: t p split: option.splits)
  next
    case False
    then show ?thesis by (subst poll_loop.simps) (simp add: t)
  qed
qed

text \<open>The approval request ends: with a clock that does not run backwards and a positive poll
  interval it returns (or an exception of the publisher or poller ends it), whatever is polled.\<close>

theorem request_approval_returns:
  assumes "clock_advances ch clk iv" "0 < iv"
  shows "\<exists>r. request_approval ch i message m iv e = Some r"
  using poll_loop_returns [OF assms] by (auto simp: request_approval_def split: prod.split option.split)

text \<open>A channel that replies after some polls: the state is the clock and the number of polls.\<close>

definition test_channel :: "string \<Rightarrow> (instant \<times> nat) channel" where
  "test_channel reply = \<lparr>ch_publish = (\<lambda>_ _ _ e. (Some (), e)),
     ch_poll = (\<lambda>_ (t, n). (Some (if n = 0 then [''yes''] else [reply]), (t, Suc n))),
     ch_clock = (\<lambda>(t, n). (t, (t, n))), ch_sleep = (\<lambda>d (t, n). (t + d, n))\<rparr>"

lemma test_channel_advances: "clock_advances (test_channel reply) fst iv"
  by (auto simp: clock_advances_def test_channel_def)

lemma request_approval_returns_witness:
  "\<exists>r. request_approval (test_channel ''no'') ''k1'' ''m'' 10 5000000 (0, 0) = Some r"
  by (rule request_approval_returns [OF test_channel_advances]) simp

lemma approval_binds_to_instruction_witness:
  "\<exists>d e'. request_approval (test_channel '' APPROVE k1 '') ''k1'' ''m'' 10 5000000 (0, 0) = Some (Some d, e')
     \<and> approved d \<and> why d = ApprovedVia '' APPROVE k1 ''"
proof -
  have run: "request_approval (test_channel '' APPROVE k1 '') ''k1'' ''m'' 10 5000000 (0, 0)
      = Some (Some \<lparr>approved = True, why = ApprovedVia '' APPROVE k1 ''\<rparr>, (5000000, 2))"
    by (simp add: request_approval_def test_channel_def poll_loop.simps minutes_def Let_def lower_def strip_def
        approve_token_def reject_token_def is_space_def to_lower_def is_upper_az_def unix_time_def char_of_def bit_Suc_0_iff)
  show ?thesis
    using approval_binds_to_instruction [OF run] run by fastforce
qed

end
