(* ===== verification/Engine.thy ===== *)
theory Engine
  imports Safety Approval
begin

text \<open>
  \<open>execute/engine.py\<close>: the execution pipeline. \<open>execute_instruction\<close> is cut at the calls
  that leave the process: up to the gates (\<open>check_gates\<close>), prepare and simulation
  (\<open>prepare_stage\<close>), approval (\<open>approval_stage\<close>), submission and verification
  (\<open>submit_stage\<close>, \<open>verify_stage\<close>). The sidecar and the approval are parameters that work on
  the state \<open>'e\<close> of the outside and may raise, which ends the call with \<open>None\<close>; what was
  written to the database before stays written.
\<close>

section \<open>Results\<close>

record approval_message =
  m_instruction :: order_instruction
  m_plan :: json
  m_delta_usd :: decimal
  m_new_position_usd :: decimal
  m_id :: string

type_synonym 'e sidecar = "sidecar_request \<Rightarrow> 'e \<Rightarrow> dict option \<times> 'e"
type_synonym 'e approver = "string \<Rightarrow> approval_message \<Rightarrow> 'e \<Rightarrow> decision option \<times> 'e"

definition result :: "status \<Rightarrow> detail \<Rightarrow> string \<Rightarrow> execution_result" where
  "result s d key = \<lparr>x_status = s, x_detail = d, x_plan = None, x_response = None, x_key = key\<rparr>"

section \<open>Effects\<close>

definition audit ::
  "instant \<Rightarrow> string \<Rightarrow> phase \<Rightarrow> string option \<Rightarrow> audit_payload \<Rightarrow> 'e world \<Rightarrow> 'e world" where
  "audit ts act phase key payload w =
     w\<lparr>database := insert_audit ts ''executor'' act phase key payload (database w),
       trace := trace w @ [AuditEff phase act]\<rparr>"

definition call_sidecar :: "'e sidecar \<Rightarrow> sidecar_request \<Rightarrow> 'e world \<Rightarrow> dict option \<times> 'e world" where
  "call_sidecar sidecar req w =
     (case sidecar req (env w) of (r, e) \<Rightarrow> (r, w\<lparr>env := e, trace := trace w @ [SidecarEff req]\<rparr>))"

definition call_approval :: "'e approver \<Rightarrow> string \<Rightarrow> approval_message \<Rightarrow> 'e world \<Rightarrow> decision option \<times> 'e world" where
  "call_approval approval i m w =
     (case approval i m (env w) of (r, e) \<Rightarrow> (r, w\<lparr>env := e, trace := trace w @ [ApprovalEff i]\<rparr>))"

section \<open>Replay and post-conditions\<close>

text \<open>Confirmation rows carry \<open>ConfirmedPayload\<close>, the only payload the code writes there.\<close>

definition stored_confirmation :: "store \<Rightarrow> string \<Rightarrow> dict option" where
  "stored_confirmation db key =
     (case newest (\<lambda>r. au_phase r = Confirmation \<and> au_key r = Some key) (audit_log db) of
        None \<Rightarrow> None
      | Some r \<Rightarrow> Some (case au_payload r of ConfirmedPayload d \<Rightarrow> d | _ \<Rightarrow> []))"

text \<open>Iterating over a decoded value, and the dictionary comprehension over the orders;
  \<open>None\<close> raises (not iterable, an element without \<open>get\<close>, an unhashable key).\<close>

definition json_items :: "json \<Rightarrow> json list option" where
  "json_items j = (case j of
     JArr xs \<Rightarrow> Some xs | JObj kvs \<Rightarrow> Some (map (\<lambda>(k, _). JStr k) kvs)
   | JStr s \<Rightarrow> Some (map (\<lambda>c. JStr [c]) s) | _ \<Rightarrow> None)"

definition hashable :: "json \<Rightarrow> bool" where
  "hashable j = (case j of JArr _ \<Rightarrow> False | JObj _ \<Rightarrow> False | _ \<Rightarrow> True)"

fun orders_by_key :: "json list \<Rightarrow> (json \<times> dict) list option" where
  "orders_by_key [] = Some []"
| "orders_by_key (ord # rest) =
     (case ord of
        JObj d \<Rightarrow>
          (let key = get_default d ''key'' JNull
           in if hashable key then map_option (\<lambda>tab. (key, d) # tab) (orders_by_key rest) else None)
      | _ \<Rightarrow> None)"

definition order_lookup :: "(json \<times> dict) list \<Rightarrow> string option \<Rightarrow> dict option" where
  "order_lookup tab key = map_of (rev tab) (case key of None \<Rightarrow> JNull | Some k \<Rightarrow> JStr k)"

text \<open>\<open>Decimal(str(v)) == expected\<close>: \<open>nan\<close> and infinities parse and differ from every number.\<close>

definition unequal_special :: "string \<Rightarrow> bool" where
  "unequal_special text =
     (let s = lower (filter (\<lambda>c. c \<noteq> CHR ''_'') (strip text));
          u = (if s \<noteq> [] \<and> (hd s = CHR ''-'' \<or> hd s = CHR ''+'') then tl s else s)
      in u = ''inf'' \<or> u = ''infinity'' \<or> startswith u ''nan'' \<and> list_all is_digit (drop 3 u))"

definition decimal_equals :: "json \<Rightarrow> decimal \<Rightarrow> bool option" where
  "decimal_equals v expected =
     (case str_of v of
        None \<Rightarrow> None
      | Some s \<Rightarrow> if unequal_special s then Some False
                  else map_option (\<lambda>d. deq d expected) (text_to_decimal s))"

text \<open>\<open>Decimal(10) ** 12\<close>, the trigger scaling of the SDK and REST interface for ETH.\<close>

definition trigger_scale :: decimal where
  "trigger_scale = dfix 28 (Dec False (10 ^ 12) 0)"

definition postconditions_hold :: "order_instruction \<Rightarrow> dict \<Rightarrow> bool option" where
  "postconditions_hold i read_response =
     (case json_items (get_default read_response ''orders'' (JArr [])) of
        None \<Rightarrow> None
      | Some items \<Rightarrow>
          (case orders_by_key items of
             None \<Rightarrow> None
           | Some orders \<Rightarrow>
               (case i_action i of
                  SetSlTrigger \<Rightarrow>
                    (case order_lookup orders (i_order_key i) of
                       None \<Rightarrow> Some False
                     | Some ord \<Rightarrow>
                         (let expected = dmul 28 (case i_trigger_price i of
                                                    Some p \<Rightarrow> (if dcoef p = 0 then dint 0 else p)
                                                  | None \<Rightarrow> dint 0) trigger_scale
                          in decimal_equals (get_default ord ''triggerPrice'' (JStr ''0'')) expected))
                | CancelOrder \<Rightarrow> Some (order_lookup orders (i_order_key i) = None)
                | ResizeShort \<Rightarrow> Some True)))"

section \<open>The pipeline\<close>

definition blocked ::
  "order_instruction \<Rightarrow> instant \<Rightarrow> string \<Rightarrow> reason \<Rightarrow> 'e world \<Rightarrow> 'e world \<times> execution_result option" where
  "blocked i now key r w =
     (audit now (action_text (i_action i)) Blocked (Some key) (ReasonPayload r) w,
      Some (result SBlocked (DReason r) key))"

definition verify_stage ::
  "'e sidecar \<Rightarrow> order_instruction \<Rightarrow> instant \<Rightarrow> string \<Rightarrow> dict \<Rightarrow> 'e world \<Rightarrow> 'e world \<times> execution_result option" where
  "verify_stage sidecar i now key response w =
     (case call_sidecar sidecar ReadOrdersReq w of
        (None, w1) \<Rightarrow> (w1, None)
      | (Some verify, w1) \<Rightarrow>
          (case postconditions_hold i verify of
             None \<Rightarrow> (w1, None)
           | Some False \<Rightarrow>
               (trip_kill_switch (PostconditionMismatch (i_action i) (take 16 key)) now w1,
                Some ((result SFailed DPostcondition key)\<lparr>x_response := Some response\<rparr>))
           | Some True \<Rightarrow>
               (audit now (action_text (i_action i)) Confirmation (Some key) (ConfirmedPayload response) w1,
                Some ((result SConfirmed DConfirmed key)\<lparr>x_response := Some response\<rparr>))))"

definition submit_stage ::
  "'e sidecar \<Rightarrow> order_instruction \<Rightarrow> instant \<Rightarrow> string \<Rightarrow> json \<Rightarrow> decision \<Rightarrow> 'e world
   \<Rightarrow> 'e world \<times> execution_result option" where
  "submit_stage sidecar i now key plan d w =
     (let w1 = audit now (action_text (i_action i)) Submission (Some key) (SubmissionPayload plan (why d)) w
      in case call_sidecar sidecar (SubmitReq i key) w1 of
           (None, w2) \<Rightarrow> (w2, None)
         | (Some response, w2) \<Rightarrow>
             if \<not> truthy (get_default response ''ok'' JNull) then
               (let w3 = audit now ''submit-failed'' Rejected (Some key) (FailedPayload response) w2;
                    w4 = (if failures_to_trip \<le> consecutive_submit_failures (database w3)
                          then trip_kill_switch (ConsecutiveFailures failures_to_trip) now w3 else w3)
                in (w4, Some ((result SFailed (DSubmissionFailed (get_default response ''error'' (JStr ''unknown''))) key)
                              \<lparr>x_response := Some response\<rparr>)))
             else verify_stage sidecar i now key response w2)"

definition approval_stage ::
  "'e sidecar \<Rightarrow> 'e approver \<Rightarrow> order_instruction \<Rightarrow> instant \<Rightarrow> decimal \<Rightarrow> decimal \<Rightarrow> string \<Rightarrow> json \<Rightarrow> 'e world
   \<Rightarrow> 'e world \<times> execution_result option" where
  "approval_stage sidecar approval i now delta_usd new_position_usd key plan w =
     (case call_approval approval (take 16 key)
             \<lparr>m_instruction = i, m_plan = plan, m_delta_usd = delta_usd,
              m_new_position_usd = new_position_usd, m_id = take 16 key\<rparr> w of
        (None, w1) \<Rightarrow> (w1, None)
      | (Some d, w1) \<Rightarrow>
          if \<not> approved d then
            (audit now (action_text (i_action i)) Rejected (Some key) (ReasonPayload (why d)) w1,
             Some (result SRejected (DReason (why d)) key))
          else submit_stage sidecar i now key plan d w1)"

definition prepare_stage ::
  "'e sidecar \<Rightarrow> 'e approver \<Rightarrow> order_instruction \<Rightarrow> bool \<Rightarrow> instant \<Rightarrow> decimal \<Rightarrow> decimal \<Rightarrow> string \<Rightarrow> 'e world
   \<Rightarrow> 'e world \<times> execution_result option" where
  "prepare_stage sidecar approval i live now delta_usd new_position_usd key w =
     (case call_sidecar sidecar (PrepareReq i) w of
        (None, w1) \<Rightarrow> (w1, None)
      | (Some prepared, w1) \<Rightarrow>
          if \<not> truthy (get_default prepared ''ok'' JNull)
          then blocked i now key (PrepareFailed (get_default prepared ''error'' (JStr ''unknown''))) w1
          else
            (let plan = get_default prepared ''plan'' (JObj []);
                 w2 = audit now (action_text (i_action i)) Simulation (Some key)
                        (PlanPayload plan delta_usd new_position_usd) w1
             in if \<not> live then (w2, Some ((result SDryRun DDryRun key)\<lparr>x_plan := Some plan\<rparr>))
                else approval_stage sidecar approval i now delta_usd new_position_usd key plan w2))"

definition execute_instruction ::
  "(string \<Rightarrow> string) \<Rightarrow> settings \<Rightarrow> 'e sidecar \<Rightarrow> 'e approver \<Rightarrow> order_instruction \<Rightarrow> bool \<Rightarrow> instant
   \<Rightarrow> decimal \<Rightarrow> decimal \<Rightarrow> 'e world \<Rightarrow> 'e world \<times> execution_result option" where
  "execute_instruction sha256 settings sidecar approval i arm_flag now delta_usd new_position_usd w =
     (let key = idempotency_key sha256 i now;
          w1 = audit now (action_text (i_action i)) Intent (Some key) (IntentPayload i arm_flag) w
      in case stored_confirmation (database w1) key of
           Some stored \<Rightarrow> (w1, Some ((result SReplayed DReplayed key)\<lparr>x_response := Some stored\<rparr>))
         | None \<Rightarrow>
             (case check_kill_switch w1 of
                Refused r \<Rightarrow> blocked i now key r w1
              | Allowed \<Rightarrow>
                  (case check_armed arm_flag now w1 of
                     None \<Rightarrow> (w1, None)
                   | Some armed \<Rightarrow>
                       (case (arm_flag, armed) of
                          (True, Refused r) \<Rightarrow> blocked i now key r w1
                        | _ \<Rightarrow>
                            (case check_limits settings (database w1) now (i_market i) new_position_usd delta_usd of
                               Refused r \<Rightarrow> blocked i now key r w1
                             | Allowed \<Rightarrow>
                                 prepare_stage sidecar approval i (armed = Allowed) now delta_usd
                                   new_position_usd key w1)))))"

end
