(* ===== verification/Pipeline.thy ===== *)
theory Pipeline
  imports Engine
begin

text \<open>
  What the execution pipeline guarantees. The abstract specification is an automaton over
  effects (\<open>pstep\<close>); every run of \<open>execute_instruction\<close> is a path of it (\<open>execute_path\<close>), so
  the order of effects is read off the automaton. Gates, replay, kill switch and limits are
  proved on the code's own state, the latter two over every sequence of operations.
\<close>

section \<open>The automaton of effects\<close>

datatype pstate =
    PStart | PIntended | PPrepared | PSimulated | PDecided | PSubmitting | PSubmitted
  | PFailed | PVerifying | PTripped | PDone

inductive pstep :: "order_instruction \<Rightarrow> string \<Rightarrow> pstate \<Rightarrow> effect \<Rightarrow> pstate \<Rightarrow> bool"
  for i :: order_instruction and key :: string where
  intent: "pstep i key PStart (AuditEff Intent (action_text (i_action i))) PIntended"
| gate_blocked: "pstep i key PIntended (AuditEff Blocked (action_text (i_action i))) PDone"
| prepare: "pstep i key PIntended (SidecarEff (PrepareReq i)) PPrepared"
| prepare_blocked: "pstep i key PPrepared (AuditEff Blocked (action_text (i_action i))) PDone"
| simulated: "pstep i key PPrepared (AuditEff Simulation (action_text (i_action i))) PSimulated"
| asked: "pstep i key PSimulated (ApprovalEff (take 16 key)) PDecided"
| refused: "pstep i key PDecided (AuditEff Rejected (action_text (i_action i))) PDone"
| submission: "pstep i key PDecided (AuditEff Submission (action_text (i_action i))) PSubmitting"
| submit: "pstep i key PSubmitting (SidecarEff (SubmitReq i key)) PSubmitted"
| submit_failed: "pstep i key PSubmitted (AuditEff Rejected ''submit-failed'') PFailed"
| failures_trip: "pstep i key PFailed (KillEff (ConsecutiveFailures failures_to_trip)) PTripped"
| read_back: "pstep i key PSubmitted (SidecarEff ReadOrdersReq) PVerifying"
| mismatch_trip: "pstep i key PVerifying (KillEff (PostconditionMismatch (i_action i) (take 16 key))) PTripped"
| trip_audit: "pstep i key PTripped (AuditEff Blocked ''kill-switch-trip'') PDone"
| confirmation: "pstep i key PVerifying (AuditEff Confirmation (action_text (i_action i))) PDone"

inductive path :: "order_instruction \<Rightarrow> string \<Rightarrow> pstate \<Rightarrow> effect list \<Rightarrow> pstate \<Rightarrow> bool"
  for i :: order_instruction and key :: string where
  path_Nil: "path i key s [] s"
| path_Cons: "pstep i key s a s' \<Longrightarrow> path i key s' tr s'' \<Longrightarrow> path i key s (a # tr) s''"

inductive_simps path_Nil_simp [simp]: "path i key s [] s'"
inductive_simps path_Cons_simp [simp]: "path i key s (a # tr) s'"
inductive_cases pstep_submit: "pstep i key s (SidecarEff (SubmitReq j k)) s'"
inductive_simps pstep_simps [simp]:
  "pstep i key PStart a s" "pstep i key PIntended a s" "pstep i key PPrepared a s" "pstep i key PSimulated a s"
  "pstep i key PDecided a s" "pstep i key PSubmitting a s" "pstep i key PSubmitted a s" "pstep i key PFailed a s"
  "pstep i key PVerifying a s" "pstep i key PTripped a s" "pstep i key PDone a s"

lemma path_append: "path i key s (xs @ ys) s' \<longleftrightarrow> (\<exists>m. path i key s xs m \<and> path i key m ys s')"
  by (induction xs arbitrary: s) auto

section \<open>Every run is a path\<close>

lemmas effect_defs = audit_def call_sidecar_def call_approval_def trip_kill_switch_def blocked_def

lemma verify_path:
  "\<exists>tr s. trace (fst (verify_stage sc i now key resp w)) = trace w @ tr \<and> path i key PSubmitted tr s"
  by (fastforce simp: verify_stage_def effect_defs split: prod.split option.split bool.split)

lemma submit_path:
  "\<exists>tr s. trace (fst (submit_stage sc i now key plan d w)) = trace w @ tr \<and> path i key PDecided tr s"
proof -
  let ?w1 = "audit now (action_text (i_action i)) Submission (Some key) (SubmissionPayload plan (why d)) w"
  obtain r w2 where c: "call_sidecar sc (SubmitReq i key) ?w1 = (r, w2)" by fastforce
  have t: "trace w2 = trace w @ [AuditEff Submission (action_text (i_action i)), SidecarEff (SubmitReq i key)]"
    using c by (auto simp: effect_defs split: prod.splits)
  consider (raise) "r = None" | (bad) resp where "r = Some resp" "\<not> truthy (get_default resp ''ok'' JNull)"
    | (ok) resp where "r = Some resp" "truthy (get_default resp ''ok'' JNull)" by (cases r) auto
  then show ?thesis
  proof cases
    case raise
    then show ?thesis using c t by (auto simp: submit_stage_def Let_def)
  next
    case bad
    let ?w3 = "audit now ''submit-failed'' Rejected (Some key) (FailedPayload resp) w2"
    have "fst (submit_stage sc i now key plan d w)
        = (if failures_to_trip \<le> consecutive_submit_failures (database ?w3)
           then trip_kill_switch (ConsecutiveFailures failures_to_trip) now ?w3 else ?w3)"
      using bad c by (simp add: submit_stage_def Let_def)
    moreover have "trace ?w3 = trace w2 @ [AuditEff Rejected ''submit-failed'']" by (simp add: audit_def)
    ultimately show ?thesis using t by (auto simp: trip_kill_switch_def)
  next
    case ok
    obtain tr s where "trace (fst (verify_stage sc i now key resp w2)) = trace w2 @ tr" "path i key PSubmitted tr s"
      using verify_path by blast
    then show ?thesis using c t ok
      by (intro exI [of _ "[AuditEff Submission (action_text (i_action i)), SidecarEff (SubmitReq i key)] @ tr"] exI [of _ s])
        (simp add: submit_stage_def Let_def)
  qed
qed


lemma approval_path:
  "\<exists>tr s. trace (fst (approval_stage sc ap i now du np key plan w)) = trace w @ tr \<and> path i key PSimulated tr s"
proof -
  define m where "m = \<lparr>m_instruction = i, m_plan = plan, m_delta_usd = du, m_new_position_usd = np, m_id = take 16 key\<rparr>"
  obtain r w1 where c: "call_approval ap (take 16 key) m w = (r, w1)" by fastforce
  have t: "trace w1 = trace w @ [ApprovalEff (take 16 key)]" using c by (auto simp: effect_defs split: prod.splits)
  consider "r = None" | d where "r = Some d" "\<not> approved d" | d where "r = Some d" "approved d" by (cases r) auto
  then show ?thesis
  proof cases
    case 3
    obtain tr s where "trace (fst (submit_stage sc i now key plan d w1)) = trace w1 @ tr" "path i key PDecided tr s"
      using submit_path by blast
    then show ?thesis using c t 3
      by (intro exI [of _ "ApprovalEff (take 16 key) # tr"] exI [of _ s]) (auto simp: approval_stage_def simp flip: m_def)
  qed (use c t in \<open>auto simp: approval_stage_def audit_def simp flip: m_def\<close>)
qed

lemma prepare_path:
  "\<exists>tr s. trace (fst (prepare_stage sc ap i live now du np key w)) = trace w @ tr \<and> path i key PIntended tr s"
proof -
  obtain r w1 where c: "call_sidecar sc (PrepareReq i) w = (r, w1)" by fastforce
  have t: "trace w1 = trace w @ [SidecarEff (PrepareReq i)]" using c by (auto simp: effect_defs split: prod.splits)
  consider "r = None" | p where "r = Some p" "\<not> truthy (get_default p ''ok'' JNull)"
    | p where "r = Some p" "truthy (get_default p ''ok'' JNull)" by (cases r) auto
  then show ?thesis
  proof cases
    case 3
    define plan where "plan = get_default p ''plan'' (JObj [])"
    define w2 where "w2 = audit now (action_text (i_action i)) Simulation (Some key) (PlanPayload plan du np) w1"
    have t2: "trace w2 = trace w @ [SidecarEff (PrepareReq i), AuditEff Simulation (action_text (i_action i))]"
      using t by (simp add: w2_def audit_def)
    have e: "prepare_stage sc ap i live now du np key w =
      (if \<not> live then (w2, Some ((result SDryRun DDryRun key)\<lparr>x_plan := Some plan\<rparr>))
       else approval_stage sc ap i now du np key plan w2)"
      using c 3 by (simp add: prepare_stage_def Let_def w2_def plan_def)
    obtain tr s where "trace (fst (approval_stage sc ap i now du np key plan w2)) = trace w2 @ tr" "path i key PSimulated tr s"
      using approval_path by blast
    then have "\<exists>s. path i key PIntended ([SidecarEff (PrepareReq i), AuditEff Simulation (action_text (i_action i))] @ tr) s"
      "trace (fst (approval_stage sc ap i now du np key plan w2))
        = trace w @ [SidecarEff (PrepareReq i), AuditEff Simulation (action_text (i_action i))] @ tr"
      using t2 by auto
    then show ?thesis using t2 unfolding e by (cases live) auto
  qed (use c t in \<open>auto simp: prepare_stage_def blocked_def audit_def\<close>)
qed

text \<open>The intent row changes nothing the gates look at.\<close>

abbreviation intent_world :: "(string \<Rightarrow> string) \<Rightarrow> order_instruction \<Rightarrow> bool \<Rightarrow> instant \<Rightarrow> 'e world \<Rightarrow> 'e world" where
  "intent_world sha i arm_flag now w \<equiv>
     audit now (action_text (i_action i)) Intent (Some (idempotency_key sha i now)) (IntentPayload i arm_flag) w"

lemma intent_world_gates [gate_simps]:
  "stored_confirmation (database (intent_world sha i f now w)) k = stored_confirmation (database w) k"
  "check_kill_switch (intent_world sha i f now w) = check_kill_switch w"
  "check_armed g t (intent_world sha i f now w) = check_armed g t w"
  "check_limits settings (database (intent_world sha i f now w)) t m p d = check_limits settings (database w) t m p d"
proof -
  let ?d = "insert_audit now ''executor'' (action_text (i_action i)) Intent (Some (idempotency_key sha i now)) (IntentPayload i f) (database w)"
  have "recent_submissions ?d c = recent_submissions (database w) c" for c
    by (simp add: recent_submissions_def insert_audit_def)
  then show "check_limits settings (database (intent_world sha i f now w)) t m p d = check_limits settings (database w) t m p d"
    by (simp add: check_limits_def audit_def Let_def)
qed (simp_all add: stored_confirmation_def audit_def insert_audit_def check_kill_switch_def check_armed_def)

definition armed_until :: "instant \<Rightarrow> 'e world \<Rightarrow> bool" where
  "armed_until now w = (case armed_file w of Some (ArmedState _ expires) \<Rightarrow> now < expires | _ \<Rightarrow> False)"

lemma check_armed_cases:
  "check_armed arm_flag now w = Some Allowed \<longleftrightarrow> arm_flag \<and> armed_until now w"
  by (auto simp: check_armed_def armed_until_def split: option.split armed_content.split)

text \<open>The four ways through the gates.\<close>

lemma execute_cases:
  obtains (replay) st where "stored_confirmation (database w) (idempotency_key sha i now) = Some st"
    "execute_instruction sha settings sc ap i arm_flag now du np w =
      (intent_world sha i arm_flag now w,
       Some ((result SReplayed DReplayed (idempotency_key sha i now))\<lparr>x_response := Some st\<rparr>))"
  | (raised) "stored_confirmation (database w) (idempotency_key sha i now) = None" "kill_file w = None"
    "arm_flag" "armed_file w = Some ArmedIllTyped"
    "execute_instruction sha settings sc ap i arm_flag now du np w = (intent_world sha i arm_flag now w, None)"
  | (block) r where "stored_confirmation (database w) (idempotency_key sha i now) = None"
    "execute_instruction sha settings sc ap i arm_flag now du np w
      = blocked i now (idempotency_key sha i now) r (intent_world sha i arm_flag now w)"
    "check_kill_switch w = Refused r \<or> kill_file w = None \<and> arm_flag \<and> check_armed arm_flag now w = Some (Refused r)
     \<or> kill_file w = None \<and> check_limits settings (database w) now (i_market i) np du = Refused r"
  | (go) live where "stored_confirmation (database w) (idempotency_key sha i now) = None" "kill_file w = None"
    "live \<longleftrightarrow> arm_flag \<and> armed_until now w" "arm_flag \<Longrightarrow> live"
    "check_limits settings (database w) now (i_market i) np du = Allowed"
    "execute_instruction sha settings sc ap i arm_flag now du np w
      = prepare_stage sc ap i live now du np (idempotency_key sha i now) (intent_world sha i arm_flag now w)"
proof -
  let ?key = "idempotency_key sha i now"
  let ?w1 = "intent_world sha i arm_flag now w"
  note d = execute_instruction_def Let_def gate_simps
  show thesis
  proof (cases "stored_confirmation (database w) ?key")
    case (Some st)
    then show thesis by (intro replay [of st]) (simp_all add: d)
  next
    case N: None
    show thesis
    proof (cases "check_kill_switch w")
      case (Refused r)
      then show thesis using N by (intro block [of r]) (simp_all add: d)
    next
      case A: Allowed
      then have k: "kill_file w = None" by (simp add: check_kill_switch_def split: if_splits)
      show thesis
      proof (cases "check_armed arm_flag now w")
        case None
        then have "arm_flag" "armed_file w = Some ArmedIllTyped"
          by (auto simp: check_armed_def split: if_splits option.splits armed_content.splits)
        then show thesis using N A None k by (intro raised) (simp_all add: d)
      next
        case (Some armed)
        show thesis
        proof (cases "\<exists>r. arm_flag \<and> armed = Refused r")
          case True
          then obtain r where "arm_flag" "armed = Refused r" by blast
          then show thesis using N A Some k by (intro block [of r]) (simp_all add: d)
        next
          case F: False
          then have e: "execute_instruction sha settings sc ap i arm_flag now du np w =
            (case check_limits settings (database w) now (i_market i) np du of
               Refused r \<Rightarrow> blocked i now ?key r ?w1
             | Allowed \<Rightarrow> prepare_stage sc ap i (armed = Allowed) now du np ?key ?w1)"
            using N A Some by (cases arm_flag; cases armed) (simp_all add: d split: gate.split)
          show thesis
          proof (cases "check_limits settings (database w) now (i_market i) np du")
            case Allowed
            moreover have "armed = Allowed \<longleftrightarrow> arm_flag \<and> armed_until now w"
              using Some check_armed_cases [of arm_flag now w] by simp
            moreover have "arm_flag \<Longrightarrow> armed = Allowed" using F by (cases armed) auto
            ultimately show thesis using e N k by (intro go [of "armed = Allowed"]) auto
          next
            case (Refused r)
            with e N k show thesis by (intro block [of r]) auto
          qed
        qed
      qed
    qed
  qed
qed

lemma execute_path:
  "\<exists>tr s. trace (fst (execute_instruction sha settings sc ap i arm_flag now du np w)) = trace w @ tr
     \<and> path i (idempotency_key sha i now) PStart tr s"
proof -
  let ?key = "idempotency_key sha i now"
  let ?w1 = "intent_world sha i arm_flag now w"
  have t: "trace ?w1 = trace w @ [AuditEff Intent (action_text (i_action i))]" by (simp add: audit_def)
  show ?thesis
  proof (rule execute_cases [of w sha i now settings sc ap arm_flag du np])
    fix live
    assume go: "execute_instruction sha settings sc ap i arm_flag now du np w = prepare_stage sc ap i live now du np ?key ?w1"
    obtain tr s where "trace (fst (prepare_stage sc ap i live now du np ?key ?w1)) = trace ?w1 @ tr" "path i ?key PIntended tr s"
      using prepare_path by blast
    then show ?thesis using go t
      by (intro exI [of _ "AuditEff Intent (action_text (i_action i)) # tr"] exI [of _ s]) auto
  qed (use t in \<open>auto simp: blocked_def audit_def\<close>)
qed


section \<open>The audit log follows the trace\<close>

primrec audits :: "effect list \<Rightarrow> (phase \<times> string) list" where
  "audits [] = []"
| "audits (e # tr) = (case e of AuditEff p a \<Rightarrow> [(p, a)] | _ \<Rightarrow> []) @ audits tr"

lemma audits_append [simp]: "audits (xs @ ys) = audits xs @ audits ys"
  by (induction xs) auto

text \<open>From \<open>w\<close> to \<open>w'\<close> the audit log grew by one row per audit effect, in order, all stamped \<open>now\<close>
  and with no other key than \<open>key\<close>; no other table changed; a kill switch that was there is still there.\<close>

definition logs :: "instant \<Rightarrow> string \<Rightarrow> 'e world \<Rightarrow> 'e world \<Rightarrow> bool" where
  "logs now key w w' \<longleftrightarrow> (\<exists>rows tr. audit_log (database w') = audit_log (database w) @ rows \<and> trace w' = trace w @ tr
     \<and> map (\<lambda>r. (au_phase r, au_action r)) rows = audits tr \<and> list_all (\<lambda>r. au_ts r = now) rows
     \<and> list_all (\<lambda>r. au_key r = Some key \<or> au_key r = None) rows
     \<and> (kill_file w \<noteq> None \<longrightarrow> kill_file w' \<noteq> None) \<and> armed_file w' = armed_file w
     \<and> database w' = (database w)\<lparr>audit_log := audit_log (database w')\<rparr>)"

lemma logs_refl [simp]: "logs now key w w"
  by (auto simp: logs_def)

lemma logs_trans [trans]:
  assumes "logs now key w w1" "logs now key w1 w2"
  shows "logs now key w w2"
proof -
  obtain rows tr where 1: "audit_log (database w1) = audit_log (database w) @ rows" "trace w1 = trace w @ tr"
    "map (\<lambda>r. (au_phase r, au_action r)) rows = audits tr" "list_all (\<lambda>r. au_ts r = now) rows" "list_all (\<lambda>r. au_key r = Some key \<or> au_key r = None) rows"
    "kill_file w \<noteq> None \<longrightarrow> kill_file w1 \<noteq> None" "armed_file w1 = armed_file w"
    "database w1 = (database w)\<lparr>audit_log := audit_log (database w1)\<rparr>"
    using assms(1) unfolding logs_def by blast
  obtain rows' tr' where 2: "audit_log (database w2) = audit_log (database w1) @ rows'" "trace w2 = trace w1 @ tr'"
    "map (\<lambda>r. (au_phase r, au_action r)) rows' = audits tr'" "list_all (\<lambda>r. au_ts r = now) rows'" "list_all (\<lambda>r. au_key r = Some key \<or> au_key r = None) rows'"
    "kill_file w1 \<noteq> None \<longrightarrow> kill_file w2 \<noteq> None" "armed_file w2 = armed_file w1"
    "database w2 = (database w1)\<lparr>audit_log := audit_log (database w2)\<rparr>"
    using assms(2) unfolding logs_def by blast
  show ?thesis unfolding logs_def
  proof (intro exI [of _ "rows @ rows'"] exI [of _ "tr @ tr'"] conjI)
    show "database w2 = (database w)\<lparr>audit_log := audit_log (database w2)\<rparr>"
      by (subst 2(8), subst 1(8)) simp
  qed (use 1(1-7) 2(1-7) in simp_all)
qed

lemma logs_audit: "logs now key w w1 \<Longrightarrow> logs now key w (audit now act ph (Some key) pl w1)"
  by (erule logs_trans) (auto simp: logs_def audit_def insert_audit_def)

lemma logs_trip: "logs now key w w1 \<Longrightarrow> logs now key w (trip_kill_switch rsn now w1)"
  by (erule logs_trans) (auto simp: logs_def trip_kill_switch_def insert_audit_def)

lemma logs_sidecar: "call_sidecar sc req w1 = (r, w2) \<Longrightarrow> logs now key w w1 \<Longrightarrow> logs now key w w2"
  by (rule logs_trans [of now key w w1]) (auto simp: logs_def call_sidecar_def split: prod.splits)

lemma logs_approval: "call_approval ap k m w1 = (r, w2) \<Longrightarrow> logs now key w w1 \<Longrightarrow> logs now key w w2"
  by (rule logs_trans [of now key w w1]) (auto simp: logs_def call_approval_def split: prod.splits)

lemmas logs_intros = logs_audit logs_trip logs_sidecar logs_approval

lemma logs_verify: "logs now key w w1 \<Longrightarrow> logs now key w (fst (verify_stage sc i now key resp w1))"
  by (auto simp: verify_stage_def split: prod.split option.split bool.split intro!: logs_audit logs_trip intro: logs_intros)

lemma logs_submit: "logs now key w w1 \<Longrightarrow> logs now key w (fst (submit_stage sc i now key plan d w1))"
  by (auto simp: submit_stage_def Let_def split: prod.split option.split intro!: logs_audit logs_trip intro: logs_intros logs_verify)

lemma logs_approval_stage: "logs now key w w1 \<Longrightarrow> logs now key w (fst (approval_stage sc ap i now du np key plan w1))"
  by (auto simp: approval_stage_def split: prod.split option.split intro!: logs_audit logs_trip intro: logs_intros logs_submit)

lemma logs_prepare: "logs now key w w1 \<Longrightarrow> logs now key w (fst (prepare_stage sc ap i live now du np key w1))"
  by (auto simp: prepare_stage_def blocked_def Let_def split: prod.split option.split
      intro!: logs_audit logs_trip intro: logs_intros logs_approval_stage)

lemma logs_execute: "logs now (idempotency_key sha i now) w (fst (execute_instruction sha settings sc ap i arm_flag now du np w))"
  by (rule execute_cases [of w sha i now settings sc ap arm_flag du np])
    (auto simp: blocked_def intro!: logs_audit logs_trip intro: logs_intros logs_prepare logs_refl)

section \<open>Submissions\<close>

definition is_submission :: "phase \<times> string \<Rightarrow> bool" where
  "is_submission pa = (fst pa = Submission)"

lemma is_submission_pair [simp]: "is_submission (p, a) \<longleftrightarrow> p = Submission"
  by (simp add: is_submission_def)

lemma no_submission_after:
  "path i key s tr s' \<Longrightarrow> s \<in> {PSubmitting, PSubmitted, PFailed, PVerifying, PTripped, PDone}
     \<Longrightarrow> filter is_submission (audits tr) = []"
proof (induction rule: path.induct)
  case (path_Cons s a s' tr s'')
  from path_Cons.hyps(1) path_Cons.prems path_Cons.IH show ?case
    by (auto elim!: pstep.cases)
qed simp

lemma at_most_one_submission: "path i key s tr s' \<Longrightarrow> List.length (filter is_submission (audits tr)) \<le> 1"
proof (induction rule: path.induct)
  case (path_Cons s a s' tr s'')
  from path_Cons.hyps(1) path_Cons.IH no_submission_after [OF path_Cons.hyps(2)] show ?case
    by (auto elim!: pstep.cases)
qed simp

text \<open>A submission row, a submit call and an approval come together, in this order.\<close>

lemma submission_has_approval:
  "path i key s tr s' \<Longrightarrow> filter is_submission (audits tr) \<noteq> [] \<Longrightarrow> s \<noteq> PDecided \<Longrightarrow> ApprovalEff (take 16 key) \<in> set tr"
proof (induction rule: path.induct)
  case (path_Cons s a s' tr s'')
  from path_Cons.hyps(1) path_Cons.IH path_Cons.prems no_submission_after [OF path_Cons.hyps(2)] show ?case
    by (auto elim!: pstep.cases)
qed simp

lemma submit_after_submission:
  "path i key s tr s' \<Longrightarrow> SidecarEff (SubmitReq j k) \<in> set tr \<Longrightarrow> s \<noteq> PSubmitting \<Longrightarrow>
     j = i \<and> k = key \<and> (\<exists>pre post. tr = pre @ [AuditEff Submission (action_text (i_action i)), SidecarEff (SubmitReq i key)] @ post
        \<and> (s = PDecided \<or> (\<exists>pre'. pre = pre' @ [ApprovalEff (take 16 key)])))"
proof (induction rule: path.induct)
  case (path_Cons s a s' tr s'')
  show ?case
  proof (cases "s = PDecided")
    case True
    with path_Cons.hyps(1) consider "a = AuditEff Rejected (action_text (i_action i))" "s' = PDone"
      | "a = AuditEff Submission (action_text (i_action i))" "s' = PSubmitting" by auto
    then show ?thesis
    proof cases
      case 1
      with path_Cons.hyps(2) path_Cons.prems show ?thesis by (cases tr) auto
    next
      case 2
      with path_Cons.hyps(2) path_Cons.prems obtain b tr' where tr: "tr = b # tr'" by (cases tr) auto
      with 2 path_Cons.hyps(2) have b: "b = SidecarEff (SubmitReq i key)" "path i key PSubmitted tr' s''" by auto
      have "SidecarEff (SubmitReq j k) \<notin> set tr'"
      proof
        assume "SidecarEff (SubmitReq j k) \<in> set tr'"
        with b(2) show False
          by (cases tr'; cases "tl tr'"; cases "tl (tl tr')"; cases "tl (tl (tl tr'))") auto
      qed
      with path_Cons.prems 2 tr b True have "j = i" "k = key" by auto
      with 2 tr b True show ?thesis by (auto intro: exI [of _ "[]"])
    qed
  next
    case False
    have "s' \<noteq> PSubmitting" using path_Cons.hyps(1) False by (auto elim: pstep.cases)
    moreover have "SidecarEff (SubmitReq j k) \<in> set tr"
      using path_Cons.hyps(1) path_Cons.prems by (auto elim: pstep.cases)
    ultimately obtain pre post where 1: "j = i" "k = key"
      "tr = pre @ [AuditEff Submission (action_text (i_action i)), SidecarEff (SubmitReq i key)] @ post"
      "s' = PDecided \<or> (\<exists>pre'. pre = pre' @ [ApprovalEff (take 16 key)])"
      using path_Cons.IH by blast
    have "\<exists>pre'. a # pre = pre' @ [ApprovalEff (take 16 key)]"
    proof (cases "pre = []")
      case True
      with 1(4) have "s' = PDecided" by auto
      with path_Cons.hyps(1) have "a = ApprovalEff (take 16 key)" by (auto elim: pstep.cases)
      with True show ?thesis by simp
    next
      case F: False
      show ?thesis
      proof (cases "\<exists>pre'. pre = pre' @ [ApprovalEff (take 16 key)]")
        case True
        then show ?thesis by (metis append_Cons)
      next
        case False
        with 1(4) have "s' = PDecided" by blast
        obtain b pre2 where pre: "pre = b # pre2" using F by (cases pre) auto
        then obtain m where m: "pstep i key s' b m" "path i key m (pre2 @ [AuditEff Submission (action_text (i_action i)), SidecarEff (SubmitReq i key)] @ post) s''"
          using path_Cons.hyps(2) 1(3) by auto
        with \<open>s' = PDecided\<close> have "m \<in> {PDone, PSubmitting}" by auto
        then have "filter is_submission (audits (pre2 @ [AuditEff Submission (action_text (i_action i)), SidecarEff (SubmitReq i key)] @ post)) = []"
          using no_submission_after [OF m(2)] by blast
        then show ?thesis by simp
      qed
    qed
    with 1 show ?thesis by (intro conjI exI [of _ "a # pre"] exI [of _ post]) auto
  qed
qed simp


section \<open>Order of effects, gates\<close>

text \<open>C28. Refinement: whatever sidecar and approval do, the effects of \<open>execute_instruction\<close> are a path
  of the automaton, and the audit rows it adds are exactly the audit effects of that path, in
  order, stamped \<open>now\<close>. In particular every phase is audited where the automaton says so.\<close>

theorem execute_refines_automaton:
  "\<exists>w' r tr s rows. execute_instruction sha settings sc ap i arm_flag now du np w = (w', r)
     \<and> trace w' = trace w @ tr \<and> path i (idempotency_key sha i now) PStart tr s
     \<and> audit_log (database w') = audit_log (database w) @ rows
     \<and> map (\<lambda>r. (au_phase r, au_action r)) rows = audits tr \<and> list_all (\<lambda>r. au_ts r = now) rows"
proof -
  obtain w' r where x: "execute_instruction sha settings sc ap i arm_flag now du np w = (w', r)" by fastforce
  obtain tr s where p: "trace w' = trace w @ tr" "path i (idempotency_key sha i now) PStart tr s"
    using execute_path [of sha settings sc ap i arm_flag now du np w] x by auto
  have "logs now (idempotency_key sha i now) w w'" using logs_execute [of now sha i w settings sc ap arm_flag du np] x by simp
  then obtain rows tr' where "audit_log (database w') = audit_log (database w) @ rows" "trace w' = trace w @ tr'"
    "map (\<lambda>r. (au_phase r, au_action r)) rows = audits tr'" "list_all (\<lambda>r. au_ts r = now) rows"
    unfolding logs_def by blast
  with p x show ?thesis by auto
qed

text \<open>C3. Audit before action: a submit call to the sidecar carries this instruction and its key, and
  the effect immediately before it is its submission row in the audit log, which is itself
  immediately preceded by the answer of the approval asked for this instruction's id.\<close>

theorem submission_audited_before_submit:
  assumes "trace (fst (execute_instruction sha settings sc ap i arm_flag now du np w)) = trace w @ tr"
    and "SidecarEff (SubmitReq j k) \<in> set tr"
  shows "j = i \<and> k = idempotency_key sha i now
    \<and> (\<exists>pre post. tr = pre @ [ApprovalEff (take 16 k), AuditEff Submission (action_text (i_action i)),
                              SidecarEff (SubmitReq i k)] @ post)"
proof -
  obtain s where p: "path i (idempotency_key sha i now) PStart tr s"
    using execute_path [of sha settings sc ap i arm_flag now du np w] assms(1) by auto
  from submit_after_submission [OF p assms(2)] show ?thesis by fastforce
qed

definition approval_granted :: "'e approver \<Rightarrow> order_instruction \<Rightarrow> decimal \<Rightarrow> decimal \<Rightarrow> string \<Rightarrow> bool" where
  "approval_granted ap i du np key \<longleftrightarrow> (\<exists>plan e d e'. ap (take 16 key)
     \<lparr>m_instruction = i, m_plan = plan, m_delta_usd = du, m_new_position_usd = np, m_id = take 16 key\<rparr> e
       = (Some d, e') \<and> approved d)"

definition submit_effect :: "effect \<Rightarrow> bool" where
  "submit_effect e = (case e of SidecarEff (SubmitReq _ _) \<Rightarrow> True | _ \<Rightarrow> False)"

lemma approval_stage_submit:
  assumes "trace (fst (approval_stage sc ap i now du np key plan w)) = trace w @ tr" "list_ex submit_effect tr"
  shows "approval_granted ap i du np key"
proof -
  let ?m = "\<lparr>m_instruction = i, m_plan = plan, m_delta_usd = du, m_new_position_usd = np, m_id = take 16 key\<rparr>"
  obtain r e where r: "ap (take 16 key) ?m (env w) = (r, e)" by fastforce
  show ?thesis
  proof (cases "\<exists>d. r = Some d \<and> approved d")
    case True
    with r show ?thesis unfolding approval_granted_def by blast
  next
    case False
    with r have "tr = [ApprovalEff (take 16 key)] \<or> tr = [ApprovalEff (take 16 key), AuditEff Rejected (action_text (i_action i))]"
      using assms(1) by (cases r) (auto simp: approval_stage_def call_approval_def audit_def)
    with assms(2) show ?thesis by (auto simp: submit_effect_def)
  qed
qed

lemma prepare_stage_submit:
  assumes "trace (fst (prepare_stage sc ap i live now du np key w)) = trace w @ tr" "list_ex submit_effect tr"
  shows "live \<and> approval_granted ap i du np key"
proof -
  obtain r e where r: "sc (PrepareReq i) (env w) = (r, e)" by fastforce
  show ?thesis
  proof (cases "\<exists>p. r = Some p \<and> truthy (get_default p ''ok'' JNull) \<and> live")
    case True
    then obtain p where p: "r = Some p" "truthy (get_default p ''ok'' JNull)" "live" by blast
    define plan where "plan = get_default p ''plan'' (JObj [])"
    let ?w1 = "w\<lparr>env := e, trace := trace w @ [SidecarEff (PrepareReq i)]\<rparr>"
    let ?w2 = "audit now (action_text (i_action i)) Simulation (Some key) (PlanPayload plan du np) ?w1"
    have e: "prepare_stage sc ap i live now du np key w = approval_stage sc ap i now du np key plan ?w2"
      using p r by (simp add: prepare_stage_def call_sidecar_def plan_def Let_def)
    obtain tr' where t': "trace (fst (approval_stage sc ap i now du np key plan ?w2)) = trace ?w2 @ tr'"
      using approval_path by blast
    then have "tr = [SidecarEff (PrepareReq i), AuditEff Simulation (action_text (i_action i))] @ tr'"
      using assms(1) e by (simp add: audit_def)
    then have "list_ex submit_effect tr'" using assms(2) by (auto simp: submit_effect_def)
    with approval_stage_submit [OF t'] p(3) show ?thesis by simp
  next
    case False
    with r have "\<exists>p a. tr = [SidecarEff (PrepareReq i)] \<or> tr = [SidecarEff (PrepareReq i), AuditEff p a]"
      using assms(1) by (cases r) (auto simp: prepare_stage_def call_sidecar_def audit_def blocked_def Let_def split: if_splits)
    with assms(2) show ?thesis by (auto simp: submit_effect_def)
  qed
qed

lemma submission_gates:
  assumes "trace (fst (execute_instruction sha settings sc ap i arm_flag now du np w)) = trace w @ tr"
    and "list_ex submit_effect tr"
  shows "kill_file w = None \<and> arm_flag \<and> armed_until now w
    \<and> check_limits settings (database w) now (i_market i) np du = Allowed
    \<and> stored_confirmation (database w) (idempotency_key sha i now) = None
    \<and> approval_granted ap i du np (idempotency_key sha i now)"
proof (rule execute_cases [of w sha i now settings sc ap arm_flag du np])
  fix live
  assume go: "stored_confirmation (database w) (idempotency_key sha i now) = None" "kill_file w = None"
    "live \<longleftrightarrow> arm_flag \<and> armed_until now w" "check_limits settings (database w) now (i_market i) np du = Allowed"
    "execute_instruction sha settings sc ap i arm_flag now du np w
      = prepare_stage sc ap i live now du np (idempotency_key sha i now) (intent_world sha i arm_flag now w)"
  obtain tr' where t': "trace (fst (prepare_stage sc ap i live now du np (idempotency_key sha i now)
      (intent_world sha i arm_flag now w))) = trace (intent_world sha i arm_flag now w) @ tr'"
    using prepare_path by blast
  then have "tr = AuditEff Intent (action_text (i_action i)) # tr'"
    using assms(1) go(5) by (simp add: audit_def)
  then have "list_ex submit_effect tr'" using assms(2) by (simp add: submit_effect_def)
  with prepare_stage_submit [OF t'] go show ?thesis by blast
qed (use assms in \<open>auto simp: audit_def blocked_def submit_effect_def\<close>)

text \<open>C1. No order leaves the process except through every gate: if \<open>execute_instruction\<close> calls the
  sidecar to submit, then there was no kill-switch file, the arm flag was given and the armed
  state had not expired, the hard limits allowed the order, the decision had not been
  confirmed before, and the approval asked with exactly this instruction, its amounts and its
  id was granted.\<close>

theorem submit_only_through_gates:
  assumes "trace (fst (execute_instruction sha settings sc ap i arm_flag now du np w)) = trace w @ tr"
    and "list_ex submit_effect tr"
  shows "kill_file w = None \<and> arm_flag \<and> armed_until now w
    \<and> check_limits settings (database w) now (i_market i) np du = Allowed
    \<and> stored_confirmation (database w) (idempotency_key sha i now) = None
    \<and> approval_granted ap i du np (idempotency_key sha i now)"
  using assms by (rule submission_gates)

text \<open>While the kill-switch file exists nothing outside is touched: the sidecar and the approval are
  not called, nothing but an intent row and, unless the decision is replayed, a blocked row is
  written, and the file stays.\<close>

theorem kill_switch_halts:
  assumes "kill_file w \<noteq> None"
  shows "\<exists>w' r. execute_instruction sha settings sc ap i arm_flag now du np w = (w', Some r)
    \<and> env w' = env w \<and> kill_file w' = kill_file w \<and> x_status r \<in> {SBlocked, SReplayed}
    \<and> (x_status r = SReplayed \<longleftrightarrow> stored_confirmation (database w) (idempotency_key sha i now) \<noteq> None)
    \<and> trace w' = trace w @ AuditEff Intent (action_text (i_action i)) #
        (if x_status r = SReplayed then [] else [AuditEff Blocked (action_text (i_action i))])"
  by (rule execute_cases [of w sha i now settings sc ap arm_flag du np])
    (use assms in \<open>auto simp: audit_def blocked_def result_def\<close>)

text \<open>A decision confirmed within the hour is replayed, not executed again: the stored response
  comes back verbatim, neither sidecar nor approval is called and only an intent row is
  written, with or without kill switch, arming or room in the limits.\<close>

theorem replay_verbatim:
  assumes "stored_confirmation (database w) (idempotency_key sha i now) = Some response"
  shows "\<exists>w' r. execute_instruction sha settings sc ap i arm_flag now du np w = (w', Some r)
    \<and> x_status r = SReplayed \<and> x_response r = Some response \<and> env w' = env w \<and> kill_file w' = kill_file w
    \<and> trace w' = trace w @ [AuditEff Intent (action_text (i_action i))]"
  by (rule execute_cases [of w sha i now settings sc ap arm_flag du np])
    (use assms in \<open>auto simp: audit_def result_def\<close>)

end
