(* ===== verification/Execution.thy ===== *)
theory Execution
  imports Pipeline
begin

text \<open>
  The executor over time: sequences of executions and of \<open>execute arm\<close> commands, with the
  interfaces of the prelude interpreted on them. The limits hold for every sequence, in
  any order of times; the kill switch, once there, stays; a confirmed decision stays
  confirmed with its response; the audit log is append-only.
\<close>

section \<open>Operations\<close>

datatype exec_op =
    OpExecute order_instruction bool instant decimal decimal
  | OpArm "int option" instant

text \<open>\<open>execute arm\<close> (the command in \<open>cli.py\<close>): arming is audited; a refusal changes nothing.\<close>

definition arm_command :: "settings \<Rightarrow> int option \<Rightarrow> instant \<Rightarrow> 'e world \<Rightarrow> 'e world" where
  "arm_command settings ttl_minutes now w =
     (case arm settings ttl_minutes now w of
        Inl _ \<Rightarrow> w
      | Inr w' \<Rightarrow> audit now ''arm'' Intent None (ArmPayload ttl_minutes) w')"

definition exec_step ::
  "(string \<Rightarrow> string) \<Rightarrow> settings \<Rightarrow> 'e sidecar \<Rightarrow> 'e approver \<Rightarrow> exec_op \<Rightarrow> 'e world \<Rightarrow> 'e world" where
  "exec_step sha256 settings sidecar approval op w =
     (case op of
        OpExecute i arm_flag now delta_usd new_position_usd \<Rightarrow>
          fst (execute_instruction sha256 settings sidecar approval i arm_flag now delta_usd new_position_usd w)
      | OpArm ttl now \<Rightarrow> arm_command settings ttl now w)"

lemma arm_command_effects:
  "submission_times (database (arm_command settings ttl now w)) = submission_times (database w)"
  "kill_file (arm_command settings ttl now w) = kill_file w"
  "stored_confirmation (database (arm_command settings ttl now w)) k = stored_confirmation (database w) k"
  "\<exists>new. audit_log (database (arm_command settings ttl now w)) = audit_log (database w) @ new"
  by (auto simp: arm_command_def arm_def audit_def submission_times_def stored_confirmation_def insert_audit_def
      split: gate.split sum.split)

section \<open>Submissions over time\<close>

lemma submission_times_append:
  assumes "audit_log d' = audit_log d @ rows"
  shows "submission_times d' = submission_times d @ map au_ts (filter (\<lambda>r. au_phase r = Submission) rows)"
  using assms by (simp add: submission_times_def)

lemma filter_phases:
  "map (\<lambda>r. (au_phase r, au_action r)) rows = pas \<Longrightarrow>
     List.length (filter (\<lambda>r. au_phase r = Submission) rows) = List.length (filter is_submission pas)"
  by (induction rows arbitrary: pas) auto

lemma execute_submission_times:
  "\<exists>b. submission_times (database (fst (execute_instruction sha settings sc ap i f now du np w)))
       = submission_times (database w) @ (if b then [now] else [])
     \<and> (b \<longrightarrow> check_limits settings (database w) now (i_market i) np du = Allowed)"
proof -
  let ?x = "execute_instruction sha settings sc ap i f now du np w"
  obtain tr s where p: "trace (fst ?x) = trace w @ tr" "path i (idempotency_key sha i now) PStart tr s"
    using execute_path by blast
  have "logs now (idempotency_key sha i now) w (fst ?x)" by (rule logs_execute)
  then obtain rows tr' where r: "audit_log (database (fst ?x)) = audit_log (database w) @ rows" "trace (fst ?x) = trace w @ tr'"
    "map (\<lambda>r. (au_phase r, au_action r)) rows = audits tr'" "list_all (\<lambda>r. au_ts r = now) rows"
    unfolding logs_def by blast
  let ?subs = "filter (\<lambda>r. au_phase r = Submission) rows"
  have tr: "tr' = tr" using p(1) r(2) by simp
  have "List.length ?subs \<le> 1"
    using filter_phases [OF r(3)] at_most_one_submission [OF p(2)] tr by simp
  then consider "?subs = []" | x where "?subs = [x]" by (cases ?subs) auto
  then show ?thesis
  proof cases
    case 1
    then show ?thesis by (intro exI [of _ False]) (simp add: submission_times_append [OF r(1)])
  next
    case 2
    then have "x \<in> set rows" by (metis filter_eq_Cons_iff in_set_conv_decomp)
    then have x: "map au_ts ?subs = [now]" using r(4) 2 by (simp add: list_all_iff)
    have "filter is_submission (audits tr) \<noteq> []" using filter_phases [OF r(3)] 2 tr by auto
    moreover have "filter is_submission (audits tr) = []"
      if "check_limits settings (database w) now (i_market i) np du \<noteq> Allowed"
      by (rule execute_cases [of w sha i now settings sc ap f du np])
        (use that p(1) in \<open>auto simp: audit_def blocked_def\<close>)
    ultimately have "check_limits settings (database w) now (i_market i) np du = Allowed" by blast
    with x show ?thesis by (intro exI [of _ True]) (simp add: submission_times_append [OF r(1)])
  qed
qed

lemma exec_step_submission_times:
  "\<exists>new. submission_times (database (exec_step sha settings sc ap op w)) = submission_times (database w) @ new
     \<and> (new = [] \<or> (\<exists>now m p d. new = [now] \<and> check_limits settings (database w) now m p d = Allowed))"
proof (cases op)
  case (OpExecute i f now du np)
  then show ?thesis
    using execute_submission_times [of sha settings sc ap i f now du np w]
    by (auto simp: exec_step_def split: if_splits)
next
  case (OpArm ttl now)
  then show ?thesis by (simp add: exec_step_def arm_command_effects)
qed

text \<open>The two limits as invariants: no UTC day holds more submissions than the cap, and two
  submissions are never closer than the rate limit.\<close>

definition within_daily_cap :: "settings \<Rightarrow> 'e world \<Rightarrow> bool" where
  "within_daily_cap settings w \<longleftrightarrow> (0 < max_daily_adjustments settings \<longrightarrow>
     (\<forall>u. used_between (day_start u) u (submission_rows (database w)) \<le> nat (max_daily_adjustments settings)))"

definition spaced_out :: "settings \<Rightarrow> 'e world \<Rightarrow> bool" where
  "spaced_out settings w \<longleftrightarrow>
     sorted_wrt (\<lambda>s t. s + seconds (order_rate_limit_seconds settings) \<le> t) (submission_times (database w))"

lemma within_daily_cap_step:
  assumes "within_daily_cap settings w"
  shows "within_daily_cap settings (exec_step sha settings sc ap op w)"
proof -
  let ?w' = "exec_step sha settings sc ap op w"
  obtain new where n: "submission_times (database ?w') = submission_times (database w) @ new"
    "new = [] \<or> (\<exists>now m p d. new = [now] \<and> check_limits settings (database w) now m p d = Allowed)"
    using exec_step_submission_times by blast
  show ?thesis
  proof (cases "new = [] \<or> max_daily_adjustments settings \<le> 0")
    case True
    then show ?thesis using assms n(1) by (auto simp: within_daily_cap_def submission_rows_def)
  next
    case False
    then obtain now m p d where a: "new = [now]" "check_limits settings (database w) now m p d = Allowed"
      using n(2) by blast
    have rows: "submission_rows (database ?w') = submission_rows (database w) @ [(now, 1)]"
      using n(1) a(1) by (simp add: submission_rows_def)
    have "used_since (day_start now) (submission_rows (database w)) + 1 \<le> nat (max_daily_adjustments settings)"
      using a(2) False by (auto simp: check_limits_Allowed)
    with assms False show ?thesis
      unfolding within_daily_cap_def rows by (auto intro!: day.admit_keeps_cap [rule_format])
  qed
qed

lemma check_limits_spacing:
  "check_limits settings d now m p du = Allowed \<Longrightarrow> t \<in> set (submission_times d) \<Longrightarrow>
     t + seconds (order_rate_limit_seconds settings) \<le> now"
  by (force simp: check_limits_Allowed)

lemma spaced_out_step:
  assumes "spaced_out settings w"
  shows "spaced_out settings (exec_step sha settings sc ap op w)"
proof -
  obtain new where n: "submission_times (database (exec_step sha settings sc ap op w)) = submission_times (database w) @ new"
    "new = [] \<or> (\<exists>now m p d. new = [now] \<and> check_limits settings (database w) now m p d = Allowed)"
    using exec_step_submission_times by blast
  then show ?thesis
    using assms by (auto simp: spaced_out_def sorted_wrt_snoc dest: check_limits_spacing)
qed

interpretation capped: machine "exec_step sha settings sc ap" "\<lambda>_ _. True" "within_daily_cap settings"
  by unfold_locales (rule within_daily_cap_step)

interpretation spaced: machine "exec_step sha settings sc ap" "\<lambda>_ _. True" "spaced_out settings"
  by unfold_locales (rule spaced_out_step)

lemma always_admissible [simp]: "admissible (\<lambda>_ _. True) step ops s"
  by (induction ops arbitrary: s) auto

lemma same_day_window:
  "filter (\<lambda>t. same_day t u) ts = filter (\<lambda>t. day_start v \<le> t \<and> t \<le> v) ts"
  if "v = day_start u + us_per_day - 1"
proof -
  have "same_day t u \<longleftrightarrow> day_start v \<le> t \<and> t \<le> v" for t
  proof -
    have d: "day_start x = us_per_day * (x div us_per_day)" for x
      by (simp add: day_start_def minus_mod_eq_mult_div)
    have "v div us_per_day = u div us_per_day"
      using that by (simp add: d us_per_day_def)
    then show ?thesis
      using that by (auto simp: d same_day_def us_per_day_def)
  qed
  then show ?thesis by simp
qed

lemma used_between_ones:
  "used_between s u (map (\<lambda>t. (t, 1)) ts) = List.length (filter (\<lambda>t. s \<le> t \<and> t \<le> u) ts)"
  by (induction ts) (auto simp: used_between_def)

text \<open>C6. The daily cap holds over every history: starting from a database without submissions, after any
  sequence of executions and armings, at whatever times and in whatever order, no UTC day has
  more submissions than \<open>max_daily_adjustments\<close> (when that limit is enabled).\<close>

theorem daily_cap_over_histories:
  assumes "submission_times (database w) = []" "0 < max_daily_adjustments settings"
  shows "int (List.length (filter (\<lambda>t. same_day t u)
      (submission_times (database (run (exec_step sha settings sc ap) ops w))))) \<le> max_daily_adjustments settings"
proof -
  let ?w' = "run (exec_step sha settings sc ap) ops w"
  have "within_daily_cap settings w" by (simp add: within_daily_cap_def submission_rows_def assms(1) used_between_def)
  then have "within_daily_cap settings ?w'" by (rule capped.run_inv) simp
  with assms(2) have "used_between (day_start v) v (submission_rows (database ?w')) \<le> nat (max_daily_adjustments settings)" for v
    by (simp add: within_daily_cap_def)
  from this [of "day_start u + us_per_day - 1"] show ?thesis
    using assms(2) by (simp only: submission_rows_def used_between_ones same_day_window [OF refl])
qed

text \<open>C10. The rate limit holds over every history: any two submissions, whichever executions made
  them, are at least \<open>order_rate_limit_seconds\<close> apart, across midnight too.\<close>

theorem rate_limit_over_histories:
  assumes "submission_times (database w) = []"
    and "submission_times (database (run (exec_step sha settings sc ap) ops w)) = pre @ s # mid @ t # post"
  shows "s + seconds (order_rate_limit_seconds settings) \<le> t"
proof -
  have "spaced_out settings w" by (simp add: spaced_out_def assms(1))
  then have "spaced_out settings (run (exec_step sha settings sc ap) ops w)" by (rule spaced.run_inv) simp
  then show ?thesis unfolding spaced_out_def assms(2) by (simp add: sorted_wrt_append)
qed


section \<open>The kill switch over time\<close>

lemma exec_step_keeps_kill: "kill_file w \<noteq> None \<Longrightarrow> kill_file (exec_step sha settings sc ap op w) \<noteq> None"
proof (cases op)
  case (OpExecute i f now du np)
  moreover have "logs now (idempotency_key sha i now) w (fst (execute_instruction sha settings sc ap i f now du np w))"
    by (rule logs_execute)
  ultimately show "kill_file w \<noteq> None \<Longrightarrow> kill_file (exec_step sha settings sc ap op w) \<noteq> None"
    by (auto simp: exec_step_def logs_def)
qed (simp add: exec_step_def arm_command_effects)

interpretation killed: latch "exec_step sha settings sc ap" "\<lambda>w. kill_file w \<noteq> None"
  by unfold_locales (rule exec_step_keeps_kill)

lemma killed_step_env:
  "kill_file w \<noteq> None \<Longrightarrow> env (exec_step sha settings sc ap op w) = env w
     \<and> submission_times (database (exec_step sha settings sc ap op w)) = submission_times (database w)"
proof (cases op)
  case (OpExecute i f now du np)
  assume k: "kill_file w \<noteq> None"
  show ?thesis
    by (rule execute_cases [of w sha i now settings sc ap f du np])
      (use k OpExecute in \<open>auto simp: exec_step_def audit_def blocked_def store_simps\<close>)
next
  case (OpArm ttl now)
  assume "kill_file w \<noteq> None"
  with OpArm show ?thesis by (simp add: exec_step_def arm_command_def arm_def check_kill_switch_def)
qed

text \<open>C11. The kill switch is a latch no operation of the program opens: from the moment the file exists it
  exists after every sequence of executions and armings, and none of them calls the outside or
  records a submission; arming is refused.\<close>

theorem kill_switch_latched:
  assumes "kill_file w \<noteq> None"
  shows "kill_file (run (exec_step sha settings sc ap) ops w) \<noteq> None
    \<and> env (run (exec_step sha settings sc ap) ops w) = env w
    \<and> submission_times (database (run (exec_step sha settings sc ap) ops w)) = submission_times (database w)
    \<and> armed_file (run (exec_step sha settings sc ap) (ops @ [OpArm ttl now]) w)
        = armed_file (run (exec_step sha settings sc ap) ops w)"
proof -
  have k: "kill_file (run (exec_step sha settings sc ap) ops w) \<noteq> None" for ops
    by (rule killed.run_stuck [OF assms])
  have "env (run (exec_step sha settings sc ap) ops w) = env w
    \<and> submission_times (database (run (exec_step sha settings sc ap) ops w)) = submission_times (database w)"
    using assms
  proof (induction ops arbitrary: w)
    case (Cons op ops)
    then show ?case using exec_step_keeps_kill [OF Cons.prems] killed_step_env [OF Cons.prems] by auto
  qed simp
  moreover have "armed_file (run (exec_step sha settings sc ap) (ops @ [OpArm ttl now]) w)
        = armed_file (run (exec_step sha settings sc ap) ops w)"
    using k [of ops] by (simp add: run_append exec_step_def arm_command_def arm_def check_kill_switch_def)
  ultimately show ?thesis using k by blast
qed

text \<open>What trips it: stage by stage.\<close>

lemma audit_kill [simp]: "kill_file (audit now a p k pl w) = kill_file w"
  by (simp add: audit_def)

lemma trip_kill [simp]: "kill_file (trip_kill_switch rsn now w)
    = Some ((case kill_file w of None \<Rightarrow> [] | Some ls \<Rightarrow> ls) @ [(now, rsn)])"
  by (simp add: trip_kill_switch_def)

lemma sidecar_kill: "call_sidecar sc req w = (r, w') \<Longrightarrow> kill_file w' = kill_file w"
  by (auto simp: call_sidecar_def split: prod.splits)

lemma approval_kill: "call_approval ap k m w = (r, w') \<Longrightarrow> kill_file w' = kill_file w"
  by (auto simp: call_approval_def split: prod.splits)

lemma trip_failures [simp]:
  "consecutive_submit_failures (database (trip_kill_switch rsn now w)) = consecutive_submit_failures (database w)"
  by (simp add: trip_kill_switch_def insert_audit_def consecutive_submit_failures_def)

definition trips :: "'e world \<Rightarrow> execution_result \<Rightarrow> bool" where
  "trips w' r = (x_status r = SFailed \<and>
     (x_detail r = DPostcondition
      \<or> (\<exists>e. x_detail r = DSubmissionFailed e) \<and> failures_to_trip \<le> consecutive_submit_failures (database w')))"

lemma verify_trips:
  "verify_stage sc i now key resp w = (w', Some r) \<Longrightarrow> kill_file w = None \<Longrightarrow> kill_file w' \<noteq> None \<longleftrightarrow> trips w' r"
  by (auto simp: verify_stage_def trips_def result_def sidecar_kill split: prod.splits option.splits bool.splits)

lemma submit_trips:
  "submit_stage sc i now key plan d w = (w', Some r) \<Longrightarrow> kill_file w = None \<Longrightarrow> kill_file w' \<noteq> None \<longleftrightarrow> trips w' r"
  by (auto simp: submit_stage_def Let_def trips_def result_def sidecar_kill
      split: prod.splits option.splits if_splits dest!: verify_trips)

lemma approval_trips:
  "approval_stage sc ap i now du np key plan w = (w', Some r) \<Longrightarrow> kill_file w = None \<Longrightarrow> kill_file w' \<noteq> None \<longleftrightarrow> trips w' r"
  by (auto simp: approval_stage_def trips_def result_def approval_kill
      split: prod.splits option.splits if_splits dest!: submit_trips)

lemma prepare_trips:
  "prepare_stage sc ap i live now du np key w = (w', Some r) \<Longrightarrow> kill_file w = None \<Longrightarrow> kill_file w' \<noteq> None \<longleftrightarrow> trips w' r"
  by (auto simp: prepare_stage_def Let_def blocked_def trips_def result_def sidecar_kill
      split: prod.splits option.splits if_splits dest!: approval_trips)

text \<open>The executor trips its own kill switch exactly when it must: a call that starts without the
  file and returns leaves one behind if and only if the submitted order failed its
  post-conditions, or its submission failed and is at least the third failure counted.\<close>

theorem kill_switch_tripped_iff:
  assumes "execute_instruction sha settings sc ap i arm_flag now du np w = (w', Some r)" "kill_file w = None"
  shows "kill_file w' \<noteq> None \<longleftrightarrow> x_status r = SFailed \<and>
     (x_detail r = DPostcondition
      \<or> (\<exists>e. x_detail r = DSubmissionFailed e) \<and> 3 \<le> consecutive_submit_failures (database w'))"
proof -
  have "kill_file w' \<noteq> None \<longleftrightarrow> trips w' r"
  proof (rule execute_cases [of w sha i now settings sc ap arm_flag du np])
    fix live
    assume "execute_instruction sha settings sc ap i arm_flag now du np w
      = prepare_stage sc ap i live now du np (idempotency_key sha i now) (intent_world sha i arm_flag now w)"
    with assms show ?thesis by (intro prepare_trips [where w = "intent_world sha i arm_flag now w"]) auto
  qed (use assms in \<open>auto simp: blocked_def trips_def result_def\<close>)
  then show ?thesis by (simp add: trips_def failures_to_trip_def)
qed


section \<open>Confirmed decisions over time\<close>

lemma stored_confirmation_append:
  assumes "audit_log d' = audit_log d @ rows" "list_all (\<lambda>r. au_key r \<noteq> Some k) rows"
  shows "stored_confirmation d' k = stored_confirmation d k"
proof -
  have "newest (\<lambda>r. au_phase r = Confirmation \<and> au_key r = Some k) rows = None"
    using assms(2) by (auto simp: newest_None_iff list_all_iff)
  then show ?thesis by (simp add: stored_confirmation_def assms(1) newest_append)
qed

lemma exec_step_keeps_confirmation:
  assumes "stored_confirmation (database w) k = Some resp"
  shows "stored_confirmation (database (exec_step sha settings sc ap op w)) k = Some resp"
proof (cases op)
  case (OpExecute i f now du np)
  let ?x = "execute_instruction sha settings sc ap i f now du np w"
  show ?thesis
  proof (cases "idempotency_key sha i now = k")
    case True
    have "fst ?x = intent_world sha i f now w"
      by (rule execute_cases [of w sha i now settings sc ap f du np]) (use assms True in auto)
    then show ?thesis using OpExecute assms by (simp add: exec_step_def gate_simps)
  next
    case False
    have "logs now (idempotency_key sha i now) w (fst ?x)" by (rule logs_execute)
    then obtain rows where "audit_log (database (fst ?x)) = audit_log (database w) @ rows"
      "list_all (\<lambda>r. au_key r = Some (idempotency_key sha i now) \<or> au_key r = None) rows"
      unfolding logs_def by blast
    with False have "stored_confirmation (database (fst ?x)) k = stored_confirmation (database w) k"
      by (intro stored_confirmation_append) (auto simp: list_all_iff)
    with OpExecute assms show ?thesis by (simp add: exec_step_def)
  qed
qed (simp add: exec_step_def arm_command_effects assms)

interpretation confirmed: latch "exec_step sha settings sc ap" "\<lambda>w. stored_confirmation (database w) k = Some resp"
  by unfold_locales (rule exec_step_keeps_confirmation)

lemma exec_step_appends:
  "\<exists>new. audit_log (database (exec_step sha settings sc ap op w)) = audit_log (database w) @ new"
proof (cases op)
  case (OpExecute i f now du np)
  moreover have "logs now (idempotency_key sha i now) w (fst (execute_instruction sha settings sc ap i f now du np w))"
    by (rule logs_execute)
  ultimately show ?thesis by (auto simp: exec_step_def logs_def)
qed (simp add: exec_step_def arm_command_effects)

interpretation audit_trail: append_only "exec_step sha settings sc ap" "\<lambda>w. audit_log (database w)"
  by unfold_locales (rule exec_step_appends)

lemma stored_confirmation_new:
  "stored_confirmation (database (audit now a Confirmation (Some key) (ConfirmedPayload resp) w)) key = Some resp"
  by (simp add: stored_confirmation_def audit_def insert_audit_def)

lemma verify_confirms:
  "verify_stage sc i now key resp w = (w', Some r) \<Longrightarrow> x_status r = SConfirmed \<Longrightarrow>
     x_response r = Some resp \<and> x_key r = key \<and> stored_confirmation (database w') key = Some resp"
  by (auto simp: verify_stage_def result_def stored_confirmation_new split: prod.splits option.splits bool.splits)

lemma prepare_confirms:
  assumes "prepare_stage sc ap i live now du np key w = (w', Some r)" "x_status r = SConfirmed"
  shows "\<exists>resp. x_response r = Some resp \<and> x_key r = key \<and> stored_confirmation (database w') key = Some resp"
  using assms
  by (auto simp: prepare_stage_def approval_stage_def submit_stage_def Let_def blocked_def result_def
      split: prod.splits option.splits if_splits dest: verify_confirms)

text \<open>C4. At most once: when an execution confirms, then after any further history every execution with
  the same key (the same decision in the same UTC hour, whatever its flags and amounts) replays
  that very response and calls nothing.\<close>

theorem confirmed_at_most_once:
  assumes "execute_instruction sha settings sc ap i f now du np w = (w', Some r)" "x_status r = SConfirmed"
    and "idempotency_key sha j t = x_key r"
  shows "\<exists>w'' r'. execute_instruction sha settings sc ap j f' t du' np' (run (exec_step sha settings sc ap) ops w') = (w'', Some r')
     \<and> x_status r' = SReplayed \<and> x_response r' = x_response r
     \<and> env w'' = env (run (exec_step sha settings sc ap) ops w')"
proof -
  have "\<exists>resp. x_response r = Some resp \<and> x_key r = idempotency_key sha i now
      \<and> stored_confirmation (database w') (idempotency_key sha i now) = Some resp"
  proof (rule execute_cases [of w sha i now settings sc ap f du np])
    fix live
    assume "execute_instruction sha settings sc ap i f now du np w
      = prepare_stage sc ap i live now du np (idempotency_key sha i now) (intent_world sha i f now w)"
    with assms(1,2) show ?thesis by (intro prepare_confirms) auto
  qed (use assms(1,2) in \<open>auto simp: blocked_def result_def\<close>)
  then obtain resp where r: "x_response r = Some resp" "x_key r = idempotency_key sha i now"
    "stored_confirmation (database w') (idempotency_key sha i now) = Some resp" by blast
  have s: "stored_confirmation (database (run (exec_step sha settings sc ap) ops w')) (idempotency_key sha j t) = Some resp"
    using confirmed.run_stuck [OF r(3)] assms(3) r(2) by simp
  show ?thesis
    by (rule execute_cases [of "run (exec_step sha settings sc ap) ops w'" sha j t settings sc ap f' du' np'])
      (use s r(1) in \<open>auto simp: audit_def result_def\<close>)
qed

text \<open>The audit trail is append-only: no history of the executor changes or removes a row.\<close>

theorem audit_trail_append_only:
  "\<exists>new. audit_log (database (run (exec_step sha settings sc ap) ops w)) = audit_log (database w) @ new"
  by (rule audit_trail.run_appends)

section \<open>An order that passes goes through\<close>

lemma execution_goes_through:
  assumes "stored_confirmation (database w) (idempotency_key sha i now) = None" "kill_file w = None"
    and "armed_until now w" "check_limits settings (database w) now (i_market i) np du = Allowed"
    and "sc (PrepareReq i) (env w) = (Some prepared, e1)" "truthy (get_default prepared ''ok'' JNull)"
    and "ap (take 16 (idempotency_key sha i now))
      \<lparr>m_instruction = i, m_plan = get_default prepared ''plan'' (JObj []), m_delta_usd = du, m_new_position_usd = np,
       m_id = take 16 (idempotency_key sha i now)\<rparr> e1 = (Some d, e2)" "approved d"
    and "sc (SubmitReq i (idempotency_key sha i now)) e2 = (Some response, e3)" "truthy (get_default response ''ok'' JNull)"
    and "sc ReadOrdersReq e3 = (Some orders, e4)" "postconditions_hold i orders = Some True"
  shows "\<exists>w'. execute_instruction sha settings sc ap i True now du np w
       = (w', Some ((result SConfirmed DConfirmed (idempotency_key sha i now))\<lparr>x_response := Some response\<rparr>))
     \<and> stored_confirmation (database w') (idempotency_key sha i now) = Some response
     \<and> env w' = e4 \<and> kill_file w' = None
     \<and> submission_times (database w') = submission_times (database w) @ [now]"
proof (rule execute_cases [of w sha i now settings sc ap True du np])
  fix live
  assume go: "live \<longleftrightarrow> True \<and> armed_until now w"
    "execute_instruction sha settings sc ap i True now du np w
      = prepare_stage sc ap i live now du np (idempotency_key sha i now) (intent_world sha i True now w)"
  have [simp]: "env (audit t a p k pl v) = env v" for t a p k pl and v :: "'a world" by (simp add: audit_def)
  show ?thesis
    using go assms
    by (simp add: prepare_stage_def approval_stage_def submit_stage_def verify_stage_def call_sidecar_def
        call_approval_def Let_def stored_confirmation_new) (simp add: audit_def store_simps)
qed (use assms(1-4) check_armed_cases [of True now w] in
    \<open>auto simp: check_kill_switch_def armed_until_def split: option.splits\<close>)

text \<open>C29. Completeness: with every gate open, a prepared plan, a granted approval, an accepted submission
  and holding post-conditions, the order is submitted once and confirmed, with the venue's
  response stored for replay.\<close>

theorem executes_when_allowed:
  assumes "stored_confirmation (database w) (idempotency_key sha i now) = None" "kill_file w = None"
    and "armed_until now w" "check_limits settings (database w) now (i_market i) np du = Allowed"
    and "sc (PrepareReq i) (env w) = (Some prepared, e1)" "truthy (get_default prepared ''ok'' JNull)"
    and "ap (take 16 (idempotency_key sha i now))
      \<lparr>m_instruction = i, m_plan = get_default prepared ''plan'' (JObj []), m_delta_usd = du, m_new_position_usd = np,
       m_id = take 16 (idempotency_key sha i now)\<rparr> e1 = (Some d, e2)" "approved d"
    and "sc (SubmitReq i (idempotency_key sha i now)) e2 = (Some response, e3)" "truthy (get_default response ''ok'' JNull)"
    and "sc ReadOrdersReq e3 = (Some orders, e4)" "postconditions_hold i orders = Some True"
  shows "\<exists>w'. execute_instruction sha settings sc ap i True now du np w
       = (w', Some ((result SConfirmed DConfirmed (idempotency_key sha i now))\<lparr>x_response := Some response\<rparr>))
     \<and> stored_confirmation (database w') (idempotency_key sha i now) = Some response
     \<and> env w' = e4 \<and> kill_file w' = None
     \<and> submission_times (database w') = submission_times (database w) @ [now]"
  using assms by (rule execution_goes_through)

end
