(* ===== verification/Postconditions.thy ===== *)
theory Postconditions
  imports Execution
begin

text \<open>
  What the post-condition check of the executor accepts, and concrete runs of the
  executor that show the hypotheses of its properties can hold.
\<close>

section \<open>Reading the post-conditions\<close>

lemma trigger_scale_val: "dval trigger_scale = 10 ^ 12"
  using rnd_exact [of "10 ^ 12" 28 0] by (simp add: trigger_scale_def dval_dfix dval_Dec)

text \<open>A cancellation is confirmed even when the orders could not be read back: with a read response
  that has no \<open>orders\<close> (what the sidecar wrapper returns for every failure, \<open>ok: false\<close> with an
  error) the check finds the cancelled order absent, and the order is audited as confirmed and
  verified.\<close>

theorem cancel_confirmed_on_failed_read:
  assumes "i_action i = CancelOrder"
    and "sc ReadOrdersReq (env w) = (Some [(''ok'', JBool False), (''error'', message)], e)"
  shows "\<exists>w' r. verify_stage sc i now key response w = (w', Some r) \<and> x_status r = SConfirmed
    \<and> stored_confirmation (database w') key = Some response \<and> kill_file w' = kill_file w"
  using assms
  by (simp add: verify_stage_def call_sidecar_def postconditions_hold_def json_items_def get_default_def get_def
      order_lookup_def result_def stored_confirmation_new)

text \<open>A retargeted stop-loss is never confirmed from orders that do not carry \<open>triggerPrice\<close>: for a
  valid instruction the check then finds a mismatch, whatever trigger the venue shows under another
  name, and the kill switch is tripped.\<close>

theorem set_sl_needs_trigger_price:
  assumes "i_action i = SetSlTrigger" "required_params i = Inr i"
    and "sc ReadOrdersReq (env w) = (Some rd, e)"
    and "json_items (get_default rd ''orders'' (JArr [])) = Some items" "orders_by_key items = Some tab"
    and "list_all (\<lambda>(k, d). get d ''triggerPrice'' = None) tab"
  shows "\<exists>w' r. verify_stage sc i now key response w = (w', Some r) \<and> x_status r = SFailed
    \<and> x_detail r = DPostcondition \<and> kill_file w' \<noteq> None"
proof -
  obtain p where p: "i_trigger_price i = Some p" "0 < dval p"
    using assms(1,2) required_params_iff [of i i] by (auto split: option.splits)
  have nz: "dcoef p \<noteq> 0"
  proof
    assume "dcoef p = 0"
    then have "dval p = 0" by (simp add: dval_def)
    with p(2) show False by simp
  qed
  have pos: "0 < dval (dmul 28 p trigger_scale)"
    using p(2) by (simp add: dval_simps trigger_scale_val) (simp add: rnd_pos_iff)
  have z: "text_to_decimal ''0'' = Some (Dec False 0 0)" by code_simp
  have sp: "unequal_special ''0'' = False" by code_simp
  have "\<not> deq (Dec False 0 0) (dmul 28 p trigger_scale)"
    using pos by (simp add: deq_iff dval_Dec)
  then have ne: "decimal_equals (JStr ''0'') (dmul 28 p trigger_scale) = Some False"
    by (simp add: decimal_equals_def str_of_def z sp)
  have "get d ''triggerPrice'' = None" if "order_lookup tab k = Some d" for k d
    using that assms(6) by (auto simp: order_lookup_def list_all_iff dest!: map_of_SomeD)
  then have "postconditions_hold i rd = Some False"
    using assms(1,4,5) p(1) nz ne
    by (auto simp: postconditions_hold_def Let_def get_default_def split: option.split)
  then show ?thesis
    using assms(3) by (simp add: verify_stage_def call_sidecar_def result_def)
qed

section \<open>A concrete executor\<close>

definition test_sidecar :: "unit sidecar" where
  "test_sidecar req e =
     (case req of
        PrepareReq _ \<Rightarrow> (Some [(''ok'', JBool True), (''plan'', JObj [])], ())
      | SubmitReq _ _ \<Rightarrow> (Some [(''ok'', JBool True), (''tx'', JStr ''0xabc'')], ())
      | ReadOrdersReq \<Rightarrow> (Some [(''ok'', JBool True), (''orders'', JArr [])], ()))"

definition failing_sidecar :: "unit sidecar" where
  "failing_sidecar req e =
     (case req of
        PrepareReq _ \<Rightarrow> (Some [(''ok'', JBool True), (''plan'', JObj [])], ())
      | _ \<Rightarrow> (Some [(''ok'', JBool False), (''error'', JStr ''sidecar exit 1'')], ()))"

definition yes_approver :: "unit approver" where
  "yes_approver key m e = (Some \<lparr>approved = True, why = ApprovedVia ''approve''\<rparr>, ())"

definition test_key :: string where
  "test_key = ''0x'' @ replicate 64 CHR ''a''"

definition test_order :: order_instruction where
  "test_order = \<lparr>i_action = CancelOrder, i_market = ''ETH/USD'', i_trigger_price = None,
     i_target_eth = None, i_order_key = Some test_key\<rparr>"

definition test_world :: "unit world" where
  "test_world = \<lparr>database = empty_store, kill_file = None, armed_file = Some (ArmedState 0 9000000000),
     env = (), trace = []\<rparr>"

definition test_now :: instant where
  "test_now = 5000000"

lemma test_order_simps [simp]:
  "i_action test_order = CancelOrder" "i_order_key test_order = Some test_key" "action_text CancelOrder = ''cancel-order''"
  by (simp_all add: test_order_def action_text_def)

lemma test_gates:
  "stored_confirmation (database test_world) k = None" "kill_file test_world = None"
  "armed_until test_now test_world" "submission_times (database test_world) = []"
  "check_limits default_settings (database test_world) test_now (i_market test_order) (dint 0) (dint 0) = Allowed"
proof -
  show "submission_times (database test_world) = []"
    by (simp add: test_world_def empty_store_def submission_times_def)
  then show "check_limits default_settings (database test_world) test_now (i_market test_order) (dint 0) (dint 0) = Allowed"
    by (simp add: check_limits_allows_iff default_settings_def test_order_def)
qed (simp_all add: test_world_def empty_store_def stored_confirmation_def armed_until_def test_now_def)

abbreviation test_run :: "unit world \<times> execution_result option" where
  "test_run \<equiv> execute_instruction id default_settings test_sidecar yes_approver test_order True test_now
     (dint 0) (dint 0) test_world"

lemma executes_when_allowed_witness:
  "\<exists>w'. test_run = (w', Some ((result SConfirmed DConfirmed (idempotency_key id test_order test_now))
        \<lparr>x_response := Some [(''ok'', JBool True), (''tx'', JStr ''0xabc'')]\<rparr>))
     \<and> stored_confirmation (database w') (idempotency_key id test_order test_now)
         = Some [(''ok'', JBool True), (''tx'', JStr ''0xabc'')]
     \<and> env w' = () \<and> kill_file w' = None
     \<and> submission_times (database w') = submission_times (database test_world) @ [test_now]"
  by (rule executes_when_allowed [where prepared = "[(''ok'', JBool True), (''plan'', JObj [])]"
        and d = "\<lparr>approved = True, why = ApprovedVia ''approve''\<rparr>"
        and orders = "[(''ok'', JBool True), (''orders'', JArr [])]", OF test_gates(1,2,3,5)])
    (simp_all add: test_sidecar_def yes_approver_def truthy_def get_default_def get_def
      postconditions_hold_def json_items_def order_lookup_def test_order_def)

lemma cancel_confirmed_on_failed_read_witness:
  "\<exists>w' r. verify_stage failing_sidecar test_order test_now ''k'' [] test_world = (w', Some r)
    \<and> x_status r = SConfirmed \<and> stored_confirmation (database w') ''k'' = Some []
    \<and> kill_file w' = kill_file test_world"
  by (rule cancel_confirmed_on_failed_read) (simp_all add: failing_sidecar_def test_order_def)


definition sl_order :: order_instruction where
  "sl_order = \<lparr>i_action = SetSlTrigger, i_market = ''ETH/USD'', i_trigger_price = Some (dint 2500),
     i_target_eth = None, i_order_key = Some test_key\<rparr>"

definition summary_sidecar :: "unit sidecar" where
  "summary_sidecar req e =
     (Some [(''ok'', JBool True), (''orders'', JArr [JObj [(''key'', JStr test_key), (''trigger_usd'', JInt 2500)]])], ())"

lemma set_sl_needs_trigger_price_witness:
  "\<exists>w' r. verify_stage summary_sidecar sl_order test_now ''k'' [] test_world = (w', Some r)
    \<and> x_status r = SFailed \<and> x_detail r = DPostcondition \<and> kill_file w' \<noteq> None"
proof (rule set_sl_needs_trigger_price [where
      items = "[JObj [(''key'', JStr test_key), (''trigger_usd'', JInt 2500)]]"
      and tab = "[(JStr test_key, [(''key'', JStr test_key), (''trigger_usd'', JInt 2500)])]"])
  show "required_params sl_order = Inr sl_order"
    by (simp add: required_params_iff sl_order_def test_key_def)
  have "get_default [(''ok'', JBool True), (''orders'', JArr [JObj [(''key'', JStr test_key), (''trigger_usd'', JInt 2500)]])]
      ''orders'' (JArr []) = JArr [JObj [(''key'', JStr test_key), (''trigger_usd'', JInt 2500)]]"
    by (simp add: get_default_def get_def)
  then show "json_items (get_default [(''ok'', JBool True), (''orders'', JArr [JObj [(''key'', JStr test_key), (''trigger_usd'', JInt 2500)]])]
      ''orders'' (JArr [])) = Some [JObj [(''key'', JStr test_key), (''trigger_usd'', JInt 2500)]]"
    by (simp add: json_items_def)
qed (simp_all add: sl_order_def summary_sidecar_def get_default_def get_def hashable_def Let_def)

abbreviation test_exec :: exec_op where
  "test_exec \<equiv> OpExecute test_order True test_now (dint 0) (dint 0)"

lemma daily_cap_over_histories_witness:
  "int (List.length (filter (\<lambda>t. same_day t 7) (submission_times (database
     (run (exec_step id default_settings test_sidecar yes_approver) [test_exec, test_exec] test_world))))) \<le> 4"
  using daily_cap_over_histories [OF test_gates(4), of default_settings 7 id test_sidecar yes_approver "[test_exec, test_exec]"]
  by (simp add: default_settings_def)

definition late_order :: order_instruction where
  "late_order = test_order\<lparr>i_order_key := Some (''0x'' @ replicate 64 CHR ''b'')\<rparr>"

lemma test_run_result:
  obtains w' where "test_run = (w', Some ((result SConfirmed DConfirmed (idempotency_key id test_order test_now))
        \<lparr>x_response := Some [(''ok'', JBool True), (''tx'', JStr ''0xabc'')]\<rparr>))"
    "submission_times (database w') = [test_now]" "kill_file w' = None"
    "trace w' = trace test_world @ [AuditEff Intent ''cancel-order'', SidecarEff (PrepareReq test_order),
       AuditEff Simulation ''cancel-order'', ApprovalEff (take 16 (idempotency_key id test_order test_now)),
       AuditEff Submission ''cancel-order'',
       SidecarEff (SubmitReq test_order (idempotency_key id test_order test_now)), SidecarEff ReadOrdersReq,
       AuditEff Confirmation ''cancel-order'']"
    "armed_file w' = armed_file test_world"
proof (rule execute_cases [of test_world id test_order test_now default_settings test_sidecar yes_approver True "dint 0" "dint 0"])
  fix live
  assume go: "live \<longleftrightarrow> True \<and> armed_until test_now test_world"
    "test_run = prepare_stage test_sidecar yes_approver test_order live test_now (dint 0) (dint 0)
      (idempotency_key id test_order test_now) (intent_world id test_order True test_now test_world)"
  have [simp]: "armed_file (audit t a p k pl v) = armed_file v" "env (audit t a p k pl v) = env v"
    "trace (audit t a p k pl v) = trace v @ [AuditEff p a]"
    "database (audit t a p k pl v) = insert_audit t ''executor'' a p k pl (database v)"
    for t a p k pl and v :: "unit world" by (simp_all add: audit_def)
  show thesis
    by (rule that [of "fst test_run"], insert go test_gates(2,3,4))
      (simp_all add: prepare_stage_def approval_stage_def submit_stage_def verify_stage_def call_sidecar_def
        call_approval_def Let_def test_sidecar_def yes_approver_def truthy_def get_default_def get_def
        postconditions_hold_def json_items_def order_lookup_def store_simps)
qed (use test_gates check_armed_cases [of True test_now test_world] in
    \<open>auto simp: check_kill_switch_def armed_until_def split: option.splits\<close>)

lemma submit_only_through_gates_witness:
  "\<exists>w' r tr. test_run = (w', r) \<and> trace w' = trace test_world @ tr \<and> list_ex submit_effect tr
     \<and> kill_file test_world = None \<and> armed_until test_now test_world
     \<and> approval_granted yes_approver test_order (dint 0) (dint 0) (idempotency_key id test_order test_now)"
proof -
  obtain w' where w: "test_run = (w', Some ((result SConfirmed DConfirmed (idempotency_key id test_order test_now))
        \<lparr>x_response := Some [(''ok'', JBool True), (''tx'', JStr ''0xabc'')]\<rparr>))"
    "trace w' = trace test_world @ [AuditEff Intent ''cancel-order'', SidecarEff (PrepareReq test_order),
       AuditEff Simulation ''cancel-order'', ApprovalEff (take 16 (idempotency_key id test_order test_now)),
       AuditEff Submission ''cancel-order'',
       SidecarEff (SubmitReq test_order (idempotency_key id test_order test_now)), SidecarEff ReadOrdersReq,
       AuditEff Confirmation ''cancel-order'']"
    by (rule test_run_result)
  then have t: "trace (fst test_run) = trace test_world @ drop (List.length (trace test_world)) (trace w')" by simp
  show ?thesis using submit_only_through_gates [OF t] w by (auto simp: submit_effect_def)
qed

lemma submission_audited_before_submit_witness:
  "\<exists>w' r pre post. test_run = (w', r) \<and> trace w' = trace test_world @ pre
     @ [ApprovalEff (take 16 (idempotency_key id test_order test_now)), AuditEff Submission ''cancel-order'',
        SidecarEff (SubmitReq test_order (idempotency_key id test_order test_now))] @ post"
proof -
  obtain w' where w: "test_run = (w', Some ((result SConfirmed DConfirmed (idempotency_key id test_order test_now))
        \<lparr>x_response := Some [(''ok'', JBool True), (''tx'', JStr ''0xabc'')]\<rparr>))"
    "trace w' = trace test_world @ [AuditEff Intent ''cancel-order'', SidecarEff (PrepareReq test_order),
       AuditEff Simulation ''cancel-order'', ApprovalEff (take 16 (idempotency_key id test_order test_now)),
       AuditEff Submission ''cancel-order'',
       SidecarEff (SubmitReq test_order (idempotency_key id test_order test_now)), SidecarEff ReadOrdersReq,
       AuditEff Confirmation ''cancel-order'']"
    by (rule test_run_result)
  then have t: "trace (fst test_run) = trace test_world @ drop (List.length (trace test_world)) (trace w')" by simp
  have "action_text (i_action test_order) = ''cancel-order''" by (simp add: test_order_def action_text_def)
  then show ?thesis
    using submission_audited_before_submit [OF t, of test_order "idempotency_key id test_order test_now"] w by fastforce
qed

lemma confirmed_at_most_once_witness:
  "\<exists>w' r w'' r'. test_run = (w', Some r) \<and> x_status r = SConfirmed
     \<and> execute_instruction id default_settings test_sidecar yes_approver test_order False (test_now + 1) (dint 9) (dint 9)
         (run (exec_step id default_settings test_sidecar yes_approver) [test_exec] w') = (w'', Some r')
     \<and> x_status r' = SReplayed \<and> x_response r' = x_response r"
proof -
  obtain w' where w: "test_run = (w', Some ((result SConfirmed DConfirmed (idempotency_key id test_order test_now))
        \<lparr>x_response := Some [(''ok'', JBool True), (''tx'', JStr ''0xabc'')]\<rparr>))"
    by (rule test_run_result)
  have "idempotency_key id test_order (test_now + 1) = idempotency_key id test_order test_now"
    by (rule idempotency_key_same_hour) (simp add: hour_bucket_def test_now_def)
  with confirmed_at_most_once [OF w, of test_order "test_now + 1" False "dint 9" "dint 9" "[test_exec]"] w
  show ?thesis by (fastforce simp: result_def)
qed


definition killed_world :: "unit world" where
  "killed_world = test_world\<lparr>kill_file := Some []\<rparr>"

lemma kill_switch_halts_witness:
  "\<exists>w' r. execute_instruction id default_settings test_sidecar yes_approver test_order True test_now (dint 0) (dint 0)
       killed_world = (w', Some r) \<and> env w' = env killed_world \<and> x_status r \<in> {SBlocked, SReplayed}"
  using kill_switch_halts [of killed_world id default_settings test_sidecar yes_approver test_order True test_now "dint 0" "dint 0"]
  by (auto simp: killed_world_def)

lemma kill_switch_latched_witness:
  "kill_file (run (exec_step id default_settings test_sidecar yes_approver) [test_exec, OpArm None 0] killed_world) \<noteq> None"
  using kill_switch_latched [of killed_world id default_settings test_sidecar yes_approver "[test_exec, OpArm None 0]"]
  by (simp add: killed_world_def)

definition confirmed_world :: "unit world" where
  "confirmed_world = audit test_now ''cancel-order'' Confirmation (Some (idempotency_key id test_order test_now))
     (ConfirmedPayload [(''ok'', JBool True)]) test_world"

lemma replay_verbatim_witness:
  "\<exists>w' r. execute_instruction id default_settings test_sidecar yes_approver test_order True test_now (dint 0) (dint 0)
       confirmed_world = (w', Some r) \<and> x_status r = SReplayed \<and> x_response r = Some [(''ok'', JBool True)]"
  using replay_verbatim [of confirmed_world id test_order test_now "[(''ok'', JBool True)]"
      default_settings test_sidecar yes_approver True "dint 0" "dint 0"]
  by (auto simp: confirmed_world_def stored_confirmation_new)

lemma kill_switch_tripped_iff_witness:
  "\<exists>w' r. test_run = (w', Some r) \<and> x_status r = SConfirmed \<and> kill_file w' = None"
proof -
  obtain w' where w: "test_run = (w', Some ((result SConfirmed DConfirmed (idempotency_key id test_order test_now))
        \<lparr>x_response := Some [(''ok'', JBool True), (''tx'', JStr ''0xabc'')]\<rparr>))"
    by (rule test_run_result)
  show ?thesis using kill_switch_tripped_iff [OF w test_gates(2)] w by (auto simp: result_def)
qed

definition late_now :: instant where
  "late_now = 105000000"

lemma late_key: "idempotency_key id late_order late_now \<noteq> idempotency_key id test_order test_now"
  by (subst idempotency_key_identifies)
    (simp_all add: hour_bucket_def late_now_def test_now_def late_order_def test_order_def key_text_def test_key_def
      lower_def to_lower_def is_upper_az_def)

lemma two_submissions:
  "submission_times (database (run (exec_step id default_settings test_sidecar yes_approver)
     [test_exec, OpExecute late_order True late_now (dint 0) (dint 0)] test_world)) = [test_now, late_now]"
proof -
  obtain w' where w: "test_run = (w', Some ((result SConfirmed DConfirmed (idempotency_key id test_order test_now))
        \<lparr>x_response := Some [(''ok'', JBool True), (''tx'', JStr ''0xabc'')]\<rparr>))"
    "submission_times (database w') = [test_now]" "kill_file w' = None" "armed_file w' = armed_file test_world"
    by (rule test_run_result)
  have "logs test_now (idempotency_key id test_order test_now) test_world (fst test_run)" by (rule logs_execute)
  then obtain rows where rows: "audit_log (database w') = audit_log (database test_world) @ rows"
    "list_all (\<lambda>r. au_key r = Some (idempotency_key id test_order test_now) \<or> au_key r = None) rows"
    unfolding logs_def using w(1) by auto
  have "stored_confirmation (database w') (idempotency_key id late_order late_now)
      = stored_confirmation (database test_world) (idempotency_key id late_order late_now)"
    using rows late_key by (intro stored_confirmation_append [OF rows(1)]) (auto simp: list_all_iff)
  then have st: "stored_confirmation (database w') (idempotency_key id late_order late_now) = None"
    by (simp add: test_gates)
  have arm: "armed_until late_now w'" by (simp add: armed_until_def w(4) test_world_def late_now_def)
  have lim: "check_limits default_settings (database w') late_now (i_market late_order) (dint 0) (dint 0) = Allowed"
    by (simp add: check_limits_allows_iff w(2) default_settings_def late_order_def test_order_def late_now_def test_now_def
        seconds_def day_start_def us_per_day_def)
  have "\<exists>w''. execute_instruction id default_settings test_sidecar yes_approver late_order True late_now (dint 0) (dint 0) w'
       = (w'', Some ((result SConfirmed DConfirmed (idempotency_key id late_order late_now))
           \<lparr>x_response := Some [(''ok'', JBool True), (''tx'', JStr ''0xabc'')]\<rparr>))
     \<and> stored_confirmation (database w'') (idempotency_key id late_order late_now) = Some [(''ok'', JBool True), (''tx'', JStr ''0xabc'')]
     \<and> env w'' = () \<and> kill_file w'' = None
     \<and> submission_times (database w'') = submission_times (database w') @ [late_now]"
    by (rule execution_goes_through [where prepared = "[(''ok'', JBool True), (''plan'', JObj [])]"
        and d = "\<lparr>approved = True, why = ApprovedVia ''approve''\<rparr>"
        and orders = "[(''ok'', JBool True), (''orders'', JArr [])]", OF st w(3) arm lim])
      (simp_all add: test_sidecar_def yes_approver_def truthy_def get_default_def get_def
        postconditions_hold_def json_items_def order_lookup_def late_order_def test_order_def)
  then show ?thesis using w(1,2) by (auto simp: exec_step_def)
qed

lemma rate_limit_over_histories_witness: "test_now + seconds (order_rate_limit_seconds default_settings) \<le> late_now"
proof -
  have "submission_times (database (run (exec_step id default_settings test_sidecar yes_approver)
     [test_exec, OpExecute late_order True late_now (dint 0) (dint 0)] test_world)) = [] @ test_now # [] @ late_now # []"
    by (simp only: two_submissions append_Nil)
  then show ?thesis by (rule rate_limit_over_histories [OF test_gates(4)])
qed

text \<open>Three failed submissions followed by ten rejected approvals: the counter reads zero.\<close>

definition sample_row :: "string \<Rightarrow> audit_row" where
  "sample_row act = \<lparr>au_id = 1, au_ts = 0, au_actor = ''executor'', au_action = act, au_phase = Rejected,
     au_key = None, au_payload = FailedPayload []\<rparr>"

lemma consecutive_failures_bounded_window_witness:
  "consecutive_submit_failures (empty_store\<lparr>audit_log := replicate 3 (sample_row ''submit-failed'') @
     replicate 10 (sample_row ''resize-short'')\<rparr>) = 0"
proof -
  have "consecutive_submit_failures (empty_store\<lparr>audit_log := replicate 3 (sample_row ''submit-failed'') @
      replicate 10 (sample_row ''resize-short'')\<rparr>)
    = List.length (filter (\<lambda>r. au_action r = ''submit-failed'') (take 10 (rev (replicate 3 (sample_row ''submit-failed'') @
      replicate 10 (sample_row ''resize-short'')))))"
    by (rule consecutive_failures_bounded_window [where old = "[]"]) (auto simp: sample_row_def)
  then show ?thesis by (simp add: sample_row_def)
qed

end
