(* ===== verification/Strategy.thy ===== *)
theory Strategy
  imports Postconditions Recorders Health
begin

text \<open>
  \<open>strategy/rebalance.py\<close>: the delta-band rebalance. \<open>evaluate\<close> reads the newest hedge state and
  decides; \<open>run_strategy\<close> (\<open>run\<close>) journals every decision and, only when armed and enabled,
  executes it through the pipeline of the executor with an automatic approval. Arithmetic is at
  the default precision 28; \<open>None\<close> is an exception.
\<close>

section \<open>Decisions\<close>

datatype choice = ChHold | ChExecute | ChBlocked

definition choice_text :: "choice \<Rightarrow> string" where
  "choice_text c = (case c of ChHold \<Rightarrow> ''hold'' | ChExecute \<Rightarrow> ''execute'' | ChBlocked \<Rightarrow> ''blocked'')"

record gate_states =
  gs_band_breached :: bool
  gs_fresh :: bool
  gs_interval_ok :: bool
  gs_cost_ok :: bool
  gs_daily_ok :: bool
  gs_within_max_position :: bool
  gs_auto_enabled :: bool

datatype rebalance_reason =
    RNoState | RBadPrice
  | RHold decimal decimal
  | RWarranted decimal decimal decimal decimal bool
  | RBlockedBy "string list"

record rebalance_decision =
  rd_decision :: choice
  rd_current_eth :: "decimal option"
  rd_target_eth :: "decimal option"
  rd_deviation :: "decimal option"
  rd_band :: decimal
  rd_price_usd :: "decimal option"
  rd_est_move_usd :: "decimal option"
  rd_reason :: rebalance_reason
  rd_blocked_by :: "string list"
  rd_gates :: gate_states
  rd_thesis :: thesis

definition today_executed :: "store \<Rightarrow> instant \<Rightarrow> instant list" where
  "today_executed db now = map rb_ts (rev (filter (\<lambda>r. rb_executed r \<and> same_day (rb_ts r) now) (rebalance_log db)))"

definition last_executed_ts :: "store \<Rightarrow> instant option" where
  "last_executed_ts db = map_option rb_ts (newest rb_executed (rebalance_log db))"

definition thesis_of :: "choice \<Rightarrow> decimal option \<Rightarrow> decimal option \<Rightarrow> decimal option \<Rightarrow> decimal \<Rightarrow> thesis" where
  "thesis_of d current target deviation band =
     (if d = ChHold then ThesisHold deviation band
      else ThesisMove (case (current, target) of (Some c, Some t) \<Rightarrow> Some (c, t) | _ \<Rightarrow> None) deviation band)"

definition no_gates :: "settings \<Rightarrow> gate_states" where
  "no_gates settings = \<lparr>gs_band_breached = False, gs_fresh = False, gs_interval_ok = False, gs_cost_ok = False,
     gs_daily_ok = False, gs_within_max_position = False, gs_auto_enabled = auto_rebalance_enabled settings\<rparr>"

definition blocked_no_state :: "settings \<Rightarrow> rebalance_decision" where
  "blocked_no_state settings =
     \<lparr>rd_decision = ChBlocked, rd_current_eth = None, rd_target_eth = None, rd_deviation = None,
      rd_band = hedge_rebalance_band settings, rd_price_usd = None, rd_est_move_usd = None, rd_reason = RNoState,
      rd_blocked_by = [''no-state''], rd_gates = no_gates settings, rd_thesis = ThesisNoState\<rparr>"

definition blocked_bad_price :: "settings \<Rightarrow> decimal \<Rightarrow> rebalance_decision" where
  "blocked_bad_price settings price =
     (blocked_no_state settings)\<lparr>rd_price_usd := Some price, rd_reason := RBadPrice, rd_blocked_by := [''bad-price''],
        rd_thesis := ThesisBadPrice\<rparr>"

text \<open>The per-run clamp: never resize by more than the cap, less one cent.\<close>

definition cent :: decimal where
  "cent = Dec False 1 (- 2)"

definition clamp_target :: "decimal \<Rightarrow> decimal \<Rightarrow> decimal \<Rightarrow> decimal \<Rightarrow> decimal option" where
  "clamp_target cap_usd price current full_target =
     (if dlt (dint 0) cap_usd \<and> dlt (dint 0) price
      then (case ddiv 28 (dsub 28 cap_usd cent) price of
              None \<Rightarrow> None
            | Some max_step_eth \<Rightarrow>
                (let gap = dsub 28 full_target current
                 in Some (if dlt max_step_eth (dabs 28 gap)
                          then dadd 28 current (if dlt (dint 0) gap then max_step_eth else duminus 28 max_step_eth)
                          else full_target)))
      else Some full_target)"

definition est_move :: "decimal \<Rightarrow> decimal \<Rightarrow> decimal \<Rightarrow> decimal" where
  "est_move target current price = dmul 28 (dabs 28 (dsub 28 target current)) price"

definition deviation_of :: "decimal \<Rightarrow> decimal \<Rightarrow> decimal \<Rightarrow> decimal option" where
  "deviation_of current full_target delta_max =
     (if dlt (dint 0) delta_max then ddiv 28 (dabs 28 (dsub 28 current full_target)) delta_max else Some (dint 0))"

definition interval_passed :: "store \<Rightarrow> settings \<Rightarrow> instant \<Rightarrow> bool" where
  "interval_passed db settings now =
     (case last_executed_ts db of None \<Rightarrow> True
      | Some last_ts \<Rightarrow> minutes (rebalance_min_interval_minutes settings) \<le> now - last_ts)"

definition gates_for :: "store \<Rightarrow> settings \<Rightarrow> instant \<Rightarrow> bool \<Rightarrow> decimal \<Rightarrow> decimal \<Rightarrow> decimal \<Rightarrow> gate_states" where
  "gates_for db settings now breached move target price =
     \<lparr>gs_band_breached = breached,
      gs_fresh = hv_ok (assess_health db settings now None),
      gs_interval_ok = interval_passed db settings now,
      gs_cost_ok = dle (rebalance_min_notional_usd settings) move,
      gs_daily_ok = (max_daily_adjustments settings \<le> 0
        \<or> int (List.length (today_executed db now)) < max_daily_adjustments settings),
      gs_within_max_position = (dle (max_position_usd settings) (dint 0)
        \<or> dle (dmul 28 target price) (max_position_usd settings)),
      gs_auto_enabled = auto_rebalance_enabled settings\<rparr>"

definition safety_economic :: "gate_states \<Rightarrow> (string \<times> bool) list" where
  "safety_economic g = [(''stale-state'', gs_fresh g), (''min-interval'', gs_interval_ok g), (''cost-floor'', gs_cost_ok g),
     (''daily-limit'', gs_daily_ok g), (''max-position'', gs_within_max_position g)]"

definition decide :: "gate_states \<Rightarrow> settings \<Rightarrow> decimal \<Rightarrow> decimal \<Rightarrow> decimal \<Rightarrow> choice \<times> rebalance_reason \<times> string list" where
  "decide g settings current target deviation =
     (let band = hedge_rebalance_band settings
      in if \<not> gs_band_breached g then (ChHold, RHold deviation band, [])
         else if list_all snd (safety_economic g)
         then (ChExecute, RWarranted deviation band current target (\<not> auto_rebalance_enabled settings), [])
         else (let names = map fst (filter (\<lambda>(_, passed). \<not> passed) (safety_economic g))
               in (ChBlocked, RBlockedBy names, names)))"

definition decision_for ::
  "store \<Rightarrow> settings \<Rightarrow> instant \<Rightarrow> bool \<Rightarrow> decimal \<Rightarrow> decimal \<Rightarrow> decimal \<Rightarrow> decimal \<Rightarrow> rebalance_decision" where
  "decision_for db settings now breached price current target deviation =
     (let move = est_move target current price;
          band = hedge_rebalance_band settings;
          g = gates_for db settings now breached move target price
      in case decide g settings current target deviation of
           (d, why_text, names) \<Rightarrow>
             \<lparr>rd_decision = d, rd_current_eth = Some current, rd_target_eth = Some target,
              rd_deviation = Some deviation, rd_band = band, rd_price_usd = Some price,
              rd_est_move_usd = Some move, rd_reason = why_text, rd_blocked_by = names, rd_gates = g,
              rd_thesis = thesis_of d (Some current) (Some target) (Some deviation) band\<rparr>)"

definition evaluate :: "store \<Rightarrow> settings \<Rightarrow> instant \<Rightarrow> rebalance_decision option" where
  "evaluate db settings now =
     (case latest_inputs db of
        None \<Rightarrow> None
      | Some None \<Rightarrow> Some (blocked_no_state settings)
      | Some (Some (lp, short, price)) \<Rightarrow>
          if dle price (dint 0) then Some (blocked_bad_price settings price)
          else (case analyze settings lp short price of
             None \<Rightarrow> None
           | Some analysis \<Rightarrow>
               (let current = short_size_eth analysis; full_target = delta_matched_target_eth analysis
                in case (deviation_of current full_target (lp_delta_max_eth analysis),
                         clamp_target (max_delta_per_run_usd settings) price current full_target) of
                     (Some deviation, Some target) \<Rightarrow>
                       Some (decision_for db settings now (rebalance_needed analysis) price current target deviation)
                   | _ \<Rightarrow> None)))"

section \<open>Journal and notification\<close>

definition newest_snapshot_id :: "store \<Rightarrow> nat option" where
  "newest_snapshot_id db = (if snapshots db = [] then None else Some (max_id (map s_id (snapshots db))))"

definition gates_dump :: "gate_states \<Rightarrow> dict" where
  "gates_dump g =
     [(''band_breached'', JBool (gs_band_breached g)), (''fresh'', JBool (gs_fresh g)),
      (''interval_ok'', JBool (gs_interval_ok g)), (''cost_ok'', JBool (gs_cost_ok g)),
      (''daily_ok'', JBool (gs_daily_ok g)), (''within_max_position'', JBool (gs_within_max_position g)),
      (''auto_enabled'', JBool (gs_auto_enabled g))]"

definition log_decision :: "instant \<Rightarrow> rebalance_decision \<Rightarrow> store \<Rightarrow> nat \<times> store" where
  "log_decision now d db =
     (let row_id = next_id (map rb_id (rebalance_log db))
      in (row_id, db\<lparr>rebalance_log := rebalance_log db @
           [\<lparr>rb_id = row_id, rb_ts = now, rb_decision = choice_text (rd_decision d), rb_current_eth = rd_current_eth d,
             rb_target_eth = rd_target_eth d, rb_deviation = rd_deviation d, rb_band = rd_band d,
             rb_price_usd = rd_price_usd d, rb_est_move_usd = rd_est_move_usd d, rb_executed = False, rb_key = None,
             rb_snapshot = newest_snapshot_id db, rb_gates = gates_dump (rd_gates d), rb_thesis = rd_thesis d,
             rb_outcome = None\<rparr>]\<rparr>))"

definition mark_executed :: "nat \<Rightarrow> execution_result \<Rightarrow> store \<Rightarrow> store" where
  "mark_executed row_id r db =
     db\<lparr>rebalance_log := map (\<lambda>row. if rb_id row = row_id
          then row\<lparr>rb_executed := (x_status r = SConfirmed), rb_key := Some (x_key r), rb_outcome := Some r\<rparr> else row)
        (rebalance_log db)\<rparr>"

text \<open>The notification after an execution; publishing (the ntfy client) is a parameter: \<open>None\<close> is an
  exception, which \<open>_notify\<close> swallows.\<close>

record notice =
  n_status :: status
  n_current :: decimal
  n_target :: decimal
  n_deviation :: "decimal option"
  n_detail :: detail

type_synonym 'e publisher = "string \<Rightarrow> notice \<Rightarrow> 'e world \<Rightarrow> unit option \<times> 'e world"

definition notify :: "secret_sources \<Rightarrow> settings \<Rightarrow> 'e publisher \<Rightarrow> notice \<Rightarrow> 'e world \<Rightarrow> bool \<times> 'e world" where
  "notify src settings publish n w =
     (case resolve_secret src settings ''ntfy_topic'' of
        None \<Rightarrow> (False, w)
      | Some topic \<Rightarrow> (case publish topic n w of (r, w') \<Rightarrow> (r \<noteq> None, w')))"

section \<open>Running the strategy\<close>

record rebalance_outcome =
  ro_decision :: rebalance_decision
  ro_executed :: bool
  ro_shadow :: bool
  ro_result :: "execution_result option"
  ro_notified :: bool

definition auto_approve :: "'e approver" where
  "auto_approve instruction_id message e = (Some \<lparr>approved = True, why = AutoRebalanceGatesPassed\<rparr>, e)"

text \<open>\<open>x or Decimal(0)\<close>: zero of any exponent becomes \<open>Decimal(0)\<close>.\<close>

definition or_zero :: "decimal option \<Rightarrow> decimal" where
  "or_zero x = (case x of Some d \<Rightarrow> if dcoef d = 0 then dint 0 else d | None \<Rightarrow> dint 0)"

definition resize_instruction :: "decimal \<Rightarrow> order_instruction" where
  "resize_instruction target = \<lparr>i_action = ResizeShort, i_market = market_default, i_trigger_price = None,
     i_target_eth = Some target, i_order_key = None\<rparr>"

definition execute_rebalance ::
  "(string \<Rightarrow> string) \<Rightarrow> secret_sources \<Rightarrow> settings \<Rightarrow> 'e sidecar \<Rightarrow> 'e publisher \<Rightarrow> instant \<Rightarrow> rebalance_decision \<Rightarrow> nat
   \<Rightarrow> 'e world \<Rightarrow> 'e world \<times> rebalance_outcome option" where
  "execute_rebalance sha256 src settings sidecar publish now d row_id w =
     (let target = or_zero (rd_target_eth d); current = or_zero (rd_current_eth d); price = or_zero (rd_price_usd d)
      in case required_params (resize_instruction target) of
           Inl _ \<Rightarrow> (w, None)
         | Inr i \<Rightarrow>
             (case execute_instruction sha256 settings sidecar auto_approve i True now
                     (est_move target current price) (dmul 28 target price) w of
                (w1, None) \<Rightarrow> (w1, None)
              | (w1, Some r) \<Rightarrow>
                  (let w2 = w1\<lparr>database := mark_executed row_id r (database w1)\<rparr>
                   in case notify src settings publish
                             \<lparr>n_status = x_status r, n_current = current, n_target = target,
                              n_deviation = rd_deviation d, n_detail = x_detail r\<rparr> w2 of
                        (notified, w3) \<Rightarrow>
                          (w3, Some \<lparr>ro_decision = d, ro_executed = (x_status r = SConfirmed), ro_shadow = False,
                                     ro_result = Some r, ro_notified = notified\<rparr>))))"

definition run_strategy ::
  "(string \<Rightarrow> string) \<Rightarrow> secret_sources \<Rightarrow> settings \<Rightarrow> 'e sidecar \<Rightarrow> 'e publisher \<Rightarrow> instant \<Rightarrow> bool
   \<Rightarrow> 'e world \<Rightarrow> 'e world \<times> rebalance_outcome option" where
  "run_strategy sha256 src settings sidecar publish now arm_given w =
     (case evaluate (database w) settings now of
        None \<Rightarrow> (w, None)
      | Some d \<Rightarrow>
          (case log_decision now d (database w) of
             (row_id, db1) \<Rightarrow>
               (let w1 = w\<lparr>database := db1\<rparr>
                in if rd_decision d \<noteq> ChExecute \<or> \<not> (arm_given \<and> auto_rebalance_enabled settings)
                   then (w1, Some \<lparr>ro_decision = d, ro_executed = False, ro_shadow = (rd_decision d = ChExecute),
                                   ro_result = None, ro_notified = False\<rparr>)
                   else execute_rebalance sha256 src settings sidecar publish now d row_id w1)))"

section \<open>The step clamp\<close>

lemma rnd_abs: "rnd p \<bar>x\<bar> = \<bar>rnd p x\<bar>" if "0 < p"
proof (cases "0 \<le> x")
  case True
  then show ?thesis using rnd_nonneg [OF that True] by simp
next
  case False
  then have "0 \<le> rnd p (- x)" using rnd_nonneg [OF that, of "- x"] by simp
  with False show ?thesis by simp
qed

lemma clamp_values:
  assumes "clamp_target cap price current full_target = Some target" "0 < dval price" "0 < dval cap"
  obtains step where "dval step = rnd 28 (rnd 28 (dval cap - 1/100) / dval price)"
    "target = (if dval step < \<bar>rnd 28 (dval full_target - dval current)\<bar>
               then dadd 28 current (if 0 < dval full_target - dval current then step else duminus 28 step) else full_target)"
proof -
  have cent: "dval cent = 1 / 100" by (simp add: cent_def dval_Dec)
  obtain step where step: "ddiv 28 (dsub 28 cap cent) price = Some step"
    using assms by (cases "ddiv 28 (dsub 28 cap cent) price") (auto simp: clamp_target_def dlt_iff)
  have "dval step = rnd 28 (rnd 28 (dval cap - 1/100) / dval price)"
    using dval_ddiv [OF _ step] by (simp add: dval_dsub cent)
  moreover have "target = (if dval step < \<bar>rnd 28 (dval full_target - dval current)\<bar>
      then dadd 28 current (if 0 < dval full_target - dval current then step else duminus 28 step) else full_target)"
  proof -
    have gap: "dlt (dint 0) (dsub 28 full_target current) \<longleftrightarrow> 0 < dval full_target - dval current"
      by (simp add: dlt_iff dval_dsub rnd_pos_iff)
    have pos: "dlt (dint 0) cap" "dlt (dint 0) price" using assms by (simp_all add: dlt_iff)
    have far: "dlt step (dabs 28 (dsub 28 full_target current)) \<longleftrightarrow> dval step < \<bar>rnd 28 (dval full_target - dval current)\<bar>"
      by (simp add: dlt_iff dval_dabs dval_dsub rnd_abs)
    show ?thesis
      using assms(1) step unfolding clamp_target_def Let_def by (simp only: gap pos far simp_thms if_True option.case option.inject)
  qed
  ultimately show ?thesis by (rule that)
qed

lemma between_rounded:
  assumes "0 \<le> s" "s < \<bar>rnd 28 (t - c)\<bar>" "rnd 28 s = s"
  shows "min (rnd 28 c) (rnd 28 t) \<le> rnd 28 (if 0 < t - c then c + s else c - s)
    \<and> rnd 28 (if 0 < t - c then c + s else c - s) \<le> max (rnd 28 c) (rnd 28 t)"
proof -
  have le: "s \<le> \<bar>t - c\<bar>"
  proof (rule ccontr)
    assume "\<not> s \<le> \<bar>t - c\<bar>"
    then have "rnd 28 \<bar>t - c\<bar> \<le> rnd 28 s" by (intro rnd_mono) simp_all
    then have "\<bar>rnd 28 (t - c)\<bar> \<le> s" by (simp only: rnd_abs assms(3) zero_less_numeral)
    then show False using assms(2) by simp
  qed
  show ?thesis
  proof (cases "0 < t - c")
    case True
    with le assms(1) have "c \<le> c + s" "c + s \<le> t" by simp_all
    then have "rnd 28 c \<le> rnd 28 (c + s)" "rnd 28 (c + s) \<le> rnd 28 t" by (simp_all only: rnd_mono zero_less_numeral)
    with True show ?thesis by simp
  next
    case False
    with le assms(1) have "c - s \<le> c" "t \<le> c - s" by simp_all
    then have "rnd 28 (c - s) \<le> rnd 28 c" "rnd 28 t \<le> rnd 28 (c - s)" by (simp_all only: rnd_mono zero_less_numeral)
    with False show ?thesis by simp
  qed
qed

lemma rnd28_error: "\<bar>rnd 28 x - x\<bar> \<le> \<bar>x\<bar> / 10 ^ 27"
proof -
  have "(10::real) powi (1 - int 28) / 2 \<le> 1 / 10 ^ 27" by (simp add: power_int_def field_simps)
  from mult_left_mono [OF this, of "\<bar>x\<bar>"] rnd_error [of 28 x] show ?thesis by simp
qed

lemma rnd28_abs_upper: "\<bar>rnd 28 x\<bar> \<le> \<bar>x\<bar> + \<bar>x\<bar> / 10 ^ 27"
  using rnd28_error [of x] by linarith

text \<open>The relative error of one rounding to 28 digits.\<close>

definition unit28 :: real where
  "unit28 = 1 / 10 ^ 27"

lemma unit28_pos: "0 < unit28"
  by (simp add: unit28_def)

lemma rnd28_up: "\<bar>rnd 28 x\<bar> \<le> \<bar>x\<bar> * (1 + unit28)"
  using rnd28_abs_upper [of x] by (simp add: unit28_def algebra_simps)

text \<open>A step of the clamp is worth no more than the cap less a cent, up to two roundings.\<close>

lemma step_worth:
  assumes "s = rnd 28 (rnd 28 x / p)" "0 < p" "0 \<le> x"
  shows "0 \<le> s" "s * p \<le> x * (1 + unit28) * (1 + unit28)"
proof -
  show s: "0 \<le> s" unfolding assms(1) using assms(2,3) by (intro rnd_nonneg divide_nonneg_pos) simp_all
  have "\<bar>s\<bar> \<le> \<bar>rnd 28 x / p\<bar> * (1 + unit28)" unfolding assms(1) by (rule rnd28_up)
  then have "s * p \<le> \<bar>rnd 28 x\<bar> * (1 + unit28)" using s assms(2) by (simp add: abs_divide field_simps)
  also have "\<dots> \<le> x * (1 + unit28) * (1 + unit28)"
    using rnd28_up [of x] assms(3) unit28_pos by (intro mult_right_mono) simp_all
  finally show "s * p \<le> x * (1 + unit28) * (1 + unit28)" .
qed

text \<open>The rounded sum of \<open>c\<close> and a step is about a step away from \<open>c\<close>.\<close>

lemma stepped_distance:
  assumes "\<bar>z - c\<bar> = s"
  shows "\<bar>rnd 28 (rnd 28 z - c)\<bar> \<le> s * (1 + unit28) * (1 + unit28) + \<bar>c\<bar> * (2 * unit28)"
proof -
  have z: "\<bar>z\<bar> \<le> \<bar>c\<bar> + s" using assms by linarith
  have "\<bar>rnd 28 z - z\<bar> \<le> \<bar>z\<bar> * unit28" using rnd28_error [of z] by (simp add: unit28_def)
  also have "\<dots> \<le> (\<bar>c\<bar> + s) * unit28" using z unit28_pos by (intro mult_right_mono) simp_all
  finally have "\<bar>rnd 28 z - c\<bar> \<le> s + (\<bar>c\<bar> + s) * unit28" using assms by linarith
  then have "\<bar>rnd 28 z - c\<bar> * (1 + unit28) \<le> (s + (\<bar>c\<bar> + s) * unit28) * (1 + unit28)"
    using unit28_pos by (intro mult_right_mono) simp_all
  with rnd28_up [of "rnd 28 z - c"] have "\<bar>rnd 28 (rnd 28 z - c)\<bar> \<le> (s + (\<bar>c\<bar> + s) * unit28) * (1 + unit28)" by linarith
  also have "\<dots> = s * (1 + unit28) * (1 + unit28) + \<bar>c\<bar> * (unit28 * (1 + unit28))" by (simp add: algebra_simps)
  also have "\<bar>c\<bar> * (unit28 * (1 + unit28)) \<le> \<bar>c\<bar> * (2 * unit28)"
    by (intro mult_left_mono) (simp_all add: unit28_def field_simps)
  finally show ?thesis by simp
qed

text \<open>What the roundings add up to is less than the cent taken off.\<close>

lemma cent_covers:
  fixes x :: real
  assumes "0 \<le> x" "x \<le> 10 ^ 20"
  shows "x * (1 + unit28) ^ 5 + 10 ^ 20 * (2 * unit28) * (1 + unit28) \<le> x + 1 / 100"
proof -
  have "x * ((1 + unit28) ^ 5 - 1) \<le> 10 ^ 20 * ((1 + unit28) ^ 5 - 1)"
    using assms(2) unit28_pos by (intro mult_right_mono) (simp_all add: one_le_power)
  moreover have "x * (1 + unit28) ^ 5 = x + x * ((1 + unit28) ^ 5 - 1)" by (simp add: right_diff_distrib)
  moreover have "10 ^ 20 * ((1 + unit28) ^ 5 - 1) + 10 ^ 20 * (2 * unit28) * (1 + unit28) \<le> 1 / 100"
    by (simp add: unit28_def power_numeral_reduce field_simps)
  ultimately show ?thesis by linarith
qed

lemma est_move_bound:
  assumes "\<bar>g\<bar> \<le> s * (1 + unit28) * (1 + unit28) + \<bar>c\<bar> * (2 * unit28)" "s * p \<le> x * (1 + unit28) * (1 + unit28)"
    "0 < p" "\<bar>c\<bar> * p \<le> 10 ^ 20"
  shows "\<bar>rnd 28 (\<bar>g\<bar> * p)\<bar> \<le> x * (1 + unit28) ^ 5 + 10 ^ 20 * (2 * unit28) * (1 + unit28)"
proof -
  have "\<bar>rnd 28 (\<bar>g\<bar> * p)\<bar> \<le> (\<bar>g\<bar> * p) * (1 + unit28)" using rnd28_up [of "\<bar>g\<bar> * p"] assms(3) by (simp add: abs_mult)
  also have "\<dots> \<le> ((s * (1 + unit28) * (1 + unit28) + \<bar>c\<bar> * (2 * unit28)) * p) * (1 + unit28)"
    using assms(1,3) unit28_pos by (intro mult_right_mono) simp_all
  also have "\<dots> = (s * p) * (1 + unit28) * (1 + unit28) * (1 + unit28) + (\<bar>c\<bar> * p) * (2 * unit28) * (1 + unit28)" by (simp add: algebra_simps)
  also have "\<dots> \<le> (x * (1 + unit28) * (1 + unit28)) * (1 + unit28) * (1 + unit28) * (1 + unit28) + 10 ^ 20 * (2 * unit28) * (1 + unit28)"
    using assms(2,4) unit28_pos by (intro add_mono mult_right_mono) simp_all
  also have "(x * (1 + unit28) * (1 + unit28)) * (1 + unit28) * (1 + unit28) * (1 + unit28) = x * (1 + unit28) ^ 5"
    by (simp add: eval_nat_numeral mult.assoc)
  finally show ?thesis .
qed

text \<open>C27. One run never moves more than the configured cap, and never past the full target: with the
  cap at least a cent and the amounts below 10^20 dollars, the estimated move of the clamped target is
  within the cap although every step is rounded to 28 digits, so the executor's own per-run limit
  cannot refuse it; and the target is the full one or lies between it and the current size.\<close>

theorem clamp_within_cap:
  assumes "clamp_target cap price current full_target = Some target"
    and "0 < dval price" "1/100 \<le> dval cap" "dval cap \<le> 10 ^ 20" "\<bar>dval current\<bar> * dval price \<le> 10 ^ 20"
  shows "dval (est_move target current price) \<le> dval cap
    \<and> (target = full_target
       \<or> min (rnd 28 (dval current)) (rnd 28 (dval full_target)) \<le> dval target
         \<and> dval target \<le> max (rnd 28 (dval current)) (rnd 28 (dval full_target)))"
proof -
  obtain step where step: "dval step = rnd 28 (rnd 28 (dval cap - 1/100) / dval price)"
    and target: "target = (if dval step < \<bar>rnd 28 (dval full_target - dval current)\<bar>
       then dadd 28 current (if 0 < dval full_target - dval current then step else duminus 28 step) else full_target)"
    using clamp_values [OF assms(1,2)] assms(3) by auto
  define s c where "s = dval step" and "c = dval current"
  have s: "0 \<le> s" "s * dval price \<le> (dval cap - 1/100) * (1 + unit28) * (1 + unit28)" "rnd 28 s = s"
    using step_worth [OF step assms(2)] assms(3) by (simp_all add: s_def step)
  define g where "g = rnd 28 (dval target - c)"
  have both: "\<bar>g\<bar> \<le> s * (1 + unit28) * (1 + unit28) + \<bar>c\<bar> * (2 * unit28)
      \<and> (target = full_target \<or> min (rnd 28 c) (rnd 28 (dval full_target)) \<le> dval target \<and> dval target \<le> max (rnd 28 c) (rnd 28 (dval full_target)))"
  proof (cases "s < \<bar>rnd 28 (dval full_target - c)\<bar>")
    case True
    then have "dval target = rnd 28 (if 0 < dval full_target - c then c + s else c - s)"
      using target s(3) by (simp add: s_def c_def dval_dadd dval_duminus)
    then show ?thesis
      using between_rounded [OF s(1) True s(3)] stepped_distance [of "if 0 < dval full_target - c then c + s else c - s" c s] s(1)
      by (simp add: g_def split: if_splits)
  next
    case False
    have "0 \<le> s * unit28" "0 \<le> s * unit28 * unit28" "0 \<le> \<bar>c\<bar> * (2 * unit28)" using s(1) unit28_pos by simp_all
    then have "s \<le> s * (1 + unit28) * (1 + unit28) + \<bar>c\<bar> * (2 * unit28)" by (simp add: algebra_simps)
    then show ?thesis using False target by (simp add: g_def s_def c_def)
  qed
  have "dval (est_move target current price) = rnd 28 (\<bar>g\<bar> * dval price)"
    by (simp add: est_move_def dval_dmul dval_dabs dval_dsub rnd_abs g_def c_def)
  also have "\<dots> \<le> (dval cap - 1/100) * (1 + unit28) ^ 5 + 10 ^ 20 * (2 * unit28) * (1 + unit28)"
    using est_move_bound [OF conjunct1 [OF both] s(2) assms(2)] assms(5) by (simp add: c_def)
  also have "\<dots> \<le> dval cap" using cent_covers [of "dval cap - 1/100"] assms(3,4) by simp
  finally show ?thesis using both by (simp add: c_def)
qed

lemma clamp_target_total: "0 < dval price \<Longrightarrow> \<exists>t. clamp_target cap price current full_target = Some t"
  using ddiv_None_iff [of 28 "dsub 28 cap cent" price] by (auto simp: clamp_target_def Let_def)

lemma clamp_within_cap_witness:
  "\<exists>t. clamp_target (dint 5000) (dint 2000) (dint 1) (dint 10) = Some t
     \<and> dval (est_move t (dint 1) (dint 2000)) \<le> 5000"
proof -
  obtain t where t: "clamp_target (dint 5000) (dint 2000) (dint 1) (dint 10) = Some t"
    using clamp_target_total [of "dint 2000" "dint 5000" "dint 1" "dint 10"] by auto
  show ?thesis using clamp_within_cap [OF t] t by auto
qed

section \<open>When the strategy acts\<close>

text \<open>The decision rule: with a priced position whose analysis succeeds the decision is hold
  exactly when no rebalance is needed, and execute exactly when one is needed, some snapshot is
  younger than the staleness limit, the last executed rebalance is the minimal interval ago, the
  move is worth the cost floor, today's executed rebalances are below the daily limit and the new
  position is within its cap; otherwise it is blocked and names every gate that refused.\<close>

theorem evaluate_decides:
  assumes "latest_inputs db = Some (Some (lp, short, price))" "analyze settings lp short price = Some a"
    and "evaluate db settings now = Some d"
  shows "(rd_decision d = ChHold \<longleftrightarrow> \<not> rebalance_needed a)
    \<and> (rd_decision d = ChExecute \<longleftrightarrow> rebalance_needed a
        \<and> list_ex (\<lambda>r. now - s_ts r \<le> minutes (snapshot_staleness_minutes settings)) (snapshots db)
        \<and> (case last_executed_ts db of None \<Rightarrow> True
             | Some t \<Rightarrow> minutes (rebalance_min_interval_minutes settings) \<le> now - t)
        \<and> dval (rebalance_min_notional_usd settings) \<le> dval (the (rd_est_move_usd d))
        \<and> (max_daily_adjustments settings \<le> 0
           \<or> int (List.length (today_executed db now)) < max_daily_adjustments settings)
        \<and> (dval (max_position_usd settings) \<le> 0
           \<or> rnd 28 (dval (the (rd_target_eth d)) * dval price) \<le> dval (max_position_usd settings)))
    \<and> (rd_decision d = ChBlocked \<longleftrightarrow> rd_blocked_by d \<noteq> [])"
proof -
  have "analyze settings lp short price \<noteq> None" using assms(2) by simp
  then have pos: "\<not> dle price (dint 0)" by (simp only: analyze_returns_iff) (simp add: dle_iff)
  obtain target dev where "clamp_target (max_delta_per_run_usd settings) price (short_size_eth a) (delta_matched_target_eth a) = Some target"
    and d': "d = decision_for db settings now (rebalance_needed a) price (short_size_eth a) target dev"
    using assms pos by (auto simp: evaluate_def Let_def split: option.splits)
  define current g where "current = short_size_eth a"
    and "g = gates_for db settings now (rebalance_needed a) (est_move target (short_size_eth a) price) target price"
  obtain c r ns where c: "decide g settings current target dev = (c, r, ns)" by (cases "decide g settings current target dev") auto
  have d: "rd_decision d = c" "rd_target_eth d = Some target" "rd_est_move_usd d = Some (est_move target current price)" "rd_blocked_by d = ns"
    using c by (simp_all add: d' decision_for_def Let_def current_def g_def)
  have "list_all snd (safety_economic g) \<longleftrightarrow> filter (\<lambda>(_, passed). \<not> passed) (safety_economic g) = []"
    by (auto simp: list_all_iff filter_empty_conv)
  then have rule: "(c = ChHold \<longleftrightarrow> \<not> gs_band_breached g) \<and> (c = ChExecute \<longleftrightarrow> gs_band_breached g \<and> list_all snd (safety_economic g))
      \<and> (c = ChBlocked \<longleftrightarrow> ns \<noteq> [])"
    using c by (auto simp: decide_def Let_def split: if_splits)
  have g: "gs_band_breached g = rebalance_needed a"
    "list_all snd (safety_economic g) \<longleftrightarrow>
        list_ex (\<lambda>r. now - s_ts r \<le> minutes (snapshot_staleness_minutes settings)) (snapshots db)
        \<and> (case last_executed_ts db of None \<Rightarrow> True
             | Some t \<Rightarrow> minutes (rebalance_min_interval_minutes settings) \<le> now - t)
        \<and> dval (rebalance_min_notional_usd settings) \<le> dval (est_move target current price)
        \<and> (max_daily_adjustments settings \<le> 0
           \<or> int (List.length (today_executed db now)) < max_daily_adjustments settings)
        \<and> (dval (max_position_usd settings) \<le> 0
           \<or> rnd 28 (dval target * dval price) \<le> dval (max_position_usd settings))"
    by (simp_all add: g_def gates_for_def safety_economic_def assess_health_ok list_ex_iff interval_passed_def dle_iff dval_dmul
        current_def)
  show ?thesis using rule unfolding d g option.sel by blast
qed

text \<open>The strategy is dormant unless it is both armed and enabled: then, or when the decision
  is not to execute, the one and only effect is a journal row that records the decision and is not
  marked executed; nothing is audited, submitted, approved or published.\<close>

theorem strategy_dormant:
  assumes "evaluate (database w) settings now = Some d"
    and "rd_decision d \<noteq> ChExecute \<or> \<not> arm_given \<or> \<not> auto_rebalance_enabled settings"
  shows "\<exists>row oc. run_strategy sha src settings sc publish now arm_given w
      = (w\<lparr>database := (database w)\<lparr>rebalance_log := rebalance_log (database w) @ [row]\<rparr>\<rparr>, Some oc)
    \<and> rb_ts row = now \<and> rb_decision row = choice_text (rd_decision d) \<and> \<not> rb_executed row \<and> \<not> ro_executed oc
    \<and> (ro_shadow oc \<longleftrightarrow> rd_decision d = ChExecute)"
  using assms by (auto simp: run_strategy_def log_decision_def Let_def)

section \<open>The strategy goes through the executor\<close>

lemma log_decision_keeps:
  assumes "log_decision now d db = (row_id, db1)"
  shows "audit_log db1 = audit_log db" "rebalance_log db1 = rebalance_log db @ [last (rebalance_log db1)]"
    "rb_ts (last (rebalance_log db1)) = now" "\<not> rb_executed (last (rebalance_log db1))"
    "row_id = rb_id (last (rebalance_log db1))" "row_id = next_id (map rb_id (rebalance_log db))"
    "map rb_id (rebalance_log db1) = map rb_id (rebalance_log db) @ [next_id (map rb_id (rebalance_log db))]"
  using assms by (auto simp: log_decision_def Let_def)

lemma check_limits_audit_only: "audit_log db = audit_log db' \<Longrightarrow> check_limits settings db = check_limits settings db'"
  by (intro ext) (simp add: check_limits_def recent_submissions_def)

lemma run_strategy_cases:
  obtains (raises) "evaluate (database w) settings now = None"
    "run_strategy sha src settings sc publish now arm_given w = (w, None)"
  | (dormant) d row_id db1 oc where "evaluate (database w) settings now = Some d"
    "log_decision now d (database w) = (row_id, db1)" "rd_decision d \<noteq> ChExecute \<or> \<not> arm_given \<or> \<not> auto_rebalance_enabled settings"
    "run_strategy sha src settings sc publish now arm_given w = (w\<lparr>database := db1\<rparr>, Some oc)"
  | (live) d row_id db1 where "evaluate (database w) settings now = Some d" "log_decision now d (database w) = (row_id, db1)"
    "rd_decision d = ChExecute" "arm_given" "auto_rebalance_enabled settings"
    "run_strategy sha src settings sc publish now arm_given w
       = execute_rebalance sha src settings sc publish now d row_id (w\<lparr>database := db1\<rparr>)"
proof (cases "evaluate (database w) settings now")
  case None
  then show ?thesis by (intro raises) (simp_all add: run_strategy_def)
next
  case (Some d)
  obtain row_id db1 where l: "log_decision now d (database w) = (row_id, db1)" by fastforce
  show ?thesis
  proof (cases "rd_decision d \<noteq> ChExecute \<or> \<not> arm_given \<or> \<not> auto_rebalance_enabled settings")
    case True
    with Some l show ?thesis by (intro dormant [OF Some l]) (auto simp: run_strategy_def Let_def)
  next
    case False
    with Some l show ?thesis by (intro live [OF Some l]) (auto simp: run_strategy_def Let_def)
  qed
qed

lemma notify_trace:
  "(\<And>t n w. trace (snd (publish t n w)) = trace w) \<Longrightarrow> trace (snd (notify src settings publish n w)) = trace w"
  by (auto simp: notify_def split: option.split prod.split) (metis snd_conv)

text \<open>The world after \<open>execute_rebalance\<close>, in terms of the pipeline's.\<close>

lemma execute_rebalance_cases:
  fixes d :: rebalance_decision
  defines "target \<equiv> or_zero (rd_target_eth d)" and "current \<equiv> or_zero (rd_current_eth d)" and "price \<equiv> or_zero (rd_price_usd d)"
  obtains (invalid) "execute_rebalance sha src settings sc publish now d row_id w = (w, None)"
  | (piped) w1 r where "execute_instruction sha settings sc auto_approve (resize_instruction target) True now
        (est_move target current price) (dmul 28 target price) w = (w1, r)"
      "fst (execute_rebalance sha src settings sc publish now d row_id w)
        = (case r of None \<Rightarrow> w1 | Some x \<Rightarrow> snd (notify src settings publish
             \<lparr>n_status = x_status x, n_current = current, n_target = target, n_deviation = rd_deviation d, n_detail = x_detail x\<rparr>
             (w1\<lparr>database := mark_executed row_id x (database w1)\<rparr>)))"
proof (cases "required_params (resize_instruction target)")
  case (Inl e)
  then show ?thesis by (intro invalid) (simp add: execute_rebalance_def Let_def target_def)
next
  case (Inr i)
  then have i: "i = resize_instruction target" by (simp add: required_params_def split: if_splits prod.splits)
  obtain w1 r where x: "execute_instruction sha settings sc auto_approve (resize_instruction target) True now
        (est_move target current price) (dmul 28 target price) w = (w1, r)" by fastforce
  show ?thesis
    by (rule piped [OF x]) (use Inr x in \<open>auto simp: execute_rebalance_def Let_def i current_def price_def
        simp flip: target_def split: option.split prod.split\<close>)
qed

text \<open>The strategy never bypasses the executor: if a run makes the sidecar submit, then it was
  armed and enabled, the decision was to execute, there was no kill-switch file, the armed state had
  not expired, the hard limits allowed the resize with its own amounts, and the decision had not been
  confirmed before (for a publisher that does not submit orders itself).\<close>

theorem strategy_submits_only_through_executor:
  assumes "\<And>t n w. trace (snd (publish t n w)) = trace w"
    and "trace (fst (run_strategy sha src settings sc publish now arm_given w)) = trace w @ tr" "list_ex submit_effect tr"
  shows "arm_given \<and> auto_rebalance_enabled settings \<and> kill_file w = None \<and> armed_until now w
    \<and> (\<exists>d. evaluate (database w) settings now = Some d \<and> rd_decision d = ChExecute
        \<and> (let target = or_zero (rd_target_eth d); price = or_zero (rd_price_usd d)
           in check_limits settings (database w) now market_default (dmul 28 target price)
                (est_move target (or_zero (rd_current_eth d)) price) = Allowed
              \<and> stored_confirmation (database w) (idempotency_key sha (resize_instruction target) now) = None))"
proof (cases rule: run_strategy_cases [of w settings now sha src sc publish arm_given])
  case raises
  with assms(2,3) show ?thesis by simp
next
  case dormant
  with assms(2,3) show ?thesis by simp
next
  case (live d row_id db1)
  note keeps = log_decision_keeps [OF live(2)]
  let ?w = "w\<lparr>database := db1\<rparr>"
  show ?thesis
  proof (cases rule: execute_rebalance_cases [of sha src settings sc publish now d row_id ?w])
    case invalid
    with live(6) assms(2,3) show ?thesis by simp
  next
    case (piped w1 r)
    have "trace (fst (run_strategy sha src settings sc publish now arm_given w)) = trace w1"
      unfolding live(6) piped(2) using notify_trace [OF assms(1)] by (simp split: option.split)
    then have "trace w1 = trace ?w @ tr" using assms(2) by simp
    then have sub: "trace (fst (execute_instruction sha settings sc auto_approve (resize_instruction (or_zero (rd_target_eth d)))
        True now (est_move (or_zero (rd_target_eth d)) (or_zero (rd_current_eth d)) (or_zero (rd_price_usd d)))
        (dmul 28 (or_zero (rd_target_eth d)) (or_zero (rd_price_usd d))) ?w)) = trace ?w @ tr"
      by (simp add: piped(1))
    from submission_gates [OF sub assms(3)] live(1,3,4,5) show ?thesis
      by (simp add: armed_until_def resize_instruction_def stored_confirmation_def keeps(1) check_limits_audit_only [OF keeps(1)])
  qed
qed

section \<open>Rebalances over time\<close>

definition executed_on :: "instant \<Rightarrow> store \<Rightarrow> nat" where
  "executed_on t db = List.length (filter (\<lambda>r. rb_executed r \<and> same_day (rb_ts r) t) (rebalance_log db))"

definition within_rebalance_limit :: "settings \<Rightarrow> 'e world \<Rightarrow> bool" where
  "within_rebalance_limit settings w \<longleftrightarrow> ids_increasing (map rb_id (rebalance_log (database w)))
     \<and> (0 < max_daily_adjustments settings
        \<longrightarrow> (\<forall>t. int (executed_on t (database w)) \<le> max_daily_adjustments settings))"

lemma length_today_executed: "List.length (today_executed db now) = executed_on now db"
  by (simp add: today_executed_def executed_on_def)

lemma executed_on_journal:
  assumes "rebalance_log db1 = rebalance_log db @ [row]" "\<not> rb_executed row"
  shows "executed_on t db1 = executed_on t db"
  using assms by (simp add: executed_on_def)

lemma executed_on_marked:
  assumes "rebalance_log db1 = rows @ [row]" "\<not> rb_executed row" "rb_id row \<notin> rb_id ` set rows" "rb_ts row = now"
  shows "executed_on t (mark_executed (rb_id row) x db1)
      \<le> executed_on t (db1\<lparr>rebalance_log := rows\<rparr>) + (if same_day now t then 1 else 0)"
    and "map rb_id (rebalance_log (mark_executed (rb_id row) x db1)) = map rb_id (rebalance_log db1)"
proof -
  have "map (\<lambda>r. if rb_id r = rb_id row then f r else r) rows = rows" for f
    using assms(3) by (intro map_idI) (metis imageI)
  then show "executed_on t (mark_executed (rb_id row) x db1)
      \<le> executed_on t (db1\<lparr>rebalance_log := rows\<rparr>) + (if same_day now t then 1 else 0)"
    using assms by (simp add: executed_on_def mark_executed_def)
  show "map rb_id (rebalance_log (mark_executed (rb_id row) x db1)) = map rb_id (rebalance_log db1)"
    by (simp add: mark_executed_def)
qed

lemma executed_on_cong: "rebalance_log db = rebalance_log db' \<Longrightarrow> executed_on t db = executed_on t db'"
  by (simp add: executed_on_def)

lemma logs_rebalance: "logs now key w w' \<Longrightarrow> rebalance_log (database w') = rebalance_log (database w)"
  unfolding logs_def by (elim exE conjE) (erule ssubst, simp)

lemma evaluate_daily:
  assumes "evaluate db settings now = Some d" "rd_decision d = ChExecute" "0 < max_daily_adjustments settings"
  shows "int (executed_on now db) < max_daily_adjustments settings"
proof -
  have "rd_decision (blocked_no_state settings) \<noteq> ChExecute" "rd_decision (blocked_bad_price settings p) \<noteq> ChExecute" for p
    by (simp_all add: blocked_no_state_def blocked_bad_price_def)
  with assms(1,2) obtain needed price c target dev where d: "d = decision_for db settings now needed price c target dev"
    by (fastforce simp: evaluate_def Let_def split: option.splits prod.splits if_splits)
  then have "gs_daily_ok (gates_for db settings now needed (est_move target c price) target price)"
    using assms(2) by (auto simp: decision_for_def decide_def Let_def safety_economic_def split: if_splits)
  then show ?thesis using assms(3) by (simp add: gates_for_def length_today_executed)
qed

lemma run_strategy_keeps_limit:
  fixes w :: "'e world"
  assumes frame: "\<And>t n w. rebalance_log (database (snd (publish t n w))) = rebalance_log (database w)"
    and inv: "within_rebalance_limit settings w"
  shows "within_rebalance_limit settings (fst (run_strategy sha src settings sc publish now arm_given w))"
proof (cases rule: run_strategy_cases [of w settings now sha src sc publish arm_given])
  case raises
  with inv show ?thesis by simp
next
  case (dormant d row_id db1 oc)
  note k = log_decision_keeps [OF dormant(2)]
  have ids: "map rb_id (rebalance_log db1) = map rb_id (rebalance_log (database w)) @ [next_id (map rb_id (rebalance_log (database w)))]"
    by (rule k(7))
  show ?thesis
    using inv executed_on_journal [OF k(2,4)] unfolding within_rebalance_limit_def dormant(4)
    by (simp add: ids ids_increasing_insert)
next
  case (live d row_id db1)
  note k = log_decision_keeps [OF live(2)]
  define row where "row = last (rebalance_log db1)"
  have rows: "rebalance_log db1 = rebalance_log (database w) @ [row]" using k(2) by (simp add: row_def)
  have ids: "map rb_id (rebalance_log db1) = map rb_id (rebalance_log (database w)) @ [next_id (map rb_id (rebalance_log (database w)))]"
    by (rule k(7))
  have row: "rb_ts row = now" "\<not> rb_executed row" "row_id = rb_id row" using k(3-5) by (simp_all add: row_def)
  have fresh: "rb_id row \<notin> rb_id ` set (rebalance_log (database w))"
    using k(5,6) next_id_fresh [of "map rb_id (rebalance_log (database w))"] by (simp add: row_def)
  have journal: "within_rebalance_limit settings w'" if "rebalance_log (database w') = rebalance_log db1" for w' :: "'e world"
    using inv executed_on_journal [OF k(2,4)] executed_on_cong [OF that] unfolding within_rebalance_limit_def
    by (simp add: that ids ids_increasing_insert)
  have notified: "rebalance_log (database (snd (notify src settings publish n w'))) = rebalance_log (database w')" for n and w' :: "'e world"
    using frame by (auto simp: notify_def split: option.split prod.split) (metis snd_conv)
  show ?thesis
  proof (cases rule: execute_rebalance_cases [of sha src settings sc publish now d row_id "w\<lparr>database := db1\<rparr>"])
    case invalid
    then show ?thesis using live(6) journal by simp
  next
    case (piped w1 r)
    have w1: "rebalance_log (database w1) = rebalance_log db1"
      using logs_rebalance [OF logs_execute] by (metis fst_conv piped(1) world.select_convs(1) world.surjective world.update_convs(1))
    show ?thesis
    proof (cases r)
      case None
      then show ?thesis using piped(2) live(6) journal [OF w1] by simp
    next
      case (Some x)
      let ?db = "mark_executed row_id x (database w1)"
      have m: "executed_on t ?db \<le> executed_on t (database w) + (if same_day now t then 1 else 0)" for t
        using executed_on_marked(1) [of "database w1" "rebalance_log (database w)" row now t x] w1 rows row fresh
        by (simp add: executed_on_def)
      have mids: "map rb_id (rebalance_log ?db) = map rb_id (rebalance_log db1)"
        using executed_on_marked(2) [of "database w1" "rebalance_log (database w)" row now x] w1 rows row fresh
        by simp
      have day: "executed_on t (database w) = executed_on now (database w)" if "same_day now t" for t
        using that by (simp add: executed_on_def same_day_def)
      have "int (executed_on t ?db) \<le> max_daily_adjustments settings" if "0 < max_daily_adjustments settings" for t
        using m [of t] evaluate_daily [OF live(1,3) that] day [of t] inv that
        by (cases "same_day now t") (auto simp: within_rebalance_limit_def dest!: spec [of _ t])
      then have fin: "within_rebalance_limit settings (w1\<lparr>database := ?db\<rparr>)"
        using inv ids_increasing_insert unfolding within_rebalance_limit_def by (simp add: mids ids)
      then show ?thesis
        using Some piped(2) live(6) notified by (simp add: within_rebalance_limit_def executed_on_def)
    qed
  qed
qed

text \<open>A history of the strategy: runs at any times, armed or not. The publisher leaves the journal alone.\<close>

definition strategy_step ::
  "(string \<Rightarrow> string) \<Rightarrow> secret_sources \<Rightarrow> settings \<Rightarrow> 'e sidecar \<Rightarrow> 'e publisher \<Rightarrow> instant \<times> bool \<Rightarrow> 'e world \<Rightarrow> 'e world" where
  "strategy_step sha src settings sc publish op w = fst (run_strategy sha src settings sc publish (fst op) (snd op) w)"

text \<open>C26. Whatever the strategy does over time, on no UTC day are more rebalances executed than the
  daily limit (for a publisher that does not write the journal).\<close>

theorem rebalances_per_day_limited:
  assumes "\<And>t n w. rebalance_log (database (snd (publish t n w))) = rebalance_log (database w)"
    and "0 < max_daily_adjustments settings" "rebalance_log (database w) = []"
  shows "int (executed_on t (database (run (strategy_step sha src settings sc publish) ops w))) \<le> max_daily_adjustments settings"
proof -
  have "machine (strategy_step sha src settings sc publish) (\<lambda>_ _. True) (within_rebalance_limit settings)"
    by unfold_locales (simp add: strategy_step_def run_strategy_keeps_limit [OF assms(1)])
  then have "within_rebalance_limit settings (run (strategy_step sha src settings sc publish) ops w)"
    by (rule machine.run_inv) (simp_all add: assms(3) within_rebalance_limit_def executed_on_def ids_increasing_def)
  then show ?thesis using assms(2) by (simp add: within_rebalance_limit_def)
qed

section \<open>Concrete runs\<close>

definition silent_publisher :: "'e publisher" where
  "silent_publisher t n w = (None, w)"

definition no_secrets :: secret_sources where
  "no_secrets = \<lparr>keyring_get = (\<lambda>_. None), env_get = (\<lambda>_. None)\<rparr>"

lemma test_world_journal: "rebalance_log (database test_world) = []" "max_daily_adjustments default_settings = 4"
  by (simp_all add: test_world_def empty_store_def default_settings_def)

lemma rebalances_per_day_limited_witness:
  "int (executed_on 7 (database (run (strategy_step id no_secrets default_settings test_sidecar silent_publisher)
      [(5, True), (6, False), (7, True)] test_world))) \<le> 4"
  using rebalances_per_day_limited [where publish = silent_publisher and settings = default_settings and w = test_world
      and t = 7 and sha = id and src = no_secrets and sc = test_sidecar and ops = "[(5, True), (6, False), (7, True)]"]
  by (simp add: silent_publisher_def test_world_journal del: run.simps)

lemma strategy_dormant_witness:
  "\<exists>row oc. run_strategy id no_secrets default_settings test_sidecar silent_publisher test_now True test_world
      = (test_world\<lparr>database := (database test_world)\<lparr>rebalance_log := [row]\<rparr>\<rparr>, Some oc)
    \<and> rb_decision row = ''blocked'' \<and> \<not> rb_executed row \<and> \<not> ro_shadow oc"
proof -
  have "evaluate (database test_world) default_settings test_now = Some (blocked_no_state default_settings)"
    by (simp add: evaluate_def latest_inputs_def newest_open_state_def test_world_def empty_store_def)
  note d = strategy_dormant [OF this, where arm_given = True and sha = id and src = no_secrets and sc = test_sidecar
      and publish = silent_publisher]
  have "rd_decision (blocked_no_state default_settings) = ChBlocked" by (simp add: blocked_no_state_def)
  with d show ?thesis unfolding test_world_journal append_Nil by (simp add: choice_text_def) blast
qed

end
