(* ===== verification/Keccak.thy ===== *)
theory Keccak
  imports Pystring "HOL-Library.Word"
begin

text \<open>
  \<open>_keccak.py\<close>: keccak-256 with the original 0x01 padding, on 64-bit lanes. The state is the
  list of five columns of five lanes, as in the source; bytes are \<open>8 word\<close>. The permutation is
  shown to be the one of the Keccak reference, with the reference's own offsets and round constants.
\<close>

unbundle bit_operations_syntax

type_synonym lane = "64 word"
type_synonym byte = "8 word"
type_synonym kstate = "lane list list"

section \<open>Constants\<close>

definition rate_bytes :: nat where
  "rate_bytes = 136"

definition round_constants :: "lane list" where
  "round_constants =
     [0x0000000000000001, 0x0000000000008082, 0x800000000000808A, 0x8000000080008000,
      0x000000000000808B, 0x0000000080000001, 0x8000000080008081, 0x8000000000008009,
      0x000000000000008A, 0x0000000000000088, 0x0000000080008009, 0x000000008000000A,
      0x000000008000808B, 0x800000000000008B, 0x8000000000008089, 0x8000000000008003,
      0x8000000000008002, 0x8000000000000080, 0x000000000000800A, 0x800000008000000A,
      0x8000000080008081, 0x8000000000008080, 0x0000000080000001, 0x8000000080008008]"

definition rotations :: "nat list list" where
  "rotations = [[0, 36, 3, 41, 18], [1, 44, 10, 45, 2], [62, 6, 43, 15, 61], [28, 55, 25, 21, 56], [27, 20, 39, 8, 14]]"

definition rotl :: "lane \<Rightarrow> nat \<Rightarrow> lane" where
  "rotl v shift = (if shift = 0 then v else push_bit shift v OR drop_bit (64 - shift) v)"

section \<open>The permutation\<close>

definition lane_at :: "kstate \<Rightarrow> nat \<Rightarrow> nat \<Rightarrow> lane" where
  "lane_at st x y = st ! x ! y"

definition tabulate :: "(nat \<Rightarrow> nat \<Rightarrow> lane) \<Rightarrow> kstate" where
  "tabulate f = map (\<lambda>x. map (f x) [0..<5]) [0..<5]"

definition set_lane :: "nat \<Rightarrow> nat \<Rightarrow> lane \<Rightarrow> kstate \<Rightarrow> kstate" where
  "set_lane x y v st = st[x := (st ! x)[y := v]]"

definition cells :: "(nat \<times> nat) list" where
  "cells = List.product [0..<5] [0..<5]"

definition theta :: "kstate \<Rightarrow> kstate" where
  "theta st =
     (let c = map (\<lambda>x. lane_at st x 0 XOR lane_at st x 1 XOR lane_at st x 2 XOR lane_at st x 3 XOR lane_at st x 4) [0..<5];
          d = map (\<lambda>x. c ! ((x + 4) mod 5) XOR rotl (c ! ((x + 1) mod 5)) 1) [0..<5]
      in tabulate (\<lambda>x y. lane_at st x y XOR d ! x))"

definition rho_pi :: "kstate \<Rightarrow> kstate" where
  "rho_pi st = fold (\<lambda>(x, y). set_lane y ((2 * x + 3 * y) mod 5) (rotl (lane_at st x y) (rotations ! x ! y)))
     cells (replicate 5 (replicate 5 0))"

definition chi :: "kstate \<Rightarrow> kstate" where
  "chi b = tabulate (\<lambda>x y. lane_at b x y XOR (NOT (lane_at b ((x + 1) mod 5) y) AND lane_at b ((x + 2) mod 5) y))"

definition iota :: "lane \<Rightarrow> kstate \<Rightarrow> kstate" where
  "iota rc st = set_lane 0 0 (lane_at st 0 0 XOR rc) st"

definition keccak_round :: "lane \<Rightarrow> kstate \<Rightarrow> kstate" where
  "keccak_round rc st = iota rc (chi (rho_pi (theta st)))"

definition keccak_f :: "kstate \<Rightarrow> kstate" where
  "keccak_f st = fold keccak_round round_constants st"

section \<open>Absorbing and squeezing\<close>

definition pad_keccak :: "byte list \<Rightarrow> byte list" where
  "pad_keccak data =
     (let pad_len = rate_bytes - List.length data mod rate_bytes
      in data @ (if pad_len = 1 then [0x81] else 0x01 # replicate (pad_len - 2) 0 @ [0x80]))"

text \<open>\<open>int.from_bytes(bs, "little")\<close> and \<open>to_bytes(8, "little")\<close>.\<close>

definition le_lane :: "byte list \<Rightarrow> lane" where
  "le_lane bs = foldr (\<lambda>b acc. push_bit 8 acc OR ucast b) bs 0"

definition lane_le :: "lane \<Rightarrow> byte list" where
  "lane_le w = map (\<lambda>k. ucast (drop_bit (8 * k) w)) [0..<8]"

definition absorb_block :: "byte list \<Rightarrow> kstate \<Rightarrow> kstate" where
  "absorb_block block st = keccak_f
     (fold (\<lambda>i s. set_lane (i mod 5) (i div 5) (lane_at s (i mod 5) (i div 5) XOR le_lane (take 8 (drop (8 * i) block))) s)
        [0..<rate_bytes div 8] st)"

fun absorb :: "nat \<Rightarrow> byte list \<Rightarrow> kstate \<Rightarrow> kstate" where
  "absorb 0 padded st = st"
| "absorb (Suc n) padded st = absorb n (drop rate_bytes padded) (absorb_block (take rate_bytes padded) st)"

definition keccak256 :: "byte list \<Rightarrow> byte list" where
  "keccak256 data =
     (let padded = pad_keccak data;
          st = absorb (List.length padded div rate_bytes) padded (replicate 5 (replicate 5 0))
      in concat (map (\<lambda>i. lane_le (lane_at st (i mod 5) (i div 5))) [0..<4]))"

definition bytes_of :: "string \<Rightarrow> byte list" where
  "bytes_of s = map (\<lambda>c. of_nat (of_char c)) s"

definition hex_of :: "byte list \<Rightarrow> string" where
  "hex_of bs = concat (map (\<lambda>b. [hex_digit (unat b div 16), hex_digit (unat b mod 16)]) bs)"

section \<open>Lengths\<close>

lemma length_lane_le [simp]: "List.length (lane_le w) = 8"
  by (simp add: lane_le_def)

lemma length_concat_const: "(\<And>x. x \<in> set xs \<Longrightarrow> List.length (f x) = n) \<Longrightarrow> List.length (concat (map f xs)) = List.length xs * n"
  by (induction xs) auto

text \<open>The digest always has 32 bytes and its hexadecimal text 64 characters.\<close>

theorem keccak256_length: "List.length (keccak256 data) = 32 \<and> List.length (hex_of (keccak256 data)) = 64"
proof -
  have "List.length (hex_of bs) = List.length bs * 2" for bs
    unfolding hex_of_def by (rule length_concat_const) simp
  moreover have "List.length (keccak256 data) = List.length [0..<4::nat] * 8"
    unfolding keccak256_def Let_def by (rule length_concat_const) simp
  ultimately show ?thesis by simp
qed

section \<open>Padding\<close>

lemma pad_len_pos: "0 < rate_bytes - n mod rate_bytes \<and> rate_bytes - n mod rate_bytes \<le> rate_bytes"
  by (simp add: rate_bytes_def)

lemma length_pad: "List.length (pad_keccak data) = List.length data + (rate_bytes - List.length data mod rate_bytes)"
  using pad_len_pos [of "List.length data"] by (auto simp: pad_keccak_def Let_def)

lemma drop_zeros_append: "dropWhile (\<lambda>b. b = 0) (replicate n 0 @ (b :: byte) # xs) = dropWhile (\<lambda>b. b = 0) (b # xs)"
  by (induction n) auto

text \<open>Removing the padding: strip the last byte's high bit, then the zeros before it, then the one.\<close>

definition unpad :: "byte list \<Rightarrow> byte list" where
  "unpad p = (if last p = 0x81 then butlast p else rev (tl (dropWhile (\<lambda>b. b = 0) (rev (butlast p)))))"

lemma unpad_pad: "unpad (pad_keccak data) = data"
proof (cases "rate_bytes - List.length data mod rate_bytes = 1")
  case True
  then show ?thesis by (simp add: pad_keccak_def unpad_def)
next
  case False
  let ?n = "rate_bytes - List.length data mod rate_bytes - 2"
  have "pad_keccak data = (data @ 0x01 # replicate ?n 0) @ [0x80]"
    using False by (simp add: pad_keccak_def Let_def)
  moreover have "rev (data @ 0x01 # replicate ?n (0::byte)) = replicate ?n 0 @ 0x01 # rev data" by simp
  moreover have "unpad (xs @ [0x80]) = rev (tl (dropWhile (\<lambda>b. b = 0) (rev xs)))" for xs by (simp add: unpad_def)
  ultimately show ?thesis by (simp only:) (simp only: drop_zeros_append, simp)
qed

text \<open>Padding fills whole blocks, at least one byte of it, and loses nothing: different messages
  have different padded messages.\<close>

theorem padding_injective:
  "List.length (pad_keccak a) mod 136 = 0 \<and> List.length a < List.length (pad_keccak a) \<and> inj pad_keccak"
proof -
  have "(n + (136 - n mod 136)) mod 136 = 0" for n :: nat
  proof -
    have "n mod 136 < 136" by simp
    moreover have "136 * (n div 136 + 1) = 136 * (n div 136) + 136" by simp
    ultimately have "n + (136 - n mod 136) = 136 * (n div 136 + 1)" using mult_div_mod_eq [of 136 n] by linarith
    then show ?thesis by simp
  qed
  moreover have "inj pad_keccak" by (rule inj_on_inverseI [of _ unpad]) (rule unpad_pad)
  ultimately show ?thesis using pad_len_pos [of "List.length a"] by (simp add: length_pad rate_bytes_def)
qed

section \<open>The round function is the reference's\<close>

text \<open>The five step mappings of the Keccak reference on a function of coordinates modulo 5:
  \<open>\<theta>\<close> adds the parities of two neighbouring columns, \<open>\<rho>\<close> rotates each lane, \<open>\<pi>\<close> moves the lane at
  \<open>(x, y)\<close> to \<open>(y, 2x + 3y)\<close>, \<open>\<chi>\<close> combines three lanes of a row, \<open>\<iota>\<close> adds the round constant.\<close>

type_synonym coords = "nat \<Rightarrow> nat \<Rightarrow> lane"

definition ref_theta :: "coords \<Rightarrow> coords" where
  "ref_theta a = (\<lambda>x y. a x y
     XOR (a ((x + 4) mod 5) 0 XOR a ((x + 4) mod 5) 1 XOR a ((x + 4) mod 5) 2 XOR a ((x + 4) mod 5) 3 XOR a ((x + 4) mod 5) 4)
     XOR word_rotl 1 (a ((x + 1) mod 5) 0 XOR a ((x + 1) mod 5) 1 XOR a ((x + 1) mod 5) 2 XOR a ((x + 1) mod 5) 3 XOR a ((x + 1) mod 5) 4))"

text \<open>The offsets of \<open>\<rho>\<close> by the reference's walk, which does not look at the program's table: from
  \<open>(1, 0)\<close> a step leads from \<open>(x, y)\<close> to \<open>(y, 2x + 3y)\<close>, and the lane reached after \<open>t\<close> steps is
  rotated by \<open>(t + 1)(t + 2)/2\<close>; the walk meets every lane but \<open>(0, 0)\<close>, which stays.\<close>

fun rho_walk :: "nat \<Rightarrow> nat \<times> nat \<Rightarrow> (nat \<times> nat) list" where
  "rho_walk 0 p = []"
| "rho_walk (Suc n) (x, y) = (x, y) # rho_walk n (y, (2 * x + 3 * y) mod 5)"

definition rho_offsets :: "((nat \<times> nat) \<times> nat) list" where
  "rho_offsets = zip (rho_walk 24 (1, 0)) (map (\<lambda>t. (t + 1) * (t + 2) div 2 mod 64) [0..<24])"

definition ref_offset :: "nat \<Rightarrow> nat \<Rightarrow> nat" where
  "ref_offset x y = (case map_of rho_offsets (x, y) of None \<Rightarrow> 0 | Some k \<Rightarrow> k)"

definition ref_rho :: "coords \<Rightarrow> coords" where
  "ref_rho a = (\<lambda>x y. word_rotl (ref_offset x y) (a x y))"

text \<open>\<open>\<pi>\<close> by its inverse: the lane at \<open>(x, y)\<close> afterwards came from \<open>(x + 3y, x)\<close>.\<close>

definition ref_pi :: "coords \<Rightarrow> coords" where
  "ref_pi a = (\<lambda>x y. a ((x + 3 * y) mod 5) x)"

definition ref_chi :: "coords \<Rightarrow> coords" where
  "ref_chi a = (\<lambda>x y. a x y XOR (NOT (a ((x + 1) mod 5) y) AND a ((x + 2) mod 5) y))"

definition ref_iota :: "lane \<Rightarrow> coords \<Rightarrow> coords" where
  "ref_iota rc a = (\<lambda>x y. if x = 0 \<and> y = 0 then a x y XOR rc else a x y)"

text \<open>The round constants by the reference's shift register: eight bits, of which the one shifted out
  is added to positions 0, 4, 5 and 6; round \<open>i\<close> takes its bit \<open>2^j - 1\<close> from the register after
  \<open>j + 7i\<close> steps, and its other bits are zero.\<close>

fun lfsr_step :: "bool \<times> bool \<times> bool \<times> bool \<times> bool \<times> bool \<times> bool \<times> bool
    \<Rightarrow> bool \<times> bool \<times> bool \<times> bool \<times> bool \<times> bool \<times> bool \<times> bool" where
  "lfsr_step (r0, r1, r2, r3, r4, r5, r6, r7) = (r7, r0, r1, r2, r3 \<noteq> r7, r4 \<noteq> r7, r5 \<noteq> r7, r6)"

definition lfsr_bit :: "nat \<Rightarrow> bool" where
  "lfsr_bit t = fst ((lfsr_step ^^ t) (True, False, False, False, False, False, False, False))"

definition ref_round_constant :: "nat \<Rightarrow> lane" where
  "ref_round_constant i = sum_list (map (\<lambda>j. if lfsr_bit (j + 7 * i) then 2 ^ (2 ^ j - 1) else 0) [0..<7])"

definition ref_round :: "nat \<Rightarrow> coords \<Rightarrow> coords" where
  "ref_round i a = ref_iota (ref_round_constant i) (ref_chi (ref_pi (ref_rho (ref_theta a))))"

definition ref_keccak_f :: "coords \<Rightarrow> coords" where
  "ref_keccak_f a = fold ref_round [0..<24] a"

text \<open>The program's two tables are those of the reference.\<close>

lemma rho_walk_numeral: "rho_walk (numeral k) (x, y) = (x, y) # rho_walk (pred_numeral k) (y, (2 * x + 3 * y) mod 5)"
  unfolding numeral_eq_Suc [of k] by (rule rho_walk.simps)

lemma rho_offsets_table: "rho_offsets =
    [((1, 0), 1), ((0, 2), 3), ((2, 1), 6), ((1, 2), 10), ((2, 3), 15), ((3, 3), 21),
     ((3, 0), 28), ((0, 1), 36), ((1, 3), 45), ((3, 1), 55), ((1, 4), 2), ((4, 4), 14),
     ((4, 0), 27), ((0, 3), 41), ((3, 4), 56), ((4, 3), 8), ((3, 2), 25), ((2, 2), 43),
     ((2, 0), 62), ((0, 4), 18), ((4, 2), 39), ((2, 4), 61), ((4, 1), 20), ((1, 1), 44)]"
  by (simp add: rho_offsets_def rho_walk_numeral upt_conv_Cons)

lemma rotations_ref: "rotations = map (\<lambda>x. map (ref_offset x) [0..<5]) [0..<5]"
  by (simp add: ref_offset_def rho_offsets_table upt_conv_Cons rotations_def del: One_nat_def)

lemma round_constants_ref: "round_constants = map ref_round_constant [0..<24]"
  by code_simp

lemma rotl_word_rotl:
  assumes "k < 64"
  shows "rotl v k = word_rotl k v"
proof (rule bit_word_eqI)
  fix n
  assume "n < LENGTH(64)"
  then have n: "n < 64" by simp
  have big: "\<not> bit v m" if "64 \<le> m" for m using bit_imp_le_length [of v m] that by auto
  have rot: "bit (word_rotl k v) n \<longleftrightarrow> bit v ((n + (64 - k)) mod 64)"
    using assms n by (simp add: bit_word_rotl_iff)
  show "bit (rotl v k) n \<longleftrightarrow> bit (word_rotl k v) n"
  proof (cases "n < k")
    case True
    then have m: "(n + (64 - k)) mod 64 = n + (64 - k)" using assms by simp
    show ?thesis unfolding rot m using True n
      by (simp add: rotl_def bit_or_iff bit_push_bit_iff bit_drop_bit_eq add.commute [of n])
  next
    case False
    then have "n + (64 - k) = n - k + 64" using assms n by simp
    then have m: "(n + (64 - k)) mod 64 = n - k" using n by (metis less_imp_diff_less mod_add_self2 mod_less)
    have "\<not> bit v (64 - k + n)" if "0 < k" using big [of "64 - k + n"] False that by simp
    then show ?thesis unfolding rot m using False n
      by (auto simp: rotl_def bit_or_iff bit_push_bit_iff bit_drop_bit_eq)
  qed
qed

lemma five: "x < 5 \<Longrightarrow> x = 0 \<or> x = 1 \<or> x = 2 \<or> x = 3 \<or> (x::nat) = 4"
  by linarith

lemma lane_at_tabulate [simp]: "x < 5 \<Longrightarrow> y < 5 \<Longrightarrow> lane_at (tabulate f) x y = f x y"
  by (simp add: lane_at_def tabulate_def)

lemma theta_ref: "x < 5 \<Longrightarrow> y < 5 \<Longrightarrow> lane_at (theta st) x y = ref_theta (lane_at st) x y"
  by (simp add: theta_def Let_def ref_theta_def rotl_word_rotl xor.assoc)

lemma chi_ref: "x < 5 \<Longrightarrow> y < 5 \<Longrightarrow> lane_at (chi st) x y = ref_chi (lane_at st) x y"
  by (simp add: chi_def ref_chi_def)

lemma rho_pi_ref: "x < 5 \<Longrightarrow> y < 5 \<Longrightarrow> lane_at (rho_pi st) x y = ref_pi (ref_rho (lane_at st)) x y"
proof -
  define g where "g = (\<lambda>x y. rotl (lane_at st x y) (rotations ! x ! y))"
  have "rho_pi st = fold (\<lambda>(x, y). set_lane y ((2 * x + 3 * y) mod 5) (g x y)) cells (replicate 5 (replicate 5 0))"
    by (simp add: rho_pi_def g_def)
  also have "\<dots> = [[g 0 0, g 3 0, g 1 0, g 4 0, g 2 0], [g 1 1, g 4 1, g 2 1, g 0 1, g 3 1],
      [g 2 2, g 0 2, g 3 2, g 1 2, g 4 2], [g 3 3, g 1 3, g 4 3, g 2 3, g 0 3], [g 4 4, g 2 4, g 0 4, g 3 4, g 1 4]]"
    by code_simp
  finally have r: "rho_pi st = \<dots>" .
  have k: "rotations ! i ! j < 64" if "i < 5" "j < 5" for i j
    using five [OF that(1)] five [OF that(2)] by (auto simp: rotations_def)
  assume "x < 5" "y < 5"
  then have "lane_at (rho_pi st) x y = g ((x + 3 * y) mod 5) x"
    unfolding r lane_at_def using five [of x, OF \<open>x < 5\<close>] five [of y, OF \<open>y < 5\<close>] by (elim disjE; simp)
  moreover have "rotations ! i ! j = ref_offset i j" if "i < 5" "j < 5" for i j
    using that by (simp add: rotations_ref)
  ultimately show ?thesis using \<open>x < 5\<close> using five [OF \<open>x < 5\<close>] k [of "(x + 3 * y) mod 5" x]
    by (simp add: ref_pi_def ref_rho_def g_def rotl_word_rotl)
qed

lemma ref_cong:
  assumes "\<And>x y. x < 5 \<Longrightarrow> y < 5 \<Longrightarrow> a x y = b x y" "x < 5" "y < 5"
  shows "ref_rho a x y = ref_rho b x y" "ref_pi a x y = ref_pi b x y" "ref_chi a x y = ref_chi b x y"
    "ref_iota rc a x y = ref_iota rc b x y" "ref_theta a x y = ref_theta b x y"
  using assms by (simp_all add: ref_rho_def ref_pi_def ref_chi_def ref_iota_def ref_theta_def)

lemma ref_round_cong:
  assumes "\<And>x y. x < 5 \<Longrightarrow> y < 5 \<Longrightarrow> a x y = b x y" "x < 5" "y < 5"
  shows "ref_round i a x y = ref_round i b x y"
  unfolding ref_round_def
  by (rule ref_cong(4) [OF ref_cong(3) [OF ref_cong(2) [OF ref_cong(1) [OF ref_cong(5) [OF assms(1)]]]]]) (use assms in auto)

lemma iota_ref:
  assumes "List.length st = 5" "List.length (st ! 0) = 5" "x < 5" "y < 5"
  shows "lane_at (iota rc st) x y = ref_iota rc (lane_at st) x y"
  using assms by (auto simp: iota_def set_lane_def lane_at_def ref_iota_def nth_list_update)

text \<open>The in-place list code of one round computes the reference round: reading any lane after
  \<open>keccak_round\<close> gives the composition of the five step mappings of the lanes before, with the
  shift-and-mask rotation equal to word rotation.\<close>

lemma keccak_round_is_reference:
  assumes "x < 5" "y < 5"
  shows "lane_at (keccak_round rc st) x y
    = ref_iota rc (ref_chi (ref_pi (ref_rho (ref_theta (lane_at st))))) x y"
proof -
  have len: "List.length (chi b) = 5" "List.length (chi b ! 0) = 5" for b by (simp_all add: chi_def tabulate_def)
  have rp: "lane_at (rho_pi (theta st)) i j = ref_pi (ref_rho (ref_theta (lane_at st))) i j" if "i < 5" "j < 5" for i j
    using that theta_ref by (simp add: rho_pi_ref ref_pi_def ref_rho_def)
  show ?thesis
    unfolding keccak_round_def iota_ref [OF len assms]
    by (rule ref_cong(4) [OF _ assms]) (simp add: chi_ref ref_cong(3) [OF rp])
qed

lemma keccak_rounds_ref:
  "x < 5 \<Longrightarrow> y < 5 \<Longrightarrow> lane_at (fold keccak_round (map ref_round_constant is) st) x y = fold ref_round is (lane_at st) x y"
proof (induction "is" arbitrary: st x y rule: rev_induct)
  case (snoc i "is")
  have "lane_at (fold keccak_round (map ref_round_constant (is @ [i])) st) x y
      = ref_round i (lane_at (fold keccak_round (map ref_round_constant is) st)) x y"
    using snoc.prems by (simp add: keccak_round_is_reference ref_round_def)
  also have "\<dots> = ref_round i (fold ref_round is (lane_at st)) x y"
    by (rule ref_round_cong) (simp_all add: snoc)
  finally show ?case by simp
qed simp

text \<open>C39. The in-place list code with its two tables is the permutation of the Keccak reference:
  reading any lane after \<open>keccak_f\<close> gives what twenty-four reference rounds make of the lanes before.
  The reference side is defined from the standard alone: the rotation offsets by the walk over the
  lanes, the round constants by the shift register, rotation by word rotation.\<close>

theorem keccak_f_is_reference:
  assumes "x < 5" "y < 5"
  shows "lane_at (keccak_f st) x y = ref_keccak_f (lane_at st) x y"
  unfolding keccak_f_def ref_keccak_f_def round_constants_ref by (rule keccak_rounds_ref) fact+

lemma keccak_f_is_reference_witness:
  "lane_at (keccak_f (replicate 5 (replicate 5 7))) 4 3 = ref_keccak_f (lane_at (replicate 5 (replicate 5 7))) 4 3"
  by (rule keccak_f_is_reference) simp_all

end
