(* ===== verification/Sha256.thy ===== *)
theory Sha256
  imports Keccak
begin

text \<open>
  \<open>hashlib.sha256\<close>, the digest of the standard library that Base58Check addresses use, on 32-bit
  words: message schedule, compression, padding.
\<close>

section \<open>Constants\<close>

definition sha_constants :: "32 word list" where
  "sha_constants =
     [0x428A2F98, 0x71374491, 0xB5C0FBCF, 0xE9B5DBA5, 0x3956C25B, 0x59F111F1, 0x923F82A4, 0xAB1C5ED5,
      0xD807AA98, 0x12835B01, 0x243185BE, 0x550C7DC3, 0x72BE5D74, 0x80DEB1FE, 0x9BDC06A7, 0xC19BF174,
      0xE49B69C1, 0xEFBE4786, 0x0FC19DC6, 0x240CA1CC, 0x2DE92C6F, 0x4A7484AA, 0x5CB0A9DC, 0x76F988DA,
      0x983E5152, 0xA831C66D, 0xB00327C8, 0xBF597FC7, 0xC6E00BF3, 0xD5A79147, 0x06CA6351, 0x14292967,
      0x27B70A85, 0x2E1B2138, 0x4D2C6DFC, 0x53380D13, 0x650A7354, 0x766A0ABB, 0x81C2C92E, 0x92722C85,
      0xA2BFE8A1, 0xA81A664B, 0xC24B8B70, 0xC76C51A3, 0xD192E819, 0xD6990624, 0xF40E3585, 0x106AA070,
      0x19A4C116, 0x1E376C08, 0x2748774C, 0x34B0BCB5, 0x391C0CB3, 0x4ED8AA4A, 0x5B9CCA4F, 0x682E6FF3,
      0x748F82EE, 0x78A5636F, 0x84C87814, 0x8CC70208, 0x90BEFFFA, 0xA4506CEB, 0xBEF9A3F7, 0xC67178F2]"

definition sha_initial :: "32 word list" where
  "sha_initial =
     [0x6A09E667, 0xBB67AE85, 0x3C6EF372, 0xA54FF53A, 0x510E527F, 0x9B05688C, 0x1F83D9AB, 0x5BE0CD19]"

section \<open>Words\<close>

definition rotr32 :: "nat \<Rightarrow> 32 word \<Rightarrow> 32 word" where
  "rotr32 n w = drop_bit n w OR push_bit (32 - n) w"

definition be_word :: "byte list \<Rightarrow> 32 word" where
  "be_word bs = foldl (\<lambda>acc b. push_bit 8 acc OR ucast b) 0 bs"

definition word_be :: "32 word \<Rightarrow> byte list" where
  "word_be w = map (\<lambda>k. ucast (drop_bit (24 - 8 * k) w)) [0..<4]"

section \<open>Padding and schedule\<close>

definition sha_pad :: "byte list \<Rightarrow> byte list" where
  "sha_pad data = (let n = List.length data
     in data @ 0x80 # replicate ((119 - n mod 64) mod 64) 0 @ map (\<lambda>k. ucast (drop_bit (56 - 8 * k) (of_nat (8 * n) :: 64 word))) [0..<8])"

text \<open>One more word of the schedule: \<open>ws\<close> holds the words so far, the newest first.\<close>

definition sha_extend :: "32 word list \<Rightarrow> 32 word list" where
  "sha_extend ws =
     (let a = ws ! 14; b = ws ! 1;
          s0 = rotr32 7 a XOR rotr32 18 a XOR drop_bit 3 a;
          s1 = rotr32 17 b XOR rotr32 19 b XOR drop_bit 10 b
      in (ws ! 15 + s0 + ws ! 6 + s1) # ws)"

definition sha_schedule :: "byte list \<Rightarrow> 32 word list" where
  "sha_schedule block = rev ((sha_extend ^^ 48) (rev (map (\<lambda>i. be_word (take 4 (drop (4 * i) block))) [0..<16])))"

section \<open>Compression\<close>

type_synonym sha_state = "32 word list"

definition sha_round :: "32 word \<times> 32 word \<Rightarrow> sha_state \<Rightarrow> sha_state" where
  "sha_round kw st =
     (case st of [a, b, c, d, e, f, g, h] \<Rightarrow>
        (let t1 = h + (rotr32 6 e XOR rotr32 11 e XOR rotr32 25 e) + ((e AND f) XOR (NOT e AND g)) + fst kw + snd kw;
             t2 = (rotr32 2 a XOR rotr32 13 a XOR rotr32 22 a) + ((a AND b) XOR (a AND c) XOR (b AND c))
         in [t1 + t2, a, b, c, d + t1, e, f, g])
      | _ \<Rightarrow> st)"

definition sha_block :: "byte list \<Rightarrow> sha_state \<Rightarrow> sha_state" where
  "sha_block block st = map2 (+) st (fold sha_round (zip sha_constants (sha_schedule block)) st)"

fun sha_blocks :: "nat \<Rightarrow> byte list \<Rightarrow> sha_state \<Rightarrow> sha_state" where
  "sha_blocks 0 padded st = st"
| "sha_blocks (Suc n) padded st = sha_blocks n (drop 64 padded) (sha_block (take 64 padded) st)"

definition sha256 :: "byte list \<Rightarrow> byte list" where
  "sha256 data = (let padded = sha_pad data
     in concat (map word_be (sha_blocks (List.length padded div 64) padded sha_initial)))"

end
