(* ===== verification/Validation.thy ===== *)
theory Validation
  imports Sha256
begin

text \<open>
  \<open>wallets/validation.py\<close>: addresses at the boundary. Each validator returns the normalized address or
  the error it raises; the constructors of \<open>address_error\<close> are the source's messages with the values
  they print. Addresses are strings of characters below 256 and letters are the ASCII ones. Characters
  above 255 are outside the model; nearly all are rejected, but \<open>_validate_bech32\<close> accepts an upper-case
  address with the Kelvin sign (U+212A), which \<open>str.lower\<close> turns into the letter k.
\<close>

datatype address_error =
    UnknownFamily string
  | EvmPrefix string
  | EvmLength nat string
  | EvmNonHex string
  | EvmChecksum string string
  | Base58Char char
  | Base58Length nat string
  | Base58Checksum string
  | Base58Version nat string
  | BitsPadding
  | Bech32MixedCase string
  | Bech32Hrp string
  | Bech32Short string
  | Bech32Char string
  | Bech32Checksum string
  | SegwitLength nat string
  | Bech32mChecksum string
  | TaprootLength nat string
  | WitnessVersion nat string
  | BtcEmpty
  | SolanaEmpty
  | SolanaLength nat string

section \<open>EVM addresses (EIP-55)\<close>

definition hex_digits :: string where
  "hex_digits = ''0123456789abcdefABCDEF''"

definition is_alpha :: "char \<Rightarrow> bool" where
  "is_alpha c = (is_lower_az c \<or> is_upper_az c)"

definition high_nibble :: "char \<Rightarrow> bool" where
  "high_nibble c = (case hex_val c of None \<Rightarrow> False | Some v \<Rightarrow> 8 \<le> v)"

definition eip55_body :: "string \<Rightarrow> string" where
  "eip55_body lower_body =
     (let digest = hex_of (keccak256 (bytes_of lower_body))
      in map2 (\<lambda>i ch. if is_alpha ch \<and> high_nibble (digest ! i) then to_upper ch else ch)
           [0..<List.length lower_body] lower_body)"

definition eip55_checksum :: "string \<Rightarrow> string" where
  "eip55_checksum lower_body = ''0x'' @ eip55_body lower_body"

definition validate_evm :: "string \<Rightarrow> address_error + string" where
  "validate_evm address =
     (if \<not> startswith address ''0x'' then Inl (EvmPrefix address)
      else let body = drop 2 address in
      if List.length body \<noteq> 40 then Inl (EvmLength (List.length body) address)
      else if \<not> set body \<subseteq> set hex_digits then Inl (EvmNonHex address)
      else let checksummed = eip55_checksum (lower body) in
      if body = lower body \<or> body = upper body then Inr checksummed
      else if address \<noteq> checksummed then Inl (EvmChecksum address checksummed)
      else Inr checksummed)"

section \<open>Base58\<close>

definition base58_alphabet :: string where
  "base58_alphabet = ''123456789ABCDEFGHJKLMNPQRSTUVWXYZabcdefghijkmnopqrstuvwxyz''"

text \<open>\<open>text.find(c)\<close>, with \<open>None\<close> for -1.\<close>

fun index_of :: "string \<Rightarrow> char \<Rightarrow> nat option" where
  "index_of [] c = None"
| "index_of (d # s) c = (if c = d then Some 0 else map_option Suc (index_of s c))"

fun base58_number :: "nat \<Rightarrow> string \<Rightarrow> address_error + nat" where
  "base58_number number [] = Inr number"
| "base58_number number (c # cs) =
     (case index_of base58_alphabet c of None \<Rightarrow> Inl (Base58Char c)
      | Some index \<Rightarrow> base58_number (number * 58 + index) cs)"

text \<open>\<open>n.to_bytes((n.bit_length() + 7) // 8, "big")\<close>, and \<open>b""\<close> for 0: the minimal big-endian bytes.\<close>

fun be_bytes :: "nat \<Rightarrow> byte list" where
  "be_bytes n = (if n = 0 then [] else be_bytes (n div 256) @ [of_nat (n mod 256)])"

declare be_bytes.simps [simp del]

definition base58_decode :: "string \<Rightarrow> address_error + byte list" where
  "base58_decode text =
     (case base58_number 0 text of Inl e \<Rightarrow> Inl e
      | Inr number \<Rightarrow> Inr (replicate (List.length (takeWhile (\<lambda>c. c = CHR ''1'') text)) 0 @ be_bytes number))"

definition validate_base58check :: "string \<Rightarrow> address_error + string" where
  "validate_base58check address =
     (case base58_decode address of Inl e \<Rightarrow> Inl e
      | Inr decoded \<Rightarrow>
        if List.length decoded \<noteq> 25 then Inl (Base58Length (List.length decoded) address)
        else let payload = take 21 decoded; checksum = drop 21 decoded;
                 expected = take 4 (sha256 (sha256 payload)) in
        if checksum \<noteq> expected then Inl (Base58Checksum address)
        else if payload ! 0 \<noteq> 0x00 \<and> payload ! 0 \<noteq> 0x05 then Inl (Base58Version (unat (payload ! 0)) address)
        else Inr address)"

section \<open>Bech32 and bech32m\<close>

definition bech32_charset :: string where
  "bech32_charset = ''qpzry9x8gf2tvdw0s3jn54khce6mua7l''"

definition bech32m_const :: nat where
  "bech32m_const = 0x2BC830A3"

definition bech32_generator :: "nat list" where
  "bech32_generator = [0x3B6A57B2, 0x26508E6D, 0x1EA119FA, 0x3D4233DD, 0x2A1462B3]"

definition polymod_step :: "nat \<Rightarrow> nat \<Rightarrow> nat" where
  "polymod_step checksum value =
     (let top = drop_bit 25 checksum;
          c = push_bit 5 (checksum AND 0x1FFFFFF) XOR value
      in foldl (\<lambda>c i. c XOR (if drop_bit i top AND 1 \<noteq> 0 then bech32_generator ! i else 0)) c [0..<5])"

definition bech32_polymod :: "nat list \<Rightarrow> nat" where
  "bech32_polymod values = foldl polymod_step 1 values"

definition bech32_hrp_expand :: "string \<Rightarrow> nat list" where
  "bech32_hrp_expand hrp = map (\<lambda>c. drop_bit 5 (of_char c)) hrp @ [0] @ map (\<lambda>c. of_char c AND 31) hrp"

text \<open>
  The inner loop of \<open>_convert_bits\<close>. The only caller has \<open>to_bits\<close> 8; at 0 the source would not
  return, the model stops.
\<close>

function drain :: "nat \<Rightarrow> nat \<Rightarrow> nat \<Rightarrow> nat list \<Rightarrow> nat \<times> nat list" where
  "drain to_bits accumulator bits result =
     (if 0 < to_bits \<and> to_bits \<le> bits
      then drain to_bits accumulator (bits - to_bits)
             (result @ [drop_bit (bits - to_bits) accumulator AND (2 ^ to_bits - 1)])
      else (bits, result))"
  by auto
termination by (relation "measure (\<lambda>(_, _, bits, _). bits)") auto

declare drain.simps [simp del]

fun convert_loop :: "nat \<Rightarrow> nat \<Rightarrow> nat list \<Rightarrow> nat \<times> nat \<times> nat list \<Rightarrow> nat \<times> nat \<times> nat list" where
  "convert_loop from_bits to_bits [] st = st"
| "convert_loop from_bits to_bits (v # vs) (accumulator, bits, result) =
     (let acc = push_bit from_bits accumulator OR v;
          (bits', result') = drain to_bits acc (bits + from_bits) result
      in convert_loop from_bits to_bits vs (acc, bits', result'))"

definition convert_bits :: "nat list \<Rightarrow> nat \<Rightarrow> nat \<Rightarrow> address_error + nat list" where
  "convert_bits data from_bits to_bits =
     (let (accumulator, bits, result) = convert_loop from_bits to_bits data (0, 0, [])
      in if from_bits \<le> bits \<or> push_bit (to_bits - bits) accumulator AND (2 ^ to_bits - 1) \<noteq> 0
         then Inl BitsPadding else Inr result)"

text \<open>\<open>s.rfind("1")\<close>; \<open>None\<close> is -1, where the source's slices drop the last character and keep all.\<close>

fun rfind :: "char \<Rightarrow> string \<Rightarrow> nat option" where
  "rfind d [] = None"
| "rfind d (c # s) = (case rfind d s of Some k \<Rightarrow> Some (Suc k) | None \<Rightarrow> if c = d then Some 0 else None)"

definition split_hrp :: "string \<Rightarrow> string \<times> string" where
  "split_hrp lowered = (case rfind (CHR ''1'') lowered of None \<Rightarrow> (butlast lowered, lowered)
     | Some separator \<Rightarrow> (take separator lowered, drop (separator + 1) lowered))"

definition check_program :: "string \<Rightarrow> nat \<Rightarrow> nat \<Rightarrow> nat list \<Rightarrow> address_error + string" where
  "check_program address constant witness_version program =
     (if witness_version = 0 then
        if constant \<noteq> 1 then Inl (Bech32Checksum address)
        else if List.length program \<noteq> 20 \<and> List.length program \<noteq> 32
          then Inl (SegwitLength (List.length program) address)
        else Inr (lower address)
      else if witness_version = 1 then
        if constant \<noteq> bech32m_const then Inl (Bech32mChecksum address)
        else if List.length program \<noteq> 32 then Inl (TaprootLength (List.length program) address)
        else Inr (lower address)
      else Inl (WitnessVersion witness_version address))"

definition validate_bech32 :: "string \<Rightarrow> address_error + string" where
  "validate_bech32 address =
     (if address \<noteq> lower address \<and> address \<noteq> upper address then Inl (Bech32MixedCase address)
      else let (hrp, data_part) = split_hrp (lower address) in
      if hrp \<noteq> ''bc'' then Inl (Bech32Hrp address)
      else if List.length data_part < 7 then Inl (Bech32Short address)
      else case those (map (index_of bech32_charset) data_part) of None \<Rightarrow> Inl (Bech32Char address)
      | Some data \<Rightarrow>
        let constant = bech32_polymod (bech32_hrp_expand hrp @ data) in
        case convert_bits (take (List.length data - 7) (tl data)) 5 8 of Inl e \<Rightarrow> Inl e
        | Inr program \<Rightarrow> check_program address constant (data ! 0) program)"

section \<open>The entry points\<close>

definition validate_btc :: "string \<Rightarrow> address_error + string" where
  "validate_btc address =
     (if address = [] then Inl BtcEmpty
      else if startswith (lower address) ''bc1'' then validate_bech32 address
      else validate_base58check address)"

definition validate_solana :: "string \<Rightarrow> address_error + string" where
  "validate_solana address =
     (if address = [] then Inl SolanaEmpty
      else case base58_decode address of Inl e \<Rightarrow> Inl e
      | Inr decoded \<Rightarrow>
        if List.length decoded \<noteq> 32 then Inl (SolanaLength (List.length decoded) address) else Inr address)"

definition validate_address :: "string \<Rightarrow> string \<Rightarrow> address_error + string" where
  "validate_address chain_family address =
     (if chain_family = ''evm'' then validate_evm address
      else if chain_family = ''btc'' then validate_btc address
      else if chain_family = ''solana'' then validate_solana address
      else Inl (UnknownFamily chain_family))"

section \<open>Bech32: a single wrong character is always detected\<close>

text \<open>The step is linear over exclusive or.\<close>

definition sel :: "bool \<Rightarrow> nat \<Rightarrow> nat" where
  "sel b g = (if b then g else 0)"

definition feedback :: "nat \<Rightarrow> nat" where
  "feedback c = sel (bit c 25) 0x3B6A57B2 XOR sel (bit c 26) 0x26508E6D
     XOR sel (bit c 27) 0x1EA119FA XOR sel (bit c 28) 0x3D4233DD XOR sel (bit c 29) 0x2A1462B3"

lemma sel_xor: "sel (a \<noteq> b) g = sel a g XOR sel b g"
  by (simp add: sel_def)

lemma mask25: "(c::nat) AND 0x1FFFFFF = take_bit 25 c"
  by (simp add: take_bit_eq_mask mask_eq_exp_minus_1)

lemma polymod_step_eq: "polymod_step c v = push_bit 5 (take_bit 25 c) XOR v XOR feedback c"
proof -
  have b: "drop_bit k c mod 2 = Suc 0 \<longleftrightarrow> bit c k" for k
    by (simp add: bit_iff_odd_drop_bit odd_iff_mod_2_eq_one)
  show ?thesis
    by (simp add: polymod_step_def Let_def mask25 and_one_eq b upt_rec bech32_generator_def feedback_def sel_def xor.assoc)
qed

lemma feedback_xor: "feedback (c XOR d) = feedback c XOR feedback d"
  by (simp only: feedback_def bit_xor_iff sel_xor ac_simps)

lemma polymod_step_xor: "polymod_step (c XOR d) (v XOR w) = polymod_step c v XOR polymod_step d w"
  by (simp add: polymod_step_eq feedback_xor take_bit_xor push_bit_xor ac_simps)

lemma polymod_xor:
  "List.length xs = List.length ys \<Longrightarrow>
   foldl polymod_step c xs XOR foldl polymod_step d ys = foldl polymod_step (c XOR d) (map2 (XOR) xs ys)"
  by (induction xs ys arbitrary: c d rule: list_induct2) (simp_all add: polymod_step_xor)

lemma map2_xor_self: "map2 (XOR) xs xs = replicate (List.length xs) (0::nat)"
  by (induction xs) auto

lemma polymod_step_0: "polymod_step 0 v = v"
  by (simp add: polymod_step_eq feedback_def sel_def)

lemma foldl_polymod_0: "foldl polymod_step 0 (replicate n 0) = 0"
  by (induction n) (simp_all add: polymod_step_0)

lemma polymod_difference:
  "foldl polymod_step c (ps @ a # qs) XOR foldl polymod_step c (ps @ b # qs)
   = foldl polymod_step (a XOR b) (replicate (List.length qs) 0)"
proof -
  have "foldl polymod_step c (ps @ a # qs) XOR foldl polymod_step c (ps @ b # qs)
      = foldl polymod_step 0 (replicate (List.length ps) 0 @ (a XOR b) # replicate (List.length qs) 0)"
    by (subst polymod_xor) (simp_all add: map2_xor_self)
  also have "\<dots> = foldl polymod_step (a XOR b) (replicate (List.length qs) 0)"
    by (simp only: foldl_append foldl_Cons foldl_polymod_0 polymod_step_0)
  finally show ?thesis .
qed

text \<open>On 30-bit values a step with input 0 maps nothing but 0 to 0: the low five bits of the
  generators are independent.\<close>

lemma polymod_step_bound: "polymod_step c 0 < 2 ^ 30"
proof -
  have "take_bit 30 (push_bit 5 (take_bit 25 c)) = push_bit 5 (take_bit 25 c)"
    by (simp add: take_bit_push_bit)
  moreover have "take_bit 30 (feedback c) = feedback c"
    by (simp add: feedback_def sel_def take_bit_xor)
  ultimately have "take_bit 30 (polymod_step c 0) = polymod_step c 0"
    by (simp add: polymod_step_eq take_bit_xor)
  then show ?thesis by (simp add: take_bit_nat_eq_self_iff)
qed

lemma generators_independent:
  "take_bit 5 (sel a 0x3B6A57B2 XOR sel b 0x26508E6D XOR sel c 0x1EA119FA XOR sel d 0x3D4233DD XOR sel e 0x2A1462B3) = 0
   \<Longrightarrow> \<not> a \<and> \<not> b \<and> \<not> c \<and> \<not> d \<and> \<not> e"
  by (cases a; cases b; cases c; cases d; cases e; simp add: sel_def)

lemma polymod_step_nonzero:
  assumes "c < 2 ^ 30" "polymod_step c 0 = 0"
  shows "c = 0"
proof -
  have e: "push_bit 5 (take_bit 25 c) XOR feedback c = 0" using assms(2) by (simp add: polymod_step_eq)
  have "take_bit 5 (push_bit 5 (take_bit 25 c) XOR feedback c) = take_bit 5 (feedback c)"
    by (simp add: take_bit_xor take_bit_push_bit)
  then have "take_bit 5 (feedback c) = 0" using e by simp
  from generators_independent [OF this [unfolded feedback_def]]
  have no: "\<not> bit c 25" "\<not> bit c 26" "\<not> bit c 27" "\<not> bit c 28" "\<not> bit c 29" by auto
  then have "take_bit 25 c = 0" using e by (simp add: feedback_def sel_def)
  moreover have "take_bit 25 c = c"
  proof (rule bit_eqI)
    fix n :: nat
    have "n < 25 \<or> n = 25 \<or> n = 26 \<or> n = 27 \<or> n = 28 \<or> n = 29 \<or> 30 \<le> n" by linarith
    moreover have "\<not> bit c n" if "30 \<le> n"
    proof -
      have "take_bit 30 c = c" using assms(1) by (simp add: take_bit_nat_eq_self_iff)
      then have "bit c n \<longleftrightarrow> n < 30 \<and> bit c n" by (metis bit_take_bit_iff)
      with that show ?thesis by simp
    qed
    ultimately show "bit (take_bit 25 c) n \<longleftrightarrow> bit c n" using no by (auto simp: bit_take_bit_iff)
  qed
  ultimately show ?thesis by simp
qed

lemma zeros_nonzero: "c < 2 ^ 30 \<Longrightarrow> c \<noteq> 0 \<Longrightarrow> foldl polymod_step c (replicate n 0) \<noteq> 0"
  by (induction n arbitrary: c) (use polymod_step_nonzero polymod_step_bound in auto)

lemma feedback_div:
  "polymod_step c 0 = (c mod 33554432 * 32) XOR ((if odd (c div 33554432) then 0x3B6A57B2 else 0)
     XOR (if odd (c div 67108864) then 0x26508E6D else 0) XOR (if odd (c div 134217728) then 0x1EA119FA else 0)
     XOR (if odd (c div 268435456) then 0x3D4233DD else 0) XOR (if odd (c div 536870912) then 0x2A1462B3 else 0))"
proof -
  have "push_bit 5 (take_bit 25 c) = c mod 33554432 * 32" by (simp add: push_bit_eq_mult take_bit_eq_mod)
  then show ?thesis by (simp add: polymod_step_eq feedback_def sel_def bit_iff_odd)
qed

lemma zeros_numeral:
  "foldl polymod_step c (replicate (numeral k) 0) = foldl polymod_step (polymod_step c 0) (replicate (pred_numeral k) 0)"
  by (simp add: numeral_eq_Suc)

lemma versions_differ: "foldl polymod_step 1 (replicate 58 0) \<noteq> 0x2BC830A2"
  by (simp add: zeros_numeral feedback_div)

section \<open>Regrouping bits\<close>

text \<open>A list of digits as a number, the first digit the most significant.\<close>

definition digits_value :: "nat \<Rightarrow> nat list \<Rightarrow> nat" where
  "digits_value b ds = foldl (\<lambda>n d. n * b + d) 0 ds"

lemma digits_value_Nil [simp]: "digits_value b [] = 0"
  by (simp add: digits_value_def)

lemma digits_value_snoc [simp]: "digits_value b (ds @ [d]) = digits_value b ds * b + d"
  by (simp add: digits_value_def)

lemma push_or:
  assumes "v < 2 ^ n"
  shows "push_bit n a OR v = a * 2 ^ n + (v::nat)"
proof -
  have "take_bit n v = v" using assms by (simp add: take_bit_nat_eq_self_iff)
  then have "\<not> (bit (push_bit n a) k \<and> bit v k)" for k
    by (metis bit_push_bit_iff_nat bit_take_bit_iff not_less)
  then have "push_bit n a + v = push_bit n a OR v" by (intro disjunctive_add) blast
  then show ?thesis by (simp add: push_bit_eq_mult)
qed

lemma drop_and: "drop_bit b (a::nat) AND (2 ^ t - Suc 0) = a div 2 ^ b mod 2 ^ t"
  using take_bit_eq_mask [of t "drop_bit b a"] by (simp add: drop_bit_eq_div take_bit_eq_mod mask_eq_exp_minus_1)

lemma digits_value_bound:
  "\<forall>d \<in> set ds. d < b \<Longrightarrow> digits_value b ds < b ^ List.length ds"
proof (induction ds rule: rev_induct)
  case (snoc d ds)
  then have "digits_value b ds + 1 \<le> b ^ List.length ds" "d < b" by auto
  then have "(digits_value b ds + 1) * b \<le> b ^ List.length ds * b" by (intro mult_le_mono1)
  with \<open>d < b\<close> show ?case by (simp add: mult.commute)
qed simp

lemma digits_value_inj:
  assumes "List.length ds = List.length es" "\<forall>d \<in> set ds. d < b" "\<forall>e \<in> set es. e < b"
    "digits_value b ds = digits_value b es"
  shows "ds = es"
  using assms
proof (induction ds arbitrary: es rule: rev_induct)
  case (snoc d ds)
  from snoc.prems(1) obtain e es' where es: "es = es' @ [e]" by (cases es rule: rev_cases) auto
  have db: "d < b" "e < b" using snoc.prems(2,3) es by auto
  have eq: "digits_value b ds * b + d = digits_value b es' * b + e" using snoc.prems(4) es by simp
  have "digits_value b ds = digits_value b es'"
    using arg_cong [OF eq, of "\<lambda>x. x div b"] db by simp
  moreover from this eq have "d = e" by simp
  ultimately show ?case using snoc es by auto
qed simp

text \<open>The accumulator holds all the digits read; the result, those already emitted.\<close>

definition regrouped :: "nat \<Rightarrow> nat \<Rightarrow> nat \<Rightarrow> nat list \<Rightarrow> bool" where
  "regrouped to_bits acc bits result \<longleftrightarrow>
     digits_value (2 ^ to_bits) result = acc div 2 ^ bits \<and> (\<forall>x \<in> set result. x < 2 ^ to_bits)"

lemma drain_regrouped:
  assumes "regrouped t acc bits result" "0 < t"
  shows "case drain t acc bits result of (bits', result') \<Rightarrow>
    regrouped t acc bits' result' \<and> bits' < t \<and> bits' + t * List.length result' = bits + t * List.length result"
  using assms
proof (induction t acc bits result rule: drain.induct)
  case (1 t acc bits result)
  show ?case
  proof (cases "t \<le> bits")
    case True
    let ?r = "result @ [drop_bit (bits - t) acc AND (2 ^ t - 1)]"
    have "acc div 2 ^ (bits - t) = (acc div 2 ^ bits) * 2 ^ t + acc div 2 ^ (bits - t) mod 2 ^ t"
      using True by (metis div_mult_mod_eq div_mult2_eq le_add_diff_inverse2 power_add)
    then have "regrouped t acc (bits - t) ?r"
      using 1(2) by (auto simp: regrouped_def drop_and)
    from 1(1) [OF _ this 1(3)] True 1(3) show ?thesis
      by (subst drain.simps) (auto split: prod.splits)
  next
    case False
    then show ?thesis using 1 by (subst drain.simps) auto
  qed
qed

lemma convert_loop_regrouped:
  assumes "regrouped t acc bits result" "0 < t" "bits < t" "\<forall>v \<in> set data. v < 2 ^ f"
    "acc = digits_value (2 ^ f) pre" "bits + t * List.length result = f * List.length pre"
  shows "case convert_loop f t data (acc, bits, result) of (acc', bits', result') \<Rightarrow>
    regrouped t acc' bits' result' \<and> bits' < t \<and> acc' = digits_value (2 ^ f) (pre @ data)
    \<and> bits' + t * List.length result' = f * List.length (pre @ data)"
  using assms
proof (induction data arbitrary: acc bits result pre)
  case (Cons v data)
  let ?acc = "push_bit f acc OR v"
  obtain b r where d: "drain t ?acc (bits + f) result = (b, r)" by fastforce
  have acc: "?acc = acc * 2 ^ f + v" using Cons.prems(4) by (simp add: push_or)
  have "?acc div 2 ^ (bits + f) = acc div 2 ^ bits"
    using Cons.prems(4) by (simp add: acc power_add div_mult2_eq mult.commute [of "2 ^ bits"])
  then have "regrouped t ?acc (bits + f) result" using Cons.prems(1) by (simp add: regrouped_def)
  from drain_regrouped [OF this Cons.prems(2)] d
  have r: "regrouped t ?acc b r" "b < t" "b + t * List.length r = bits + f + t * List.length result" by auto
  have "digits_value (2 ^ f) (pre @ [v]) = ?acc" unfolding acc unfolding digits_value_snoc Cons.prems(5) ..
  from Cons.IH [OF r(1) Cons.prems(2) r(2) _ this [symmetric]] Cons.prems(4,6) r(3)
  have "case convert_loop f t data (?acc, b, r) of (acc', bits', result') \<Rightarrow>
    regrouped t acc' bits' result' \<and> bits' < t \<and> acc' = digits_value (2 ^ f) (pre @ v # data)
    \<and> bits' + t * List.length result' = f * List.length (pre @ v # data)" by simp
  moreover have "convert_loop f t (v # data) (acc, bits, result) = convert_loop f t data (?acc, b, r)"
    by (simp add: d Let_def)
  ultimately show ?case by simp
qed auto

text \<open>Converting 5-bit groups to bytes keeps the number they spell: on success the bytes are the
  number without its \<open>5n mod 8\<close> padding bits, which are fewer than five and all zero; there is a byte for
  every eight bits; and any other padding is an error.\<close>

theorem convert_bits_regroups:
  assumes "\<forall>v \<in> set data. v < 32"
  shows "convert_bits data 5 8 = Inr bytes \<longleftrightarrow>
    5 * List.length data mod 8 < 5 \<and> List.length bytes = 5 * List.length data div 8 \<and> (\<forall>b \<in> set bytes. b < 256)
    \<and> digits_value 32 data = digits_value 256 bytes * 2 ^ (5 * List.length data mod 8)"
proof -
  obtain acc bits r where c: "convert_loop 5 8 data (0, 0, []) = (acc, bits, r)" by (metis prod_cases3)
  have i: "regrouped 8 acc bits r" "bits < 8" "acc = digits_value 32 data" "bits + 8 * List.length r = 5 * List.length data"
    using convert_loop_regrouped [of 8 0 0 "[]" data 5 "[]"] assms c by (auto simp: regrouped_def)
  have b: "bits = 5 * List.length data mod 8" "List.length r = 5 * List.length data div 8"
    using i(2) by (simp_all flip: i(4))
  have "push_bit (8 - bits) acc AND (2 ^ 8 - 1) = acc * 2 ^ (8 - bits) mod 2 ^ 8"
    using drop_and [of 0 "push_bit (8 - bits) acc" 8] by (simp add: push_bit_eq_mult)
  also have "\<dots> = acc mod 2 ^ bits * 2 ^ (8 - bits)"
    using i(2) by (metis add_diff_inverse_nat less_imp_le mult_mod_left not_less power_add)
  finally have pad: "push_bit (8 - bits) acc AND (2 ^ 8 - 1) = 0 \<longleftrightarrow> acc mod 2 ^ bits = 0" by simp
  have conv: "convert_bits data 5 8 = Inr bytes \<longleftrightarrow> bits < 5 \<and> acc mod 2 ^ bits = 0 \<and> r = bytes"
    unfolding convert_bits_def c using pad by auto
  have split: "acc = digits_value 256 r * 2 ^ bits + acc mod 2 ^ bits"
    using i(1) div_mult_mod_eq [of acc "2 ^ bits"] by (simp add: regrouped_def)
  have rb: "\<forall>x \<in> set r. x < 256" using i(1) by (simp add: regrouped_def)
  show ?thesis
  proof
    assume "convert_bits data 5 8 = Inr bytes"
    then have "bits < 5" "acc mod 2 ^ bits = 0" "r = bytes" by (auto simp: conv)
    with split b rb i(3) show "5 * List.length data mod 8 < 5 \<and> List.length bytes = 5 * List.length data div 8
      \<and> (\<forall>b \<in> set bytes. b < 256) \<and> digits_value 32 data = digits_value 256 bytes * 2 ^ (5 * List.length data mod 8)"
      by simp
  next
    assume a: "5 * List.length data mod 8 < 5 \<and> List.length bytes = 5 * List.length data div 8
      \<and> (\<forall>b \<in> set bytes. b < 256) \<and> digits_value 32 data = digits_value 256 bytes * 2 ^ (5 * List.length data mod 8)"
    then have acc: "acc = digits_value 256 bytes * 2 ^ bits" using i(3) b(1) by simp
    then have "digits_value 256 r = digits_value 256 bytes" using i(1) by (simp add: regrouped_def)
    then have "r = bytes" using a b(2) rb by (intro digits_value_inj) auto
    with acc a b(1) show "convert_bits data 5 8 = Inr bytes" by (simp add: conv)
  qed
qed

lemma convert_bits_regroups_witness:
  "convert_bits [31, 28] 5 8 = Inr [255] \<longleftrightarrow> digits_value 32 [31, 28] = digits_value 256 [255] * 2 ^ 2"
  using convert_bits_regroups [of "[31, 28]" "[255]"] by simp

lemma index_of_nth: "index_of s c = Some i \<Longrightarrow> i < List.length s \<and> s ! i = c"
  by (induction s arbitrary: i) (auto split: if_splits)

lemma rfind_Some: "rfind d s = Some k \<Longrightarrow> k < List.length s \<and> s = take k s @ d # drop (Suc k) s \<and> d \<notin> set (drop (Suc k) s)"
  and rfind_None: "rfind d s = None \<Longrightarrow> d \<notin> set s"
  by (induction s arbitrary: k) (auto split: option.splits if_splits)

lemma those_append: "those (xs @ ys) = Some zs \<longleftrightarrow> (\<exists>us vs. those xs = Some us \<and> those ys = Some vs \<and> zs = us @ vs)"
  by (induction xs arbitrary: zs) (auto split: option.splits)

lemma those_Cons: "those (x # xs) = Some zs \<longleftrightarrow> (\<exists>u us. x = Some u \<and> those xs = Some us \<and> zs = u # us)"
  by (auto split: option.splits)

lemma those_length: "those xs = Some zs \<Longrightarrow> List.length zs = List.length xs"
  by (induction xs arbitrary: zs) (auto split: option.splits)

lemma those_index_set:
  "those (map (index_of s) cs) = Some ds \<Longrightarrow> d \<in> set ds \<Longrightarrow> d < List.length s"
  by (induction cs arbitrary: ds) (auto split: option.splits dest: index_of_nth)

lemma length_charset: "List.length bech32_charset = 32"
  by (simp add: bech32_charset_def)

text \<open>What an accepted bech32 address is made of.\<close>

lemma bech32_accepted:
  assumes "validate_bech32 address = Inr x"
  obtains part data program where
    "x = ''bc1'' @ part" "those (map (index_of bech32_charset) part) = Some data" "7 \<le> List.length part"
    "convert_bits (take (List.length data - 7) (tl data)) 5 8 = Inr program" "x = lower address"
    "data ! 0 = 0 \<and> bech32_polymod (bech32_hrp_expand ''bc'' @ data) = 1
       \<or> data ! 0 = 1 \<and> bech32_polymod (bech32_hrp_expand ''bc'' @ data) = bech32m_const \<and> List.length program = 32"
proof -
  obtain hrp part where sp: "split_hrp (lower address) = (hrp, part)" by fastforce
  have hrp: "hrp = ''bc''" and len: "\<not> List.length part < 7"
    using assms by (auto simp: validate_bech32_def sp split: if_splits)
  obtain data where data: "those (map (index_of bech32_charset) part) = Some data"
    using assms hrp len by (auto simp: validate_bech32_def sp split: if_splits option.splits)
  obtain program where program: "convert_bits (take (List.length data - 7) (tl data)) 5 8 = Inr program"
    using assms hrp len data by (auto simp: validate_bech32_def sp Let_def split: if_splits sum.splits)
  have chk: "check_program address (bech32_polymod (bech32_hrp_expand ''bc'' @ data)) (data ! 0) program = Inr x"
    using assms hrp len data program by (simp add: validate_bech32_def sp Let_def split: if_splits)
  then have x: "x = lower address" by (auto simp: check_program_def split: if_splits)
  have "lower address = ''bc1'' @ part"
  proof (cases "rfind (CHR ''1'') (lower address)")
    case None
    then have "List.length part = Suc 2 \<or> List.length part = 2" using sp hrp len
      by (cases "lower address" rule: rev_cases) (auto simp: split_hrp_def)
    with len show ?thesis by simp
  next
    case (Some k)
    with rfind_Some [OF Some] sp hrp show ?thesis by (auto simp: split_hrp_def)
  qed
  moreover have "data ! 0 = 0 \<and> bech32_polymod (bech32_hrp_expand ''bc'' @ data) = 1
       \<or> data ! 0 = 1 \<and> bech32_polymod (bech32_hrp_expand ''bc'' @ data) = bech32m_const \<and> List.length program = 32"
    using chk by (auto simp: check_program_def split: if_splits)
  ultimately show ?thesis using that [of part data program] x data program len by simp
qed

lemma taproot_data_length:
  assumes "convert_bits (take (List.length data - 7) (tl data)) 5 8 = Inr program" "List.length program = 32"
    "7 \<le> List.length data" "\<forall>d \<in> set data. d < 32"
  shows "List.length data = 59"
proof -
  have "\<forall>v \<in> set (take (List.length data - 7) (tl data)). v < 32"
    using assms(3,4) by (cases data) (auto dest: in_set_takeD)
  from iffD1 [OF convert_bits_regroups [OF this] assms(1)] assms(2,3)
  have "5 * (List.length data - 7) mod 8 < 5" "5 * (List.length data - 7) div 8 = 32" by simp_all
  moreover have "5 * (List.length data - 7) div 8 * 8 + 5 * (List.length data - 7) mod 8 = 5 * (List.length data - 7)"
    by (rule div_mult_mod_eq)
  ultimately have "256 \<le> 5 * (List.length data - 7) \<and> 5 * (List.length data - 7) < 261" by linarith
  then have "List.length data - 7 = 52" by arith
  with assms(3) show ?thesis by simp
qed

lemma small_xor: "a < 32 \<Longrightarrow> b < 32 \<Longrightarrow> a XOR b < 2 ^ (30::nat)" for a b :: nat
proof -
  assume "a < 32" "b < 32"
  then have "take_bit 30 a = a" "take_bit 30 b = b" by (simp_all add: take_bit_nat_eq_self_iff)
  then have "take_bit 30 (a XOR b) = a XOR b" by (simp add: take_bit_xor)
  then show ?thesis by (simp only: take_bit_nat_eq_self_iff)
qed

lemma xor_zero_iff: "a XOR b = 0 \<longleftrightarrow> a = (b::nat)"
  by (metis xor.assoc xor.left_neutral xor_self_eq)

text \<open>Two accepted addresses that differ in one character: it is in the data part, and the two data parts differ in its value.\<close>

lemma substituted_data:
  assumes "p @ c # q = ''bc1'' @ px" "p @ d # q = ''bc1'' @ py" "c \<noteq> d"
    "those (map (index_of bech32_charset) px) = Some dx" "those (map (index_of bech32_charset) py) = Some dy"
  shows "\<exists>pre i j post. dx = pre @ i # post \<and> dy = pre @ j # post \<and> i \<noteq> j \<and> i < 32 \<and> j < 32"
proof -
  have "3 \<le> List.length p"
  proof (rule ccontr)
    assume "\<not> 3 \<le> List.length p"
    moreover have "(''bc1'' @ zs) ! k = ''bc1'' ! k" if "k < 3" for k zs
      by (subst nth_append) (use that in simp)
    ultimately have "(p @ c # q) ! List.length p = (p @ d # q) ! List.length p"
      unfolding assms(1,2) by (metis not_le)
    with \<open>c \<noteq> d\<close> show False by simp
  qed
  moreover define u where "u = drop 3 p"
  moreover have "px = drop 3 (p @ c # q)" "py = drop 3 (p @ d # q)" unfolding assms(1,2) by simp_all
  ultimately have p: "px = u @ c # q" "py = u @ d # q" by simp_all
  obtain pre i post where dx: "those (map (index_of bech32_charset) u) = Some pre" "index_of bech32_charset c = Some i"
    "those (map (index_of bech32_charset) q) = Some post" "dx = pre @ i # post"
    using assms(4) unfolding p list.map map_append those_append those_Cons by blast
  obtain j where dy: "index_of bech32_charset d = Some j" "dy = pre @ j # post"
    using assms(5) dx(1,3) unfolding p list.map map_append those_append those_Cons by auto
  have "i \<noteq> j" "i < 32" "j < 32"
    using dx(2) dy(1) \<open>c \<noteq> d\<close> index_of_nth [OF dx(2)] index_of_nth [OF dy(1)] by (auto simp: bech32_charset_def)
  with dx(4) dy(2) show ?thesis by blast
qed

text \<open>C32. The checksum catches every single wrong character: two accepted bech32 addresses that agree
  everywhere but in one place are the same address. A change of the witness version, which switches
  between the two checksum constants, is included.\<close>

theorem bech32_detects_substitution:
  assumes "validate_bech32 a = Inr (p @ c # q)" "validate_bech32 b = Inr (p @ d # q)"
  shows "c = d"
proof (rule ccontr)
  assume "c \<noteq> d"
  let ?pm = "\<lambda>data. bech32_polymod (bech32_hrp_expand ''bc'' @ data)"
  obtain px dx rx where x: "p @ c # q = ''bc1'' @ px" "those (map (index_of bech32_charset) px) = Some dx" "7 \<le> List.length px"
    "convert_bits (take (List.length dx - 7) (tl dx)) 5 8 = Inr rx"
    "dx ! 0 = 0 \<and> ?pm dx = 1 \<or> dx ! 0 = 1 \<and> ?pm dx = bech32m_const \<and> List.length rx = 32"
    by (rule bech32_accepted [OF assms(1)])
  obtain py dy ry where y: "p @ d # q = ''bc1'' @ py" "those (map (index_of bech32_charset) py) = Some dy" "7 \<le> List.length py"
    "convert_bits (take (List.length dy - 7) (tl dy)) 5 8 = Inr ry"
    "dy ! 0 = 0 \<and> ?pm dy = 1 \<or> dy ! 0 = 1 \<and> ?pm dy = bech32m_const \<and> List.length ry = 32"
    by (rule bech32_accepted [OF assms(2)])
  obtain pre i j post where d: "dx = pre @ i # post" "dy = pre @ j # post" "i \<noteq> j" "i < 32" "j < 32"
    using substituted_data [OF x(1) y(1) \<open>c \<noteq> d\<close> x(2) y(2)] by blast
  have pm: "?pm (pre @ k # post) = foldl polymod_step 1 ((bech32_hrp_expand ''bc'' @ pre) @ k # post)" for k
    by (simp add: bech32_polymod_def)
  have diff: "?pm dx XOR ?pm dy = foldl polymod_step (i XOR j) (replicate (List.length post) 0)"
    unfolding d(1,2) pm by (rule polymod_difference)
  have "foldl polymod_step (i XOR j) (replicate (List.length post) 0) \<noteq> 0"
    by (rule zeros_nonzero [OF small_xor [OF d(4,5)]]) (simp only: xor_zero_iff d(3) not_False_eq_True)
  with diff have ne: "?pm dx \<noteq> ?pm dy" by (metis xor_self_eq)
  have small: "\<forall>k \<in> set dx. k < 32" "\<forall>k \<in> set dy. k < 32"
    using those_index_set [OF x(2)] those_index_set [OF y(2)] by (simp_all add: length_charset)
  have len: "List.length dx = List.length dy" "7 \<le> List.length dx" "7 \<le> List.length dy"
    using x(3) y(3) those_length [OF x(2)] those_length [OF y(2)] by (simp_all add: d(1,2))
  have vers: "dx ! 0 = 0 \<and> dy ! 0 = 1 \<and> List.length dx = 59 \<or> dx ! 0 = 1 \<and> dy ! 0 = 0 \<and> List.length dx = 59"
    using ne x(5) y(5) taproot_data_length [OF x(4) _ len(2) small(1)] taproot_data_length [OF y(4) _ len(3) small(2)] len(1)
    by auto
  then have "pre = []" by (cases pre) (auto simp: d(1,2))
  with vers have "i XOR j = 1" "List.length post = 58" by (auto simp: d(1,2))
  with diff have "?pm dx XOR ?pm dy = foldl polymod_step 1 (replicate 58 0)" by simp
  moreover have "?pm dx XOR ?pm dy = 0x2BC830A2" using vers x(5) y(5) by (auto simp: bech32m_const_def)
  ultimately show False using versions_differ by simp
qed

text \<open>The BIP-173 example address, evaluated piece by piece.\<close>

lemma polymod_step_div:
  "polymod_step c v = ((c mod 33554432 * 32) XOR v) XOR ((if odd (c div 33554432) then 0x3B6A57B2 else 0)
     XOR (if odd (c div 67108864) then 0x26508E6D else 0) XOR (if odd (c div 134217728) then 0x1EA119FA else 0)
     XOR (if odd (c div 268435456) then 0x3D4233DD else 0) XOR (if odd (c div 536870912) then 0x2A1462B3 else 0))"
proof -
  have "push_bit 5 (take_bit 25 c) = c mod 33554432 * 32" by (simp add: push_bit_eq_mult take_bit_eq_mod)
  then show ?thesis by (simp add: polymod_step_eq feedback_def sel_def bit_iff_odd xor.assoc)
qed

lemma example_values: "those (map (index_of bech32_charset) ''qw508d6qejxtdg4y5r3zarvary0c5xw7kv8f3t4'') = 
      Some [0, 14, 20, 15, 7, 13, 26, 0, 25, 18, 6, 11, 13, 8, 21, 4, 20, 3, 17, 2, 29, 3, 12, 29, 3, 4, 15, 24, 20, 6, 14, 30, 22, 12, 7, 9, 17, 11, 21]"
  by (simp add: bech32_charset_def)

lemma example_hrp: "bech32_hrp_expand ''bc'' = [3, 3, 0, 2, 3]" by (simp add: bech32_hrp_expand_def take_bit_eq_mod flip: take_bit_eq_mask)

lemma example_polymod: "bech32_polymod ([3,3,0,2,3] @ [0, 14, 20, 15, 7, 13, 26, 0, 25, 18, 6, 11, 13, 8, 21, 4, 20, 3, 17, 2, 29, 3, 12, 29, 3, 4, 15, 24, 20, 6, 14, 30, 22, 12, 7, 9, 17, 11, 21]) = 1"
  by (simp add: bech32_polymod_def polymod_step_div)

lemma example_split: "split_hrp ''bc1qw508d6qejxtdg4y5r3zarvary0c5xw7kv8f3t4'' = (''bc'', ''qw508d6qejxtdg4y5r3zarvary0c5xw7kv8f3t4'')"
  by (simp add: split_hrp_def)

lemma example_lower: "lower ''bc1qw508d6qejxtdg4y5r3zarvary0c5xw7kv8f3t4'' = ''bc1qw508d6qejxtdg4y5r3zarvary0c5xw7kv8f3t4''"
  by (simp add: lower_def to_lower_def is_upper_az_def Let_def)

lemma example_program: "convert_bits [14, 20, 15, 7, 13, 26, 0, 25, 18, 6, 11, 13, 8, 21, 4, 20, 3, 17, 2, 29, 3, 12, 29, 3, 4, 15, 24, 20, 6, 14, 30, 22] 5 8 = 
      Inr [117, 30, 118, 232, 25, 145, 150, 212, 84, 148, 28, 69, 209, 179, 163, 35, 241, 67, 59, 214]"
  by (subst convert_bits_regroups) (simp_all add: digits_value_def)

lemma validate_bech32_v0:
  assumes "lower address = address" "split_hrp address = (''bc'', part)"
    "those (map (index_of bech32_charset) part) = Some (0 # data)" "7 \<le> List.length part"
    "bech32_polymod (bech32_hrp_expand ''bc'' @ 0 # data) = 1"
    "convert_bits (take (List.length data - 6) data) 5 8 = Inr program" "List.length program = 20"
  shows "validate_bech32 address = Inr address"
  using assms by (simp add: validate_bech32_def Let_def check_program_def)

lemma example_accepted:
  "validate_bech32 ''bc1qw508d6qejxtdg4y5r3zarvary0c5xw7kv8f3t4'' = Inr ''bc1qw508d6qejxtdg4y5r3zarvary0c5xw7kv8f3t4''"
proof (rule validate_bech32_v0 [OF example_lower example_split example_values])
  show "bech32_polymod (bech32_hrp_expand ''bc'' @ [0, 14, 20, 15, 7, 13, 26, 0, 25, 18, 6, 11, 13, 8, 21, 4, 20, 3, 17, 2, 29, 3, 12, 29, 3, 4, 15, 24, 20, 6, 14, 30, 22, 12, 7, 9, 17, 11, 21]) = 1"
    unfolding example_hrp by (rule example_polymod)
qed (simp_all add: example_program, simp)

lemma bech32_detects_substitution_witness:
  "validate_bech32 ''bc1qx508d6qejxtdg4y5r3zarvary0c5xw7kv8f3t4'' \<noteq> Inr ''bc1qx508d6qejxtdg4y5r3zarvary0c5xw7kv8f3t4''"
proof
  assume "validate_bech32 ''bc1qx508d6qejxtdg4y5r3zarvary0c5xw7kv8f3t4'' = Inr ''bc1qx508d6qejxtdg4y5r3zarvary0c5xw7kv8f3t4''"
  then have "validate_bech32 ''bc1qx508d6qejxtdg4y5r3zarvary0c5xw7kv8f3t4'' = Inr (''bc1q'' @ CHR ''x'' # ''508d6qejxtdg4y5r3zarvary0c5xw7kv8f3t4'')"
    by simp
  moreover have "validate_bech32 ''bc1qw508d6qejxtdg4y5r3zarvary0c5xw7kv8f3t4'' = Inr (''bc1q'' @ CHR ''w'' # ''508d6qejxtdg4y5r3zarvary0c5xw7kv8f3t4'')"
    using example_accepted by simp
  ultimately have "CHR ''w'' = CHR ''x''" using bech32_detects_substitution by blast
  then show False by simp
qed

section \<open>Base58: different texts, different bytes\<close>

lemma digits_value_lower:
  assumes "ds \<noteq> []" "hd ds \<noteq> 0" "0 < b"
  shows "b ^ (List.length ds - 1) \<le> digits_value b ds"
  using assms
proof (induction ds rule: rev_induct)
  case (snoc d ds)
  show ?case
  proof (cases "ds = []")
    case False
    then have "b ^ (List.length ds - 1) * b \<le> digits_value b ds * b"
      using snoc by (intro mult_le_mono1) simp
    moreover have "b ^ List.length ds = b ^ (List.length ds - 1) * b"
      using False by (metis power_minus_mult length_greater_0_conv)
    ultimately have "b ^ List.length ds \<le> digits_value b ds * b + d" by linarith
    then show ?thesis by simp
  qed (use snoc.prems in \<open>simp add: digits_value_def\<close>)
qed simp

text \<open>Digit strings without a leading zero are determined by their value.\<close>

lemma digits_value_canonical:
  assumes "1 < b" "\<forall>d \<in> set ds. d < b" "\<forall>e \<in> set es. e < b" "digits_value b ds = digits_value b es"
    "ds = [] \<or> hd ds \<noteq> 0" "es = [] \<or> hd es \<noteq> 0"
  shows "ds = es"
proof -
  have le: "List.length xs \<le> List.length ys" if "xs = [] \<or> hd xs \<noteq> 0" "\<forall>d \<in> set ys. d < b"
    "digits_value b xs = digits_value b ys" for xs ys
  proof (cases "xs = []")
    case False
    then have "b ^ (List.length xs - 1) \<le> digits_value b ys"
      using digits_value_lower [of xs b] that assms(1) by simp
    then have "b ^ (List.length xs - 1) < b ^ List.length ys"
      using digits_value_bound [OF that(2)] by (rule le_less_trans)
    then have "List.length xs - 1 < List.length ys" by (rule power_less_imp_less_exp [OF assms(1)])
    then show ?thesis by simp
  qed simp
  show ?thesis using le [of ds es] le [of es ds] assms by (intro digits_value_inj) auto
qed

lemma be_bytes_0 [simp]: "be_bytes 0 = []"
  by (simp add: be_bytes.simps)

lemma be_bytes_pos: "n \<noteq> 0 \<Longrightarrow> be_bytes n = be_bytes (n div 256) @ [of_nat (n mod 256)]"
  by (subst be_bytes.simps) simp

lemma be_bytes_value:
  "digits_value 256 (map unat (be_bytes n)) = n \<and> (be_bytes n = [] \<or> hd (be_bytes n) \<noteq> 0)"
proof (induction n rule: be_bytes.induct)
  case (1 n)
  show ?case
  proof (cases "n = 0")
    case False
    have u: "unat (of_nat (n mod 256) :: byte) = n mod 256" by (simp add: unat_of_nat take_bit_eq_mod)
    have v: "digits_value 256 (map unat (be_bytes n)) = n"
      using 1 False by (simp add: u be_bytes_pos)
    have "hd (be_bytes n) \<noteq> 0"
    proof (cases "n div 256 = 0")
      case True
      then have "n mod 256 \<noteq> 0" using False div_mult_mod_eq [of n 256] by simp
      then have "(of_nat (n mod 256) :: byte) \<noteq> 0" using u by (metis unat_0)
      with True False show ?thesis by (simp add: be_bytes_pos)
    next
      case f: False
      then have "be_bytes (n div 256) \<noteq> []" using be_bytes_pos [OF f] by simp
      with 1 False show ?thesis by (simp add: be_bytes_pos [OF False])
    qed
    with v show ?thesis by simp
  qed simp
qed

lemma be_bytes_inj: "be_bytes m = be_bytes n \<Longrightarrow> m = n"
  by (metis be_bytes_value)

lemma base58_number_digits:
  "base58_number acc cs = Inr n \<Longrightarrow>
   \<exists>ds. those (map (index_of base58_alphabet) cs) = Some ds \<and> n = foldl (\<lambda>n d. n * 58 + d) acc ds"
proof (induction cs arbitrary: acc)
  case (Cons c cs)
  then obtain i where i: "index_of base58_alphabet c = Some i" "base58_number (acc * 58 + i) cs = Inr n"
    by (auto split: option.splits)
  from Cons.IH [OF i(2)] i(1) show ?case by auto
qed simp

lemma length_alphabet: "List.length base58_alphabet = 58"
  by (simp add: base58_alphabet_def)

lemma index_of_one: "index_of base58_alphabet c = Some 0 \<longleftrightarrow> c = CHR ''1''"
  using index_of_nth [of base58_alphabet c 0] by (auto simp: base58_alphabet_def)

lemma those_index_inj:
  "those (map (index_of s) as) = Some ds \<Longrightarrow> those (map (index_of s) bs) = Some ds \<Longrightarrow> as = bs"
proof (induction as arbitrary: bs ds)
  case Nil
  then show ?case using those_length [OF Nil(2)] by simp
next
  case (Cons a as)
  then have "List.length bs = Suc (List.length as)" using those_length [OF Cons.prems(1)] those_length [OF Cons.prems(2)] by simp
  then obtain b bs' where bs: "bs = b # bs'" by (cases bs) auto
  obtain i ds' where "index_of s a = Some i" "index_of s b = Some i"
    "those (map (index_of s) as) = Some ds'" "those (map (index_of s) bs') = Some ds'"
    using Cons.prems unfolding bs list.map those_Cons by blast
  with Cons.IH index_of_nth show ?case unfolding bs by blast
qed

text \<open>The leading ones of an accepted text, and the digits after them.\<close>

lemma base58_decode_parts:
  assumes "base58_decode t = Inr bs"
  obtains ds where "those (map (index_of base58_alphabet) (dropWhile (\<lambda>c. c = CHR ''1'') t)) = Some ds"
    "ds = [] \<or> hd ds \<noteq> 0" "\<forall>d \<in> set ds. d < 58"
    "bs = replicate (List.length (takeWhile (\<lambda>c. c = CHR ''1'') t)) 0 @ be_bytes (digits_value 58 ds)"
proof -
  let ?ones = "takeWhile (\<lambda>c. c = CHR ''1'') t" and ?rest = "dropWhile (\<lambda>c. c = CHR ''1'') t"
  obtain n where n: "base58_number 0 t = Inr n" using assms by (auto simp: base58_decode_def split: sum.splits)
  obtain all where all: "those (map (index_of base58_alphabet) (?ones @ ?rest)) = Some all"
    "n = foldl (\<lambda>n d. n * 58 + d) 0 all"
    using base58_number_digits [OF n] by (metis takeWhile_dropWhile_id)
  then obtain us ds where ud: "those (map (index_of base58_alphabet) ?ones) = Some us"
    "those (map (index_of base58_alphabet) ?rest) = Some ds" "all = us @ ds"
    unfolding map_append those_append by blast
  have "those (map (index_of base58_alphabet) (replicate k (CHR ''1''))) = Some (replicate k 0)" for k
    by (induction k) (auto simp: base58_alphabet_def)
  moreover have "?ones = replicate (List.length ?ones) (CHR ''1'')"
    by (rule replicate_length_same [symmetric]) (auto dest: set_takeWhileD)
  ultimately have "us = replicate (List.length ?ones) 0" using ud(1) by (metis option.inject)
  moreover have "foldl (\<lambda>n d. n * 58 + d) 0 (replicate k 0) = (0::nat)" for k by (induction k) auto
  ultimately have "n = digits_value 58 ds" by (simp add: all(2) ud(3) digits_value_def)
  moreover have "ds = [] \<or> hd ds \<noteq> 0"
  proof (cases ?rest)
    case (Cons c cs)
    then have "c \<noteq> CHR ''1''" using hd_dropWhile [of "\<lambda>c. c = CHR ''1''" t] by auto
    moreover obtain u us' where "index_of base58_alphabet c = Some u" "ds = u # us'"
      using ud(2) unfolding Cons list.map those_Cons by blast
    ultimately show ?thesis using index_of_one [of c] by (cases u) auto
  next
    case Nil
    show ?thesis using ud(2) unfolding Nil by simp
  qed
  moreover have "\<forall>d \<in> set ds. d < 58" using those_index_set [OF ud(2)] by (simp add: length_alphabet)
  ultimately show ?thesis using that ud(2) assms n by (simp add: base58_decode_def)
qed

lemma replicate_zero_split:
  fixes xs ys :: "byte list"
  assumes "replicate m 0 @ xs = replicate n 0 @ ys" "xs = [] \<or> hd xs \<noteq> 0" "ys = [] \<or> hd ys \<noteq> 0"
  shows "m = n \<and> xs = ys"
  using assms
proof (induction m arbitrary: n)
  case 0
  then show ?case by (cases n) auto
next
  case (Suc m)
  then show ?case by (cases n) auto
qed

text \<open>Base58 decoding is injective: two texts that decode to the same bytes are the same text, so an
  account has exactly one spelling.\<close>

theorem base58_decode_injective:
  assumes "base58_decode s = Inr bs" "base58_decode t = Inr bs"
  shows "s = t"
proof -
  obtain ds where s: "those (map (index_of base58_alphabet) (dropWhile (\<lambda>c. c = CHR ''1'') s)) = Some ds"
    "ds = [] \<or> hd ds \<noteq> 0" "\<forall>d \<in> set ds. d < 58"
    "bs = replicate (List.length (takeWhile (\<lambda>c. c = CHR ''1'') s)) 0 @ be_bytes (digits_value 58 ds)"
    by (rule base58_decode_parts [OF assms(1)])
  obtain es where t: "those (map (index_of base58_alphabet) (dropWhile (\<lambda>c. c = CHR ''1'') t)) = Some es"
    "es = [] \<or> hd es \<noteq> 0" "\<forall>d \<in> set es. d < 58"
    "bs = replicate (List.length (takeWhile (\<lambda>c. c = CHR ''1'') t)) 0 @ be_bytes (digits_value 58 es)"
    by (rule base58_decode_parts [OF assms(2)])
  have eq: "List.length (takeWhile (\<lambda>c. c = CHR ''1'') s) = List.length (takeWhile (\<lambda>c. c = CHR ''1'') t)"
    "be_bytes (digits_value 58 ds) = be_bytes (digits_value 58 es)"
    using replicate_zero_split [OF s(4) [unfolded t(4), symmetric]] be_bytes_value by auto
  have "ds = es" using be_bytes_inj [OF eq(2)] s(2,3) t(2,3) by (intro digits_value_canonical [of 58]) auto
  then have "dropWhile (\<lambda>c. c = CHR ''1'') s = dropWhile (\<lambda>c. c = CHR ''1'') t" using those_index_inj s(1) t(1) by metis
  moreover have ones: "takeWhile (\<lambda>c. c = CHR ''1'') u = replicate (List.length (takeWhile (\<lambda>c. c = CHR ''1'') u)) (CHR ''1'')" for u
    by (rule replicate_length_same [symmetric]) (auto dest: set_takeWhileD)
  ultimately show ?thesis using eq(1) ones [of s] ones [of t] by (metis takeWhile_dropWhile_id)
qed

lemma base58_decode_injective_witness:
  "base58_decode ''112'' = Inr [0, 0, 1] \<and> base58_decode ''12'' \<noteq> Inr [0, 0, 1]"
proof -
  have d: "base58_decode ''112'' = Inr [0, 0, 1]"
    by (simp add: base58_decode_def base58_alphabet_def be_bytes.simps)
  have "base58_decode ''12'' \<noteq> Inr [0, 0, 1]"
    using base58_decode_injective [OF d, of "''12''"] by auto
  with d show ?thesis by simp
qed

section \<open>Normal forms\<close>

lemma char_cases_upper_lower: "to_lower (to_upper c) = to_lower c \<and> to_lower (to_lower c) = to_lower c"
proof -
  have k: "to_lower (char_of n) = (if 65 \<le> n mod 256 \<and> n mod 256 \<le> 90 then char_of (n mod 256 + 32) else char_of n)" for n :: nat
    by (simp add: to_lower_def is_upper_az_def Let_def)
  obtain n :: nat where n: "c = char_of n" "n < 256" by (rule that [of "of_char c"]) simp_all
  have "to_upper c = (if 97 \<le> n \<and> n \<le> 122 then char_of (n - 32) else c)"
    using n by (simp add: to_upper_def is_lower_az_def Let_def)
  then show ?thesis using n by (auto simp: k)
qed

lemma lower_lower [simp]: "lower (lower s) = lower s"
  by (simp add: lower_def char_cases_upper_lower)

lemma length_lower [simp]: "List.length (lower s) = List.length s"
  by (simp add: lower_def)

lemma lower_eip55_body: "lower (eip55_body b) = lower b"
  unfolding lower_def eip55_body_def Let_def
  by (rule nth_equalityI) (auto simp: char_cases_upper_lower)

lemma length_eip55_body: "List.length (eip55_body b) = List.length b"
  by (simp add: eip55_body_def Let_def)

lemma hex_upper: "c \<in> set hex_digits \<Longrightarrow> to_upper c \<in> set hex_digits \<and> to_lower c \<in> set hex_digits"
proof -
  have "list_all (\<lambda>c. to_upper c \<in> set hex_digits \<and> to_lower c \<in> set hex_digits) hex_digits" by code_simp
  then show "c \<in> set hex_digits \<Longrightarrow> ?thesis" by (simp add: list_all_iff)
qed

lemma hex_eip55_body: "set b \<subseteq> set hex_digits \<Longrightarrow> set (eip55_body b) \<subseteq> set hex_digits"
proof
  fix c
  assume b: "set b \<subseteq> set hex_digits" and "c \<in> set (eip55_body b)"
  then obtain i where i: "i < List.length b" "c = b ! i \<or> c = to_upper (b ! i)"
    by (auto simp: eip55_body_def Let_def set_zip)
  then have "b ! i \<in> set hex_digits" using b nth_mem by blast
  with i(2) hex_upper show "c \<in> set hex_digits" by blast
qed

lemma evm_branches:
  "(if \<not> s then Inl e1 else if \<not> l then Inl e2 else if \<not> h then Inl e3 else if p \<or> q then Inr c
    else if \<not> d then Inl e4 else Inr c) = Inr n \<longleftrightarrow> s \<and> l \<and> h \<and> (p \<or> q \<or> d) \<and> n = c"
  by (cases s; cases l; cases h; cases p; cases q; cases d; simp add: eq_commute [of c])

lemma validate_evm_iff:
  "validate_evm a = Inr n \<longleftrightarrow> startswith a ''0x'' \<and> List.length (drop 2 a) = 40 \<and> set (drop 2 a) \<subseteq> set hex_digits
     \<and> (drop 2 a = lower (drop 2 a) \<or> drop 2 a = upper (drop 2 a) \<or> a = eip55_checksum (lower (drop 2 a)))
     \<and> n = eip55_checksum (lower (drop 2 a))"
  unfolding validate_evm_def Let_def by (rule evm_branches)

lemma check_program_lower: "check_program a c v p = Inr n \<Longrightarrow> check_program (lower a) c v p = Inr n"
  by (auto simp: check_program_def split: if_splits)

lemma validate_bech32_lower:
  assumes "validate_bech32 a = Inr n"
  shows "validate_bech32 (lower a) = Inr n"
proof -
  obtain hrp part where sp: "split_hrp (lower a) = (hrp, part)" by fastforce
  have hrp: "hrp = ''bc''" and len: "\<not> List.length part < 7"
    using assms by (auto simp: validate_bech32_def sp split: if_splits)
  obtain data where data: "those (map (index_of bech32_charset) part) = Some data"
    using assms hrp len by (auto simp: validate_bech32_def sp split: if_splits option.splits)
  obtain program where program: "convert_bits (take (List.length data - 7) (tl data)) 5 8 = Inr program"
    using assms hrp len data by (auto simp: validate_bech32_def sp Let_def split: if_splits sum.splits)
  have "check_program a (bech32_polymod (bech32_hrp_expand ''bc'' @ data)) (data ! 0) program = Inr n"
    using assms hrp len data program by (simp add: validate_bech32_def sp Let_def split: if_splits)
  from check_program_lower [OF this] hrp len data program show ?thesis
    by (simp add: validate_bech32_def sp Let_def)
qed

lemma validate_btc_idempotent:
  assumes "validate_btc a = Inr n"
  shows "validate_btc n = Inr n"
proof (cases "startswith (lower a) ''bc1''")
  case True
  then have v: "validate_bech32 a = Inr n" using assms by (simp add: validate_btc_def split: if_splits)
  then have "n = lower a" by (rule bech32_accepted)
  with validate_bech32_lower [OF v] True show ?thesis by (auto simp: validate_btc_def)
next
  case False
  then have "n = a" using assms
    by (auto simp: validate_btc_def validate_base58check_def Let_def split: if_splits sum.splits)
  with assms show ?thesis by simp
qed

text \<open>Normalizing is idempotent in every family: what \<open>validate_address\<close> returns it accepts and
  returns unchanged, so a stored address compares equal to itself typed again.\<close>

theorem validate_address_idempotent:
  assumes "validate_address f a = Inr n"
  shows "validate_address f n = Inr n"
proof -
  consider (evm) "f = ''evm''" "validate_evm a = Inr n"
    | (btc) "f = ''btc''" "validate_btc a = Inr n" | (solana) "f = ''solana''" "validate_solana a = Inr n"
    using assms by (auto simp: validate_address_def split: if_splits)
  then show ?thesis
  proof cases
    case evm
    then have n: "n = eip55_checksum (lower (drop 2 a))" "List.length (drop 2 a) = 40" "set (drop 2 a) \<subseteq> set hex_digits"
      unfolding validate_evm_iff by blast+
    have d: "drop 2 n = eip55_body (lower (drop 2 a))" by (simp add: n(1) eip55_checksum_def)
    have "set (lower (drop 2 a)) \<subseteq> set hex_digits" using n(3) hex_upper by (auto simp: lower_def)
    from hex_eip55_body [OF this] have "validate_evm n = Inr n"
      unfolding validate_evm_iff d lower_eip55_body
      using n(2) by (simp add: n(1) eip55_checksum_def length_eip55_body)
    with evm show ?thesis by (simp add: validate_address_def)
  next
    case btc
    then have "validate_btc n = Inr n"
      by (simp add: validate_btc_idempotent)
    with btc show ?thesis by (simp add: validate_address_def)
  next
    case solana
    then have "n = a" by (auto simp: validate_solana_def split: if_splits sum.splits)
    with solana show ?thesis by (simp add: validate_address_def)
  qed
qed

text \<open>EVM addresses that differ only in the case of their letters have one normal form, and it spells
  the same twenty bytes: two accepted spellings agree but for letter case exactly when they normalize to the same string.\<close>

theorem evm_normal_form_unique:
  assumes "validate_evm a = Inr m" "validate_evm b = Inr n"
  shows "m = n \<longleftrightarrow> lower a = lower b"
proof -
  have low: "lower z = ''0x'' @ lower (drop 2 z)" if "startswith z ''0x''" for z
    using that by (auto simp: startswith_iff lower_def to_lower_def is_upper_az_def)
  have m: "m = eip55_checksum (lower (drop 2 a))" "startswith a ''0x''"
    and n: "n = eip55_checksum (lower (drop 2 b))" "startswith b ''0x''"
    using assms unfolding validate_evm_iff by blast+
  have "lower (drop 2 a) = lower (drop 2 b)" if "m = n"
    using arg_cong [OF that, of "\<lambda>z. lower (drop 2 z)"] by (simp add: m(1) n(1) eip55_checksum_def lower_eip55_body)
  then show ?thesis using low [OF m(2)] low [OF n(2)] m(1) n(1) by auto
qed

lemma base58_ones: "k \<le> 32 \<Longrightarrow> base58_number 0 (replicate k (CHR ''1'')) = Inr 0"
  by (induction k) (auto simp: base58_alphabet_def)

lemma validate_address_idempotent_witness:
  "validate_address ''solana'' (replicate 32 (CHR ''1'')) = Inr (replicate 32 (CHR ''1''))"
proof -
  have "validate_address ''solana'' (replicate 32 (CHR ''1'')) = Inr (replicate 32 (CHR ''1''))"
    by (simp add: validate_address_def validate_solana_def base58_decode_def base58_ones)
  then show ?thesis by (rule validate_address_idempotent)
qed

lemma evm_normal_form_unique_witness:
  "validate_evm (''0x'' @ replicate 40 (CHR ''a'')) = validate_evm (''0x'' @ replicate 40 (CHR ''A''))"
proof -
  let ?l = "''0x'' @ replicate 40 (CHR ''a'')" and ?u = "''0x'' @ replicate 40 (CHR ''A'')"
  have ch: "to_lower (CHR ''A'') = CHR ''a''" "to_lower (CHR ''a'') = CHR ''a''" "to_upper (CHR ''A'') = CHR ''A''" by code_simp+
  have low: "lower (replicate 40 (CHR ''A'')) = replicate 40 (CHR ''a'')" "lower (replicate 40 (CHR ''a'')) = replicate 40 (CHR ''a'')"
    "upper (replicate 40 (CHR ''A'')) = replicate 40 (CHR ''A'')"
    by (simp_all add: lower_def upper_def ch)
  have l: "validate_evm ?l = Inr (eip55_checksum (replicate 40 (CHR ''a'')))"
    unfolding validate_evm_iff by (simp add: low hex_digits_def)
  have u: "validate_evm ?u = Inr (eip55_checksum (replicate 40 (CHR ''a'')))"
    unfolding validate_evm_iff by (simp add: low hex_digits_def)
  have "lower ?l = lower ?u" using evm_normal_form_unique [OF l u] by simp
  with l u show ?thesis by simp
qed

end
