(* ===== verification/Registry.thy ===== *)
theory Registry
  imports Validation
begin

text \<open>
  \<open>wallets/registry.py\<close>: the wallet list kept in \<open>wallets.json\<close>. The file is what loading it yields:
  absent, not a registry document (bad JSON or a failed schema check), or a document, which here is its
  list of wallets; saving writes the document back, and replacing the file is atomic. Case folding is
  the ASCII one, as every stored address is ASCII.
\<close>

record wallet =
  w_family :: string
  w_address :: string
  w_label :: "string option"
  w_included :: bool
  w_added_at :: instant

datatype registry_file = NoFile | CorruptFile | Document "wallet list"

datatype registry_error =
    BadAddress address_error
  | CorruptRegistry
  | DuplicateWallet string string
  | DuplicateLabel string string
  | OneSelector
  | NoMatch "string option" "string option" "string list"
  | AmbiguousSelector

section \<open>Operations\<close>

definition load :: "registry_file \<Rightarrow> registry_error + wallet list" where
  "load doc = (case doc of NoFile \<Rightarrow> Inr [] | CorruptFile \<Rightarrow> Inl CorruptRegistry | Document ws \<Rightarrow> Inr ws)"

definition save :: "wallet list \<Rightarrow> registry_file" where
  "save ws = Document ws"

definition list_wallets :: "registry_file \<Rightarrow> registry_error + wallet list" where
  "list_wallets doc = load doc"

text \<open>The loop over the stored wallets before an addition: the first conflict is raised.\<close>

fun conflict :: "string \<Rightarrow> string \<Rightarrow> string option \<Rightarrow> wallet list \<Rightarrow> registry_error option" where
  "conflict family normalized label [] = None"
| "conflict family normalized label (w # ws) =
     (if w_family w = family \<and> w_address w = normalized then Some (DuplicateWallet family normalized)
      else if label \<noteq> None \<and> w_label w = label then Some (DuplicateLabel (the label) (w_address w))
      else conflict family normalized label ws)"

definition add_wallet :: "string \<Rightarrow> string \<Rightarrow> string option \<Rightarrow> instant \<Rightarrow> registry_file
    \<Rightarrow> (registry_error + wallet) \<times> registry_file" where
  "add_wallet family address label now doc =
     (case validate_address family address of Inl e \<Rightarrow> (Inl (BadAddress e), doc)
      | Inr normalized \<Rightarrow>
        case load doc of Inl e \<Rightarrow> (Inl e, doc)
        | Inr ws \<Rightarrow>
          case conflict family normalized label ws of Some e \<Rightarrow> (Inl e, doc)
          | None \<Rightarrow>
            let w = \<lparr>w_family = family, w_address = normalized, w_label = label, w_included = True, w_added_at = now\<rparr>
            in (Inr w, save (ws @ [w])))"

text \<open>The selected wallet is an object of the document: its position.\<close>

definition matches :: "string option \<Rightarrow> string option \<Rightarrow> wallet \<Rightarrow> bool" where
  "matches address label w =
     (case label of Some l \<Rightarrow> w_label w = Some l
      | None \<Rightarrow> (case address of Some a \<Rightarrow> lower (w_address w) = lower a | None \<Rightarrow> False))"

definition known :: "wallet list \<Rightarrow> string list" where
  "known ws = (if ws = [] then [''(registry empty)'']
     else map (\<lambda>w. case w_label w of Some (c # l) \<Rightarrow> c # l | _ \<Rightarrow> w_address w) ws)"

definition select :: "wallet list \<Rightarrow> string option \<Rightarrow> string option \<Rightarrow> registry_error + nat" where
  "select ws address label =
     (if (address = None) = (label = None) then Inl OneSelector
      else case filter (\<lambda>i. matches address label (ws ! i)) [0..<List.length ws] of
        [] \<Rightarrow> Inl (NoMatch address label (known ws))
      | [i] \<Rightarrow> Inr i
      | _ \<Rightarrow> Inl AmbiguousSelector)"

definition remove_wallet :: "string option \<Rightarrow> string option \<Rightarrow> registry_file
    \<Rightarrow> (registry_error + wallet) \<times> registry_file" where
  "remove_wallet address label doc =
     (case load doc of Inl e \<Rightarrow> (Inl e, doc)
      | Inr ws \<Rightarrow> case select ws address label of Inl e \<Rightarrow> (Inl e, doc)
        | Inr i \<Rightarrow> (Inr (ws ! i), save (take i ws @ drop (Suc i) ws)))"

definition set_included :: "bool \<Rightarrow> string option \<Rightarrow> string option \<Rightarrow> registry_file
    \<Rightarrow> (registry_error + wallet) \<times> registry_file" where
  "set_included included address label doc =
     (case load doc of Inl e \<Rightarrow> (Inl e, doc)
      | Inr ws \<Rightarrow> case select ws address label of Inl e \<Rightarrow> (Inl e, doc)
        | Inr i \<Rightarrow> (Inr ((ws ! i)\<lparr>w_included := included\<rparr>), save (ws[i := (ws ! i)\<lparr>w_included := included\<rparr>])))"

section \<open>Histories\<close>

datatype registry_op =
    AddWallet string string "string option" instant
  | RemoveWallet "string option" "string option"
  | SetIncluded bool "string option" "string option"

fun registry_step :: "registry_op \<Rightarrow> registry_file \<Rightarrow> registry_file" where
  "registry_step (AddWallet f a l t) doc = snd (add_wallet f a l t doc)"
| "registry_step (RemoveWallet a l) doc = snd (remove_wallet a l doc)"
| "registry_step (SetIncluded b a l) doc = snd (set_included b a l doc)"

text \<open>A well-formed registry: every address is a normal form of its family, no address is there twice
  in its family, no label twice.\<close>

definition account_of :: "wallet \<Rightarrow> string \<times> string" where
  "account_of w = (w_family w, w_address w)"

definition registry_ok :: "wallet list \<Rightarrow> bool" where
  "registry_ok ws \<longleftrightarrow>
     (\<forall>w \<in> set ws. validate_address (w_family w) (w_address w) = Inr (w_address w))
     \<and> distinct (map account_of ws)
     \<and> distinct (filter (\<lambda>l. l \<noteq> None) (map w_label ws))"

definition file_ok :: "registry_file \<Rightarrow> bool" where
  "file_ok doc = (case doc of Document ws \<Rightarrow> registry_ok ws | _ \<Rightarrow> True)"

lemma conflict_None:
  "conflict f n l ws = None \<longleftrightarrow> (f, n) \<notin> account_of ` set ws \<and> (l = None \<or> l \<notin> w_label ` set ws)"
  by (induction ws) (auto simp: account_of_def)

lemma add_keeps: "file_ok doc \<Longrightarrow> file_ok (snd (add_wallet f a l t doc))"
proof (cases "validate_address f a")
  case (Inr n)
  assume ok: "file_ok doc"
  have n: "validate_address f n = Inr n" using Inr by (rule validate_address_idempotent)
  have "registry_ok (ws @ [w])"
    if "registry_ok ws" "conflict f n l ws = None" "w = \<lparr>w_family = f, w_address = n, w_label = l, w_included = True, w_added_at = t\<rparr>"
    for ws w
    using that n by (auto simp: registry_ok_def conflict_None account_of_def)
  with ok Inr show ?thesis
    by (cases doc) (auto simp: add_wallet_def load_def save_def file_ok_def Let_def registry_ok_def conflict_None n account_of_def split: option.split)
qed (simp add: add_wallet_def)

lemma distinct_drop_one: "distinct (filter P (xs @ ys @ zs)) \<Longrightarrow> distinct (filter P (xs @ zs))"
  by auto

lemma remove_ok: "registry_ok ws \<Longrightarrow> registry_ok (take i ws @ drop (Suc i) ws)"
proof -
  assume ok: "registry_ok ws"
  have ws: "ws = take i ws @ take 1 (drop i ws) @ drop (Suc i) ws"
    by (metis append_take_drop_id drop_drop plus_1_eq_Suc)
  have "registry_ok (xs @ zs)" if "registry_ok (xs @ ys @ zs)" for xs ys zs
    using that by (auto simp: registry_ok_def)
  then show ?thesis using ok ws by metis
qed

lemma include_ok: "registry_ok ws \<Longrightarrow> registry_ok (ws[i := (ws ! i)\<lparr>w_included := b\<rparr>])"
proof (cases "i < List.length ws")
  case True
  assume ok: "registry_ok ws"
  let ?w = "(ws ! i)\<lparr>w_included := b\<rparr>"
  have "account_of ?w = account_of (ws ! i)" by (simp add: account_of_def)
  then have "map account_of (ws[i := ?w]) = map account_of ws" "map w_label (ws[i := ?w]) = map w_label ws"
    using True by (simp_all add: map_update list_update_same_conv)
  moreover have "set (ws[i := ?w]) \<subseteq> insert ?w (set ws)" by (rule set_update_subset_insert)
  ultimately show ?thesis using ok True by (auto simp: registry_ok_def)
qed (simp add: list_update_beyond)

lemma registry_ok_Nil [simp]: "registry_ok []"
  by (simp add: registry_ok_def)

interpretation registry: machine registry_step "\<lambda>_ _. True" file_ok
proof
  fix doc e
  assume ok: "file_ok doc"
  show "file_ok (registry_step e doc)"
  proof (cases e)
    case (AddWallet f a l t)
    with ok add_keeps show ?thesis by simp
  next
    case (RemoveWallet a l)
    with ok show ?thesis
      by (cases doc) (auto simp: remove_wallet_def load_def save_def file_ok_def intro: remove_ok split: sum.split)
  next
    case (SetIncluded b a l)
    with ok show ?thesis
      by (cases doc) (auto simp: set_included_def load_def save_def file_ok_def intro: include_ok split: sum.split)
  qed
qed

lemma distinct_filter_position:
  "distinct (filter P xs) \<Longrightarrow> i < List.length xs \<Longrightarrow> j < List.length xs \<Longrightarrow> xs ! i = xs ! j \<Longrightarrow> P (xs ! i) \<Longrightarrow> i = j"
proof (induction xs arbitrary: i j)
  case (Cons x xs)
  show ?case
  proof (cases i; cases j)
    fix i' j'
    assume "i = Suc i'" "j = Suc j'"
    with Cons show ?thesis by (auto split: if_splits)
  next
    fix j'
    assume "i = 0" "j = Suc j'"
    with Cons.prems nth_mem [of j' xs] show ?thesis by auto
  next
    fix i'
    assume "i = Suc i'" "j = 0"
    with Cons.prems nth_mem [of i' xs] show ?thesis by auto
  qed simp
qed simp

lemma distinct_all_equal: "distinct xs \<Longrightarrow> (\<And>x y. x \<in> set xs \<Longrightarrow> y \<in> set xs \<Longrightarrow> x = y) \<Longrightarrow> List.length xs \<le> 1"
proof (cases xs)
  case (Cons x ys)
  assume d: "distinct xs" and eq: "\<And>x y. x \<in> set xs \<Longrightarrow> y \<in> set xs \<Longrightarrow> x = y"
  have "ys = []"
  proof (rule ccontr)
    assume "ys \<noteq> []"
    then obtain y where "y \<in> set ys" by (cases ys) auto
    with eq [of x y] d Cons show False by simp
  qed
  with Cons show ?thesis by simp
qed simp

lemma case_at_most_one:
  "List.length is \<le> 1 \<Longrightarrow> e \<noteq> a \<Longrightarrow> (case is of [] \<Rightarrow> Inl e | [i] \<Rightarrow> Inr i | _ \<Rightarrow> Inl a) \<noteq> Inl a"
  by (auto split: list.split)

lemma select_label_cases:
  assumes "List.length (filter (\<lambda>i. matches None (Some l) (ws ! i)) [0..<List.length ws]) \<le> 1"
  shows "select ws None (Some l) \<noteq> Inl AmbiguousSelector"
proof -
  have "((None :: string option) = None) = (Some l = None) \<longleftrightarrow> False" by simp
  then show ?thesis unfolding select_def by (simp only: if_False) (rule case_at_most_one [OF assms], simp)
qed

lemma admissible_True: "admissible (\<lambda>_ _. True) step es s"
  by (induction es arbitrary: s) auto

text \<open>C37. Whatever sequence of additions, removals and include/exclude switches is applied to a fresh
  registry, every stored address is the normal form of its family, no account is registered twice and
  no label is used twice; so a label selects at most one wallet.\<close>

theorem registry_stays_well_formed:
  assumes "list_wallets (run registry_step ops NoFile) = Inr ws"
  shows "registry_ok ws \<and> select ws None (Some l) \<noteq> Inl AmbiguousSelector"
proof -
  have "file_ok (run registry_step ops NoFile)"
    by (rule registry.run_inv) (simp_all add: file_ok_def admissible_True)
  with assms have ok: "registry_ok ws"
    by (cases "run registry_step ops NoFile") (auto simp: list_wallets_def load_def file_ok_def registry_ok_def)
  let ?hits = "filter (\<lambda>i. matches None (Some l) (ws ! i)) [0..<List.length ws]"
  have same: "i = j" if "i \<in> set ?hits" "j \<in> set ?hits" for i j
    using that ok distinct_filter_position [of "\<lambda>l. l \<noteq> None" "map w_label ws" i j]
    by (auto simp: registry_ok_def matches_def)
  have "List.length ?hits \<le> 1" by (rule distinct_all_equal [OF _ same]) simp
  then have "select ws None (Some l) \<noteq> Inl AmbiguousSelector" by (rule select_label_cases)
  with ok show ?thesis by simp
qed

definition cold_address :: string where
  "cold_address = ''bc1qw508d6qejxtdg4y5r3zarvary0c5xw7kv8f3t4''"

definition cold_wallet :: "bool \<Rightarrow> wallet" where
  "cold_wallet included = \<lparr>w_family = ''btc'', w_address = cold_address, w_label = Some ''cold'', w_included = included, w_added_at = 0\<rparr>"

lemma cold_accepted: "validate_address ''btc'' cold_address = Inr cold_address"
  using example_accepted example_lower by (simp add: validate_address_def validate_btc_def cold_address_def)

lemma registry_stays_well_formed_witness:
  "list_wallets (run registry_step [AddWallet ''btc'' cold_address (Some ''cold'') 0, AddWallet ''btc'' cold_address None 1,
      SetIncluded False None (Some ''cold'')] NoFile) = Inr [cold_wallet False]
   \<and> registry_ok [cold_wallet False] \<and> select [cold_wallet False] None (Some ''cold'') \<noteq> Inl AmbiguousSelector"
proof -
  have "list_wallets (run registry_step [AddWallet ''btc'' cold_address (Some ''cold'') 0, AddWallet ''btc'' cold_address None 1,
      SetIncluded False None (Some ''cold'')] NoFile) = Inr [cold_wallet False]"
    by (simp add: Let_def add_wallet_def load_def save_def cold_accepted set_included_def select_def matches_def list_wallets_def cold_wallet_def)
  then show ?thesis using registry_stays_well_formed by blast
qed

text \<open>An operation that reports an error leaves the registry file as it was; in particular a corrupt
  file is never overwritten, whatever is tried.\<close>

theorem failed_operation_changes_nothing:
  "(\<forall>e. fst (add_wallet f a l t doc) = Inl e \<longrightarrow> snd (add_wallet f a l t doc) = doc)
   \<and> (\<forall>e. fst (remove_wallet b m doc) = Inl e \<longrightarrow> snd (remove_wallet b m doc) = doc)
   \<and> (\<forall>e. fst (set_included i b m doc) = Inl e \<longrightarrow> snd (set_included i b m doc) = doc)
   \<and> run registry_step ops CorruptFile = CorruptFile"
proof -
  have "registry_step e CorruptFile = CorruptFile" for e
    by (cases e) (auto simp: add_wallet_def remove_wallet_def set_included_def load_def split: sum.split)
  then have "run registry_step ops CorruptFile = CorruptFile" by (induction ops) auto
  then show ?thesis
    by (auto simp: add_wallet_def remove_wallet_def set_included_def Let_def split: sum.split option.split)
qed

lemma failed_operation_changes_nothing_witness:
  "add_wallet ''evm'' ''0x12'' None 0 (Document []) = (Inl (BadAddress (EvmLength 2 ''0x12'')), Document [])"
proof -
  have "fst (add_wallet ''evm'' ''0x12'' None 0 (Document [])) = Inl (BadAddress (EvmLength 2 ''0x12''))"
    by (simp add: add_wallet_def validate_address_def validate_evm_def)
  moreover from this have "snd (add_wallet ''evm'' ''0x12'' None 0 (Document [])) = Document []"
    using failed_operation_changes_nothing by blast
  ultimately show ?thesis by (metis prod.collapse)
qed

end
