(* ===== verification/Abi.thy ===== *)
theory Abi
  imports Validation Calendar
begin

text \<open>
  \<open>chains/abi.py\<close>: the ABI encodings of the Multicall3 batches. Byte strings are lists of \<open>8 word\<close>,
  slices are Python's (cut off at the end of the data), \<open>None\<close> is a \<open>ValueError\<close>.
\<close>

section \<open>Numbers and slices\<close>

fun hex_str :: "nat \<Rightarrow> string" where
  "hex_str n = (if n < 16 then [hex_digit n] else hex_str (n div 16) @ [hex_digit (n mod 16)])"

declare hex_str.simps [simp del]

text \<open>\<open>f"{value:064x}"\<close>.\<close>

definition encode_uint :: "int \<Rightarrow> string" where
  "encode_uint value = (if value < 0 then CHR ''-'' # pad 63 (hex_str (nat (- value))) else pad 64 (hex_str (nat value)))"

definition be_value :: "byte list \<Rightarrow> nat" where
  "be_value bs = foldl (\<lambda>n b. n * 256 + unat b) 0 bs"

definition slice :: "nat \<Rightarrow> nat \<Rightarrow> 'a list \<Rightarrow> 'a list" where
  "slice a b xs = take (b - a) (drop a xs)"

text \<open>\<open>bytes.fromhex\<close>: pairs of digits, blanks allowed between them.\<close>

definition ascii_space :: "char \<Rightarrow> bool" where
  "ascii_space c = (let k = of_char c :: nat in k = 32 \<or> 9 \<le> k \<and> k \<le> 13)"

fun fromhex :: "string \<Rightarrow> byte list option" where
  "fromhex [] = Some []"
| "fromhex [c] = (if ascii_space c then Some [] else None)"
| "fromhex (c # d # s) =
     (if ascii_space c then fromhex (d # s)
      else case (hex_val c, hex_val d) of
        (Some a, Some b) \<Rightarrow> map_option ((#) (of_nat (16 * a + b))) (fromhex s)
      | _ \<Rightarrow> None)"

text \<open>\<open>int(text, 16)\<close>: blanks around, a sign, a prefix and single underscores between digits allowed.\<close>

fun hex_number :: "bool \<Rightarrow> nat \<Rightarrow> string \<Rightarrow> nat option" where
  "hex_number after_digit acc [] = (if after_digit then Some acc else None)"
| "hex_number after_digit acc (c # s) =
     (if c = CHR ''_'' then (if after_digit \<and> s \<noteq> [] then hex_number False acc s else None)
      else case hex_val c of None \<Rightarrow> None | Some v \<Rightarrow> hex_number True (16 * acc + v) s)"

definition hex_unsigned :: "string \<Rightarrow> nat option" where
  "hex_unsigned s =
     (if startswith s ''0x_'' \<or> startswith s ''0X_'' then hex_number False 0 (drop 3 s)
      else if startswith s ''0x'' \<or> startswith s ''0X'' then hex_number False 0 (drop 2 s)
      else hex_number False 0 s)"

definition int_base16 :: "string \<Rightarrow> int option" where
  "int_base16 text =
     (case strip text of
        [] \<Rightarrow> None
      | c # s \<Rightarrow> if c = CHR ''-'' then map_option (\<lambda>n. - int n) (hex_unsigned s)
                 else if c = CHR ''+'' then map_option int (hex_unsigned s)
                 else map_option int (hex_unsigned (c # s)))"

section \<open>abi.py\<close>

definition multicall3 :: string where
  "multicall3 = ''0xcA11bde05977b3631167028862bE2a173976CA11''"

definition arbsys :: string where
  "arbsys = ''0x0000000000000000000000000000000000000064''"

definition chain_ids :: "(string \<times> int) list" where
  "chain_ids = [(''base'', 8453), (''arbitrum'', 42161)]"

definition selector :: "string \<Rightarrow> string" where
  "selector signature = ''0x'' @ take 8 (hex_of (keccak256 (bytes_of signature)))"

definition decode_uint :: "byte list \<Rightarrow> nat" where
  "decode_uint data = be_value (take 32 data)"

definition decode_address :: "byte list \<Rightarrow> string" where
  "decode_address data = (let w = take 32 data in ''0x'' @ hex_of (drop (List.length w - 20) w))"

definition sign_extend :: "int \<Rightarrow> nat \<Rightarrow> int" where
  "sign_extend value bits = (if 2 ^ (bits - 1) \<le> value then value - 2 ^ bits else value)"

text \<open>One call's tuple: the target, the offset of its data, the length, the data padded to words.\<close>

definition tuple_body :: "string \<times> string \<Rightarrow> string option" where
  "tuple_body call =
     (let (to, data) = call;
          data_hex = (if startswith data ''0x'' then drop 2 data else data)
      in case (fromhex data_hex, int_base16 to) of
           (Some data_bytes, Some target) \<Rightarrow>
             let n = List.length data_bytes;
                 padded = hex_of data_bytes @ concat (replicate ((32 - n mod 32) mod 32) ''00'')
             in Some (encode_uint target @ encode_uint 64 @ encode_uint (int n) @ padded)
         | _ \<Rightarrow> None)"

fun tuple_offsets :: "nat \<Rightarrow> string list \<Rightarrow> string list" where
  "tuple_offsets running [] = []"
| "tuple_offsets running (body # bodies) =
     encode_uint (int running) # tuple_offsets (running + List.length body div 2) bodies"

definition encode_call_aggregate :: "(string \<times> string) list \<Rightarrow> string option" where
  "encode_call_aggregate calls =
     (case those (map tuple_body calls) of None \<Rightarrow> None
      | Some bodies \<Rightarrow>
          Some (''0x252dba42'' @ encode_uint 32 @ encode_uint (int (List.length calls))
                @ concat (tuple_offsets (32 * List.length calls) bodies) @ concat bodies))"

definition decode_element :: "byte list \<Rightarrow> nat \<Rightarrow> nat \<Rightarrow> byte list" where
  "decode_element blob array_offset i =
     (let offset_word = slice (array_offset + 32 + 32 * i) (array_offset + 2 * 32 + 32 * i) blob;
          element_offset = array_offset + 32 + be_value offset_word;
          len = be_value (slice element_offset (element_offset + 32) blob)
      in slice (element_offset + 32) (element_offset + 32 + len) blob)"

definition decode_aggregate :: "string \<Rightarrow> (nat \<times> byte list list) option" where
  "decode_aggregate hexstr =
     (case fromhex (if startswith hexstr ''0x'' then drop 2 hexstr else hexstr) of
        None \<Rightarrow> None
      | Some blob \<Rightarrow>
          let block_number = be_value (slice 0 32 blob);
              array_offset = be_value (slice 32 (2 * 32) blob);
              count = be_value (slice array_offset (array_offset + 32) blob)
          in Some (block_number, map (decode_element blob array_offset) [0..<count]))"

section \<open>Words\<close>

text \<open>The \<open>m\<close> lowest digits of a number in base \<open>b\<close>, and a number as one 32-byte big-endian word.\<close>

fun fixed_digits :: "nat \<Rightarrow> nat \<Rightarrow> nat \<Rightarrow> nat list" where
  "fixed_digits b 0 n = []"
| "fixed_digits b (Suc m) n = fixed_digits b m (n div b) @ [n mod b]"

definition abi_word :: "nat \<Rightarrow> byte list" where
  "abi_word n = map of_nat (fixed_digits 256 32 n)"

lemma length_fixed_digits [simp]: "List.length (fixed_digits b m n) = m"
  by (induction m arbitrary: n) auto

lemma length_abi_word [simp]: "List.length (abi_word n) = 32"
  by (simp add: abi_word_def)

lemma be_value_Nil [simp]: "be_value [] = 0"
  by (simp add: be_value_def)

lemma be_value_snoc [simp]: "be_value (bs @ [b]) = be_value bs * 256 + unat b"
  by (simp add: be_value_def)

lemma be_value_fixed: "be_value (map of_nat (fixed_digits 256 m n)) = n mod 256 ^ m"
proof (induction m arbitrary: n)
  case (Suc m)
  have "be_value (map of_nat (fixed_digits 256 (Suc m) n)) = n div 256 mod 256 ^ m * 256 + n mod 256"
    by (simp add: Suc.IH unat_of_nat take_bit_eq_mod)
  also have "\<dots> = n mod (256 * 256 ^ m)" by (metis mod_mult2_eq mult.commute)
  finally show ?case by simp
qed simp

lemma be_value_abi_word: "n < 2 ^ 256 \<Longrightarrow> be_value (abi_word n) = n"
  unfolding abi_word_def be_value_fixed by simp

lemma hex_of_fixed: "hex_of (map of_nat (fixed_digits 256 m n)) = map hex_digit (fixed_digits 16 (2 * m) n)"
proof (induction m arbitrary: n)
  case (Suc m)
  have app: "hex_of (xs @ [b]) = hex_of xs @ [hex_digit (unat b div 16), hex_digit (unat b mod 16)]" for xs b
    by (simp add: hex_of_def)
  have "n mod 256 div 16 = n div 16 mod 16" "n mod 256 mod 16 = n mod 16"
    using mod_mult2_eq [of n 16 16] by simp_all
  then show ?case by (simp add: app Suc.IH unat_of_nat take_bit_eq_mod flip: div_mult2_eq)
qed (simp add: hex_of_def)

lemma fixed_digits_0: "fixed_digits b m 0 = replicate m 0"
proof (induction m)
  case (Suc m)
  then show ?case by (simp flip: replicate_append_same)
qed simp

lemma hex_str_small: "n < 16 \<Longrightarrow> hex_str n = [hex_digit n]"
  by (simp add: hex_str.simps)

lemma hex_str_large: "16 \<le> n \<Longrightarrow> hex_str n = hex_str (n div 16) @ [hex_digit (n mod 16)]"
  by (subst hex_str.simps) simp

lemma hex_digit_0: "hex_digit 0 = CHR ''0''"
  by code_simp

lemma pad_hex_str: "n < 16 ^ Suc m \<Longrightarrow> pad (Suc m) (hex_str n) = map hex_digit (fixed_digits 16 (Suc m) n)"
proof (induction m arbitrary: n)
  case 0
  then show ?case by (simp add: hex_str_small pad_def)
next
  case (Suc m)
  show ?case
  proof (cases "n < 16")
    case True
    then have "fixed_digits 16 (Suc (Suc m)) n = replicate (Suc m) 0 @ [n]"
      by (simp add: fixed_digits_0 flip: replicate_append_same)
    with True show ?thesis by (simp add: hex_str_small pad_def hex_digit_0 del: fixed_digits.simps replicate.simps)
  next
    case False
    have "n div 16 < 16 ^ Suc m" using Suc.prems by (simp add: less_mult_imp_div_less mult.commute)
    from Suc.IH [OF this] False show ?thesis
      by (simp add: hex_str_large pad_def)
  qed
qed

lemma encode_uint_word: "n < 2 ^ 256 \<Longrightarrow> encode_uint (int n) = hex_of (abi_word n)"
  using pad_hex_str [of n 63] by (simp add: encode_uint_def abi_word_def hex_of_fixed del: fixed_digits.simps)

lemma hex_val_digit: "n < 16 \<Longrightarrow> hex_val (hex_digit n) = Some n \<and> \<not> ascii_space (hex_digit n)"
  by (cases "n < 10") (simp_all add: hex_digit_def hex_val_def ascii_space_def Let_def)

lemma fromhex_hex_of: "fromhex (hex_of bs) = Some bs"
proof (induction bs)
  case (Cons b bs)
  have "unat b < 256" using unsigned_less [of b] by simp
  then have "hex_val (hex_digit (unat b div 16)) = Some (unat b div 16)" "hex_val (hex_digit (unat b mod 16)) = Some (unat b mod 16)"
    "\<not> ascii_space (hex_digit (unat b div 16))"
    using hex_val_digit by (simp_all add: less_mult_imp_div_less)
  moreover have "of_nat (16 * (unat b div 16) + unat b mod 16) = b" by (simp only: mult_div_mod_eq) simp
  ultimately show ?case using Cons by (simp add: hex_of_def)
qed (simp add: hex_of_def)

text \<open>Sign extension is the two's complement reading of a word of that width: for the 24-bit ticks of
  a pool as for any other width.\<close>

theorem sign_extend_is_sint: "sign_extend (uint (w :: 'a::len word)) LENGTH('a) = sint w"
proof -
  obtain n where n: "LENGTH('a) = Suc n" by (metis len_gt_0 Suc_pred)
  have lt: "uint w < 2 * 2 ^ n" using uint_lt2p [of w] by (simp add: n)
  have "sint w = take_bit (Suc n) (uint w) - 2 ^ Suc n * of_bool (bit (uint w) n)"
    by (simp add: sint_uint n signed_take_bit_eq_take_bit_minus)
  also have "take_bit (Suc n) (uint w) = uint w" using lt by (simp add: take_bit_int_eq_self)
  also have "bit (uint w) n \<longleftrightarrow> 2 ^ n \<le> uint w"
  proof
    assume "bit (uint w) n"
    then have "uint w div 2 ^ n \<noteq> 0" by (auto simp: bit_iff_odd)
    then show "2 ^ n \<le> uint w" by (metis div_pos_pos_trivial linorder_not_le uint_ge_0)
  next
    assume "2 ^ n \<le> uint w"
    then have "uint w div 2 ^ n = 1" using lt by (intro int_div_pos_eq [of _ _ _ "uint w - 2 ^ n"]) auto
    then show "bit (uint w) n" by (simp add: bit_iff_odd)
  qed
  finally show ?thesis by (simp add: sign_extend_def n)
qed

section \<open>Multicall layouts\<close>

text \<open>The ABI layout of \<open>bytes[]\<close> with its block number, and of the \<open>(address,bytes)[]\<close> argument: heads of
  offsets relative to the start of the array, then the elements, padded to words.\<close>

definition zero_pad :: "nat \<Rightarrow> byte list" where
  "zero_pad n = replicate ((32 - n mod 32) mod 32) 0"

definition abi_bytes :: "byte list \<Rightarrow> byte list" where
  "abi_bytes bs = abi_word (List.length bs) @ bs @ zero_pad (List.length bs)"

fun abi_offsets :: "nat \<Rightarrow> byte list list \<Rightarrow> nat list" where
  "abi_offsets start [] = []"
| "abi_offsets start (e # es) = start # abi_offsets (start + List.length e) es"

definition abi_array :: "byte list list \<Rightarrow> byte list" where
  "abi_array es = abi_word (List.length es) @ concat (map abi_word (abi_offsets (32 * List.length es) es)) @ concat es"

definition abi_return :: "nat \<Rightarrow> byte list list \<Rightarrow> byte list" where
  "abi_return block outs = abi_word block @ abi_word 64 @ abi_array (map abi_bytes outs)"

lemma length_abi_offsets [simp]: "List.length (abi_offsets s es) = List.length es"
  by (induction es arbitrary: s) auto

lemma nth_abi_offsets: "i < List.length es \<Longrightarrow> abi_offsets s es ! i = s + List.length (concat (take i es))"
proof (induction es arbitrary: s i)
  case (Cons e es)
  then show ?case by (cases i) auto
qed simp

lemma slice_append: "List.length xs = a \<Longrightarrow> slice a b (xs @ ys) = take (b - a) ys"
  by (simp add: slice_def)

lemma length_concat_words [simp]: "List.length (concat (map abi_word ns)) = 32 * List.length ns"
  by (induction ns) auto

lemma slice_words:
  assumes "i < List.length ns" "List.length pre = a"
  shows "slice (a + 32 * i) (a + 32 + 32 * i) (pre @ concat (map abi_word ns) @ post) = abi_word (ns ! i)"
proof -
  have ns: "ns = take i ns @ ns ! i # drop (Suc i) ns" using assms(1) by (rule id_take_nth_drop)
  have "pre @ concat (map abi_word ns) @ post
      = (pre @ concat (map abi_word (take i ns))) @ abi_word (ns ! i) @ concat (map abi_word (drop (Suc i) ns)) @ post"
    by (subst ns) simp
  moreover have "List.length (pre @ concat (map abi_word (take i ns))) = a + 32 * i"
    using assms by (simp add: min_def)
  ultimately show ?thesis by (simp only: slice_append) simp
qed

lemma slice_element:
  assumes "i < List.length outs" "List.length pre + List.length (concat (take i (map abi_bytes outs))) = e"
    "List.length (outs ! i) < 2 ^ 256"
  shows "be_value (slice e (e + 32) (pre @ concat (map abi_bytes outs))) = List.length (outs ! i)
    \<and> slice (e + 32) (e + 32 + List.length (outs ! i)) (pre @ concat (map abi_bytes outs)) = outs ! i"
proof -
  let ?o = "outs ! i"
  define rest where "rest = zero_pad (List.length ?o) @ concat (map abi_bytes (drop (Suc i) outs))"
  have "outs = take i outs @ ?o # drop (Suc i) outs" using assms(1) by (rule id_take_nth_drop)
  then have "concat (map abi_bytes outs) = concat (take i (map abi_bytes outs)) @ abi_bytes ?o @ concat (map abi_bytes (drop (Suc i) outs))"
    by (metis concat.simps(2) concat_append list.simps(9) map_append take_map)
  then have blob: "pre @ concat (map abi_bytes outs) = (pre @ concat (take i (map abi_bytes outs))) @ abi_word (List.length ?o) @ ?o @ rest"
    by (simp add: abi_bytes_def rest_def)
  have len: "List.length (pre @ concat (take i (map abi_bytes outs))) = e" using assms(2) by simp
  have "slice e (e + 32) (pre @ concat (map abi_bytes outs)) = abi_word (List.length ?o)"
    unfolding blob by (subst slice_append [OF len]) simp
  moreover have "slice (e + 32) (e + 32 + List.length ?o) (pre @ concat (map abi_bytes outs)) = ?o"
  proof -
    have "List.length ((pre @ concat (take i (map abi_bytes outs))) @ abi_word (List.length ?o)) = e + 32" using len by simp
    from slice_append [OF this] show ?thesis unfolding blob by simp
  qed
  ultimately show ?thesis using assms(3) by (simp add: be_value_abi_word)
qed

lemma decode_aggregate_inverts_abi_facts:
  assumes "block < 2 ^ 256" "List.length (abi_return block outs) < 2 ^ 256"
  shows "decode_aggregate (''0x'' @ hex_of (abi_return block outs)) = Some (block, outs)"
proof -
  let ?es = "map abi_bytes outs" and ?n = "List.length outs"
  let ?offs = "abi_offsets (32 * ?n) ?es"
  let ?blob = "abi_return block outs"
  define pre where "pre = abi_word block @ abi_word 64 @ abi_word ?n"
  have blob: "?blob = pre @ concat (map abi_word ?offs) @ concat ?es" by (simp add: abi_return_def abi_array_def pre_def)
  have pre: "List.length pre = 96" by (simp add: pre_def)
  have n: "?n < 2 ^ 256" using assms(2) by (simp add: blob)
  have w: "slice 0 32 ?blob = abi_word block" "slice 32 (2 * 32) ?blob = abi_word 64"
    "slice 64 (64 + 32) ?blob = abi_word ?n"
    by (simp_all add: slice_def blob pre_def)
  have elem: "decode_element ?blob 64 i = outs ! i" if i: "i < ?n" for i
  proof -
    have off: "slice (64 + 32 + 32 * i) (64 + 2 * 32 + 32 * i) ?blob = abi_word (?offs ! i)"
      using slice_words [of i ?offs pre 96 "concat ?es"] i pre by (simp add: blob)
    let ?e = "64 + 32 + ?offs ! i"
    have o: "?offs ! i = 32 * ?n + List.length (concat (take i ?es))" using nth_abi_offsets [of i ?es] i by simp
    have "List.length (concat (take i ?es)) + List.length (abi_bytes (outs ! i)) \<le> List.length (concat ?es)"
    proof -
      have "concat ?es = concat (take (Suc i) ?es) @ concat (drop (Suc i) ?es)" by (metis append_take_drop_id concat_append)
      then show ?thesis using i by (simp add: take_Suc_conv_app_nth)
    qed
    then have small: "?offs ! i < 2 ^ 256" "List.length (outs ! i) < 2 ^ 256"
      using assms(2) o by (simp_all add: blob pre abi_bytes_def)
    have "List.length (pre @ concat (map abi_word ?offs)) + List.length (concat (take i ?es)) = ?e"
      using o pre by simp
    from slice_element [OF i this small(2)] off show ?thesis
      by (simp add: decode_element_def Let_def be_value_abi_word [OF small(1)] blob)
  qed
  have "map (decode_element ?blob 64) [0..<?n] = outs"
    by (rule nth_equalityI) (simp_all add: elem)
  moreover have "startswith (''0x'' @ hex_of ?blob) ''0x''" by simp
  ultimately show ?thesis
    unfolding decode_aggregate_def Let_def
    by (simp add: fromhex_hex_of w [simplified] be_value_abi_word [OF assms(1)] be_value_abi_word [OF n] be_value_abi_word [of 64])
qed

text \<open>C38. Decoding inverts the ABI: the block number and the byte strings a Multicall3 node returns, laid
  out as the ABI prescribes (offsets, lengths, padding, any number and sizes of results), are exactly
  what \<open>decode_aggregate\<close> gives back.\<close>

theorem decode_aggregate_inverts_abi:
  assumes "block < 2 ^ 256" "List.length (abi_return block outs) < 2 ^ 256"
  shows "decode_aggregate (''0x'' @ hex_of (abi_return block outs)) = Some (block, outs)"
  using assms by (rule decode_aggregate_inverts_abi_facts)

lemma decode_aggregate_inverts_abi_witness:
  "decode_aggregate (''0x'' @ hex_of (abi_return 7 [[1, 2, 3], []])) = Some (7, [[1, 2, 3], []])"
  by (rule decode_aggregate_inverts_abi) (simp_all add: abi_return_def abi_array_def abi_bytes_def zero_pad_def)

definition abi_call :: "nat \<times> byte list \<Rightarrow> byte list" where
  "abi_call c = abi_word (fst c) @ abi_word 64 @ abi_bytes (snd c)"

lemma hex_of_append [simp]: "hex_of (xs @ ys) = hex_of xs @ hex_of ys"
  by (simp add: hex_of_def)

lemma hex_of_concat: "hex_of (concat bss) = concat (map hex_of bss)"
  by (induction bss) (auto simp: hex_of_def)

lemma length_hex_of [simp]: "List.length (hex_of bs) = 2 * List.length bs"
  by (induction bs) (auto simp: hex_of_def)

lemma hex_zero_pad: "hex_of (zero_pad n) = concat (replicate ((32 - n mod 32) mod 32) ''00'')"
  by (simp add: hex_of_def zero_pad_def map_replicate_const hex_digit_0)

lemma tuple_body_layout:
  assumes "int_base16 to = Some (int n)" "n < 2 ^ 256" "List.length d < 2 ^ 256"
  shows "tuple_body (to, ''0x'' @ hex_of d) = Some (hex_of (abi_call (n, d)))"
  using encode_uint_word [OF assms(2)] encode_uint_word [OF assms(3)] encode_uint_word [of 64] assms(1)
  by (simp add: tuple_body_def fromhex_hex_of Let_def abi_call_def abi_bytes_def hex_zero_pad)

lemma tuple_offsets_layout:
  "r + List.length (concat es) < 2 ^ 256 \<Longrightarrow> concat (tuple_offsets r (map hex_of es)) = hex_of (concat (map abi_word (abi_offsets r es)))"
proof (induction es arbitrary: r)
  case (Cons e es)
  then have "r < 2 ^ 256" "r + List.length e + List.length (concat es) < 2 ^ 256" by (simp_all add: add.assoc)
  with Cons.IH [of "r + List.length e"] show ?case by (simp add: encode_uint_word)
qed (simp add: hex_of_def)

text \<open>The calldata the client sends is the ABI layout of \<open>aggregate((address,bytes)[])\<close>: selector,
  offset of the array, then the array of tuples, as hexadecimal text.\<close>

lemma encode_call_aggregate_layout:
  assumes "\<forall>c \<in> set calls. int_base16 (fst c) = Some (int (fst (snd c))) \<and> fst (snd c) < 2 ^ 256"
    "List.length (abi_array (map (\<lambda>c. abi_call (snd c)) calls)) < 2 ^ 256"
  shows "encode_call_aggregate (map (\<lambda>c. (fst c, ''0x'' @ hex_of (snd (snd c)))) calls)
    = Some (''0x252dba42'' @ hex_of (abi_word 32 @ abi_array (map (\<lambda>c. abi_call (snd c)) calls)))"
proof -
  let ?es = "map (\<lambda>c. abi_call (snd c)) calls"
  have d: "List.length (snd (snd c)) < 2 ^ 256" if "c \<in> set calls" for c
  proof -
    have "List.length (abi_call (snd c)) \<le> List.length (concat ?es)"
      using that by (induction calls) auto
    then show ?thesis using assms(2) by (simp add: abi_array_def abi_call_def abi_bytes_def)
  qed
  have "map tuple_body (map (\<lambda>c. (fst c, ''0x'' @ hex_of (snd (snd c)))) calls) = map Some (map hex_of ?es)"
    using tuple_body_layout assms(1) d by fastforce
  moreover have "those (map Some zs) = Some zs" for zs :: "string list" by (induction zs) auto
  ultimately have "those (map tuple_body (map (\<lambda>c. (fst c, ''0x'' @ hex_of (snd (snd c)))) calls)) = Some (map hex_of ?es)"
    by metis
  moreover have "32 * List.length calls + List.length (concat ?es) < 2 ^ 256" "List.length calls < 2 ^ 256"
    using assms(2) by (simp_all add: abi_array_def)
  ultimately show ?thesis
    using tuple_offsets_layout [of "32 * List.length calls" ?es] encode_uint_word [of 32] encode_uint_word [of "List.length calls"]
    by (simp add: encode_call_aggregate_def abi_array_def hex_of_concat del: map_map)
qed

end
