(* ===== verification/Rpc.thy ===== *)
theory Rpc
  imports Transport Abi Config
begin

text \<open>
  \<open>chains/rpc.py\<close>: JSON-RPC over a ring of endpoints, and the pinned snapshot with its two tripwires.
  \<open>repr\<close> stands for Python's \<open>str\<close> of a JSON container. The state is the transports, the store
  and the environment; \<open>None\<close> is a wait for a slot that did not return.
\<close>

section \<open>Errors and state\<close>

datatype ring_error = RingTransport transport_error | RingJson string

datatype rpc_error =
    UnknownChain string
  | Reverted string string
  | RingSpent string "(string \<times> ring_error) list"
  | PinMismatch int nat
  | WrongChainId int nat

text \<open>\<open>PythonRaised\<close>: a missing key, a bad number or too few results.\<close>

datatype rpc_raised = RpcRaised rpc_error | RpcQuota quota_error | PythonRaised

record rpc_client =
  rc_chain :: string
  rc_urls :: "string list"

type_synonym 'e ring = "transport list \<times> store \<times> 'e"

type_synonym ('a, 'e) rpc_result = "((rpc_raised + 'a) \<times> 'e ring) option"

definition bind_r :: "(('f + 'a) \<times> 's) option \<Rightarrow> ('a \<Rightarrow> 's \<Rightarrow> (('f + 'b) \<times> 's) option) \<Rightarrow> (('f + 'b) \<times> 's) option" where
  "bind_r m f = (case m of None \<Rightarrow> None | Some (Inl e, s) \<Rightarrow> Some (Inl e, s) | Some (Inr a, s) \<Rightarrow> f a s)"

definition or_raise :: "'a option \<Rightarrow> 's \<Rightarrow> ((rpc_raised + 'a) \<times> 's) option" where
  "or_raise x s = Some (case x of None \<Rightarrow> Inl PythonRaised | Some a \<Rightarrow> Inr a, s)"

definition text_of :: "(json \<Rightarrow> string) \<Rightarrow> json \<Rightarrow> string" where
  "text_of repr j = (case str_of j of Some s \<Rightarrow> s | None \<Rightarrow> repr j)"

lemma bind_r_Inr: "bind_r m f = Some (Inr b, s2) \<longleftrightarrow> (\<exists>a s1. m = Some (Inr a, s1) \<and> f a s1 = Some (Inr b, s2))"
  by (auto simp: bind_r_def split: option.splits sum.splits)

lemma or_raise_Inr: "or_raise x s = Some (Inr a, s1) \<longleftrightarrow> x = Some a \<and> s1 = s"
  by (auto simp: or_raise_def split: option.splits)

text \<open>The endpoints of a chain, each with a transport of its own; \<open>zip\<close> cuts off the longer list.\<close>

fun ring_transports :: "string \<Rightarrow> string list \<Rightarrow> transport_error + transport list" where
  "ring_transports provider [] = Inr []"
| "ring_transports provider (url # urls) =
     (case new_transport url provider 4 5 (seconds 60) of Inl e \<Rightarrow> Inl e
      | Inr t \<Rightarrow> (case ring_transports provider urls of Inl e \<Rightarrow> Inl e | Inr ts \<Rightarrow> Inr (t # ts)))"

definition new_rpc_client :: "string \<Rightarrow> settings \<Rightarrow> (rpc_error + transport_error) + rpc_client \<times> transport list" where
  "new_rpc_client chain cfg =
     (if map_of chain_ids chain = None then Inl (Inl (UnknownChain chain))
      else let urls = (if chain = ''base'' then base_rpc_urls cfg else arbitrum_rpc_urls cfg)
           in case ring_transports (chain @ ''-rpc'') urls of Inl e \<Rightarrow> Inl (Inr e)
              | Inr ts \<Rightarrow> Inr (\<lparr>rc_chain = chain, rc_urls = urls\<rparr>, ts))"

section \<open>One call over the ring\<close>

definition rpc_error_of :: "json \<Rightarrow> json option" where
  "rpc_error_of response =
     (case response of JObj d \<Rightarrow> (case get d ''error'' of Some JNull \<Rightarrow> None | e \<Rightarrow> e) | _ \<Rightarrow> None)"

text \<open>\<open>str(error.get("message", error))\<close>; \<open>None\<close> when the error is not an object.\<close>

definition error_message :: "(json \<Rightarrow> string) \<Rightarrow> json \<Rightarrow> string option" where
  "error_message repr err = (case err of JObj d \<Rightarrow> Some (text_of repr (get_default d ''message'' err)) | _ \<Rightarrow> None)"

fun ring_call :: "nat \<Rightarrow> 'e outside \<Rightarrow> (json \<Rightarrow> string) \<Rightarrow> string \<Rightarrow> dict \<Rightarrow> (string \<times> transport) list
    \<Rightarrow> transport list \<Rightarrow> (string \<times> ring_error) list \<Rightarrow> store \<times> 'e \<Rightarrow> (json, 'e) rpc_result" where
  "ring_call fuel out repr meth payload [] tried errors (db, env) =
     Some (Inl (RpcRaised (RingSpent meth errors)), tried, db, env)"
| "ring_call fuel out repr meth payload ((url, t) # rest) tried errors (db, env) =
     (case post_json fuel out [] payload (Some meth) (t, db, env) of
        None \<Rightarrow> None
      | Some (Inl (QuotaRaised e), t1, db1, env1) \<Rightarrow> Some (Inl (RpcQuota e), tried @ t1 # map snd rest, db1, env1)
      | Some (Inl (TransportRaised e), t1, db1, env1) \<Rightarrow>
          ring_call fuel out repr meth payload rest (tried @ [t1]) (errors @ [(url, RingTransport e)]) (db1, env1)
      | Some (Inr response, t1, db1, env1) \<Rightarrow>
          (case rpc_error_of response of
             Some err \<Rightarrow>
               (case error_message repr err of
                  None \<Rightarrow> Some (Inl PythonRaised, tried @ t1 # map snd rest, db1, env1)
                | Some message \<Rightarrow>
                    if substring_in ''revert'' (lower message)
                    then Some (Inl (RpcRaised (Reverted meth message)), tried @ t1 # map snd rest, db1, env1)
                    else ring_call fuel out repr meth payload rest (tried @ [t1]) (errors @ [(url, RingJson message)]) (db1, env1))
           | None \<Rightarrow>
               (case response of
                  JObj d \<Rightarrow> or_raise (get d ''result'') (tried @ t1 # map snd rest, db1, env1)
                | _ \<Rightarrow> Some (Inl PythonRaised, tried @ t1 # map snd rest, db1, env1))))"

definition rpc :: "nat \<Rightarrow> 'e outside \<Rightarrow> (json \<Rightarrow> string) \<Rightarrow> rpc_client \<Rightarrow> string \<Rightarrow> json list \<Rightarrow> 'e ring \<Rightarrow> (json, 'e) rpc_result" where
  "rpc fuel out repr client meth params st =
     (let (ts, db, env) = st
      in ring_call fuel out repr meth
           [(''jsonrpc'', JStr ''2.0''), (''id'', JInt 1), (''method'', JStr meth), (''params'', JArr params)]
           (zip (rc_urls client) ts) [] [] (db, env))"

section \<open>Reads\<close>

definition block_number :: "nat \<Rightarrow> 'e outside \<Rightarrow> (json \<Rightarrow> string) \<Rightarrow> rpc_client \<Rightarrow> 'e ring \<Rightarrow> (int, 'e) rpc_result" where
  "block_number fuel out repr client st =
     bind_r (rpc fuel out repr client ''eth_blockNumber'' [] st) (\<lambda>r. or_raise (int_base16 (text_of repr r)))"

definition resolve_pin :: "nat \<Rightarrow> 'e outside \<Rightarrow> (json \<Rightarrow> string) \<Rightarrow> rpc_client \<Rightarrow> int \<Rightarrow> 'e ring \<Rightarrow> (int, 'e) rpc_result" where
  "resolve_pin fuel out repr client margin st =
     bind_r (block_number fuel out repr client st) (\<lambda>head st1. Some (Inr (head - margin), st1))"

datatype block_ref = BlockNumber int | BlockTag string

text \<open>\<open>hex(n)\<close>.\<close>

definition hex_int :: "int \<Rightarrow> string" where
  "hex_int n = (if n < 0 then ''-0x'' @ hex_str (nat (- n)) else ''0x'' @ hex_str (nat n))"

definition block_param :: "block_ref \<Rightarrow> string" where
  "block_param b = (case b of BlockNumber n \<Rightarrow> hex_int n | BlockTag s \<Rightarrow> s)"

definition eth_call :: "nat \<Rightarrow> 'e outside \<Rightarrow> (json \<Rightarrow> string) \<Rightarrow> rpc_client \<Rightarrow> string \<Rightarrow> string \<Rightarrow> block_ref \<Rightarrow> 'e ring
    \<Rightarrow> (string, 'e) rpc_result" where
  "eth_call fuel out repr client to data block st =
     bind_r (rpc fuel out repr client ''eth_call'' [JObj [(''to'', JStr to), (''data'', JStr data)], JStr (block_param block)] st)
       (\<lambda>r st1. Some (Inr (text_of repr r), st1))"

definition aggregate :: "nat \<Rightarrow> 'e outside \<Rightarrow> (json \<Rightarrow> string) \<Rightarrow> rpc_client \<Rightarrow> (string \<times> string) list \<Rightarrow> block_ref \<Rightarrow> 'e ring
    \<Rightarrow> (nat \<times> byte list list, 'e) rpc_result" where
  "aggregate fuel out repr client calls block st =
     bind_r (or_raise (encode_call_aggregate calls) st)
       (\<lambda>data st1. bind_r (eth_call fuel out repr client multicall3 data block st1)
         (\<lambda>raw. or_raise (decode_aggregate raw)))"

section \<open>Pinned snapshots\<close>

record pinned_snapshot =
  ps_chain :: string
  ps_block :: int
  ps_ts :: instant
  ps_results :: "byte list list"

definition tripwire :: "string \<Rightarrow> string \<times> string" where
  "tripwire chain =
     (if chain = ''base'' then (multicall3, selector ''getBlockNumber()'') else (arbsys, selector ''arbBlockNumber()''))"

definition chain_id_call :: "string \<times> string" where
  "chain_id_call = (multicall3, selector ''getChainId()'')"

text \<open>What is done with the outputs of the batch pinned at \<open>pin\<close>.\<close>

definition check_outputs :: "'e outside \<Rightarrow> rpc_client \<Rightarrow> string \<Rightarrow> int \<Rightarrow> byte list list \<Rightarrow> 'e ring \<Rightarrow> (pinned_snapshot, 'e) rpc_result" where
  "check_outputs out client kind pin outputs st =
     (let (ts, db, env) = st in
      case outputs of
        block_word # tail_words \<Rightarrow>
          if int (decode_uint block_word) \<noteq> pin
          then Some (Inl (RpcRaised (PinMismatch pin (decode_uint block_word))), st)
          else (case tail_words of
              chain_word # results \<Rightarrow>
                (case map_of chain_ids (rc_chain client) of
                   None \<Rightarrow> Some (Inl PythonRaised, st)
                 | Some expected \<Rightarrow>
                     if int (decode_uint chain_word) \<noteq> expected
                     then Some (Inl (RpcRaised (WrongChainId expected (decode_uint chain_word))), st)
                     else let now = o_clock out env
                          in Some (Inr \<lparr>ps_chain = rc_chain client, ps_block = pin, ps_ts = now, ps_results = results\<rparr>,
                               ts, insert_snapshot now (rc_chain client) (Some pin) kind db, env))
            | [] \<Rightarrow> Some (Inl PythonRaised, st))
      | [] \<Rightarrow> Some (Inl PythonRaised, st))"

definition snapshot :: "nat \<Rightarrow> 'e outside \<Rightarrow> (json \<Rightarrow> string) \<Rightarrow> rpc_client \<Rightarrow> string \<Rightarrow> (string \<times> string) list \<Rightarrow> 'e ring
    \<Rightarrow> (pinned_snapshot, 'e) rpc_result" where
  "snapshot fuel out repr client kind extra_calls st =
     bind_r (resolve_pin fuel out repr client 3 st)
       (\<lambda>pin st1. bind_r (aggregate fuel out repr client (tripwire (rc_chain client) # chain_id_call # extra_calls) (BlockNumber pin) st1)
         (\<lambda>(outer_block, outputs). check_outputs out client kind pin outputs))"

section \<open>What requests leave alone\<close>

definition store_of :: "'e ring \<Rightarrow> store" where
  "store_of st = fst (snd st)"

lemma ring_call_frame:
  "ring_call fuel out repr meth payload ends tried errors (db, env) = Some (r, st) \<Longrightarrow> log_only db (store_of st)"
proof (induction ends arbitrary: tried errors db env)
  case Nil
  then show ?case by (auto simp: store_of_def)
next
  case (Cons u ends)
  obtain url t where u: "u = (url, t)" by (cases u) auto
  let ?p = "post_json fuel out [] payload (Some meth) (t, db, env)"
  have "?p \<noteq> None"
  proof
    assume "?p = None"
    with Cons.prems show False by (simp add: u)
  qed
  then obtain q t1 db1 env1 where p: "?p = Some (q, t1, db1, env1)" by (metis option.exhaust prod_cases4)
  have f: "log_only db db1" by (rule post_frame [OF p])
  have again: "log_only db (store_of st)" if "ring_call fuel out repr meth payload ends tr er (db1, env1) = Some (r, st)" for tr er
    using log_only_trans [OF f Cons.IH [OF that]] .
  from Cons.prems f p show ?case
    by (auto simp: u store_of_def or_raise_def split: sum.splits raised.splits option.splits json.splits if_splits
        dest!: again [unfolded store_of_def])
qed

lemma rpc_frame: "rpc fuel out repr client meth params st = Some (r, st1) \<Longrightarrow> log_only (store_of st) (store_of st1)"
  by (auto simp: rpc_def store_of_def split: prod.splits dest!: ring_call_frame)

text \<open>What computations in the state promise about it: a reflexive and transitive relation between the
  state before and after, kept by each step whether it returns or raises.\<close>

locale state_frame =
  fixes R :: "'s \<Rightarrow> 's \<Rightarrow> bool"
  assumes frame_refl: "R s s" and frame_trans: "R a b \<Longrightarrow> R b c \<Longrightarrow> R a c"
begin

lemma bind:
  assumes "bind_r m f = Some (r, s2)"
    "\<And>q s. m = Some (q, s) \<Longrightarrow> R s0 s"
    "\<And>a s q s2. f a s = Some (q, s2) \<Longrightarrow> R s s2"
  shows "R s0 s2"
proof (cases m)
  case None
  with assms(1) show ?thesis by (simp add: bind_r_def)
next
  case (Some qs)
  obtain q s where qs: "qs = (q, s)" by (cases qs) auto
  have s: "R s0 s" using assms(2) Some qs by simp
  show ?thesis
  proof (cases q)
    case (Inl e)
    with assms(1) s show ?thesis by (simp add: bind_r_def Some qs)
  next
    case (Inr a)
    then have "f a s = Some (r, s2)" using assms(1) by (simp add: bind_r_def Some qs)
    from frame_trans [OF s assms(3) [OF this]] show ?thesis .
  qed
qed

end

interpretation ring_frame: state_frame "\<lambda>s s1. log_only (store_of s) (store_of s1)"
  by unfold_locales (auto intro: log_only_trans)

lemmas bind_frame = ring_frame.bind

lemma or_raise_frame: "or_raise x s = Some (q, s2) \<Longrightarrow> log_only (store_of s) (store_of s2)"
  by (auto simp: or_raise_def)

lemma block_number_frame: "block_number fuel out repr client st = Some (r, st1) \<Longrightarrow> log_only (store_of st) (store_of st1)"
  unfolding block_number_def by (erule bind_frame) (auto dest: rpc_frame or_raise_frame)

lemma resolve_pin_frame: "resolve_pin fuel out repr client m st = Some (r, st1) \<Longrightarrow> log_only (store_of st) (store_of st1)"
  unfolding resolve_pin_def by (erule bind_frame) (auto dest: block_number_frame)

lemma eth_call_frame: "eth_call fuel out repr client to data b st = Some (r, st1) \<Longrightarrow> log_only (store_of st) (store_of st1)"
  unfolding eth_call_def by (erule bind_frame) (auto dest: rpc_frame)

lemma aggregate_frame: "aggregate fuel out repr client calls b st = Some (r, st1) \<Longrightarrow> log_only (store_of st) (store_of st1)"
  unfolding aggregate_def
  by (erule bind_frame) (auto dest: or_raise_frame eth_call_frame elim!: bind_frame)

text \<open>A batch whose outputs pass the checks: the two tripwires, the row and nothing else.\<close>

lemma check_outputs_pinned:
  assumes "check_outputs out client kind pin outs s = Some (res, st1)"
  shows "case res of Inl _ \<Rightarrow> st1 = s
      | Inr snap \<Rightarrow> \<exists>bw cw. outs = bw # cw # ps_results snap \<and> int (decode_uint bw) = pin \<and> ps_block snap = pin
          \<and> map_of chain_ids (rc_chain client) = Some (int (decode_uint cw))
          \<and> s = (fst st1, store_of s, snd (snd st1))
          \<and> store_of st1 = insert_snapshot (ps_ts snap) (rc_chain client) (Some pin) kind (store_of s)"
  using assms by (auto simp: check_outputs_def Let_def store_of_def split: prod.splits list.splits if_splits option.splits)

lemma aggregate_answer:
  assumes "aggregate fuel out repr client calls block st = Some (Inr (outer, outs), st1)"
  shows "\<exists>raw. eth_call fuel out repr client multicall3 (the (encode_call_aggregate calls)) block st = Some (Inr raw, st1)
    \<and> decode_aggregate raw = Some (outer, outs)"
  using assms by (cases "encode_call_aggregate calls") (auto simp: aggregate_def bind_r_def or_raise_def split: option.splits sum.splits)

text \<open>C14. A snapshot is taken only at the pinned block of the right chain: when \<open>snapshot\<close> answers, the
  first two results of its batch were the pinned block number and the chain's id, the rest are handed
  on, and exactly one row with that block was added; when it raises, no row was added. All else it
  changes is the log of calls.\<close>

theorem snapshot_is_pinned:
  assumes "snapshot fuel out repr client kind extra st = Some (res, st1)"
  shows "case res of
      Inl _ \<Rightarrow> log_only (store_of st) (store_of st1)
    | Inr snap \<Rightarrow> \<exists>block_word chain_word db.
        int (decode_uint block_word) = ps_block snap
        \<and> map_of chain_ids (rc_chain client) = Some (int (decode_uint chain_word))
        \<and> (\<exists>st2 raw outer. decode_aggregate raw = Some (outer, block_word # chain_word # ps_results snap)
            \<and> eth_call fuel out repr client multicall3
                 (the (encode_call_aggregate (tripwire (rc_chain client) # chain_id_call # extra)))
                 (BlockNumber (ps_block snap)) st2 = Some (Inr raw, fst st1, db, snd (snd st1)))
        \<and> log_only (store_of st) db
        \<and> store_of st1 = insert_snapshot (ps_ts snap) (rc_chain client) (Some (ps_block snap)) kind db"
proof -
  obtain p st2 where pin: "resolve_pin fuel out repr client 3 st = Some (p, st2)"
    using assms by (auto simp: snapshot_def bind_r_def split: option.splits)
  note f1 = resolve_pin_frame [OF pin]
  let ?calls = "tripwire (rc_chain client) # chain_id_call # extra"
  consider e where "p = Inl e" | n a st3 where "p = Inr n" "aggregate fuel out repr client ?calls (BlockNumber n) st2 = Some (a, st3)"
    using assms pin by (cases p) (auto simp: snapshot_def bind_r_def split: option.splits)
  then show ?thesis
  proof cases
    case 1
    with assms pin f1 show ?thesis by (auto simp: snapshot_def bind_r_def)
  next
    case (2 n a st3)
    have f2: "log_only (store_of st) (store_of st3)" by (rule log_only_trans [OF f1 aggregate_frame [OF 2(2)]])
    show ?thesis
    proof (cases a)
      case (Inl e)
      with assms pin 2 f2 show ?thesis by (auto simp: snapshot_def bind_r_def)
    next
      case (Inr ob)
      obtain outer outs where ob: "ob = (outer, outs)" by (cases ob) auto
      have "check_outputs out client kind n outs st3 = Some (res, st1)"
        using assms pin 2 Inr ob by (simp add: snapshot_def bind_r_def)
      note c = check_outputs_pinned [OF this]
      from aggregate_answer 2(2) obtain raw where raw: "eth_call fuel out repr client multicall3 (the (encode_call_aggregate ?calls)) (BlockNumber n) st2 = Some (Inr raw, st3)"
        "decode_aggregate raw = Some (outer, outs)" unfolding Inr ob by blast
      show ?thesis
      proof (cases res)
        case (Inr snap)
        with c obtain bw cw where k: "outs = bw # cw # ps_results snap" "int (decode_uint bw) = ps_block snap" "ps_block snap = n"
          "map_of chain_ids (rc_chain client) = Some (int (decode_uint cw))" "st3 = (fst st1, store_of st3, snd (snd st1))"
          "store_of st1 = insert_snapshot (ps_ts snap) (rc_chain client) (Some n) kind (store_of st3)" by auto
        have "eth_call fuel out repr client multicall3 (the (encode_call_aggregate ?calls)) (BlockNumber n) st2
            = Some (Inr raw, fst st1, store_of st3, snd (snd st1))" using raw(1) k(5) by metis
        then show ?thesis unfolding Inr sum.case k(3) using k(2,4,6) raw(2) f2 unfolding k(1,3) by blast
      qed (use c f2 in simp)
    qed
  qed
qed

section \<open>A run against a node\<close>

text \<open>A request whose first attempt is answered.\<close>

lemma attempts_answered:
  assumes "check db (o_clock out env) p e = Inr v" "qv_allowed v" "o_send out rq env = (Inr r, env1)"
    "rs_status r = 200"
    "record_call p e (Some 200) (Some (o_millis out (o_clock out env1 - o_clock out env))) (Some cid) (o_clock out env1) db = Inr db1"
  shows "attempts (Suc fuel) out p m e cid rq (Suc left) k l (db, env) = Some (Answered r, db1, env1)"
  using assms by (simp add: retryable_status_def Let_def)

text \<open>A node whose time stands still: it reports head 103, and to the batch pinned at 100 it answers with
  block 100, the id of Base and one word.\<close>

definition node_response :: "json \<Rightarrow> response" where
  "node_response j = \<lparr>rs_status = 200, rs_size = 100, rs_json = Some (JObj [(''result'', j)]), rs_lines = None\<rparr>"

definition node_answer :: "request \<Rightarrow> json" where
  "node_answer rq =
     (if (case rq_json rq of Some d \<Rightarrow> get d ''method'' | None \<Rightarrow> None) = Some (JStr ''eth_blockNumber'') then JStr ''0x67''
      else JStr (''0x'' @ hex_of (abi_return 100 [abi_word 100, abi_word 8453, abi_word 7])))"

definition node :: "instant outside" where
  "node = \<lparr>o_clock = (\<lambda>t. t), o_sleep = (\<lambda>d t. t + max d 0), o_send = (\<lambda>rq t. (Inr (node_response (node_answer rq)), t)),
     o_jitter = (\<lambda>d t. (0, t)), o_uuid = (\<lambda>t. (''id'', t)), o_millis = (\<lambda>d. 0)\<rparr>"

definition node_provider :: provider_row where
  "node_provider = \<lparr>pv_id = 1, pv_name = ''base-rpc'', pv_base_url = ''https://base'', pv_rate_limit = 5,
     pv_rate_period = ''second'', pv_has_credits = False, pv_credit_limit = None, pv_free_tier = True, pv_config = None\<rparr>"

definition node_store :: store where
  "node_store = empty_store\<lparr>providers := [node_provider]\<rparr>"

definition node_client :: rpc_client where
  "node_client = \<lparr>rc_chain = ''base'', rc_urls = [''https://base'']\<rparr>"

definition node_transport :: transport where
  "node_transport = \<lparr>tr_provider = ''base-rpc'', tr_max_attempts = 4, tr_threshold = 5, tr_cooldown = seconds 60,
     tr_failures = 0, tr_opened_at = None\<rparr>"

definition node_row :: "string \<Rightarrow> nat \<Rightarrow> call_row" where
  "node_row e i = \<lparr>cl_id = i, cl_ts = 50, cl_provider = 1, cl_endpoint = e, cl_credits = 1, cl_status = Some 200,
     cl_latency = Some 0, cl_correlation = Some ''id''\<rparr>"

definition node_log :: "call_row list \<Rightarrow> store" where
  "node_log rows = node_store\<lparr>api_call_log := rows\<rparr>"

lemma node_check:
  assumes "List.length rows \<le> 4" "\<forall>r \<in> set rows. cl_provider r = 1"
  shows "check (node_log rows) 50 ''base-rpc'' e = Inr allowed_verdict"
proof -
  have known: "provider_row_of (node_log rows) ''base-rpc'' = Inr node_provider"
    "endpoint_credits (node_log rows) ''base-rpc'' e = Inr 1" "period_seconds (pv_rate_period node_provider) = Inr (seconds 1)"
    by (simp_all add: endpoint_credits_def provider_row_of_def node_log_def node_store_def node_provider_def matching_costs_def
        empty_store_def period_seconds_def)
  have "List.length (window_rows (node_log rows) 1 s) \<le> 4" for s
    using le_trans [OF length_filter_le assms(1)] by (simp add: window_rows_def node_log_def)
  then have "window_used node_provider (window_rows (node_log rows) (pv_id node_provider) s) \<le> 4" for s
    by (simp add: window_used_def credits_mode_def node_provider_def)
  moreover have "incoming node_provider 1 = 1" "pv_rate_limit node_provider = 5"
    by (simp_all add: incoming_def credits_mode_def node_provider_def)
  ultimately have "\<not> pv_rate_limit node_provider < window_used node_provider (window_rows (node_log rows) (pv_id node_provider) s) + incoming node_provider 1" for s
    by (smt (verit))
  moreover have "pv_credit_limit node_provider = None" by (simp add: node_provider_def)
  ultimately show ?thesis by (simp add: check_known [OF known] Let_def)
qed

lemma node_record: "record_call ''base-rpc'' e (Some 200) (Some 0) (Some ''id'') 50 (node_log rows)
  = Inr (node_log (rows @ [node_row e (next_id (map cl_id rows))]))"
  by (simp add: record_call_def provider_row_of_def endpoint_credits_def matching_costs_def node_log_def node_store_def
      node_provider_def empty_store_def node_row_def)

lemma node_rpc:
  assumes "List.length rows \<le> 4" "\<forall>r \<in> set rows. cl_provider r = 1" "meth \<noteq> []"
    "j = (if meth = ''eth_blockNumber'' then JStr ''0x67'' else JStr (''0x'' @ hex_of (abi_return 100 [abi_word 100, abi_word 8453, abi_word 7])))"
  shows "rpc (Suc 0) node repr node_client meth params ([node_transport], node_log rows, 50)
    = Some (Inr j, [node_transport], node_log (rows @ [node_row meth (next_id (map cl_id rows))]), 50)"
proof -
  let ?rq = "\<lparr>rq_method = POST, rq_path = [], rq_params = None,
    rq_json = Some [(''jsonrpc'', JStr ''2.0''), (''id'', JInt 1), (''method'', JStr meth), (''params'', JArr params)]\<rparr>"
  have send: "o_send node ?rq 50 = (Inr (node_response j), 50)"
    by (simp add: node_def node_answer_def get_def assms(4))
  have a: "attempts (Suc 0) node ''base-rpc'' 4 meth ''id'' ?rq (Suc 3) 0 NoAttempt (node_log rows, 50)
    = Some (Answered (node_response j), node_log (rows @ [node_row meth (next_id (map cl_id rows))]), 50)"
    by (rule attempts_answered [where v = allowed_verdict, OF _ _ send]) (simp_all add: node_check assms(1,2) allowed_verdict_def node_response_def node_record node_def)
  have four: "Suc 3 = (4::nat)" by simp
  note a' = a [unfolded four]
  have lab: "(case Some meth of Some (c # cs) \<Rightarrow> c # cs | _ \<Rightarrow> []) = meth" using assms(3) by (cases meth) auto
  have p: "post_json (Suc 0) node [] [(''jsonrpc'', JStr ''2.0''), (''id'', JInt 1), (''method'', JStr meth), (''params'', JArr params)]
      (Some meth) (node_transport, node_log rows, 50)
    = Some (Inr (JObj [(''result'', j)]), node_transport, node_log (rows @ [node_row meth (next_id (map cl_id rows))]), 50)"
    using a' assms(3)
    by (cases meth) (simp_all add: post_json_def request_json_def node_transport_def breaker_gate_def node_def parse_response_def
        node_response_def max_response_bytes_def on_success_def)
  show ?thesis
    unfolding rpc_def by (simp add: node_client_def p rpc_error_of_def get_def or_raise_def)
qed

lemma hex_of_take: "take (2 * n) (hex_of bs) = hex_of (take n bs)"
proof (induction n arbitrary: bs)
  case (Suc n)
  then show ?case by (cases bs) (simp_all add: hex_of_def)
qed (simp add: hex_of_def)

lemma selector_body: "\<exists>h. tuple_body (multicall3, selector s) = Some h"
proof -
  have h: "hex_number b acc z \<noteq> None" if "list_all (\<lambda>c. hex_val c \<noteq> None \<and> c \<noteq> CHR ''_'') z" "z \<noteq> [] \<or> b" for b acc z
    using that by (induction b acc z rule: hex_number.induct) auto
  have "strip multicall3 = multicall3" by code_simp
  moreover have "list_all (\<lambda>c. hex_val c \<noteq> None \<and> c \<noteq> CHR ''_'') (drop 2 multicall3)" by code_simp
  ultimately have m: "int_base16 multicall3 \<noteq> None"
    using h [of "drop 2 multicall3"] by (simp add: int_base16_def hex_unsigned_def multicall3_def)
  have "selector s = ''0x'' @ hex_of (take 4 (keccak256 (bytes_of s)))"
    using hex_of_take [of 4 "keccak256 (bytes_of s)"] by (simp add: selector_def)
  with m show ?thesis by (auto simp: tuple_body_def fromhex_hex_of Let_def)
qed

lemma node_snapshot: "\<exists>snap st1. snapshot (Suc 0) node repr node_client kind [] ([node_transport], node_store, 50) = Some (Inr snap, st1)
    \<and> ps_block snap = 100 \<and> ps_results snap = [abi_word 7]"
proof -
  let ?calls = "[tripwire ''base'', chain_id_call]"
  let ?raw = "''0x'' @ hex_of (abi_return 100 [abi_word 100, abi_word 8453, abi_word 7])"
  define log1 where "log1 = [node_row ''eth_blockNumber'' (next_id [])]"
  define log2 where "log2 = log1 @ [node_row ''eth_call'' (next_id (map cl_id log1))]"
  have start: "node_store = node_log []" by (simp add: node_log_def node_store_def empty_store_def)
  have l1: "List.length log1 \<le> 4" "\<forall>r \<in> set log1. cl_provider r = 1" by (simp_all add: log1_def node_row_def)
  have h: "int_base16 (text_of repr (JStr ''0x67'')) = Some 103" by (simp add: text_of_def str_of_def) code_simp
  have pin: "resolve_pin (Suc 0) node repr node_client 3 ([node_transport], node_store, 50) = Some (Inr 100, [node_transport], node_log log1, 50)"
    unfolding resolve_pin_def block_number_def start
    by (simp add: node_rpc [where rows = "[]"] bind_r_def or_raise_def h log1_def)
  obtain data where data: "encode_call_aggregate ?calls = Some data"
    using selector_body [of "''getBlockNumber()''"] selector_body [of "''getChainId()''"]
    by (auto simp: encode_call_aggregate_def tripwire_def chain_id_call_def)
  have raw: "eth_call (Suc 0) node repr node_client multicall3 data (BlockNumber 100) ([node_transport], node_log log1, 50)
      = Some (Inr ?raw, [node_transport], node_log log2, 50)"
    unfolding eth_call_def by (simp add: node_rpc [OF l1] bind_r_def text_of_def str_of_def log2_def)
  have dec: "decode_aggregate ?raw = Some (100, [abi_word 100, abi_word 8453, abi_word 7])"
    by (rule decode_aggregate_inverts_abi_facts) (simp_all add: abi_return_def abi_array_def abi_bytes_def zero_pad_def)
  have agg: "aggregate (Suc 0) node repr node_client ?calls (BlockNumber 100) ([node_transport], node_log log1, 50)
      = Some (Inr (100, [abi_word 100, abi_word 8453, abi_word 7]), [node_transport], node_log log2, 50)"
    unfolding aggregate_def using raw dec by (simp add: data bind_r_def or_raise_def)
  have u: "decode_uint (abi_word n) = n" if "n < 2 ^ 256" for n using that by (simp add: decode_uint_def be_value_abi_word)
  show ?thesis
    unfolding snapshot_def using pin agg
    by (simp add: bind_r_def node_client_def check_outputs_def Let_def u chain_ids_def)
qed

lemma snapshot_is_pinned_witness:
  "\<exists>snap st1 db bw cw. snapshot (Suc 0) node (\<lambda>_. []) node_client ''cycle'' [] ([node_transport], node_store, 50) = Some (Inr snap, st1)
     \<and> decode_uint bw = 100 \<and> decode_uint cw = 8453 \<and> log_only node_store db
     \<and> store_of st1 = insert_snapshot (ps_ts snap) ''base'' (Some 100) ''cycle'' db"
proof -
  obtain snap st1 where s: "snapshot (Suc 0) node (\<lambda>_. []) node_client ''cycle'' [] ([node_transport], node_store, 50) = Some (Inr snap, st1)"
    "ps_block snap = 100" using node_snapshot by blast
  from snapshot_is_pinned [OF s(1)] obtain bw cw db where c: "int (decode_uint bw) = ps_block snap"
    "map_of chain_ids (rc_chain node_client) = Some (int (decode_uint cw))"
    "log_only (store_of ([node_transport], node_store, 50 :: instant)) db"
    "store_of st1 = insert_snapshot (ps_ts snap) (rc_chain node_client) (Some (ps_block snap)) ''cycle'' db"
    by auto
  then have "decode_uint bw = 100" "decode_uint cw = 8453" using s(2) by (simp_all add: node_client_def chain_ids_def)
  with s c show ?thesis
    by (intro exI [of _ snap] exI [of _ st1] exI [of _ db] exI [of _ bw] exI [of _ cw]) (simp add: store_of_def node_client_def)
qed

end
