(* ===== verification/Peers.thy ===== *)
theory Peers
  imports Rpc Recorders
begin

text \<open>
  What the REST clients share: the ring of peers (\<open>_get_json\<close> of \<open>clients/gmx.py\<close> and
  \<open>clients/btc.py\<close>), the conversions \<open>int(...)\<close> and \<open>str(...)\<close> of decoded JSON values, and iteration
  over a decoded value. The state is the transports of the peers, the store and the environment.
\<close>

section \<open>Errors\<close>

text \<open>\<open>ClientTransport\<close>: of a client with a single upstream.\<close>

datatype client_error =
    PeersSpent "(string \<times> transport_error) list"
  | UnknownToken string
  | MarketNotFound string
  | ClientTransport transport_error

datatype client_raised = ClientRaised client_error | ClientQuota quota_error | ClientPython

type_synonym ('a, 's) client_result = "((client_raised + 'a) \<times> 's) option"

definition or_client :: "'a option \<Rightarrow> 's \<Rightarrow> ('a, 's) client_result" where
  "or_client x s = Some (case x of None \<Rightarrow> Inl ClientPython | Some a \<Rightarrow> Inr a, s)"

section \<open>The ring\<close>

text \<open>The peers in turn; the answer comes with the peer that gave it. Only transport errors move on to the next.\<close>

fun peers_get :: "nat \<Rightarrow> 'e outside \<Rightarrow> string \<Rightarrow> dict option \<Rightarrow> (string \<times> transport) list
    \<Rightarrow> transport list \<Rightarrow> (string \<times> transport_error) list \<Rightarrow> store \<times> 'e \<Rightarrow> (json \<times> string, 'e ring) client_result" where
  "peers_get fuel out path params [] tried errors (db, env) = Some (Inl (ClientRaised (PeersSpent errors)), tried, db, env)"
| "peers_get fuel out path params ((peer, t) # rest) tried errors (db, env) =
     (case get_json fuel out path params None (t, db, env) of
        None \<Rightarrow> None
      | Some (Inl (QuotaRaised e), t1, db1, env1) \<Rightarrow> Some (Inl (ClientQuota e), tried @ t1 # map snd rest, db1, env1)
      | Some (Inl (TransportRaised e), t1, db1, env1) \<Rightarrow>
          peers_get fuel out path params rest (tried @ [t1]) (errors @ [(peer, e)]) (db1, env1)
      | Some (Inr payload, t1, db1, env1) \<Rightarrow> Some (Inr (payload, peer), tried @ t1 # map snd rest, db1, env1))"

text \<open>A client's peers; \<open>zip\<close> cuts off the longer list.\<close>

definition peer_json :: "nat \<Rightarrow> 'e outside \<Rightarrow> string list \<Rightarrow> string \<Rightarrow> dict option \<Rightarrow> 'e ring \<Rightarrow> (json \<times> string, 'e ring) client_result" where
  "peer_json fuel out peers path params st =
     (let (ts, db, env) = st in peers_get fuel out path params (zip peers ts) [] [] (db, env))"

section \<open>Conversions\<close>

text \<open>\<open>int(text)\<close>: blanks around, a sign, single underscores between digits.\<close>

definition int_unsigned :: "string \<Rightarrow> int option" where
  "int_unsigned s =
     (if list_all (\<lambda>g. g \<noteq> [] \<and> list_all is_digit g) (split_on CHR ''_'' s)
      then Some (int (digits_nat (filter (\<lambda>c. c \<noteq> CHR ''_'') s))) else None)"

definition int_of_text :: "string \<Rightarrow> int option" where
  "int_of_text text =
     (case strip text of
        [] \<Rightarrow> None
      | c # s \<Rightarrow> if c = CHR ''-'' then map_option uminus (int_unsigned s)
                 else if c = CHR ''+'' then int_unsigned s else int_unsigned (c # s))"

text \<open>\<open>int(d)\<close> of a decimal truncates.\<close>

definition dtrunc :: "decimal \<Rightarrow> int" where
  "dtrunc d =
     (let n = (if 0 \<le> dexp d then dcoef d * 10 ^ nat (dexp d) else dcoef d div 10 ^ nat (- dexp d))
      in if dneg d then - int n else int n)"

definition int_of_json :: "json \<Rightarrow> int option" where
  "int_of_json j = (case j of
     JInt n \<Rightarrow> Some n | JBool b \<Rightarrow> Some (if b then 1 else 0) | JFloat r \<Rightarrow> map_option dtrunc (text_to_decimal r)
   | JStr s \<Rightarrow> int_of_text s | _ \<Rightarrow> None)"

text \<open>\<open>for x in value\<close>: an object yields its keys, a text its characters.\<close>

definition iter_items :: "json \<Rightarrow> json list option" where
  "iter_items j = (case j of
     JArr xs \<Rightarrow> Some xs | JObj d \<Rightarrow> Some (map (\<lambda>kv. JStr (fst kv)) d) | JStr s \<Rightarrow> Some (map (\<lambda>c. JStr [c]) s)
   | _ \<Rightarrow> None)"

definition as_object :: "json \<Rightarrow> dict option" where
  "as_object j = (case j of JObj d \<Rightarrow> Some d | _ \<Rightarrow> None)"

text \<open>A \<open>str\<close> and a \<open>str | None\<close> field of a model.\<close>

definition text_field :: "json \<Rightarrow> string option" where
  "text_field j = (case j of JStr s \<Rightarrow> Some s | _ \<Rightarrow> None)"

definition opt_text_field :: "json \<Rightarrow> string option option" where
  "opt_text_field j = (case j of JStr s \<Rightarrow> Some (Some s) | JNull \<Rightarrow> Some None | _ \<Rightarrow> None)"

fun collect :: "('a \<Rightarrow> 'b option) \<Rightarrow> 'a list \<Rightarrow> 'b list option" where
  "collect f [] = Some []"
| "collect f (x # xs) = (case f x of None \<Rightarrow> None | Some y \<Rightarrow> map_option ((#) y) (collect f xs))"

section \<open>Numbers\<close>

lemma split_on_digits: "list_all is_digit s \<Longrightarrow> split_on CHR ''_'' s = [s]"
proof (induction s)
  case (Cons c s)
  then have "c \<noteq> CHR ''_''" using digit_not_mark by auto
  with Cons show ?case by simp
qed simp

lemma int_of_text_nat [simp]: "int_of_text (nat_str n) = Some (int n)"
proof -
  have d: "list_all is_digit (nat_str n)" by (rule list_all_nat_str)
  then have sp: "strip (nat_str n) = nat_str n"
    by (intro strip_no_space) (auto simp: list_all_iff dest: digit_not_mark)
  have f: "filter (\<lambda>c. c \<noteq> CHR ''_'') (nat_str n) = nat_str n"
    using d by (auto simp: list_all_iff filter_id_conv dest: digit_not_mark)
  obtain c s where cs: "nat_str n = c # s" using nat_str_not_Nil by (cases "nat_str n") auto
  have "c \<noteq> CHR ''-'' \<and> c \<noteq> CHR ''+''" using nat_str_hd [of n] cs by simp
  then have "int_of_text (nat_str n) = int_unsigned (nat_str n)"
    unfolding int_of_text_def sp by (simp add: cs)
  then show ?thesis using d by (simp add: int_unsigned_def split_on_digits f)
qed

section \<open>Frames\<close>

lemma get_frame: "get_json fuel out path params label (t, db, env) = Some (r, t1, db1, env1) \<Longrightarrow> log_only db db1"
  unfolding get_json_def by (rule request_frame)

lemma peers_get_frame:
  "peers_get fuel out path params ends tried errors (db, env) = Some (r, st) \<Longrightarrow> log_only db (store_of st)"
proof (induction ends arbitrary: tried errors db env)
  case Nil
  then show ?case by (auto simp: store_of_def)
next
  case (Cons u ends)
  obtain peer t where u: "u = (peer, t)" by (cases u) auto
  let ?g = "get_json fuel out path params None (t, db, env)"
  have "?g \<noteq> None"
  proof
    assume "?g = None"
    with Cons.prems show False by (simp add: u)
  qed
  then obtain q t1 db1 env1 where g: "?g = Some (q, t1, db1, env1)" by (metis option.exhaust prod_cases4)
  have f: "log_only db db1" by (rule get_frame [OF g])
  from Cons.prems f g show ?case
    by (auto simp: u store_of_def split: sum.splits raised.splits
        dest!: Cons.IH [unfolded store_of_def] intro: log_only_trans)
qed

lemma peer_json_frame: "peer_json fuel out peers path params st = Some (r, st1) \<Longrightarrow> log_only (store_of st) (store_of st1)"
  by (auto simp: peer_json_def store_of_def split: prod.splits dest!: peers_get_frame)

lemma or_client_frame: "or_client x s = Some (q, s2) \<Longrightarrow> log_only (store_of s) (store_of s2)"
  by (auto simp: or_client_def)

text \<open>A ring that answers names the first peer whose transport did; those before it failed.\<close>

lemma peers_get_answer:
  assumes "peers_get fuel out path params ends tried errors (db, env) = Some (Inr (payload, peer), st)"
  shows "peer \<in> fst ` set ends"
  using assms
proof (induction ends arbitrary: tried errors db env)
  case (Cons u ends)
  obtain p t where u: "u = (p, t)" by (cases u) auto
  from Cons show ?case by (auto simp: u split: option.splits sum.splits raised.splits prod.splits)
qed simp

end
