(* ===== verification/Portfolio.thy ===== *)
theory Portfolio
  imports Peers "HOL-Library.Sublist"
begin

text \<open>
  The reads behind the recorders: \<open>read_account\<close> of \<open>portfolio/aave.py\<close>, \<open>read_holdings\<close> of
  \<open>portfolio/holdings.py\<close> and \<open>get_address\<close> of \<open>clients/btc.py\<close>. What they record is in \<open>Recorders\<close>.
\<close>

section \<open>Aave account\<close>

definition read_prec :: nat where
  "read_prec = 50"

definition scaled :: "string \<Rightarrow> int \<Rightarrow> decimal option" where
  "scaled word_hex places = do {
     n \<leftarrow> int_base16 word_hex;
     ddiv read_prec (dint (sign_extend n 256)) (dpow10 read_prec places)
   }"

text \<open>\<open>f"{int(address, 16):064x}"\<close>.\<close>

definition addr_arg :: "string \<Rightarrow> string option" where
  "addr_arg address = map_option encode_uint (int_base16 address)"

text \<open>\<open>raw[2:][i : i + 64] for i in range(0, len(raw) - 2, 64)\<close>.\<close>

fun chunks64 :: "nat \<Rightarrow> string \<Rightarrow> string list" where
  "chunks64 0 s = []"
| "chunks64 (Suc n) s = take 64 s # chunks64 n (drop 64 s)"

definition hex_words :: "string \<Rightarrow> string list" where
  "hex_words raw = chunks64 ((List.length raw - 2 + 63) div 64) (drop 2 raw)"

definition word_at :: "string list \<Rightarrow> nat \<Rightarrow> string option" where
  "word_at ws i = (if i < List.length ws then Some (ws ! i) else None)"

definition account_of_words :: "string \<Rightarrow> int \<Rightarrow> string list \<Rightarrow> aave_account option" where
  "account_of_words wallet block ws = do {
     collateral \<leftarrow> Option.bind (word_at ws 0) (\<lambda>w. scaled w 8);
     debt \<leftarrow> Option.bind (word_at ws 1) (\<lambda>w. scaled w 8);
     borrows \<leftarrow> Option.bind (word_at ws 2) (\<lambda>w. scaled w 8);
     threshold \<leftarrow> Option.bind (word_at ws 3) int_base16;
     ltv \<leftarrow> Option.bind (word_at ws 4) int_base16;
     health \<leftarrow> Option.bind (word_at ws 5) (\<lambda>w. scaled w 18);
     Some \<lparr>aa_wallet = wallet, aa_total_collateral_usd = collateral, aa_total_debt_usd = debt,
           aa_available_borrows_usd = borrows, aa_liq_threshold_bps = threshold, aa_ltv_bps = ltv,
           aa_health_factor = health, aa_block_number = block\<rparr>
   }"

definition read_account :: "nat \<Rightarrow> 'e outside \<Rightarrow> (json \<Rightarrow> string) \<Rightarrow> rpc_client \<Rightarrow> string \<Rightarrow> settings \<Rightarrow> int \<Rightarrow> 'e ring
    \<Rightarrow> (aave_account, 'e) rpc_result" where
  "read_account fuel out repr client wallet settings block st =
     bind_r (or_raise (map_option (\<lambda>a. selector ''getUserAccountData(address)'' @ a) (addr_arg wallet)) st)
       (\<lambda>data st1. bind_r (eth_call fuel out repr client (aave_pool_base settings) data (BlockNumber block) st1)
         (\<lambda>raw. or_raise (account_of_words wallet block (hex_words raw))))"

section \<open>Wallet holdings\<close>

definition token_registry :: "(string \<times> (string \<times> string \<times> int) list) list" where
  "token_registry =
     [(''base'',
        [(''WETH'', ''0x4200000000000000000000000000000000000006'', 18),
         (''USDC'', ''0x833589fcd6edb6e08f4c7c32d4f71b54bda02913'', 6),
         (''AERO'', ''0x940181a94A35A4569E4529A3CDfB74e38FD98631'', 18)]),
      (''arbitrum'',
        [(''WETH'', ''0x82aF49447D8a07e3bd95BD0d56f35241523fBab1'', 18),
         (''USDC'', ''0xaf88d065e77c8cC2239327C5EDb3A432268e5831'', 6)])]"

definition amount_of :: "int \<Rightarrow> int \<Rightarrow> decimal option" where
  "amount_of raw_int decimals = ddiv read_prec (dint raw_int) (dpow10 read_prec decimals)"

definition holding_if :: "string \<Rightarrow> int \<Rightarrow> string \<Rightarrow> string option \<Rightarrow> decimal \<Rightarrow> holding list" where
  "holding_if chain block symbol token amount =
     (if dlt dzero amount
      then [\<lparr>h_chain = chain, h_symbol = symbol, h_token = token, h_amount = amount, h_block_number = block\<rparr>] else [])"

fun token_balances :: "nat \<Rightarrow> 'e outside \<Rightarrow> (json \<Rightarrow> string) \<Rightarrow> rpc_client \<Rightarrow> string \<Rightarrow> string \<Rightarrow> int
    \<Rightarrow> (string \<times> string \<times> int) list \<Rightarrow> 'e ring \<Rightarrow> (holding list, 'e) rpc_result" where
  "token_balances fuel out repr client chain wallet block [] st = Some (Inr [], st)"
| "token_balances fuel out repr client chain wallet block ((symbol, token, decimals) # rest) st =
     bind_r (or_raise (map_option (\<lambda>a. selector ''balanceOf(address)'' @ a) (addr_arg wallet)) st)
       (\<lambda>data st1. bind_r (eth_call fuel out repr client token data (BlockNumber block) st1)
         (\<lambda>raw st2. bind_r (or_raise (Option.bind (int_base16 raw) (\<lambda>n. amount_of n decimals)) st2)
           (\<lambda>amount st3. bind_r (token_balances fuel out repr client chain wallet block rest st3)
             (\<lambda>hs st4. Some (Inr (holding_if chain block symbol (Some token) amount @ hs), st4)))))"

definition read_holdings :: "nat \<Rightarrow> 'e outside \<Rightarrow> (json \<Rightarrow> string) \<Rightarrow> rpc_client \<Rightarrow> string \<Rightarrow> string \<Rightarrow> int \<Rightarrow> 'e ring
    \<Rightarrow> (holding list, 'e) rpc_result" where
  "read_holdings fuel out repr client chain wallet block st =
     bind_r (rpc fuel out repr client ''eth_getBalance'' [JStr wallet, JStr (hex_int block)] st)
       (\<lambda>native_raw st1. bind_r (or_raise (Option.bind (int_base16 (text_of repr native_raw)) (\<lambda>n. amount_of n 18)) st1)
         (\<lambda>native st2. bind_r (token_balances fuel out repr client chain wallet block
               (case map_of token_registry chain of None \<Rightarrow> [] | Some ts \<Rightarrow> ts) st2)
           (\<lambda>hs st3. Some (Inr (holding_if chain block ''ETH'' None native @ hs), st3))))"

section \<open>Bitcoin address\<close>

definition stats_of_payload :: "string \<Rightarrow> string \<Rightarrow> json \<Rightarrow> btc_stats option" where
  "stats_of_payload address peer payload = do {
     d \<leftarrow> as_object payload;
     chain \<leftarrow> Option.bind (get d ''chain_stats'') as_object;
     mempool \<leftarrow> Option.bind (get d ''mempool_stats'') as_object;
     funded \<leftarrow> Option.bind (get chain ''funded_txo_sum'') int_of_json;
     spent \<leftarrow> Option.bind (get chain ''spent_txo_sum'') int_of_json;
     pending_funded \<leftarrow> Option.bind (get mempool ''funded_txo_sum'') int_of_json;
     pending_spent \<leftarrow> Option.bind (get mempool ''spent_txo_sum'') int_of_json;
     txs \<leftarrow> Option.bind (get chain ''tx_count'') int_of_json;
     unconfirmed \<leftarrow> Option.bind (get mempool ''tx_count'') int_of_json;
     Some \<lparr>bt_address = address, bt_confirmed_sats = funded - spent,
           bt_pending_sats = funded - spent + pending_funded - pending_spent,
           bt_tx_count = txs, bt_unconfirmed_tx_count = unconfirmed, bt_source = peer\<rparr>
   }"

definition get_address :: "nat \<Rightarrow> 'e outside \<Rightarrow> string list \<Rightarrow> string \<Rightarrow> 'e ring \<Rightarrow> (btc_stats, 'e ring) client_result" where
  "get_address fuel out peers address st =
     bind_r (peer_json fuel out peers (''/address/'' @ address) None st)
       (\<lambda>(payload, peer). or_client (stats_of_payload address peer payload))"

section \<open>Frames\<close>

lemma read_account_frame: "read_account fuel out repr client w s b st = Some (r, st1) \<Longrightarrow> log_only (store_of st) (store_of st1)"
  unfolding read_account_def
  by (erule bind_frame) (auto dest: or_raise_frame eth_call_frame elim!: bind_frame)

lemma token_balances_frame:
  "token_balances fuel out repr client ch w b toks st = Some (r, st1) \<Longrightarrow> log_only (store_of st) (store_of st1)"
proof (induction toks arbitrary: st r st1)
  case (Cons t toks)
  obtain symbol token decimals where t: "t = (symbol, token, decimals)" by (cases t) auto
  from Cons.prems show ?case
    unfolding t token_balances.simps
    by (elim bind_frame) (auto dest: or_raise_frame eth_call_frame Cons.IH elim!: bind_frame)
qed simp

lemma read_holdings_frame: "read_holdings fuel out repr client ch w b st = Some (r, st1) \<Longrightarrow> log_only (store_of st) (store_of st1)"
  unfolding read_holdings_def
  by (erule bind_frame) (auto dest: or_raise_frame rpc_frame token_balances_frame elim!: bind_frame)

lemma get_address_frame: "get_address fuel out peers a st = Some (r, st1) \<Longrightarrow> log_only (store_of st) (store_of st1)"
  unfolding get_address_def
  by (erule bind_frame) (auto dest: peer_json_frame or_client_frame)

section \<open>Reading back a number in base 16\<close>

lemma hex_number_digits:
  "list_all (\<lambda>d. d < 16) ds \<Longrightarrow> hex_number b acc (map hex_digit ds)
     = (if ds = [] then (if b then Some acc else None) else Some (foldl (\<lambda>n d. 16 * n + d) acc ds))"
proof (induction ds arbitrary: b acc)
  case (Cons d ds)
  then have "hex_digit d \<noteq> CHR ''_''" by (auto simp: hex_digit_def dest!: arg_cong [where f = "of_char :: char \<Rightarrow> nat"])
  with Cons hex_val_digit [of d] show ?case by simp
qed simp

lemma fixed_digits_small: "list_all (\<lambda>d. d < 16) (fixed_digits 16 m n)"
  by (induction m arbitrary: n) auto

lemma foldl_fixed_digits: "foldl (\<lambda>n d. 16 * n + d) 0 (fixed_digits 16 m n) = n mod 16 ^ m"
proof (induction m arbitrary: n)
  case (Suc m)
  have "16 * (n div 16 mod 16 ^ m) + n mod 16 = n mod (16 * 16 ^ m)" by (metis mod_mult2_eq mult.commute add.commute)
  with Suc show ?case by simp
qed simp

lemma hex_digit_char: "d < 16 \<Longrightarrow> \<not> is_space (hex_digit d) \<and> hex_digit d \<notin> {CHR ''-'', CHR ''+'', CHR ''x'', CHR ''X''}"
  by (cases "d < 10") (auto simp: hex_digit_def is_space_def Let_def dest!: arg_cong [where f = "of_char :: char \<Rightarrow> nat"])

lemma int_base16_digits:
  assumes "list_all (\<lambda>d. d < 16) ds" "ds \<noteq> []"
  shows "int_base16 (map hex_digit ds) = Some (int (foldl (\<lambda>n d. 16 * n + d) 0 ds))"
proof -
  let ?s = "map hex_digit ds"
  have c: "\<not> is_space x \<and> x \<notin> {CHR ''-'', CHR ''+'', CHR ''x'', CHR ''X''}" if "x \<in> set ?s" for x
    using that assms(1) hex_digit_char by (auto simp: list_all_iff)
  have strip: "strip ?s = ?s" by (rule strip_no_space) (use c in \<open>auto simp: list_all_iff\<close>)
  have no_x: "\<not> startswith ?s (CHR ''0'' # CHR ''x'' # t)" "\<not> startswith ?s (CHR ''0'' # CHR ''X'' # t)" for t
  proof -
    show "\<not> startswith ?s (CHR ''0'' # CHR ''x'' # t)"
    proof
      assume "startswith ?s (CHR ''0'' # CHR ''x'' # t)"
      then obtain u where "?s = (CHR ''0'' # CHR ''x'' # t) @ u" unfolding startswith_iff by blast
      then have "CHR ''x'' \<in> set ?s" by simp
      with c show False by blast
    qed
    show "\<not> startswith ?s (CHR ''0'' # CHR ''X'' # t)"
    proof
      assume "startswith ?s (CHR ''0'' # CHR ''X'' # t)"
      then obtain u where "?s = (CHR ''0'' # CHR ''X'' # t) @ u" unfolding startswith_iff by blast
      then have "CHR ''X'' \<in> set ?s" by simp
      with c show False by blast
    qed
  qed
  have u: "hex_unsigned ?s = Some (foldl (\<lambda>n d. 16 * n + d) 0 ds)"
    using assms by (simp add: hex_unsigned_def no_x hex_number_digits)
  obtain a t where at: "?s = a # t" using assms(2) by (cases ds) auto
  then have "a \<noteq> CHR ''-''" "a \<noteq> CHR ''+''" using c [of a] by auto
  then show ?thesis unfolding int_base16_def strip by (simp add: at) (simp add: u flip: at)
qed

lemma encode_uint_digits: "n < 2 ^ 256 \<Longrightarrow> encode_uint (int n) = map hex_digit (fixed_digits 16 64 n)"
  by (simp add: encode_uint_word abi_word_def hex_of_fixed del: fixed_digits.simps)

lemma int_base16_encode:
  assumes "n < 2 ^ 256"
  shows "int_base16 (encode_uint (int n)) = Some (int n)"
proof -
  have ne: "fixed_digits 16 64 n \<noteq> []" using length_fixed_digits [of 16 64 n] by (metis list.size(3) zero_neq_numeral)
  have "(16::nat) ^ 64 = 2 ^ 256" by simp
  with assms have "n mod 16 ^ 64 = n" by simp
  with int_base16_digits [OF fixed_digits_small ne] show ?thesis
    by (simp only: encode_uint_digits [OF assms] foldl_fixed_digits)
qed

lemma length_encode_uint: "n < 2 ^ 256 \<Longrightarrow> List.length (encode_uint (int n)) = 64"
  by (simp only: encode_uint_digits length_map length_fixed_digits)

section \<open>Account data\<close>

lemma chunks64_concat: "list_all (\<lambda>w. List.length w = 64) ws \<Longrightarrow> chunks64 (List.length ws) (concat ws) = ws"
  by (induction ws) simp_all

lemma hex_words_concat:
  assumes "list_all (\<lambda>w. List.length w = 64) ws"
  shows "hex_words (''0x'' @ concat ws) = ws"
proof -
  have "List.length (concat ws) = 64 * List.length ws" using assms by (induction ws) simp_all
  then have "(List.length (''0x'' @ concat ws) - 2 + 63) div 64 = List.length ws" by simp
  with chunks64_concat [OF assms] show ?thesis by (simp add: hex_words_def)
qed

text \<open>What a contract returns: its words in hexadecimal.\<close>

definition returned :: "256 word list \<Rightarrow> string" where
  "returned ws = ''0x'' @ concat (map (\<lambda>w. encode_uint (uint w)) ws)"

lemma uint_encode: "int_base16 (encode_uint (uint w)) = Some (uint w)" "List.length (encode_uint (uint w)) = 64" for w :: "256 word"
proof -
  have n: "unat w < 2 ^ 256" using unsigned_less [of w] by simp
  show "int_base16 (encode_uint (uint w)) = Some (uint w)" using int_base16_encode [OF n] by simp
  show "List.length (encode_uint (uint w)) = 64" using length_encode_uint [OF n] by simp
qed

lemma hex_words_returned: "hex_words (returned ws) = map (\<lambda>w. encode_uint (uint w)) ws"
  unfolding returned_def by (rule hex_words_concat) (simp add: list_all_iff uint_encode(2))

lemma scaled_word: "0 \<le> places \<Longrightarrow> \<exists>x. scaled (encode_uint (uint w)) places = Some x
    \<and> dval x = rnd read_prec (real_of_int (sint (w :: 256 word)) / 10 ^ nat places)"
proof -
  assume "0 \<le> places"
  have sg: "sign_extend (uint w) 256 = sint w" using sign_extend_is_sint [of w] by simp
  have p: "0 < read_prec" by (simp add: read_prec_def)
  have "dval (dpow10 read_prec places) = 10 powi places" using dval_dpow10 [OF p] .
  moreover from this have "dval (dpow10 read_prec places) \<noteq> 0" by simp
  then obtain x where x: "ddiv read_prec (dint (sint w)) (dpow10 read_prec places) = Some x" using ddiv_total by fastforce
  ultimately have "dval x = rnd read_prec (real_of_int (sint w) / 10 powi places)" using dval_ddiv [OF p x] by simp
  with x \<open>0 \<le> places\<close> show ?thesis by (simp add: scaled_def uint_encode sg power_int_def)
qed

lemma account_words_decoded_facts:
  "\<exists>a. account_of_words wallet block (hex_words (returned [w0, w1, w2, w3, w4, w5])) = Some a
    \<and> dval (aa_total_collateral_usd a) = rnd read_prec (real_of_int (sint w0) / 10 ^ 8)
    \<and> dval (aa_total_debt_usd a) = rnd read_prec (real_of_int (sint w1) / 10 ^ 8)
    \<and> dval (aa_available_borrows_usd a) = rnd read_prec (real_of_int (sint w2) / 10 ^ 8)
    \<and> aa_liq_threshold_bps a = uint w3 \<and> aa_ltv_bps a = uint w4
    \<and> dval (aa_health_factor a) = rnd read_prec (real_of_int (sint w5) / 10 ^ 18)"
proof -
  obtain c d b h where x: "scaled (encode_uint (uint w0)) 8 = Some c" "dval c = rnd read_prec (real_of_int (sint w0) / 10 ^ nat 8)"
    "scaled (encode_uint (uint w1)) 8 = Some d" "dval d = rnd read_prec (real_of_int (sint w1) / 10 ^ nat 8)"
    "scaled (encode_uint (uint w2)) 8 = Some b" "dval b = rnd read_prec (real_of_int (sint w2) / 10 ^ nat 8)"
    "scaled (encode_uint (uint w5)) 18 = Some h" "dval h = rnd read_prec (real_of_int (sint w5) / 10 ^ nat 18)"
    using scaled_word [of 8] scaled_word [of 18] by (metis zero_le_numeral)
  show ?thesis
    unfolding hex_words_returned account_of_words_def
    by (simp add: word_at_def uint_encode x del: power_numeral)
qed

text \<open>The words a lending pool returns become the account exactly: the amounts in dollars are the
  two's complement words over ten to the 8, the thresholds the unsigned words, and the health factor the
  two's complement word over ten to the 18.\<close>

theorem account_words_decoded:
  "\<exists>a. account_of_words wallet block (hex_words (returned [w0, w1, w2, w3, w4, w5])) = Some a
    \<and> dval (aa_total_collateral_usd a) = rnd read_prec (real_of_int (sint w0) / 10 ^ 8)
    \<and> dval (aa_total_debt_usd a) = rnd read_prec (real_of_int (sint w1) / 10 ^ 8)
    \<and> dval (aa_available_borrows_usd a) = rnd read_prec (real_of_int (sint w2) / 10 ^ 8)
    \<and> aa_liq_threshold_bps a = uint w3 \<and> aa_ltv_bps a = uint w4
    \<and> dval (aa_health_factor a) = rnd read_prec (real_of_int (sint w5) / 10 ^ 18)"
  by (rule account_words_decoded_facts)

text \<open>A wallet without debt, for which the pool returns the largest word as its health factor, is recorded with
  a negative health factor: the word is read as a signed number.\<close>

theorem debt_free_health_is_negative:
  "\<exists>a. account_of_words wallet block (hex_words (returned [w0, 0, w2, w3, w4, - 1])) = Some a
    \<and> dval (aa_total_debt_usd a) = 0 \<and> dval (aa_health_factor a) < 0"
proof -
  have "sint (- 1 :: 256 word) = - 1" by simp
  moreover have "rnd read_prec (- 1 / 10 ^ 18) < 0"
  proof -
    have e: "- 1 / 10 ^ 18 = - (real 1 * 10 powi (- 18))"
      by (simp only: power_int_minus power_int_numeral of_nat_1 mult_1 divide_inverse mult_minus_left)
    have "rnd read_prec (real 1 * 10 powi (- 18)) = real 1 * 10 powi (- 18)"
      by (rule rnd_exact) (simp_all add: read_prec_def)
    then have "rnd read_prec (- 1 / 10 ^ 18) = - (real 1 * 10 powi (- 18))" unfolding e rnd_minus by (rule arg_cong)
    then show ?thesis by (simp only: of_nat_1 mult_1 neg_less_0_iff_less) (rule zero_less_power_int, simp)
  qed
  moreover have "rnd read_prec (real_of_int (sint (0 :: 256 word)) / 10 ^ 8) = 0" by simp
  ultimately show ?thesis using account_words_decoded_facts [of wallet block w0 0 w2 w3 w4 "- 1"]
    by (metis of_int_1 of_int_minus)
qed

section \<open>Holdings\<close>

lemma subseq_distinct: "subseq xs ys \<Longrightarrow> distinct ys \<Longrightarrow> distinct xs"
  by (induction rule: list_emb.induct) (auto dest: list_emb_set)

definition holding_ok :: "string \<Rightarrow> int \<Rightarrow> holding \<Rightarrow> bool" where
  "holding_ok chain block h \<longleftrightarrow> h_chain h = chain \<and> h_block_number h = block \<and> 0 < dval (h_amount h)"

lemma holding_if_ok: "list_all (holding_ok chain block) (holding_if chain block symbol token amount)"
  "map h_symbol (holding_if chain block symbol token amount) \<in> {[], [symbol]}"
  by (simp_all add: holding_if_def holding_ok_def dlt_iff)

lemma token_balances_ok:
  assumes "token_balances fuel out repr client chain w block toks st = Some (Inr hs, st1)"
  shows "list_all (holding_ok chain block) hs \<and> subseq (map h_symbol hs) (map fst toks)"
  using assms
proof (induction toks arbitrary: st hs st1)
  case (Cons t toks)
  obtain symbol token decimals where t: "t = (symbol, token, decimals)" by (cases t) auto
  from Cons.prems obtain amount rest s2 where hs: "hs = holding_if chain block symbol (Some token) amount @ rest"
    "token_balances fuel out repr client chain w block toks s2 = Some (Inr rest, st1)"
    by (auto simp: t bind_r_Inr)
  have ih: "list_all (holding_ok chain block) rest" "subseq (map h_symbol rest) (map fst toks)" using Cons.IH [OF hs(2)] by simp_all
  have "subseq (map h_symbol hs) (symbol # map fst toks)"
    using holding_if_ok(2) [of chain block symbol "Some token" amount] ih(2) unfolding hs(1) by auto
  with ih holding_if_ok(1) show ?case by (simp add: hs(1) t)
qed simp

lemma registry_symbols: "map_of token_registry chain = Some ts \<Longrightarrow> distinct (''ETH'' # map fst ts)"
  by (auto simp: token_registry_def split: if_splits)

text \<open>Holdings read at a block are the positive balances only, each under its own symbol, stamped with that
  chain and block; reading them changes nothing in the database but the log of calls.\<close>

theorem holdings_positive_and_distinct:
  assumes "read_holdings fuel out repr client chain wallet block st = Some (Inr hs, st1)"
  shows "list_all (holding_ok chain block) hs \<and> distinct (map h_symbol hs) \<and> log_only (store_of st) (store_of st1)"
proof -
  let ?toks = "case map_of token_registry chain of None \<Rightarrow> [] | Some ts \<Rightarrow> ts"
  from assms obtain native rest s2 where hs: "hs = holding_if chain block ''ETH'' None native @ rest"
    "token_balances fuel out repr client chain wallet block ?toks s2 = Some (Inr rest, st1)"
    by (auto simp: read_holdings_def bind_r_Inr)
  note ok = token_balances_ok [OF hs(2)]
  have "distinct (''ETH'' # map fst ?toks)" using registry_symbols by (cases "map_of token_registry chain") auto
  moreover have "subseq (map h_symbol hs) (''ETH'' # map fst ?toks)"
    using holding_if_ok(2) [of chain block "''ETH''" None native] ok unfolding hs(1) by auto
  ultimately have "distinct (map h_symbol hs)" by (metis subseq_distinct)
  with ok holding_if_ok(1) read_holdings_frame [OF assms] show ?thesis by (simp add: hs(1))
qed

lemma int_base16_prefixed:
  assumes "bs \<noteq> []"
  shows "\<exists>n. int_base16 (''0x'' @ hex_of bs) = Some n"
proof -
  let ?ds = "concat (map (\<lambda>b. [unat b div 16, unat b mod 16]) bs)"
  have small: "list_all (\<lambda>d. d < 16) ?ds"
  proof -
    have "unat b < 256" for b :: byte using unsigned_less [of b] by simp
    then show ?thesis by (auto simp: list_all_iff less_mult_imp_div_less)
  qed
  have d: "hex_of bs = map hex_digit ?ds" by (simp add: hex_of_def map_concat o_def)
  have "\<not> is_space c" if "c \<in> set (''0x'' @ map hex_digit ?ds)" for c
    using that small hex_digit_char by (auto simp: list_all_iff is_space_def Let_def)
  then have strip: "strip (''0x'' @ map hex_digit ?ds) = ''0x'' @ map hex_digit ?ds"
    by (intro strip_no_space) (auto simp: list_all_iff)
  have nu: "\<not> startswith (''0x'' @ map hex_digit ?ds) ''0x_''" "\<not> startswith (''0x'' @ map hex_digit ?ds) ''0X_''"
    using small assms by (cases bs; auto simp: hex_digit_def dest!: arg_cong [where f = "of_char :: char \<Rightarrow> nat"])+
  have "?ds \<noteq> []" using assms by (cases bs) auto
  then have "\<exists>n. hex_unsigned (''0x'' @ map hex_digit ?ds) = Some n"
    using nu small by (simp add: hex_unsigned_def hex_number_digits)
  then show ?thesis unfolding d int_base16_def strip by auto
qed

lemma holdings_positive_and_distinct_witness:
  "\<exists>hs st1. read_holdings (Suc 0) node (\<lambda>_. []) node_client ''solana'' ''0x1'' 100 ([node_transport], node_store, 50) = Some (Inr hs, st1)
     \<and> list_all (holding_ok ''solana'' 100) hs \<and> distinct (map h_symbol hs) \<and> log_only node_store (store_of st1)"
proof -
  let ?bs = "abi_return 100 [abi_word 100, abi_word 8453, abi_word 7]"
  have "abi_word k \<noteq> []" for k using length_abi_word [of k] by (metis list.size(3) zero_neq_numeral)
  then have "?bs \<noteq> []" by (simp add: abi_return_def)
  then obtain n where n: "int_base16 (''0x'' @ hex_of ?bs) = Some n" using int_base16_prefixed by blast
  have e: "node_store = node_log []" by (simp add: node_log_def node_store_def empty_store_def)
  obtain rows where r: "rpc (Suc 0) node (\<lambda>_. []) node_client ''eth_getBalance'' [JStr ''0x1'', JStr (hex_int 100)] ([node_transport], node_store, 50)
      = Some (Inr (JStr (''0x'' @ hex_of ?bs)), [node_transport], node_log rows, 50)"
    using node_rpc [of "[]" "''eth_getBalance''"] unfolding e by simp
  obtain amount where a: "amount_of n 18 = Some amount"
    using ddiv_total [of "dpow10 read_prec 18" read_prec "dint n"] by (auto simp: amount_of_def read_prec_def dval_dpow10)
  have t: "text_of (\<lambda>_. []) (JStr (''0x'' @ hex_of ?bs)) = ''0x'' @ hex_of ?bs" by (simp add: text_of_def str_of_def)
  have "\<exists>hs st1. read_holdings (Suc 0) node (\<lambda>_. []) node_client ''solana'' ''0x1'' 100 ([node_transport], node_store, 50) = Some (Inr hs, st1)"
    unfolding read_holdings_def r by (simp only: bind_r_def option.case prod.case sum.case t n Option.bind.bind_lunit a or_raise_def)
      (simp add: token_registry_def)
  then obtain hs st1 where h: "read_holdings (Suc 0) node (\<lambda>_. []) node_client ''solana'' ''0x1'' 100 ([node_transport], node_store, 50) = Some (Inr hs, st1)"
    by blast
  from holdings_positive_and_distinct [OF h] h show ?thesis by (auto simp: store_of_def)
qed

end
