(* ===== verification/Scripted.thy ===== *)
theory Scripted
  imports Rpc
begin

text \<open>
  A node that answers from a script: the environment counts the answers given, time stands still. It serves
  the examples of the theories that read the chain.
\<close>

definition scripted :: "string list \<Rightarrow> nat outside" where
  "scripted answers = \<lparr>o_clock = (\<lambda>_. 50), o_sleep = (\<lambda>_ n. n),
     o_send = (\<lambda>rq n. (Inr (node_response (JStr (answers ! n))), Suc n)),
     o_jitter = (\<lambda>_ n. (0, n)), o_uuid = (\<lambda>n. (''id'', n)), o_millis = (\<lambda>_. 0)\<rparr>"

definition script_provider :: provider_row where
  "script_provider = node_provider\<lparr>pv_rate_limit := 1000\<rparr>"

definition scripted_db :: "nat \<Rightarrow> store \<Rightarrow> bool" where
  "scripted_db k db \<longleftrightarrow> providers db = [script_provider] \<and> endpoint_costs db = [] \<and> List.length (api_call_log db) \<le> k"

definition log_row :: "string \<Rightarrow> store \<Rightarrow> store" where
  "log_row e db = db\<lparr>api_call_log := api_call_log db @ [node_row e (next_id (map cl_id (api_call_log db)))]\<rparr>"

lemma scripted_db_log [simp]: "scripted_db k db \<Longrightarrow> scripted_db (Suc k) (log_row e db)"
  by (simp add: scripted_db_def log_row_def)

lemma scripted_check:
  assumes "scripted_db k db" "k < 1000"
  shows "check db 50 ''base-rpc'' e = Inr allowed_verdict"
proof -
  have known: "provider_row_of db ''base-rpc'' = Inr script_provider"
    "endpoint_credits db ''base-rpc'' e = Inr 1" "period_seconds (pv_rate_period script_provider) = Inr (seconds 1)"
    using assms(1) by (simp_all add: provider_row_of_def endpoint_credits_def matching_costs_def scripted_db_def script_provider_def
        node_provider_def period_seconds_def)
  have "List.length (window_rows db 1 s) \<le> k" for s
    using assms(1) by (auto simp: window_rows_def scripted_db_def intro: le_trans [OF length_filter_le])
  then have "window_used script_provider (window_rows db (pv_id script_provider) s) \<le> int k" for s
    by (simp add: window_used_def credits_mode_def script_provider_def node_provider_def)
  moreover have "incoming script_provider 1 = 1" "pv_rate_limit script_provider = 1000"
    by (simp_all add: incoming_def credits_mode_def script_provider_def node_provider_def)
  moreover have "int k < 1000" using assms(2) by simp
  ultimately have "window_used script_provider (window_rows db (pv_id script_provider) s) + incoming script_provider 1 \<le> pv_rate_limit script_provider" for s
    by (simp only:) (rule order.trans [OF add_right_mono], assumption, simp)
  then have "\<not> pv_rate_limit script_provider < window_used script_provider (window_rows db (pv_id script_provider) s) + incoming script_provider 1" for s
    by (simp only: not_less)
  moreover have "pv_credit_limit script_provider = None" by (simp add: script_provider_def node_provider_def)
  ultimately show ?thesis by (simp add: check_known [OF known] Let_def)
qed

lemma scripted_record:
  "scripted_db k db \<Longrightarrow> record_call ''base-rpc'' e (Some 200) (Some 0) (Some ''id'') 50 db = Inr (log_row e db)"
  by (simp add: record_call_def provider_row_of_def endpoint_credits_def matching_costs_def scripted_db_def log_row_def
      script_provider_def node_provider_def node_row_def)

lemma scripted_rpc:
  assumes "scripted_db k db" "k < 1000" "meth \<noteq> []"
  shows "rpc (Suc 0) (scripted answers) repr node_client meth params ([node_transport], db, n)
    = Some (Inr (JStr (answers ! n)), [node_transport], log_row meth db, Suc n)"
proof -
  let ?j = "JStr (answers ! n)"
  let ?payload = "[(''jsonrpc'', JStr ''2.0''), (''id'', JInt 1), (''method'', JStr meth), (''params'', JArr params)]"
  let ?rq = "\<lparr>rq_method = POST, rq_path = [], rq_params = None, rq_json = Some ?payload\<rparr>"
  have send: "o_send (scripted answers) ?rq n = (Inr (node_response ?j), Suc n)" by (simp add: scripted_def)
  have a: "attempts (Suc 0) (scripted answers) ''base-rpc'' 4 meth ''id'' ?rq (Suc 3) 0 NoAttempt (db, n)
    = Some (Answered (node_response ?j), log_row meth db, Suc n)"
    by (rule attempts_answered [where v = allowed_verdict, OF _ _ send])
      (simp_all add: scripted_check [OF assms(1,2)] allowed_verdict_def node_response_def scripted_record [OF assms(1)] scripted_def)
  have four: "Suc 3 = (4::nat)" by simp
  note a' = a [unfolded four]
  have p: "post_json (Suc 0) (scripted answers) [] ?payload (Some meth) (node_transport, db, n)
    = Some (Inr (JObj [(''result'', ?j)]), node_transport, log_row meth db, Suc n)"
    using a' assms(3)
    by (cases meth) (simp_all add: post_json_def request_json_def node_transport_def breaker_gate_def scripted_def parse_response_def
        node_response_def max_response_bytes_def on_success_def)
  show ?thesis
    unfolding rpc_def by (simp add: node_client_def p rpc_error_of_def get_def or_raise_def)
qed

lemma scripted_eth_call:
  assumes "scripted_db k db" "k < 1000"
  shows "eth_call (Suc 0) (scripted answers) repr node_client to data b ([node_transport], db, n)
    = Some (Inr (answers ! n), [node_transport], log_row ''eth_call'' db, Suc n)"
  using scripted_rpc [OF assms] by (simp add: eth_call_def bind_r_def text_of_def str_of_def)

text \<open>The state after \<open>k\<close> answers, and the step from it.\<close>

definition answered :: "nat \<Rightarrow> nat ring \<Rightarrow> bool" where
  "answered k st \<longleftrightarrow> (\<exists>db. st = ([node_transport], db, k) \<and> scripted_db k db)"

lemma answered_call:
  assumes "answered k st" "k < 1000"
  shows "\<exists>st1. eth_call (Suc 0) (scripted answers) repr node_client to data b st = Some (Inr (answers ! k), st1) \<and> answered (Suc k) st1"
proof -
  obtain db where db: "st = ([node_transport], db, k)" "scripted_db k db" using assms(1) by (auto simp: answered_def)
  then show ?thesis
    using scripted_eth_call [OF db(2) assms(2)] scripted_db_log [OF db(2)] by (auto simp: answered_def)
qed

lemma answered_rpc:
  assumes "answered k st" "k < 1000" "meth \<noteq> []"
  shows "\<exists>st1. rpc (Suc 0) (scripted answers) repr node_client meth params st = Some (Inr (JStr (answers ! k)), st1) \<and> answered (Suc k) st1"
proof -
  obtain db where db: "st = ([node_transport], db, k)" "scripted_db k db" using assms(1) by (auto simp: answered_def)
  then show ?thesis
    using scripted_rpc [OF db(2) assms(2,3)] scripted_db_log [OF db(2)] by (auto simp: answered_def)
qed

definition script_store :: store where
  "script_store = empty_store\<lparr>providers := [script_provider]\<rparr>"

lemma answered_start: "answered 0 ([node_transport], script_store, 0)"
  by (simp add: answered_def scripted_db_def script_store_def empty_store_def)

text \<open>An answer of one word.\<close>

definition hexword :: "nat \<Rightarrow> string" where
  "hexword n = ''0x'' @ encode_uint (int n)"

lemma hexword_eval: "int_base16 (hexword 0) = Some 0" "int_base16 (hexword 1) = Some 1" "int_base16 (hexword 7) = Some 7"
  by code_simp+

end
