(* ===== verification/Discovery.thy ===== *)
theory Discovery
  imports Portfolio Scripted
begin

text \<open>
  \<open>lp/discovery.py\<close>: custody-aware discovery of liquidity positions. The owners are the wallet and its
  verified Sickle; every position manager is enumerated for every owner, then the gauges of the tracked
  pools. The state is what the closures of \<open>discover\<close> share (caches, positions found, keys seen), the
  transports, the store and the environment; it survives an exception that is caught.
\<close>

section \<open>Constants and helpers\<close>

definition sickle_factory :: string where
  "sickle_factory = ''0x71D234A3e1dfC161cc1d081E6496e76627baAc31''"

definition voter :: string where
  "voter = ''0x16613524e02ad97eDfeF371bC883F2F5d6C480A5''"

definition lp_token_decimals :: "(string \<times> int) list" where
  "lp_token_decimals = [(''0x4200000000000000000000000000000000000006'', 18), (''0x833589fcd6edb6e08f4c7c32d4f71b54bda02913'', 6)]"

definition usd_stables :: "string list" where
  "usd_stables = [''0x833589fcd6edb6e08f4c7c32d4f71b54bda02913'']"

text \<open>\<open>"0x" + word_hex[-40:]\<close>.\<close>

definition addr_from :: "string \<Rightarrow> string" where
  "addr_from word_hex = ''0x'' @ drop (List.length word_hex - 40) word_hex"

definition sint_word :: "string \<Rightarrow> int option" where
  "sint_word word_hex = map_option (\<lambda>n. sign_extend n 256) (int_base16 word_hex)"

section \<open>State\<close>

record disc =
  ds_factories :: "(string \<times> string) list"
  ds_pools :: "(string \<times> (int \<times> int)) list"
  ds_found :: "lp_position list"
  ds_seen :: "(string \<times> int) list"

definition empty_disc :: disc where
  "empty_disc = \<lparr>ds_factories = [], ds_pools = [], ds_found = [], ds_seen = []\<rparr>"

type_synonym ('a, 'e) disc_result = "((rpc_raised + 'a) \<times> disc \<times> 'e ring) option"

text \<open>A call at the pinned block. The client, the fuel and the environment's functions are fixed for a
  discovery; \<open>call\<close> is \<open>rpc.call(_, _, block)\<close> with them.\<close>

type_synonym 'e call = "string \<Rightarrow> string \<Rightarrow> 'e ring \<Rightarrow> (string, 'e) rpc_result"

definition disc_call :: "'e call \<Rightarrow> string \<Rightarrow> string option \<Rightarrow> disc \<times> 'e ring \<Rightarrow> (string, 'e) disc_result" where
  "disc_call call to data s =
     (case data of None \<Rightarrow> Some (Inl PythonRaised, s)
      | Some d \<Rightarrow>
          (case call to d (snd s) of None \<Rightarrow> None | Some (r, st) \<Rightarrow> Some (r, fst s, st)))"

section \<open>Enumeration\<close>

definition positions_words :: "'e call \<Rightarrow> string \<Rightarrow> int \<Rightarrow> disc \<times> 'e ring \<Rightarrow> (string list, 'e) disc_result" where
  "positions_words call nfpm token_id s =
     bind_r (disc_call call nfpm (Some (selector ''positions(uint256)'' @ encode_uint token_id)) s)
       (\<lambda>raw s1. Some (Inr (hex_words raw), s1))"

fun enumerate_tokens :: "'e call \<Rightarrow> string \<Rightarrow> string \<Rightarrow> nat \<Rightarrow> int \<Rightarrow> disc \<times> 'e ring \<Rightarrow> (int list, 'e) disc_result" where
  "enumerate_tokens call nfpm owner 0 index s = Some (Inr [], s)"
| "enumerate_tokens call nfpm owner (Suc left) index s =
     bind_r (disc_call call nfpm
         (map_option (\<lambda>a. selector ''tokenOfOwnerByIndex(address,uint256)'' @ a @ encode_uint index) (addr_arg owner)) s)
       (\<lambda>token_raw s1. bind_r (or_raise (int_base16 token_raw) s1)
         (\<lambda>token_id s2. bind_r (positions_words call nfpm token_id s2)
           (\<lambda>_ s3. bind_r (enumerate_tokens call nfpm owner left (index + 1) s3)
             (\<lambda>rest s4. Some (Inr (token_id # rest), s4)))))"

text \<open>The words read with each token are dropped by the caller, so only the tokens are returned.\<close>

definition enumerate_owner :: "'e call \<Rightarrow> string \<Rightarrow> string \<Rightarrow> disc \<times> 'e ring \<Rightarrow> (int list, 'e) disc_result" where
  "enumerate_owner call nfpm owner s =
     bind_r (disc_call call nfpm (map_option (\<lambda>a. selector ''balanceOf(address)'' @ a) (addr_arg owner)) s)
       (\<lambda>raw s1. bind_r (or_raise (int_base16 raw) s1)
         (\<lambda>balance s2. enumerate_tokens call nfpm owner (nat balance) 0 s2))"

definition staked_ids :: "byte list \<Rightarrow> int list" where
  "staked_ids blob =
     (if List.length blob < 64 then []
      else map (\<lambda>i. int (be_value (slice (64 + 32 * i) (96 + 32 * i) blob)))
             (filter (\<lambda>i. 96 + 32 * i \<le> List.length blob) [0..<min (be_value (slice 32 64 blob)) (List.length blob)]))"

definition staked_token_ids :: "'e call \<Rightarrow> string \<Rightarrow> string \<Rightarrow> disc \<times> 'e ring \<Rightarrow> (int list, 'e) disc_result" where
  "staked_token_ids call gauge owner s =
     (case disc_call call gauge (map_option (\<lambda>a. selector ''stakedValues(address)'' @ a) (addr_arg owner)) s of
        None \<Rightarrow> None
      | Some (Inl (RpcRaised e), s1) \<Rightarrow> Some (Inr [], s1)
      | Some (Inl e, s1) \<Rightarrow> Some (Inl e, s1)
      | Some (Inr raw, s1) \<Rightarrow>
          or_raise (if List.length raw > 2 then map_option staked_ids (fromhex (drop 2 raw)) else Some []) s1)"

section \<open>One position\<close>

definition warn :: "string \<Rightarrow> lp_position \<Rightarrow> lp_position" where
  "warn w p = p\<lparr>lp_warnings := lp_warnings p @ [w]\<rparr>"

definition set_usd_prices :: "lp_position \<Rightarrow> lp_position option" where
  "set_usd_prices p =
     (let token0_stable = lower (lp_token0 p) \<in> set usd_stables;
          token1_stable = lower (lp_token1 p) \<in> set usd_stables
      in if token1_stable \<and> \<not> token0_stable \<and> lp_price_usd p \<noteq> None
         then Some (p\<lparr>lp_token0_price_usd := lp_price_usd p, lp_token1_price_usd := Some (dint 1)\<rparr>)
         else case (if token0_stable \<and> \<not> token1_stable then lp_price_usd p else None) of
           Some price \<Rightarrow>
             if deq price dzero
             then Some (warn (''no single USD-stable in pair '' @ dash @ '' token USD prices not derivable'') p)
             else map_option (\<lambda>q. p\<lparr>lp_token0_price_usd := Some (dint 1), lp_token1_price_usd := Some q\<rparr>) (ddiv 28 (dint 1) price)
         | None \<Rightarrow> Some (warn (''no single USD-stable in pair '' @ dash @ '' token USD prices not derivable'') p))"

text \<open>The value of a position at the pool's state.\<close>

definition set_value :: "int \<Rightarrow> int \<Rightarrow> lp_position \<Rightarrow> lp_position option" where
  "set_value sqrt_price_x96 tick p0 =
     (let p = p0\<lparr>lp_sqrt_price_x96 := Some sqrt_price_x96, lp_pool_tick := Some tick,
                 lp_in_range := Some (lp_tick_lower p0 \<le> tick \<and> tick < lp_tick_upper p0)\<rparr>
      in case (map_of lp_token_decimals (lower (lp_token0 p)), map_of lp_token_decimals (lower (lp_token1 p))) of
           (Some dec0, Some dec1) \<Rightarrow> do {
             sqrt_price \<leftarrow> sqrt_price_from_x96 sqrt_price_x96;
             (amount0_raw, amount1_raw) \<leftarrow> position_amounts (dint (lp_liquidity p)) (lp_tick_lower p) (lp_tick_upper p) sqrt_price;
             amount0 \<leftarrow> ddiv 28 amount0_raw (dpow10 28 dec0);
             amount1 \<leftarrow> ddiv 28 amount1_raw (dpow10 28 dec1);
             set_usd_prices (p\<lparr>lp_amount0 := Some amount0, lp_amount1 := Some amount1,
                               lp_price_usd := Some (price_from_tick tick dec0 dec1)\<rparr>)
           }
         | _ \<Rightarrow> Some (warn (''unknown token decimals '' @ dash @ '' raw liquidity recorded only'') p))"

definition factory_of :: "'e call \<Rightarrow> string \<Rightarrow> disc \<times> 'e ring \<Rightarrow> (string, 'e) disc_result" where
  "factory_of call nfpm s =
     (case map_of (ds_factories (fst s)) (lower nfpm) of
        Some f \<Rightarrow> Some (Inr f, s)
      | None \<Rightarrow>
          bind_r (disc_call call nfpm (Some (selector ''factory()'')) s)
            (\<lambda>raw s1. Some (Inr (addr_from raw),
               (fst s1)\<lparr>ds_factories := (lower nfpm, addr_from raw) # ds_factories (fst s1)\<rparr>, snd s1)))"

definition pool_state :: "'e call \<Rightarrow> string \<Rightarrow> disc \<times> 'e ring \<Rightarrow> (int \<times> int, 'e) disc_result" where
  "pool_state call pool s =
     (case map_of (ds_pools (fst s)) (lower pool) of
        Some v \<Rightarrow> Some (Inr v, s)
      | None \<Rightarrow>
          bind_r (disc_call call pool (Some (selector ''slot0()'')) s)
            (\<lambda>slot0 s1. bind_r (or_raise (Option.bind (int_base16 (slice 2 66 slot0)) (\<lambda>sqrt_price_x96.
                 map_option (\<lambda>tick. (sqrt_price_x96, tick)) (sint_word (slice 66 130 slot0)))) s1)
               (\<lambda>v s2. Some (Inr v, (fst s2)\<lparr>ds_pools := (lower pool, v) # ds_pools (fst s2)\<rparr>, snd s2))))"

definition resolve_pool_and_value :: "'e call \<Rightarrow> lp_position \<Rightarrow> disc \<times> 'e ring \<Rightarrow> (lp_position, 'e) disc_result" where
  "resolve_pool_and_value call p s =
     bind_r (factory_of call (lp_nfpm p) s)
       (\<lambda>factory s1. bind_r (disc_call call factory
            (case (addr_arg (lp_token0 p), addr_arg (lp_token1 p)) of
               (Some a0, Some a1) \<Rightarrow> Some (selector ''getPool(address,address,int24)'' @ a0 @ a1 @ encode_uint (lp_tick_spacing p))
             | _ \<Rightarrow> None) s1)
         (\<lambda>pool_raw s2. let pool = addr_from pool_raw in
            bind_r (or_raise (int_base16 pool) s2)
              (\<lambda>n s3. if n = 0
                 then Some (Inr (warn (''pool unresolved via factory.getPool '' @ dash @ '' amounts omitted'') (p\<lparr>lp_pool_unresolved := True\<rparr>)), s3)
                 else bind_r (pool_state call pool s3)
                   (\<lambda>(sqrt_price_x96, tick). or_raise (set_value sqrt_price_x96 tick (p\<lparr>lp_pool := Some pool\<rparr>))))))"

text \<open>The position of the words a manager returns, before its pool is resolved.\<close>

definition position_of_words :: "string \<Rightarrow> int \<Rightarrow> string \<Rightarrow> string \<Rightarrow> int \<Rightarrow> string list \<Rightarrow> int \<Rightarrow> string list \<Rightarrow> lp_position option" where
  "position_of_words nfpm token_id custody custodian block warnings liq ws = do {
     tick_spacing \<leftarrow> int_base16 (ws ! 4);
     lower_tick \<leftarrow> sint_word (ws ! 5);
     upper_tick \<leftarrow> sint_word (ws ! 6);
     owed0 \<leftarrow> int_base16 (ws ! 10);
     owed1 \<leftarrow> int_base16 (ws ! 11);
     Some \<lparr>lp_nfpm = nfpm, lp_token_id = token_id, lp_custody = custody, lp_custodian = custodian,
           lp_token0 = addr_from (ws ! 2), lp_token1 = addr_from (ws ! 3), lp_tick_spacing = tick_spacing,
           lp_tick_lower = lower_tick, lp_tick_upper = upper_tick, lp_liquidity = liq,
           lp_tokens_owed0 = owed0, lp_tokens_owed1 = owed1, lp_pool = None, lp_pool_unresolved = False,
           lp_pool_tick = None, lp_sqrt_price_x96 = None, lp_amount0 = None, lp_amount1 = None, lp_price_usd = None,
           lp_token0_price_usd = None, lp_token1_price_usd = None, lp_pool_volume_usd_24h = None, lp_in_range = None,
           lp_block_number = block, lp_warnings = warnings\<rparr>
   }"

definition add_position :: "'e call \<Rightarrow> int \<Rightarrow> string list \<Rightarrow> string \<Rightarrow> int \<Rightarrow> string \<Rightarrow> string \<Rightarrow> disc \<times> 'e ring \<Rightarrow> (unit, 'e) disc_result" where
  "add_position call block warnings nfpm token_id custody custodian s =
     (if (lower nfpm, token_id) \<in> set (ds_seen (fst s)) then Some (Inr (), s)
      else bind_r (positions_words call nfpm token_id s)
        (\<lambda>ws s1. if List.length ws < 12 then Some (Inr (), s1)
           else bind_r (or_raise (int_base16 (ws ! 7)) s1)
             (\<lambda>liq s2. if liq = 0 then Some (Inr (), s2)
                else let s3 = ((fst s2)\<lparr>ds_seen := (lower nfpm, token_id) # ds_seen (fst s2)\<rparr>, snd s2)
                     in bind_r (or_raise (position_of_words nfpm token_id custody custodian block warnings liq ws) s3)
                          (\<lambda>p s4. bind_r (resolve_pool_and_value call p s4)
                             (\<lambda>q s5. Some (Inr (), (fst s5)\<lparr>ds_found := ds_found (fst s5) @ [q]\<rparr>, snd s5))))))"

section \<open>The discovery\<close>

text \<open>A loop over a list, in the state.\<close>

fun each :: "('a \<Rightarrow> 's \<Rightarrow> ((rpc_raised + unit) \<times> 's) option) \<Rightarrow> 'a list \<Rightarrow> 's \<Rightarrow> ((rpc_raised + unit) \<times> 's) option" where
  "each f [] s = Some (Inr (), s)"
| "each f (x # xs) s = bind_r (f x s) (\<lambda>_. each f xs)"

text \<open>The managers in turn for a staked token: the first that does not fail at the node ends the search.\<close>

fun try_nfpms :: "(string \<Rightarrow> 's \<Rightarrow> ((rpc_raised + unit) \<times> 's) option) \<Rightarrow> string list \<Rightarrow> 's \<Rightarrow> ((rpc_raised + unit) \<times> 's) option" where
  "try_nfpms add [] s = Some (Inr (), s)"
| "try_nfpms add (nfpm # nfpms) s =
     (case add nfpm s of
        None \<Rightarrow> None
      | Some (Inl (RpcRaised e), s1) \<Rightarrow> try_nfpms add nfpms s1
      | Some (Inl e, s1) \<Rightarrow> Some (Inl e, s1)
      | Some (Inr _, s1) \<Rightarrow> Some (Inr (), s1))"

text \<open>The candidate owners, and the warning about a Sickle owned by another.\<close>

definition candidate_owners :: "'e call \<Rightarrow> string \<Rightarrow> disc \<times> 'e ring \<Rightarrow> ((string \<times> string) list \<times> string list, 'e) disc_result" where
  "candidate_owners call wallet s =
     bind_r (disc_call call sickle_factory (map_option (\<lambda>a. selector ''sickles(address)'' @ a) (addr_arg wallet)) s)
       (\<lambda>sickle_raw s1. let sickle = addr_from sickle_raw in
          bind_r (or_raise (int_base16 sickle) s1)
            (\<lambda>n s2. if n = 0 then Some (Inr ([(''wallet'', wallet)], []), s2)
               else bind_r (disc_call call sickle (Some (selector ''owner()'')) s2)
                 (\<lambda>owner_raw s3. let sickle_owner = addr_from owner_raw in
                    Some (Inr (if lower sickle_owner = lower wallet then ([(''wallet'', wallet), (''sickle'', sickle)], [])
                               else ([(''wallet'', wallet)],
                                 [''sickle '' @ sickle @ '' EXCLUDED: owner() is '' @ sickle_owner @ '', not the wallet''])), s3))))"

definition discover_nfpm :: "'e call \<Rightarrow> int \<Rightarrow> string list \<Rightarrow> (string \<times> string) list \<Rightarrow> string \<Rightarrow> disc \<times> 'e ring \<Rightarrow> (unit, 'e) disc_result" where
  "discover_nfpm call block warnings owners nfpm =
     each (\<lambda>(custody, owner) s. bind_r (enumerate_owner call nfpm owner s)
            (\<lambda>ids. each (\<lambda>token_id. add_position call block warnings nfpm token_id custody owner) ids)) owners"

definition discover_gauge :: "'e call \<Rightarrow> int \<Rightarrow> string list \<Rightarrow> string list \<Rightarrow> (string \<times> string) list \<Rightarrow> string \<Rightarrow> disc \<times> 'e ring \<Rightarrow> (unit, 'e) disc_result" where
  "discover_gauge call block warnings nfpms owners pool s =
     bind_r (disc_call call voter (map_option (\<lambda>a. selector ''gauges(address)'' @ a) (addr_arg pool)) s)
       (\<lambda>raw s1. let gauge = addr_from raw in
          bind_r (or_raise (int_base16 gauge) s1)
            (\<lambda>n s2. if n = 0 then Some (Inr (), s2)
               else each (\<lambda>(custody, owner) s3. bind_r (staked_token_ids call gauge owner s3)
                      (\<lambda>ids. each (\<lambda>token_id. try_nfpms (\<lambda>nfpm. add_position call block warnings nfpm token_id ''gauge'' gauge) nfpms) ids))
                    owners s2))"

definition discover_with :: "'e call \<Rightarrow> string \<Rightarrow> settings \<Rightarrow> int \<Rightarrow> disc \<times> 'e ring \<Rightarrow> (lp_position list, 'e) disc_result" where
  "discover_with call wallet settings block s =
     bind_r (candidate_owners call wallet s)
       (\<lambda>(owners, warnings) s1. bind_r (each (discover_nfpm call block warnings owners) (base_nfpm_addresses settings) s1)
          (\<lambda>_ s2. bind_r (each (discover_gauge call block warnings (base_nfpm_addresses settings) owners) (base_tracked_pools settings) s2)
             (\<lambda>_ s3. Some (Inr (ds_found (fst s3)), s3))))"

definition discover :: "nat \<Rightarrow> 'e outside \<Rightarrow> (json \<Rightarrow> string) \<Rightarrow> rpc_client \<Rightarrow> string \<Rightarrow> settings \<Rightarrow> int \<Rightarrow> 'e ring
    \<Rightarrow> (lp_position list, 'e) rpc_result" where
  "discover fuel out repr client wallet settings block st =
     map_option (\<lambda>(r, d, st1). (r, st1))
       (discover_with (\<lambda>to data. eth_call fuel out repr client to data (BlockNumber block)) wallet settings block (empty_disc, st))"

section \<open>What a discovered position says\<close>

definition lp_id :: "lp_position \<Rightarrow> string \<times> int" where
  "lp_id p = (lower (lp_nfpm p), lp_token_id p)"

text \<open>The token prices: only with exactly one side a dollar stable (and a price that can be inverted), which
  is then worth one dollar and prices the other; otherwise both are missing, with the reason.\<close>

definition usd_prices_sound :: "lp_position \<Rightarrow> bool" where
  "usd_prices_sound p \<longleftrightarrow>
     (let stable0 = lower (lp_token0 p) \<in> set usd_stables; stable1 = lower (lp_token1 p) \<in> set usd_stables
      in case lp_price_usd p of
           None \<Rightarrow> lp_token0_price_usd p = None \<and> lp_token1_price_usd p = None
         | Some price \<Rightarrow>
             if stable1 \<and> \<not> stable0 then lp_token0_price_usd p = Some price \<and> lp_token1_price_usd p = Some (dint 1)
             else if stable0 \<and> \<not> stable1 \<and> \<not> deq price dzero
             then lp_token0_price_usd p = Some (dint 1)
               \<and> (\<exists>q. ddiv 28 (dint 1) price = Some q \<and> lp_token1_price_usd p = Some q)
             else lp_token0_price_usd p = None \<and> lp_token1_price_usd p = None
               \<and> ''no single USD-stable in pair '' @ dash @ '' token USD prices not derivable'' \<in> set (lp_warnings p))"

text \<open>The amounts and the price at the pool's state: those of the position's range, in units of the tokens,
  when both decimals are known; otherwise all missing, with the reason.\<close>

definition amounts_sound :: "int \<Rightarrow> int \<Rightarrow> lp_position \<Rightarrow> bool" where
  "amounts_sound sqrt_price_x96 tick p \<longleftrightarrow>
     (case (map_of lp_token_decimals (lower (lp_token0 p)), map_of lp_token_decimals (lower (lp_token1 p))) of
        (Some dec0, Some dec1) \<Rightarrow>
          (\<exists>root raw0 raw1 amount0 amount1. sqrt_price_from_x96 sqrt_price_x96 = Some root
             \<and> position_amounts (dint (lp_liquidity p)) (lp_tick_lower p) (lp_tick_upper p) root = Some (raw0, raw1)
             \<and> ddiv 28 raw0 (dpow10 28 dec0) = Some amount0 \<and> ddiv 28 raw1 (dpow10 28 dec1) = Some amount1
             \<and> lp_amount0 p = Some amount0 \<and> lp_amount1 p = Some amount1
             \<and> lp_price_usd p = Some (price_from_tick tick dec0 dec1))
      | _ \<Rightarrow> lp_amount0 p = None \<and> lp_amount1 p = None \<and> lp_price_usd p = None
          \<and> ''unknown token decimals '' @ dash @ '' raw liquidity recorded only'' \<in> set (lp_warnings p))"

definition pool_sound :: "lp_position \<Rightarrow> bool" where
  "pool_sound p \<longleftrightarrow>
     (if lp_pool_unresolved p
      then lp_pool p = None \<and> lp_sqrt_price_x96 p = None \<and> lp_pool_tick p = None \<and> lp_in_range p = None
        \<and> lp_amount0 p = None \<and> lp_amount1 p = None \<and> lp_price_usd p = None
        \<and> ''pool unresolved via factory.getPool '' @ dash @ '' amounts omitted'' \<in> set (lp_warnings p)
      else \<exists>pool sqrt_price_x96 tick. lp_pool p = Some pool \<and> lp_sqrt_price_x96 p = Some sqrt_price_x96
        \<and> lp_pool_tick p = Some tick \<and> lp_in_range p = Some (lp_tick_lower p \<le> tick \<and> tick < lp_tick_upper p)
        \<and> amounts_sound sqrt_price_x96 tick p)"

definition position_sound :: "int \<Rightarrow> lp_position \<Rightarrow> bool" where
  "position_sound block p \<longleftrightarrow> lp_liquidity p \<noteq> 0 \<and> lp_block_number p = block \<and> pool_sound p \<and> usd_prices_sound p"

text \<open>A position as its words gave it: nothing of the pool is known yet.\<close>

definition unresolved :: "int \<Rightarrow> lp_position \<Rightarrow> bool" where
  "unresolved block p \<longleftrightarrow> lp_liquidity p \<noteq> 0 \<and> lp_block_number p = block \<and> lp_pool p = None \<and> \<not> lp_pool_unresolved p
     \<and> lp_sqrt_price_x96 p = None \<and> lp_pool_tick p = None \<and> lp_in_range p = None
     \<and> lp_amount0 p = None \<and> lp_amount1 p = None \<and> lp_price_usd p = None
     \<and> lp_token0_price_usd p = None \<and> lp_token1_price_usd p = None"

lemma pool_sound_prices [simp]:
  "amounts_sound x t (p\<lparr>lp_token0_price_usd := a, lp_token1_price_usd := b\<rparr>) = amounts_sound x t p"
  "pool_sound (p\<lparr>lp_token0_price_usd := a, lp_token1_price_usd := b\<rparr>) = pool_sound p"
  by (simp_all add: pool_sound_def amounts_sound_def split: option.split)

lemma amounts_sound_warn: "amounts_sound x t p \<Longrightarrow> amounts_sound x t (warn w p)"
  by (auto simp: amounts_sound_def warn_def split: option.splits)

lemma pool_sound_warn: "pool_sound p \<Longrightarrow> pool_sound (warn w p)"
  using amounts_sound_warn [of _ _ p w] by (auto simp: pool_sound_def warn_def split: if_splits)

definition prices_set :: "lp_position \<Rightarrow> lp_position \<Rightarrow> bool" where
  "prices_set p q \<longleftrightarrow> usd_prices_sound q \<and> lp_id q = lp_id p \<and> lp_liquidity q = lp_liquidity p
     \<and> lp_block_number q = lp_block_number p \<and> (pool_sound p \<longrightarrow> pool_sound q)"

lemma no_stable_prices:
  assumes "lp_token0_price_usd p = None" "lp_token1_price_usd p = None"
    "\<And>price. lp_price_usd p = Some price \<Longrightarrow>
       \<not> (lower (lp_token1 p) \<in> set usd_stables \<and> lower (lp_token0 p) \<notin> set usd_stables)
       \<and> \<not> (lower (lp_token0 p) \<in> set usd_stables \<and> lower (lp_token1 p) \<notin> set usd_stables \<and> \<not> deq price dzero)"
  shows "prices_set p (warn (''no single USD-stable in pair '' @ dash @ '' token USD prices not derivable'') p)"
  using assms pool_sound_warn [of p]
  by (cases "lp_price_usd p") (auto simp: prices_set_def usd_prices_sound_def Let_def warn_def lp_id_def)

lemma set_usd_prices_sound:
  assumes "set_usd_prices p = Some q" "lp_token0_price_usd p = None" "lp_token1_price_usd p = None"
  shows "prices_set p q"
proof (cases "lp_price_usd p")
  case None
  then have "q = warn (''no single USD-stable in pair '' @ dash @ '' token USD prices not derivable'') p"
    using assms(1) by (auto simp: set_usd_prices_def Let_def split: if_splits)
  with None show ?thesis using no_stable_prices [OF assms(2,3)] by simp
next
  case price: (Some price)
  consider (stable1) "lower (lp_token1 p) \<in> set usd_stables" "lower (lp_token0 p) \<notin> set usd_stables"
    | (stable0) "lower (lp_token0 p) \<in> set usd_stables" "lower (lp_token1 p) \<notin> set usd_stables" "\<not> deq price dzero"
    | (neither) "\<not> (lower (lp_token1 p) \<in> set usd_stables \<and> lower (lp_token0 p) \<notin> set usd_stables)"
      "\<not> (lower (lp_token0 p) \<in> set usd_stables \<and> lower (lp_token1 p) \<notin> set usd_stables \<and> \<not> deq price dzero)"
    by blast
  then show ?thesis
  proof cases
    case stable1
    with assms(1) price show ?thesis
      by (auto simp: set_usd_prices_def prices_set_def usd_prices_sound_def Let_def lp_id_def)
  next
    case stable0
    with assms(1) price show ?thesis
      by (auto simp: set_usd_prices_def prices_set_def usd_prices_sound_def Let_def lp_id_def)
  next
    case neither
    then have "q = warn (''no single USD-stable in pair '' @ dash @ '' token USD prices not derivable'') p"
      using assms(1) price by (auto simp: set_usd_prices_def Let_def split: if_splits)
    with neither price show ?thesis using no_stable_prices [OF assms(2,3)] by simp
  qed
qed

lemma set_value_sound:
  assumes "set_value x t (p\<lparr>lp_pool := Some pool\<rparr>) = Some q" "unresolved block p"
  shows "lp_id q = lp_id p \<and> position_sound block q"
proof -
  let ?p = "p\<lparr>lp_pool := Some pool, lp_sqrt_price_x96 := Some x, lp_pool_tick := Some t,
      lp_in_range := Some (lp_tick_lower p \<le> t \<and> t < lp_tick_upper p)\<rparr>"
  note u = assms(2) [unfolded unresolved_def]
  show ?thesis
  proof (cases "map_of lp_token_decimals (lower (lp_token0 p)) = None \<or> map_of lp_token_decimals (lower (lp_token1 p)) = None")
    case True
    then have q: "q = warn (''unknown token decimals '' @ dash @ '' raw liquidity recorded only'') ?p"
      using assms(1) by (auto simp: set_value_def Let_def split: option.splits)
    have "amounts_sound x t q" unfolding q using u True by (auto simp: amounts_sound_def warn_def split: option.splits)
    then have "pool_sound q" using u by (simp add: pool_sound_def q warn_def)
    moreover have "usd_prices_sound q" using u by (simp add: usd_prices_sound_def q warn_def)
    ultimately show ?thesis using u by (simp add: position_sound_def q warn_def lp_id_def)
  next
    case False
    then obtain d0 d1 where d: "map_of lp_token_decimals (lower (lp_token0 p)) = Some d0"
      "map_of lp_token_decimals (lower (lp_token1 p)) = Some d1" by auto
    then obtain root raw0 raw1 a0 a1 where v: "sqrt_price_from_x96 x = Some root"
        "position_amounts (dint (lp_liquidity p)) (lp_tick_lower p) (lp_tick_upper p) root = Some (raw0, raw1)"
        "ddiv 28 raw0 (dpow10 28 d0) = Some a0" "ddiv 28 raw1 (dpow10 28 d1) = Some a1"
        "set_usd_prices (?p\<lparr>lp_amount0 := Some a0, lp_amount1 := Some a1, lp_price_usd := Some (price_from_tick t d0 d1)\<rparr>) = Some q"
      using assms(1) by (auto simp: set_value_def Let_def bind_eq_Some_conv)
    let ?v = "?p\<lparr>lp_amount0 := Some a0, lp_amount1 := Some a1, lp_price_usd := Some (price_from_tick t d0 d1)\<rparr>"
    have "amounts_sound x t ?v" using d v(1-4) by (simp add: amounts_sound_def)
    then have "pool_sound ?v" using u by (simp add: pool_sound_def)
    with set_usd_prices_sound [OF v(5)] u show ?thesis by (simp add: prices_set_def position_sound_def lp_id_def)
  qed
qed

section \<open>What the steps keep\<close>

definition disc_ok :: "int \<Rightarrow> disc \<Rightarrow> bool" where
  "disc_ok block d \<longleftrightarrow> distinct (map lp_id (ds_found d)) \<and> lp_id ` set (ds_found d) \<subseteq> set (ds_seen d)
     \<and> list_all (position_sound block) (ds_found d)"

definition caches_only :: "disc \<times> 'e ring \<Rightarrow> disc \<times> 'e ring \<Rightarrow> bool" where
  "caches_only s s1 \<longleftrightarrow> ds_found (fst s1) = ds_found (fst s) \<and> ds_seen (fst s1) = ds_seen (fst s)
     \<and> log_only (store_of (snd s)) (store_of (snd s1))"

definition disc_step :: "int \<Rightarrow> disc \<times> 'e ring \<Rightarrow> disc \<times> 'e ring \<Rightarrow> bool" where
  "disc_step block s s1 \<longleftrightarrow> (disc_ok block (fst s) \<longrightarrow> disc_ok block (fst s1)) \<and> log_only (store_of (snd s)) (store_of (snd s1))"

interpretation cache_frame: state_frame caches_only
  by unfold_locales (auto simp: caches_only_def intro: log_only_trans)

interpretation disc_frame: state_frame "disc_step block" for block
  by unfold_locales (auto simp: disc_step_def intro: log_only_trans)

lemma caches_only_step: "caches_only s s1 \<Longrightarrow> disc_step block s s1"
  by (simp add: caches_only_def disc_step_def disc_ok_def)

lemma caches_only_upd [simp]:
  "caches_only (d, st) (d\<lparr>ds_factories := x\<rparr>, st)" "caches_only (d, st) (d\<lparr>ds_pools := y\<rparr>, st)"
  by (simp_all add: caches_only_def)

text \<open>What is asked of \<open>call\<close>: it changes the log only, as \<open>eth_call\<close> does.\<close>

locale node_call =
  fixes call :: "'e call"
  assumes call_frame: "call to data st = Some (r, st1) \<Longrightarrow> log_only (store_of st) (store_of st1)"
begin

lemma disc_call_frame: "disc_call call to data s = Some (r, s1) \<Longrightarrow> caches_only s s1"
  by (auto simp: disc_call_def caches_only_def split: option.splits prod.splits dest: call_frame)

lemma or_raise_same: "or_raise x s = Some (r, s1) \<Longrightarrow> caches_only s s1"
  by (auto simp: or_raise_def intro: cache_frame.frame_refl)

lemma positions_words_frame: "positions_words call n t s = Some (r, s1) \<Longrightarrow> caches_only s s1"
  unfolding positions_words_def by (erule cache_frame.bind) (auto dest: disc_call_frame intro: cache_frame.frame_refl)

lemma enumerate_tokens_frame: "enumerate_tokens call n w k i s = Some (r, s1) \<Longrightarrow> caches_only s s1"
proof (induction k arbitrary: i s r s1)
  case 0
  then show ?case by (auto intro: cache_frame.frame_refl)
next
  case (Suc k)
  from Suc.prems show ?case
    unfolding enumerate_tokens.simps
    by (elim cache_frame.bind) (auto dest: disc_call_frame or_raise_same positions_words_frame Suc.IH
        elim!: cache_frame.bind intro: cache_frame.frame_refl)
qed

lemma enumerate_owner_frame: "enumerate_owner call n w s = Some (r, s1) \<Longrightarrow> caches_only s s1"
  unfolding enumerate_owner_def
  by (erule cache_frame.bind) (auto dest: disc_call_frame or_raise_same enumerate_tokens_frame elim!: cache_frame.bind)

lemma staked_token_ids_frame: "staked_token_ids call g w s = Some (r, s1) \<Longrightarrow> caches_only s s1"
  by (auto simp: staked_token_ids_def split: option.splits sum.splits rpc_raised.splits prod.splits
      dest: disc_call_frame or_raise_same intro: cache_frame.frame_trans)

lemma factory_of_frame: "factory_of call n s = Some (r, s1) \<Longrightarrow> caches_only s s1"
  unfolding factory_of_def
  by (cases "map_of (ds_factories (fst s)) (lower n)")
    (auto elim!: cache_frame.bind dest: disc_call_frame intro: cache_frame.frame_refl)

lemma pool_state_frame: "pool_state call n s = Some (r, s1) \<Longrightarrow> caches_only s s1"
  unfolding pool_state_def
  by (cases "map_of (ds_pools (fst s)) (lower n)")
    (auto elim!: cache_frame.bind dest: disc_call_frame or_raise_same intro: cache_frame.frame_refl)

lemma resolve_frame: "resolve_pool_and_value call p s = Some (r, s1) \<Longrightarrow> caches_only s s1"
  unfolding resolve_pool_and_value_def Let_def
  by (erule cache_frame.bind) (auto elim!: cache_frame.bind split: if_splits
      dest: factory_of_frame disc_call_frame or_raise_same pool_state_frame intro: cache_frame.frame_refl)

lemma resolve_sound:
  assumes "resolve_pool_and_value call p s = Some (Inr q, s1)" "unresolved block p"
  shows "lp_id q = lp_id p \<and> position_sound block q"
  using assms
  by (auto simp: resolve_pool_and_value_def bind_r_Inr or_raise_Inr Let_def split: if_splits dest!: set_value_sound)
    (auto simp: unresolved_def position_sound_def pool_sound_def usd_prices_sound_def warn_def lp_id_def)

lemma position_of_words_unresolved:
  "position_of_words n t c cu block w l ws = Some p \<Longrightarrow> l \<noteq> 0 \<Longrightarrow> unresolved block p \<and> lp_id p = (lower n, t)"
  by (auto simp: position_of_words_def bind_eq_Some_conv unresolved_def lp_id_def)

lemma add_position_step:
  assumes "add_position call block warnings n t c cu s = Some (r, s1)"
  shows "disc_step block s s1"
proof (cases "(lower n, t) \<in> set (ds_seen (fst s))")
  case True
  with assms show ?thesis by (auto simp: add_position_def intro: disc_frame.frame_refl)
next
  case new: False
  have body: "disc_step block s2 s1"
    if run: "bind_r (or_raise (position_of_words n t c cu block warnings l ws)
          ((fst s2)\<lparr>ds_seen := (lower n, t) # ds_seen (fst s2)\<rparr>, snd s2))
        (\<lambda>p s4. bind_r (resolve_pool_and_value call p s4)
           (\<lambda>q s5. Some (Inr (), (fst s5)\<lparr>ds_found := ds_found (fst s5) @ [q]\<rparr>, snd s5))) = Some (r, s1)"
      and "l \<noteq> 0" and same: "(lower n, t) \<notin> set (ds_seen (fst s2))" for l ws s2
  proof -
    let ?s3 = "((fst s2)\<lparr>ds_seen := (lower n, t) # ds_seen (fst s2)\<rparr>, snd s2)"
    have seen: "disc_step block s2 ?s3" by (auto simp: disc_step_def disc_ok_def)
    show ?thesis
    proof (cases "position_of_words n t c cu block warnings l ws")
      case None
      with run have "s1 = ?s3" by (simp add: or_raise_def bind_r_def)
      with seen show ?thesis by simp
    next
      case (Some p)
      note run2 = run [unfolded Some or_raise_def option.case bind_r_def prod.case sum.case]
      note fresh = position_of_words_unresolved [OF Some \<open>l \<noteq> 0\<close>]
      from run2 obtain q s5 where res: "resolve_pool_and_value call p ?s3 = Some (q, s5)" by (auto split: option.splits)
      have c5: "caches_only ?s3 s5" by (rule resolve_frame [OF res])
      show ?thesis
      proof (cases q)
        case (Inl e)
        with run2 res have "s1 = s5" by simp
        with disc_frame.frame_trans [OF seen caches_only_step [OF c5]] show ?thesis by simp
      next
        case (Inr q1)
        have s1: "s1 = ((fst s5)\<lparr>ds_found := ds_found (fst s5) @ [q1]\<rparr>, snd s5)" using run2 res Inr by simp
        have q1: "lp_id q1 = (lower n, t)" "position_sound block q1"
          using resolve_sound [OF res [unfolded Inr]] fresh by auto
        have "disc_ok block (fst s2) \<longrightarrow> disc_ok block (fst s1)"
          using c5 same q1 unfolding s1 caches_only_def disc_ok_def by auto
        moreover have "log_only (store_of (snd s2)) (store_of (snd s1))" using c5 unfolding s1 caches_only_def by simp
        ultimately show ?thesis by (simp add: disc_step_def)
      qed
    qed
  qed
  note run = assms [unfolded add_position_def if_not_P [OF new]]
  from run obtain q s' where w: "positions_words call n t s = Some (q, s')" by (auto simp: bind_r_def split: option.splits)
  have c: "caches_only s s'" by (rule positions_words_frame [OF w])
  then have same: "(lower n, t) \<notin> set (ds_seen (fst s'))" using new by (simp add: caches_only_def)
  have "disc_step block s' s1"
  proof (cases q)
    case (Inl e)
    with run w have "s1 = s'" by (simp add: bind_r_def)
    then show ?thesis by (simp add: disc_frame.frame_refl)
  next
    case (Inr ws)
    note run2 = run [unfolded w Inr bind_r_def [of "Some (Inr ws, s')"] option.case prod.case sum.case]
    show ?thesis
    proof (cases "List.length ws < 12 \<or> int_base16 (ws ! 7) = None \<or> int_base16 (ws ! 7) = Some 0")
      case True
      with run2 have "s1 = s'" by (auto simp: bind_r_def or_raise_def split: if_splits)
      then show ?thesis by (simp add: disc_frame.frame_refl)
    next
      case False
      then obtain l where l: "int_base16 (ws ! 7) = Some l" "l \<noteq> 0" "\<not> List.length ws < 12" by auto
      show ?thesis
        by (rule body [where ws = ws, OF _ l(2) same])
          (use run2 l in \<open>simp only: if_False or_raise_def [of "Some l"] option.case bind_r_def [of "Some (Inr l, s')"] prod.case sum.case Let_def\<close>)
    qed
  qed
  with caches_only_step [OF c] show ?thesis by (rule disc_frame.frame_trans)
qed

lemma each_step:
  assumes "each f xs s = Some (r, s1)" "\<And>x s r s1. x \<in> set xs \<Longrightarrow> f x s = Some (r, s1) \<Longrightarrow> disc_step block s s1"
  shows "disc_step block s s1"
  using assms
proof (induction xs arbitrary: s r s1)
  case Nil
  then show ?case by (auto intro: disc_frame.frame_refl)
next
  case (Cons x xs)
  have x: "disc_step block s s'" if "f x s = Some (q, s')" for s q s' using Cons.prems(2) that by (metis list.set_intros(1))
  have xs: "disc_step block s s'" if "each f xs s = Some (q, s')" for s q s'
    by (rule Cons.IH [OF that]) (metis Cons.prems(2) list.set_intros(2))
  from Cons.prems(1) show ?case unfolding each.simps by (rule disc_frame.bind) (rule x, assumption, rule xs)
qed

lemma try_nfpms_step:
  assumes "try_nfpms add ns s = Some (r, s1)" "\<And>n s r s1. add n s = Some (r, s1) \<Longrightarrow> disc_step block s s1"
  shows "disc_step block s s1"
  using assms(1)
proof (induction ns arbitrary: s)
  case Nil
  then show ?case by (auto intro: disc_frame.frame_refl)
next
  case (Cons n ns)
  then show ?case
    by (auto split: option.splits sum.splits rpc_raised.splits prod.splits dest: assms(2) intro: disc_frame.frame_trans)
qed

lemma discover_nfpm_step: "discover_nfpm call block warnings owners n s = Some (r, s1) \<Longrightarrow> disc_step block s s1"
  unfolding discover_nfpm_def
  by (erule each_step) (auto split: prod.splits elim!: disc_frame.bind each_step
      dest: enumerate_owner_frame add_position_step intro: caches_only_step)

lemma staked_step:
  assumes "bind_r (staked_token_ids call gauge owner s)
     (\<lambda>ids. each (\<lambda>t. try_nfpms (\<lambda>n. add_position call block warnings n t ''gauge'' gauge) ns) ids) = Some (r, s1)"
  shows "disc_step block s s1"
  using assms
proof (rule disc_frame.bind)
  show "disc_step block s s'" if "staked_token_ids call gauge owner s = Some (q, s')" for q s'
    by (rule caches_only_step [OF staked_token_ids_frame [OF that]])
next
  fix ids s' q s2
  assume "each (\<lambda>t. try_nfpms (\<lambda>n. add_position call block warnings n t ''gauge'' gauge) ns) ids s' = Some (q, s2)"
  then show "disc_step block s' s2" by (rule each_step) (erule try_nfpms_step, rule add_position_step)
qed

lemma discover_gauge_step:
  assumes "discover_gauge call block warnings ns owners pool s = Some (r, s1)"
  shows "disc_step block s s1"
proof -
  let ?f = "\<lambda>gauge (custody, owner) s3. bind_r (staked_token_ids call gauge owner s3)
    (\<lambda>ids. each (\<lambda>t. try_nfpms (\<lambda>n. add_position call block warnings n t ''gauge'' gauge) ns) ids)"
  have e: "disc_step block s s1" if "each (?f gauge) owners s = Some (r, s1)" for gauge s r s1
    using that by (rule each_step) (auto split: prod.splits dest: staked_step)
  have inner: "disc_step block s' s2"
    if "bind_r (or_raise (int_base16 gauge) s') (\<lambda>n s2. if n = 0 then Some (Inr (), s2) else each (?f gauge) owners s2) = Some (q, s2)"
    for gauge s' q s2
    using that
  proof (rule disc_frame.bind)
    show "disc_step block s' s3" if "or_raise (int_base16 gauge) s' = Some (q, s3)" for q s3
      by (rule caches_only_step [OF or_raise_same [OF that]])
    show "disc_step block s3 s4" if "(if n = 0 then Some (Inr (), s3) else each (?f gauge) owners s3) = Some (q, s4)" for n s3 q s4
    proof (cases "n = 0")
      case True
      with that have "s4 = s3" by simp
      then show ?thesis by (simp only: disc_frame.frame_refl)
    next
      case False
      with that e show ?thesis by (simp only: if_False)
    qed
  qed
  from assms show ?thesis
    unfolding discover_gauge_def Let_def
    by (rule disc_frame.bind) (erule caches_only_step [OF disc_call_frame], erule inner)
qed

lemma candidate_owners_frame: "candidate_owners call w s = Some (r, s1) \<Longrightarrow> caches_only s s1"
  unfolding candidate_owners_def Let_def
  by (erule cache_frame.bind) (auto split: if_splits elim!: cache_frame.bind dest: disc_call_frame or_raise_same intro: cache_frame.frame_refl)

lemma discover_with_step: "discover_with call w settings block s = Some (r, s1) \<Longrightarrow> disc_step block s s1"
  unfolding discover_with_def
  by (erule disc_frame.bind) (auto split: prod.splits elim!: disc_frame.bind each_step
      dest: candidate_owners_frame discover_nfpm_step discover_gauge_step intro: caches_only_step disc_frame.frame_refl)

lemma discover_with_found: "discover_with call w settings block s = Some (Inr ps, s1) \<Longrightarrow> ps = ds_found (fst s1)"
  by (auto simp: discover_with_def bind_r_Inr split: prod.splits)

end

text \<open>\<open>eth_call\<close> is such a call.\<close>

interpretation eth: node_call "\<lambda>to data. eth_call fuel out repr client to data b" for fuel out repr client b
  by unfold_locales (rule eth_call_frame)


text \<open>The recorded keys of a discovery are distinct as well.\<close>

lemma gauge_stops_at_first_manager:
  "add n s = Some (Inr u, s1) \<Longrightarrow> try_nfpms add (n # ns) s = Some (Inr (), s1)"
  by simp

section \<open>A discovery\<close>

text \<open>No Sickle, one token of one manager, its words twice, the factory, and no pool.\<close>

definition sample_words :: "256 word list" where
  "sample_words = [0, 0, 1, 1, 100, - 200, 300, 1000, 0, 0, 0, 0]"

definition discovery_script :: "string list" where
  "discovery_script = [hexword 0, hexword 1, hexword 7, returned sample_words, returned sample_words, hexword 1, hexword 0]"

definition discovery_settings :: settings where
  "discovery_settings = default_settings\<lparr>base_nfpm_addresses := [''0xN''], base_tracked_pools := []\<rparr>"

lemma sint_word_encode: "sint_word (encode_uint (uint w)) = Some (sint (w :: 256 word))"
  using sign_extend_is_sint [of w] by (simp add: sint_word_def uint_encode)

lemma discovery_run:
  "\<exists>p st1. discover (Suc 0) (scripted discovery_script) repr node_client ''0x1'' discovery_settings 100 ([node_transport], script_store, 0)
     = Some (Inr [p], st1) \<and> lp_id p = (''0xn'', 7) \<and> lp_tick_lower p = - 200"
proof -
  let ?call = "\<lambda>to data. eth_call (Suc 0) (scripted discovery_script) repr node_client to data (BlockNumber 100)"
  have script: "discovery_script ! 0 = hexword 0" "discovery_script ! 1 = hexword 1" "discovery_script ! 2 = hexword 7"
    "discovery_script ! 3 = returned sample_words" "discovery_script ! 4 = returned sample_words"
    "discovery_script ! 5 = hexword 1" "discovery_script ! 6 = hexword 0"
    by (simp_all add: discovery_script_def)
  have call: "\<exists>st1. disc_call ?call to (Some data) (d, st) = Some (Inr (discovery_script ! k), d, st1) \<and> answered (Suc k) st1"
    if k: "answered k st" "k < 1000" for to data d st k
  proof -
    obtain st1 where "?call to data st = Some (Inr (discovery_script ! k), st1) \<and> answered (Suc k) st1"
      using answered_call [OF k, where answers = discovery_script and repr = repr and to = to and data = data and b = "BlockNumber 100"]
      by blast
    then show ?thesis by (simp add: disc_call_def)
  qed
  have "addr_arg ''0x1'' \<noteq> None" "addr_arg (addr_from (encode_uint 1)) \<noteq> None" by code_simp+
  then obtain a t where at: "addr_arg ''0x1'' = Some a" "addr_arg (addr_from (encode_uint 1)) = Some t" by blast
  have z: "int_base16 (addr_from (hexword 0)) = Some 0" by code_simp
  note steps = bind_r_def or_raise_def
  have one: "int_base16 (hexword (Suc 0)) = Some 1" using hexword_eval(2) by simp
  have count: "nat 1 = Suc 0" by simp
  obtain s1 where s1: "disc_call ?call sickle_factory (Some (selector ''sickles(address)'' @ a)) (empty_disc, [node_transport], script_store, 0)
      = Some (Inr (hexword 0), empty_disc, s1)" "answered 1 s1"
    using call [OF answered_start] script by fastforce
  have owners: "candidate_owners ?call ''0x1'' (empty_disc, [node_transport], script_store, 0) = Some (Inr ([(''wallet'', ''0x1'')], []), empty_disc, s1)"
    unfolding candidate_owners_def at option.map s1(1) by (simp add: steps z)
  obtain s2 where s2: "disc_call ?call ''0xN'' (Some (selector ''balanceOf(address)'' @ a)) (empty_disc, s1) = Some (Inr (hexword 1), empty_disc, s2)" "answered 2 s2"
    using call [OF s1(2)] script by (fastforce simp: numeral_2_eq_2)
  obtain s3 where s3: "disc_call ?call ''0xN'' (Some (selector ''tokenOfOwnerByIndex(address,uint256)'' @ a @ encode_uint 0)) (empty_disc, s2)
      = Some (Inr (hexword 7), empty_disc, s3)" "answered 3 s3"
    using call [OF s2(2)] script by (fastforce simp: numeral_3_eq_3)
  obtain s4 where s4: "disc_call ?call ''0xN'' (Some (selector ''positions(uint256)'' @ encode_uint 7)) (empty_disc, s3)
      = Some (Inr (returned sample_words), empty_disc, s4)" "answered 4 s4"
    using call [OF s3(2)] script by fastforce
  have tokens: "enumerate_owner ?call ''0xN'' ''0x1'' (empty_disc, s1) = Some (Inr [7], empty_disc, s4)"
    unfolding enumerate_owner_def at option.map s2(1) using s3(1) s4(1)
    by (simp add: steps one count hexword_eval at positions_words_def)
  obtain s5 where s5: "disc_call ?call ''0xN'' (Some (selector ''positions(uint256)'' @ encode_uint 7)) (empty_disc, s4)
      = Some (Inr (returned sample_words), empty_disc, s5)" "answered 5 s5"
    using call [OF s4(2)] script by fastforce
  define d1 where "d1 = empty_disc\<lparr>ds_seen := [(''0xn'', 7)]\<rparr>"
  define d2 where "d2 = d1\<lparr>ds_factories := [(''0xn'', addr_from (hexword 1))]\<rparr>"
  obtain s6 where s6: "disc_call ?call ''0xN'' (Some (selector ''factory()'')) (d1, s5) = Some (Inr (hexword 1), d1, s6)" "answered 6 s6"
    using call [OF s5(2)] script by fastforce
  obtain s7 where s7: "disc_call ?call (addr_from (hexword 1)) (Some (selector ''getPool(address,address,int24)'' @ t @ t @ encode_uint 100)) (d2, s6)
      = Some (Inr (hexword 0), d2, s7)" "answered 7 s7"
    using call [OF s6(2)] script by fastforce
  have low: "lower ''0xN'' = ''0xn''" by code_simp
  note enc = uint_encode(1) [of 1, simplified] uint_encode(1) [of 100, simplified] uint_encode(1) [of 1000, simplified] uint_encode(1) [of 0, simplified]
  note sgn = sint_word_encode [of "- 200", simplified] sint_word_encode [of 300, simplified]
  have words: "hex_words (returned sample_words) = map (\<lambda>w. encode_uint (uint w)) sample_words" by (rule hex_words_returned)
  obtain p where p: "position_of_words ''0xN'' 7 ''wallet'' ''0x1'' 100 [] 1000 (map (\<lambda>w. encode_uint (uint w)) sample_words) = Some p"
    "lp_nfpm p = ''0xN''" "lp_token0 p = addr_from (encode_uint 1)" "lp_token1 p = addr_from (encode_uint 1)" "lp_tick_spacing p = 100"
    "lp_tick_lower p = - 200" "lp_id p = (''0xn'', 7)"
    by (simp add: position_of_words_def sample_words_def enc sgn lp_id_def low)
  let ?q = "warn (''pool unresolved via factory.getPool '' @ dash @ '' amounts omitted'') (p\<lparr>lp_pool_unresolved := True\<rparr>)"
  have fac: "factory_of ?call ''0xN'' (d1, s5) = Some (Inr (addr_from (hexword 1)), d2, s6)"
    using s6(1) by (simp add: factory_of_def steps low d1_def d2_def empty_disc_def)
  have res: "resolve_pool_and_value ?call p (d1, s5) = Some (Inr ?q, d2, s7)"
    unfolding resolve_pool_and_value_def p(2-5) fac using s7(1) by (simp add: steps at z Let_def)
  have len: "List.length sample_words = 12" by (simp add: sample_words_def)
  have liq: "int_base16 (encode_uint (uint (sample_words ! 7))) = Some 1000" by (simp add: sample_words_def enc)
  have upd: "(empty_disc\<lparr>ds_seen := (''0xn'', 7) # ds_seen empty_disc\<rparr>) = d1" "ds_found d2 = []"
    by (simp_all add: d1_def d2_def empty_disc_def)
  have add: "add_position ?call 100 [] ''0xN'' 7 ''wallet'' ''0x1'' (empty_disc, s4) = Some (Inr (), d2\<lparr>ds_found := [?q]\<rparr>, s7)"
    unfolding add_position_def positions_words_def s5(1) low
    by (simp add: steps words len liq upd p(1) res Let_def) (simp add: empty_disc_def)
  have nfpm: "discover_nfpm ?call 100 [] [(''wallet'', ''0x1'')] ''0xN'' (empty_disc, s1) = Some (Inr (), d2\<lparr>ds_found := [?q]\<rparr>, s7)"
    by (simp add: discover_nfpm_def steps tokens add)
  have "discover (Suc 0) (scripted discovery_script) repr node_client ''0x1'' discovery_settings 100 ([node_transport], script_store, 0)
     = Some (Inr [?q], s7)"
    by (simp add: discover_def discover_with_def steps owners nfpm discovery_settings_def)
  moreover have "lp_id ?q = (''0xn'', 7)" "lp_tick_lower ?q = - 200" using p(6,7) by (simp_all add: warn_def lp_id_def)
  ultimately show ?thesis by blast
qed


end
