(* ===== verification/Gmx.thy ===== *)
theory Gmx
  imports Peers
begin

text \<open>
  The reads of \<open>clients/gmx.py\<close>: exact scaling of the raw numbers, the markets cache, the parsing of
  orders and positions. \<open>repr\<close> is \<open>str\<close> of a container and \<open>to_bool\<close> the model library's conversion
  to a boolean field (\<open>None\<close> raises). The state is the markets cache, the transports, the store and the
  environment. What is recorded of a position is in \<open>Recorders\<close>.
\<close>

section \<open>Scaling\<close>

definition uint256_max :: int where
  "uint256_max = 2 ^ 256 - 1"

definition order_kinds :: "(int \<times> string) list" where
  "order_kinds = [(0, ''market-swap''), (1, ''limit-swap''), (2, ''market-increase''), (3, ''limit-increase''),
     (4, ''market-decrease''), (5, ''limit-decrease''), (6, ''stop-loss-decrease''), (7, ''liquidation''), (8, ''stop-increase'')]"

definition gmx_token_decimals :: "(string \<times> int) list" where
  "gmx_token_decimals =
     [(''0x82af49447d8a07e3bd95bd0d56f35241523fbab1'', 18), (''0xaf88d065e77c8cc2239327c5edb3a432268e5831'', 6),
      (''0xff970a61a04b1ca14834a43f5de4533ebddb5cc8'', 6), (''0x2f2a2543b76a4166549f7aab2e75bef0aefc5b0f'', 8),
      (''0xfd086bc7cd5c481dcc9c85ebe478a1c0b69fcbb9'', 6)]"

text \<open>The text is that of a finite number, or the conversion raises.\<close>

definition shift :: "string \<Rightarrow> int \<Rightarrow> decimal option" where
  "shift raw places = map_option (\<lambda>d. Dec (dneg d) (dcoef d) (dexp d - places)) (text_to_decimal raw)"

definition scale_usd :: "string \<Rightarrow> decimal option" where
  "scale_usd raw = shift raw 30"

definition scale_factor :: "string \<Rightarrow> decimal option" where
  "scale_factor raw = shift raw 4"

definition scale_tokens :: "string \<Rightarrow> int \<Rightarrow> decimal option" where
  "scale_tokens raw decimals = shift raw decimals"

definition scale_trigger :: "string \<Rightarrow> int \<Rightarrow> decimal option" where
  "scale_trigger raw index_decimals = shift raw (30 - index_decimals)"

definition token_decimals :: "string \<Rightarrow> client_error + int" where
  "token_decimals address =
     (case map_of gmx_token_decimals (lower address) of None \<Rightarrow> Inl (UnknownToken address) | Some d \<Rightarrow> Inr d)"

section \<open>Markets\<close>

record gmx_market =
  gm_symbol :: string
  gm_market_token :: string
  gm_index_token :: string
  gm_long_token :: "string option"
  gm_short_token :: "string option"
  gm_is_listed :: "bool option"

definition opt_bool_field :: "(json \<Rightarrow> bool option) \<Rightarrow> json \<Rightarrow> bool option option" where
  "opt_bool_field to_bool j = (if j = JNull then Some None else map_option Some (to_bool j))"

definition parse_market :: "(json \<Rightarrow> bool option) \<Rightarrow> json \<Rightarrow> gmx_market option" where
  "parse_market to_bool item = do {
     d \<leftarrow> as_object item;
     symbol \<leftarrow> text_field (get_default d ''symbol'' (JStr []));
     market_token \<leftarrow> text_field (get_default d ''marketTokenAddress'' (JStr []));
     index_token \<leftarrow> text_field (get_default d ''indexTokenAddress'' (JStr []));
     long_token \<leftarrow> opt_text_field (get_default d ''longTokenAddress'' JNull);
     short_token \<leftarrow> opt_text_field (get_default d ''shortTokenAddress'' JNull);
     listed \<leftarrow> opt_bool_field to_bool (get_default d ''isListed'' JNull);
     Some \<lparr>gm_symbol = symbol, gm_market_token = market_token, gm_index_token = index_token,
           gm_long_token = long_token, gm_short_token = short_token, gm_is_listed = listed\<rparr>
   }"

type_synonym 'e gmx_state = "gmx_market list option \<times> 'e ring"

definition gmx_json :: "nat \<Rightarrow> 'e outside \<Rightarrow> string list \<Rightarrow> string \<Rightarrow> dict option \<Rightarrow> 'e gmx_state \<Rightarrow> (json, 'e gmx_state) client_result" where
  "gmx_json fuel out peers path params s =
     (case peer_json fuel out peers path params (snd s) of
        None \<Rightarrow> None
      | Some (Inl e, st) \<Rightarrow> Some (Inl e, fst s, st)
      | Some (Inr (payload, peer), st) \<Rightarrow> Some (Inr payload, fst s, st))"

definition get_markets :: "nat \<Rightarrow> 'e outside \<Rightarrow> (json \<Rightarrow> bool option) \<Rightarrow> string list \<Rightarrow> 'e gmx_state \<Rightarrow> (gmx_market list, 'e gmx_state) client_result" where
  "get_markets fuel out to_bool peers s =
     (case fst s of
        Some cached \<Rightarrow> Some (Inr cached, s)
      | None \<Rightarrow>
          bind_r (gmx_json fuel out peers ''/markets'' None s)
            (\<lambda>payload s1. case Option.bind (iter_items payload) (collect (parse_market to_bool)) of
               None \<Rightarrow> Some (Inl ClientPython, s1)
             | Some markets \<Rightarrow> Some (Inr markets, Some markets, snd s1)))"

fun find_market :: "string \<Rightarrow> gmx_market list \<Rightarrow> gmx_market option" where
  "find_market address [] = None"
| "find_market address (m # ms) = (if lower (gm_market_token m) = lower address then Some m else find_market address ms)"

definition index_decimals_for_market :: "nat \<Rightarrow> 'e outside \<Rightarrow> (json \<Rightarrow> bool option) \<Rightarrow> string list \<Rightarrow> string \<Rightarrow> 'e gmx_state
    \<Rightarrow> (int, 'e gmx_state) client_result" where
  "index_decimals_for_market fuel out to_bool peers market_address s =
     bind_r (get_markets fuel out to_bool peers s)
       (\<lambda>markets s1. Some (case find_market market_address markets of
            None \<Rightarrow> Inl (ClientRaised (MarketNotFound market_address))
          | Some m \<Rightarrow> (case token_decimals (gm_index_token m) of Inl e \<Rightarrow> Inl (ClientRaised e) | Inr d \<Rightarrow> Inr d), s1))"

section \<open>Orders\<close>

definition order_kind :: "int \<Rightarrow> string" where
  "order_kind n = (case map_of order_kinds n of Some k \<Rightarrow> k | None \<Rightarrow> ''unknown-'' @ int_str n)"

text \<open>\<open>x is not None\<close> of a value taken with \<open>get\<close>.\<close>

definition present :: "dict \<Rightarrow> string \<Rightarrow> json option" where
  "present d k = (case get d k of Some JNull \<Rightarrow> None | v \<Rightarrow> v)"

definition parse_order :: "(json \<Rightarrow> string) \<Rightarrow> (json \<Rightarrow> bool option) \<Rightarrow> int \<Rightarrow> json \<Rightarrow> gmx_order option" where
  "parse_order repr to_bool index_decimals item = do {
     d \<leftarrow> as_object item;
     order_type \<leftarrow> int_of_json (get_default d ''orderType'' (JInt (- 1)));
     is_full \<leftarrow> (case present d ''sizeDeltaUsd'' of None \<Rightarrow> Some False
       | Some v \<Rightarrow> map_option (\<lambda>n. n = uint256_max) (int_of_text (text_of repr v)));
     trigger \<leftarrow> (case present d ''triggerPrice'' of None \<Rightarrow> Some None
       | Some v \<Rightarrow> map_option Some (scale_trigger (text_of repr v) index_decimals));
     delta \<leftarrow> (case present d ''sizeDeltaUsd'' of None \<Rightarrow> Some None
       | Some v \<Rightarrow> if is_full then Some None else map_option Some (scale_usd (text_of repr v)));
     long_side \<leftarrow> opt_bool_field to_bool (get_default d ''isLong'' JNull);
     Some \<lparr>go_key = text_of repr (get_default d ''key'' (JStr [])), go_type = order_type, go_kind = order_kind order_type,
           go_trigger_price = trigger, go_full_close = is_full, go_size_delta_usd = delta,
           go_auto_cancel = truthy (get_default d ''autoCancel'' (JBool False)), go_is_long = long_side, go_raw = d\<rparr>
   }"

section \<open>Positions\<close>

definition usd_or_none :: "(json \<Rightarrow> string) \<Rightarrow> dict \<Rightarrow> string \<Rightarrow> decimal option option" where
  "usd_or_none repr d k = (case present d k of None \<Rightarrow> Some None | Some v \<Rightarrow> map_option Some (scale_usd (text_of repr v)))"

text \<open>The collateral amount is only scaled when the token is known.\<close>

definition collateral_amount :: "(json \<Rightarrow> string) \<Rightarrow> dict \<Rightarrow> client_raised + decimal option" where
  "collateral_amount repr d =
     (case present d ''collateralAmount'' of None \<Rightarrow> Inr None
      | Some amount \<Rightarrow>
          let token = get_default d ''collateralTokenAddress'' JNull in
          if \<not> truthy token then Inr None
          else case token_decimals (text_of repr token) of Inl e \<Rightarrow> Inl (ClientRaised e)
             | Inr decimals \<Rightarrow>
                 (case scale_tokens (text_of repr amount) decimals of None \<Rightarrow> Inl ClientPython | Some x \<Rightarrow> Inr (Some x)))"

text \<open>The fields of the position, once the collateral and the decimals of the index token are known.\<close>

definition position_fields :: "(json \<Rightarrow> string) \<Rightarrow> (json \<Rightarrow> bool option) \<Rightarrow> dict \<Rightarrow> decimal option \<Rightarrow> json \<Rightarrow> int \<Rightarrow> gmx_position option" where
  "position_fields repr to_bool d collateral orders_raw index_decimals = do {
     index_name \<leftarrow> opt_text_field (get_default d ''indexName'' JNull);
     pool_name \<leftarrow> opt_text_field (get_default d ''poolName'' JNull);
     size_json \<leftarrow> get d ''sizeInUsd'';
     size_usd \<leftarrow> scale_usd (text_of repr size_json);
     tokens_json \<leftarrow> get d ''sizeInTokens'';
     size_tokens \<leftarrow> scale_tokens (text_of repr tokens_json) 18;
     entry \<leftarrow> usd_or_none repr d ''entryPrice'';
     mark \<leftarrow> usd_or_none repr d ''markPrice'';
     liquidation \<leftarrow> usd_or_none repr d ''liquidationPrice'';
     collateral_usd \<leftarrow> usd_or_none repr d ''collateralUsd'';
     leverage \<leftarrow> (case present d ''leverage'' of None \<Rightarrow> Some None | Some v \<Rightarrow> map_option Some (scale_factor (text_of repr v)));
     pnl \<leftarrow> usd_or_none repr d ''pnl'';
     borrowing \<leftarrow> usd_or_none repr d ''pendingBorrowingFeesUsd'';
     funding \<leftarrow> usd_or_none repr d ''pendingFundingFeesUsd'';
     items \<leftarrow> iter_items orders_raw;
     orders \<leftarrow> collect (parse_order repr to_bool index_decimals) items;
     Some \<lparr>gp_key = text_of repr (get_default d ''key'' (JStr [])), gp_account = text_of repr (get_default d ''account'' (JStr [])),
           gp_market_address = text_of repr (get_default d ''marketAddress'' (JStr [])),
           gp_index_name = index_name, gp_pool_name = pool_name, gp_is_long = truthy (get_default d ''isLong'' JNull),
           gp_size_usd = size_usd, gp_size_tokens = size_tokens, gp_entry_price = entry, gp_mark_price = mark,
           gp_liquidation_price = liquidation, gp_collateral_usd = collateral_usd, gp_collateral_amount = collateral,
           gp_leverage = leverage, gp_pnl = pnl, gp_pending_borrowing_fees_usd = borrowing,
           gp_pending_funding_fees_usd = funding, gp_related_orders = orders\<rparr>
   }"

definition parse_position :: "nat \<Rightarrow> 'e outside \<Rightarrow> (json \<Rightarrow> string) \<Rightarrow> (json \<Rightarrow> bool option) \<Rightarrow> string list \<Rightarrow> json \<Rightarrow> 'e gmx_state
    \<Rightarrow> (gmx_position, 'e gmx_state) client_result" where
  "parse_position fuel out repr to_bool peers item s =
     (case as_object item of
        None \<Rightarrow> Some (Inl ClientPython, s)
      | Some d \<Rightarrow>
          (case collateral_amount repr d of
             Inl e \<Rightarrow> Some (Inl e, s)
           | Inr collateral \<Rightarrow>
               let related = get_default d ''relatedOrders'' JNull;
                   orders_raw = (if truthy related then related else JArr [])
               in bind_r (if truthy orders_raw
                          then index_decimals_for_market fuel out to_bool peers (text_of repr (get_default d ''marketAddress'' (JStr []))) s
                          else Some (Inr 18, s))
                    (\<lambda>index_decimals. or_client (position_fields repr to_bool d collateral orders_raw index_decimals))))"

fun parse_positions :: "nat \<Rightarrow> 'e outside \<Rightarrow> (json \<Rightarrow> string) \<Rightarrow> (json \<Rightarrow> bool option) \<Rightarrow> string list \<Rightarrow> json list \<Rightarrow> 'e gmx_state
    \<Rightarrow> (gmx_position list, 'e gmx_state) client_result" where
  "parse_positions fuel out repr to_bool peers [] s = Some (Inr [], s)"
| "parse_positions fuel out repr to_bool peers (item # items) s =
     bind_r (parse_position fuel out repr to_bool peers item s)
       (\<lambda>p s1. bind_r (parse_positions fuel out repr to_bool peers items s1) (\<lambda>ps s2. Some (Inr (p # ps), s2)))"

definition get_positions :: "nat \<Rightarrow> 'e outside \<Rightarrow> (json \<Rightarrow> string) \<Rightarrow> (json \<Rightarrow> bool option) \<Rightarrow> string list \<Rightarrow> string \<Rightarrow> bool \<Rightarrow> 'e gmx_state
    \<Rightarrow> (gmx_position list, 'e gmx_state) client_result" where
  "get_positions fuel out repr to_bool peers address include_orders s =
     bind_r (gmx_json fuel out peers ''/positions''
         (Some ((''address'', JStr address) # (if include_orders then [(''includeRelatedOrders'', JStr ''true'')] else []))) s)
       (\<lambda>payload s1. case iter_items payload of
          None \<Rightarrow> Some (Inl ClientPython, s1)
        | Some items \<Rightarrow> parse_positions fuel out repr to_bool peers items s1)"

definition hedge_positions :: "nat \<Rightarrow> 'e outside \<Rightarrow> (json \<Rightarrow> string) \<Rightarrow> (json \<Rightarrow> bool option) \<Rightarrow> string list \<Rightarrow> string \<Rightarrow> 'e gmx_state
    \<Rightarrow> (gmx_position list, 'e gmx_state) client_result" where
  "hedge_positions fuel out repr to_bool peers address s =
     bind_r (get_positions fuel out repr to_bool peers address True s)
       (\<lambda>ps s1. Some (Inr (filter (\<lambda>p. gp_index_name p = Some ''ETH/USD'' \<and> \<not> gp_is_long p) ps), s1))"

section \<open>Exactness\<close>

lemma text_to_decimal_nat [simp]: "text_to_decimal (nat_str n) = Some (Dec False n 0)"
proof -
  have "dec_str (Dec False n 0) = nat_str n" by (simp add: dec_str_def Let_def sign_str_def zeros_def)
  then show ?thesis by (metis dec_str_roundtrip)
qed

lemma shift_nat: "shift (nat_str n) p = Some (Dec False n (- p))"
  by (simp add: shift_def)

lemma powi10_cancel: "10 powi (- p) * 10 powi p = (1::real)"
  by (simp add: power_int_minus)

lemma shift_nat_val: "shift (nat_str n) p = Some x \<Longrightarrow> dval x * 10 powi p = real n"
  by (auto simp: shift_nat dval_def mult.assoc powi10_cancel)

text \<open>Scaling never rounds: any integer the API sends, of any number of digits (a 256-bit word has 78,
  far above the default precision), becomes the decimal with the very same digits and exactly the
  quotient's value.\<close>

theorem scaling_is_exact:
  "\<exists>x. shift (nat_str n) places = Some x \<and> dcoef x = n \<and> dval x * 10 powi places = real n"
  using shift_nat [of n places] shift_nat_val by fastforce

lemma present_get: "get d k = Some v \<Longrightarrow> v \<noteq> JNull \<Longrightarrow> present d k = Some v"
  by (cases v) (simp_all add: present_def)

lemma order_kind_stop_loss: "order_kind n = ''stop-loss-decrease'' \<longleftrightarrow> n = 6"
proof -
  have "''unknown-'' @ t \<noteq> ''stop-loss-decrease''" for t by simp
  then show ?thesis by (auto simp: order_kind_def order_kinds_def)
qed

text \<open>Order sizes are never fabricated: a parsed order is a full close exactly when the raw size is the
  largest 256-bit number, then it has no size; otherwise an integer size and trigger are scaled by exactly
  ten to the 30 and to the 30 less the index token's decimals; and it counts as a stop-loss exactly
  when its type is 6.\<close>

theorem order_parsed_exactly:
  assumes "parse_order repr to_bool decimals (JObj d) = Some ord"
  shows "(go_full_close ord \<longleftrightarrow> (\<exists>v. present d ''sizeDeltaUsd'' = Some v \<and> int_of_text (text_of repr v) = Some uint256_max))
    \<and> (go_full_close ord \<longrightarrow> go_size_delta_usd ord = None)
    \<and> (\<forall>n. get d ''sizeDeltaUsd'' = Some (JStr (nat_str n)) \<longrightarrow> \<not> go_full_close ord \<longrightarrow>
         (\<exists>x. go_size_delta_usd ord = Some x \<and> dval x * 10 powi 30 = real n))
    \<and> (\<forall>n. get d ''triggerPrice'' = Some (JStr (nat_str n)) \<longrightarrow>
         (\<exists>x. go_trigger_price ord = Some x \<and> dval x * 10 powi (30 - decimals) = real n))
    \<and> (go_kind ord = ''stop-loss-decrease'' \<longleftrightarrow> go_type ord = 6)"
proof -
  obtain ty full tr delta side where p: "int_of_json (get_default d ''orderType'' (JInt (- 1))) = Some ty"
    "(case present d ''sizeDeltaUsd'' of None \<Rightarrow> Some False
       | Some v \<Rightarrow> map_option (\<lambda>n. n = uint256_max) (int_of_text (text_of repr v))) = Some full"
    "(case present d ''triggerPrice'' of None \<Rightarrow> Some None
       | Some v \<Rightarrow> map_option Some (scale_trigger (text_of repr v) decimals)) = Some tr"
    "(case present d ''sizeDeltaUsd'' of None \<Rightarrow> Some None
       | Some v \<Rightarrow> if full then Some None else map_option Some (scale_usd (text_of repr v))) = Some delta"
    and ord: "go_full_close ord = full" "go_size_delta_usd ord = delta" "go_trigger_price ord = tr" "go_kind ord = order_kind ty" "go_type ord = ty"
    using assms by (auto simp: parse_order_def as_object_def bind_eq_Some_conv)
  have full: "full \<longleftrightarrow> (\<exists>v. present d ''sizeDeltaUsd'' = Some v \<and> int_of_text (text_of repr v) = Some uint256_max)"
    using p(2) by (auto split: option.splits)
  have none: "full \<Longrightarrow> delta = None" using p(2,4) by (auto split: option.splits)
  have size: "\<exists>x. delta = Some x \<and> dval x * 10 powi 30 = real n" if "get d ''sizeDeltaUsd'' = Some (JStr (nat_str n))" "\<not> full" for n
    using p(4) that shift_nat_val [of n 30] by (fastforce simp: present_def text_of_def str_of_def scale_usd_def simp del: power_int_numeral)
  have trigger: "\<exists>x. tr = Some x \<and> dval x * 10 powi (30 - decimals) = real n" if "get d ''triggerPrice'' = Some (JStr (nat_str n))" for n
    using p(3) that shift_nat_val [of n "30 - decimals"] by (auto simp: present_def text_of_def str_of_def scale_trigger_def)
  show ?thesis unfolding ord order_kind_stop_loss using full none size trigger by blast
qed

definition sample_order :: dict where
  "sample_order = [(''key'', JStr ''0xO''), (''orderType'', JInt 6), (''triggerPrice'', JStr (nat_str 1925000000000000)),
     (''sizeDeltaUsd'', JStr (nat_str (2 ^ 256 - 1)))]"

lemma order_parsed_exactly_witness:
  "\<exists>ord x. parse_order (\<lambda>_. []) (\<lambda>_. None) 18 (JObj sample_order) = Some ord \<and> go_full_close ord
     \<and> go_size_delta_usd ord = None \<and> go_trigger_price ord = Some x \<and> dval x = 1925"
proof -
  have g: "get sample_order ''sizeDeltaUsd'' = Some (JStr (nat_str (2 ^ 256 - 1)))"
    "get sample_order ''triggerPrice'' = Some (JStr (nat_str 1925000000000000))"
    "get sample_order ''orderType'' = Some (JInt 6)" "get sample_order ''isLong'' = None"
    by (simp_all add: sample_order_def get_def)
  note pr = present_get [OF g(1)] present_get [OF g(2)]
  obtain ord where ord: "parse_order (\<lambda>_. []) (\<lambda>_. None) 18 (JObj sample_order) = Some ord"
    using pr g by (simp add: parse_order_def as_object_def get_default_def int_of_json_def text_of_def str_of_def
        scale_trigger_def scale_usd_def shift_nat opt_bool_field_def uint256_max_def)
  have "int_of_text (nat_str (2 ^ 256 - 1)) = Some uint256_max"
    unfolding int_of_text_nat uint256_max_def by simp
  with pr have "\<exists>v. present sample_order ''sizeDeltaUsd'' = Some v \<and> int_of_text (text_of (\<lambda>_. []) v) = Some uint256_max"
    by (auto simp: text_of_def str_of_def)
  with order_parsed_exactly [OF ord] have full: "go_full_close ord" "go_size_delta_usd ord = None" by blast+
  from order_parsed_exactly [OF ord] g(2) obtain x where x: "go_trigger_price ord = Some x" "dval x * 10 powi (30 - 18) = real 1925000000000000"
    by blast
  have "dval x = 1925" using x(2) by simp
  with ord full x show ?thesis by blast
qed

section \<open>What the reads leave alone\<close>

definition gmx_store :: "'e gmx_state \<Rightarrow> store" where
  "gmx_store s = store_of (snd s)"

lemma gmx_store_pair [simp]: "gmx_store (cache, st) = store_of st"
  by (simp add: gmx_store_def)

interpretation gmx_frame: state_frame "\<lambda>s s1. log_only (gmx_store s) (gmx_store s1)"
  by unfold_locales (auto intro: log_only_trans)

lemmas gmx_bind_frame = gmx_frame.bind

lemma gmx_json_frame: "gmx_json fuel out peers path params s = Some (r, s1) \<Longrightarrow> log_only (gmx_store s) (gmx_store s1)"
  by (auto simp: gmx_json_def gmx_store_def split: option.splits sum.splits prod.splits dest!: peer_json_frame)

lemma get_markets_frame: "get_markets fuel out tb peers s = Some (r, s1) \<Longrightarrow> log_only (gmx_store s) (gmx_store s1)"
  unfolding get_markets_def
  by (cases "fst s") (auto elim!: gmx_bind_frame dest: gmx_json_frame split: option.splits)

lemma index_decimals_frame:
  "index_decimals_for_market fuel out tb peers m s = Some (r, s1) \<Longrightarrow> log_only (gmx_store s) (gmx_store s1)"
  unfolding index_decimals_for_market_def by (erule gmx_bind_frame) (auto dest: get_markets_frame)

lemma or_client_same: "or_client x s = Some (q, s2) \<Longrightarrow> s2 = s"
  by (simp add: or_client_def)

lemma parse_position_frame:
  assumes "parse_position fuel out repr tb peers item s = Some (r, s1)"
  shows "log_only (gmx_store s) (gmx_store s1)"
proof -
  have b: "log_only (gmx_store s) (gmx_store s1)"
    if "bind_r (if c then index_decimals_for_market fuel out tb peers a s else Some (Inr 18, s)) (\<lambda>i. or_client (f i)) = Some (r, s1)" for c a f
    by (rule gmx_bind_frame [OF that]) (auto split: if_splits dest: index_decimals_frame or_client_same)
  from assms show ?thesis
    unfolding parse_position_def Let_def
    by (cases "as_object item"; cases "collateral_amount repr (the (as_object item))") (auto dest!: b)
qed

lemma parse_positions_frame:
  "parse_positions fuel out repr tb peers items s = Some (r, s1) \<Longrightarrow> log_only (gmx_store s) (gmx_store s1)"
proof (induction items arbitrary: s r s1)
  case (Cons item items)
  from Cons.prems show ?case
    unfolding parse_positions.simps
    by (elim gmx_bind_frame) (auto dest: parse_position_frame Cons.IH elim!: gmx_bind_frame)
qed simp

lemma get_positions_frame:
  "get_positions fuel out repr tb peers a io s = Some (r, s1) \<Longrightarrow> log_only (gmx_store s) (gmx_store s1)"
  unfolding get_positions_def
  by (erule gmx_bind_frame) (auto dest: gmx_json_frame parse_positions_frame split: option.splits)

end
