(* ===== verification/Market.thy ===== *)
theory Market
  imports Peers
begin

text \<open>
  \<open>clients/dexpaprika.py\<close>: market history and volume. \<open>coerce\<close> holds the model library's conversions of
  decoded values to integer and decimal fields (\<open>None\<close> raises). The state is the transport, the store
  and the environment.
\<close>

section \<open>Reads\<close>

record coerce =
  to_int :: "json \<Rightarrow> int option"
  to_dec :: "json \<Rightarrow> decimal option"

definition opt_field :: "(json \<Rightarrow> 'a option) \<Rightarrow> json \<Rightarrow> 'a option option" where
  "opt_field f j = (if j = JNull then Some None else map_option Some (f j))"

definition market_intervals :: "string list" where
  "market_intervals = [''1m'', ''5m'', ''15m'', ''30m'', ''1h'', ''6h'', ''12h'', ''24h'']"

record network =
  nw_id :: string
  nw_display_name :: "string option"

record pool_details =
  pd_network :: string
  pd_address :: string
  pd_dex_id :: string
  pd_dex_name :: "string option"
  pd_last_price_usd :: "decimal option"
  pd_liquidity_usd :: "decimal option"
  pd_fee :: "decimal option"
  pd_volume_24h_usd :: "decimal option"
  pd_txns_24h :: "int option"
  pd_raw :: dict

record candle =
  cn_time_open :: string
  cn_time_close :: string
  cn_open :: decimal
  cn_high :: decimal
  cn_low :: decimal
  cn_close :: decimal
  cn_volume :: "decimal option"

definition market_json :: "nat \<Rightarrow> 'e outside \<Rightarrow> string \<Rightarrow> dict option \<Rightarrow> 'e traffic \<Rightarrow> (json, 'e traffic) client_result" where
  "market_json fuel out path params w =
     (case get_json fuel out path params None w of
        None \<Rightarrow> None
      | Some (Inl (TransportRaised e), w1) \<Rightarrow> Some (Inl (ClientRaised (ClientTransport e)), w1)
      | Some (Inl (QuotaRaised e), w1) \<Rightarrow> Some (Inl (ClientQuota e), w1)
      | Some (Inr payload, w1) \<Rightarrow> Some (Inr payload, w1))"

definition parse_network :: "json \<Rightarrow> network option" where
  "parse_network item = do {
     d \<leftarrow> as_object item;
     i \<leftarrow> Option.bind (get d ''id'') text_field;
     name \<leftarrow> opt_text_field (get_default d ''display_name'' JNull);
     Some \<lparr>nw_id = i, nw_display_name = name\<rparr>
   }"

definition get_networks :: "nat \<Rightarrow> 'e outside \<Rightarrow> 'e traffic \<Rightarrow> (network list, 'e traffic) client_result" where
  "get_networks fuel out w =
     bind_r (market_json fuel out ''/networks'' None w)
       (\<lambda>payload. or_client (Option.bind (iter_items payload) (collect parse_network)))"

definition pool_path :: "string \<Rightarrow> string \<Rightarrow> string" where
  "pool_path network address = ''/networks/'' @ network @ ''/pools/'' @ address"

definition parse_pool :: "coerce \<Rightarrow> string \<Rightarrow> string \<Rightarrow> json \<Rightarrow> pool_details option" where
  "parse_pool c network address payload = do {
     d \<leftarrow> as_object payload;
     let day_json = get_default d ''24h'' JNull;
     day \<leftarrow> (if truthy day_json then as_object day_json else Some []);
     dex \<leftarrow> Option.bind (get d ''dex_id'') text_field;
     dex_name \<leftarrow> opt_text_field (get_default d ''dex_name'' JNull);
     price \<leftarrow> opt_field (to_dec c) (get_default d ''last_price_usd'' JNull);
     liquidity \<leftarrow> opt_field (to_dec c) (get_default d ''liquidity_usd'' JNull);
     fee \<leftarrow> opt_field (to_dec c) (get_default d ''fee'' JNull);
     volume \<leftarrow> opt_field (to_dec c) (get_default day ''volume_usd'' JNull);
     txns \<leftarrow> opt_field (to_int c) (get_default day ''txns'' JNull);
     Some \<lparr>pd_network = network, pd_address = address, pd_dex_id = dex, pd_dex_name = dex_name,
           pd_last_price_usd = price, pd_liquidity_usd = liquidity, pd_fee = fee,
           pd_volume_24h_usd = volume, pd_txns_24h = txns, pd_raw = d\<rparr>
   }"

definition get_pool :: "nat \<Rightarrow> 'e outside \<Rightarrow> coerce \<Rightarrow> string \<Rightarrow> string \<Rightarrow> 'e traffic \<Rightarrow> (pool_details, 'e traffic) client_result" where
  "get_pool fuel out c network address w =
     bind_r (market_json fuel out (pool_path network address) None w)
       (\<lambda>payload. or_client (parse_pool c network address payload))"

definition parse_candle :: "coerce \<Rightarrow> json \<Rightarrow> candle option" where
  "parse_candle c item = do {
     d \<leftarrow> as_object item;
     opened \<leftarrow> Option.bind (get d ''time_open'') text_field;
     closed \<leftarrow> Option.bind (get d ''time_close'') text_field;
     o1 \<leftarrow> Option.bind (get d ''open'') (to_dec c);
     h1 \<leftarrow> Option.bind (get d ''high'') (to_dec c);
     l1 \<leftarrow> Option.bind (get d ''low'') (to_dec c);
     c1 \<leftarrow> Option.bind (get d ''close'') (to_dec c);
     v1 \<leftarrow> opt_field (to_dec c) (get_default d ''volume'' JNull);
     Some \<lparr>cn_time_open = opened, cn_time_close = closed, cn_open = o1, cn_high = h1, cn_low = l1, cn_close = c1, cn_volume = v1\<rparr>
   }"

text \<open>An unknown interval raises before anything is sent.\<close>

definition get_ohlcv :: "nat \<Rightarrow> 'e outside \<Rightarrow> coerce \<Rightarrow> string \<Rightarrow> string \<Rightarrow> string \<Rightarrow> string \<Rightarrow> int \<Rightarrow> 'e traffic
    \<Rightarrow> (candle list, 'e traffic) client_result" where
  "get_ohlcv fuel out c network address start interval limit w =
     (if interval \<notin> set market_intervals then Some (Inl ClientPython, w)
      else bind_r (market_json fuel out (pool_path network address @ ''/ohlcv'')
               (Some [(''start'', JStr start), (''interval'', JStr interval), (''limit'', JInt limit)]) w)
             (\<lambda>payload. or_client (Option.bind (iter_items payload) (collect (parse_candle c)))))"

section \<open>Recording\<close>

definition dec_column :: "decimal option \<Rightarrow> string option" where
  "dec_column v = map_option decimal_to_text v"

definition record_pool_metrics :: "pool_details \<Rightarrow> instant \<Rightarrow> store \<Rightarrow> store" where
  "record_pool_metrics p now db =
     db\<lparr>pool_metrics := pool_metrics db @
       [\<lparr>pm_id = next_id (map pm_id (pool_metrics db)), pm_ts = now, pm_network = pd_network p, pm_pool = pd_address p,
         pm_source = ''dexpaprika'', pm_price_usd = dec_column (pd_last_price_usd p),
         pm_liquidity_usd = dec_column (pd_liquidity_usd p), pm_volume_24h_usd = dec_column (pd_volume_24h_usd p),
         pm_txns_24h = pd_txns_24h p, pm_fee = dec_column (pd_fee p), pm_raw = pd_raw p\<rparr>]\<rparr>"

text \<open>The columns of the uniqueness constraint, and a candle as a row.\<close>

definition candle_key :: "ohlcv_row \<Rightarrow> string \<times> string \<times> string \<times> string" where
  "candle_key r = (oh_network r, oh_pool r, oh_interval r, oh_start r)"

definition fill_candle :: "candle \<Rightarrow> instant \<Rightarrow> ohlcv_row \<Rightarrow> ohlcv_row" where
  "fill_candle k as_of r =
     r\<lparr>oh_end := cn_time_close k, oh_open := decimal_to_text (cn_open k), oh_high := decimal_to_text (cn_high k),
       oh_low := decimal_to_text (cn_low k), oh_close := decimal_to_text (cn_close k),
       oh_volume := dec_column (cn_volume k), oh_source := ''dexpaprika'', oh_as_of := as_of\<rparr>"

definition new_candle :: "string \<Rightarrow> string \<Rightarrow> string \<Rightarrow> candle \<Rightarrow> instant \<Rightarrow> nat \<Rightarrow> ohlcv_row" where
  "new_candle network address interval k as_of i =
     fill_candle k as_of \<lparr>oh_id = i, oh_network = network, oh_pool = address, oh_interval = interval,
       oh_start = cn_time_open k, oh_end = [], oh_open = [], oh_high = [], oh_low = [], oh_close = [],
       oh_volume = None, oh_source = [], oh_as_of = 0\<rparr>"

definition upsert_candle :: "string \<Rightarrow> string \<Rightarrow> string \<Rightarrow> instant \<Rightarrow> candle \<Rightarrow> store \<Rightarrow> store" where
  "upsert_candle network address interval as_of k db =
     (let key = (network, address, interval, cn_time_open k)
      in if key \<in> candle_key ` set (ohlcv db)
         then db\<lparr>ohlcv := map (\<lambda>r. if candle_key r = key then fill_candle k as_of r else r) (ohlcv db)\<rparr>
         else db\<lparr>ohlcv := ohlcv db @ [new_candle network address interval k as_of (next_id (map oh_id (ohlcv db)))]\<rparr>)"

definition record_ohlcv :: "string \<Rightarrow> string \<Rightarrow> string \<Rightarrow> candle list \<Rightarrow> instant \<Rightarrow> store \<Rightarrow> nat \<times> store" where
  "record_ohlcv network address interval candles as_of db =
     (List.length candles, fold (upsert_candle network address interval as_of) candles db)"

section \<open>Upserted candles\<close>

lemma candle_key_fill [simp]: "candle_key (fill_candle k t r) = candle_key r"
  by (simp add: candle_key_def fill_candle_def)

lemma candle_key_new [simp]: "candle_key (new_candle n a i k t j) = (n, a, i, cn_time_open k)"
  by (simp add: candle_key_def new_candle_def fill_candle_def)

lemma candle_keys_upsert:
  "map candle_key (ohlcv (upsert_candle n a i t k db)) =
     (if (n, a, i, cn_time_open k) \<in> set (map candle_key (ohlcv db)) then map candle_key (ohlcv db)
      else map candle_key (ohlcv db) @ [(n, a, i, cn_time_open k)])"
  by (simp add: upsert_candle_def Let_def o_def if_distrib cong: if_cong)

definition candles_ok :: "store \<Rightarrow> bool" where
  "candles_ok db \<longleftrightarrow> distinct (map candle_key (ohlcv db)) \<and> distinct (map oh_id (ohlcv db))"

lemma upsert_candle_ok: "candles_ok db \<Longrightarrow> candles_ok (upsert_candle n a i t k db)"
proof -
  have i: "map oh_id (ohlcv (upsert_candle n a i t k db)) \<in>
      {map oh_id (ohlcv db), map oh_id (ohlcv db) @ [next_id (map oh_id (ohlcv db))]}"
    by (simp add: upsert_candle_def Let_def o_def fill_candle_def new_candle_def if_distrib cong: if_cong)
  assume "candles_ok db"
  with i next_id_fresh [of "map oh_id (ohlcv db)"] show ?thesis
    unfolding candles_ok_def candle_keys_upsert by auto
qed

text \<open>The candle tables as a machine whose operation is the upsert of one candle.\<close>

interpretation candle_table: machine "\<lambda>(n, a, i, t, k). upsert_candle n a i t k" "\<lambda>_ _. True" candles_ok
  by unfold_locales (auto intro: upsert_candle_ok)

lemma fold_upsert_ok: "candles_ok db \<Longrightarrow> candles_ok (fold (upsert_candle n a i t) ks db)"
  by (induction ks arbitrary: db) (auto intro: upsert_candle_ok)

definition candle_row :: "store \<Rightarrow> string \<times> string \<times> string \<times> string \<Rightarrow> ohlcv_row option" where
  "candle_row db key = find (\<lambda>r. candle_key r = key) (ohlcv db)"

lemma find_map_same: "(\<And>x. Q (f x) = Q x) \<Longrightarrow> find Q (map f xs) = map_option f (find Q xs)"
  by (induction xs) auto

lemma find_appended: "find Q (xs @ ys) = (case find Q xs of None \<Rightarrow> find Q ys | Some x \<Rightarrow> Some x)"
  by (induction xs) auto

lemma candle_row_upsert:
  "candle_row (upsert_candle n a i t k db) key =
     (if key = (n, a, i, cn_time_open k)
      then Some (case candle_row db key of
         Some r \<Rightarrow> fill_candle k t r | None \<Rightarrow> new_candle n a i k t (next_id (map oh_id (ohlcv db))))
      else candle_row db key)"
proof -
  let ?key = "(n, a, i, cn_time_open k)"
  have none: "find (\<lambda>r. candle_key r = key) rs = None \<longleftrightarrow> key \<notin> candle_key ` set rs" for rs :: "ohlcv_row list" and key
    by (auto simp: find_None_iff)
  show ?thesis
  proof (cases "?key \<in> candle_key ` set (ohlcv db)")
    case True
    have m: "candle_row (upsert_candle n a i t k db) key
        = map_option (\<lambda>r. if candle_key r = ?key then fill_candle k t r else r) (candle_row db key)"
      using True unfolding candle_row_def upsert_candle_def by (simp add: find_map_same)
    have "candle_key r = key" if "candle_row db key = Some r" for r
      using that by (auto simp: candle_row_def find_Some_iff)
    moreover have "candle_row db ?key \<noteq> None" using True none by (simp add: candle_row_def)
    ultimately show ?thesis unfolding m by (cases "candle_row db key") auto
  next
    case False
    then have "candle_row db ?key = None" using none by (simp add: candle_row_def)
    with False show ?thesis
      unfolding upsert_candle_def Let_def by (auto simp: candle_row_def find_appended split: option.splits)
  qed
qed

lemma dec_column_val: "dval (the (text_to_decimal (decimal_to_text d))) = dval d"
  using decimal_text_roundtrip [of d] by (cases "text_to_decimal (decimal_to_text d)") auto

definition holds_candle :: "candle \<Rightarrow> instant \<Rightarrow> ohlcv_row \<Rightarrow> bool" where
  "holds_candle k as_of r \<longleftrightarrow> oh_end r = cn_time_close k \<and> oh_source r = ''dexpaprika'' \<and> oh_as_of r = as_of
     \<and> dval (the (text_to_decimal (oh_open r))) = dval (cn_open k) \<and> dval (the (text_to_decimal (oh_high r))) = dval (cn_high k)
     \<and> dval (the (text_to_decimal (oh_low r))) = dval (cn_low k) \<and> dval (the (text_to_decimal (oh_close r))) = dval (cn_close k)
     \<and> map_option (\<lambda>s. dval (the (text_to_decimal s))) (oh_volume r) = map_option dval (cn_volume k)"

lemma holds_candle_fill: "holds_candle k t (fill_candle k t r)"
  by (cases "cn_volume k") (simp_all add: holds_candle_def fill_candle_def dec_column_val dec_column_def)

lemma fold_upsert_row:
  "candle_row (fold (upsert_candle n a i t) ks db) key = candle_row db key
     \<or> (\<exists>k r. k \<in> set ks \<and> key = (n, a, i, cn_time_open k) \<and> candle_row (fold (upsert_candle n a i t) ks db) key = Some r \<and> holds_candle k t r)"
proof (induction ks rule: rev_induct)
  case (snoc k ks)
  show ?case
  proof (cases "key = (n, a, i, cn_time_open k)")
    case True
    then have "\<exists>r. candle_row (fold (upsert_candle n a i t) (ks @ [k]) db) key = Some r \<and> holds_candle k t r"
      by (auto simp: candle_row_upsert new_candle_def holds_candle_fill split: option.split)
    with True show ?thesis by auto
  next
    case False
    with snoc show ?thesis by (auto simp: candle_row_upsert)
  qed
qed simp

text \<open>Recording candles is an idempotent upsert: one row per pool, interval and start time is kept, whatever is
  recorded again; afterwards the row of each recorded candle (of distinct start times) holds its
  values without loss, with the source and the time of recording, and every other row is untouched.\<close>

theorem candles_upserted:
  assumes "candles_ok db" "distinct (map cn_time_open ks)" "record_ohlcv n a i ks t db = (num_rows, db1)"
  shows "candles_ok db1 \<and> num_rows = List.length ks
    \<and> (\<forall>k \<in> set ks. \<exists>r. candle_row db1 (n, a, i, cn_time_open k) = Some r \<and> holds_candle k t r)
    \<and> (\<forall>key. key \<notin> (\<lambda>k. (n, a, i, cn_time_open k)) ` set ks \<longrightarrow> candle_row db1 key = candle_row db key)"
proof -
  have db1: "db1 = fold (upsert_candle n a i t) ks db" "num_rows = List.length ks" using assms(3) by (auto simp: record_ohlcv_def)
  have "\<exists>r. candle_row db1 (n, a, i, cn_time_open k) = Some r \<and> holds_candle k t r" if k: "k \<in> set ks" for k
  proof -
    obtain xs ys where ks: "ks = xs @ k # ys" using k by (auto dest: split_list)
    have "candle_row (fold (upsert_candle n a i t) (xs @ [k]) db) (n, a, i, cn_time_open k) = Some r \<Longrightarrow> holds_candle k t r" for r
      by (auto simp: candle_row_upsert new_candle_def holds_candle_fill split: option.splits)
    moreover have "\<exists>r. candle_row (fold (upsert_candle n a i t) (xs @ [k]) db) (n, a, i, cn_time_open k) = Some r"
      by (simp add: candle_row_upsert)
    moreover have "db1 = fold (upsert_candle n a i t) ys (fold (upsert_candle n a i t) (xs @ [k]) db)" by (simp add: db1 ks)
    moreover have "cn_time_open k \<notin> cn_time_open ` set ys" using assms(2) by (simp add: ks)
    ultimately show ?thesis using fold_upsert_row [of n a i t ys "fold (upsert_candle n a i t) (xs @ [k]) db"] by (metis Pair_inject imageI)
  qed
  moreover have "candle_row db1 key = candle_row db key" if "key \<notin> (\<lambda>k. (n, a, i, cn_time_open k)) ` set ks" for key
    using fold_upsert_row [of n a i t ks db key] that db1 by blast
  ultimately show ?thesis using fold_upsert_ok [OF assms(1)] db1 by blast
qed

definition sample_candle :: candle where
  "sample_candle = \<lparr>cn_time_open = ''2026-08-02T00:00:00Z'', cn_time_close = ''2026-08-03T00:00:00Z'', cn_open = dint 1890,
     cn_high = dint 1925, cn_low = dint 1860, cn_close = Dec False 187156 (- 2), cn_volume = None\<rparr>"

lemma candles_upserted_witness:
  "\<exists>r. candle_row (snd (record_ohlcv ''base'' ''0xp'' ''24h'' [sample_candle] 7 (snd (record_ohlcv ''base'' ''0xp'' ''24h'' [sample_candle] 5 empty_store))))
       (''base'', ''0xp'', ''24h'', ''2026-08-02T00:00:00Z'') = Some r \<and> holds_candle sample_candle 7 r"
proof -
  have ok: "candles_ok empty_store" by (simp add: candles_ok_def empty_store_def)
  let ?one = "record_ohlcv ''base'' ''0xp'' ''24h'' [sample_candle] 5 empty_store"
  let ?two = "record_ohlcv ''base'' ''0xp'' ''24h'' [sample_candle] 7 (snd ?one)"
  have "candles_ok (snd ?one)" using candles_upserted [OF ok, of "[sample_candle]", where num_rows = "fst ?one" and ?db1.0 = "snd ?one"] by simp
  from candles_upserted [OF this, of "[sample_candle]", where num_rows = "fst ?two" and ?db1.0 = "snd ?two"]
  show ?thesis by (simp add: sample_candle_def)
qed

section \<open>Frames\<close>

lemma market_json_frame: "market_json fuel out path params (t, db, env) = Some (r, t1, db1, env1) \<Longrightarrow> log_only db db1"
  by (auto simp: market_json_def split: option.splits sum.splits raised.splits prod.splits dest: get_frame)

lemma get_pool_frame: "get_pool fuel out c n a (t, db, env) = Some (r, t1, db1, env1) \<Longrightarrow> log_only db db1"
  by (auto simp: get_pool_def bind_r_def or_client_def split: option.splits sum.splits prod.splits dest: market_json_frame)

end
