(* ===== verification/Cycle.thy ===== *)
theory Cycle
  imports Discovery Gmx Market Positions
begin

text \<open>
  \<open>recorder/cycle.py\<close>: one recording cycle over the four sources, each in a transaction of its own. The
  world is the clients (with their transports), the store and the environment; \<open>describe\<close> stands for
  Python's \<open>str(exc)\<close>, \<open>exc_name\<close> for \<open>type(exc).__name__\<close>.
\<close>

section \<open>Clients\<close>

datatype cycle_error = CycleRpc rpc_raised | CycleClient client_raised | CyclePython

record cycle_clients =
  cy_base :: "(rpc_client \<times> transport list) option"
  cy_gmx :: "(string list \<times> gmx_market list option \<times> transport list) option"
  cy_dexpaprika :: "transport option"
  cy_btc :: "(string list \<times> transport list) option"

definition no_clients :: cycle_clients where
  "no_clients = \<lparr>cy_base = None, cy_gmx = None, cy_dexpaprika = None, cy_btc = None\<rparr>"

text \<open>The transports of a list of peers (\<open>GmxClient\<close>, \<open>BtcClient\<close>), each with its provider.\<close>

fun peer_transports :: "(string \<Rightarrow> string) \<Rightarrow> string list \<Rightarrow> transport_error + transport list" where
  "peer_transports provider [] = Inr []"
| "peer_transports provider (peer # peers) =
     (case new_transport peer (provider peer) 4 5 (seconds 60) of
        Inl e \<Rightarrow> Inl e
      | Inr t \<Rightarrow> (case peer_transports provider peers of Inl e \<Rightarrow> Inl e | Inr ts \<Rightarrow> Inr (t # ts)))"

definition need_base :: "string list \<Rightarrow> string list \<Rightarrow> bool" where
  "need_base kinds wallets \<longleftrightarrow> wallets \<noteq> [] \<and> (\<exists>k \<in> set [''lp'', ''defi'', ''holdings'']. k \<in> set kinds)"

definition build_clients :: "settings \<Rightarrow> string list \<Rightarrow> string list \<Rightarrow> string list \<Rightarrow> (rpc_error + transport_error) + cycle_clients" where
  "build_clients cfg kinds wallets btc_wallets =
     (case (if need_base kinds wallets then map_sum id Some (new_rpc_client ''base'' cfg) else Inr None) of
        Inl e \<Rightarrow> Inl e
      | Inr base \<Rightarrow>
     (case (if ''lp'' \<in> set kinds \<and> need_base kinds wallets
            then map_sum Inr Some (new_transport (dexpaprika_base_url cfg) ''dexpaprika'' 4 5 (seconds 60)) else Inr None) of
        Inl e \<Rightarrow> Inl e
      | Inr dex \<Rightarrow>
     (case (if ''hedge'' \<in> set kinds
            then map_sum Inr (\<lambda>ts. Some (gmx_rest_peers cfg, None, ts)) (peer_transports (\<lambda>_. ''gmx'') (gmx_rest_peers cfg))
            else Inr None) of
        Inl e \<Rightarrow> Inl e
      | Inr gmx \<Rightarrow>
     (case (if ''holdings'' \<in> set kinds \<and> btc_wallets \<noteq> []
            then map_sum Inr (\<lambda>ts. Some (btc_esplora_peers cfg, ts)) (peer_transports provider_for (btc_esplora_peers cfg))
            else Inr None) of
        Inl e \<Rightarrow> Inl e
      | Inr btc \<Rightarrow> Inr \<lparr>cy_base = base, cy_gmx = gmx, cy_dexpaprika = dex, cy_btc = btc\<rparr>))))"

section \<open>The world of a cycle\<close>

type_synonym 'e cycle_world = "cycle_clients \<times> store \<times> 'e"

type_synonym ('a, 'e) cycle_step = "'e cycle_world \<Rightarrow> ((cycle_error + 'a) \<times> 'e cycle_world) option"

text \<open>A call of a client; calling an absent client raises.\<close>

definition on_base :: "(rpc_client \<Rightarrow> 'e ring \<Rightarrow> ('a, 'e) rpc_result) \<Rightarrow> ('a, 'e) cycle_step" where
  "on_base m w =
     (let (c, db, env) = w in
      case cy_base c of
        None \<Rightarrow> Some (Inl CyclePython, w)
      | Some (client, ts) \<Rightarrow>
          map_option (\<lambda>(r, ts1, db1, env1). (map_sum CycleRpc id r, c\<lparr>cy_base := Some (client, ts1)\<rparr>, db1, env1)) (m client (ts, db, env)))"

definition on_gmx :: "(string list \<Rightarrow> 'e gmx_state \<Rightarrow> ('a, 'e gmx_state) client_result) \<Rightarrow> ('a, 'e) cycle_step" where
  "on_gmx m w =
     (let (c, db, env) = w in
      case cy_gmx c of
        None \<Rightarrow> Some (Inl CyclePython, w)
      | Some (peers, cache, ts) \<Rightarrow>
          map_option (\<lambda>(r, cache1, ts1, db1, env1). (map_sum CycleClient id r, c\<lparr>cy_gmx := Some (peers, cache1, ts1)\<rparr>, db1, env1))
            (m peers (cache, ts, db, env)))"

definition on_market :: "('e traffic \<Rightarrow> ('a, 'e traffic) client_result) \<Rightarrow> ('a, 'e) cycle_step" where
  "on_market m w =
     (let (c, db, env) = w in
      case cy_dexpaprika c of
        None \<Rightarrow> Some (Inl CyclePython, w)
      | Some t \<Rightarrow>
          map_option (\<lambda>(r, t1, db1, env1). (map_sum CycleClient id r, c\<lparr>cy_dexpaprika := Some t1\<rparr>, db1, env1)) (m (t, db, env)))"

definition on_btc :: "(string list \<Rightarrow> 'e ring \<Rightarrow> ('a, 'e ring) client_result) \<Rightarrow> ('a, 'e) cycle_step" where
  "on_btc m w =
     (let (c, db, env) = w in
      case cy_btc c of
        None \<Rightarrow> Some (Inl CyclePython, w)
      | Some (peers, ts) \<Rightarrow>
          map_option (\<lambda>(r, ts1, db1, env1). (map_sum CycleClient id r, c\<lparr>cy_btc := Some (peers, ts1)\<rparr>, db1, env1)) (m peers (ts, db, env)))"

text \<open>A write to the store.\<close>

definition put :: "(store \<Rightarrow> ('a \<times> store) option) \<Rightarrow> ('a, 'e) cycle_step" where
  "put f w = (let (c, db, env) = w in
     case f db of None \<Rightarrow> Some (Inl CyclePython, w) | Some (a, db1) \<Rightarrow> Some (Inr a, c, db1, env))"

definition unit_write :: "(store \<Rightarrow> store option) \<Rightarrow> (unit, 'e) cycle_step" where
  "unit_write f = put (\<lambda>db. map_option (\<lambda>db1. ((), db1)) (f db))"

text \<open>\<open>for x in xs: count += step(x)\<close>.\<close>

fun counting :: "('a \<Rightarrow> (nat, 'e) cycle_step) \<Rightarrow> 'a list \<Rightarrow> (nat, 'e) cycle_step" where
  "counting f [] w = Some (Inr 0, w)"
| "counting f (x # xs) w = bind_r (f x w) (\<lambda>n w1. bind_r (counting f xs w1) (\<lambda>m w2. Some (Inr (n + m), w2)))"

section \<open>The sources\<close>

text \<open>The pool volume is best effort: a failure becomes a warning.\<close>

definition with_volume :: "nat \<Rightarrow> 'e outside \<Rightarrow> coerce \<Rightarrow> (cycle_error \<Rightarrow> string) \<Rightarrow> lp_position \<Rightarrow> (lp_position, 'e) cycle_step" where
  "with_volume fuel out co exc_name p w =
     (let (c, db, env) = w in
      case lp_pool p of
        Some pool \<Rightarrow>
          if cy_dexpaprika c \<noteq> None \<and> pool \<noteq> [] \<and> \<not> lp_pool_unresolved p
          then (case on_market (get_pool fuel out co ''base'' pool) w of
                  None \<Rightarrow> None
                | Some (Inl e, w1) \<Rightarrow> Some (Inr (warn (''pool volume unavailable: '' @ exc_name e) p), w1)
                | Some (Inr d, c1, db1, env1) \<Rightarrow>
                    Some (Inr (p\<lparr>lp_pool_volume_usd_24h := pd_volume_24h_usd d\<rparr>), c1, record_pool_metrics d (o_clock out env1) db1, env1))
          else Some (Inr p, w)
      | None \<Rightarrow> Some (Inr p, w))"

definition lp_wallet :: "nat \<Rightarrow> 'e outside \<Rightarrow> (json \<Rightarrow> string) \<Rightarrow> coerce \<Rightarrow> (cycle_error \<Rightarrow> string) \<Rightarrow> settings \<Rightarrow> instant \<Rightarrow> int
    \<Rightarrow> string \<Rightarrow> (nat, 'e) cycle_step" where
  "lp_wallet fuel out repr co exc_name cfg ts pin wallet w =
     bind_r (on_base (\<lambda>client. discover fuel out repr client wallet cfg pin) w)
       (\<lambda>ps w1. bind_r (counting (\<lambda>p w2. bind_r (with_volume fuel out co exc_name p w2)
             (\<lambda>q w3. bind_r (unit_write (record_lp wallet q ts) w3) (\<lambda>_ w4. Some (Inr 1, w4)))) ps w1)
         (\<lambda>n w5. bind_r (put (\<lambda>db. Some (reconcile_closures wallet ''aerodrome-slipstream'' KLp
                     (map (\<lambda>p. lower (lp_nfpm p) @ '':'' @ int_str (lp_token_id p)) ps) ts db)) w5)
           (\<lambda>_ w6. Some (Inr n, w6))))"

definition record_lp_source :: "nat \<Rightarrow> 'e outside \<Rightarrow> (json \<Rightarrow> string) \<Rightarrow> coerce \<Rightarrow> (cycle_error \<Rightarrow> string) \<Rightarrow> settings \<Rightarrow> string list
    \<Rightarrow> instant \<Rightarrow> (nat \<times> int option, 'e) cycle_step" where
  "record_lp_source fuel out repr co exc_name cfg wallets ts w =
     bind_r (on_base (\<lambda>client. resolve_pin fuel out repr client 3) w)
       (\<lambda>pin w1. bind_r (counting (lp_wallet fuel out repr co exc_name cfg ts pin) wallets w1)
         (\<lambda>n w2. bind_r (unit_write (\<lambda>db. Some (insert_snapshot ts ''base'' (Some pin) ''lp'' db)) w2)
           (\<lambda>_ w3. Some (Inr (n, Some pin), w3))))"

definition hedge_wallet :: "nat \<Rightarrow> 'e outside \<Rightarrow> (json \<Rightarrow> string) \<Rightarrow> (json \<Rightarrow> bool option) \<Rightarrow> instant \<Rightarrow> string \<Rightarrow> (nat, 'e) cycle_step" where
  "hedge_wallet fuel out repr to_bool ts wallet w =
     bind_r (on_gmx (\<lambda>peers. get_positions fuel out repr to_bool peers wallet True) w)
       (\<lambda>ps w1. bind_r (counting (\<lambda>p w2. let (c, db, env) = w2 in
             bind_r (unit_write (record_observation p (o_clock out env)) w2) (\<lambda>_ w3. Some (Inr 1, w3))) ps w1)
         (\<lambda>n w4. bind_r (put (\<lambda>db. Some (reconcile_closures wallet ''gmx'' KPerp (map gp_key ps) ts db)) w4)
           (\<lambda>_ w5. Some (Inr n, w5))))"

definition record_hedge_source :: "nat \<Rightarrow> 'e outside \<Rightarrow> (json \<Rightarrow> string) \<Rightarrow> (json \<Rightarrow> bool option) \<Rightarrow> string list \<Rightarrow> instant
    \<Rightarrow> (nat \<times> int option, 'e) cycle_step" where
  "record_hedge_source fuel out repr to_bool wallets ts w =
     bind_r (counting (hedge_wallet fuel out repr to_bool ts) wallets w)
       (\<lambda>n w1. bind_r (unit_write (\<lambda>db. Some (insert_snapshot ts ''arbitrum'' None ''hedge'' db)) w1)
         (\<lambda>_ w2. Some (Inr (n, None), w2)))"

definition record_defi_source :: "nat \<Rightarrow> 'e outside \<Rightarrow> (json \<Rightarrow> string) \<Rightarrow> settings \<Rightarrow> string list \<Rightarrow> instant
    \<Rightarrow> (nat \<times> int option, 'e) cycle_step" where
  "record_defi_source fuel out repr cfg wallets ts w =
     bind_r (on_base (\<lambda>client. resolve_pin fuel out repr client 3) w)
       (\<lambda>pin w1. bind_r (counting (\<lambda>wallet w2. bind_r (on_base (\<lambda>client. read_account fuel out repr client wallet cfg pin) w2)
             (\<lambda>account. put (record_aave wallet account ts))) wallets w1)
         (\<lambda>n w3. bind_r (unit_write (\<lambda>db. Some (insert_snapshot ts ''base'' (Some pin) ''defi'' db)) w3)
           (\<lambda>_ w4. Some (Inr (n, Some pin), w4))))"

definition base_holdings :: "nat \<Rightarrow> 'e outside \<Rightarrow> (json \<Rightarrow> string) \<Rightarrow> string list \<Rightarrow> instant \<Rightarrow> (nat \<times> int option, 'e) cycle_step" where
  "base_holdings fuel out repr wallets ts w =
     (if cy_base (fst w) = None \<or> wallets = [] then Some (Inr (0, None), w)
      else bind_r (on_base (\<lambda>client. resolve_pin fuel out repr client 3) w)
       (\<lambda>pin w1. bind_r (counting (\<lambda>wallet w2. bind_r (on_base (\<lambda>client. read_holdings fuel out repr client ''base'' wallet pin) w2)
             (\<lambda>hs. put (record_holdings wallet ''base'' hs ts))) wallets w1)
         (\<lambda>n w3. bind_r (unit_write (\<lambda>db. Some (insert_snapshot ts ''base'' (Some pin) ''holdings'' db)) w3)
           (\<lambda>_ w4. Some (Inr (n, Some pin), w4)))))"

definition btc_holdings :: "nat \<Rightarrow> 'e outside \<Rightarrow> string list \<Rightarrow> instant \<Rightarrow> (nat, 'e) cycle_step" where
  "btc_holdings fuel out btc_wallets ts w =
     (if cy_btc (fst w) = None \<or> btc_wallets = [] then Some (Inr 0, w)
      else bind_r (counting (\<lambda>wallet w1. bind_r (on_btc (\<lambda>peers. get_address fuel out peers wallet) w1)
             (\<lambda>stats w2. bind_r (unit_write (record_btc wallet stats ts) w2) (\<lambda>_ w3. Some (Inr 1, w3)))) btc_wallets w)
         (\<lambda>n w4. bind_r (unit_write (\<lambda>db. Some (insert_snapshot ts ''bitcoin'' None ''holdings'' db)) w4)
           (\<lambda>_ w5. Some (Inr n, w5))))"

definition record_holdings_source :: "nat \<Rightarrow> 'e outside \<Rightarrow> (json \<Rightarrow> string) \<Rightarrow> string list \<Rightarrow> string list \<Rightarrow> instant
    \<Rightarrow> (nat \<times> int option, 'e) cycle_step" where
  "record_holdings_source fuel out repr wallets btc_wallets ts w =
     bind_r (base_holdings fuel out repr wallets ts w)
       (\<lambda>(n, pin) w1. bind_r (btc_holdings fuel out btc_wallets ts w1) (\<lambda>m w2. Some (Inr (n + m, pin), w2)))"

section \<open>One source in its transaction\<close>

record source_stamp =
  ss_ok :: bool
  ss_ts :: instant
  ss_block :: "int option"
  ss_error :: "cycle_error option"

record cycle_result =
  cr_ts :: instant
  cr_wallets :: "string list"
  cr_counts :: "(string \<times> nat) list"
  cr_sources :: "(string \<times> source_stamp) list"

definition write_heartbeat :: "instant \<Rightarrow> string \<Rightarrow> bool \<Rightarrow> int option \<Rightarrow> dict \<Rightarrow> store \<Rightarrow> store" where
  "write_heartbeat ts kind ok block det db =
     db\<lparr>recorder_heartbeat := recorder_heartbeat db @
       [\<lparr>hb_id = next_id (map hb_id (recorder_heartbeat db)), hb_ts = ts, hb_kind = kind, hb_ok = ok, hb_block = block, hb_detail = det\<rparr>]\<rparr>"

definition max_event_id :: "store \<Rightarrow> nat" where
  "max_event_id db = max_id (map e_id (position_events db))"

text \<open>\<open>SELECT DISTINCT position_id, ts\<close> of the observations written since.\<close>

definition observed_since :: "nat \<Rightarrow> store \<Rightarrow> (nat \<times> instant) list" where
  "observed_since before db =
     rev (remdups (rev (map (\<lambda>e. (e_position e, e_ts e)) (filter (\<lambda>e. e_type e = EObserved \<and> before < e_id e) (position_events db)))))"

definition derive_lifecycle_since :: "nat \<Rightarrow> store \<Rightarrow> store" where
  "derive_lifecycle_since before db = fold (\<lambda>(pid, ts) d. snd (observe pid ts d)) (observed_since before db) db"

text \<open>\<open>_run\<close>: on a failure the transaction is rolled back and only the heartbeat is written.\<close>

definition run_source :: "(cycle_error \<Rightarrow> string) \<Rightarrow> instant \<Rightarrow> string \<Rightarrow> (nat \<times> int option, 'e) cycle_step
    \<Rightarrow> cycle_result \<times> 'e cycle_world \<Rightarrow> (cycle_result \<times> 'e cycle_world) option" where
  "run_source describe ts kind fn s =
     (let (res, c, db, env) = s in
      case fn (c, db, env) of
        None \<Rightarrow> None
      | Some (Inr (n, block), c1, db1, env1) \<Rightarrow>
          Some (res\<lparr>cr_counts := cr_counts res @ [(kind, n)],
                    cr_sources := cr_sources res @ [(kind, \<lparr>ss_ok = True, ss_ts = ts, ss_block = block, ss_error = None\<rparr>)]\<rparr>,
                c1, write_heartbeat ts kind True block [(''count'', JInt (int n))] (derive_lifecycle_since (max_event_id db) db1), env1)
      | Some (Inl e, c1, db1, env1) \<Rightarrow>
          Some (res\<lparr>cr_sources := cr_sources res @ [(kind, \<lparr>ss_ok = False, ss_ts = ts, ss_block = None, ss_error = Some e\<rparr>)]\<rparr>,
                c1, write_heartbeat ts kind False None [(''error'', JStr (describe e))] db, env1))"

definition cycle_sources :: "nat \<Rightarrow> 'e outside \<Rightarrow> (json \<Rightarrow> string) \<Rightarrow> coerce \<Rightarrow> (json \<Rightarrow> bool option) \<Rightarrow> (cycle_error \<Rightarrow> string) \<Rightarrow> settings
    \<Rightarrow> string list \<Rightarrow> string list \<Rightarrow> string list \<Rightarrow> instant \<Rightarrow> cycle_clients \<Rightarrow> (string \<times> (nat \<times> int option, 'e) cycle_step) list" where
  "cycle_sources fuel out repr co to_bool exc_name cfg kinds wallets btc_wallets ts c =
     (if ''lp'' \<in> set kinds \<and> cy_base c \<noteq> None
      then [(''lp'', record_lp_source fuel out repr co exc_name cfg wallets ts)] else [])
     @ (if ''hedge'' \<in> set kinds \<and> cy_gmx c \<noteq> None
        then [(''hedge'', record_hedge_source fuel out repr to_bool wallets ts)] else [])
     @ (if ''defi'' \<in> set kinds \<and> cy_base c \<noteq> None
        then [(''defi'', record_defi_source fuel out repr cfg wallets ts)] else [])
     @ (if ''holdings'' \<in> set kinds \<and> (cy_base c \<noteq> None \<or> cy_btc c \<noteq> None)
        then [(''holdings'', record_holdings_source fuel out repr wallets btc_wallets ts)] else [])"

fun run_sources :: "(cycle_error \<Rightarrow> string) \<Rightarrow> instant \<Rightarrow> (string \<times> (nat \<times> int option, 'e) cycle_step) list
    \<Rightarrow> cycle_result \<times> 'e cycle_world \<Rightarrow> (cycle_result \<times> 'e cycle_world) option" where
  "run_sources describe ts [] s = Some s"
| "run_sources describe ts ((kind, fn) # rest) s =
     Option.bind (run_source describe ts kind fn s) (run_sources describe ts rest)"

text \<open>\<open>run_cycle\<close> with the clients built; which clients there are does not change during the cycle.\<close>

definition run_cycle :: "nat \<Rightarrow> 'e outside \<Rightarrow> (json \<Rightarrow> string) \<Rightarrow> coerce \<Rightarrow> (json \<Rightarrow> bool option) \<Rightarrow> (cycle_error \<Rightarrow> string) \<Rightarrow> (cycle_error \<Rightarrow> string)
    \<Rightarrow> settings \<Rightarrow> string list \<Rightarrow> string list \<Rightarrow> string list \<Rightarrow> instant \<Rightarrow> 'e cycle_world \<Rightarrow> (cycle_result \<times> 'e cycle_world) option" where
  "run_cycle fuel out repr co to_bool exc_name describe cfg kinds wallets btc_wallets ts w =
     run_sources describe ts (cycle_sources fuel out repr co to_bool exc_name cfg kinds wallets btc_wallets ts (fst w))
       (\<lparr>cr_ts = ts, cr_wallets = wallets @ btc_wallets, cr_counts = [], cr_sources = []\<rparr>, w)"

section \<open>What a source does to the store\<close>

text \<open>
  The tables of positions change by operations of \<^const>\<open>position_step\<close> only, in some order; snapshots
  are added; orders, pool metrics and the log of calls may change; every other table stays.
\<close>

definition position_tables_of :: "store \<Rightarrow> position_row list \<times> event_row list" where
  "position_tables_of db = (positions db, position_events db)"

definition other_tables :: "store \<Rightarrow> store \<Rightarrow> bool" where
  "other_tables db db1 \<longleftrightarrow> (\<exists>ps es ss os ms log. db1 = db\<lparr>positions := ps, position_events := es, snapshots := snapshots db @ ss,
     order_rows := os, pool_metrics := ms, api_call_log := log\<rparr>)"

definition recorded :: "store \<Rightarrow> store \<Rightarrow> bool" where
  "recorded db db1 \<longleftrightarrow> (\<exists>ops. position_tables_of db1 = position_tables_of (run position_step ops db)) \<and> other_tables db db1"

lemma other_tables_refl: "other_tables db db"
  unfolding other_tables_def by (intro exI [of _ "positions db"] exI [of _ "position_events db"] exI [of _ "[]"] exI [of _ "order_rows db"]
      exI [of _ "pool_metrics db"] exI [of _ "api_call_log db"]) simp

lemma other_tables_trans: "other_tables a b \<Longrightarrow> other_tables b c \<Longrightarrow> other_tables a c"
  unfolding other_tables_def by fastforce

lemma same_observed: "position_tables_of a = position_tables_of b \<Longrightarrow> observed_states pid a = observed_states pid b"
  by (simp add: position_tables_of_def observed_states_def)

lemma insert_event_cong:
  "position_tables_of a = position_tables_of b \<Longrightarrow>
   position_tables_of (insert_event p t ty de st a) = position_tables_of (insert_event p t ty de st b)"
  by (simp add: position_tables_of_def insert_event_def)

lemma observe_cong:
  "position_tables_of a = position_tables_of b \<Longrightarrow> position_tables_of (snd (observe pid ts a)) = position_tables_of (snd (observe pid ts b))"
  using same_observed [of a b pid] insert_event_cong [of a b]
  by (simp add: observe_def split: list.splits option.splits)

lemma close_cong:
  "position_tables_of a = position_tables_of b \<Longrightarrow> position_tables_of (close_position pid ts a) = position_tables_of (close_position pid ts b)"
  by (simp add: close_position_def Let_def position_tables_of_def insert_event_def)

lemma close_fold_cong:
  "position_tables_of a = position_tables_of b \<Longrightarrow>
   position_tables_of (fold (\<lambda>r. close_position (p_id r) ts) rows a) = position_tables_of (fold (\<lambda>r. close_position (p_id r) ts) rows b)"
proof (induction rows arbitrary: a b)
  case (Cons r rows)
  show ?case using Cons.IH [OF close_cong [OF Cons.prems]] by simp
qed simp

lemma reconcile_cong:
  assumes "position_tables_of a = position_tables_of b"
  shows "position_tables_of (snd (reconcile_closures w v k there ts a)) = position_tables_of (snd (reconcile_closures w v k there ts b))"
proof -
  have "vanished w v k there a = vanished w v k there b"
    using assms by (simp add: vanished_def open_rows_def position_tables_of_def)
  then show ?thesis using close_fold_cong [OF assms] by (simp add: reconcile_closures_def Let_def)
qed

lemma upsert_cong:
  assumes "position_tables_of a = position_tables_of b"
  shows "position_tables_of (upsert_ignore key g ts a) = position_tables_of (upsert_ignore key g ts b)"
    "position_tables_of (upsert_metadata key g ts md a) = position_tables_of (upsert_metadata key g ts md b)"
  using assms by (simp_all add: position_tables_of_def upsert_ignore_def upsert_metadata_def insert_position_def)

lemma observed_insert_cong:
  assumes "position_tables_of a = position_tables_of b" "position_tables_of u = position_tables_of v"
  shows "position_tables_of (or_rollback a (insert_observed key ts st u)) = position_tables_of (or_rollback b (insert_observed key ts st v))"
proof -
  have "position_id u key = position_id v key" using assms(2) by (simp add: position_id_def position_tables_of_def)
  then show ?thesis
    by (cases "position_id v key") (simp_all add: insert_observed_def or_rollback_def assms(1) insert_event_cong [OF assms(2)])
qed

lemma position_step_cong:
  "position_tables_of a = position_tables_of b \<Longrightarrow> position_tables_of (position_step e a) = position_tables_of (position_step e b)"
  by (cases e; simp only: position_step.simps; rule observed_insert_cong observe_cong reconcile_cong; (rule upsert_cong)?; assumption)

lemma run_cong:
  "position_tables_of a = position_tables_of b \<Longrightarrow> position_tables_of (run position_step ops a) = position_tables_of (run position_step ops b)"
proof (induction ops arbitrary: a b)
  case (Cons e ops)
  show ?case using Cons.IH [OF position_step_cong [OF Cons.prems]] by simp
qed simp

lemma recorded_refl: "recorded db db"
  unfolding recorded_def using other_tables_refl by (auto intro: exI [of _ "[]"])

lemma recorded_trans:
  assumes "recorded a b" "recorded b c"
  shows "recorded a c"
proof -
  obtain xs ys where ops: "position_tables_of b = position_tables_of (run position_step xs a)"
      "position_tables_of c = position_tables_of (run position_step ys b)"
    using assms by (auto simp: recorded_def)
  then have "position_tables_of c = position_tables_of (run position_step (xs @ ys) a)"
    using run_cong [OF ops(1), of ys] by (simp add: run_append)
  with assms other_tables_trans show ?thesis unfolding recorded_def by blast
qed

lemma recorded_step:
  "position_tables_of db1 = position_tables_of (position_step op db) \<Longrightarrow> other_tables db db1 \<Longrightarrow> recorded db db1"
  unfolding recorded_def by (auto intro: exI [of _ "[op]"])

lemma recorded_ok: "recorded db db1 \<Longrightarrow> positions_ok db \<Longrightarrow> positions_ok db1"
proof -
  assume r: "recorded db db1" and ok: "positions_ok db"
  then obtain ops where "position_tables_of db1 = position_tables_of (run position_step ops db)" by (auto simp: recorded_def)
  moreover have "positions_ok (run position_step ops db)" by (rule position_tables.run_inv [OF ok]) (rule closure.admissible_all)
  ultimately show ?thesis by (simp add: positions_ok_def position_tables_of_def)
qed

text \<open>Each write of a source is one.\<close>

lemma other_tablesI:
  assumes "audit_log db1 = audit_log db" "rebalance_log db1 = rebalance_log db" "alerts_log db1 = alerts_log db"
    "recorder_heartbeat db1 = recorder_heartbeat db" "providers db1 = providers db" "endpoint_costs db1 = endpoint_costs db"
    "ohlcv db1 = ohlcv db" "\<exists>ss. snapshots db1 = snapshots db @ ss"
  shows "other_tables db db1"
proof -
  obtain ss where "snapshots db1 = snapshots db @ ss" using assms(8) by blast
  with assms(1-7) show ?thesis
    unfolding other_tables_def
    by (intro exI [of _ "positions db1"] exI [of _ "position_events db1"] exI [of _ ss] exI [of _ "order_rows db1"]
        exI [of _ "pool_metrics db1"] exI [of _ "api_call_log db1"]) simp
qed

lemma other_log_only: "log_only db db1 \<Longrightarrow> other_tables db db1"
  by (auto simp: log_only_def intro: other_tablesI)

lemma log_only_recorded: "log_only db db1 \<Longrightarrow> recorded db db1"
  unfolding recorded_def using other_log_only log_only_tables by (auto simp: position_tables_of_def intro: exI [of _ "[]"])

lemma other_upsert: "other_tables db (upsert_ignore key g ts db)" "other_tables db (upsert_metadata key g ts md db)"
  by (auto simp: upsert_ignore_def upsert_metadata_def insert_position_def intro: other_tablesI)

lemma other_insert_event: "other_tables db (insert_event p t ty de st db)"
  by (rule other_tablesI) (simp_all add: insert_event_def)

lemma other_insert_observed: "insert_observed key ts st u = Some db1 \<Longrightarrow> other_tables db u \<Longrightarrow> other_tables db db1"
  using other_tables_trans other_insert_event by (fastforce simp: insert_observed_def)

lemma recorded_ignore:
  "insert_observed key ts st (upsert_ignore key g ts db) = Some db1 \<Longrightarrow> recorded db db1"
  by (rule recorded_step [where op = "RecordIgnore key g ts st"]) (auto simp: or_rollback_def intro: other_insert_observed other_upsert)

lemma recorded_metadata:
  "insert_observed key ts st (upsert_metadata key g ts md db) = Some db1 \<Longrightarrow> recorded db db1"
  by (rule recorded_step [where op = "RecordMetadata key g ts md st"]) (auto simp: or_rollback_def intro: other_insert_observed other_upsert)

lemma other_close: "other_tables db (close_position pid ts db)"
  by (rule other_tablesI) (simp_all add: close_position_def Let_def insert_event_def)

lemma other_fold_close: "other_tables db (fold (\<lambda>r. close_position (p_id r) ts) rows db)"
proof (induction rows arbitrary: db)
  case (Cons r rows)
  show ?case using other_tables_trans [OF other_close Cons.IH] by simp
qed (simp add: other_tables_refl)

lemma recorded_reconcile: "recorded db (snd (reconcile_closures w v k there ts db))"
  by (rule recorded_step [where op = "ReconcileOp w v k there ts"]) (simp_all add: reconcile_closures_def Let_def other_fold_close)

lemma recorded_observe: "recorded db (snd (observe pid ts db))"
proof (rule recorded_step [where op = "ObserveOp pid ts"])
  show "other_tables db (snd (observe pid ts db))"
    using observe_shape [of pid ts db] by (auto simp: other_tables_refl other_insert_event)
qed simp

lemma recorded_same_positions:
  "position_tables_of db1 = position_tables_of db \<Longrightarrow> other_tables db db1 \<Longrightarrow> recorded db db1"
  unfolding recorded_def by (auto intro: exI [of _ "[]"])

lemma recorded_snapshot: "recorded db (insert_snapshot ts ch b k db)"
  by (rule recorded_same_positions) (auto simp: insert_snapshot_def position_tables_of_def intro: other_tablesI)

lemma recorded_metrics: "recorded db (record_pool_metrics p now db)"
  by (rule recorded_same_positions) (auto simp: record_pool_metrics_def position_tables_of_def intro: other_tablesI)

lemma recorded_orders: "recorded db (fold (upsert_order ts) ords db)"
proof (induction ords arbitrary: db)
  case (Cons ord ords)
  have "recorded db (upsert_order ts ord db)"
    by (rule recorded_same_positions)
      (auto simp: upsert_order_tables position_tables_of_def intro!: other_tablesI, simp_all add: upsert_order_def Let_def)
  with Cons.IH recorded_trans show ?case by fastforce
qed (simp add: recorded_refl)

lemma recorded_lp: "record_lp wallet p ts db = Some db1 \<Longrightarrow> recorded db db1"
  unfolding record_lp_def by (rule recorded_metadata)

lemma recorded_observation: "record_observation p now db = Some db1 \<Longrightarrow> recorded db db1"
  unfolding record_observation_def Let_def
  by (auto split: option.splits dest: recorded_metadata intro: recorded_trans [OF _ recorded_orders])

lemma recorded_aave: "record_aave wallet account ts db = Some (n, db1) \<Longrightarrow> recorded db db1"
  unfolding record_aave_def record_aave_side_def
  by (auto split: option.splits dest!: recorded_ignore intro: recorded_trans)

lemma recorded_holdings: "record_holdings wallet ch hs ts db = Some (n, db1) \<Longrightarrow> recorded db db1"
proof (induction hs arbitrary: n db)
  case (Cons h hs)
  then show ?case by (auto simp: Let_def split: option.splits dest!: recorded_ignore intro: recorded_trans)
qed (simp add: recorded_refl)

lemma recorded_btc: "record_btc wallet stats ts db = Some db1 \<Longrightarrow> recorded db db1"
  unfolding record_btc_def by (auto split: option.splits dest: recorded_ignore)

lemma recorded_derive: "recorded db (derive_lifecycle_since before db)"
proof -
  have "recorded db (fold (\<lambda>(pid, ts) d. snd (observe pid ts d)) xs db)" for xs
  proof (induction xs arbitrary: db)
    case (Cons x xs)
    then show ?case using recorded_trans [OF recorded_observe Cons.IH] by (cases x) auto
  qed (simp add: recorded_refl)
  then show ?thesis by (simp add: derive_lifecycle_since_def)
qed

text \<open>Hence each source.\<close>

definition cycle_store :: "'e cycle_world \<Rightarrow> store" where
  "cycle_store w = fst (snd w)"

interpretation cycle_frame: state_frame "\<lambda>w w1. recorded (cycle_store w) (cycle_store w1)"
  by unfold_locales (auto intro: recorded_refl recorded_trans)

lemma on_base_frame:
  assumes "on_base m w = Some (r, w1)" "\<And>client st q st1. m client st = Some (q, st1) \<Longrightarrow> log_only (store_of st) (store_of st1)"
  shows "recorded (cycle_store w) (cycle_store w1)"
  using assms(1)
  by (auto simp: on_base_def cycle_store_def split: prod.splits option.splits dest!: assms(2) intro: recorded_refl log_only_recorded)
    (simp add: store_of_def log_only_recorded)

lemma on_gmx_frame:
  assumes "on_gmx m w = Some (r, w1)" "\<And>peers s q s1. m peers s = Some (q, s1) \<Longrightarrow> log_only (gmx_store s) (gmx_store s1)"
  shows "recorded (cycle_store w) (cycle_store w1)"
  using assms(1)
  by (auto simp: on_gmx_def cycle_store_def split: prod.splits option.splits dest!: assms(2) intro: recorded_refl log_only_recorded)
    (simp add: store_of_def log_only_recorded)

lemma on_market_frame:
  assumes "on_market (get_pool fuel out co n a) w = Some (r, w1)"
  shows "recorded (cycle_store w) (cycle_store w1)"
  using assms
  by (auto simp: on_market_def cycle_store_def split: prod.splits option.splits dest!: get_pool_frame intro: recorded_refl log_only_recorded)

lemma on_btc_frame:
  assumes "on_btc m w = Some (r, w1)" "\<And>peers st q st1. m peers st = Some (q, st1) \<Longrightarrow> log_only (store_of st) (store_of st1)"
  shows "recorded (cycle_store w) (cycle_store w1)"
  using assms(1)
  by (auto simp: on_btc_def cycle_store_def split: prod.splits option.splits dest!: assms(2) intro: recorded_refl log_only_recorded)
    (simp add: store_of_def log_only_recorded)

lemma put_frame:
  assumes "put f w = Some (r, w1)" "\<And>db a db1. f db = Some (a, db1) \<Longrightarrow> recorded db db1"
  shows "recorded (cycle_store w) (cycle_store w1)"
  using assms(1) by (auto simp: put_def cycle_store_def split: prod.splits option.splits dest!: assms(2) intro: recorded_refl)

lemma unit_write_frame:
  assumes "unit_write f w = Some (r, w1)" "\<And>db db1. f db = Some db1 \<Longrightarrow> recorded db db1"
  shows "recorded (cycle_store w) (cycle_store w1)"
  using assms(1) unfolding unit_write_def by (rule put_frame) (auto dest: assms(2))

lemma counting_frame:
  assumes "counting f xs w = Some (r, w1)" "\<And>x w q w1. f x w = Some (q, w1) \<Longrightarrow> recorded (cycle_store w) (cycle_store w1)"
  shows "recorded (cycle_store w) (cycle_store w1)"
  using assms(1)
proof (induction xs arbitrary: w r w1)
  case (Cons x xs)
  from Cons.prems show ?case
    unfolding counting.simps
    by (rule cycle_frame.bind) (erule assms(2), erule cycle_frame.bind, erule Cons.IH, simp add: recorded_refl)
qed (simp add: recorded_refl)

text \<open>A source built by these is framed; the hint collects how each part is.\<close>

lemma returns_frame: "Some (x, s) = Some (r, s2) \<Longrightarrow> recorded (cycle_store s) (cycle_store s2)"
  by (simp add: recorded_refl)

lemma with_volume_frame:
  "with_volume fuel out co nm p w = Some (r, w1) \<Longrightarrow> recorded (cycle_store w) (cycle_store w1)"
  by (auto simp: with_volume_def split: prod.splits option.splits if_splits sum.splits intro: recorded_refl dest: on_market_frame)
    (auto dest!: on_market_frame simp: cycle_store_def intro: recorded_trans [OF _ recorded_metrics])

lemma discover_frame: "discover fuel out repr client wallet cfg b st = Some (r, st1) \<Longrightarrow> log_only (store_of st) (store_of st1)"
  by (auto simp: discover_def disc_step_def dest!: eth.discover_with_step)

lemma some_reconcile: "Some (reconcile_closures w v k there ts db) = Some (a, db1) \<Longrightarrow> recorded db db1"
  using recorded_reconcile [of db w v k there ts] by simp

lemma some_snapshot: "Some (insert_snapshot ts ch b k db) = Some db1 \<Longrightarrow> recorded db db1"
  using recorded_snapshot [of db ts ch b k] by simp

lemmas source_frames = cycle_frame.bind on_base_frame on_gmx_frame on_btc_frame counting_frame with_volume_frame unit_write_frame
  put_frame discover_frame resolve_pin_frame get_positions_frame read_account_frame read_holdings_frame get_address_frame
  recorded_lp recorded_observation recorded_aave recorded_holdings recorded_btc returns_frame some_reconcile some_snapshot

lemma lp_wallet_frame:
  "lp_wallet fuel out repr co nm cfg ts pin wallet w = Some (r, w1) \<Longrightarrow> recorded (cycle_store w) (cycle_store w1)"
  unfolding lp_wallet_def by (erule source_frames)+

lemma record_lp_source_frame:
  "record_lp_source fuel out repr co nm cfg wallets ts w = Some (r, w1) \<Longrightarrow> recorded (cycle_store w) (cycle_store w1)"
  unfolding record_lp_source_def by (erule source_frames lp_wallet_frame)+

lemma hedge_wallet_frame:
  "hedge_wallet fuel out repr to_bool ts wallet w = Some (r, w1) \<Longrightarrow> recorded (cycle_store w) (cycle_store w1)"
  unfolding hedge_wallet_def by (erule source_frames | simp add: Let_def split: prod.splits)+

lemma record_hedge_source_frame:
  "record_hedge_source fuel out repr to_bool wallets ts w = Some (r, w1) \<Longrightarrow> recorded (cycle_store w) (cycle_store w1)"
  unfolding record_hedge_source_def by (erule source_frames hedge_wallet_frame)+

lemma record_defi_source_frame:
  "record_defi_source fuel out repr cfg wallets ts w = Some (r, w1) \<Longrightarrow> recorded (cycle_store w) (cycle_store w1)"
  unfolding record_defi_source_def by (erule source_frames)+

lemma base_holdings_frame:
  "base_holdings fuel out repr wallets ts w = Some (r, w1) \<Longrightarrow> recorded (cycle_store w) (cycle_store w1)"
  unfolding base_holdings_def by (erule source_frames | simp add: recorded_refl split: if_splits)+

lemma btc_holdings_frame:
  "btc_holdings fuel out btc_wallets ts w = Some (r, w1) \<Longrightarrow> recorded (cycle_store w) (cycle_store w1)"
  unfolding btc_holdings_def by (erule source_frames | simp add: recorded_refl split: if_splits)+

lemma record_holdings_source_frame:
  "record_holdings_source fuel out repr wallets btc_wallets ts w = Some (r, w1) \<Longrightarrow> recorded (cycle_store w) (cycle_store w1)"
  unfolding record_holdings_source_def
  by (erule source_frames base_holdings_frame btc_holdings_frame | auto split: prod.splits)+

section \<open>Isolation of the sources\<close>

text \<open>The heartbeat of a source says what its stamp says.\<close>

fun beat_of :: "instant \<Rightarrow> heartbeat_row \<Rightarrow> string \<times> source_stamp \<Rightarrow> bool" where
  "beat_of ts row (kind, stamp) \<longleftrightarrow>
     hb_kind row = kind \<and> hb_ts row = ts \<and> ss_ts stamp = ts \<and> hb_ok row = ss_ok stamp \<and> hb_block row = ss_block stamp"

definition succeeded :: "cycle_result \<Rightarrow> string list" where
  "succeeded res = map fst (filter (ss_ok \<circ> snd) (cr_sources res))"

text \<open>The sources of a cycle, in the order they run.\<close>

definition cycle_kinds :: "string list \<Rightarrow> cycle_clients \<Rightarrow> string list" where
  "cycle_kinds kinds c = filter (\<lambda>k. k \<in> set kinds \<and>
     (if k = ''hedge'' then cy_gmx c \<noteq> None else cy_base c \<noteq> None \<or> k = ''holdings'' \<and> cy_btc c \<noteq> None))
     [''lp'', ''hedge'', ''defi'', ''holdings'']"

lemma cycle_sources_kinds:
  "map fst (cycle_sources fuel out repr co to_bool nm cfg kinds wallets btc_wallets ts c) = cycle_kinds kinds c"
  by (simp add: cycle_sources_def cycle_kinds_def)

lemma cycle_sources_frame:
  assumes "(kind, fn) \<in> set (cycle_sources fuel out repr co to_bool nm cfg kinds wallets btc_wallets ts c)" "fn w = Some (r, w1)"
  shows "recorded (cycle_store w) (cycle_store w1)"
  using assms
  by (auto simp: cycle_sources_def split: if_splits dest: record_lp_source_frame record_hedge_source_frame
      record_defi_source_frame record_holdings_source_frame)

text \<open>What running some sources adds: \<open>rows\<close> of heartbeats for the \<open>new\<close> stamps, and, if any succeeded, records.\<close>

definition added :: "instant \<Rightarrow> cycle_result \<times> 'e cycle_world \<Rightarrow> heartbeat_row list \<Rightarrow> (string \<times> source_stamp) list
    \<Rightarrow> cycle_result \<times> 'e cycle_world \<Rightarrow> bool" where
  "added ts s rows new s1 \<longleftrightarrow>
     recorder_heartbeat (cycle_store (snd s1)) = recorder_heartbeat (cycle_store (snd s)) @ rows
     \<and> cr_sources (fst s1) = cr_sources (fst s) @ new \<and> list_all2 (beat_of ts) rows new
     \<and> map fst (cr_counts (fst s1)) = map fst (cr_counts (fst s)) @ map fst (filter (ss_ok \<circ> snd) new)
     \<and> (\<exists>ops. position_tables_of (cycle_store (snd s1)) = position_tables_of (run position_step ops (cycle_store (snd s))))
     \<and> (filter (ss_ok \<circ> snd) new = [] \<longrightarrow>
          (cycle_store (snd s1))\<lparr>recorder_heartbeat := recorder_heartbeat (cycle_store (snd s))\<rparr> = cycle_store (snd s))"

lemma run_source_added:
  assumes "run_source describe ts kind fn s = Some s1" "\<And>w r w1. fn w = Some (r, w1) \<Longrightarrow> recorded (cycle_store w) (cycle_store w1)"
  shows "\<exists>row stamp. added ts s [row] [(kind, stamp)] s1"
proof -
  obtain res c db env where s: "s = (res, c, db, env)" by (cases s) auto
  from assms(1) obtain r w1 where fn: "fn (c, db, env) = Some (r, w1)" by (auto simp: run_source_def s split: option.splits)
  obtain c1 db1 env1 where w1: "w1 = (c1, db1, env1)" by (cases w1) auto
  show ?thesis
  proof (cases r)
    case (Inl e)
    let ?stamp = "\<lparr>ss_ok = False, ss_ts = ts, ss_block = None, ss_error = Some e\<rparr>"
    have s1: "s1 = (res\<lparr>cr_sources := cr_sources res @ [(kind, ?stamp)]\<rparr>, c1,
        write_heartbeat ts kind False None [(''error'', JStr (describe e))] db, env1)"
      using assms(1) fn by (simp add: run_source_def s w1 Inl)
    have "\<exists>ops. position_tables_of db = position_tables_of (run position_step ops db)" by (rule exI [of _ "[]"]) simp
    then show ?thesis
      by (intro exI [of _ "last (recorder_heartbeat (cycle_store (snd s1)))"] exI [of _ ?stamp])
        (simp add: added_def s s1 cycle_store_def write_heartbeat_def position_tables_of_def)
  next
    case (Inr nb)
    obtain n b where nb: "nb = (n, b)" by (cases nb) auto
    let ?stamp = "\<lparr>ss_ok = True, ss_ts = ts, ss_block = b, ss_error = None\<rparr>"
    let ?db2 = "derive_lifecycle_since (max_event_id db) db1"
    have s1: "s1 = (res\<lparr>cr_counts := cr_counts res @ [(kind, n)], cr_sources := cr_sources res @ [(kind, ?stamp)]\<rparr>, c1,
        write_heartbeat ts kind True b [(''count'', JInt (int n))] ?db2, env1)"
      using assms(1) fn by (simp add: run_source_def s w1 Inr nb)
    have "recorded db db1" using assms(2) [OF fn] by (simp add: w1 cycle_store_def)
    then have r: "recorded db ?db2" using recorded_derive by (rule recorded_trans)
    then have hb: "recorder_heartbeat ?db2 = recorder_heartbeat db" by (auto simp: recorded_def other_tables_def)
    from r have ops: "\<exists>ops. position_tables_of ?db2 = position_tables_of (run position_step ops db)" by (simp add: recorded_def)
    show ?thesis
      using hb ops
      by (intro exI [of _ "last (recorder_heartbeat (cycle_store (snd s1)))"] exI [of _ ?stamp])
        (simp add: added_def s s1 cycle_store_def write_heartbeat_def position_tables_of_def)
  qed
qed

lemma added_trans:
  assumes "added ts s rows new s1" "added ts s1 rows' new' s2"
  shows "added ts s (rows @ rows') (new @ new') s2"
proof -
  obtain xs ys where "position_tables_of (cycle_store (snd s1)) = position_tables_of (run position_step xs (cycle_store (snd s)))"
    "position_tables_of (cycle_store (snd s2)) = position_tables_of (run position_step ys (cycle_store (snd s1)))"
    using assms by (auto simp: added_def)
  then have "position_tables_of (cycle_store (snd s2)) = position_tables_of (run position_step (xs @ ys) (cycle_store (snd s)))"
    using run_cong [of "cycle_store (snd s1)" "run position_step xs (cycle_store (snd s))" ys] by (simp add: run_append)
  moreover have "c\<lparr>recorder_heartbeat := h\<rparr> = a" if "b\<lparr>recorder_heartbeat := h\<rparr> = a" "c\<lparr>recorder_heartbeat := h'\<rparr> = b" for a b c h h'
  proof -
    have "b\<lparr>recorder_heartbeat := h\<rparr> = c\<lparr>recorder_heartbeat := h\<rparr>" unfolding that(2) [symmetric] by simp
    with that(1) show ?thesis by simp
  qed
  ultimately show ?thesis
    using assms unfolding added_def filter_append append_is_Nil_conv map_append
    by (intro conjI impI) (elim conjE; simp add: list_all2_appendI | blast)+
qed

lemma run_sources_added:
  assumes "run_sources describe ts srcs s = Some s1"
    "\<And>k fn w r w1. (k, fn) \<in> set srcs \<Longrightarrow> fn w = Some (r, w1) \<Longrightarrow> recorded (cycle_store w) (cycle_store w1)"
  shows "\<exists>rows new. added ts s rows new s1 \<and> map fst new = map fst srcs"
  using assms
proof (induction srcs arbitrary: s)
  case Nil
  have "added ts s [] [] s" by (auto simp: added_def intro: exI [of _ "[]"])
  with Nil show ?case by (intro exI [of _ "[]"]) simp
next
  case (Cons src srcs)
  obtain kind fn where src: "src = (kind, fn)" by (cases src) auto
  from Cons.prems(1) obtain s0 where s0: "run_source describe ts kind fn s = Some s0" "run_sources describe ts srcs s0 = Some s1"
    by (auto simp: src bind_eq_Some_conv)
  obtain row stamp where a: "added ts s [row] [(kind, stamp)] s0"
    using run_source_added [OF s0(1)] Cons.prems(2) src by (metis list.set_intros(1))
  obtain rows new where b: "added ts s0 rows new s1" "map fst new = map fst srcs"
    using Cons.IH [OF s0(2)] Cons.prems(2) by (metis list.set_intros(2))
  from added_trans [OF a b(1)] b(2) show ?case
    by (intro exI [of _ "[row] @ rows"] exI [of _ "[(kind, stamp)] @ new"]) (simp add: src)
qed

lemma cycle_isolates_facts:
  assumes "run_cycle fuel out repr co to_bool nm describe cfg kinds wallets btc_wallets ts w = Some (res, w1)"
  shows "\<exists>rows. recorder_heartbeat (cycle_store w1) = recorder_heartbeat (cycle_store w) @ rows
    \<and> list_all2 (beat_of ts) rows (cr_sources res)
    \<and> map fst (cr_sources res) = cycle_kinds kinds (fst w) \<and> map fst (cr_counts res) = succeeded res
    \<and> (\<exists>ops. position_tables_of (cycle_store w1) = position_tables_of (run position_step ops (cycle_store w)))
    \<and> (succeeded res = [] \<longrightarrow> (cycle_store w1)\<lparr>recorder_heartbeat := recorder_heartbeat (cycle_store w)\<rparr> = cycle_store w)"
proof -
  obtain rows new where a: "added ts (\<lparr>cr_ts = ts, cr_wallets = wallets @ btc_wallets, cr_counts = [], cr_sources = []\<rparr>, w) rows new (res, w1)"
    and k: "map fst new = map fst (cycle_sources fuel out repr co to_bool nm cfg kinds wallets btc_wallets ts (fst w))"
    using run_sources_added [OF assms [unfolded run_cycle_def]] cycle_sources_frame by metis
  then show ?thesis
    by (intro exI [of _ rows]) (auto simp: added_def succeeded_def cycle_sources_kinds)
qed

text \<open>What one source does to the store as it found it: a success adds the recorders' operations and its
  heartbeat; a failure adds the heartbeat with the error and nothing else.\<close>

definition source_effect :: "(cycle_error \<Rightarrow> string) \<Rightarrow> instant \<Rightarrow> string \<Rightarrow> source_stamp \<Rightarrow> store \<Rightarrow> store \<Rightarrow> bool" where
  "source_effect describe ts kind stamp db db1 \<longleftrightarrow>
     (if ss_ok stamp
      then \<exists>count db'. recorded db db' \<and> db1 = write_heartbeat ts kind True (ss_block stamp) [(''count'', JInt count)] db'
      else \<exists>e. ss_error stamp = Some e \<and> db1 = write_heartbeat ts kind False None [(''error'', JStr (describe e))] db)"

lemma run_source_effect:
  assumes "run_source describe ts kind fn s = Some s1" "\<And>w r w1. fn w = Some (r, w1) \<Longrightarrow> recorded (cycle_store w) (cycle_store w1)"
  shows "\<exists>stamp. cr_sources (fst s1) = cr_sources (fst s) @ [(kind, stamp)]
    \<and> source_effect describe ts kind stamp (cycle_store (snd s)) (cycle_store (snd s1))"
proof -
  obtain res c db env where s: "s = (res, c, db, env)" by (cases s) auto
  from assms(1) obtain r c1 db1 env1 where fn: "fn (c, db, env) = Some (r, c1, db1, env1)"
    by (auto simp: run_source_def s split: option.splits)
  show ?thesis
  proof (cases r)
    case (Inl e)
    then show ?thesis using assms(1) fn by (auto simp: run_source_def s source_effect_def cycle_store_def)
  next
    case (Inr nb)
    have "recorded db (derive_lifecycle_since (max_event_id db) db1)"
      using recorded_trans [OF _ recorded_derive] assms(2) [OF fn] by (simp add: cycle_store_def)
    moreover obtain n b where "nb = (n, b)" by (cases nb) auto
    ultimately show ?thesis using assms(1) fn Inr
      by (intro exI [of _ "\<lparr>ss_ok = True, ss_ts = ts, ss_block = b, ss_error = None\<rparr>"])
        (auto simp: run_source_def s source_effect_def cycle_store_def intro!: exI [of _ "int n"])
  qed
qed

lemma run_sources_append:
  "run_sources describe ts (xs @ ys) s = Option.bind (run_sources describe ts xs s) (run_sources describe ts ys)"
  by (induction xs arbitrary: s) (auto split: bind_split)

text \<open>The cycle up to its \<open>i\<close>th source and the cycle through it differ by the effect of that source.\<close>

lemma run_sources_isolated:
  assumes "run_sources describe ts srcs s = Some (res, w1)" "i < List.length srcs" "cr_sources (fst s) = []"
    "\<And>k fn w r w1. (k, fn) \<in> set srcs \<Longrightarrow> fn w = Some (r, w1) \<Longrightarrow> recorded (cycle_store w) (cycle_store w1)"
  shows "\<exists>u v kind stamp. run_sources describe ts (take i srcs) s = Some u \<and> run_sources describe ts (take (Suc i) srcs) s = Some v
    \<and> cr_sources res ! i = (kind, stamp) \<and> source_effect describe ts kind stamp (cycle_store (snd u)) (cycle_store (snd v))"
proof -
  obtain kind fn where src: "srcs ! i = (kind, fn)" by (cases "srcs ! i") auto
  have parts: "srcs = take i srcs @ (kind, fn) # drop (Suc i) srcs" using id_take_nth_drop [OF assms(2)] src by simp
  have upto: "take (Suc i) srcs = take i srcs @ [(kind, fn)]" using take_Suc_conv_app_nth [OF assms(2)] src by simp
  have mem: "set (take i srcs) \<subseteq> set srcs" "set (drop (Suc i) srcs) \<subseteq> set srcs" "(kind, fn) \<in> set srcs"
    using set_take_subset set_drop_subset nth_mem [OF assms(2)] src by metis+
  from assms(1) obtain u v where u: "run_sources describe ts (take i srcs) s = Some u" and v: "run_source describe ts kind fn u = Some v"
    and rest: "run_sources describe ts (drop (Suc i) srcs) v = Some (res, w1)"
    by (subst (asm) parts) (auto simp: run_sources_append bind_eq_Some_conv)
  obtain rows new where before: "added ts s rows new u" "map fst new = map fst (take i srcs)"
    using run_sources_added [OF u] assms(4) mem(1) by blast
  obtain rows' new' where after: "added ts v rows' new' (res, w1)"
    using run_sources_added [OF rest] assms(4) mem(2) by blast
  obtain stamp where st: "cr_sources (fst v) = cr_sources (fst u) @ [(kind, stamp)]"
    "source_effect describe ts kind stamp (cycle_store (snd u)) (cycle_store (snd v))"
    using run_source_effect [OF v] assms(4) [OF mem(3)] by blast
  have "List.length new = i" using arg_cong [OF before(2), of List.length] assms(2) by simp
  moreover have "cr_sources res = new @ (kind, stamp) # new'" using before(1) after assms(3) st(1) by (simp add: added_def)
  ultimately have "cr_sources res ! i = (kind, stamp)" by (metis nth_append_length)
  moreover have "run_sources describe ts (take (Suc i) srcs) s = Some v" unfolding upto run_sources_append u using v by simp
  ultimately show ?thesis using u st(2) by blast
qed

text \<open>The cycle over its first \<open>i\<close> sources.\<close>

definition cycle_prefix :: "nat \<Rightarrow> 'e outside \<Rightarrow> (json \<Rightarrow> string) \<Rightarrow> coerce \<Rightarrow> (json \<Rightarrow> bool option) \<Rightarrow> (cycle_error \<Rightarrow> string) \<Rightarrow> (cycle_error \<Rightarrow> string)
    \<Rightarrow> settings \<Rightarrow> string list \<Rightarrow> string list \<Rightarrow> string list \<Rightarrow> instant \<Rightarrow> 'e cycle_world \<Rightarrow> nat \<Rightarrow> (cycle_result \<times> 'e cycle_world) option" where
  "cycle_prefix fuel out repr co to_bool exc_name describe cfg kinds wallets btc_wallets ts w i =
     run_sources describe ts (take i (cycle_sources fuel out repr co to_bool exc_name cfg kinds wallets btc_wallets ts (fst w)))
       (\<lparr>cr_ts = ts, cr_wallets = wallets @ btc_wallets, cr_counts = [], cr_sources = []\<rparr>, w)"

text \<open>C7. The sources of a cycle are isolated from each other: each source asked for (that has a client) leaves exactly
  one heartbeat, in a fixed order, which says what the result says of it, whether the others fail or not.
  Source by source, whatever the earlier ones did: comparing the cycle stopped before a source with the
  cycle stopped after it, a source that failed has added its heartbeat with the error and changed nothing
  else in the database, and a source that succeeded has added the recorders' operations and its heartbeat.
  So the position tables move only by the recorders' operations, and a cycle in which every source failed
  leaves nothing but heartbeats.\<close>

theorem cycle_isolates_sources:
  assumes "run_cycle fuel out repr co to_bool nm describe cfg kinds wallets btc_wallets ts w = Some (res, w1)"
  shows "(\<exists>rows. recorder_heartbeat (cycle_store w1) = recorder_heartbeat (cycle_store w) @ rows
    \<and> list_all2 (beat_of ts) rows (cr_sources res)
    \<and> map fst (cr_sources res) = cycle_kinds kinds (fst w) \<and> map fst (cr_counts res) = succeeded res
    \<and> (\<exists>ops. position_tables_of (cycle_store w1) = position_tables_of (run position_step ops (cycle_store w)))
    \<and> (succeeded res = [] \<longrightarrow> (cycle_store w1)\<lparr>recorder_heartbeat := recorder_heartbeat (cycle_store w)\<rparr> = cycle_store w))
    \<and> cycle_prefix fuel out repr co to_bool nm describe cfg kinds wallets btc_wallets ts w (List.length (cr_sources res)) = Some (res, w1)
    \<and> (\<forall>i < List.length (cr_sources res). \<exists>u v kind stamp.
         cycle_prefix fuel out repr co to_bool nm describe cfg kinds wallets btc_wallets ts w i = Some u
         \<and> cycle_prefix fuel out repr co to_bool nm describe cfg kinds wallets btc_wallets ts w (Suc i) = Some v
         \<and> cr_sources res ! i = (kind, stamp)
         \<and> source_effect describe ts kind stamp (cycle_store (snd u)) (cycle_store (snd v)))"
proof -
  let ?srcs = "cycle_sources fuel out repr co to_bool nm cfg kinds wallets btc_wallets ts (fst w)"
  note facts = cycle_isolates_facts [OF assms]
  from facts have len: "List.length (cr_sources res) = List.length ?srcs"
    by (metis length_map cycle_sources_kinds)
  have whole: "cycle_prefix fuel out repr co to_bool nm describe cfg kinds wallets btc_wallets ts w (List.length (cr_sources res)) = Some (res, w1)"
    using assms by (simp add: cycle_prefix_def run_cycle_def len)
  show ?thesis
    using facts whole run_sources_isolated [OF assms [unfolded run_cycle_def] _ _ cycle_sources_frame]
    unfolding len cycle_prefix_def by simp
qed

section \<open>The calls of a failed source\<close>

lemma check_heartbeats: "check (db\<lparr>recorder_heartbeat := hs\<rparr>) now p e = check db now p e"
proof -
  have [simp]: "provider_row_of (db\<lparr>recorder_heartbeat := hs\<rparr>) p = provider_row_of db p"
    "matching_costs (db\<lparr>recorder_heartbeat := hs\<rparr>) = matching_costs db"
    "window_rows (db\<lparr>recorder_heartbeat := hs\<rparr>) = window_rows db"
    by (simp_all add: provider_row_of_def matching_costs_def window_rows_def fun_eq_iff)
  have [simp]: "endpoint_credits (db\<lparr>recorder_heartbeat := hs\<rparr>) p e = endpoint_credits db p e"
    "month_credits (db\<lparr>recorder_heartbeat := hs\<rparr>) = month_credits db"
    by (simp_all add: endpoint_credits_def month_credits_def fun_eq_iff split: sum.split)
  show ?thesis by (simp add: check_def split: sum.split option.split)
qed

text \<open>The log of calls is written in the transaction of the source, so a cycle whose sources all fail leaves
  no trace of the requests it sent: the log is as before, and the quota tracker judges every later call
  as if they had not been made.\<close>

theorem failed_cycle_forgets_calls:
  assumes "run_cycle fuel out repr co to_bool nm describe cfg kinds wallets btc_wallets ts w = Some (res, w1)" "succeeded res = []"
  shows "api_call_log (cycle_store w1) = api_call_log (cycle_store w)
    \<and> (\<forall>now p e. check (cycle_store w1) now p e = check (cycle_store w) now p e)"
proof -
  have same: "(cycle_store w1)\<lparr>recorder_heartbeat := recorder_heartbeat (cycle_store w)\<rparr> = cycle_store w"
    using cycle_isolates_facts [OF assms(1)] assms(2) by blast
  then have "api_call_log ((cycle_store w1)\<lparr>recorder_heartbeat := recorder_heartbeat (cycle_store w)\<rparr>) = api_call_log (cycle_store w)" by (rule arg_cong)
  moreover have "check (cycle_store w1) now p e = check (cycle_store w) now p e" for now p e
    using check_heartbeats [where db = "cycle_store w1" and hs = "recorder_heartbeat (cycle_store w)"] unfolding same by simp
  ultimately show ?thesis by simp
qed

text \<open>A node that answers the first request with a text that is no number.\<close>

definition bad_cycle_start :: "nat cycle_world" where
  "bad_cycle_start = (no_clients\<lparr>cy_base := Some (node_client, [node_transport])\<rparr>, script_store, 0)"

lemma bad_cycle:
  "run_cycle (Suc 0) (scripted [''zz'']) repr co to_bool nm describe cfg [''lp''] [''0x1''] [] 50 bad_cycle_start
   = Some (\<lparr>cr_ts = 50, cr_wallets = [''0x1''], cr_counts = [],
        cr_sources = [(''lp'', \<lparr>ss_ok = False, ss_ts = 50, ss_block = None, ss_error = Some (CycleRpc PythonRaised)\<rparr>)]\<rparr>,
      no_clients\<lparr>cy_base := Some (node_client, [node_transport])\<rparr>,
      write_heartbeat 50 ''lp'' False None [(''error'', JStr (describe (CycleRpc PythonRaised)))] script_store, 1)"
proof -
  have start: "scripted_db 0 script_store" by (simp add: scripted_db_def script_store_def empty_store_def)
  have zz: "int_base16 ''zz'' = None" by code_simp
  have "block_number (Suc 0) (scripted [''zz'']) repr node_client ([node_transport], script_store, 0)
      = Some (Inl PythonRaised, [node_transport], log_row ''eth_blockNumber'' script_store, Suc 0)"
    using scripted_rpc [OF start, of "''eth_blockNumber''" "[''zz'']" repr "[]"]
    by (simp add: block_number_def bind_r_def text_of_def str_of_def or_raise_def zz)
  then show ?thesis
    by (simp add: run_cycle_def cycle_sources_def bad_cycle_start_def no_clients_def run_source_def record_lp_source_def on_base_def
        resolve_pin_def bind_r_def)
qed

lemma bad_cycle_failed:
  "succeeded \<lparr>cr_ts = 50, cr_wallets = [''0x1''], cr_counts = [],
     cr_sources = [(''lp'', \<lparr>ss_ok = False, ss_ts = 50, ss_block = None, ss_error = Some e\<rparr>)]\<rparr> = []"
  by (simp add: succeeded_def)

text \<open>The request was sent (the environment counts one) and is not in the log.\<close>

lemma failed_cycle_forgets_calls_witness:
  "\<exists>res c db. run_cycle (Suc 0) (scripted [''zz'']) (\<lambda>_. []) \<lparr>to_int = (\<lambda>_. None), to_dec = (\<lambda>_. None)\<rparr> (\<lambda>_. None) (\<lambda>_. []) (\<lambda>_. [])
      default_settings [''lp''] [''0x1''] [] 50 bad_cycle_start = Some (res, c, db, 1) \<and> api_call_log db = []"
  by (intro exI conjI, rule bad_cycle)
    (use failed_cycle_forgets_calls [OF bad_cycle bad_cycle_failed, THEN conjunct1] in \<open>simp add: bad_cycle_start_def cycle_store_def script_store_def empty_store_def\<close>)

lemma cycle_isolates_sources_witness:
  "\<exists>res w1 row u v. run_cycle (Suc 0) (scripted [''zz'']) (\<lambda>_. []) \<lparr>to_int = (\<lambda>_. None), to_dec = (\<lambda>_. None)\<rparr> (\<lambda>_. None) (\<lambda>_. []) (\<lambda>_. [])
      default_settings [''lp''] [''0x1''] [] 50 bad_cycle_start = Some (res, w1)
    \<and> recorder_heartbeat (cycle_store w1) = [row] \<and> hb_kind row = ''lp'' \<and> \<not> hb_ok row
    \<and> source_effect (\<lambda>_. []) 50 ''lp'' \<lparr>ss_ok = False, ss_ts = 50, ss_block = None, ss_error = Some (CycleRpc PythonRaised)\<rparr> u v"
proof -
  obtain res w1 where run: "run_cycle (Suc 0) (scripted [''zz'']) (\<lambda>_. []) \<lparr>to_int = (\<lambda>_. None), to_dec = (\<lambda>_. None)\<rparr> (\<lambda>_. None)
      (\<lambda>_. []) (\<lambda>_. []) default_settings [''lp''] [''0x1''] [] 50 bad_cycle_start = Some (res, w1)"
    "cr_sources res = [(''lp'', \<lparr>ss_ok = False, ss_ts = 50, ss_block = None, ss_error = Some (CycleRpc PythonRaised)\<rparr>)]"
    using bad_cycle by fastforce
  from cycle_isolates_sources [OF run(1)] show ?thesis
    using run by (fastforce simp: bad_cycle_start_def cycle_store_def script_store_def empty_store_def list_all2_Cons2)
qed

end
