(* ===== verification/Service.thy ===== *)
theory Service
  imports Cycle
begin

text \<open>
  \<open>recorder/service.py\<close>: the loop around the cycle. The clock, the sleep, the stop request and the cycle
  function are injected there and are parameters here; the world is whatever they act on. Intervals are
  whole microseconds.
\<close>

section \<open>The service\<close>

record 'w surroundings =
  sr_clock :: "'w \<Rightarrow> instant"
  sr_sleep :: "duration \<Rightarrow> 'w \<Rightarrow> 'w"
  sr_stopped :: "'w \<Rightarrow> bool"
  sr_cycle :: "string list \<Rightarrow> instant \<Rightarrow> 'w \<Rightarrow> (cycle_result \<times> 'w) option"

record service =
  sv_kinds :: "string list"
  sv_intervals :: "string \<Rightarrow> duration"
  sv_poll :: duration
  sv_base_backoff :: duration
  sv_max_backoff :: duration
  sv_due_at :: "string \<Rightarrow> instant option"
  sv_fail_streak :: "string \<Rightarrow> nat"
  sv_stamps :: "string \<rightharpoonup> source_stamp"
  sv_cycles :: nat
  sv_now :: "instant option"
  sv_last_cycle_ts :: "instant option"

definition new_service :: "string list \<Rightarrow> (string \<rightharpoonup> duration) \<Rightarrow> duration option \<Rightarrow> duration \<Rightarrow> duration \<Rightarrow> service" where
  "new_service kinds intervals poll base_backoff max_backoff =
     (let of_kind = (\<lambda>k. case intervals k of None \<Rightarrow> 0 | Some d \<Rightarrow> d);
          positive = filter (\<lambda>v. 0 < v) (map of_kind kinds)
      in \<lparr>sv_kinds = kinds, sv_intervals = of_kind,
          sv_poll = (case poll of Some p \<Rightarrow> p
                     | None \<Rightarrow> (case positive of [] \<Rightarrow> seconds 1 | v # vs \<Rightarrow> foldl min v vs)),
          sv_base_backoff = base_backoff, sv_max_backoff = max_backoff, sv_due_at = (\<lambda>_. None),
          sv_fail_streak = (\<lambda>_. 0), sv_stamps = Map.empty, sv_cycles = 0, sv_now = None, sv_last_cycle_ts = None\<rparr>)"

definition source_due :: "service \<Rightarrow> instant \<Rightarrow> string \<Rightarrow> bool" where
  "source_due sv now kind \<longleftrightarrow> (case sv_due_at sv kind of None \<Rightarrow> True | Some t \<Rightarrow> t \<le> now)"

text \<open>
  \<open>base * 2 ** (streak - 1)\<close> multiplies a float by an integer: converting \<open>2 ** 1024\<close> raises
  \<open>OverflowError\<close>. Below that the product, or infinity, is capped.
\<close>

definition failure_backoff :: "service \<Rightarrow> nat \<Rightarrow> duration option" where
  "failure_backoff sv streak =
     (if 1024 \<le> streak - 1 then None else Some (min (sv_max_backoff sv) (sv_base_backoff sv * 2 ^ (streak - 1))))"

definition apply_failure :: "instant \<Rightarrow> string \<Rightarrow> source_stamp \<Rightarrow> service \<Rightarrow> service option" where
  "apply_failure now kind stamp sv =
     (let kept = (case sv_stamps sv kind of
                    Some prev \<Rightarrow> \<lparr>ss_ok = False, ss_ts = ss_ts prev, ss_block = ss_block prev, ss_error = ss_error stamp\<rparr>
                  | None \<Rightarrow> stamp);
          streak = sv_fail_streak sv kind + 1
      in map_option (\<lambda>wait. sv\<lparr>sv_stamps := (sv_stamps sv)(kind \<mapsto> kept),
                               sv_fail_streak := (sv_fail_streak sv)(kind := streak),
                               sv_due_at := (sv_due_at sv)(kind := Some (now + wait))\<rparr>)
           (failure_backoff sv streak))"

text \<open>\<open>None\<close>: an exception, of the backoff or for a kind the service does not know.\<close>

definition apply_stamp :: "instant \<Rightarrow> string \<times> source_stamp \<Rightarrow> service \<Rightarrow> service option" where
  "apply_stamp now ks sv =
     (let (kind, stamp) = ks in
      if kind \<notin> set (sv_kinds sv) then None
      else if ss_ok stamp
      then Some (sv\<lparr>sv_stamps := (sv_stamps sv)(kind \<mapsto> stamp), sv_fail_streak := (sv_fail_streak sv)(kind := 0),
                    sv_due_at := (sv_due_at sv)(kind := Some (now + sv_intervals sv kind))\<rparr>)
      else apply_failure now kind stamp sv)"

fun apply_stamps :: "instant \<Rightarrow> (string \<times> source_stamp) list \<Rightarrow> service \<Rightarrow> service option" where
  "apply_stamps now [] sv = Some sv"
| "apply_stamps now (ks # rest) sv = Option.bind (apply_stamp now ks sv) (apply_stamps now rest)"

section \<open>The loop\<close>

text \<open>One turn: \<open>Inl ()\<close> when it raises, \<open>None\<close> when the cycle does not return.\<close>

definition service_tick :: "'w surroundings \<Rightarrow> service \<Rightarrow> 'w \<Rightarrow> ((unit + service) \<times> 'w) option" where
  "service_tick sr sv w =
     (let now = sr_clock sr w;
          sv0 = sv\<lparr>sv_now := Some now\<rparr>;
          due = filter (source_due sv0 now) (sv_kinds sv0)
      in if due = [] then Some (Inr (sv0\<lparr>sv_cycles := sv_cycles sv0 + 1\<rparr>), w)
         else case sr_cycle sr due now w of
           None \<Rightarrow> None
         | Some (res, w1) \<Rightarrow>
             (case apply_stamps now (cr_sources res) sv0 of
                None \<Rightarrow> Some (Inl (), w1)
              | Some sv1 \<Rightarrow> Some (Inr (sv1\<lparr>sv_last_cycle_ts := Some (cr_ts res), sv_cycles := sv_cycles sv1 + 1\<rparr>), w1)))"

definition loop_ends :: "'w surroundings \<Rightarrow> nat option \<Rightarrow> service \<Rightarrow> 'w \<Rightarrow> bool" where
  "loop_ends sr max_cycles sv w \<longleftrightarrow> sr_stopped sr w \<or> (case max_cycles of None \<Rightarrow> False | Some n \<Rightarrow> n \<le> sv_cycles sv)"

partial_function (option) service_run :: "'w surroundings \<Rightarrow> nat option \<Rightarrow> service \<Rightarrow> 'w \<Rightarrow> ((unit + service) \<times> 'w) option" where
  "service_run sr max_cycles sv w =
     (if loop_ends sr max_cycles sv w then Some (Inr sv, w)
      else Option.bind (service_tick sr sv w)
        (\<lambda>(r, w1). case r of
             Inl e \<Rightarrow> Some (Inl e, w1)
           | Inr sv1 \<Rightarrow> service_run sr max_cycles sv1 (if loop_ends sr max_cycles sv1 w1 then w1 else sr_sleep sr (sv_poll sv1) w1)))"

record service_status =
  st_running :: bool
  st_cycles :: nat
  st_sources :: "string \<rightharpoonup> source_stamp"
  st_staleness :: "(string \<times> duration option) list"
  st_last_cycle_ts :: "instant option"

definition service_status_of :: "'w surroundings \<Rightarrow> service \<Rightarrow> instant option \<Rightarrow> 'w \<Rightarrow> service_status" where
  "service_status_of sr sv now w =
     (let ref = (case now of Some t \<Rightarrow> Some t
                 | None \<Rightarrow> (case sv_now sv of Some t \<Rightarrow> Some t
                            | None \<Rightarrow> if sv_stamps sv = Map.empty then Some (sr_clock sr w) else None));
          staleness = (\<lambda>k. case (sv_stamps sv k, ref) of (Some stamp, Some t) \<Rightarrow> Some (t - ss_ts stamp) | _ \<Rightarrow> None)
      in \<lparr>st_running = \<not> sr_stopped sr w, st_cycles = sv_cycles sv, st_sources = sv_stamps sv,
          st_staleness = map (\<lambda>k. (k, staleness k)) (sv_kinds sv), st_last_cycle_ts = sv_last_cycle_ts sv\<rparr>)"

section \<open>Cadence\<close>

text \<open>The heartbeats of one source, newest first: how many failures they start with, how long the next attempt has to
  wait, whether every attempt waited that long, and what the service shows of the source.\<close>

definition beats_of :: "string \<Rightarrow> heartbeat_row list \<Rightarrow> heartbeat_row list" where
  "beats_of kind rows = rev (filter (\<lambda>r. hb_kind r = kind) rows)"

definition failures :: "heartbeat_row list \<Rightarrow> nat" where
  "failures rs = List.length (takeWhile (\<lambda>r. \<not> hb_ok r) rs)"

definition pause :: "service \<Rightarrow> string \<Rightarrow> heartbeat_row list \<Rightarrow> duration" where
  "pause sv kind rs =
     (if failures rs = 0 then sv_intervals sv kind
      else min (sv_max_backoff sv) (sv_base_backoff sv * 2 ^ (failures rs - 1)))"

fun paced :: "service \<Rightarrow> string \<Rightarrow> heartbeat_row list \<Rightarrow> bool" where
  "paced sv kind [] = True"
| "paced sv kind [r] = True"
| "paced sv kind (r # r0 # rs) \<longleftrightarrow> hb_ts r0 + pause sv kind (r0 # rs) \<le> hb_ts r \<and> paced sv kind (r0 # rs)"

fun shown_of :: "heartbeat_row list \<Rightarrow> (bool \<times> instant \<times> int option) option" where
  "shown_of [] = None"
| "shown_of (r # rs) =
     Some (if hb_ok r then (True, hb_ts r, hb_block r)
           else case shown_of rs of None \<Rightarrow> (False, hb_ts r, hb_block r) | Some (ok, t, b) \<Rightarrow> (False, t, b))"

definition stamp_view :: "source_stamp \<Rightarrow> bool \<times> instant \<times> int option" where
  "stamp_view s = (ss_ok s, ss_ts s, ss_block s)"

definition source_ok :: "service \<Rightarrow> string \<Rightarrow> heartbeat_row list \<Rightarrow> bool" where
  "source_ok sv kind rs \<longleftrightarrow> paced sv kind rs \<and> sv_fail_streak sv kind = failures rs
     \<and> sv_due_at sv kind = (case rs of [] \<Rightarrow> None | r # _ \<Rightarrow> Some (hb_ts r + pause sv kind rs))
     \<and> map_option stamp_view (sv_stamps sv kind) = shown_of rs"

definition service_ok :: "service \<Rightarrow> heartbeat_row list \<Rightarrow> bool" where
  "service_ok sv rows \<longleftrightarrow> list_all (\<lambda>k. source_ok sv k (beats_of k rows)) (sv_kinds sv)"

text \<open>The settings do not change.\<close>

definition same_settings :: "service \<Rightarrow> service \<Rightarrow> bool" where
  "same_settings sv sv1 \<longleftrightarrow> sv_kinds sv1 = sv_kinds sv \<and> sv_intervals sv1 = sv_intervals sv
     \<and> sv_base_backoff sv1 = sv_base_backoff sv \<and> sv_max_backoff sv1 = sv_max_backoff sv"

lemma pause_cong: "same_settings sv sv1 \<Longrightarrow> pause sv1 k rs = pause sv k rs"
  by (simp add: pause_def same_settings_def)

lemma paced_cong: "same_settings sv sv1 \<Longrightarrow> paced sv1 k rs = paced sv k rs"
  by (induction sv k rs rule: paced.induct) (simp_all add: pause_cong)

lemma beats_of_snoc:
  "beats_of k (rows @ [r]) = (if hb_kind r = k then r # beats_of k rows else beats_of k rows)"
  by (simp add: beats_of_def)

lemma apply_stamp_settings: "apply_stamp now ks sv = Some sv1 \<Longrightarrow> same_settings sv sv1"
  by (auto simp: apply_stamp_def apply_failure_def same_settings_def Let_def split: prod.splits if_splits)

lemma apply_stamp_others:
  "apply_stamp now (kind, stamp) sv = Some sv1 \<Longrightarrow> k \<noteq> kind \<Longrightarrow>
   sv_due_at sv1 k = sv_due_at sv k \<and> sv_fail_streak sv1 k = sv_fail_streak sv k \<and> sv_stamps sv1 k = sv_stamps sv k"
  by (auto simp: apply_stamp_def apply_failure_def Let_def split: if_splits)

text \<open>One stamp applied to a source that is due, with its heartbeat.\<close>

lemma apply_stamp_ok:
  assumes "apply_stamp now (kind, stamp) sv = Some sv1" "beat_of now r (kind, stamp)" "source_due sv now kind"
    "source_ok sv kind rs"
  shows "source_ok sv1 kind (r # rs)"
proof -
  have same: "same_settings sv sv1" by (rule apply_stamp_settings [OF assms(1)])
  have beat: "hb_ts r = now" "ss_ts stamp = now" "hb_ok r = ss_ok stamp" "hb_block r = ss_block stamp"
    using assms(2) by simp_all
  have paced: "paced sv1 kind (r # rs)"
    using assms(3,4) unfolding paced_cong [OF same]
    by (cases rs) (auto simp: source_ok_def source_due_def beat)
  show ?thesis
  proof (cases "ss_ok stamp")
    case True
    then have f: "failures (r # rs) = 0" using beat by (simp add: failures_def)
    from True assms(1) have "sv1 = sv\<lparr>sv_stamps := (sv_stamps sv)(kind \<mapsto> stamp), sv_fail_streak := (sv_fail_streak sv)(kind := 0),
        sv_due_at := (sv_due_at sv)(kind := Some (now + sv_intervals sv kind))\<rparr>"
      by (auto simp: apply_stamp_def split: if_splits)
    then show ?thesis using paced True by (simp add: source_ok_def f pause_def beat stamp_view_def)
  next
    case False
    then have f: "failures (r # rs) = Suc (failures rs)" using beat by (simp add: failures_def)
    have streak: "sv_fail_streak sv kind = failures rs" "map_option stamp_view (sv_stamps sv kind) = shown_of rs"
      using assms(4) by (simp_all add: source_ok_def)
    from False assms(1) streak(1) obtain kept where
      sv1: "sv1 = sv\<lparr>sv_stamps := (sv_stamps sv)(kind \<mapsto> kept), sv_fail_streak := (sv_fail_streak sv)(kind := Suc (failures rs)),
        sv_due_at := (sv_due_at sv)(kind := Some (now + min (sv_max_backoff sv) (sv_base_backoff sv * 2 ^ failures rs)))\<rparr>"
      and kept: "kept = (case sv_stamps sv kind of
          Some prev \<Rightarrow> \<lparr>ss_ok = False, ss_ts = ss_ts prev, ss_block = ss_block prev, ss_error = ss_error stamp\<rparr> | None \<Rightarrow> stamp)"
      by (auto simp: apply_stamp_def apply_failure_def failure_backoff_def Let_def split: if_splits)
    have "Some (stamp_view kept) = shown_of (r # rs)"
      using False streak(2) beat by (auto simp: kept stamp_view_def split: option.splits)
    then show ?thesis using paced by (simp add: source_ok_def sv1 f pause_def beat)
  qed
qed

lemma source_ok_other:
  "apply_stamp now (kind, stamp) sv = Some sv1 \<Longrightarrow> k \<noteq> kind \<Longrightarrow> source_ok sv1 k rs = source_ok sv k rs"
  using apply_stamp_others [of now kind stamp sv sv1 k] paced_cong [OF apply_stamp_settings] pause_cong [OF apply_stamp_settings]
  by (auto simp: source_ok_def split: list.split)

lemma apply_stamps_ok:
  assumes "apply_stamps now stamps sv = Some sv1" "list_all2 (beat_of now) rows stamps" "distinct (map fst stamps)"
    "\<And>k. k \<in> set (map fst stamps) \<Longrightarrow> source_due sv now k" "service_ok sv before"
  shows "service_ok sv1 (before @ rows) \<and> same_settings sv sv1"
  using assms
proof (induction stamps arbitrary: sv rows before)
  case Nil
  then show ?case by (simp add: same_settings_def)
next
  case (Cons ks stamps)
  obtain kind stamp where ks: "ks = (kind, stamp)" by (cases ks) auto
  obtain r rows' where rows: "rows = r # rows'" "beat_of now r (kind, stamp)" "list_all2 (beat_of now) rows' stamps"
    using Cons.prems(2) by (auto simp: ks list_all2_Cons2)
  obtain sv0 where sv0: "apply_stamp now (kind, stamp) sv = Some sv0" "apply_stamps now stamps sv0 = Some sv1"
    using Cons.prems(1) by (auto simp: ks bind_eq_Some_conv)
  have same: "same_settings sv sv0" by (rule apply_stamp_settings [OF sv0(1)])
  have kinds: "sv_kinds sv0 = sv_kinds sv" using same by (simp add: same_settings_def)
  have ok0: "service_ok sv0 (before @ [r])"
    unfolding service_ok_def list_all_iff
  proof
    fix k
    assume k: "k \<in> set (sv_kinds sv0)"
    then have old: "source_ok sv k (beats_of k before)" using Cons.prems(5) by (simp add: service_ok_def list_all_iff kinds)
    show "source_ok sv0 k (beats_of k (before @ [r]))"
    proof (cases "k = kind")
      case True
      have "source_due sv now kind" using Cons.prems(4) by (simp add: ks)
      from apply_stamp_ok [OF sv0(1) rows(2) this] old True rows(2) show ?thesis by (simp add: beats_of_snoc)
    next
      case False
      then show ?thesis using old source_ok_other [OF sv0(1)] rows(2) by (simp add: beats_of_snoc)
    qed
  qed
  have due0: "source_due sv0 now k" if "k \<in> set (map fst stamps)" for k
  proof -
    have "k \<noteq> kind" using that Cons.prems(3) by (auto simp: ks)
    then show ?thesis
      using apply_stamp_others [OF sv0(1)] Cons.prems(4) [of k] that by (simp add: source_due_def)
  qed
  have "service_ok sv1 ((before @ [r]) @ rows') \<and> same_settings sv0 sv1"
    by (rule Cons.IH [OF sv0(2) rows(3) _ due0 ok0]) (use Cons.prems(3) in \<open>simp_all add: ks\<close>)
  with same rows(1) show ?case by (simp add: same_settings_def)
qed

section \<open>A service over a cycle that beats\<close>

locale recorder_cycle =
  fixes sr :: "'w surroundings" and beats :: "'w \<Rightarrow> heartbeat_row list"
  assumes cycle_beats: "sr_cycle sr due now w = Some (res, w1) \<Longrightarrow>
      \<exists>rows. beats w1 = beats w @ rows \<and> list_all2 (beat_of now) rows (cr_sources res)"
    and cycle_stamps: "sr_cycle sr due now w = Some (res, w1) \<Longrightarrow>
      distinct (map fst (cr_sources res)) \<and> set (map fst (cr_sources res)) \<subseteq> set due"
    and sleep_beats: "beats (sr_sleep sr d w) = beats w"
begin

lemma tick_ok:
  assumes "service_tick sr sv w = Some (Inr sv1, w1)" "service_ok sv before" "beats w = start @ before"
  shows "\<exists>rows. beats w1 = start @ before @ rows \<and> service_ok sv1 (before @ rows) \<and> same_settings sv sv1"
proof -
  let ?now = "sr_clock sr w" and ?sv0 = "sv\<lparr>sv_now := Some (sr_clock sr w)\<rparr>"
  let ?due = "filter (source_due ?sv0 ?now) (sv_kinds ?sv0)"
  have same0: "same_settings sv ?sv0" by (simp add: same_settings_def)
  have view: "service_ok sv' rows = service_ok sv'' rows"
    if "same_settings sv'' sv'" "sv_due_at sv' = sv_due_at sv''" "sv_fail_streak sv' = sv_fail_streak sv''" "sv_stamps sv' = sv_stamps sv''"
    for sv' sv'' rows
    using that pause_cong [OF that(1)] paced_cong [OF that(1)]
    by (simp add: service_ok_def source_ok_def same_settings_def list_all_iff cong: list.case_cong)
  have ok0: "service_ok ?sv0 before" using assms(2) view [OF same0] by simp
  show ?thesis
  proof (cases "?due = []")
    case True
    with assms(1) have "sv1 = ?sv0\<lparr>sv_cycles := sv_cycles sv + 1\<rparr>" "w1 = w" by (auto simp: service_tick_def Let_def)
    moreover from this have "service_ok sv1 before" using ok0 view [of ?sv0 sv1] by (simp add: same_settings_def)
    ultimately show ?thesis using assms(3) by (intro exI [of _ "[]"]) (simp add: same_settings_def)
  next
    case False
    with assms(1) obtain res sv2 where c: "sr_cycle sr ?due ?now w = Some (res, w1)" "apply_stamps ?now (cr_sources res) ?sv0 = Some sv2"
      "sv1 = sv2\<lparr>sv_last_cycle_ts := Some (cr_ts res), sv_cycles := sv_cycles sv2 + 1\<rparr>"
      by (auto simp: service_tick_def Let_def split: option.splits)
    obtain rows where rows: "beats w1 = beats w @ rows" "list_all2 (beat_of ?now) rows (cr_sources res)" using cycle_beats [OF c(1)] by blast
    have "service_ok sv2 (before @ rows) \<and> same_settings ?sv0 sv2"
      by (rule apply_stamps_ok [OF c(2) rows(2) _ _ ok0]) (use cycle_stamps [OF c(1)] in auto)
    moreover from this have "service_ok sv1 (before @ rows)" using view [of sv2 sv1] by (simp add: c(3) same_settings_def)
    ultimately show ?thesis using rows(1) assms(3) by (intro exI [of _ rows]) (simp add: c(3) same_settings_def)
  qed
qed

lemma run_ok_any:
  "service_run sr0 mx sv w = Some y \<Longrightarrow> sr0 = sr \<Longrightarrow> y = (Inr sv1, w1) \<Longrightarrow> service_ok sv before \<Longrightarrow> beats w = start @ before \<Longrightarrow>
   \<exists>rows. beats w1 = start @ rows \<and> service_ok sv1 rows \<and> same_settings sv sv1"
proof (induction sr0 mx sv w y arbitrary: before rule: service_run.raw_induct [rotated, consumes 1, case_names step])
  case (step self sr0 mx sv w y)
  note IH = step(1) and body = step(2) and sr0 = step(3) and y = step(4) and ok = step(5) and start = step(6)
  show ?case
  proof (cases "loop_ends sr mx sv w")
    case True
    with body sr0 y have "sv1 = sv" "w1 = w" by auto
    with ok start show ?thesis by (auto simp: same_settings_def)
  next
    case False
    with body sr0 obtain r w0 where t: "service_tick sr sv w = Some (r, w0)"
      "(case r of Inl e \<Rightarrow> Some (Inl e, w0)
        | Inr sv0 \<Rightarrow> self sr mx sv0 (if loop_ends sr mx sv0 w0 then w0 else sr_sleep sr (sv_poll sv0) w0)) = Some y"
      by (auto simp: bind_eq_Some_conv split: prod.splits)
    with y obtain sv0 where r: "r = Inr sv0" by (cases r) auto
    obtain rows where rows: "beats w0 = start @ before @ rows" "service_ok sv0 (before @ rows)" "same_settings sv sv0"
      using tick_ok [OF t(1) [unfolded r] ok start] by blast
    let ?w = "if loop_ends sr mx sv0 w0 then w0 else sr_sleep sr (sv_poll sv0) w0"
    have "self sr mx sv0 ?w = Some y" using t(2) r by simp
    moreover have "beats ?w = start @ before @ rows" using rows(1) by (simp add: sleep_beats)
    ultimately have "\<exists>rows. beats w1 = start @ rows \<and> service_ok sv1 rows \<and> same_settings sv0 sv1"
      using IH [of sr mx sv0 ?w y "before @ rows"] rows(2) y by simp
    with rows(3) show ?thesis by (auto simp: same_settings_def)
  qed
qed

lemma run_ok:
  assumes "service_run sr mx sv w = Some (Inr sv1, w1)" "service_ok sv []"
  shows "\<exists>rows. beats w1 = beats w @ rows \<and> service_ok sv1 rows \<and> same_settings sv sv1"
  using run_ok_any [OF assms(1) refl refl assms(2)] by simp

end

section \<open>Ends of the loop\<close>

text \<open>With a bound on the cycles the loop ends, unless a turn raises.\<close>

lemma tick_counts: "service_tick sr sv w = Some (Inr sv1, w1) \<Longrightarrow> sv_cycles sv1 = Suc (sv_cycles sv)"
proof -
  have c: "apply_stamp now ks s = Some s1 \<Longrightarrow> sv_cycles s1 = sv_cycles s" for now ks s s1
    by (auto simp: apply_stamp_def apply_failure_def Let_def split: prod.splits if_splits)
  have "apply_stamps now stamps s = Some s1 \<Longrightarrow> sv_cycles s1 = sv_cycles s" for now stamps s s1
    by (induction stamps arbitrary: s) (auto simp: bind_eq_Some_conv dest!: c)
  then show "service_tick sr sv w = Some (Inr sv1, w1) \<Longrightarrow> ?thesis"
    by (fastforce simp: service_tick_def Let_def split: option.splits if_splits)
qed

lemma service_ends:
  assumes "\<And>due now w. sr_cycle sr due now w \<noteq> None"
  shows "\<exists>y. service_run sr (Some n) sv w = Some y"
proof (induction "n - sv_cycles sv" arbitrary: sv w)
  case 0
  then show ?case by (simp add: service_run.simps loop_ends_def)
next
  case (Suc k)
  have "service_tick sr sv w \<noteq> None"
    using assms [of "filter (source_due (sv\<lparr>sv_now := Some (sr_clock sr w)\<rparr>) (sr_clock sr w)) (sv_kinds sv)" "sr_clock sr w" w]
    by (auto simp: service_tick_def Let_def split: option.splits)
  then obtain r w0 where t: "service_tick sr sv w = Some (r, w0)" by (cases "service_tick sr sv w") auto
  show ?case
  proof (cases r)
    case (Inl e)
    then show ?thesis using t by (subst service_run.simps) simp
  next
    case (Inr sv0)
    have "\<exists>y. service_run sr (Some n) sv0 w' = Some y" for w'
      by (rule Suc.hyps(1)) (use tick_counts [OF t [unfolded Inr]] Suc.hyps(2) in simp)
    then show ?thesis using t Inr by (subst service_run.simps) simp
  qed
qed

lemma service_stops:
  "service_run sr mx sv w = Some y \<Longrightarrow> y = (Inr sv1, w1) \<Longrightarrow> loop_ends sr mx sv1 w1"
proof (induction sr mx sv w y rule: service_run.raw_induct [rotated, consumes 1, case_names step])
  case (step self sr mx sv w y)
  show ?case
  proof (cases "loop_ends sr mx sv w")
    case True
    with step(2,3) show ?thesis by simp
  next
    case False
    with step(2) obtain r w0 where r: "(case r of Inl e \<Rightarrow> Some (Inl e, w0)
        | Inr sv0 \<Rightarrow> self sr mx sv0 (if loop_ends sr mx sv0 w0 then w0 else sr_sleep sr (sv_poll sv0) w0)) = Some y"
      by (auto simp: bind_eq_Some_conv split: prod.splits)
    with step(3) obtain sv0 where "r = Inr sv0" by (cases r) auto
    with r step(1) [OF _ step(3)] show ?thesis by simp
  qed
qed

section \<open>A long outage\<close>

text \<open>One source, whose every cycle fails; nobody asks the service to stop; sleeping takes time.\<close>

definition outage :: "'w surroundings \<Rightarrow> string \<Rightarrow> duration \<Rightarrow> bool" where
  "outage sr kind poll \<longleftrightarrow>
     (\<forall>now w. \<exists>res w1 stamp. sr_cycle sr [kind] now w = Some (res, w1) \<and> cr_sources res = [(kind, stamp)] \<and> \<not> ss_ok stamp)
     \<and> (\<forall>w. \<not> sr_stopped sr w) \<and> (\<forall>w. sr_clock sr w < sr_clock sr (sr_sleep sr poll w))"

definition until_due :: "service \<Rightarrow> string \<Rightarrow> instant \<Rightarrow> nat" where
  "until_due sv kind now = (case sv_due_at sv kind of None \<Rightarrow> 0 | Some t \<Rightarrow> nat (t - now))"

lemma outage_tick:
  assumes "outage sr kind (sv_poll sv)" "sv_kinds sv = [kind]"
  shows "\<exists>w1. service_tick sr sv w = Some (Inl (), w1)
    \<or> (\<exists>sv1. service_tick sr sv w = Some (Inr sv1, w1) \<and> sv_kinds sv1 = [kind] \<and> sv_poll sv1 = sv_poll sv
          \<and> (sv_fail_streak sv kind < 1024 \<and> sv_fail_streak sv1 kind = Suc (sv_fail_streak sv kind)
             \<or> w1 = w \<and> sv_fail_streak sv1 kind = sv_fail_streak sv kind
               \<and> until_due sv1 kind (sr_clock sr (sr_sleep sr (sv_poll sv) w)) < until_due sv kind (sr_clock sr w)))"
proof -
  let ?now = "sr_clock sr w"
  let ?sv0 = "sv\<lparr>sv_now := Some ?now\<rparr>"
  have [simp]: "Option.bind x (apply_stamps t []) = x" for x t by (cases x) simp_all
  show ?thesis
  proof (cases "source_due ?sv0 ?now kind")
    case False
    then obtain t where t: "sv_due_at sv kind = Some t" "?now < t" by (auto simp: source_due_def split: option.splits)
    have "?now < sr_clock sr (sr_sleep sr (sv_poll sv) w)" using assms(1) by (simp add: outage_def)
    with False t assms(2) show ?thesis by (simp add: service_tick_def Let_def until_due_def)
  next
    case True
    obtain res w1 stamp where c: "sr_cycle sr [kind] ?now w = Some (res, w1)" "cr_sources res = [(kind, stamp)]" "\<not> ss_ok stamp"
      using assms(1) unfolding outage_def by blast
    have due: "filter (source_due ?sv0 ?now) (sv_kinds ?sv0) = [kind]" using True assms(2) by simp
    have tick: "service_tick sr sv w = (case apply_failure ?now kind stamp ?sv0 of
        None \<Rightarrow> Some (Inl (), w1)
      | Some sv1 \<Rightarrow> Some (Inr (sv1\<lparr>sv_last_cycle_ts := Some (cr_ts res), sv_cycles := sv_cycles sv1 + 1\<rparr>), w1))"
      using assms(2) unfolding service_tick_def Let_def due by (simp add: c apply_stamp_def)
    show ?thesis
    proof (cases "sv_fail_streak sv kind < 1024")
      case True
      then show ?thesis using assms(2) by (simp add: tick apply_failure_def failure_backoff_def Let_def)
    next
      case False
      then show ?thesis by (simp add: tick apply_failure_def failure_backoff_def Let_def)
    qed
  qed
qed

text \<open>The service then ends by itself, with an exception.\<close>

lemma outage_stops:
  assumes "outage sr kind (sv_poll sv)" "sv_kinds sv = [kind]"
  shows "\<exists>w1. service_run sr None sv w = Some (Inl (), w1)"
  using assms
proof (induction "(1024 - sv_fail_streak sv kind, until_due sv kind (sr_clock sr w))" arbitrary: sv w
    rule: wf_induct_rule [OF wf_lex_prod [OF wf_less wf_less]])
  case 1
  have go: "\<not> loop_ends sr None sv' w'" for sv' w' using 1(2) by (simp add: loop_ends_def outage_def)
  from outage_tick [OF 1(2,3), of w] obtain w1 where w1:
    "service_tick sr sv w = Some (Inl (), w1)
     \<or> (\<exists>sv1. service_tick sr sv w = Some (Inr sv1, w1) \<and> sv_kinds sv1 = [kind] \<and> sv_poll sv1 = sv_poll sv
          \<and> (sv_fail_streak sv kind < 1024 \<and> sv_fail_streak sv1 kind = Suc (sv_fail_streak sv kind)
             \<or> w1 = w \<and> sv_fail_streak sv1 kind = sv_fail_streak sv kind
               \<and> until_due sv1 kind (sr_clock sr (sr_sleep sr (sv_poll sv) w)) < until_due sv kind (sr_clock sr w)))" by blast
  then consider (raise) "service_tick sr sv w = Some (Inl (), w1)"
    | (again) sv1 where "service_tick sr sv w = Some (Inr sv1, w1)" "sv_kinds sv1 = [kind]" "sv_poll sv1 = sv_poll sv"
      "sv_fail_streak sv kind < 1024 \<and> sv_fail_streak sv1 kind = Suc (sv_fail_streak sv kind)
       \<or> w1 = w \<and> sv_fail_streak sv1 kind = sv_fail_streak sv kind
         \<and> until_due sv1 kind (sr_clock sr (sr_sleep sr (sv_poll sv) w)) < until_due sv kind (sr_clock sr w)" by blast
  then show ?case
  proof cases
    case raise
    then show ?thesis by (subst service_run.simps) (simp add: go)
  next
    case again
    have "\<exists>w2. service_run sr None sv1 (sr_sleep sr (sv_poll sv1) w1) = Some (Inl (), w2)"
      by (rule 1(1)) (use again 1(2) in auto)
    then show ?thesis by (subst service_run.simps) (simp add: go again(1))
  qed
qed

section \<open>The service over the recording cycle\<close>

text \<open>\<open>stopped\<close>: whether a stop was requested, which the world decides.\<close>

definition cycle_surroundings :: "nat \<Rightarrow> 'e outside \<Rightarrow> (json \<Rightarrow> string) \<Rightarrow> coerce \<Rightarrow> (json \<Rightarrow> bool option) \<Rightarrow> (cycle_error \<Rightarrow> string)
    \<Rightarrow> (cycle_error \<Rightarrow> string) \<Rightarrow> settings \<Rightarrow> string list \<Rightarrow> string list \<Rightarrow> ('e cycle_world \<Rightarrow> bool) \<Rightarrow> 'e cycle_world surroundings" where
  "cycle_surroundings fuel out repr co to_bool nm describe cfg wallets btc_wallets stopped =
     \<lparr>sr_clock = (\<lambda>(c, db, env). o_clock out env), sr_sleep = (\<lambda>d (c, db, env). (c, db, o_sleep out d env)), sr_stopped = stopped,
      sr_cycle = (\<lambda>kinds now. run_cycle fuel out repr co to_bool nm describe cfg kinds wallets btc_wallets now)\<rparr>"

interpretation recorder: recorder_cycle "cycle_surroundings fuel out repr co to_bool nm describe cfg wallets btc_wallets stopped"
  "\<lambda>w. recorder_heartbeat (cycle_store w)"
  for fuel out repr co to_bool nm describe cfg wallets btc_wallets stopped
proof
  fix due now w d res w1
  let ?sr = "cycle_surroundings fuel out repr co to_bool nm describe cfg wallets btc_wallets stopped"
  show "recorder_heartbeat (cycle_store (sr_sleep ?sr d w)) = recorder_heartbeat (cycle_store w)"
    by (simp add: cycle_surroundings_def cycle_store_def split: prod.split)
  assume "sr_cycle ?sr due now w = Some (res, w1)"
  then have run: "run_cycle fuel out repr co to_bool nm describe cfg due wallets btc_wallets now w = Some (res, w1)"
    by (simp add: cycle_surroundings_def)
  from cycle_isolates_facts [OF run] show "\<exists>rows. recorder_heartbeat (cycle_store w1) = recorder_heartbeat (cycle_store w) @ rows
      \<and> list_all2 (beat_of now) rows (cr_sources res)" by blast
  have "distinct (cycle_kinds due (fst w)) \<and> set (cycle_kinds due (fst w)) \<subseteq> set due"
    unfolding cycle_kinds_def by (rule conjI [OF distinct_filter]) auto
  moreover have "map fst (cr_sources res) = cycle_kinds due (fst w)" using cycle_isolates_facts [OF run] by blast
  ultimately show "distinct (map fst (cr_sources res)) \<and> set (map fst (cr_sources res)) \<subseteq> set due" by (simp only:)
qed

lemma new_service_ok: "service_ok (new_service kinds intervals poll base mx) []"
  by (simp add: service_ok_def source_ok_def new_service_def Let_def beats_of_def failures_def list_all_iff)

text \<open>C23. The service keeps each source's cadence, whatever the other sources do: in the heartbeats it wrote, a
  source never runs earlier than its interval after a success, and after its \<open>n\<close>-th failure in a row
  never earlier than the doubled and capped backoff; and what the service shows of a source is the time
  and block of its last success, flagged by whether the last attempt succeeded.\<close>

theorem service_keeps_cadence:
  assumes "service_run (cycle_surroundings fuel out repr co to_bool nm describe cfg wallets btc_wallets stopped) max_cycles
      (new_service kinds intervals poll base mx) w = Some (Inr sv, w1)"
  shows "\<exists>rows. recorder_heartbeat (cycle_store w1) = recorder_heartbeat (cycle_store w) @ rows
    \<and> list_all (\<lambda>k. paced sv k (beats_of k rows) \<and> map_option stamp_view (sv_stamps sv k) = shown_of (beats_of k rows)) kinds
    \<and> (\<forall>k. sv_intervals sv k = (case intervals k of None \<Rightarrow> 0 | Some d \<Rightarrow> d)) \<and> sv_base_backoff sv = base \<and> sv_max_backoff sv = mx"
proof -
  obtain rows where "recorder_heartbeat (cycle_store w1) = recorder_heartbeat (cycle_store w) @ rows" "service_ok sv rows"
    "same_settings (new_service kinds intervals poll base mx) sv"
    using recorder.run_ok [OF assms new_service_ok] by blast
  then show ?thesis
    by (intro exI [of _ rows]) (auto simp: service_ok_def source_ok_def same_settings_def new_service_def Let_def list_all_iff)
qed

text \<open>With a bound on the cycles the service always comes to an end (and a stop request ends it at the next
  turn), for any cycle that itself returns.\<close>

theorem bounded_service_ends:
  assumes "\<forall>due now w. sr_cycle sr due now w \<noteq> None"
  shows "\<exists>r w1. service_run sr (Some n) sv w = Some (r, w1)
    \<and> (\<forall>sv1. r = Inr sv1 \<longrightarrow> sr_stopped sr w1 \<or> n \<le> sv_cycles sv1)"
proof -
  have ends: "\<exists>y. service_run sr (Some n) sv w = Some y" by (rule service_ends) (use assms in auto)
  then obtain r w1 where run: "service_run sr (Some n) sv w = Some (r, w1)" by auto
  have "loop_ends sr (Some n) sv1 w1" if "r = Inr sv1" for sv1
    using service_stops [OF run] that by simp
  with run show ?thesis by (auto simp: loop_ends_def)
qed

text \<open>A source that fails for long enough kills the service: if the only source of a service always fails and time
  passes, the loop, which has no bound and is never asked to stop, ends with an exception (the 1025th
  failure in a row overflows the float of the backoff).\<close>

theorem long_outage_kills_service:
  assumes "outage sr kind (sv_poll sv)" "sv_kinds sv = [kind]"
  shows "\<exists>w1. service_run sr None sv w = Some (Inl (), w1)"
  using assms by (rule outage_stops)

section \<open>Examples\<close>

text \<open>A source that is down: every cycle fails, time is what was slept.\<close>

definition down_stamp :: "instant \<Rightarrow> source_stamp" where
  "down_stamp now = \<lparr>ss_ok = False, ss_ts = now, ss_block = None, ss_error = Some CyclePython\<rparr>"

definition down :: "int surroundings" where
  "down = \<lparr>sr_clock = (\<lambda>t. t), sr_sleep = (\<lambda>d t. t + d), sr_stopped = (\<lambda>_. False),
     sr_cycle = (\<lambda>kinds now t. Some (\<lparr>cr_ts = now, cr_wallets = [], cr_counts = [],
        cr_sources = map (\<lambda>k. (k, down_stamp now)) kinds\<rparr>, t))\<rparr>"

definition lp_service :: service where
  "lp_service = new_service [''lp''] [''lp'' \<mapsto> seconds 60] None (seconds 5) (seconds 300)"

lemma lp_service_fields: "sv_kinds lp_service = [''lp'']" "sv_poll lp_service = seconds 60"
  by (simp_all add: lp_service_def new_service_def Let_def seconds_def)

lemma bounded_service_ends_witness:
  "\<exists>r w1. service_run down (Some 3) lp_service 0 = Some (r, w1) \<and> (\<forall>sv1. r = Inr sv1 \<longrightarrow> 3 \<le> sv_cycles sv1)"
proof -
  have returns: "\<forall>due now w. sr_cycle down due now w \<noteq> None" by (simp add: down_def)
  show ?thesis using bounded_service_ends [OF returns, of 3 lp_service 0] by (auto simp: down_def)
qed

lemma long_outage_kills_service_witness: "\<exists>w1. service_run down None lp_service 0 = Some (Inl (), w1)"
proof (rule long_outage_kills_service [where kind = "''lp''"])
  show "outage down ''lp'' (sv_poll lp_service)"
    by (simp add: outage_def down_def down_stamp_def lp_service_fields seconds_def)
qed (simp add: lp_service_fields)

text \<open>One turn of the service over the cycle that fails.\<close>

lemma service_keeps_cadence_witness:
  "\<exists>sv w1 r. service_run (cycle_surroundings (Suc 0) (scripted [''zz'']) (\<lambda>_. []) \<lparr>to_int = (\<lambda>_. None), to_dec = (\<lambda>_. None)\<rparr> (\<lambda>_. None)
        (\<lambda>_. []) (\<lambda>_. []) default_settings [''0x1''] [] (\<lambda>_. False)) (Some 1) lp_service bad_cycle_start = Some (Inr sv, w1)
    \<and> recorder_heartbeat (cycle_store w1) = [r] \<and> map_option stamp_view (sv_stamps sv ''lp'') = Some (False, 50, None)"
proof -
  let ?sr = "cycle_surroundings (Suc 0) (scripted [''zz'']) (\<lambda>_. []) \<lparr>to_int = (\<lambda>_. None), to_dec = (\<lambda>_. None)\<rparr> (\<lambda>_. None)
        (\<lambda>_. []) (\<lambda>_. []) default_settings [''0x1''] [] (\<lambda>_. False)"
  obtain res c db where cyc: "sr_cycle ?sr [''lp''] 50 bad_cycle_start = Some (res, c, db, 1)"
    "cr_sources res = [(''lp'', \<lparr>ss_ok = False, ss_ts = 50, ss_block = None, ss_error = Some (CycleRpc PythonRaised)\<rparr>)]"
    "recorder_heartbeat db = [\<lparr>hb_id = 1, hb_ts = 50, hb_kind = ''lp'', hb_ok = False, hb_block = None, hb_detail = [(''error'', JStr [])]\<rparr>]"
    by (simp add: cycle_surroundings_def bad_cycle write_heartbeat_def script_store_def empty_store_def next_id_def max_id_def)
  have clock: "sr_clock ?sr bad_cycle_start = 50" by (simp add: cycle_surroundings_def bad_cycle_start_def scripted_def)
  have start: "sv_kinds lp_service = [''lp'']" "sv_due_at lp_service = (\<lambda>_. None)" "sv_cycles lp_service = 0"
      "sv_fail_streak lp_service = (\<lambda>_. 0)" "sv_stamps lp_service = Map.empty"
    by (simp_all add: lp_service_def new_service_def Let_def)
  have [simp]: "Option.bind x (apply_stamps t []) = x" for x t by (cases x) simp_all
  obtain sv where tick: "service_tick ?sr lp_service bad_cycle_start = Some (Inr sv, c, db, 1)" "sv_cycles sv = 1"
    using cyc(1) by (simp add: service_tick_def Let_def clock start source_due_def cyc(2) apply_stamp_def apply_failure_def failure_backoff_def)
  have "\<not> loop_ends ?sr (Some 1) lp_service bad_cycle_start" "loop_ends ?sr (Some 1) sv (c, db, 1)"
    by (simp_all add: loop_ends_def start cycle_surroundings_def tick(2))
  then have run: "service_run ?sr (Some 1) lp_service bad_cycle_start = Some (Inr sv, c, db, 1)"
    by (subst service_run.simps) (simp add: tick(1), subst service_run.simps, simp)
  have none: "recorder_heartbeat (cycle_store bad_cycle_start) = []"
    by (simp add: bad_cycle_start_def cycle_store_def script_store_def empty_store_def)
  from service_keeps_cadence [OF run [unfolded lp_service_def]] none cyc(3) run show ?thesis
    by (auto simp: cycle_store_def beats_of_def)
qed

end
