(* ===== verification/Migrations.thy ===== *)
theory Migrations
  imports Peers
begin

text \<open>
  \<open>storage/migrations.py\<close>: the forward-only migrations. What a statement does to the schema is SQLite's and a
  parameter: \<open>exec\<close> gives the error or the database after it. The directory of packaged files is a list
  of names with texts, and \<open>stamp\<close> the time at which a version is recorded.
\<close>

section \<open>Statements of a file\<close>

definition newline :: char where
  "newline = CHR 0x0A"

text \<open>The line boundaries of \<open>splitlines\<close>.\<close>

definition line_end :: "char \<Rightarrow> bool" where
  "line_end c \<longleftrightarrow> c \<in> {CHR 0x0A, CHR 0x0B, CHR 0x0C, CHR 0x0D, CHR 0x1C, CHR 0x1D, CHR 0x1E, CHR 0x85}"

function lines_from :: "string \<Rightarrow> string \<Rightarrow> string list" where
  "lines_from cur [] = (if cur = [] then [] else [rev cur])"
| "lines_from cur (c # s) =
     (if line_end c then rev cur # lines_from [] (if c = CHR 0x0D \<and> startswith s [CHR 0x0A] then tl s else s)
      else lines_from (c # cur) s)"
  by pat_completeness auto
termination by (relation "measure (\<lambda>(cur, s). List.length s)") auto

definition splitlines :: "string \<Rightarrow> string list" where
  "splitlines s = lines_from [] s"

text \<open>\<open>line.split("--", 1)[0]\<close>.\<close>

fun before_dashes :: "string \<Rightarrow> string" where
  "before_dashes [] = []"
| "before_dashes (c # s) = (if startswith (c # s) ''--'' then [] else c # before_dashes s)"

definition split_statements :: "string \<Rightarrow> string list" where
  "split_statements sql =
     (let uncommented = join_with newline (map before_dashes (splitlines sql))
      in filter (\<lambda>s. s \<noteq> []) (map strip (split_on CHR '';'' uncommented)))"

section \<open>The catalogue\<close>

text \<open>Version, name and text. A dictionary: assigning a version again replaces its entry in place.\<close>

type_synonym catalogue = "(int \<times> string \<times> string) list"

fun dict_set :: "int \<Rightarrow> 'v \<Rightarrow> (int \<times> 'v) list \<Rightarrow> (int \<times> 'v) list" where
  "dict_set k v [] = [(k, v)]"
| "dict_set k v ((k', v') # d) = (if k' = k then (k, v) # d else (k', v') # dict_set k v d)"

definition endswith :: "string \<Rightarrow> string \<Rightarrow> bool" where
  "endswith s p = startswith (rev s) (rev p)"

definition version_of :: "string \<Rightarrow> (int \<times> string) option" where
  "version_of stem =
     map_option (\<lambda>v. (v, drop 1 (dropWhile (\<lambda>c. c \<noteq> CHR ''_'') stem))) (int_of_text (takeWhile (\<lambda>c. c \<noteq> CHR ''_'') stem))"

text \<open>\<open>None\<close>: a version that is no number raises.\<close>

fun packaged_migrations :: "(string \<times> string) list \<Rightarrow> catalogue \<Rightarrow> catalogue option" where
  "packaged_migrations [] found = Some found"
| "packaged_migrations ((entry, text) # entries) found =
     (if \<not> endswith entry ''.sql'' then packaged_migrations entries found
      else case version_of (take (List.length entry - 4) entry) of
        None \<Rightarrow> None
      | Some (version, name) \<Rightarrow> packaged_migrations entries (dict_set version (name, text) found))"

definition with_extra :: "catalogue \<Rightarrow> catalogue \<Rightarrow> catalogue" where
  "with_extra found extra = fold (\<lambda>(v, e) d. dict_set v e d) extra found"

section \<open>Applying\<close>

record 'd database =
  schema_rows :: "(int \<times> string \<times> instant) list"
  db_body :: 'd

definition applied_versions :: "'d database \<Rightarrow> int set" where
  "applied_versions db = set (map fst (schema_rows db))"

definition current_version :: "'d database \<Rightarrow> int" where
  "current_version db = (case map fst (schema_rows db) of [] \<Rightarrow> 0 | v # vs \<Rightarrow> foldl max v vs)"

definition pending :: "catalogue \<Rightarrow> 'd database \<Rightarrow> string list" where
  "pending found db = map (\<lambda>(v, name, sql). name) (filter (\<lambda>(v, _). v \<notin> applied_versions db) (sort_key fst found))"

fun run_statements :: "(string \<Rightarrow> 'd \<Rightarrow> string + 'd) \<Rightarrow> string list \<Rightarrow> 'd \<Rightarrow> string + 'd" where
  "run_statements exec [] d = Inr d"
| "run_statements exec (s # ss) d = (case exec s d of Inl e \<Rightarrow> Inl e | Inr d1 \<Rightarrow> run_statements exec ss d1)"

text \<open>One file in its transaction: its statements and its row in \<open>schema_migrations\<close> (keyed by version), or nothing.\<close>

definition apply_migration :: "(string \<Rightarrow> 'd \<Rightarrow> string + 'd) \<Rightarrow> (int \<Rightarrow> instant) \<Rightarrow> int \<times> string \<times> string \<Rightarrow> 'd database
    \<Rightarrow> string + 'd database" where
  "apply_migration exec stamp m db =
     (let (version, name, sql) = m in
      case run_statements exec (split_statements sql) (db_body db) of
        Inl e \<Rightarrow> Inl e
      | Inr d \<Rightarrow> if version \<in> applied_versions db then Inl ''UNIQUE constraint failed: schema_migrations.version''
                 else Inr (db\<lparr>schema_rows := schema_rows db @ [(version, name, stamp version)], db_body := d\<rparr>))"

record migration_error =
  me_version :: int
  me_name :: string
  me_error :: string

fun migrate_loop :: "(string \<Rightarrow> 'd \<Rightarrow> string + 'd) \<Rightarrow> (int \<Rightarrow> instant) \<Rightarrow> int set \<Rightarrow> catalogue \<Rightarrow> string list \<Rightarrow> 'd database
    \<Rightarrow> (migration_error + string list) \<times> 'd database" where
  "migrate_loop exec stamp applied [] applied_now db = (Inr applied_now, db)"
| "migrate_loop exec stamp applied ((version, name, sql) # ms) applied_now db =
     (if version \<in> applied then migrate_loop exec stamp applied ms applied_now db
      else case apply_migration exec stamp (version, name, sql) db of
        Inl e \<Rightarrow> (Inl \<lparr>me_version = version, me_name = name, me_error = e\<rparr>, db)
      | Inr db1 \<Rightarrow> migrate_loop exec stamp applied ms (applied_now @ [name]) db1)"

definition migrate :: "(string \<Rightarrow> 'd \<Rightarrow> string + 'd) \<Rightarrow> (int \<Rightarrow> instant) \<Rightarrow> catalogue \<Rightarrow> 'd database
    \<Rightarrow> (migration_error + string list) \<times> 'd database" where
  "migrate exec stamp found db = migrate_loop exec stamp (applied_versions db) (sort_key fst found) [] db"

section \<open>Forward only, all or nothing\<close>

text \<open>What the catalogue has for a database, in order.\<close>

definition missing :: "catalogue \<Rightarrow> 'd database \<Rightarrow> catalogue" where
  "missing found db = filter (\<lambda>(v, _). v \<notin> applied_versions db) (sort_key fst found)"

fun apply_all :: "(string \<Rightarrow> 'd \<Rightarrow> string + 'd) \<Rightarrow> (int \<Rightarrow> instant) \<Rightarrow> catalogue \<Rightarrow> 'd database \<Rightarrow> string + 'd database" where
  "apply_all exec stamp [] db = Inr db"
| "apply_all exec stamp (m # ms) db = (case apply_migration exec stamp m db of Inl e \<Rightarrow> Inl e | Inr db1 \<Rightarrow> apply_all exec stamp ms db1)"

lemma apply_migration_versions:
  "apply_migration exec stamp m db = Inr db1 \<Longrightarrow> applied_versions db1 = insert (fst m) (applied_versions db)"
  by (auto simp: apply_migration_def applied_versions_def split: prod.splits sum.splits if_splits)

lemma migrate_loop_filter:
  "migrate_loop exec stamp applied ms names db = migrate_loop exec stamp {} (filter (\<lambda>(v, _). v \<notin> applied) ms) names db"
  by (induction exec stamp applied ms names db rule: migrate_loop.induct) (auto split: sum.split)

lemma migrate_missing: "migrate exec stamp found db = migrate_loop exec stamp {} (missing found db) [] db"
  unfolding migrate_def missing_def by (rule migrate_loop_filter)

lemma loop_success:
  "migrate_loop exec stamp {} ms names db = (Inr names_done, db1) \<Longrightarrow>
   names_done = names @ map (\<lambda>(v, name, sql). name) ms \<and> apply_all exec stamp ms db = Inr db1 \<and> applied_versions db1 = applied_versions db \<union> fst ` set ms"
proof (induction ms arbitrary: names db)
  case (Cons m ms)
  obtain v n s where m: "m = (v, n, s)" by (cases m) auto
  from Cons.prems obtain db0 where "apply_migration exec stamp m db = Inr db0" "migrate_loop exec stamp {} ms (names @ [n]) db0 = (Inr names_done, db1)"
    by (auto simp: m split: sum.splits)
  with Cons.IH [OF this(2)] show ?case using apply_migration_versions [of exec stamp m db db0] by (auto simp: m)
qed simp

lemma loop_failure:
  "migrate_loop exec stamp {} ms names db = (Inl e, db1) \<Longrightarrow>
   \<exists>before sql after. ms = before @ (me_version e, me_name e, sql) # after \<and> apply_all exec stamp before db = Inr db1
     \<and> apply_migration exec stamp (me_version e, me_name e, sql) db1 = Inl (me_error e)"
proof (induction ms arbitrary: names db)
  case (Cons m ms)
  obtain v n s where m: "m = (v, n, s)" by (cases m) auto
  show ?case
  proof (cases "apply_migration exec stamp m db")
    case (Inl err)
    with Cons.prems show ?thesis by (intro exI [of _ "[]"] exI [of _ s] exI [of _ ms]) (auto simp: m)
  next
    case (Inr db0)
    with Cons.prems have "migrate_loop exec stamp {} ms (names @ [n]) db0 = (Inl e, db1)" by (simp add: m)
    from Cons.IH [OF this] obtain before sql after where "ms = before @ (me_version e, me_name e, sql) # after"
      "apply_all exec stamp before db0 = Inr db1" "apply_migration exec stamp (me_version e, me_name e, sql) db1 = Inl (me_error e)" by blast
    with Inr show ?thesis by (intro exI [of _ "m # before"]) auto
  qed
qed simp

lemma missing_none: "missing found db = [] \<longleftrightarrow> fst ` set found \<subseteq> applied_versions db"
  by (auto simp: missing_def filter_empty_conv)

lemma missing_distinct:
  assumes "distinct (map fst found)"
  shows "distinct (map fst (missing found db))"
proof -
  have "mset (map fst (sort_key fst found)) = mset (map fst found)" by simp
  then have "distinct (map fst (sort_key fst found))" using assms by (metis mset_eq_imp_distinct_iff)
  then show ?thesis unfolding missing_def by (rule distinct_map_filter)
qed

lemma apply_all_versions:
  "apply_all exec stamp ms db = Inr db1 \<Longrightarrow> applied_versions db1 = applied_versions db \<union> fst ` set ms"
proof (induction ms arbitrary: db)
  case (Cons m ms)
  then obtain db0 where "apply_migration exec stamp m db = Inr db0" "apply_all exec stamp ms db0 = Inr db1" by (auto split: sum.splits)
  with Cons.IH [OF this(2)] show ?case using apply_migration_versions [of exec stamp m db db0] by auto
qed simp

text \<open>C21. Migrating is forward only and all or nothing: on success exactly the pending files were applied, in the order of
  their versions, every version of the catalogue is recorded, nothing is pending and migrating again
  changes nothing; on a failure the database is as the files before the failing one left it, the failing
  one is not recorded, and the error is that of one of its own statements.\<close>

theorem migrations_forward_and_atomic:
  assumes "distinct (map fst found)" "migrate exec stamp found db = (r, db1)"
  shows "case r of
      Inr names_done \<Rightarrow> names_done = pending found db \<and> apply_all exec stamp (missing found db) db = Inr db1
        \<and> applied_versions db1 = applied_versions db \<union> fst ` set found \<and> pending found db1 = []
        \<and> migrate exec stamp found db1 = (Inr [], db1)
    | Inl e \<Rightarrow> (\<exists>before sql after. missing found db = before @ (me_version e, me_name e, sql) # after
        \<and> apply_all exec stamp before db = Inr db1 \<and> me_version e \<notin> applied_versions db1
        \<and> run_statements exec (split_statements sql) (db_body db1) = Inl (me_error e))"
proof (cases r)
  case (Inr names_done)
  with assms(2) have s: "names_done = map (\<lambda>(v, name, sql). name) (missing found db)" "apply_all exec stamp (missing found db) db = Inr db1"
    "applied_versions db1 = applied_versions db \<union> fst ` set (missing found db)"
    using loop_success [of exec stamp "missing found db" "[]" db names_done db1] by (simp_all add: migrate_missing)
  have v: "applied_versions db1 = applied_versions db \<union> fst ` set found" unfolding s(3) by (force simp: missing_def)
  have none: "missing found db1 = []" unfolding missing_none v by blast
  moreover have "pending found d = map (\<lambda>(v, name, sql). name) (missing found d)" for d :: "'a database" by (simp add: pending_def missing_def)
  ultimately show ?thesis using Inr s(1,2) v by (simp add: migrate_missing)
next
  case (Inl e)
  with assms(2) obtain before sql after where f: "missing found db = before @ (me_version e, me_name e, sql) # after"
    "apply_all exec stamp before db = Inr db1" "apply_migration exec stamp (me_version e, me_name e, sql) db1 = Inl (me_error e)"
    using loop_failure [of exec stamp "missing found db" "[]" db e db1] by (auto simp: migrate_missing)
  have "(me_version e, me_name e, sql) \<in> set (missing found db)" by (simp add: f(1))
  then have "me_version e \<notin> applied_versions db" by (simp add: missing_def)
  moreover have "me_version e \<notin> fst ` set before" using missing_distinct [OF assms(1), of db] by (auto simp: f(1))
  ultimately have new: "me_version e \<notin> applied_versions db1" using apply_all_versions [OF f(2)] by simp
  with f(3) have "run_statements exec (split_statements sql) (db_body db1) = Inl (me_error e)"
    by (simp add: apply_migration_def split: sum.splits)
  with f(1,2) new show ?thesis by (auto simp: Inl)
qed

text \<open>The second file fails in its second statement: the first stays, the second leaves nothing.\<close>

definition sample_exec :: "string \<Rightarrow> string list \<Rightarrow> string + string list" where
  "sample_exec s d = (if s = ''bad'' then Inl ''syntax error'' else Inr (d @ [s]))"

definition sample_catalogue :: catalogue where
  "sample_catalogue = [(2, ''second'', ''one; -- a; comment'' @ [CHR 0x0A] @ '' bad ;''), (1, ''first'', '' zero ;'')]"

lemma sample_migrated:
  "migrate sample_exec (\<lambda>v. v) sample_catalogue \<lparr>schema_rows = [], db_body = []\<rparr>
   = (Inl \<lparr>me_version = 2, me_name = ''second'', me_error = ''syntax error''\<rparr>,
      \<lparr>schema_rows = [(1, ''first'', 1)], db_body = [''zero'']\<rparr>)"
  by code_simp

lemma migrations_forward_and_atomic_witness:
  "\<exists>before sql after. missing sample_catalogue \<lparr>schema_rows = [], db_body = [] :: string list\<rparr> = before @ (2, ''second'', sql) # after
    \<and> apply_all sample_exec (\<lambda>v. v) before \<lparr>schema_rows = [], db_body = []\<rparr> = Inr \<lparr>schema_rows = [(1, ''first'', 1)], db_body = [''zero'']\<rparr>
    \<and> (2::int) \<notin> {1}"
  using migrations_forward_and_atomic [OF _ sample_migrated] by (auto simp: sample_catalogue_def applied_versions_def)

section \<open>What reaches the database\<close>

lemma before_dashes_clean: "\<not> substring_in ''--'' (before_dashes s)"
proof (induction s)
  case (Cons c s)
  have "startswith (before_dashes s) p \<Longrightarrow> startswith s p" for p s
  proof (induction s arbitrary: p)
    case (Cons d s)
    then show ?case by (cases p) (auto split: if_splits)
  qed simp
  from this [of s "''-''"] Cons show ?case by auto
qed simp

lemma no_dashes_join: "\<not> substring_in ''--'' u \<Longrightarrow> \<not> substring_in ''--'' v \<Longrightarrow> \<not> substring_in ''--'' (u @ newline # v)"
proof (induction u)
  case (Cons c u)
  then show ?case by (cases u) (auto simp: newline_def)
qed (simp add: newline_def)

lemma join_no_dashes: "list_all (\<lambda>w. \<not> substring_in ''--'' w) ws \<Longrightarrow> \<not> substring_in ''--'' (join_with newline ws)"
  by (induction newline ws rule: join_with.induct) (simp_all add: no_dashes_join)

lemma substring_trans: "substring_in p s \<Longrightarrow> t = a @ s @ b \<Longrightarrow> substring_in p t"
  unfolding substring_in_iff by (metis append.assoc)

lemma split_on_piece: "w \<in> set (split_on d s) \<Longrightarrow> \<exists>a b. s = a @ w @ b"
proof (induction s arbitrary: w)
  case (Cons c s)
  obtain v vs where vs: "split_on d s = v # vs" by (cases "split_on d s") auto
  have ext: "\<exists>a b. c # s = a @ w @ b" if "w \<in> set (split_on d s)" for w
  proof -
    from Cons.IH [OF that] obtain a b where "s = a @ w @ b" by blast
    then have "c # s = (c # a) @ w @ b" by simp
    then show ?thesis by blast
  qed
  have head: "split_on d s = v # vs \<Longrightarrow> \<exists>b. s = v @ b" for v vs s
  proof (induction s arbitrary: v vs)
    case (Cons e s)
    then show ?case by (cases "split_on d s") (auto split: if_splits)
  qed simp
  show ?case
  proof (cases "c = d")
    case True
    with Cons.prems ext show ?thesis by (cases "w = []") auto
  next
    case False
    then consider "w = c # v" | "w \<in> set vs" using Cons.prems vs by auto
    then show ?thesis
    proof cases
      case 1
      then show ?thesis using head [OF vs] by (metis append_Cons append_Nil)
    next
      case 2
      then show ?thesis using vs ext by auto
    qed
  qed
qed simp

lemma strip_piece: "\<exists>a b. s = a @ strip s @ b"
proof -
  let ?t = "dropWhile is_space s"
  have "s = takeWhile is_space s @ ?t" by simp
  moreover have "rev ?t = takeWhile is_space (rev ?t) @ dropWhile is_space (rev ?t)" by simp
  then have "?t = strip s @ rev (takeWhile is_space (rev ?t))" unfolding strip_def by (metis rev_append rev_rev_ident)
  ultimately show ?thesis by metis
qed

lemma strip_ends: "strip s = [] \<or> \<not> is_space (hd (strip s)) \<and> \<not> is_space (last (strip s))"
proof -
  let ?t = "dropWhile is_space s"
  have l: "dropWhile is_space (rev ?t) = [] \<or> \<not> is_space (hd (dropWhile is_space (rev ?t)))"
    using hd_dropWhile by blast
  have h: "?t = [] \<or> \<not> is_space (hd ?t)" using hd_dropWhile by blast
  obtain b where b: "?t = strip s @ b"
    unfolding strip_def by (metis rev_append rev_rev_ident takeWhile_dropWhile_id)
  show ?thesis
  proof (cases "strip s = []")
    case False
    then have "\<not> is_space (hd (strip s))" using h b by (cases "strip s") auto
    moreover have "\<not> is_space (last (strip s))" using l False unfolding strip_def last_rev by simp blast
    ultimately show ?thesis by simp
  qed simp
qed

text \<open>What reaches the database is statements only: none is empty or blank at either end, none holds a separator, and no
  comment survives the splitting.\<close>

theorem statements_clean:
  "list_all (\<lambda>s. s \<noteq> [] \<and> \<not> is_space (hd s) \<and> \<not> is_space (last s) \<and> CHR '';'' \<notin> set s \<and> \<not> substring_in ''--'' s) (split_statements sql)"
proof -
  let ?u = "join_with newline (map before_dashes (splitlines sql))"
  have u: "\<not> substring_in ''--'' ?u"
    by (rule join_no_dashes) (simp add: list_all_iff before_dashes_clean)
  have "\<not> substring_in ''--'' (strip w) \<and> CHR '';'' \<notin> set (strip w)" if w: "w \<in> set (split_on CHR '';'' ?u)" for w
  proof
    obtain a b c d where "?u = a @ w @ b" "w = c @ strip w @ d" using split_on_piece [OF w] strip_piece [of w] by blast
    then show "\<not> substring_in ''--'' (strip w)" using u substring_trans by blast
    show "CHR '';'' \<notin> set (strip w)" using split_on_no_sep [OF w] strip_subset by blast
  qed
  then show ?thesis using strip_ends by (auto simp: split_statements_def Let_def list_all_iff)
qed

end
