(* ===== verification/Backup.thy ===== *)
theory Backup
  imports Quota Migrations "HOL-Library.AList"
begin

text \<open>
  \<open>storage/backup.py\<close>: online backup and verified restore, over a file system that gives each path (a
  directory and a name) its content. SQLite is a parameter: \<open>integrity\<close> is the failure text of
  \<open>PRAGMA integrity_check\<close>, if any, and \<open>copy\<close> what the backup API wrote.
\<close>

section \<open>Files\<close>

type_synonym path = "string \<times> string"

type_synonym 'f files = "(path \<times> 'f) list"

definition get_file :: "'f files \<Rightarrow> path \<Rightarrow> 'f option" where
  "get_file fs p = map_of fs p"

definition put_file :: "path \<Rightarrow> 'f \<Rightarrow> 'f files \<Rightarrow> 'f files" where
  "put_file p c fs = AList.update p c fs"

definition unlink :: "path \<Rightarrow> 'f files \<Rightarrow> 'f files" where
  "unlink p fs = filter (\<lambda>(q, _). q \<noteq> p) fs"

lemma get_put [simp]: "get_file (put_file p c fs) q = (if q = p then Some c else get_file fs q)"
  by (simp add: get_file_def put_file_def update_conv')

lemma get_unlink [simp]: "get_file (unlink p fs) q = (if q = p then None else get_file fs q)"
  by (induction fs) (auto simp: get_file_def unlink_def)

text \<open>The names of a directory.\<close>

definition listing :: "string \<Rightarrow> 'f files \<Rightarrow> string list" where
  "listing dir fs = remdups (map snd (filter (\<lambda>p. fst p = dir) (map fst fs)))"

lemma listing_iff: "n \<in> set (listing dir fs) \<longleftrightarrow> get_file fs (dir, n) \<noteq> None"
  by (force simp: listing_def get_file_def map_of_eq_None_iff)

lemma distinct_listing: "distinct (listing dir fs)"
  by (simp add: listing_def)

section \<open>Backup\<close>

definition backup_prefix :: string where
  "backup_prefix = ''dexpaprika-''"

definition is_backup :: "string \<Rightarrow> bool" where
  "is_backup n \<longleftrightarrow> startswith n backup_prefix \<and> endswith n ''.db'' \<and> List.length backup_prefix + 3 \<le> List.length n"

definition backups :: "string \<Rightarrow> 'f files \<Rightarrow> string list" where
  "backups dir fs = sort (filter is_backup (listing dir fs))"

datatype backup_error =
    BackupDiscarded string
  | BackupNotFound path
  | BackupRefused string path
  | CopyFailed path

definition backup_name :: "string \<Rightarrow> string" where
  "backup_name stamp = backup_prefix @ stamp @ ''.db''"

definition create_backup :: "('f \<Rightarrow> string option) \<Rightarrow> 'f \<Rightarrow> string \<Rightarrow> string \<Rightarrow> int \<Rightarrow> 'f files \<Rightarrow> (backup_error + path) \<times> 'f files" where
  "create_backup integrity copy dir stamp keep fs =
     (let destination = (dir, backup_name stamp);
          fs1 = put_file destination copy fs
      in case integrity copy of
           Some failure \<Rightarrow> (Inl (BackupDiscarded failure), unlink destination fs1)
         | None \<Rightarrow>
             let old = (if 0 < keep then take (List.length (backups dir fs1) - nat keep) (backups dir fs1) else [])
             in (Inr destination, fold (\<lambda>n. unlink (dir, n)) old fs1))"

definition latest_backup :: "string \<Rightarrow> 'f files \<Rightarrow> path option" where
  "latest_backup dir fs = (case backups dir fs of [] \<Rightarrow> None | b # bs \<Rightarrow> Some (dir, last (b # bs)))"

section \<open>Restore\<close>

definition with_suffix :: "path \<Rightarrow> string \<Rightarrow> path" where
  "with_suffix p s = (fst p, snd p @ s)"

text \<open>\<open>CopyFailed\<close>: the copy itself raises, its source being gone.\<close>

definition restore_backup :: "('f \<Rightarrow> string option) \<Rightarrow> path \<Rightarrow> path \<Rightarrow> 'f files \<Rightarrow> (backup_error + unit) \<times> 'f files" where
  "restore_backup integrity backup db fs =
     (case get_file fs backup of
        None \<Rightarrow> (Inl (BackupNotFound backup), fs)
      | Some content \<Rightarrow>
          (case integrity content of
             Some failure \<Rightarrow> (Inl (BackupRefused failure backup), fs)
           | None \<Rightarrow>
               let fs1 = (case get_file fs db of None \<Rightarrow> fs | Some c \<Rightarrow> unlink db (put_file (with_suffix db ''.pre-restore'') c fs));
                   fs2 = unlink (with_suffix db ''-shm'') (unlink (with_suffix db ''-wal'') fs1)
               in case get_file fs2 backup of
                    None \<Rightarrow> (Inl (CopyFailed backup), fs2)
                  | Some c \<Rightarrow> (Inr (), put_file db c fs2)))"

section \<open>Pruning\<close>

lemma get_fold_unlink: "get_file (fold (\<lambda>n. unlink (dir, n)) ns fs) p = (if fst p = dir \<and> snd p \<in> set ns then None else get_file fs p)"
  by (induction ns arbitrary: fs) (auto simp: prod_eq_iff)

lemma backups_iff: "n \<in> set (backups dir fs) \<longleftrightarrow> is_backup n \<and> get_file fs (dir, n) \<noteq> None"
  by (auto simp: backups_def listing_iff)

lemma distinct_backups: "distinct (backups dir fs)"
  by (simp add: backups_def distinct_listing)

lemma sorted_backups: "sorted (backups dir fs)"
  by (simp add: backups_def)

lemma backups_after_prune:
  "backups dir (fold (\<lambda>n. unlink (dir, n)) (take k (backups dir fs)) fs) = drop k (backups dir fs)"
proof -
  define old where "old = take k (backups dir fs)"
  define kept where "kept = drop k (backups dir fs)"
  have parts: "set old \<union> set kept = set (backups dir fs)" "set old \<inter> set kept = {}"
    using distinct_backups [of dir fs] unfolding old_def kept_def
    by (metis append_take_drop_id set_append, metis append_take_drop_id distinct_append)
  have mem: "n \<in> set (backups dir (fold (\<lambda>n. unlink (dir, n)) old fs)) \<longleftrightarrow> n \<in> set (backups dir fs) \<and> n \<notin> set old" for n
    by (simp add: backups_iff get_fold_unlink)
  have "set (backups dir (fold (\<lambda>n. unlink (dir, n)) old fs)) = set kept" using parts mem by blast
  then have "backups dir (fold (\<lambda>n. unlink (dir, n)) old fs) = kept"
    by (intro sorted_distinct_set_unique sorted_backups distinct_backups)
      (simp_all add: kept_def sorted_backups distinct_backups sorted_wrt_drop)
  then show ?thesis by (simp add: old_def kept_def)
qed

lemma is_backup_name: "is_backup (backup_name stamp)"
proof -
  have "startswith (rev s @ t) (rev s)" for s t :: string by (simp add: startswith_iff)
  from this [of "''.db''"] have "endswith (backup_name stamp) ''.db''" by (simp add: endswith_def backup_name_def)
  then show ?thesis by (simp add: is_backup_def backup_name_def startswith_iff)
qed

lemma backups_put:
  "is_backup n \<Longrightarrow> set (backups dir (put_file (dir, n) c fs)) = insert n (set (backups dir fs))"
  by (auto simp: backups_iff split: if_splits)

text \<open>A backup counts only when it passes the integrity check; then at most \<open>keep\<close> remain and those that remain are
  the last of the sorted names, no other file is touched, and, when its name sorts after the others,
  the new one is kept and is the latest; a copy that fails the check is discarded and nothing else
  changes.\<close>

theorem backup_kept_and_pruned:
  assumes "0 < keep" "create_backup integrity copy dir stamp keep fs = (r, fs1)"
    "list_all (\<lambda>n. n < backup_name stamp) (backups dir fs)"
  shows "case r of
      Inr p \<Rightarrow> p = (dir, backup_name stamp) \<and> integrity copy = None \<and> get_file fs1 p = Some copy \<and> latest_backup dir fs1 = Some p
        \<and> List.length (backups dir fs1) = min (nat keep) (Suc (List.length (backups dir fs)))
        \<and> (\<exists>old. backups dir fs @ [backup_name stamp] = old @ backups dir fs1)
        \<and> (\<forall>q. fst q \<noteq> dir \<or> \<not> is_backup (snd q) \<longrightarrow> get_file fs1 q = get_file fs q)
    | Inl e \<Rightarrow> integrity copy \<noteq> None \<and> (\<forall>q. get_file fs1 q = get_file fs q)"
proof -
  let ?n = "backup_name stamp" and ?fs = "put_file (dir, backup_name stamp) copy fs"
  have new: "get_file fs (dir, ?n) = None"
  proof (rule ccontr)
    assume "get_file fs (dir, ?n) \<noteq> None"
    then have "?n \<in> set (backups dir fs)" by (simp add: backups_iff is_backup_name)
    then show False using assms(3) by (auto simp: list_all_iff)
  qed
  show ?thesis
  proof (cases "integrity copy")
    case (Some failure)
    with assms(2) new show ?thesis by (auto simp: create_backup_def Let_def)
  next
    case None
    define b where "b = backups dir ?fs"
    have b: "b = backups dir fs @ [?n]"
    proof (rule sorted_distinct_set_unique)
      show "sorted (backups dir fs @ [?n])" "distinct (backups dir fs @ [?n])"
        using assms(3) sorted_backups [of dir fs] distinct_backups [of dir fs]
        by (auto simp: sorted_append list_all_iff less_imp_le)
      show "set b = set (backups dir fs @ [?n])" by (simp add: b_def backups_put is_backup_name)
    qed (simp_all add: b_def sorted_backups distinct_backups)
    let ?k = "List.length b - nat keep"
    have k: "?k < List.length b" using assms(1) by (simp add: b)
    have r: "r = Inr (dir, ?n)" and fs1: "fs1 = fold (\<lambda>n. unlink (dir, n)) (take ?k b) ?fs"
      using assms(1,2) None by (auto simp: create_backup_def Let_def b_def)
    have left: "backups dir fs1 = drop ?k b" unfolding fs1 b_def by (rule backups_after_prune)
    have last: "last (drop ?k b) = ?n" using k by (simp add: last_drop) (simp add: b)
    have "?n \<notin> set (take ?k b)"
      using k distinct_backups [of dir ?fs] unfolding b_def [symmetric] by (auto simp: b dest: in_set_takeD)
    then have get: "get_file fs1 (dir, ?n) = Some copy" by (simp add: fs1 get_fold_unlink)
    have latest: "latest_backup dir fs1 = Some (dir, ?n)" using k last unfolding latest_backup_def left by (cases "drop ?k b") auto
    have others: "get_file fs1 q = get_file fs q" if "fst q \<noteq> dir \<or> \<not> is_backup (snd q)" for q
    proof -
      have "snd q \<notin> set (take ?k b)" if "fst q = dir"
        using \<open>fst q \<noteq> dir \<or> \<not> is_backup (snd q)\<close> that backups_iff [of "snd q" dir ?fs] unfolding b_def by (auto dest: in_set_takeD)
      then show ?thesis using that is_backup_name by (auto simp: fs1 get_fold_unlink)
    qed
    have "backups dir fs @ [?n] = take ?k b @ backups dir fs1" unfolding left by (simp add: b [symmetric])
    moreover have "List.length (backups dir fs1) = min (nat keep) (Suc (List.length (backups dir fs)))" by (simp add: left b)
    ultimately show ?thesis using None get latest others by (auto simp: r)
  qed
qed

definition sample_files :: "string files" where
  "sample_files = [((''b'', backup_name ''1''), ''old''), ((''b'', backup_name ''2''), ''new''), ((''b'', ''notes''), ''x''),
     ((''d'', ''x.db''), ''live''), ((''d'', ''x.db-wal''), ''committed'')]"

definition sound :: "string \<Rightarrow> string option" where
  "sound c = (if c = ''broken'' then Some ''malformed'' else None)"

lemma sample_backups: "backups ''b'' sample_files = [backup_name ''1'', backup_name ''2'']"
  by code_simp

lemma backup_kept_and_pruned_witness:
  "\<exists>fs1. create_backup sound ''copy'' ''b'' ''3'' 2 sample_files = (Inr (''b'', backup_name ''3''), fs1)
    \<and> latest_backup ''b'' fs1 = Some (''b'', backup_name ''3'') \<and> List.length (backups ''b'' fs1) = 2 \<and> get_file fs1 (''b'', ''notes'') = Some ''x''"
proof -
  obtain r fs1 where run: "create_backup sound ''copy'' ''b'' ''3'' 2 sample_files = (r, fs1)" by fastforce
  have r: "r = Inr (''b'', backup_name ''3'')" using run by (simp add: create_backup_def sound_def Let_def split: if_splits)
  have order: "list_all (\<lambda>n. n < backup_name ''3'') (backups ''b'' sample_files)" unfolding sample_backups by code_simp
  have "\<not> is_backup ''notes''" "get_file sample_files (''b'', ''notes'') = Some ''x''" by code_simp+
  with backup_kept_and_pruned [OF _ run order] run show ?thesis by (auto simp: r sample_backups)
qed

section \<open>Restoring\<close>

text \<open>The files a restore may change.\<close>

definition restored_paths :: "path \<Rightarrow> path list" where
  "restored_paths db = [db, with_suffix db ''.pre-restore'', with_suffix db ''-wal'', with_suffix db ''-shm'']"

lemma restored_paths_distinct: "distinct (restored_paths db)"
  by (cases db) (simp add: restored_paths_def with_suffix_def)

text \<open>A restore from any other file is refused with nothing changed when the backup is missing or fails its check;
  otherwise the database is the backup, the database there was is kept beside it, the backup stays, and no
  other file changes but the two sidecars.\<close>

theorem restore_verified_and_kept:
  assumes "backup \<notin> set (restored_paths db)"
  shows "case restore_backup integrity backup db fs of
      (Inr u, fs1) \<Rightarrow> (\<exists>c. get_file fs backup = Some c \<and> integrity c = None \<and> get_file fs1 db = Some c \<and> get_file fs1 backup = Some c)
        \<and> get_file fs1 (with_suffix db ''.pre-restore'')
            = (case get_file fs db of Some old \<Rightarrow> Some old | None \<Rightarrow> get_file fs (with_suffix db ''.pre-restore''))
        \<and> (\<forall>q. q \<notin> set (restored_paths db) \<longrightarrow> get_file fs1 q = get_file fs q)
    | (Inl e, fs1) \<Rightarrow> fs1 = fs \<and> (get_file fs backup = None \<or> (\<exists>c. get_file fs backup = Some c \<and> integrity c \<noteq> None))"
proof (cases "get_file fs backup")
  case None
  then show ?thesis by (simp add: restore_backup_def)
next
  case (Some c)
  show ?thesis
  proof (cases "integrity c")
    case (Some failure)
    with \<open>get_file fs backup = Some c\<close> show ?thesis by (simp add: restore_backup_def)
  next
    case None
    have d: "with_suffix db ''.pre-restore'' \<noteq> with_suffix db ''-wal''" "with_suffix db ''.pre-restore'' \<noteq> with_suffix db ''-shm''"
      "with_suffix db ''.pre-restore'' \<noteq> db" "with_suffix db ''-wal'' \<noteq> db" "with_suffix db ''-shm'' \<noteq> db"
      using restored_paths_distinct [of db] by (auto simp: restored_paths_def)
    have b: "backup \<noteq> db" "backup \<noteq> with_suffix db ''.pre-restore''" "backup \<noteq> with_suffix db ''-wal''" "backup \<noteq> with_suffix db ''-shm''"
      using assms by (auto simp: restored_paths_def)
    show ?thesis
    proof (cases "get_file fs db")
      case None
      then show ?thesis using Some \<open>integrity c = None\<close> d b by (simp add: restore_backup_def restored_paths_def)
    next
      case old: (Some old)
      then show ?thesis using Some \<open>integrity c = None\<close> d b by (simp add: restore_backup_def restored_paths_def)
    qed
  qed
qed

lemma restore_verified_and_kept_witness:
  "\<exists>fs1. restore_backup sound (''b'', backup_name ''1'') (''d'', ''x.db'') sample_files = (Inr (), fs1)
    \<and> get_file fs1 (''d'', ''x.db'') = Some ''old'' \<and> get_file fs1 (''d'', ''x.db.pre-restore'') = Some ''live''"
proof -
  have other: "(''b'', backup_name ''1'') \<notin> set (restored_paths (''d'', ''x.db''))" by (simp add: restored_paths_def with_suffix_def)
  obtain r fs1 where run: "restore_backup sound (''b'', backup_name ''1'') (''d'', ''x.db'') sample_files = (r, fs1)" by fastforce
  have files: "get_file sample_files (''b'', backup_name ''1'') = Some ''old''" "get_file sample_files (''d'', ''x.db'') = Some ''live''" "sound ''old'' = None"
    by code_simp+
  from restore_verified_and_kept [OF other, where integrity = sound and fs = sample_files] show ?thesis
    by (cases r) (auto simp: run files with_suffix_def)
qed

text \<open>A restore deletes the write-ahead log of the database it sets aside: what was committed only there is in no
  file any more, although the database itself was kept.\<close>

theorem restore_discards_log:
  assumes "restore_backup integrity backup db fs = (Inr (), fs1)" "get_file fs (with_suffix db ''-wal'') = Some committed"
    "list_all (\<lambda>(p, c). c = committed \<longrightarrow> p = with_suffix db ''-wal'') fs"
  shows "list_all (\<lambda>(p, c). get_file fs1 p \<noteq> Some committed) fs1"
proof -
  have d: "with_suffix db ''-wal'' \<noteq> db" "with_suffix db ''-wal'' \<noteq> with_suffix db ''.pre-restore''"
    using restored_paths_distinct [of db] by (auto simp: restored_paths_def)
  have only: "p = with_suffix db ''-wal''" if "get_file fs p = Some committed" for p
    using assms(3) that by (auto simp: list_all_iff get_file_def dest: map_of_SomeD)
  have "get_file fs1 p \<noteq> Some committed" for p
  proof
    assume "get_file fs1 p = Some committed"
    then have "p = with_suffix db ''-wal''"
      using assms(1) d by (auto simp: restore_backup_def Let_def split: option.splits if_splits dest!: only)
    with \<open>get_file fs1 p = Some committed\<close> show False
      using assms(1) d by (auto simp: restore_backup_def Let_def split: option.splits if_splits)
  qed
  then show ?thesis by (auto simp: list_all_iff)
qed

lemma sample_restored:
  "restore_backup sound (''b'', backup_name ''1'') (''d'', ''x.db'') sample_files
   = (Inr (), put_file (''d'', ''x.db'') ''old'' (unlink (''d'', ''x.db-shm'') (unlink (''d'', ''x.db-wal'')
       (unlink (''d'', ''x.db'') (put_file (''d'', ''x.db.pre-restore'') ''live'' sample_files)))))"
proof -
  have "get_file sample_files (''b'', backup_name ''1'') = Some ''old''" "get_file sample_files (''d'', ''x.db'') = Some ''live''" "sound ''old'' = None"
    by code_simp+
  then show ?thesis by (simp add: restore_backup_def with_suffix_def)
qed

lemma restore_discards_log_witness:
  "list_all (\<lambda>(p, c). get_file (snd (restore_backup sound (''b'', backup_name ''1'') (''d'', ''x.db'') sample_files)) p \<noteq> Some ''committed'')
     (snd (restore_backup sound (''b'', backup_name ''1'') (''d'', ''x.db'') sample_files))
   \<and> get_file sample_files (''d'', ''x.db-wal'') = Some ''committed''"
proof -
  have "get_file sample_files (with_suffix (''d'', ''x.db'') ''-wal'') = Some ''committed''"
    "list_all (\<lambda>(p, c). c = ''committed'' \<longrightarrow> p = with_suffix (''d'', ''x.db'') ''-wal'') sample_files" by code_simp+
  from restore_discards_log [OF sample_restored this] this(1) show ?thesis by (simp add: sample_restored with_suffix_def)
qed

text \<open>The copy an earlier restore kept cannot be restored: doing so overwrites it with the live database first, and then
  reports success with the database as it was and the copy gone.\<close>

theorem kept_copy_not_restorable:
  assumes "get_file fs db = Some live" "get_file fs (with_suffix db ''.pre-restore'') = Some kept" "integrity kept = None"
  shows "fst (restore_backup integrity (with_suffix db ''.pre-restore'') db fs) = Inr ()
    \<and> get_file (snd (restore_backup integrity (with_suffix db ''.pre-restore'') db fs)) db = Some live
    \<and> get_file (snd (restore_backup integrity (with_suffix db ''.pre-restore'') db fs)) (with_suffix db ''.pre-restore'') = Some live"
proof -
  have d: "with_suffix db ''-wal'' \<noteq> db" "with_suffix db ''.pre-restore'' \<noteq> db" "with_suffix db ''.pre-restore'' \<noteq> with_suffix db ''-wal''"
    "with_suffix db ''.pre-restore'' \<noteq> with_suffix db ''-shm''"
    using restored_paths_distinct [of db] by (auto simp: restored_paths_def)
  then show ?thesis using assms by (simp add: restore_backup_def Let_def)
qed

lemma kept_copy_not_restorable_witness:
  "fst (restore_backup sound (''d'', ''x.db.pre-restore'') (''d'', ''x.db'') (put_file (''d'', ''x.db.pre-restore'') ''kept'' sample_files)) = Inr ()
    \<and> get_file (snd (restore_backup sound (''d'', ''x.db.pre-restore'') (''d'', ''x.db'') (put_file (''d'', ''x.db.pre-restore'') ''kept'' sample_files)))
        (''d'', ''x.db.pre-restore'') = Some ''live''"
proof -
  have suffix: "with_suffix (''d'', ''x.db'') ''.pre-restore'' = (''d'', ''x.db.pre-restore'')" by (simp add: with_suffix_def)
  have "get_file sample_files (''d'', ''x.db'') = Some ''live''" "sound ''kept'' = None" by code_simp+
  then show ?thesis
    using kept_copy_not_restorable [of "put_file (''d'', ''x.db.pre-restore'') ''kept'' sample_files" "(''d'', ''x.db'')" "''live''" "''kept''" sound]
    by (simp add: suffix)
qed

end
