(* ===== verification/Sidecar.thy ===== *)
theory Sidecar
  imports Postconditions Health
begin

text \<open>
  The production sidecar of \<open>cli.py\<close> (\<open>_sidecar_runner\<close>): the external executor as a one-shot process, and
  what its environment holds. The machine gives \<open>os.environ\<close>, the secrets, the lookup of \<open>node\<close>, the files that
  exist, the run of a process and \<open>json.loads\<close>; the log of started processes serves the properties only.
\<close>

section \<open>The runner\<close>

type_synonym environ = "string \<rightharpoonup> string"

record process =
  pc_argv :: "string list"
  pc_env :: environ
  pc_input :: dict

text \<open>\<open>NotRun\<close>: an \<open>OSError\<close> or the timeout of 180 seconds, by its text; \<open>Undecodable\<close>: the process wrote what is
  not text in the locale's encoding, which raises past the runner.\<close>

datatype process_end = NotRun string | Undecodable | Exited int string string

record 'e machine =
  mc_environ :: environ
  mc_secrets :: secret_sources
  mc_node :: "string option"
  mc_root :: string
  mc_exists :: "string \<Rightarrow> bool"
  mc_spawn :: "process \<Rightarrow> 'e \<Rightarrow> process_end \<times> 'e"
  mc_loads :: "string \<Rightarrow> string + json"

definition failure :: "string \<Rightarrow> json" where
  "failure text = JObj [(''ok'', JBool False), (''error'', JStr text)]"

text \<open>\<open>root / "executor" / name\<close>: an absolute name stands for itself.\<close>

definition script_path :: "'e machine \<Rightarrow> string" where
  "script_path mc =
     (let name = (case mc_environ mc ''DEXPAPRIKA_SIDECAR_SCRIPT'' of Some s \<Rightarrow> s | None \<Rightarrow> ''gmx_exec_onchain.cjs'')
      in if startswith name ''/'' then name
         else mc_root mc @ ''/executor'' @ (if name = [] then [] else ''/'' @ name))"

definition secret_prefix :: string where
  "secret_prefix = ''DEXPAPRIKA_SECRET_''"

definition passed_through :: "string list" where
  "passed_through = [''GMX_RPC_URL'', ''GMX_ORACLE_URL'', ''GMX_SUBSQUID_URL'']"

definition pass_var :: "environ \<Rightarrow> string \<Rightarrow> environ \<Rightarrow> environ" where
  "pass_var outer var e = (case outer var of Some v \<Rightarrow> e(var \<mapsto> v) | None \<Rightarrow> e)"

text \<open>The environment before the key is added.\<close>

definition base_env :: "settings \<Rightarrow> environ \<Rightarrow> environ" where
  "base_env settings outer =
     (let kept = (\<lambda>k. if startswith k secret_prefix then None else outer k);
          target = kept(''GMX_CHAIN_ID'' \<mapsto> int_str (gmx_chain_id settings), ''GMX_ACCOUNT'' \<mapsto> execution_account settings)
      in (fold (pass_var outer) passed_through target)(''GMX_WALLET_KEY'' := None, ''GMX_SUBACCOUNT_KEY'' := None))"

definition is_submit :: "dict \<Rightarrow> bool" where
  "is_submit payload \<longleftrightarrow> get payload ''mode'' = Some (JStr ''submit'')"

text \<open>\<open>None\<close>: the wallet key cannot be resolved.\<close>

definition process_env :: "'e machine \<Rightarrow> settings \<Rightarrow> dict \<Rightarrow> environ option" where
  "process_env mc settings payload =
     (let e = base_env settings (mc_environ mc)
      in if is_submit payload
         then map_option (\<lambda>key. e(''GMX_WALLET_KEY'' \<mapsto> key)) (resolve_secret (mc_secrets mc) settings ''gmx_wallet_key'')
         else Some e)"

definition last_chars :: "nat \<Rightarrow> string \<Rightarrow> string" where
  "last_chars n s = drop (List.length s - n) s"

text \<open>\<open>None\<close>: an exception.\<close>

definition answer_of :: "'e machine \<Rightarrow> process_end \<Rightarrow> json option" where
  "answer_of mc ended = (case ended of
     NotRun text \<Rightarrow> Some (failure (''sidecar failed to run: '' @ text))
   | Undecodable \<Rightarrow> None
   | Exited code out err \<Rightarrow>
       if code \<noteq> 0 then Some (failure (''sidecar exit '' @ int_str code @ '': '' @ last_chars 500 err))
       else (case mc_loads mc out of
               Inl text \<Rightarrow> Some (failure (''sidecar returned invalid JSON: '' @ text))
             | Inr j \<Rightarrow> Some j))"

type_synonym 'e started = "process list \<times> 'e"

definition run_payload :: "'e machine \<Rightarrow> settings \<Rightarrow> dict \<Rightarrow> 'e started \<Rightarrow> json option \<times> 'e started" where
  "run_payload mc settings payload w =
     (case mc_node mc of
        None \<Rightarrow> (Some (failure (''node not found '' @ dash @ '' the executor sidecar needs Node.js'')), w)
      | Some node \<Rightarrow>
          if \<not> mc_exists mc (script_path mc) then (Some (failure (''sidecar script missing at '' @ script_path mc)), w)
          else (case process_env mc settings payload of
                  None \<Rightarrow> (Some (failure (''secret '' @ [CHR 0x27] @ ''gmx_wallet_key'' @ [CHR 0x27] @ '' not resolvable '' @ dash
                       @ '' set DEXPAPRIKA_SECRET_GMX_WALLET_KEY to the execution wallet key'')), w)
                | Some e \<Rightarrow>
                    (let p = \<lparr>pc_argv = [node, script_path mc], pc_env = e, pc_input = payload\<rparr>
                     in case mc_spawn mc p (snd w) of (ended, x) \<Rightarrow> (answer_of mc ended, fst w @ [p], x))))"

section \<open>The sidecar of the executor\<close>

definition payload_of :: "sidecar_request \<Rightarrow> dict" where
  "payload_of req = (case req of
     PrepareReq i \<Rightarrow> [(''mode'', JStr ''prepare''), (''action'', JStr (action_text (i_action i))), (''params'', model_dump i)]
   | SubmitReq i key \<Rightarrow> [(''mode'', JStr ''submit''), (''action'', JStr (action_text (i_action i))), (''params'', model_dump i),
       (''idempotency_key'', JStr key)]
   | ReadOrdersReq \<Rightarrow> [(''mode'', JStr ''read''), (''action'', JStr ''read-orders''), (''params'', JObj [])])"

text \<open>An answer that is no object has no \<open>get\<close>: the caller raises.\<close>

definition production_sidecar :: "'e machine \<Rightarrow> settings \<Rightarrow> 'e started sidecar" where
  "production_sidecar mc settings req w =
     (case run_payload mc settings (payload_of req) w of
        (Some (JObj d), w1) \<Rightarrow> (Some d, w1)
      | (_, w1) \<Rightarrow> (None, w1))"

section \<open>What a process is given\<close>

lemma pass_var_kept: "pass_var outer var e k = (if k = var then (case outer k of None \<Rightarrow> e k | v \<Rightarrow> v) else e k)"
  by (simp add: pass_var_def split: option.split)

lemma base_env_apply:
  "base_env settings outer k =
     (if k = ''GMX_WALLET_KEY'' \<or> k = ''GMX_SUBACCOUNT_KEY'' then None
      else if k = ''GMX_ACCOUNT'' then Some (execution_account settings)
      else if k = ''GMX_CHAIN_ID'' then Some (int_str (gmx_chain_id settings))
      else if startswith k secret_prefix then None else outer k)"
  by (auto simp: base_env_def Let_def passed_through_def pass_var_kept secret_prefix_def split: option.split)

text \<open>What the environment of a started process must be.\<close>

definition env_ok :: "'e machine \<Rightarrow> settings \<Rightarrow> process \<Rightarrow> bool" where
  "env_ok mc settings p \<longleftrightarrow>
     pc_env p ''GMX_WALLET_KEY'' = (if is_submit (pc_input p) then resolve_secret (mc_secrets mc) settings ''gmx_wallet_key'' else None)
     \<and> (is_submit (pc_input p) \<longrightarrow> pc_env p ''GMX_WALLET_KEY'' \<noteq> None)
     \<and> pc_env p ''GMX_SUBACCOUNT_KEY'' = None
     \<and> (\<forall>name. pc_env p (secret_prefix @ name) = None)
     \<and> pc_env p ''GMX_CHAIN_ID'' = Some (int_str (gmx_chain_id settings))
     \<and> pc_env p ''GMX_ACCOUNT'' = Some (execution_account settings)
     \<and> (\<forall>k. \<not> startswith k secret_prefix \<and> k \<notin> {''GMX_WALLET_KEY'', ''GMX_SUBACCOUNT_KEY'', ''GMX_CHAIN_ID'', ''GMX_ACCOUNT''}
          \<longrightarrow> pc_env p k = mc_environ mc k)"

lemma env_ok_process:
  assumes "process_env mc settings payload = Some e"
  shows "env_ok mc settings \<lparr>pc_argv = argv, pc_env = e, pc_input = payload\<rparr>"
  using assms
  by (auto simp: process_env_def Let_def env_ok_def base_env_apply secret_prefix_def startswith_iff split: if_splits)

lemma run_payload_started:
  assumes "run_payload mc settings payload (ps, x) = (j, ps1, x1)"
  shows "(ps1 = ps \<and> x1 = x \<and> (\<exists>text. j = Some (failure text))) \<or> (\<exists>p. ps1 = ps @ [p] \<and> pc_input p = payload \<and> env_ok mc settings p)"
  using assms env_ok_process
  by (fastforce simp: run_payload_def Let_def split: option.splits if_splits prod.splits)

text \<open>Isolation of the wallet key: running the sidecar either starts no process and answers with a failure, or starts
  exactly one, given this payload and an environment that holds the wallet key when and only when the payload is to
  submit, no other secret of the program, the configured venue and account, and otherwise the parent's variables.\<close>

theorem sidecar_environment_isolated:
  assumes "run_payload mc settings payload (ps, x) = (j, ps1, x1)"
  shows "ps1 = ps \<and> x1 = x \<and> (\<exists>text. j = Some (failure text)) \<or> (\<exists>p. ps1 = ps @ [p] \<and> pc_input p = payload \<and> env_ok mc settings p)"
  using assms by (rule run_payload_started)

section \<open>Relations between the worlds of an execution\<close>

text \<open>What holds of every effect of the executor, and composes, holds of the whole execution.\<close>

locale effect_relation =
  fixes R :: "'w world \<Rightarrow> 'w world \<Rightarrow> bool" and sc :: "'w sidecar" and ap :: "'w approver"
  assumes same [intro]: "R w w"
    and step [trans]: "R w w1 \<Longrightarrow> R w1 w2 \<Longrightarrow> R w w2"
    and of_audit: "R w (audit ts act ph key pl w)"
    and of_trip: "R w (trip_kill_switch rsn ts w)"
    and of_sidecar: "call_sidecar sc req w = (r, w1) \<Longrightarrow> R w w1"
    and of_approval: "call_approval ap k m w = (d, w1) \<Longrightarrow> R w w1"
begin

lemma audited: "R w w1 \<Longrightarrow> R w (audit ts act ph key pl w1)"
  by (erule step) (rule of_audit)

lemma tripped: "R w w1 \<Longrightarrow> R w (trip_kill_switch rsn ts w1)"
  by (erule step) (rule of_trip)

lemma called: "call_sidecar sc req w1 = (r, w2) \<Longrightarrow> R w w1 \<Longrightarrow> R w w2"
  by (erule (1) step [rotated, OF of_sidecar])

lemma asked: "call_approval ap k m w1 = (d, w2) \<Longrightarrow> R w w1 \<Longrightarrow> R w w2"
  by (erule (1) step [rotated, OF of_approval])

lemma verify: "R w w1 \<Longrightarrow> R w (fst (verify_stage sc i now key resp w1))"
  by (auto simp: verify_stage_def split: prod.split option.split bool.split intro!: audited tripped intro: called)

lemma submit: "R w w1 \<Longrightarrow> R w (fst (submit_stage sc i now key plan d w1))"
  by (auto simp: submit_stage_def Let_def split: prod.split option.split intro!: audited tripped intro: called audited verify)

lemma approve: "R w w1 \<Longrightarrow> R w (fst (approval_stage sc ap i now du np key plan w1))"
  by (auto simp: approval_stage_def split: prod.split option.split intro!: audited intro: asked submit)

lemma prepare: "R w w1 \<Longrightarrow> R w (fst (prepare_stage sc ap i live now du np key w1))"
  by (auto simp: prepare_stage_def blocked_def Let_def split: prod.split option.split intro!: audited intro: called audited approve)

lemma execution: "R w (fst (execute_instruction sha settings sc ap i arm_flag now du np w))"
  by (rule execute_cases [of w sha i now settings sc ap arm_flag du np])
    (auto simp: blocked_def intro!: audited intro: prepare)

end

section \<open>The key and the gates\<close>

text \<open>Asking for an approval starts no process of the sidecar.\<close>

definition apart :: "'e approver \<Rightarrow> 'e started approver" where
  "apart ap i m w = (case ap i m (snd w) of (d, e) \<Rightarrow> (d, fst w, e))"

definition has_key :: "process \<Rightarrow> bool" where
  "has_key p \<longleftrightarrow> pc_env p ''GMX_WALLET_KEY'' \<noteq> None"

text \<open>The processes started from \<open>w\<close> to \<open>w1\<close> are sound, and one with the key goes with a submission in the trace.\<close>

definition keyed :: "'e machine \<Rightarrow> settings \<Rightarrow> 'e started world \<Rightarrow> 'e started world \<Rightarrow> bool" where
  "keyed mc settings w w1 \<longleftrightarrow> (\<exists>ps tr. fst (env w1) = fst (env w) @ ps \<and> trace w1 = trace w @ tr
     \<and> list_all (env_ok mc settings) ps \<and> (list_ex has_key ps \<longrightarrow> list_ex submit_effect tr))"

lemma keyed_trans: "keyed mc settings w w1 \<Longrightarrow> keyed mc settings w1 w2 \<Longrightarrow> keyed mc settings w w2"
  unfolding keyed_def by (elim exE) (fastforce intro: exI [of _ "_ @ _"])

lemma env_ok_key:
  assumes "env_ok mc settings p"
  shows "has_key p \<longleftrightarrow> is_submit (pc_input p)"
proof -
  have "\<not> is_submit (pc_input p) \<Longrightarrow> \<not> has_key p" "is_submit (pc_input p) \<Longrightarrow> has_key p"
    using assms unfolding env_ok_def has_key_def by (simp, blast)
  then show ?thesis by blast
qed

lemma is_submit_payload: "is_submit (payload_of req) \<longleftrightarrow> submit_effect (SidecarEff req)"
  by (cases req) (simp_all add: is_submit_def payload_of_def submit_effect_def get_def)

lemma keyed_sidecar:
  assumes "call_sidecar (production_sidecar mc settings) req w = (r, w1)"
  shows "keyed mc settings w w1"
proof -
  obtain j ps x where run: "run_payload mc settings (payload_of req) (fst (env w), snd (env w)) = (j, ps, x)"
    by (metis prod_cases3)
  have "trace w1 = trace w @ [SidecarEff req]" "env w1 = (ps, x)"
    using assms run by (auto simp: call_sidecar_def production_sidecar_def split: json.splits option.splits)
  then show ?thesis
    using run_payload_started [OF run] is_submit_payload [of req]
    by (auto simp: keyed_def env_ok_key)
qed

interpretation key_trail: effect_relation "keyed mc settings" "production_sidecar mc settings" "apart ap"
proof unfold_locales
  show "keyed mc settings w w1 \<Longrightarrow> keyed mc settings w1 w2 \<Longrightarrow> keyed mc settings w w2" for w w1 w2 by (rule keyed_trans)
  show "call_sidecar (production_sidecar mc settings) req w = (r, w1) \<Longrightarrow> keyed mc settings w w1" for req w r w1
    by (rule keyed_sidecar)
qed (auto simp: keyed_def audit_def trip_kill_switch_def call_approval_def apart_def split: prod.splits)

lemma key_gates:
  assumes "p \<in> set (drop (List.length (fst (env w))) (fst (env (fst
      (execute_instruction sha settings (production_sidecar mc settings) (apart ap) i arm_flag now du np w)))))" "has_key p"
  shows "env_ok mc settings p \<and> kill_file w = None \<and> arm_flag \<and> armed_until now w
    \<and> check_limits settings (database w) now (i_market i) np du = Allowed
    \<and> stored_confirmation (database w) (idempotency_key sha i now) = None
    \<and> approval_granted (apart ap) i du np (idempotency_key sha i now)"
proof -
  let ?w1 = "fst (execute_instruction sha settings (production_sidecar mc settings) (apart ap) i arm_flag now du np w)"
  obtain ps tr where k: "fst (env ?w1) = fst (env w) @ ps" "trace ?w1 = trace w @ tr" "list_all (env_ok mc settings) ps"
    "list_ex has_key ps \<longrightarrow> list_ex submit_effect tr"
    using key_trail.execution [of mc settings w sha settings ap i arm_flag now du np] unfolding keyed_def by blast
  have p: "p \<in> set ps" using assms(1) k(1) by simp
  with assms(2) have "list_ex has_key ps" by (auto simp: list_ex_iff)
  with k have "list_ex submit_effect tr" by blast
  from submission_gates [OF k(2) this] k(3) p show ?thesis by (simp add: list_all_iff)
qed

text \<open>C2. The wallet key leaves only through the gates: if any process started by an execution with the production
  sidecar holds the wallet key, then there was no kill-switch file, the arm flag was given and the armed state had
  not expired, the limits allowed the order, it had not been confirmed before and the approval was granted for
  exactly this instruction; and what that process was given is sound in every other respect.\<close>

theorem wallet_key_only_through_gates:
  assumes "p \<in> set (drop (List.length (fst (env w))) (fst (env (fst
      (execute_instruction sha settings (production_sidecar mc settings) (apart ap) i arm_flag now du np w)))))"
    "pc_env p ''GMX_WALLET_KEY'' \<noteq> None"
  shows "env_ok mc settings p \<and> kill_file w = None \<and> arm_flag \<and> armed_until now w
    \<and> check_limits settings (database w) now (i_market i) np du = Allowed
    \<and> stored_confirmation (database w) (idempotency_key sha i now) = None
    \<and> approval_granted (apart ap) i du np (idempotency_key sha i now)"
  using key_gates assms by (simp add: has_key_def)

section \<open>Examples\<close>

definition test_machine :: "unit machine" where
  "test_machine = \<lparr>mc_environ = [''GMX_WALLET_KEY'' \<mapsto> ''stale'', ''PATH'' \<mapsto> ''/bin''],
     mc_secrets = \<lparr>keyring_get = (\<lambda>_. Some (Some ''0xkey'')), env_get = (\<lambda>_. None)\<rparr>, mc_node = Some ''/bin/node'',
     mc_root = ''/app'', mc_exists = (\<lambda>_. True), mc_spawn = (\<lambda>_ _. (Exited 0 [] [], ())),
     mc_loads = (\<lambda>_. Inr (JObj [(''ok'', JBool True), (''orders'', JArr [])]))\<rparr>"

definition key_world :: "unit started world" where
  "key_world = \<lparr>database = empty_store, kill_file = None, armed_file = Some (ArmedState 0 9000000000), env = ([], ()), trace = []\<rparr>"

definition test_process :: "sidecar_request \<Rightarrow> process" where
  "test_process req = \<lparr>pc_argv = [''/bin/node'', script_path test_machine],
     pc_env = the (process_env test_machine default_settings (payload_of req)), pc_input = payload_of req\<rparr>"

lemma test_secret: "resolve_secret (mc_secrets test_machine) default_settings name = Some ''0xkey''"
  by (simp add: test_machine_def resolve_secret_def default_settings_def chain_provider_def keyring_provider_def or_none_def)

lemma test_sidecar_call:
  "production_sidecar test_machine default_settings req (ps, ())
     = (Some [(''ok'', JBool True), (''orders'', JArr [])], ps @ [test_process req], ())"
proof -
  have "process_env test_machine default_settings (payload_of req) \<noteq> None"
    using test_secret by (simp add: process_env_def Let_def)
  then show ?thesis
    by (auto simp: production_sidecar_def run_payload_def test_process_def Let_def answer_of_def test_machine_def)
qed

lemma sidecar_environment_isolated_witness:
  "[] = ([] :: process list) \<and> () = () \<and> (\<exists>text. Some (JObj [(''ok'', JBool True), (''orders'', JArr [])]) = Some (failure text))
   \<or> (\<exists>p. [test_process ReadOrdersReq] = [] @ [p] \<and> pc_input p = payload_of ReadOrdersReq \<and> env_ok test_machine default_settings p)"
proof -
  have "run_payload test_machine default_settings (payload_of ReadOrdersReq) ([], ())
      = (Some (JObj [(''ok'', JBool True), (''orders'', JArr [])]), [test_process ReadOrdersReq], ())"
    using test_sidecar_call [of ReadOrdersReq "[]"]
    by (auto simp: production_sidecar_def failure_def split: json.splits prod.splits option.splits)
  from sidecar_environment_isolated [OF this] show ?thesis by simp
qed

lemma wallet_key_only_through_gates_witness:
  "env_ok test_machine default_settings (test_process (SubmitReq test_order (idempotency_key id test_order test_now)))
   \<and> kill_file key_world = None \<and> True \<and> armed_until test_now key_world
   \<and> check_limits default_settings (database key_world) test_now (i_market test_order) (dint 0) (dint 0) = Allowed
   \<and> stored_confirmation (database key_world) (idempotency_key id test_order test_now) = None
   \<and> approval_granted (apart yes_approver) test_order (dint 0) (dint 0) (idempotency_key id test_order test_now)"
proof (rule wallet_key_only_through_gates)
  let ?k = "idempotency_key id test_order test_now"
  have gates: "stored_confirmation (database key_world) ?k = None" "kill_file key_world = None" "armed_until test_now key_world"
    "check_limits default_settings (database key_world) test_now (i_market test_order) (dint 0) (dint 0) = Allowed"
    using test_gates by (simp_all add: key_world_def test_world_def armed_until_def)
  let ?ans = "[(''ok'', JBool True), (''orders'', JArr [])]"
  have "\<exists>w'. execute_instruction id default_settings (production_sidecar test_machine default_settings)
      (apart yes_approver) test_order True test_now (dint 0) (dint 0) key_world
        = (w', Some ((result SConfirmed DConfirmed ?k)\<lparr>x_response := Some ?ans\<rparr>))
    \<and> stored_confirmation (database w') ?k = Some ?ans
    \<and> env w' = ([test_process (PrepareReq test_order), test_process (SubmitReq test_order ?k), test_process ReadOrdersReq], ())
    \<and> kill_file w' = None \<and> submission_times (database w') = submission_times (database key_world) @ [test_now]"
    by (rule execution_goes_through [OF gates, where prepared = ?ans and orders = ?ans
          and ?e1.0 = "([test_process (PrepareReq test_order)], ())" and ?e2.0 = "([test_process (PrepareReq test_order)], ())"
          and ?e3.0 = "([test_process (PrepareReq test_order), test_process (SubmitReq test_order ?k)], ())"
          and d = "\<lparr>approved = True, why = ApprovedVia ''approve''\<rparr>"])
      (simp_all add: test_sidecar_call apart_def yes_approver_def truthy_def get_default_def get_def
        postconditions_hold_def json_items_def order_lookup_def, simp add: key_world_def test_sidecar_call)
  then show "test_process (SubmitReq test_order ?k) \<in> set (drop (List.length (fst (env key_world))) (fst (env (fst
      (execute_instruction id default_settings (production_sidecar test_machine default_settings) (apart yes_approver)
         test_order True test_now (dint 0) (dint 0) key_world)))))"
    by (auto simp: key_world_def)
  show "pc_env (test_process (SubmitReq test_order ?k)) ''GMX_WALLET_KEY'' \<noteq> None"
    using test_secret by (simp add: test_process_def process_env_def Let_def is_submit_payload submit_effect_def)
qed

end
