(* ===== verification/Privileged.thy ===== *)
theory Privileged
  imports Strategy Rpc Sidecar
begin

text \<open>
  The \<open>execute\<close> commands of \<open>cli.py\<close> over the executor: arming, the status, and the three orders with the
  production sidecar and the approval asked over ntfy. An exception nobody catches is \<open>CmdRaised\<close>.
\<close>

section \<open>Commands\<close>

datatype execute_command =
    ArmCommand "int option"
  | StatusCommand
  | SetSlCommand string "string option" bool
  | ResizeCommand string bool
  | CancelCommand string bool

record execute_status =
  es_armed :: bool
  es_armed_reason :: "reason option"
  es_kill_switch :: bool
  es_kill_reason :: "reason option"

datatype command_end =
    CmdRaised
  | CmdArmRefused reason
  | CmdArmed
  | CmdStatus execute_status
  | CmdDatabaseMissing
  | CmdHalted reason
  | CmdNoOrder
  | CmdNoState
  | CmdExecuted execution_result

definition command_exit :: "command_end \<Rightarrow> int option" where
  "command_exit r = (case r of
     CmdRaised \<Rightarrow> None
   | CmdArmed \<Rightarrow> Some 0 | CmdStatus _ \<Rightarrow> Some 0
   | CmdHalted _ \<Rightarrow> Some 3
   | CmdExecuted x \<Rightarrow>
       Some (if x_status x \<in> {SDryRun, SConfirmed, SReplayed} then 0 else if x_status x = SFailed then 1 else 3)
   | _ \<Rightarrow> Some 1)"

definition gate_reason :: "gate \<Rightarrow> reason option" where
  "gate_reason g = (case g of Allowed \<Rightarrow> None | Refused r \<Rightarrow> Some r)"

definition status_of :: "instant \<Rightarrow> 'e world \<Rightarrow> command_end" where
  "status_of now w =
     (case check_armed True now w of
        None \<Rightarrow> CmdRaised
      | Some armed \<Rightarrow> CmdStatus \<lparr>es_armed = (armed = Allowed), es_armed_reason = gate_reason armed,
            es_kill_switch = (check_kill_switch w \<noteq> Allowed), es_kill_reason = gate_reason (check_kill_switch w)\<rparr>)"

text \<open>\<open>None\<close> raises.\<close>

definition current_short_usd :: "(json \<Rightarrow> string) \<Rightarrow> store \<Rightarrow> decimal option" where
  "current_short_usd repr db =
     (case newest_open_state KPerp db of
        None \<Rightarrow> Some (dint 0)
      | Some st \<Rightarrow>
          (let v = get_default st ''size_usd'' JNull
           in if truthy v then text_to_decimal (text_of repr v) else Some (dint 0)))"

text \<open>Without a topic nobody can be asked.\<close>

definition cli_approval :: "string option \<Rightarrow> (string \<Rightarrow> 'e approver) \<Rightarrow> 'e approver" where
  "cli_approval topic ask i m e =
     (case topic of None \<Rightarrow> (Some \<lparr>approved = False, why = NoNtfyTopic\<rparr>, e) | Some t \<Rightarrow> ask t i m e)"

text \<open>The order a retarget without a key stands for: the first of the open orders, or none, or an exception.\<close>

definition first_order_key :: "(json \<Rightarrow> string) \<Rightarrow> dict \<Rightarrow> string option option" where
  "first_order_key repr answer =
     (let orders = (if truthy (get_default answer ''ok'' JNull) then get_default answer ''orders'' (JArr []) else JArr [])
      in if \<not> truthy orders then Some None
         else (case orders of
                 JArr (JObj d # _) \<Rightarrow> map_option (\<lambda>v. Some (text_of repr v)) (get d ''key'')
               | _ \<Rightarrow> None))"

text \<open>Building the instruction validates it; an instruction that is refused raises.\<close>

definition run_order :: "(string \<Rightarrow> string) \<Rightarrow> settings \<Rightarrow> 'e sidecar \<Rightarrow> 'e approver \<Rightarrow> order_instruction \<Rightarrow> bool \<Rightarrow> instant
    \<Rightarrow> decimal option \<Rightarrow> decimal option \<Rightarrow> 'e world \<Rightarrow> 'e world \<times> command_end" where
  "run_order sha settings sc ap i arm_flag now delta_usd new_position w =
     (case (required_params i, delta_usd, new_position) of
        (Inr j, Some du, Some np) \<Rightarrow>
          (case execute_instruction sha settings sc ap j arm_flag now du np w of
             (w1, None) \<Rightarrow> (w1, CmdRaised)
           | (w1, Some x) \<Rightarrow> (w1, CmdExecuted x))
      | _ \<Rightarrow> (w, CmdRaised))"

definition instruction_of :: "action \<Rightarrow> decimal option \<Rightarrow> decimal option \<Rightarrow> string option \<Rightarrow> order_instruction" where
  "instruction_of a price target key =
     \<lparr>i_action = a, i_market = market_default, i_trigger_price = price, i_target_eth = target, i_order_key = key\<rparr>"

definition set_sl :: "(string \<Rightarrow> string) \<Rightarrow> (json \<Rightarrow> string) \<Rightarrow> settings \<Rightarrow> 'e sidecar \<Rightarrow> 'e approver \<Rightarrow> string \<Rightarrow> string \<Rightarrow> bool \<Rightarrow> instant
    \<Rightarrow> 'e world \<Rightarrow> 'e world \<times> command_end" where
  "set_sl sha repr settings sc ap price key arm_flag now w =
     (case text_to_decimal price of
        None \<Rightarrow> (w, CmdRaised)
      | Some p \<Rightarrow> run_order sha settings sc ap (instruction_of SetSlTrigger (Some p) None (Some key)) arm_flag now
                   (Some (dint 0)) (current_short_usd repr (database w)) w)"

definition set_sl_command :: "(string \<Rightarrow> string) \<Rightarrow> (json \<Rightarrow> string) \<Rightarrow> settings \<Rightarrow> 'e sidecar \<Rightarrow> 'e approver \<Rightarrow> string \<Rightarrow> string option \<Rightarrow> bool \<Rightarrow> instant
    \<Rightarrow> 'e world \<Rightarrow> 'e world \<times> command_end" where
  "set_sl_command sha repr settings sc ap price key arm_flag now w =
     (case key of
        Some k \<Rightarrow> set_sl sha repr settings sc ap price k arm_flag now w
      | None \<Rightarrow>
          (case check_kill_switch w of
             Refused r \<Rightarrow> (w, CmdHalted r)
           | Allowed \<Rightarrow>
               (case call_sidecar sc ReadOrdersReq w of
                  (None, w1) \<Rightarrow> (w1, CmdRaised)
                | (Some answer, w1) \<Rightarrow>
                    (case first_order_key repr answer of
                       None \<Rightarrow> (w1, CmdRaised)
                     | Some None \<Rightarrow> (w1, CmdNoOrder)
                     | Some (Some k) \<Rightarrow> set_sl sha repr settings sc ap price k arm_flag now w1))))"

definition resize_command :: "(string \<Rightarrow> string) \<Rightarrow> settings \<Rightarrow> 'e sidecar \<Rightarrow> 'e approver \<Rightarrow> string \<Rightarrow> bool \<Rightarrow> instant
    \<Rightarrow> 'e world \<Rightarrow> 'e world \<times> command_end" where
  "resize_command sha settings sc ap target_eth arm_flag now w =
     (case latest_inputs (database w) of
        None \<Rightarrow> (w, CmdRaised)
      | Some None \<Rightarrow> (w, CmdNoState)
      | Some (Some (lp, short, price)) \<Rightarrow>
          (let current = (case short of Some s \<Rightarrow> size_eth s | None \<Rightarrow> dint 0)
           in case text_to_decimal target_eth of
                None \<Rightarrow> (w, CmdRaised)
              | Some target \<Rightarrow> run_order sha settings sc ap (instruction_of ResizeShort None (Some target) None) arm_flag now
                   (Some (dmul 28 (dabs 28 (dsub 28 target current)) price)) (Some (dmul 28 target price)) w))"

definition cancel_command :: "(string \<Rightarrow> string) \<Rightarrow> (json \<Rightarrow> string) \<Rightarrow> settings \<Rightarrow> 'e sidecar \<Rightarrow> 'e approver \<Rightarrow> string \<Rightarrow> bool \<Rightarrow> instant
    \<Rightarrow> 'e world \<Rightarrow> 'e world \<times> command_end" where
  "cancel_command sha repr settings sc ap key arm_flag now w =
     run_order sha settings sc ap (instruction_of CancelOrder None None (Some key)) arm_flag now
       (Some (dint 0)) (current_short_usd repr (database w)) w"

text \<open>\<open>have_db\<close>: the database file exists. Arming without one is not audited.\<close>

definition execute_main :: "(string \<Rightarrow> string) \<Rightarrow> (json \<Rightarrow> string) \<Rightarrow> settings \<Rightarrow> 'e sidecar \<Rightarrow> 'e approver \<Rightarrow> bool \<Rightarrow> execute_command
    \<Rightarrow> instant \<Rightarrow> 'e world \<Rightarrow> 'e world \<times> command_end" where
  "execute_main sha repr settings sc ap have_db c now w =
     (case c of
        ArmCommand ttl \<Rightarrow>
          (case arm settings ttl now w of
             Inl r \<Rightarrow> (w, CmdArmRefused r)
           | Inr w1 \<Rightarrow> (if have_db then arm_command settings ttl now w else w1, CmdArmed))
      | StatusCommand \<Rightarrow> (w, status_of now w)
      | _ \<Rightarrow>
          if \<not> have_db then (w, CmdDatabaseMissing)
          else (case c of
                  SetSlCommand price key arm_flag \<Rightarrow> set_sl_command sha repr settings sc ap price key arm_flag now w
                | ResizeCommand target arm_flag \<Rightarrow> resize_command sha settings sc ap target arm_flag now w
                | CancelCommand key arm_flag \<Rightarrow> cancel_command sha repr settings sc ap key arm_flag now w
                | _ \<Rightarrow> (w, CmdRaised)))"

section \<open>While the kill switch is tripped\<close>

text \<open>What a command of a tripped system may have done: written to the audit trail.\<close>

definition halted :: "'e world \<Rightarrow> 'e world \<Rightarrow> bool" where
  "halted w w1 \<longleftrightarrow> env w1 = env w \<and> kill_file w1 = kill_file w \<and> armed_file w1 = armed_file w
     \<and> submission_times (database w1) = submission_times (database w)"

lemma halted_refl [simp]: "halted w w"
  by (simp add: halted_def)

lemma run_order_halted:
  assumes "kill_file w \<noteq> None" "run_order sha settings sc ap i f now du np w = (w1, r)"
  shows "halted w w1 \<and> (command_exit r = Some 0 \<longrightarrow> (\<exists>x. r = CmdExecuted x \<and> x_status x = SReplayed))"
proof -
  have "halted w (fst (execute_instruction sha settings sc ap j f now d p w))
      \<and> (\<exists>x. snd (execute_instruction sha settings sc ap j f now d p w) = Some x \<and> x_status x \<in> {SBlocked, SReplayed})" for j d p
    by (rule execute_cases [of w sha j now settings sc ap f d p])
      (use assms(1) in \<open>auto simp: halted_def audit_def blocked_def result_def store_simps\<close>)
  note ex = this
  consider (raised) "w1 = w" "r = CmdRaised"
    | (ran) j d p where "execute_instruction sha settings sc ap j f now d p w = (w1, case r of CmdExecuted x \<Rightarrow> Some x | _ \<Rightarrow> None)"
      "r = CmdRaised \<or> (\<exists>x. r = CmdExecuted x)"
    using assms(2) by (auto simp: run_order_def split: sum.splits option.splits prod.splits)
  then show ?thesis
  proof cases
    case ran
    with ex [of j d p] show ?thesis by (auto simp: command_exit_def)
  qed (simp add: command_exit_def)
qed

lemma command_halted:
  assumes "kill_file w \<noteq> None" "execute_main sha repr settings sc ap have_db c now w = (w1, r)"
  shows "halted w w1 \<and> (command_exit r = Some 0 \<longrightarrow> c = StatusCommand \<or> (\<exists>x. r = CmdExecuted x \<and> x_status x = SReplayed))"
proof -
  have k: "check_kill_switch w \<noteq> Allowed" "check_kill_switch w = Refused KillSwitchPresent"
    using assms(1) by (simp_all add: check_kill_switch_def)
  have sl: "halted w w2 \<and> (command_exit r2 = Some 0 \<longrightarrow> (\<exists>x. r2 = CmdExecuted x \<and> x_status x = SReplayed))"
    if "set_sl sha repr settings sc ap p key f now w = (w2, r2)" for p key f w2 r2
    using that run_order_halted [OF assms(1)]
    by (auto simp: set_sl_def command_exit_def split: option.splits)
  show ?thesis
  proof (cases c)
    case (ArmCommand ttl)
    with assms(2) k show ?thesis by (auto simp: execute_main_def arm_def command_exit_def split: gate.splits)
  next
    case StatusCommand
    with assms(2) show ?thesis by (auto simp: execute_main_def)
  next
    case (SetSlCommand p key f)
    with assms(2) k sl show ?thesis
      by (auto simp: execute_main_def set_sl_command_def command_exit_def split: if_splits option.splits)
  next
    case (ResizeCommand t f)
    with assms(2) run_order_halted [OF assms(1)] show ?thesis
      by (auto simp: execute_main_def resize_command_def Let_def command_exit_def split: if_splits option.splits)
  next
    case (CancelCommand key f)
    with assms(2) run_order_halted [OF assms(1)] show ?thesis
      by (auto simp: execute_main_def cancel_command_def command_exit_def split: if_splits)
  qed
qed

text \<open>C8. A tripped kill switch halts every privileged command: whatever is asked, neither the sidecar nor the
  approval is called (the retarget that looks its order up included), nothing is submitted, the armed state and the
  kill switch stay as they are; and only the status and the replay of a recorded decision exit with 0.\<close>

theorem tripped_commands_do_nothing:
  assumes "kill_file w \<noteq> None" "execute_main sha repr settings sc ap have_db c now w = (w1, r)"
  shows "env w1 = env w \<and> kill_file w1 = kill_file w \<and> armed_file w1 = armed_file w
    \<and> submission_times (database w1) = submission_times (database w)
    \<and> (command_exit r = Some 0 \<longrightarrow> c = StatusCommand \<or> (\<exists>x. r = CmdExecuted x \<and> x_status x = SReplayed))"
  using command_halted [OF assms] by (simp add: halted_def)

section \<open>The exit code of an armed order\<close>

fun arms :: "execute_command \<Rightarrow> bool" where
  "arms (SetSlCommand _ _ f) = f"
| "arms (ResizeCommand _ f) = f"
| "arms (CancelCommand _ f) = f"
| "arms _ = False"

lemma prepare_live_confirms:
  assumes "prepare_stage sc ap i True now du np key w = (w1, Some x)" "x_status x \<in> {SDryRun, SConfirmed, SReplayed}"
  shows "\<exists>resp. x_response x = Some resp \<and> x_key x = key \<and> stored_confirmation (database w1) key = Some resp"
proof -
  have "x_status x = SConfirmed"
    using assms
    by (auto simp: prepare_stage_def approval_stage_def submit_stage_def verify_stage_def Let_def blocked_def result_def
        split: prod.splits option.splits bool.splits if_splits)
  with assms(1) show ?thesis by (intro prepare_confirms)
qed

lemma run_order_confirmed:
  assumes "run_order sha settings sc ap i True now du np w = (w1, CmdExecuted x)" "command_exit (CmdExecuted x) = Some 0"
  shows "\<exists>resp. x_response x = Some resp \<and> x_key x = idempotency_key sha i now
    \<and> stored_confirmation (database w1) (x_key x) = Some resp"
proof -
  obtain d p where ex: "execute_instruction sha settings sc ap i True now d p w = (w1, Some x)"
    using assms(1) by (auto simp: run_order_def required_params_def Let_def split: sum.splits option.splits prod.splits if_splits)
  have st: "x_status x \<in> {SDryRun, SConfirmed, SReplayed}" using assms(2) by (auto simp: command_exit_def split: if_splits)
  have "\<exists>resp. x_response x = Some resp \<and> x_key x = idempotency_key sha i now
    \<and> stored_confirmation (database w1) (idempotency_key sha i now) = Some resp"
  proof (rule execute_cases [of w sha i now settings sc ap True d p])
    fix live
    assume "live \<longleftrightarrow> True \<and> armed_until now w" "True \<Longrightarrow> live" "execute_instruction sha settings sc ap i True now d p w
      = prepare_stage sc ap i live now d p (idempotency_key sha i now) (intent_world sha i True now w)"
    with ex st show ?thesis by (intro prepare_live_confirms) auto
  qed (use ex st in \<open>auto simp: blocked_def result_def gate_simps\<close>)
  then show ?thesis by auto
qed

text \<open>C30. Exit code 0 of an armed order means it is confirmed on record: the decision has a stored confirmation, whose
  response is the one reported; a rehearsal never passes for it.\<close>

theorem armed_success_is_confirmed:
  assumes "execute_main sha repr settings sc ap have_db c now w = (w1, CmdExecuted x)" "arms c" "command_exit (CmdExecuted x) = Some 0"
  shows "\<exists>resp. x_response x = Some resp \<and> stored_confirmation (database w1) (x_key x) = Some resp"
proof -
  have "\<exists>i du np v. run_order sha settings sc ap i True now du np v = (w1, CmdExecuted x)"
    using assms(1,2)
    by (cases c) (auto simp: execute_main_def set_sl_command_def set_sl_def resize_command_def cancel_command_def Let_def
        split: if_splits option.splits gate.splits prod.splits)
  with run_order_confirmed assms(3) show ?thesis by blast
qed

section \<open>Examples\<close>

definition tripped_world :: "unit world" where
  "tripped_world = test_world\<lparr>kill_file := Some []\<rparr>"

definition tripped_run :: "unit world \<times> command_end" where
  "tripped_run = execute_main id (\<lambda>_. []) default_settings test_sidecar yes_approver True (SetSlCommand ''2500'' None True) test_now tripped_world"

lemma tripped_commands_do_nothing_witness:
  "env (fst tripped_run) = env tripped_world \<and> kill_file (fst tripped_run) = kill_file tripped_world
    \<and> armed_file (fst tripped_run) = armed_file tripped_world
    \<and> submission_times (database (fst tripped_run)) = submission_times (database tripped_world)"
proof -
  have "kill_file tripped_world \<noteq> None" by (simp add: tripped_world_def)
  from tripped_commands_do_nothing [OF this, of id "\<lambda>_. []" default_settings test_sidecar yes_approver True
      "SetSlCommand ''2500'' None True" test_now "fst tripped_run" "snd tripped_run"]
  show ?thesis by (simp add: tripped_run_def)
qed

lemma test_cancel:
  "\<exists>w1 x. execute_main id (\<lambda>_. []) default_settings test_sidecar yes_approver True (CancelCommand test_key True) test_now test_world
     = (w1, CmdExecuted x) \<and> command_exit (CmdExecuted x) = Some 0"
proof -
  have i: "instruction_of CancelOrder None None (Some test_key) = test_order" "required_params test_order = Inr test_order"
    by (simp_all add: instruction_of_def test_order_def market_default_def required_params_iff test_key_def)
  have s: "current_short_usd (\<lambda>_. []) (database test_world) = Some (dint 0)"
    by (simp add: current_short_usd_def test_world_def empty_store_def newest_open_state_def)
  have "\<exists>w'. test_run = (w', Some ((result SConfirmed DConfirmed (idempotency_key id test_order test_now))
        \<lparr>x_response := Some [(''ok'', JBool True), (''tx'', JStr ''0xabc'')]\<rparr>))
     \<and> stored_confirmation (database w') (idempotency_key id test_order test_now) = Some [(''ok'', JBool True), (''tx'', JStr ''0xabc'')]
     \<and> env w' = () \<and> kill_file w' = None
     \<and> submission_times (database w') = submission_times (database test_world) @ [test_now]"
    by (rule execution_goes_through [where prepared = "[(''ok'', JBool True), (''plan'', JObj [])]"
          and d = "\<lparr>approved = True, why = ApprovedVia ''approve''\<rparr>"
          and orders = "[(''ok'', JBool True), (''orders'', JArr [])]", OF test_gates(1,2,3,5)])
      (simp_all add: test_sidecar_def yes_approver_def truthy_def get_default_def get_def
        postconditions_hold_def json_items_def order_lookup_def test_order_def)
  then obtain w' x where r: "test_run = (w', Some x)" "x_status x = SConfirmed" by (auto simp: result_def)
  have "execute_main id (\<lambda>_. []) default_settings test_sidecar yes_approver True (CancelCommand test_key True) test_now test_world
      = (w', CmdExecuted x)"
    by (simp add: execute_main_def cancel_command_def run_order_def i s r(1))
  with r(2) show ?thesis by (auto simp: command_exit_def)
qed

definition test_command :: "unit world \<times> command_end" where
  "test_command = execute_main id (\<lambda>_. []) default_settings test_sidecar yes_approver True (CancelCommand test_key True) test_now test_world"

lemma armed_success_is_confirmed_witness:
  "\<exists>x resp. snd test_command = CmdExecuted x
     \<and> x_response x = Some resp \<and> stored_confirmation (database (fst test_command)) (x_key x) = Some resp"
proof -
  obtain w1 x where t: "execute_main id (\<lambda>_. []) default_settings test_sidecar yes_approver True (CancelCommand test_key True) test_now test_world
     = (w1, CmdExecuted x)" "command_exit (CmdExecuted x) = Some 0"
    using test_cancel by blast
  have "\<exists>resp. x_response x = Some resp \<and> stored_confirmation (database w1) (x_key x) = Some resp"
    by (rule armed_success_is_confirmed [OF t(1) _ t(2)]) simp
  with t(1) show ?thesis by (simp add: test_command_def)
qed

section \<open>Which order a retarget takes\<close>

text \<open>Without a key the retarget takes the first open order, whatever its type.\<close>

lemma retarget_takes_any_order:
  "first_order_key repr [(''ok'', JBool True), (''orders'', JArr (JObj [(''key'', JStr k), (''order_type'', JInt t)] # rest))] = Some (Some k)"
  by (simp add: first_order_key_def get_default_def get_def truthy_def text_of_def str_of_def)

end
