(* ===== verification/Checks.thy ===== *)
theory Checks
  imports Privileged Cycle Alerts Migrations
begin

text \<open>
  The health checks of \<open>cli.py\<close>: nine named checks whose texts begin with \<open>ok\<close> when they pass, offline and over
  the network, and the \<open>healthcheck\<close> command. What the machine answers (SQLite's integrity checks, the write probe
  of the data directory, \<open>git status\<close>) is a record; \<open>py_repr\<close> is Python's \<open>repr\<close> of a text.
\<close>

section \<open>Offline checks\<close>

datatype checkout = NoCheckout | NoGit | GitFailed string | GitRan int string string

record 'd installation =
  in_have_db :: bool
  in_schema :: "'d database"
  in_catalogue :: catalogue
  in_integrity :: string
  in_orphans :: bool
  in_data_dir :: string
  in_write_error :: "string option"
  in_secrets :: secret_sources
  in_git :: checkout

definition quoted :: "string \<Rightarrow> string" where
  "quoted s = [CHR 0x27] @ s @ [CHR 0x27]"

definition db_missing :: string where
  "db_missing = ''fail: database missing '' @ dash @ '' run `dexpaprika db migrate`''"

definition check_secrets_present :: "'d installation \<Rightarrow> settings \<Rightarrow> string" where
  "check_secrets_present inst settings =
     (case resolve_secret (in_secrets inst) settings ''ntfy_topic'' of
        None \<Rightarrow> ''fail: secret '' @ quoted ''ntfy_topic'' @ '' not resolvable '' @ dash @ '' store it in the OS keyring (service ''
          @ quoted ''dexpaprika'' @ '') or set DEXPAPRIKA_SECRET_NTFY_TOPIC''
      | Some _ \<Rightarrow> ''ok'')"

definition check_data_dir_writable :: "'d installation \<Rightarrow> string" where
  "check_data_dir_writable inst =
     (case in_write_error inst of
        None \<Rightarrow> ''ok''
      | Some e \<Rightarrow> ''fail: cannot write to data dir '' @ in_data_dir inst @ '': '' @ e)"

definition check_db_integrity :: "(string \<Rightarrow> string) \<Rightarrow> 'd installation \<Rightarrow> string" where
  "check_db_integrity py_repr inst =
     (if \<not> in_have_db inst then db_missing
      else if in_integrity inst \<noteq> ''ok''
      then ''fail: integrity_check reports '' @ py_repr (in_integrity inst) @ '' '' @ dash @ '' restore from backup''
      else if in_orphans inst then ''fail: foreign_key_check found orphaned rows '' @ dash @ '' restore from backup''
      else ''ok'')"

definition check_migrations_current :: "'d installation \<Rightarrow> string" where
  "check_migrations_current inst =
     (if \<not> in_have_db inst then db_missing
      else let outstanding = pending (in_catalogue inst) (in_schema inst)
           in if outstanding \<noteq> []
              then ''fail: '' @ nat_str (List.length outstanding) @ '' pending migration(s) '' @ dash @ '' run `dexpaprika db migrate`''
              else ''ok'')"

definition check_last_snapshot_age :: "'d installation \<Rightarrow> settings \<Rightarrow> instant \<Rightarrow> store \<Rightarrow> string" where
  "check_last_snapshot_age inst settings now db =
     (if \<not> in_have_db inst then db_missing
      else case newest_snapshot_ts db of
        None \<Rightarrow> ''fail: no snapshots recorded '' @ dash @ '' run `dexpaprika snapshot`''
      | Some t \<Rightarrow>
          let age_minutes = (now - t) div minutes 1
          in if age_minutes > snapshot_staleness_minutes settings
             then ''fail: newest snapshot is '' @ int_str age_minutes @ '' min old (threshold ''
               @ int_str (snapshot_staleness_minutes settings) @ '') '' @ dash
               @ '' check the scheduled recorder task, then run `dexpaprika snapshot`''
             else ''ok'')"

definition check_repo_state :: "'d installation \<Rightarrow> string" where
  "check_repo_state inst = (case in_git inst of
     NoCheckout \<Rightarrow> ''ok (not a git checkout '' @ dash @ '' installed package)''
   | NoGit \<Rightarrow> ''ok (git not available '' @ dash @ '' repo state unverified)''
   | GitFailed e \<Rightarrow> ''fail: could not verify repo state: '' @ e
   | GitRan code out err \<Rightarrow>
       if code \<noteq> 0 then ''fail: git status failed: '' @ strip err
       else if strip out \<noteq> [] then ''fail: working tree has uncommitted changes '' @ dash @ '' commit or stash before operating''
       else ''ok'')"

text \<open>\<open>None\<close>: the recorded exposure is no number, or the armed-state file is of a wrong shape.\<close>

definition check_operational_state :: "(json \<Rightarrow> string) \<Rightarrow> 'd installation \<Rightarrow> settings \<Rightarrow> instant \<Rightarrow> 'e world \<Rightarrow> string option" where
  "check_operational_state repr inst settings now w =
     (if \<not> in_have_db inst then Some db_missing
      else case current_short_usd repr (database w) of
        None \<Rightarrow> None
      | Some exposure \<Rightarrow>
          let limit = max_position_usd settings
          in if dlt (dint 0) limit \<and> dlt limit exposure
             then Some (''fail: current short exposure $'' @ dec_str exposure @ '' exceeds configured max_position_usd $'' @ dec_str limit
                        @ '' '' @ dash @ '' do not act; resolve limits first'')
             else case check_armed True now w of
               None \<Rightarrow> None
             | Some armed \<Rightarrow>
                 let mode = (if check_kill_switch w \<noteq> Allowed
                             then ''kill-switch TRIPPED (all mutating behaviour halted; manual re-arm only)''
                             else if armed = Allowed
                             then ''ARMED (live execution enabled '' @ dash @ '' an order can be placed with approval)''
                             else ''dry-run (not armed; live orders require `execute arm` + --arm + approval)'');
                     limits = (if deq limit (dint 0) then ''disabled'' else ''max_position_usd=$'' @ dec_str limit)
                 in Some (''ok: '' @ mode @ ''; limits '' @ limits @ ''; short exposure $'' @ dec_str exposure))"

text \<open>The subset the alert rules are given.\<close>

definition offline_health :: "(string \<Rightarrow> string) \<Rightarrow> 'd installation \<Rightarrow> settings \<Rightarrow> (string \<times> string) list" where
  "offline_health py_repr inst settings =
     [(''db_integrity'', check_db_integrity py_repr inst), (''migrations_current'', check_migrations_current inst),
      (''secrets_present'', check_secrets_present inst settings), (''data_dir_writable'', check_data_dir_writable inst)]"

section \<open>Network checks\<close>

datatype probe_error = ProbeRpc rpc_error | ProbeTransport transport_error | ProbeQuota quota_error | ProbeClient client_error | ProbeValue

text \<open>What one probe ends with; \<open>Escaped\<close> is an exception the check does not catch.\<close>

datatype 'a probed = Answered 'a | Caught probe_error | Escaped

definition of_rpc :: "('a, 'e) rpc_result \<Rightarrow> ('a probed \<times> store \<times> 'e) option" where
  "of_rpc r = map_option (\<lambda>(x, ts, st).
     (case x of Inr a \<Rightarrow> Answered a | Inl (RpcRaised e) \<Rightarrow> Caught (ProbeRpc e) | Inl (RpcQuota q) \<Rightarrow> Caught (ProbeQuota q)
              | Inl PythonRaised \<Rightarrow> Escaped, st)) r"

definition of_client :: "client_raised + 'a \<Rightarrow> 'a probed" where
  "of_client x = (case x of Inr a \<Rightarrow> Answered a | Inl (ClientRaised e) \<Rightarrow> Caught (ProbeClient e)
                          | Inl (ClientQuota q) \<Rightarrow> Caught (ProbeQuota q) | Inl ClientPython \<Rightarrow> Escaped)"

definition probe_chain :: "string \<Rightarrow> settings \<Rightarrow> (rpc_client \<Rightarrow> 'e ring \<Rightarrow> ('a, 'e) rpc_result) \<Rightarrow> store \<times> 'e \<Rightarrow> ('a probed \<times> store \<times> 'e) option" where
  "probe_chain chain settings call st =
     (case new_rpc_client chain settings of
        Inl (Inl e) \<Rightarrow> Some (Caught (ProbeRpc e), st)
      | Inl (Inr e) \<Rightarrow> Some (Caught (ProbeTransport e), st)
      | Inr (client, ts) \<Rightarrow> of_rpc (call client (ts, st)))"

text \<open>The time of the newest block, in seconds.\<close>

definition header_time :: "(json \<Rightarrow> string) \<Rightarrow> json \<Rightarrow> int option" where
  "header_time repr header =
     Option.bind (Option.bind (as_object header) (\<lambda>d. get d ''timestamp'')) (\<lambda>v. int_base16 (text_of repr v))"

definition latest_time :: "nat \<Rightarrow> 'e outside \<Rightarrow> (json \<Rightarrow> string) \<Rightarrow> rpc_client \<Rightarrow> 'e ring \<Rightarrow> (int, 'e) rpc_result" where
  "latest_time fuel out repr client st =
     bind_r (rpc fuel out repr client ''eth_getBlockByNumber'' [JStr ''latest'', JBool False] st)
       (\<lambda>header. or_raise (header_time repr header))"

definition probe_gmx :: "nat \<Rightarrow> 'e outside \<Rightarrow> (json \<Rightarrow> bool option) \<Rightarrow> settings \<Rightarrow> store \<times> 'e \<Rightarrow> (unit probed \<times> store \<times> 'e) option" where
  "probe_gmx fuel out to_bool settings st =
     (case peer_transports (\<lambda>_. ''gmx'') (gmx_rest_peers settings) of
        Inl e \<Rightarrow> Some (Caught (ProbeTransport e), st)
      | Inr ts \<Rightarrow> map_option (\<lambda>(x, _, _, st1). (case of_client x of Answered _ \<Rightarrow> Answered () | Caught e \<Rightarrow> Caught e | Escaped \<Rightarrow> Escaped, st1))
                    (get_markets fuel out to_bool (gmx_rest_peers settings) (None, ts, st)))"

text \<open>Here a refused item (a \<open>ValueError\<close>) is caught as well, a payload that is no list is not.\<close>

definition probe_market :: "nat \<Rightarrow> 'e outside \<Rightarrow> settings \<Rightarrow> store \<times> 'e \<Rightarrow> (unit probed \<times> store \<times> 'e) option" where
  "probe_market fuel out settings st =
     (case new_transport (dexpaprika_base_url settings) ''dexpaprika'' 4 5 (seconds 60) of
        Inl e \<Rightarrow> Some (Caught (ProbeTransport e), st)
      | Inr t \<Rightarrow> map_option (\<lambda>(x, _, st1).
          (case of_client x of
             Caught e \<Rightarrow> Caught e
           | Escaped \<Rightarrow> Escaped
           | Answered payload \<Rightarrow>
               (case iter_items payload of
                  None \<Rightarrow> Escaped
                | Some items \<Rightarrow> if collect parse_network items = None then Caught ProbeValue else Answered ()), st1))
          (market_json fuel out ''/networks'' None (t, st)))"

text \<open>The four probes in their order: the failures by label, and the clock's skew (microseconds) when the Base header
  was read. The inner \<open>None\<close> is an exception.\<close>

definition note_failure :: "string \<Rightarrow> 'a probed \<Rightarrow> (string \<times> probe_error) list" where
  "note_failure label r = (case r of Caught e \<Rightarrow> [(label, e)] | _ \<Rightarrow> [])"

definition also_probe :: "(store \<times> 'e \<Rightarrow> ('a probed \<times> store \<times> 'e) option) \<Rightarrow> string
    \<Rightarrow> (((string \<times> probe_error) list \<times> int option) option \<times> store \<times> 'e) option
    \<Rightarrow> (((string \<times> probe_error) list \<times> int option) option \<times> store \<times> 'e) option" where
  "also_probe probe label before =
     Option.bind before (\<lambda>(res, st). case res of
         None \<Rightarrow> Some (None, st)
       | Some (failures, skew) \<Rightarrow> map_option (\<lambda>(r, st1).
           (case r of Escaped \<Rightarrow> None | _ \<Rightarrow> Some (failures @ note_failure label r, skew), st1)) (probe st))"

definition probe_base :: "nat \<Rightarrow> 'e outside \<Rightarrow> (json \<Rightarrow> string) \<Rightarrow> settings \<Rightarrow> store \<times> 'e
    \<Rightarrow> (((string \<times> probe_error) list \<times> int option) option \<times> store \<times> 'e) option" where
  "probe_base fuel out repr settings st =
     map_option (\<lambda>(r, db1, env1).
       (case r of
          Escaped \<Rightarrow> None
        | Caught e \<Rightarrow> Some ([(''base-rpc'', e)], None)
        | Answered t \<Rightarrow> Some ([], Some \<bar>o_clock out env1 - seconds t\<bar>), db1, env1))
       (probe_chain ''base'' settings (latest_time fuel out repr) st)"

definition network_probes :: "nat \<Rightarrow> 'e outside \<Rightarrow> (json \<Rightarrow> string) \<Rightarrow> (json \<Rightarrow> bool option) \<Rightarrow> settings \<Rightarrow> store \<times> 'e
    \<Rightarrow> (((string \<times> probe_error) list \<times> int option) option \<times> store \<times> 'e) option" where
  "network_probes fuel out repr to_bool settings st =
     also_probe (probe_market fuel out settings) ''dexpaprika''
       (also_probe (probe_gmx fuel out to_bool settings) ''gmx''
         (also_probe (probe_chain ''arbitrum'' settings (block_number fuel out repr)) ''arbitrum-rpc''
           (probe_base fuel out repr settings st)))"

fun bar_join :: "string list \<Rightarrow> string" where
  "bar_join [] = []"
| "bar_join [s] = s"
| "bar_join (s # ss) = s @ '' | '' @ bar_join ss"

definition clock_text :: "int option \<Rightarrow> string" where
  "clock_text skew = (case skew of
     None \<Rightarrow> ''fail: Base block header unavailable '' @ dash @ '' fix upstream_reachability first''
   | Some s \<Rightarrow> if s \<le> seconds 300 then ''ok''
       else ''fail: local clock skews '' @ int_str (s div 1000000) @ ''s from Base chain time (>300s) '' @ dash
         @ '' fix the system clock; staleness/cooldown windows are unreliable until then'')"

definition reachability_text :: "(probe_error \<Rightarrow> string) \<Rightarrow> (string \<times> probe_error) list \<Rightarrow> string" where
  "reachability_text describe failures =
     (if failures = [] then ''ok'' else ''fail: '' @ bar_join (map (\<lambda>(label, e). label @ '': '' @ describe e) failures))"

text \<open>\<open>seeds\<close>: the packaged provider list.\<close>

definition check_network_health :: "nat \<Rightarrow> 'e outside \<Rightarrow> (json \<Rightarrow> string) \<Rightarrow> (json \<Rightarrow> bool option) \<Rightarrow> (probe_error \<Rightarrow> string)
    \<Rightarrow> provider_seed list \<Rightarrow> bool \<Rightarrow> settings \<Rightarrow> store \<times> 'e \<Rightarrow> ((string \<times> string) option \<times> store \<times> 'e) option" where
  "check_network_health fuel out repr to_bool describe seeds have_db settings st =
     (if \<not> have_db
      then (let m = ''fail: database missing (quota accounting) '' @ dash @ '' run `dexpaprika db migrate`'' in Some (Some (m, m), st))
      else case ensure_providers seeds (fst st) of
        Inl e \<Rightarrow> Some (None, st)
      | Inr db \<Rightarrow> map_option (\<lambda>(res, st1).
          (map_option (\<lambda>(failures, skew). (reachability_text describe failures, clock_text skew)) res, st1))
          (network_probes fuel out repr to_bool settings (db, snd st)))"

section \<open>The command\<close>

definition all_checks :: "(string \<Rightarrow> string) \<Rightarrow> 'd installation \<Rightarrow> settings \<Rightarrow> instant \<Rightarrow> store \<Rightarrow> string \<Rightarrow> string \<times> string
    \<Rightarrow> (string \<times> string) list" where
  "all_checks py_repr inst settings now db operational network =
     [(''db_integrity'', check_db_integrity py_repr inst), (''migrations_current'', check_migrations_current inst),
      (''upstream_reachability'', fst network), (''secrets_present'', check_secrets_present inst settings),
      (''clock_sanity'', snd network), (''last_snapshot_age'', check_last_snapshot_age inst settings now db),
      (''data_dir_writable'', check_data_dir_writable inst), (''repo_state'', check_repo_state inst),
      (''operational_state'', operational)]"

definition healthy :: "(string \<times> string) list \<Rightarrow> bool" where
  "healthy checks \<longleftrightarrow> list_all (\<lambda>(_, v). startswith v ''ok'') checks"

text \<open>\<open>(checks, exit code)\<close>; the inner \<open>None\<close> is an exception.\<close>

definition healthcheck :: "nat \<Rightarrow> 'e outside \<Rightarrow> (json \<Rightarrow> string) \<Rightarrow> (string \<Rightarrow> string) \<Rightarrow> (json \<Rightarrow> bool option) \<Rightarrow> (probe_error \<Rightarrow> string)
    \<Rightarrow> provider_seed list \<Rightarrow> 'd installation \<Rightarrow> settings \<Rightarrow> instant \<Rightarrow> 'e world
    \<Rightarrow> (((string \<times> string) list \<times> int) option \<times> store \<times> 'e) option" where
  "healthcheck fuel out repr py_repr to_bool describe seeds inst settings now w =
     (case check_operational_state repr inst settings now w of
        None \<Rightarrow> Some (None, database w, env w)
      | Some operational \<Rightarrow>
          map_option (\<lambda>(net, st1).
              (map_option (\<lambda>n. let checks = all_checks py_repr inst settings now (database w) operational n
                               in (checks, if healthy checks then 0 else 3)) net, st1))
            (check_network_health fuel out repr to_bool describe seeds (in_have_db inst) settings (database w, env w)))"

section \<open>When the checks pass\<close>

named_theorems passes \<open>when one check passes\<close>

definition passing :: "string \<Rightarrow> bool" where
  "passing text \<longleftrightarrow> startswith text ''ok''"

lemma passing_secrets [passes]:
  "passing (check_secrets_present inst settings) \<longleftrightarrow> resolve_secret (in_secrets inst) settings ''ntfy_topic'' \<noteq> None"
  by (simp add: passing_def check_secrets_present_def split: option.splits)

lemma passing_writable [passes]: "passing (check_data_dir_writable inst) \<longleftrightarrow> in_write_error inst = None"
  by (simp add: passing_def check_data_dir_writable_def split: option.splits)

lemma passing_integrity [passes]:
  "passing (check_db_integrity py_repr inst) \<longleftrightarrow> in_have_db inst \<and> in_integrity inst = ''ok'' \<and> \<not> in_orphans inst"
  by (simp add: passing_def check_db_integrity_def db_missing_def)

lemma passing_migrations [passes]:
  "passing (check_migrations_current inst) \<longleftrightarrow> in_have_db inst \<and> pending (in_catalogue inst) (in_schema inst) = []"
  by (simp add: passing_def check_migrations_current_def db_missing_def Let_def)

lemma passing_snapshot_age [passes]:
  "passing (check_last_snapshot_age inst settings now db) \<longleftrightarrow> in_have_db inst \<and> staleness_alert db settings now = None"
  by (auto simp: passing_def check_last_snapshot_age_def staleness_alert_def stale_alert_def db_missing_def Let_def split: option.splits)

definition clean_checkout :: "checkout \<Rightarrow> bool" where
  "clean_checkout g = (case g of GitFailed _ \<Rightarrow> False | GitRan code out _ \<Rightarrow> code = 0 \<and> strip out = [] | _ \<Rightarrow> True)"

lemma passing_repo [passes]: "passing (check_repo_state inst) \<longleftrightarrow> clean_checkout (in_git inst)"
  by (simp add: passing_def check_repo_state_def clean_checkout_def split: checkout.splits)

definition within_limit :: "(json \<Rightarrow> string) \<Rightarrow> settings \<Rightarrow> store \<Rightarrow> bool" where
  "within_limit repr settings db =
     (case current_short_usd repr db of None \<Rightarrow> False
      | Some exposure \<Rightarrow> dlt (dint 0) (max_position_usd settings) \<longrightarrow> \<not> dlt (max_position_usd settings) exposure)"

lemma passing_operational:
  assumes "check_operational_state repr inst settings now w = Some text"
  shows "passing text \<longleftrightarrow> in_have_db inst \<and> within_limit repr settings (database w)"
proof (cases "in_have_db inst")
  case False
  with assms show ?thesis by (auto simp: passing_def check_operational_state_def db_missing_def)
next
  case True
  with assms obtain exposure where e: "current_short_usd repr (database w) = Some exposure"
    by (auto simp: check_operational_state_def split: option.splits)
  show ?thesis
  proof (cases "dlt (dint 0) (max_position_usd settings) \<and> dlt (max_position_usd settings) exposure")
    case True
    with assms e \<open>in_have_db inst\<close> have "\<exists>s. text = ''fail'' @ s" by (auto simp: check_operational_state_def Let_def)
    with True e show ?thesis by (auto simp: passing_def within_limit_def)
  next
    case False
    with assms e \<open>in_have_db inst\<close> obtain armed where "check_armed True now w = Some armed"
      by (simp add: check_operational_state_def Let_def split: option.splits)
    with assms e False \<open>in_have_db inst\<close> have "\<exists>s. text = ''ok'' @ s" by (auto simp only: check_operational_state_def Let_def option.case if_True if_False not_True_eq_False append.simps option.inject)
    with False e \<open>in_have_db inst\<close> show ?thesis by (auto simp: passing_def within_limit_def)
  qed
qed

lemma passing_reachability [passes]: "passing (reachability_text describe failures) \<longleftrightarrow> failures = []"
  by (simp add: passing_def reachability_text_def)

lemma passing_clock [passes]: "passing (clock_text skew) \<longleftrightarrow> (\<exists>s. skew = Some s \<and> s \<le> seconds 300)"
  by (simp add: passing_def clock_text_def split: option.splits)

lemma passing_network:
  assumes "check_network_health fuel out repr to_bool describe seeds have_db settings st = Some (Some net, st1)"
  shows "passing (fst net) \<and> passing (snd net) \<longleftrightarrow>
    have_db \<and> (\<exists>db s. ensure_providers seeds (fst st) = Inr db \<and> s \<le> seconds 300
       \<and> network_probes fuel out repr to_bool settings (db, snd st) = Some (Some ([], Some s), st1))"
proof (cases have_db)
  case False
  with assms show ?thesis by (auto simp: check_network_health_def Let_def passing_def)
next
  case True
  with assms obtain db failures skew where p: "ensure_providers seeds (fst st) = Inr db"
    "network_probes fuel out repr to_bool settings (db, snd st) = Some (Some (failures, skew), st1)"
    "net = (reachability_text describe failures, clock_text skew)"
    by (auto simp: check_network_health_def split: sum.splits)
  with True show ?thesis by (auto simp: passes)
qed

lemma healthy_iff: "healthy checks \<longleftrightarrow> list_all passing (map snd checks)"
  by (simp add: healthy_def passing_def list_all_iff split: prod.splits) (metis snd_conv prod.collapse)

text \<open>C15. The exit code of the health check is 0 or 3, and it is 0 exactly when everything it speaks of holds: there is a
  database, SQLite finds it intact without orphaned rows, no migration is pending, the secret resolves, the data
  directory can be written, the rule of the staleness alert does not fire, the checkout is clean, the recorded short
  is within a limit that is set, all four services answered and the local clock is within 300 seconds of the
  chain. This is the code's verdict, and RUNBOOK.md's: the exit code does not depend on the orders table, though
  \<open>docs/specs/S10-integration.md\<close> has the operational check fail for an order that is not final, nor on the
  branch or the hooks of the checkout, though \<open>loop/GIT_RULES.md\<close> has the repository check include them.\<close>

theorem healthcheck_passes_iff:
  assumes "healthcheck fuel out repr py_repr to_bool describe seeds inst settings now w = Some (Some (checks, code), st1)"
  shows "(code = 0 \<or> code = 3) \<and> (code = 0 \<longleftrightarrow>
    in_have_db inst \<and> in_integrity inst = ''ok'' \<and> \<not> in_orphans inst \<and> pending (in_catalogue inst) (in_schema inst) = []
    \<and> resolve_secret (in_secrets inst) settings ''ntfy_topic'' \<noteq> None \<and> in_write_error inst = None
    \<and> staleness_alert (database w) settings now = None \<and> clean_checkout (in_git inst) \<and> within_limit repr settings (database w)
    \<and> (\<exists>db s. ensure_providers seeds (database w) = Inr db \<and> s \<le> seconds 300
         \<and> network_probes fuel out repr to_bool settings (db, env w) = Some (Some ([], Some s), st1)))"
proof -
  obtain operational net where o: "check_operational_state repr inst settings now w = Some operational"
    and n: "check_network_health fuel out repr to_bool describe seeds (in_have_db inst) settings (database w, env w) = Some (Some net, st1)"
    and c: "checks = all_checks py_repr inst settings now (database w) operational net" "code = (if healthy checks then 0 else 3)"
    using assms by (auto simp: healthcheck_def Let_def split: option.splits)
  have "healthy checks \<longleftrightarrow> passing (check_db_integrity py_repr inst) \<and> passing (check_migrations_current inst)
    \<and> passing (check_secrets_present inst settings) \<and> passing (check_last_snapshot_age inst settings now (database w))
    \<and> passing (check_data_dir_writable inst) \<and> passing (check_repo_state inst) \<and> passing operational
    \<and> (passing (fst net) \<and> passing (snd net))"
    by (auto simp: healthy_iff c(1) all_checks_def)
  also note passing_network [OF n, unfolded fst_conv snd_conv]
  finally show ?thesis unfolding c(2) passes passing_operational [OF o] by auto
qed

text \<open>No order, final or not, changes what the operational check says.\<close>

lemma operational_state_ignores_orders:
  "check_operational_state repr inst settings now (w\<lparr>database := (database w)\<lparr>order_rows := rows\<rparr>\<rparr>)
   = check_operational_state repr inst settings now w"
proof -
  have "current_short_usd repr ((database w)\<lparr>order_rows := rows\<rparr>) = current_short_usd repr (database w)"
    by (simp add: current_short_usd_def newest_open_state_def)
  then show ?thesis by (simp add: check_operational_state_def check_armed_def check_kill_switch_def Let_def split: option.split)
qed

definition no_secrets :: secret_sources where
  "no_secrets = \<lparr>keyring_get = (\<lambda>_. None), env_get = (\<lambda>_. None)\<rparr>"

text \<open>A machine whose settings name no service: every probe fails without a request.\<close>

definition unconnected :: settings where
  "unconnected = default_settings\<lparr>base_rpc_urls := [], arbitrum_rpc_urls := [], gmx_rest_peers := [], dexpaprika_base_url := []\<rparr>"

definition well_kept :: "unit installation" where
  "well_kept = \<lparr>in_have_db = True, in_schema = \<lparr>schema_rows = [], db_body = ()\<rparr>, in_catalogue = [], in_integrity = ''ok'', in_orphans = False,
     in_data_dir = ''data'', in_write_error = None, in_secrets = no_secrets, in_git = NoCheckout\<rparr>"

lemma unconnected_probes:
  "network_probes fuel out repr to_bool unconnected (db, e) = Some (Some ([(''base-rpc'', ProbeRpc (RingSpent ''eth_getBlockByNumber'' [])),
     (''arbitrum-rpc'', ProbeRpc (RingSpent ''eth_blockNumber'' [])), (''gmx'', ProbeClient (PeersSpent [])),
     (''dexpaprika'', ProbeTransport (NotHttps []))], None), db, e)"
proof -
  have base: "probe_chain ''base'' unconnected (latest_time fuel out repr) (db, e)
      = Some (Caught (ProbeRpc (RingSpent ''eth_getBlockByNumber'' [])), db, e)"
    by (simp add: probe_chain_def new_rpc_client_def chain_ids_def unconnected_def latest_time_def rpc_def bind_r_def of_rpc_def)
  have arb: "probe_chain ''arbitrum'' unconnected (block_number fuel out repr) (db, e)
      = Some (Caught (ProbeRpc (RingSpent ''eth_blockNumber'' [])), db, e)"
    by (simp add: probe_chain_def new_rpc_client_def chain_ids_def unconnected_def block_number_def rpc_def bind_r_def of_rpc_def)
  have gmx: "probe_gmx fuel out to_bool unconnected (db, e) = Some (Caught (ProbeClient (PeersSpent [])), db, e)"
    by (simp add: probe_gmx_def unconnected_def get_markets_def gmx_json_def peer_json_def bind_r_def of_client_def)
  have dex: "probe_market fuel out unconnected (db, e) = Some (Caught (ProbeTransport (NotHttps [])), db, e)"
    by (simp add: probe_market_def new_transport_def unconnected_def)
  show ?thesis by (simp add: network_probes_def probe_base_def also_probe_def note_failure_def base arb gmx dex)
qed

definition silent :: "unit outside" where
  "silent = \<lparr>o_clock = (\<lambda>_. 50), o_sleep = (\<lambda>_ e. e), o_send = (\<lambda>_ e. (Inl ''no network'', e)), o_jitter = (\<lambda>_ e. (0, e)),
     o_uuid = (\<lambda>e. (''id'', e)), o_millis = (\<lambda>_. 0)\<rparr>"

definition unconnected_check :: "((string \<times> string) list \<times> int) option \<times> store \<times> unit" where
  "unconnected_check =
     the (healthcheck 0 silent (\<lambda>_. []) id (\<lambda>_. None) (\<lambda>_. ''unreachable'') [] well_kept unconnected test_now test_world)"

lemma unconnected_check_ends:
  "\<exists>checks code st1. healthcheck 0 silent (\<lambda>_. []) id (\<lambda>_. None) (\<lambda>_. ''unreachable'') [] well_kept unconnected test_now test_world
     = Some (Some (checks, code), st1)"
proof -
  have s: "current_short_usd (\<lambda>_. []) (database test_world) = Some (dint 0)"
    by (simp add: current_short_usd_def test_world_def empty_store_def newest_open_state_def)
  have "check_armed True test_now test_world \<noteq> None" by (simp add: check_armed_def test_world_def)
  with s have "\<exists>text. check_operational_state (\<lambda>_. []) well_kept unconnected test_now test_world = Some text"
    by (auto simp: check_operational_state_def well_kept_def Let_def)
  then show ?thesis
    by (auto simp: healthcheck_def check_network_health_def well_kept_def unconnected_probes Let_def)
qed

lemma healthcheck_passes_iff_witness:
  "\<exists>checks st1. unconnected_check = (Some (checks, 3), st1)"
proof -
  obtain checks code st1 where c: "healthcheck 0 silent (\<lambda>_. []) id (\<lambda>_. None) (\<lambda>_. ''unreachable'') [] well_kept unconnected test_now test_world
     = Some (Some (checks, code), st1)"
    using unconnected_check_ends by blast
  have "code = 3" using healthcheck_passes_iff [OF c] by (auto simp: unconnected_probes)
  with c have "unconnected_check = (Some (checks, 3), st1)" by (simp add: unconnected_check_def)
  then show ?thesis by blast
qed

end
