(* ===== verification/Freshness.thy ===== *)
theory Freshness
  imports Cycle
begin

text \<open>
  What a successful cycle of \<open>recorder/cycle.py\<close> leaves for the readers that judge staleness: every source ends by
  writing a snapshot row with the time of the cycle, a failed source takes none away.
\<close>

section \<open>A successful cycle is a fresh snapshot\<close>

lemma recorded_snapshots: "recorded db db1 \<Longrightarrow> \<exists>ss. snapshots db1 = snapshots db @ ss"
  by (auto simp: recorded_def other_tables_def)

definition stamped :: "instant \<Rightarrow> store \<Rightarrow> bool" where
  "stamped ts db \<longleftrightarrow> ts \<in> s_ts ` set (snapshots db)"

lemma stamped_insert [simp]: "stamped ts (insert_snapshot ts chain block kind db)"
  by (simp add: stamped_def insert_snapshot_def)

lemma stamped_recorded: "recorded db db1 \<Longrightarrow> stamped ts db \<Longrightarrow> stamped ts db1"
  using recorded_snapshots by (fastforce simp: stamped_def)

lemma stamped_write:
  "bind_r (unit_write (\<lambda>db. Some (insert_snapshot ts chain block kind db)) w) (\<lambda>_ w1. Some (Inr x, w1)) = Some (Inr y, w2)
   \<Longrightarrow> stamped ts (cycle_store w2)"
  by (auto simp: bind_r_def unit_write_def put_def cycle_store_def split: prod.splits)

lemma bind_r_value:
  "bind_r m f = Some (Inr y, w2) \<Longrightarrow> (\<And>x w1. m = Some (Inr x, w1) \<Longrightarrow> f x w1 = Some (Inr y, w2) \<Longrightarrow> P) \<Longrightarrow> P"
  by (auto simp: bind_r_def split: option.splits sum.splits prod.splits)

lemma record_lp_source_stamps: "record_lp_source fuel out repr co nm cfg wallets ts w = Some (Inr x, w1) \<Longrightarrow> stamped ts (cycle_store w1)"
  unfolding record_lp_source_def by (elim bind_r_value stamped_write)

lemma record_hedge_source_stamps: "record_hedge_source fuel out repr to_bool wallets ts w = Some (Inr x, w1) \<Longrightarrow> stamped ts (cycle_store w1)"
  unfolding record_hedge_source_def by (elim bind_r_value stamped_write)

lemma record_defi_source_stamps: "record_defi_source fuel out repr cfg wallets ts w = Some (Inr x, w1) \<Longrightarrow> stamped ts (cycle_store w1)"
  unfolding record_defi_source_def by (elim bind_r_value stamped_write)

lemma base_holdings_stamps:
  "base_holdings fuel out repr wallets ts w = Some (Inr x, w1) \<Longrightarrow> cy_base (fst w) \<noteq> None \<Longrightarrow> wallets \<noteq> [] \<Longrightarrow> stamped ts (cycle_store w1)"
  unfolding base_holdings_def by (simp only: simp_thms if_False) (elim bind_r_value stamped_write)

lemma btc_holdings_stamps:
  "btc_holdings fuel out btc_wallets ts w = Some (Inr x, w1) \<Longrightarrow> cy_btc (fst w) \<noteq> None \<Longrightarrow> btc_wallets \<noteq> [] \<Longrightarrow> stamped ts (cycle_store w1)"
  unfolding btc_holdings_def by (simp only: simp_thms if_False) (elim bind_r_value stamped_write)

section \<open>Which clients there are\<close>

text \<open>No step adds or drops a client.\<close>

definition same_clients :: "'e cycle_world \<Rightarrow> 'e cycle_world \<Rightarrow> bool" where
  "same_clients w w1 \<longleftrightarrow> (cy_base (fst w1) = None) = (cy_base (fst w) = None) \<and> (cy_gmx (fst w1) = None) = (cy_gmx (fst w) = None)
     \<and> (cy_dexpaprika (fst w1) = None) = (cy_dexpaprika (fst w) = None) \<and> (cy_btc (fst w1) = None) = (cy_btc (fst w) = None)"

interpretation clients_frame: state_frame same_clients
  by unfold_locales (simp_all add: same_clients_def)

lemma same_clients_refl [simp]: "same_clients w w"
  by (simp add: same_clients_def)

lemma client_steps:
  "on_base m w = Some (r, w1) \<Longrightarrow> same_clients w w1"
  "on_gmx m' w = Some (r', w1) \<Longrightarrow> same_clients w w1"
  "on_btc m'' w = Some (r'', w1) \<Longrightarrow> same_clients w w1"
  "put f w = Some (q, w1) \<Longrightarrow> same_clients w w1"
  "unit_write g w = Some (q', w1) \<Longrightarrow> same_clients w w1"
  "with_volume fuel out co nm p w = Some (q'', w1) \<Longrightarrow> same_clients w w1"
  by (auto simp: on_base_def on_gmx_def on_btc_def on_market_def put_def unit_write_def with_volume_def same_clients_def
      split: prod.splits option.splits if_splits sum.splits)

lemma client_counting:
  assumes "counting f xs w = Some (r, w1)" "\<And>x w q w1. f x w = Some (q, w1) \<Longrightarrow> same_clients w w1"
  shows "same_clients w w1"
  using assms(1)
proof (induction xs arbitrary: w r w1)
  case (Cons x xs)
  from Cons.prems show ?case
    unfolding counting.simps by (rule clients_frame.bind) (erule assms(2), erule clients_frame.bind, erule Cons.IH, simp)
qed simp

lemma client_returns: "Some (x, w) = Some (r, w1) \<Longrightarrow> same_clients w w1"
  by simp

lemmas client_frames = clients_frame.bind client_steps client_counting client_returns

lemma wallet_clients:
  "lp_wallet fuel out repr co nm cfg ts pin wallet w = Some (r, w1) \<Longrightarrow> same_clients w w1"
  "hedge_wallet fuel out repr to_bool ts wallet w = Some (r, w1) \<Longrightarrow> same_clients w w1"
  "base_holdings fuel out repr wallets ts w = Some (q, w1) \<Longrightarrow> same_clients w w1"
  "btc_holdings fuel out btc_wallets ts w = Some (r, w1) \<Longrightarrow> same_clients w w1"
  unfolding lp_wallet_def hedge_wallet_def base_holdings_def btc_holdings_def
  by (erule client_frames | simp add: Let_def split: prod.splits if_splits)+

lemma source_clients:
  assumes "(kind, fn) \<in> set (cycle_sources fuel out repr co to_bool nm cfg kinds wallets btc_wallets ts c)" "fn w = Some (r, w1)"
  shows "same_clients w w1"
proof -
  have "record_lp_source fuel out repr co nm cfg wallets ts w = Some (r, w1) \<Longrightarrow> same_clients w w1"
    unfolding record_lp_source_def by (erule client_frames wallet_clients)+
  moreover have "record_hedge_source fuel out repr to_bool wallets ts w = Some (r, w1) \<Longrightarrow> same_clients w w1"
    unfolding record_hedge_source_def by (erule client_frames wallet_clients)+
  moreover have "record_defi_source fuel out repr cfg wallets ts w = Some (r, w1) \<Longrightarrow> same_clients w w1"
    unfolding record_defi_source_def by (erule client_frames wallet_clients)+
  moreover have "record_holdings_source fuel out repr wallets btc_wallets ts w = Some (r, w1) \<Longrightarrow> same_clients w w1"
    unfolding record_holdings_source_def by (erule client_frames wallet_clients | auto split: prod.splits)+
  ultimately show ?thesis using assms by (auto simp: cycle_sources_def split: if_splits)
qed

text \<open>A cycle is given wallets for the clients it has.\<close>

definition equipped :: "string list \<Rightarrow> string list \<Rightarrow> cycle_clients \<Rightarrow> bool" where
  "equipped wallets btc_wallets c \<longleftrightarrow> (cy_base c = None \<or> wallets \<noteq> []) \<and> (cy_btc c = None \<or> btc_wallets \<noteq> [])"

lemma record_holdings_source_stamps:
  assumes "record_holdings_source fuel out repr wallets btc_wallets ts w = Some (Inr x, w2)" "equipped wallets btc_wallets (fst w)"
    "cy_base (fst w) \<noteq> None \<or> cy_btc (fst w) \<noteq> None"
  shows "stamped ts (cycle_store w2)"
proof -
  from assms(1) obtain np w1 where b: "base_holdings fuel out repr wallets ts w = Some (Inr np, w1)"
    and next1: "(case np of (n, pin) \<Rightarrow> \<lambda>w1. bind_r (btc_holdings fuel out btc_wallets ts w1) (\<lambda>m w2. Some (Inr (n + m, pin), w2))) w1 = Some (Inr x, w2)"
    unfolding record_holdings_source_def by (rule bind_r_value)
  then obtain m where t: "btc_holdings fuel out btc_wallets ts w1 = Some (Inr m, w2)"
    by (auto split: prod.splits elim!: bind_r_value)
  show ?thesis
  proof (cases "cy_base (fst w) = None")
    case False
    with assms(2) b have "stamped ts (cycle_store w1)" by (auto simp: equipped_def intro: base_holdings_stamps)
    then show ?thesis by (rule stamped_recorded [OF btc_holdings_frame [OF t]])
  next
    case True
    then have "w1 = w" using b by (simp add: base_holdings_def)
    with True assms(2,3) show ?thesis by (auto simp: equipped_def intro: btc_holdings_stamps [OF t])
  qed
qed

section \<open>The cycle\<close>

lemma same_clients_equipped: "same_clients w w1 \<Longrightarrow> equipped ws bs (fst w) \<Longrightarrow> equipped ws bs (fst w1)"
  by (auto simp: same_clients_def equipped_def)

lemma source_stamps:
  assumes "(kind, fn) \<in> set (cycle_sources fuel out repr co to_bool nm cfg kinds wallets btc_wallets ts (fst w0))"
    "same_clients w0 w" "equipped wallets btc_wallets (fst w0)" "fn w = Some (Inr x, w1)"
  shows "stamped ts (cycle_store w1)"
proof -
  have h: "cy_base (fst w0) \<noteq> None \<or> cy_btc (fst w0) \<noteq> None \<Longrightarrow> cy_base (fst w) \<noteq> None \<or> cy_btc (fst w) \<noteq> None"
    using assms(2) by (auto simp: same_clients_def)
  show ?thesis
    using assms(1,4) h same_clients_equipped [OF assms(2,3)]
    by (auto simp: cycle_sources_def split: if_splits
        intro: record_lp_source_stamps record_hedge_source_stamps record_defi_source_stamps record_holdings_source_stamps)
qed

definition advanced :: "instant \<Rightarrow> cycle_result \<times> 'e cycle_world \<Rightarrow> cycle_result \<times> 'e cycle_world \<Rightarrow> bool" where
  "advanced ts s s1 \<longleftrightarrow> same_clients (snd s) (snd s1)
     \<and> (stamped ts (cycle_store (snd s)) \<longrightarrow> stamped ts (cycle_store (snd s1)))
     \<and> (succeeded (fst s1) = succeeded (fst s) \<or> stamped ts (cycle_store (snd s1)))"

lemma run_source_advanced:
  assumes "run_source describe ts kind fn s = Some s1"
    "(kind, fn) \<in> set (cycle_sources fuel out repr co to_bool nm cfg kinds wallets btc_wallets ts (fst w0))"
    "same_clients w0 (snd s)" "equipped wallets btc_wallets (fst w0)"
  shows "advanced ts s s1"
proof -
  obtain res c db env where s: "s = (res, c, db, env)" by (cases s) auto
  from assms(1) obtain r c1 db1 env1 where fn: "fn (c, db, env) = Some (r, c1, db1, env1)"
    by (auto simp: run_source_def s split: option.splits)
  have c: "same_clients (c, db, env) (c1, db1, env1)" by (rule source_clients [OF assms(2) fn])
  have rec: "recorded db db1" using cycle_sources_frame [OF assms(2) fn] by (simp add: cycle_store_def)
  show ?thesis
  proof (cases r)
    case (Inl e)
    with assms(1) fn c show ?thesis
      by (auto simp: run_source_def s advanced_def same_clients_def cycle_store_def stamped_def write_heartbeat_def succeeded_def)
  next
    case (Inr nb)
    have "stamped ts (cycle_store (c1, db1, env1))"
      by (rule source_stamps [OF assms(2) _ assms(4)]) (use assms(3) fn s Inr in auto)
    then have "stamped ts (derive_lifecycle_since (max_event_id db) db1)"
      using stamped_recorded [OF recorded_derive] by (simp add: cycle_store_def)
    with Inr assms(1) fn c show ?thesis
      by (auto simp: run_source_def s advanced_def same_clients_def cycle_store_def stamped_def write_heartbeat_def split: prod.splits)
  qed
qed

lemma run_sources_advanced:
  assumes "run_sources describe ts srcs s = Some s1"
    "set srcs \<subseteq> set (cycle_sources fuel out repr co to_bool nm cfg kinds wallets btc_wallets ts (fst w0))"
    "same_clients w0 (snd s)" "equipped wallets btc_wallets (fst w0)"
  shows "advanced ts s s1"
  using assms
proof (induction srcs arbitrary: s)
  case Nil
  then show ?case by (simp add: advanced_def)
next
  case (Cons src srcs)
  obtain kind fn where src: "src = (kind, fn)" by (cases src) auto
  from Cons.prems(1) obtain s0 where s0: "run_source describe ts kind fn s = Some s0" "run_sources describe ts srcs s0 = Some s1"
    by (auto simp: src bind_eq_Some_conv)
  have a: "advanced ts s s0" using Cons.prems by (intro run_source_advanced [OF s0(1)]) (auto simp: src)
  then have "same_clients w0 (snd s0)" using Cons.prems(3) by (auto simp: advanced_def same_clients_def)
  then have "advanced ts s0 s1" using Cons.prems by (intro Cons.IH [OF s0(2)]) (auto simp: src)
  with a show ?case by (auto simp: advanced_def same_clients_def)
qed

lemma cycle_stamps:
  assumes "run_cycle fuel out repr co to_bool nm describe cfg kinds wallets btc_wallets ts w = Some (res, w1)"
    "equipped wallets btc_wallets (fst w)" "succeeded res \<noteq> []"
  shows "stamped ts (cycle_store w1)"
proof -
  have "advanced ts (\<lparr>cr_ts = ts, cr_wallets = wallets @ btc_wallets, cr_counts = [], cr_sources = []\<rparr>, w) (res, w1)"
    by (rule run_sources_advanced [OF assms(1) [unfolded run_cycle_def], where ?w0.0 = w]) (use assms(2) in auto)
  with assms(3) show ?thesis by (auto simp: advanced_def succeeded_def)
qed

end
