(* ===== verification/Commands.thy ===== *)
theory Commands
  imports Freshness Checks Service Registry
begin

text \<open>
  The commands of \<open>cli.py\<close> that read the chains and services and record what they find: \<open>snapshot\<close>, \<open>recorder\<close>,
  \<open>lp\<close>, \<open>chain\<close>, \<open>gmx\<close> and \<open>market\<close>. A command ends with a payload, a reported failure or an exception nobody catches;
  the parser has checked the choices. \<open>None\<close> is running out of fuel.
\<close>

section \<open>Ends of a command\<close>

datatype failure =
    DatabaseMissing
  | SchemaOutdated
  | NoIncludedWallets
  | NotOneWallet nat
  | SourcesFailed "(string \<times> cycle_error option) list"
  | UpstreamFailed probe_error
  | RefusedPayload
  | NoRecordedState
  | NoTopicSecret

datatype 'a outcome = Shown 'a | Failed failure | Crashed

text \<open>Some payloads are shown and tell of a degraded state; the interpreter ends with 1 after an uncaught exception.\<close>

definition end_code :: "('a \<Rightarrow> bool) \<Rightarrow> 'a outcome \<Rightarrow> int" where
  "end_code degraded r = (case r of Shown a \<Rightarrow> if degraded a then 3 else 0 | _ \<Rightarrow> 1)"

datatype kind_choice = AllKinds | OnlyLp | OnlyHedge | OnlyDefi | OnlyHoldings

definition kinds_of :: "kind_choice \<Rightarrow> string list" where
  "kinds_of k = (case k of AllKinds \<Rightarrow> [''lp'', ''hedge'', ''defi'', ''holdings''] | OnlyLp \<Rightarrow> [''lp'']
     | OnlyHedge \<Rightarrow> [''hedge''] | OnlyDefi \<Rightarrow> [''defi''] | OnlyHoldings \<Rightarrow> [''holdings''])"

section \<open>Wallets of a cycle\<close>

definition included_of :: "string \<Rightarrow> wallet list \<Rightarrow> string list" where
  "included_of family ws = map w_address (filter (\<lambda>w. w_family w = family \<and> w_included w) ws)"

text \<open>A corrupt registry raises; \<open>Some None\<close>: no wallet.\<close>

definition resolve_recorder_wallets :: "string option \<Rightarrow> registry_file \<Rightarrow> string list \<Rightarrow> (string list \<times> string list) option option" where
  "resolve_recorder_wallets address registry kinds =
     (case address of
        Some (c # cs) \<Rightarrow> Some (Some ([c # cs], []))
      | _ \<Rightarrow>
          (case list_wallets registry of
             Inl e \<Rightarrow> None
           | Inr registered \<Rightarrow>
               let wallets = included_of ''evm'' registered;
                   btc_wallets = (if ''holdings'' \<in> set kinds then included_of ''btc'' registered else [])
               in Some (if wallets = [] \<and> btc_wallets = [] then None else Some (wallets, btc_wallets))))"

section \<open>Snapshot and recorder\<close>

record runtime =
  rt_fuel :: nat
  rt_repr :: "json \<Rightarrow> string"
  rt_coerce :: coerce
  rt_to_bool :: "json \<Rightarrow> bool option"
  rt_name :: "cycle_error \<Rightarrow> string"
  rt_describe :: "cycle_error \<Rightarrow> string"
  rt_seeds :: "provider_seed list"

text \<open>What both commands do before a cycle: the wallets, the providers, the clients.\<close>

definition prepare_cycle :: "runtime \<Rightarrow> settings \<Rightarrow> bool \<Rightarrow> registry_file \<Rightarrow> kind_choice \<Rightarrow> string option \<Rightarrow> store
    \<Rightarrow> (string list \<times> string list \<times> cycle_clients) outcome \<times> store" where
  "prepare_cycle rt cfg have_db registry kind address db =
     (if \<not> have_db then (Failed DatabaseMissing, db)
      else case resolve_recorder_wallets address registry (kinds_of kind) of
        None \<Rightarrow> (Crashed, db)
      | Some None \<Rightarrow> (Failed NoIncludedWallets, db)
      | Some (Some (wallets, btc_wallets)) \<Rightarrow>
          (case ensure_providers (rt_seeds rt) db of
             Inl e \<Rightarrow> (Crashed, db)
           | Inr db1 \<Rightarrow>
               (case build_clients cfg (kinds_of kind) wallets btc_wallets of
                  Inl e \<Rightarrow> (Crashed, db1)
                | Inr clients \<Rightarrow> (Shown (wallets, btc_wallets, clients), db1))))"

definition one_cycle :: "runtime \<Rightarrow> 'e outside \<Rightarrow> settings \<Rightarrow> kind_choice \<Rightarrow> string list \<times> string list \<times> cycle_clients \<Rightarrow> store \<times> 'e
    \<Rightarrow> (cycle_result \<times> 'e cycle_world) option" where
  "one_cycle rt out cfg kind prepared st =
     (let (wallets, btc_wallets, clients) = prepared; (db, ev) = st
      in run_cycle (rt_fuel rt) out (rt_repr rt) (rt_coerce rt) (rt_to_bool rt) (rt_name rt) (rt_describe rt) cfg (kinds_of kind)
           wallets btc_wallets (o_clock out ev) (clients, db, ev))"

definition all_sources_ok :: "cycle_result \<Rightarrow> bool" where
  "all_sources_ok res \<longleftrightarrow> list_all (ss_ok \<circ> snd) (cr_sources res)"

definition failed_sources :: "cycle_result \<Rightarrow> (string \<times> cycle_error option) list" where
  "failed_sources res = map (\<lambda>(k, s). (k, ss_error s)) (filter (\<lambda>(k, s). \<not> ss_ok s) (cr_sources res))"

definition snapshot_command :: "runtime \<Rightarrow> 'e outside \<Rightarrow> settings \<Rightarrow> bool \<Rightarrow> registry_file \<Rightarrow> kind_choice \<Rightarrow> string option \<Rightarrow> store \<times> 'e
    \<Rightarrow> (cycle_result outcome \<times> store \<times> 'e) option" where
  "snapshot_command rt out cfg have_db registry kind address st =
     (case prepare_cycle rt cfg have_db registry kind address (fst st) of
        (Shown prepared, db) \<Rightarrow>
          map_option (\<lambda>(res, clients1, st1).
              (if all_sources_ok res then Shown res else Failed (SourcesFailed (failed_sources res)), st1))
            (one_cycle rt out cfg kind prepared (db, snd st))
      | (Failed f, db) \<Rightarrow> Some (Failed f, db, snd st)
      | (Crashed, db) \<Rightarrow> Some (Crashed, db, snd st))"

text \<open>The payload says whether all sources were well; the exit code does not.\<close>

definition recorder_cycle_command :: "runtime \<Rightarrow> 'e outside \<Rightarrow> settings \<Rightarrow> bool \<Rightarrow> registry_file \<Rightarrow> kind_choice \<Rightarrow> string option \<Rightarrow> store \<times> 'e
    \<Rightarrow> ((cycle_result \<times> bool) outcome \<times> store \<times> 'e) option" where
  "recorder_cycle_command rt out cfg have_db registry kind address st =
     (case prepare_cycle rt cfg have_db registry kind address (fst st) of
        (Shown prepared, db) \<Rightarrow>
          map_option (\<lambda>(res, clients1, st1). (Shown (res, all_sources_ok res), st1)) (one_cycle rt out cfg kind prepared (db, snd st))
      | (Failed f, db) \<Rightarrow> Some (Failed f, db, snd st)
      | (Crashed, db) \<Rightarrow> Some (Crashed, db, snd st))"

text \<open>The service loop; nothing asks it to stop.\<close>

definition recorder_intervals :: "duration \<Rightarrow> duration \<Rightarrow> string \<rightharpoonup> duration" where
  "recorder_intervals lp_interval hedge_interval =
     [''lp'' \<mapsto> lp_interval, ''defi'' \<mapsto> lp_interval, ''holdings'' \<mapsto> lp_interval, ''hedge'' \<mapsto> hedge_interval]"

definition recorder_run_command :: "runtime \<Rightarrow> 'e outside \<Rightarrow> settings \<Rightarrow> bool \<Rightarrow> registry_file \<Rightarrow> kind_choice \<Rightarrow> string option
    \<Rightarrow> duration \<Rightarrow> duration \<Rightarrow> nat option \<Rightarrow> store \<times> 'e \<Rightarrow> (service_status outcome \<times> store \<times> 'e) option" where
  "recorder_run_command rt out cfg have_db registry kind address lp_interval hedge_interval max_cycles st =
     (case prepare_cycle rt cfg have_db registry kind address (fst st) of
        (Failed f, db) \<Rightarrow> Some (Failed f, db, snd st)
      | (Crashed, db) \<Rightarrow> Some (Crashed, db, snd st)
      | (Shown (wallets, btc_wallets, clients), db) \<Rightarrow>
          (let sr = cycle_surroundings (rt_fuel rt) out (rt_repr rt) (rt_coerce rt) (rt_to_bool rt) (rt_name rt) (rt_describe rt) cfg
                 wallets btc_wallets (\<lambda>_. False);
               sv = new_service (kinds_of kind) (recorder_intervals lp_interval hedge_interval) None (seconds 5) (seconds 300)
           in map_option (\<lambda>(r, w1). (case r of Inl _ \<Rightarrow> Crashed | Inr sv1 \<Rightarrow> Shown (service_status_of sr sv1 None w1), snd w1))
                (service_run sr max_cycles sv (clients, db, snd st))))"

section \<open>One-shot reads of the chain\<close>

text \<open>Discovering and recording the positions of the wallets at one pin. Every statement commits by itself: what was
  recorded before an error stays. The state carries the time of the first recording.\<close>

fun record_found :: "'e outside \<Rightarrow> string \<Rightarrow> lp_position list \<Rightarrow> instant option \<Rightarrow> 'e ring \<Rightarrow> (nat \<times> instant option, 'e) rpc_result" where
  "record_found out wallet [] stamp st = Some (Inr (0, stamp), st)"
| "record_found out wallet (p # ps) stamp (ts, db, ev) =
     (let t = (case stamp of Some t \<Rightarrow> t | None \<Rightarrow> o_clock out ev)
      in case record_lp wallet p t db of
           None \<Rightarrow> Some (Inl PythonRaised, ts, db, ev)
         | Some db1 \<Rightarrow> bind_r (record_found out wallet ps (Some t) (ts, db1, ev)) (\<lambda>(n, stamp1) st1. Some (Inr (n + 1, stamp1), st1)))"

fun lp_wallets :: "runtime \<Rightarrow> 'e outside \<Rightarrow> settings \<Rightarrow> rpc_client \<Rightarrow> bool \<Rightarrow> int \<Rightarrow> string list \<Rightarrow> instant option \<Rightarrow> 'e ring
    \<Rightarrow> (lp_position list \<times> nat \<times> instant option, 'e) rpc_result" where
  "lp_wallets rt out cfg client recording pin [] stamp st = Some (Inr ([], 0, stamp), st)"
| "lp_wallets rt out cfg client recording pin (wallet # wallets) stamp st =
     bind_r (discover (rt_fuel rt) out (rt_repr rt) client wallet cfg pin st)
       (\<lambda>ps st1. bind_r (if recording then record_found out wallet ps stamp st1 else Some (Inr (0, stamp), st1))
         (\<lambda>(n, stamp1) st2. bind_r (lp_wallets rt out cfg client recording pin wallets stamp1 st2)
           (\<lambda>(qs, m, stamp2) st3. Some (Inr (ps @ qs, n + m, stamp2), st3))))"

record lp_payload =
  lc_block :: int
  lc_wallets :: "string list"
  lc_positions :: "lp_position list"
  lc_recorded :: "nat option"

definition lp_read :: "runtime \<Rightarrow> 'e outside \<Rightarrow> settings \<Rightarrow> rpc_client \<Rightarrow> bool \<Rightarrow> string list \<Rightarrow> 'e ring \<Rightarrow> (lp_payload, 'e) rpc_result" where
  "lp_read rt out cfg client recording wallets st =
     bind_r (resolve_pin (rt_fuel rt) out (rt_repr rt) client 3 st)
       (\<lambda>pin st1. bind_r (lp_wallets rt out cfg client recording pin wallets None st1)
         (\<lambda>(ps, n, stamp) (ts, db, ev).
            Some (Inr \<lparr>lc_block = pin, lc_wallets = wallets, lc_positions = ps, lc_recorded = (if recording then Some n else None)\<rparr>,
              ts, (if recording
                   then insert_snapshot (case stamp of Some t \<Rightarrow> t | None \<Rightarrow> o_clock out ev) ''base'' (Some pin) ''lp'' db else db), ev)))"

text \<open>Only errors of the ring and of the quota tracker are reported.\<close>

definition of_probe :: "('a probed \<times> store \<times> 'e) option \<Rightarrow> ('a outcome \<times> store \<times> 'e) option" where
  "of_probe r = map_option (\<lambda>(x, st).
     (case x of Answered a \<Rightarrow> Shown a | Caught (ProbeTransport e) \<Rightarrow> Crashed | Caught e \<Rightarrow> Failed (UpstreamFailed e) | Escaped \<Rightarrow> Crashed, st)) r"

definition lp_command :: "runtime \<Rightarrow> 'e outside \<Rightarrow> settings \<Rightarrow> bool \<Rightarrow> registry_file \<Rightarrow> string option \<Rightarrow> bool \<Rightarrow> store \<times> 'e
    \<Rightarrow> (lp_payload outcome \<times> store \<times> 'e) option" where
  "lp_command rt out cfg have_db registry address recording st =
     (if \<not> have_db then Some (Failed DatabaseMissing, st)
      else case (case address of Some (c # cs) \<Rightarrow> Inr [c # cs] | _ \<Rightarrow> map_sum id (included_of ''evm'') (list_wallets registry)) of
        Inl e \<Rightarrow> Some (Crashed, st)
      | Inr wallets \<Rightarrow>
          if wallets = [] then Some (Failed NoIncludedWallets, st)
          else (case ensure_providers (rt_seeds rt) (fst st) of
             Inl e \<Rightarrow> Some (Failed (UpstreamFailed (ProbeQuota e)), st)
           | Inr db \<Rightarrow> of_probe (probe_chain ''base'' cfg (\<lambda>client. lp_read rt out cfg client recording wallets) (db, snd st))))"

text \<open>One block-pinned snapshot per chain; an error ends the command, the rows of the chains before stay.\<close>

datatype chain_choice = BothChains | OnlyBase | OnlyArbitrum

definition chains_of :: "chain_choice \<Rightarrow> string list" where
  "chains_of c = (case c of BothChains \<Rightarrow> [''base'', ''arbitrum''] | OnlyBase \<Rightarrow> [''base''] | OnlyArbitrum \<Rightarrow> [''arbitrum''])"

fun chain_snapshots :: "runtime \<Rightarrow> 'e outside \<Rightarrow> settings \<Rightarrow> string list \<Rightarrow> store \<times> 'e
    \<Rightarrow> ((string \<times> int \<times> instant) list probed \<times> store \<times> 'e) option" where
  "chain_snapshots rt out cfg [] st = Some (Answered [], st)"
| "chain_snapshots rt out cfg (chain # cs) st =
     (case probe_chain chain cfg (\<lambda>client. snapshot (rt_fuel rt) out (rt_repr rt) client ''chain-snapshot'' []) st of
        None \<Rightarrow> None
      | Some (Caught e, st1) \<Rightarrow> Some (Caught e, st1)
      | Some (Escaped, st1) \<Rightarrow> Some (Escaped, st1)
      | Some (Answered snap, st1) \<Rightarrow>
          map_option (\<lambda>(r, st2).
              (case r of Answered rest \<Rightarrow> Answered ((chain, ps_block snap, ps_ts snap) # rest) | Caught e \<Rightarrow> Caught e | Escaped \<Rightarrow> Escaped, st2))
            (chain_snapshots rt out cfg cs st1))"

definition chain_command :: "runtime \<Rightarrow> 'e outside \<Rightarrow> settings \<Rightarrow> bool \<Rightarrow> chain_choice \<Rightarrow> store \<times> 'e
    \<Rightarrow> ((string \<times> int \<times> instant) list outcome \<times> store \<times> 'e) option" where
  "chain_command rt out cfg have_db chain st =
     (if \<not> have_db then Some (Failed DatabaseMissing, st)
      else case ensure_providers (rt_seeds rt) (fst st) of
        Inl e \<Rightarrow> Some (Failed (UpstreamFailed (ProbeQuota e)), st)
      | Inr db \<Rightarrow> of_probe (chain_snapshots rt out cfg (chains_of chain) (db, snd st)))"

section \<open>One-shot reads of the services\<close>

fun record_shorts :: "'e outside \<Rightarrow> gmx_position list \<Rightarrow> store \<times> 'e \<Rightarrow> store option \<times> store" where
  "record_shorts out [] st = (Some (fst st), fst st)"
| "record_shorts out (p # ps) (db, ev) =
     (case record_observation p (o_clock out ev) db of
        None \<Rightarrow> (None, db)
      | Some db1 \<Rightarrow> record_shorts out ps (db1, ev))"

definition gmx_command :: "runtime \<Rightarrow> 'e outside \<Rightarrow> settings \<Rightarrow> bool \<Rightarrow> registry_file \<Rightarrow> string option \<Rightarrow> bool \<Rightarrow> store \<times> 'e
    \<Rightarrow> ((string \<times> gmx_position list \<times> nat option) outcome \<times> store \<times> 'e) option" where
  "gmx_command rt out cfg have_db registry address recording st =
     (if \<not> have_db then Some (Failed DatabaseMissing, st)
      else case (case address of Some a \<Rightarrow> Inr [a] | None \<Rightarrow> map_sum id (included_of ''evm'') (list_wallets registry)) of
        Inl e \<Rightarrow> Some (Crashed, st)
      | Inr [a] \<Rightarrow>
          (case ensure_providers (rt_seeds rt) (fst st) of
             Inl e \<Rightarrow> Some (Failed (UpstreamFailed (ProbeQuota e)), st)
           | Inr db \<Rightarrow>
               (case peer_transports (\<lambda>_. ''gmx'') (gmx_rest_peers cfg) of
                  Inl e \<Rightarrow> Some (Failed (UpstreamFailed (ProbeTransport e)), db, snd st)
                | Inr ts \<Rightarrow>
                    map_option (\<lambda>(x, cache, ts1, db1, ev1).
                        (case of_client x of
                           Escaped \<Rightarrow> (Crashed, db1, ev1)
                         | Caught e \<Rightarrow> (Failed (UpstreamFailed e), db1, ev1)
                         | Answered ps \<Rightarrow>
                             if \<not> recording then (Shown (a, ps, None), db1, ev1)
                             else (case record_shorts out ps (db1, ev1) of
                                     (None, db2) \<Rightarrow> (Crashed, db2, ev1)
                                   | (Some db2, _) \<Rightarrow> (Shown (a, ps, Some (List.length ps)), db2, ev1))))
                      (get_positions (rt_fuel rt) out (rt_repr rt) (rt_to_bool rt) (gmx_rest_peers cfg) a True (None, ts, db, snd st))))
      | Inr ws \<Rightarrow> Some (Failed (NotOneWallet (List.length ws)), st))"

text \<open>A refused item is reported, a payload of a wrong shape is not caught: both end with 1 and are
  \<open>RefusedPayload\<close> here.\<close>

datatype market_request = PoolCommand string string bool | OhlcvCommand string string string string int bool

datatype market_payload = PoolShown pool_details bool | CandlesShown "candle list" "nat option"

definition market_end :: "client_raised \<Rightarrow> 'a outcome" where
  "market_end e = (case e of ClientRaised x \<Rightarrow> Failed (UpstreamFailed (ProbeClient x)) | ClientQuota q \<Rightarrow> Failed (UpstreamFailed (ProbeQuota q))
                           | ClientPython \<Rightarrow> Failed RefusedPayload)"

definition market_run :: "runtime \<Rightarrow> 'e outside \<Rightarrow> market_request \<Rightarrow> 'e traffic \<Rightarrow> (market_payload outcome \<times> store \<times> 'e) option" where
  "market_run rt out cmd w = (case cmd of
     PoolCommand network address recording \<Rightarrow>
       map_option (\<lambda>(x, t, db, ev). (case x of
           Inl e \<Rightarrow> (market_end e, db, ev)
         | Inr d \<Rightarrow> (Shown (PoolShown d recording), if recording then record_pool_metrics d (o_clock out ev) db else db, ev)))
         (get_pool (rt_fuel rt) out (rt_coerce rt) network address w)
   | OhlcvCommand network address start interval limit recording \<Rightarrow>
       map_option (\<lambda>(x, t, db, ev). (case x of
           Inl e \<Rightarrow> (market_end e, db, ev)
         | Inr cs \<Rightarrow>
             (if recording
              then let (n, db1) = record_ohlcv network address interval cs (o_clock out ev) db in (Shown (CandlesShown cs (Some n)), db1, ev)
              else (Shown (CandlesShown cs None), db, ev))))
         (get_ohlcv (rt_fuel rt) out (rt_coerce rt) network address start interval limit w))"

definition market_command :: "runtime \<Rightarrow> 'e outside \<Rightarrow> settings \<Rightarrow> 'd installation \<Rightarrow> market_request \<Rightarrow> store \<times> 'e
    \<Rightarrow> (market_payload outcome \<times> store \<times> 'e) option" where
  "market_command rt out cfg inst cmd st =
     (if \<not> in_have_db inst then Some (Failed DatabaseMissing, st)
      else if Migrations.pending (in_catalogue inst) (in_schema inst) \<noteq> [] then Some (Failed SchemaOutdated, st)
      else case ensure_providers (rt_seeds rt) (fst st) of
        Inl e \<Rightarrow> Some (Failed (UpstreamFailed (ProbeQuota e)), st)
      | Inr db \<Rightarrow>
          (case new_transport (dexpaprika_base_url cfg) ''dexpaprika'' 4 5 (seconds 60) of
             Inl e \<Rightarrow> Some (Failed (UpstreamFailed (ProbeTransport e)), db, snd st)
           | Inr t \<Rightarrow> market_run rt out cmd (t, db, snd st)))"

section \<open>A snapshot that ends with 0\<close>

lemma optional_client:
  "(if b then map_sum f (\<lambda>x. Some (h x)) x else Inr None) = Inr r \<Longrightarrow> (r = None) = (\<not> b)"
  by (cases x) (auto split: if_splits)

lemma build_clients_facts:
  assumes "build_clients cfg kinds wallets btc_wallets = Inr c"
  shows "(cy_base c = None) = (\<not> need_base kinds wallets)" "(cy_gmx c = None) = (''hedge'' \<notin> set kinds)"
    "(cy_btc c = None) = (\<not> (''holdings'' \<in> set kinds \<and> btc_wallets \<noteq> []))"
proof -
  let ?base = "if need_base kinds wallets then map_sum id Some (new_rpc_client ''base'' cfg) else Inr None"
  let ?dex = "if ''lp'' \<in> set kinds \<and> need_base kinds wallets
    then map_sum Inr Some (new_transport (dexpaprika_base_url cfg) ''dexpaprika'' 4 5 (seconds 60)) else (Inr None :: (rpc_error + transport_error) + _)"
  let ?gmx = "if ''hedge'' \<in> set kinds
    then map_sum Inr (\<lambda>ts. Some (gmx_rest_peers cfg, None :: gmx_market list option, ts)) (peer_transports (\<lambda>_. ''gmx'') (gmx_rest_peers cfg)) else (Inr None :: (rpc_error + transport_error) + _)"
  let ?btc = "if ''holdings'' \<in> set kinds \<and> btc_wallets \<noteq> []
    then map_sum Inr (\<lambda>ts. Some (btc_esplora_peers cfg, ts)) (peer_transports provider_for (btc_esplora_peers cfg)) else (Inr None :: (rpc_error + transport_error) + _)"
  have c: "(case ?base of Inl e \<Rightarrow> Inl e | Inr base \<Rightarrow> (case ?dex of Inl e \<Rightarrow> Inl e | Inr dex \<Rightarrow> (case ?gmx of Inl e \<Rightarrow> Inl e | Inr gmx \<Rightarrow>
      (case ?btc of Inl e \<Rightarrow> Inl e | Inr btc \<Rightarrow> Inr \<lparr>cy_base = base, cy_gmx = gmx, cy_dexpaprika = dex, cy_btc = btc\<rparr>)))) = Inr c"
    using assms by (simp only: build_clients_def)
  obtain base where b: "?base = Inr base" using c by (cases ?base) (simp_all only: sum.case sum.distinct)
  obtain dex where d: "?dex = Inr dex" using c unfolding b by (cases ?dex) (simp_all only: sum.case sum.distinct)
  obtain gmx where g: "?gmx = Inr gmx" using c unfolding b d by (cases ?gmx) (simp_all only: sum.case sum.distinct)
  obtain btc where t: "?btc = Inr btc" using c unfolding b d g by (cases ?btc) (simp_all only: sum.case sum.distinct)
  have "c = \<lparr>cy_base = base, cy_gmx = gmx, cy_dexpaprika = dex, cy_btc = btc\<rparr>"
    using c unfolding b d g t by (simp only: sum.case sum.inject)
  with optional_client [OF b] optional_client [OF g] optional_client [OF t]
  show "(cy_base c = None) = (\<not> need_base kinds wallets)" "(cy_gmx c = None) = (''hedge'' \<notin> set kinds)"
    "(cy_btc c = None) = (\<not> (''holdings'' \<in> set kinds \<and> btc_wallets \<noteq> []))" by (simp_all only: cycle_clients.simps)
qed

lemma build_clients_equipped: "build_clients cfg kinds wallets btc_wallets = Inr c \<Longrightarrow> equipped wallets btc_wallets c"
  by (auto simp: equipped_def build_clients_facts need_base_def)

lemma prepared_facts:
  assumes "prepare_cycle rt cfg have_db registry kind address db = (Shown (wallets, btc_wallets, c), db1)"
  shows "equipped wallets btc_wallets c" "cycle_kinds (kinds_of kind) c \<noteq> []"
proof -
  from assms have b: "build_clients cfg (kinds_of kind) wallets btc_wallets = Inr c"
    and r: "resolve_recorder_wallets address registry (kinds_of kind) = Some (Some (wallets, btc_wallets))"
    by (auto simp: prepare_cycle_def split: if_splits option.splits sum.splits)
  then show "equipped wallets btc_wallets c" by (intro build_clients_equipped)
  have w: "wallets \<noteq> [] \<or> btc_wallets \<noteq> [] \<and> ''holdings'' \<in> set (kinds_of kind)"
    using r by (auto simp: resolve_recorder_wallets_def Let_def split: option.splits list.splits sum.splits if_splits)
  show "cycle_kinds (kinds_of kind) c \<noteq> []"
    using w by (cases kind) (auto simp: cycle_kinds_def build_clients_facts [OF b] kinds_of_def need_base_def)
qed

lemma snapshot_shown:
  assumes "snapshot_command rt out cfg have_db registry kind address (db, ev) = Some (Shown res, db1, ev1)"
  shows "stamped (o_clock out ev) db1" "all_sources_ok res" "cr_sources res \<noteq> []"
proof -
  obtain wallets btc_wallets c db0 where p: "prepare_cycle rt cfg have_db registry kind address db = (Shown (wallets, btc_wallets, c), db0)"
    using assms by (auto simp: snapshot_command_def split: prod.splits outcome.splits)
  then obtain c1 where run: "run_cycle (rt_fuel rt) out (rt_repr rt) (rt_coerce rt) (rt_to_bool rt) (rt_name rt) (rt_describe rt) cfg (kinds_of kind)
      wallets btc_wallets (o_clock out ev) (c, db0, ev) = Some (res, c1, db1, ev1)" and ok: "all_sources_ok res"
    using assms by (auto simp: snapshot_command_def one_cycle_def split: if_splits)
  have "map fst (cr_sources res) = cycle_kinds (kinds_of kind) c" using cycle_isolates_facts [OF run] by (elim exE conjE) (simp only: fst_conv)
  with prepared_facts(2) [OF p] show some: "cr_sources res \<noteq> []" by auto
  then have "succeeded res \<noteq> []" using ok by (cases "cr_sources res") (auto simp: succeeded_def all_sources_ok_def)
  then show "stamped (o_clock out ev) db1"
    using cycle_stamps [OF run] prepared_facts(1) [OF p] by (simp add: cycle_store_def)
  show "all_sources_ok res" by (rule ok)
qed

lemma stamped_not_stale:
  assumes "stamped t db" "now - t < minutes (snapshot_staleness_minutes cfg + 1)"
  shows "staleness_alert db cfg now = None"
proof (rule ccontr)
  assume "staleness_alert db cfg now \<noteq> None"
  then have "minutes (snapshot_staleness_minutes cfg + 1) \<le> now - s_ts r" if "r \<in> set (snapshots db)" for r
    using that by (rule bspec [OF iffD1 [OF staleness_alert_due]])
  moreover obtain r where "r \<in> set (snapshots db)" "s_ts r = t" using assms(1) by (auto simp: stamped_def)
  ultimately show False using assms(2) by fastforce
qed

text \<open>C19. The remedy the health check names works: after a \<open>snapshot\<close> command that ended with 0 the rule of the
  staleness alert is silent, and the check of the newest snapshot passes, until the staleness threshold
  has passed since the command read the clock. (At least one source was attempted, every one succeeded and each
  wrote its snapshot row.)\<close>

theorem snapshot_clears_staleness:
  assumes "snapshot_command rt out cfg have_db registry kind address (db, ev) = Some (Shown res, db1, ev1)"
    "now - o_clock out ev < minutes (snapshot_staleness_minutes cfg + 1)"
  shows "cr_sources res \<noteq> [] \<and> all_sources_ok res \<and> staleness_alert db1 cfg now = None
    \<and> passing (check_last_snapshot_age inst cfg now db1) = in_have_db inst"
  using snapshot_shown [OF assms(1)] stamped_not_stale [OF _ assms(2)] by (auto simp: passing_snapshot_age)

text \<open>A wallet without a Sickle on a node that tells block 100; no manager and no pool is tracked.\<close>

definition quiet_settings :: settings where
  "quiet_settings = default_settings\<lparr>base_rpc_urls := [''https://base''], base_nfpm_addresses := [], base_tracked_pools := []\<rparr>"

definition quiet_script :: "string list" where
  "quiet_script = [''0x64'', hexword 0]"

definition quiet_runtime :: runtime where
  "quiet_runtime = \<lparr>rt_fuel = Suc 0, rt_repr = (\<lambda>_. []), rt_coerce = \<lparr>to_int = (\<lambda>_. None), to_dec = (\<lambda>_. None)\<rparr>, rt_to_bool = (\<lambda>_. None),
     rt_name = (\<lambda>_. []), rt_describe = (\<lambda>_. []), rt_seeds = []\<rparr>"

lemma quiet_discovery:
  assumes "answered 1 st"
  shows "\<exists>st1. discover (Suc 0) (scripted quiet_script) repr node_client ''0x1'' quiet_settings 97 st = Some (Inr [], st1) \<and> answered 2 st1"
proof -
  let ?call = "\<lambda>to data. eth_call (Suc 0) (scripted quiet_script) repr node_client to data (BlockNumber 97)"
  have "addr_arg ''0x1'' \<noteq> None" by code_simp
  then obtain a where a: "addr_arg ''0x1'' = Some a" by blast
  have z: "int_base16 (addr_from (hexword 0)) = Some 0" by code_simp
  obtain st1 where call: "?call sickle_factory (selector ''sickles(address)'' @ a) st = Some (Inr (quiet_script ! 1), st1)" "answered 2 st1"
    using answered_call [OF assms, where answers = quiet_script and repr = repr and to = sickle_factory
        and data = "selector ''sickles(address)'' @ a" and b = "BlockNumber 97"] by (auto simp: numeral_2_eq_2)
  have "discover (Suc 0) (scripted quiet_script) repr node_client ''0x1'' quiet_settings 97 st = Some (Inr [], st1)"
    using call(1) by (simp add: discover_def discover_with_def candidate_owners_def disc_call_def a bind_r_def or_raise_def z quiet_script_def
        quiet_settings_def empty_disc_def)
  with call(2) show ?thesis by blast
qed

lemma quiet_snapshot:
  "\<exists>res st1. snapshot_command quiet_runtime (scripted quiet_script) quiet_settings True NoFile OnlyLp (Some ''0x1'') (script_store, 0) = Some (Shown res, st1)"
proof -
  let ?t = "\<lparr>tr_provider = ''dexpaprika'', tr_max_attempts = 4, tr_threshold = 5, tr_cooldown = seconds 60, tr_failures = 0, tr_opened_at = None\<rparr>"
  let ?c = "\<lparr>cy_base = Some (node_client, [node_transport]), cy_gmx = None, cy_dexpaprika = Some ?t, cy_btc = None\<rparr>"
  have b: "build_clients quiet_settings [''lp''] [''0x1''] [] = Inr ?c"
    by (simp add: build_clients_def need_base_def new_rpc_client_def chain_ids_def quiet_settings_def new_transport_def node_client_def
        node_transport_def default_settings_def)
  have p: "prepare_cycle quiet_runtime quiet_settings True NoFile OnlyLp (Some ''0x1'') script_store = (Shown ([''0x1''], [], ?c), script_store)"
    by (simp add: prepare_cycle_def resolve_recorder_wallets_def kinds_of_def b quiet_runtime_def)
  obtain st1 where r: "rpc (Suc 0) (scripted quiet_script) (\<lambda>_. []) node_client ''eth_blockNumber'' [] ([node_transport], script_store, 0)
      = Some (Inr (JStr (quiet_script ! 0)), st1)" "answered 1 st1"
    using answered_rpc [OF answered_start, of "''eth_blockNumber''" quiet_script "\<lambda>_. []" "[]"] by auto
  have h: "int_base16 ''0x64'' = Some 100" by code_simp
  have pin: "resolve_pin (Suc 0) (scripted quiet_script) (\<lambda>_. []) node_client 3 ([node_transport], script_store, 0) = Some (Inr 97, st1)"
    using r(1) by (simp add: resolve_pin_def block_number_def bind_r_def quiet_script_def text_of_def str_of_def or_raise_def h)
  obtain st2 where d: "discover (Suc 0) (scripted quiet_script) (\<lambda>_. []) node_client ''0x1'' quiet_settings 97 st1 = Some (Inr [], st2)"
    using quiet_discovery [OF r(2)] by blast
  obtain db1 n1 where st1: "st1 = ([node_transport], db1, n1)" using r(2) by (auto simp: answered_def)
  obtain ts2 db2 n2 where st2: "st2 = (ts2, db2, n2)" by (cases st2) auto
  have run: "\<exists>n b w1. record_lp_source (Suc 0) (scripted quiet_script) (\<lambda>_. []) co nm quiet_settings [''0x1''] ts (?c, script_store, 0)
      = Some (Inr (n, b), w1)" for co nm ts
    by (simp add: record_lp_source_def on_base_def pin bind_r_def st1 lp_wallet_def d [unfolded st1] st2 put_def unit_write_def
        split: prod.split)
  have c: "cycle_sources (Suc 0) out repr co to_bool nm quiet_settings [''lp''] [''0x1''] [] ts ?c
      = [(''lp'', record_lp_source (Suc 0) out repr co nm quiet_settings [''0x1''] ts)]" for out :: "nat outside" and repr co to_bool nm ts
    by (simp add: cycle_sources_def)
  let ?src = "record_lp_source (Suc 0) (scripted quiet_script) (\<lambda>_. []) \<lparr>to_int = (\<lambda>_. None), to_dec = (\<lambda>_. None)\<rparr> (\<lambda>_. []) quiet_settings
      [''0x1''] (o_clock (scripted quiet_script) 0)"
  obtain n bl w1 where s: "?src (?c, script_store, 0) = Some (Inr (n, bl), w1)" using run by blast
  obtain c1 db3 n3 where w1: "w1 = (c1, db3, n3)" by (cases w1) auto
  obtain res c2 db2' n2' where "one_cycle quiet_runtime (scripted quiet_script) quiet_settings OnlyLp ([''0x1''], [], ?c) (script_store, 0) = Some (res, c2, db2', n2')"
      "all_sources_ok res"
    by (simp add: one_cycle_def quiet_runtime_def run_cycle_def kinds_of_def c run_source_def s w1 all_sources_ok_def)
  then show ?thesis by (simp add: snapshot_command_def p)
qed

definition quiet_run :: "cycle_result outcome \<times> store \<times> nat" where
  "quiet_run = the (snapshot_command quiet_runtime (scripted quiet_script) quiet_settings True NoFile OnlyLp (Some ''0x1'') (script_store, 0))"

lemma snapshot_clears_staleness_witness:
  "staleness_alert (fst (snd quiet_run)) quiet_settings 50 = None"
proof -
  obtain res db1 n1 where s: "snapshot_command quiet_runtime (scripted quiet_script) quiet_settings True NoFile OnlyLp (Some ''0x1'') (script_store, 0)
      = Some (Shown res, db1, n1)" using quiet_snapshot by auto
  have "50 - o_clock (scripted quiet_script) 0 < minutes (snapshot_staleness_minutes quiet_settings + 1)"
    by (simp add: scripted_def quiet_settings_def default_settings_def minutes_def)
  from snapshot_clears_staleness [OF s this, of well_kept, THEN conjunct2, THEN conjunct2, THEN conjunct1] s show ?thesis
    by (simp add: quiet_run_def)
qed

section \<open>What the one-shot commands leave\<close>

lemma snapshot_rows:
  assumes "snapshot fuel out repr client kind extra st = Some (r, st1)"
  shows "case r of Inl _ \<Rightarrow> snapshots (store_of st1) = snapshots (store_of st)
    | Inr snap \<Rightarrow> map (\<lambda>r. (s_ts r, s_chain r, s_block r, s_kind r)) (snapshots (store_of st1))
        = map (\<lambda>r. (s_ts r, s_chain r, s_block r, s_kind r)) (snapshots (store_of st)) @ [(ps_ts snap, rc_chain client, Some (ps_block snap), kind)]"
proof -
  have l: "log_only db db1 \<Longrightarrow> snapshots db1 = snapshots db" for db db1 by (auto simp: log_only_def)
  have c: "check_outputs out client kind pin outputs s = Some (r, s1) \<Longrightarrow> case r of Inl _ \<Rightarrow> store_of s1 = store_of s
      | Inr snap \<Rightarrow> store_of s1 = insert_snapshot (ps_ts snap) (rc_chain client) (Some (ps_block snap)) kind (store_of s)" for pin outputs s r s1
    by (auto simp: check_outputs_def Let_def store_of_def split: prod.splits list.splits if_splits option.splits)
  from assms show ?thesis
    unfolding snapshot_def bind_r_def
    by (auto split: option.splits sum.splits prod.splits dest!: resolve_pin_frame aggregate_frame l c simp: insert_snapshot_def)
qed

definition row_of :: "string \<times> int \<times> instant \<Rightarrow> instant \<times> string \<times> int option \<times> string" where
  "row_of x = (case x of (chain, block, ts) \<Rightarrow> (ts, chain, Some block, ''chain-snapshot''))"

definition snapshot_rows_of :: "store \<Rightarrow> (instant \<times> string \<times> int option \<times> string) list" where
  "snapshot_rows_of db = map (\<lambda>r. (s_ts r, s_chain r, s_block r, s_kind r)) (snapshots db)"

lemma probe_chain_rows:
  assumes "probe_chain chain cfg (\<lambda>client. snapshot fuel out repr client ''chain-snapshot'' []) (db, ev) = Some (r, db1, ev1)"
  shows "snapshot_rows_of db1 = snapshot_rows_of db @ (case r of Answered snap \<Rightarrow> [row_of (chain, ps_block snap, ps_ts snap)] | _ \<Rightarrow> [])"
proof (cases "new_rpc_client chain cfg")
  case (Inl e)
  with assms show ?thesis by (auto simp: probe_chain_def split: sum.splits)
next
  case (Inr ct)
  obtain client ts where ct: "ct = (client, ts)" by (cases ct) auto
  have rc: "rc_chain client = chain" using Inr ct by (auto simp: new_rpc_client_def Let_def split: if_splits sum.splits)
  from assms obtain x ts1 where s: "snapshot fuel out repr client ''chain-snapshot'' [] (ts, db, ev) = Some (x, ts1, db1, ev1)"
    and r: "r = (case x of Inr a \<Rightarrow> Answered a | Inl (RpcRaised e) \<Rightarrow> Caught (ProbeRpc e) | Inl (RpcQuota q) \<Rightarrow> Caught (ProbeQuota q)
                         | Inl PythonRaised \<Rightarrow> Escaped)"
    by (auto simp: probe_chain_def Inr ct of_rpc_def)
  show ?thesis
    using snapshot_rows [OF s]
    by (auto simp: r rc store_of_def snapshot_rows_of_def row_of_def split: sum.splits rpc_raised.splits)
qed

lemma chain_snapshots_rows:
  "chain_snapshots rt out cfg cs (db, ev) = Some (r, db1, ev1) \<Longrightarrow>
     \<exists>ys. snapshot_rows_of db1 = snapshot_rows_of db @ map row_of ys
       \<and> (case r of Answered xs \<Rightarrow> ys = xs \<and> map fst xs = cs | _ \<Rightarrow> List.length ys < List.length cs)"
proof (induction cs arbitrary: db ev r)
  case Nil
  then show ?case by (auto intro: exI [of _ "[]"])
next
  case (Cons c cs)
  let ?p = "probe_chain c cfg (\<lambda>client. snapshot (rt_fuel rt) out (rt_repr rt) client ''chain-snapshot'' []) (db, ev)"
  from Cons.prems obtain q db2 ev2 where p: "?p = Some (q, db2, ev2)" by (cases ?p) auto
  note rows = probe_chain_rows [OF p]
  show ?case
  proof (cases q)
    case (Answered snap)
    with Cons.prems p obtain r2 where r2: "chain_snapshots rt out cfg cs (db2, ev2) = Some (r2, db1, ev1)"
      "r = (case r2 of Answered rest \<Rightarrow> Answered ((c, ps_block snap, ps_ts snap) # rest) | Caught e \<Rightarrow> Caught e | Escaped \<Rightarrow> Escaped)"
      by auto
    from Cons.IH [OF r2(1)] obtain d where "snapshot_rows_of db1 = snapshot_rows_of db2 @ map row_of d"
      "case r2 of Answered xs \<Rightarrow> d = xs \<and> map fst xs = cs | _ \<Rightarrow> List.length d < List.length cs" by blast
    with rows Answered show ?thesis
      by (intro exI [of _ "(c, ps_block snap, ps_ts snap) # d"]) (auto simp: r2(2) split: probed.splits)
  next
    case (Caught e)
    with Cons.prems p rows show ?thesis by (intro exI [of _ "[]"]) auto
  next
    case Escaped
    with Cons.prems p rows show ?thesis by (intro exI [of _ "[]"]) auto
  qed
qed

lemma ensure_providers_rows: "ensure_providers seeds db = Inr db1 \<Longrightarrow> snapshots db1 = snapshots db"
proof (induction seeds arbitrary: db)
  case (Cons s ss)
  have c: "snapshots (fold (upsert_cost i) cs d) = snapshots d" for i cs d
    by (induction cs arbitrary: d) (auto simp: upsert_cost_def Let_def split: prod.splits)
  have "snapshots (upsert_provider s db) = snapshots db" by (simp add: upsert_provider_def Let_def)
  with Cons show ?case by (auto simp: Let_def c split: sum.splits)
qed simp

lemma of_probe_ends:
  "of_probe p = Some (r, st) \<Longrightarrow> \<exists>x. p = Some (x, st) \<and> (case x of Answered a \<Rightarrow> r = Shown a | _ \<Rightarrow> (\<forall>a. r \<noteq> Shown a))"
proof -
  assume "of_probe p = Some (r, st)"
  then obtain x where x: "p = Some (x, st)" "r = (case x of Answered a \<Rightarrow> Shown a | Caught (ProbeTransport e) \<Rightarrow> Crashed
      | Caught e \<Rightarrow> Failed (UpstreamFailed e) | Escaped \<Rightarrow> Crashed)" by (auto simp: of_probe_def)
  then show ?thesis by (cases x) (auto split: probe_error.splits)
qed

text \<open>\<open>chain snapshot\<close> shows what it recorded: the snapshot rows it adds are exactly the ones of the chains it
  shows, one for every chain asked for, in order, with the block and the time shown; when it fails, the
  rows of the chains before the failing one stay, and there are fewer than chains.\<close>

theorem chain_command_records:
  assumes "chain_command rt out cfg have_db chain (db, ev) = Some (r, db1, ev1)"
  shows "\<exists>ys. snapshot_rows_of db1 = snapshot_rows_of db @ map row_of ys
    \<and> (case r of Shown xs \<Rightarrow> ys = xs \<and> map fst xs = chains_of chain | _ \<Rightarrow> List.length ys < List.length (chains_of chain))"
proof -
  have none: "?thesis" if "\<forall>xs. r \<noteq> Shown xs" "db1 = db"
    using that by (intro exI [of _ "[]"]) (cases chain; cases r; simp add: chains_of_def)
  consider "\<not> have_db" | e where "ensure_providers (rt_seeds rt) db = Inl e"
    | db0 where "have_db" "ensure_providers (rt_seeds rt) db = Inr db0" by (cases "ensure_providers (rt_seeds rt) db") auto
  then show ?thesis
  proof cases
    case 3
    with assms have "of_probe (chain_snapshots rt out cfg (chains_of chain) (db0, ev)) = Some (r, db1, ev1)"
      by (simp add: chain_command_def)
    from of_probe_ends [OF this] obtain x where x: "chain_snapshots rt out cfg (chains_of chain) (db0, ev) = Some (x, db1, ev1)"
      "case x of Answered a \<Rightarrow> r = Shown a | _ \<Rightarrow> (\<forall>a. r \<noteq> Shown a)" by blast
    have "snapshot_rows_of db0 = snapshot_rows_of db" using ensure_providers_rows [OF 3(2)] by (simp add: snapshot_rows_of_def)
    with chain_snapshots_rows [OF x(1)] x(2) show ?thesis by (cases x; cases r) auto
  qed (use assms none in \<open>auto simp: chain_command_def split: if_splits\<close>)
qed

lemma chain_command_records_witness:
  "\<exists>snap st1. chain_command (quiet_runtime\<lparr>rt_seeds := []\<rparr>) node quiet_settings True OnlyBase (node_store, 50) = Some (Shown [snap], st1)
     \<and> snapshot_rows_of (fst st1) = [row_of snap]"
proof -
  obtain snap st1 where s: "snapshot (Suc 0) node (\<lambda>_. []) node_client ''chain-snapshot'' [] ([node_transport], node_store, 50) = Some (Inr snap, st1)"
    using node_snapshot by blast
  obtain ts db1 ev1 where st1: "st1 = (ts, db1, ev1)" by (cases st1) auto
  have c: "new_rpc_client ''base'' quiet_settings = Inr (node_client, [node_transport])"
    by (simp add: new_rpc_client_def chain_ids_def quiet_settings_def new_transport_def node_client_def node_transport_def)
  have run: "chain_command (quiet_runtime\<lparr>rt_seeds := []\<rparr>) node quiet_settings True OnlyBase (node_store, 50)
      = Some (Shown [(''base'', ps_block snap, ps_ts snap)], db1, ev1)"
    by (simp add: chain_command_def chains_of_def probe_chain_def c quiet_runtime_def s st1 of_rpc_def of_probe_def)
  have "snapshot_rows_of node_store = []" by (simp add: snapshot_rows_of_def node_store_def empty_store_def)
  with chain_command_records [OF run] run show ?thesis by auto
qed

section \<open>The lp command\<close>

lemma record_lp_snapshots: "record_lp wallet p t db = Some db1 \<Longrightarrow> snapshot_rows_of db1 = snapshot_rows_of db"
  by (auto simp: record_lp_def insert_observed_def upsert_metadata_def insert_position_def insert_event_def snapshot_rows_of_def split: option.splits if_splits)

lemma record_found_facts:
  "record_found out wallet ps stamp st = Some (r, st1) \<Longrightarrow>
     snapshot_rows_of (store_of st1) = snapshot_rows_of (store_of st) \<and> (\<forall>n t. r = Inr (n, t) \<longrightarrow> n = List.length ps)"
proof (induction ps arbitrary: stamp st r)
  case (Cons p ps)
  obtain ts db ev where st: "st = (ts, db, ev)" by (cases st) auto
  let ?t = "case stamp of Some t \<Rightarrow> t | None \<Rightarrow> o_clock out ev"
  show ?case
  proof (cases "record_lp wallet p ?t db")
    case None
    with Cons.prems show ?thesis by (auto simp: st store_of_def)
  next
    case (Some db1)
    with Cons.prems obtain q where q: "record_found out wallet ps (Some ?t) (ts, db1, ev) = Some (q, st1)"
      "r = map_sum id (\<lambda>(n, t). (n + 1, t)) q"
      by (auto simp: st Let_def bind_r_def split: option.splits sum.splits prod.splits)
    have "snapshot_rows_of db1 = snapshot_rows_of db" by (rule record_lp_snapshots [OF Some])
    with Cons.IH [OF q(1)] show ?thesis by (cases q) (auto simp: q(2) st store_of_def)
  qed
qed auto

lemma log_only_rows: "log_only db db1 \<Longrightarrow> snapshot_rows_of db1 = snapshot_rows_of db"
  by (auto simp: log_only_def snapshot_rows_of_def)

lemma lp_wallets_facts:
  "lp_wallets rt out cfg client recording pin wallets stamp st = Some (r, st1) \<Longrightarrow>
     snapshot_rows_of (store_of st1) = snapshot_rows_of (store_of st)
     \<and> (\<forall>ps n t. r = Inr (ps, n, t) \<longrightarrow> n = (if recording then List.length ps else 0))"
proof (induction wallets arbitrary: stamp st r)
  case (Cons wallet wallets)
  let ?rec = "\<lambda>ps s. if recording then record_found out wallet ps stamp s else Some (Inr (0, stamp), s)"
  have rec: "snapshot_rows_of (store_of s1) = snapshot_rows_of (store_of s) \<and> (\<forall>n t. q = Inr (n, t) \<longrightarrow> n = (if recording then List.length ps else 0))"
    if "?rec ps s = Some (q, s1)" for ps s q s1
    using that record_found_facts [of out wallet ps stamp s q s1] by (auto split: if_splits)
  have disc: "snapshot_rows_of (store_of s1) = snapshot_rows_of (store_of st)"
    if "discover (rt_fuel rt) out (rt_repr rt) client wallet cfg pin st = Some (q, s1)" for q s1
    by (rule log_only_rows [OF discover_frame [OF that]])
  from Cons.prems show ?case
    unfolding lp_wallets.simps bind_r_def
    by (auto split: option.splits sum.splits prod.splits dest!: disc rec Cons.IH)
qed simp

lemma lp_read_facts:
  assumes "lp_read rt out cfg client recording wallets st = Some (r, st1)"
  shows "case r of
      Inl _ \<Rightarrow> snapshot_rows_of (store_of st1) = snapshot_rows_of (store_of st)
    | Inr p \<Rightarrow> lc_recorded p = (if recording then Some (List.length (lc_positions p)) else None) \<and> lc_wallets p = wallets
        \<and> (\<exists>t. snapshot_rows_of (store_of st1) = snapshot_rows_of (store_of st) @ (if recording then [(t, ''base'', Some (lc_block p), ''lp'')] else []))"
proof -
  have pin: "snapshot_rows_of (store_of s1) = snapshot_rows_of (store_of st)"
    if "resolve_pin (rt_fuel rt) out (rt_repr rt) client 3 st = Some (q, s1)" for q s1
    by (rule log_only_rows [OF resolve_pin_frame [OF that]])
  have ins: "snapshot_rows_of (insert_snapshot t c b k d) = snapshot_rows_of d @ [(t, c, b, k)]" for t c b k d
    by (simp add: snapshot_rows_of_def insert_snapshot_def)
  from assms show ?thesis
    unfolding lp_read_def bind_r_def
    by (auto split: option.splits sum.splits prod.splits dest!: pin lp_wallets_facts simp: store_of_def ins)
qed

text \<open>The payload of \<open>lp snapshot\<close> and the database agree: when the command shows its positions it has recorded exactly
  as many as it lists (if asked to) and added one snapshot row with its block, none if not asked to; when it
  fails it adds no snapshot row, whatever it had recorded by then.\<close>

theorem lp_command_records:
  assumes "lp_command rt out cfg have_db registry address recording (db, ev) = Some (r, db1, ev1)"
  shows "case r of
      Shown p \<Rightarrow> lc_recorded p = (if recording then Some (List.length (lc_positions p)) else None) \<and> lc_wallets p \<noteq> []
        \<and> (\<exists>t. snapshot_rows_of db1 = snapshot_rows_of db @ (if recording then [(t, ''base'', Some (lc_block p), ''lp'')] else []))
    | _ \<Rightarrow> snapshot_rows_of db1 = snapshot_rows_of db"
proof -
  have same: ?thesis if "\<forall>p. r \<noteq> Shown p" "db1 = db" using that by (cases r) auto
  let ?ws = "case address of Some (c # cs) \<Rightarrow> Inr [c # cs] | _ \<Rightarrow> map_sum id (included_of ''evm'') (list_wallets registry)"
  show ?thesis
  proof (cases "have_db \<and> (\<exists>ws db0. ?ws = Inr ws \<and> ws \<noteq> [] \<and> ensure_providers (rt_seeds rt) db = Inr db0)")
    case False
    with assms have "(\<forall>p. r \<noteq> Shown p) \<and> db1 = db"
      unfolding lp_command_def by (auto split: if_splits sum.splits)
    with same show ?thesis by blast
  next
    case True
    then obtain ws db0 where t: "have_db" "?ws = Inr ws" "ws \<noteq> []" "ensure_providers (rt_seeds rt) db = Inr db0" by blast
    with assms have "of_probe (probe_chain ''base'' cfg (\<lambda>client. lp_read rt out cfg client recording ws) (db0, ev)) = Some (r, db1, ev1)"
      by (simp only: lp_command_def sum.case if_False not_True_eq_False fst_conv snd_conv)
    from of_probe_ends [OF this] obtain x where x: "probe_chain ''base'' cfg (\<lambda>client. lp_read rt out cfg client recording ws) (db0, ev) = Some (x, db1, ev1)"
      "case x of Answered a \<Rightarrow> r = Shown a | _ \<Rightarrow> (\<forall>a. r \<noteq> Shown a)" by blast
    have e: "snapshot_rows_of db0 = snapshot_rows_of db" using ensure_providers_rows [OF t(4)] by (simp add: snapshot_rows_of_def)
    show ?thesis
    proof (cases "new_rpc_client ''base'' cfg")
      case (Inl err)
      with x e show ?thesis by (cases r) (auto simp: probe_chain_def split: sum.splits)
    next
      case (Inr ct)
      obtain client ts where ct: "ct = (client, ts)" by (cases ct) auto
      from x(1) obtain y ts1 where y: "lp_read rt out cfg client recording ws (ts, db0, ev) = Some (y, ts1, db1, ev1)"
        "x = (case y of Inr a \<Rightarrow> Answered a | Inl (RpcRaised e) \<Rightarrow> Caught (ProbeRpc e) | Inl (RpcQuota q) \<Rightarrow> Caught (ProbeQuota q)
                      | Inl PythonRaised \<Rightarrow> Escaped)"
        by (auto simp: probe_chain_def Inr ct of_rpc_def)
      from lp_read_facts [OF y(1)] y(2) x(2) t(3) e show ?thesis
        by (cases y; cases r) (auto simp: store_of_def split: rpc_raised.splits)
    qed
  qed
qed

text \<open>The quiet wallet again.\<close>

lemma quiet_lp:
  "\<exists>p st1. lp_command quiet_runtime (scripted quiet_script) quiet_settings True NoFile (Some ''0x1'') True (script_store, 0) = Some (Shown p, st1)
     \<and> lc_positions p = [] \<and> lc_block p = 97"
proof -
  obtain st1 where r: "rpc (Suc 0) (scripted quiet_script) (\<lambda>_. []) node_client ''eth_blockNumber'' [] ([node_transport], script_store, 0)
      = Some (Inr (JStr (quiet_script ! 0)), st1)" "answered 1 st1"
    using answered_rpc [OF answered_start, of "''eth_blockNumber''" quiet_script "\<lambda>_. []" "[]"] by auto
  have h: "int_base16 ''0x64'' = Some 100" by code_simp
  have pin: "resolve_pin (Suc 0) (scripted quiet_script) (\<lambda>_. []) node_client 3 ([node_transport], script_store, 0) = Some (Inr 97, st1)"
    using r(1) by (simp add: resolve_pin_def block_number_def bind_r_def quiet_script_def text_of_def str_of_def or_raise_def h)
  obtain st2 where d: "discover (Suc 0) (scripted quiet_script) (\<lambda>_. []) node_client ''0x1'' quiet_settings 97 st1 = Some (Inr [], st2)"
    using quiet_discovery [OF r(2)] by blast
  obtain ts2 db2 n2 where st2: "st2 = (ts2, db2, n2)" by (cases st2) auto
  have c: "new_rpc_client ''base'' quiet_settings = Inr (node_client, [node_transport])"
    by (simp add: new_rpc_client_def chain_ids_def quiet_settings_def new_transport_def node_client_def node_transport_def)
  show ?thesis
    by (simp add: lp_command_def quiet_runtime_def probe_chain_def c lp_read_def pin bind_r_def d st2 of_rpc_def of_probe_def)
qed

lemma lp_command_records_witness:
  "\<exists>p st1 t. lp_command quiet_runtime (scripted quiet_script) quiet_settings True NoFile (Some ''0x1'') True (script_store, 0) = Some (Shown p, st1)
     \<and> lc_recorded p = Some 0 \<and> snapshot_rows_of (fst st1) = [(t, ''base'', Some 97, ''lp'')]"
proof -
  obtain p db1 n1 where run: "lp_command quiet_runtime (scripted quiet_script) quiet_settings True NoFile (Some ''0x1'') True (script_store, 0) = Some (Shown p, db1, n1)"
    "lc_positions p = []" "lc_block p = 97"
    using quiet_lp by auto
  have "snapshot_rows_of script_store = []" by (simp add: snapshot_rows_of_def script_store_def empty_store_def)
  with lp_command_records [OF run(1)] run show ?thesis by auto
qed

end
