(* ===== verification/Reports.thy ===== *)
theory Reports
  imports Commands Ntfy Dashboard
begin

text \<open>
  The commands of \<open>cli.py\<close> that read what was recorded: \<open>report\<close>, \<open>recorder status\<close>, \<open>quota\<close>, \<open>hedge\<close> and \<open>alerts\<close>.
  \<open>of_float\<close> is the exact value of a float of a decoded document.
\<close>

section \<open>The portfolio report\<close>

record report_entry =
  re_venue :: string
  re_chain :: string
  re_kind :: position_kind
  re_external :: string
  re_as_of :: instant
  re_source :: json
  re_details :: dict

text \<open>\<open>Decimal(v)\<close> of a decoded value.\<close>

definition exact_decimal :: "(string \<Rightarrow> decimal) \<Rightarrow> json \<Rightarrow> decimal option" where
  "exact_decimal of_float v = (case v of
     JStr s \<Rightarrow> text_to_decimal s | JInt n \<Rightarrow> Some (dint n) | JBool b \<Rightarrow> Some (dint (if b then 1 else 0)) | JFloat r \<Rightarrow> Some (of_float r) | _ \<Rightarrow> None)"

definition or_else :: "json \<Rightarrow> json \<Rightarrow> json" where
  "or_else v w = (if truthy v then v else w)"

text \<open>The fields of one kind, and what the position adds to the two totals; \<open>None\<close> raises.\<close>

record contribution =
  ct_details :: dict
  ct_lp :: "decimal option"
  ct_defi :: "decimal option"

definition contribution_of :: "(string \<Rightarrow> decimal) \<Rightarrow> position_kind \<Rightarrow> dict \<Rightarrow> contribution option" where
  "contribution_of of_float kind state =
     (let field = (\<lambda>k. get_default state k JNull)
      in if kind = KLp \<and> truthy (field ''amount0'') \<and> truthy (field ''price_usd'')
         then (case (exact_decimal of_float (field ''amount0''), exact_decimal of_float (field ''price_usd''),
                     exact_decimal of_float (or_else (field ''amount1'') (JStr ''0''))) of
                 (Some a, Some p, Some b) \<Rightarrow>
                   (let value = dadd 28 (dmul 28 a p) b
                    in map_option (\<lambda>q. \<lparr>ct_details = [(''value_usd'', JStr (dec_str q)), (''in_range'', field ''in_range'')], ct_lp = Some value, ct_defi = None\<rparr>)
                         (dquantize 28 value (- 2)))
               | _ \<Rightarrow> None)
         else if (kind = KLend \<or> kind = KBorrow) \<and> truthy (field ''amount_usd'')
         then map_option (\<lambda>a. \<lparr>ct_details = [(''amount_usd'', JStr (dec_str a)), (''health_factor'', field ''health_factor'')], ct_lp = None,
                                ct_defi = Some (if kind = KLend then a else duminus 28 a)\<rparr>)
                (exact_decimal of_float (field ''amount_usd''))
         else Some \<lparr>ct_details =
             (if kind = KPerp
              then [(''size_usd'', field ''size_usd''), (''mark_price'', field ''mark_price''), (''stop_loss_triggers'', field ''stop_loss_triggers'')]
              else if kind = KHolding then [(''symbol'', field ''symbol''), (''amount'', field ''amount'')] else []),
             ct_lp = None, ct_defi = None\<rparr>)"

record portfolio_report =
  rp_groups :: "(string \<times> report_entry list) list"
  rp_lp_value :: decimal
  rp_defi_net :: decimal

definition empty_report :: portfolio_report where
  "empty_report = \<lparr>rp_groups = [(''lp_hedge'', []), (''defi'', []), (''holdings'', [])], rp_lp_value = dint 0, rp_defi_net = dint 0\<rparr>"

definition add_opt :: "decimal option \<Rightarrow> decimal \<Rightarrow> decimal" where
  "add_opt x acc = (case x of None \<Rightarrow> acc | Some d \<Rightarrow> dadd 28 acc d)"

text \<open>One row of the query: a position and its newest observation.\<close>

definition report_row :: "(string \<Rightarrow> decimal) \<Rightarrow> position_row \<times> event_row \<Rightarrow> portfolio_report \<Rightarrow> portfolio_report option" where
  "report_row of_float pe r =
     (let (p, e) = pe; state = e_state e
      in case contribution_of of_float (p_kind p) state of
           None \<Rightarrow> None
         | Some c \<Rightarrow>
             if p_group p \<notin> fst ` set (rp_groups r) then None
             else let entry = \<lparr>re_venue = p_venue p, re_chain = p_chain p, re_kind = p_kind p, re_external = p_external p, re_as_of = e_ts e,
                        re_source = get_default state ''source'' (JStr ''on-chain''), re_details = ct_details c\<rparr>
                  in Some \<lparr>rp_groups = map (\<lambda>(g, es). if g = p_group p then (g, es @ [entry]) else (g, es)) (rp_groups r),
                       rp_lp_value = add_opt (ct_lp c) (rp_lp_value r), rp_defi_net = add_opt (ct_defi c) (rp_defi_net r)\<rparr>)"

fun report_rows :: "(string \<Rightarrow> decimal) \<Rightarrow> (position_row \<times> event_row) list \<Rightarrow> portfolio_report \<Rightarrow> portfolio_report option" where
  "report_rows of_float [] r = Some r"
| "report_rows of_float (pe # pes) r = Option.bind (report_row of_float pe r) (report_rows of_float pes)"

text \<open>The rows of the query, in the order of the table (it asks for none).\<close>

definition reported :: "store \<Rightarrow> (position_row \<times> event_row) list" where
  "reported db = List.map_filter (\<lambda>p. map_option (\<lambda>e. (p, e)) (newest (observed_of (p_id p)) (position_events db)))
     (filter (\<lambda>p. p_closed_at p = None) (positions db))"

text \<open>With the texts of the two totals.\<close>

definition report_command :: "(string \<Rightarrow> decimal) \<Rightarrow> bool \<Rightarrow> store \<Rightarrow> (portfolio_report \<times> string \<times> string) outcome" where
  "report_command of_float have_db db =
     (if \<not> have_db then Failed DatabaseMissing
      else case report_rows of_float (reported db) empty_report of
        None \<Rightarrow> Crashed
      | Some r \<Rightarrow>
          (case (dquantize 28 (rp_lp_value r) (- 2), dquantize 28 (rp_defi_net r) (- 2)) of
             (Some l, Some d) \<Rightarrow> Shown (r, dec_str l, dec_str d)
           | _ \<Rightarrow> Crashed))"

section \<open>The recorder's status\<close>

record source_state =
  so_ok :: bool
  so_last_attempt :: instant
  so_last_ok :: "instant option"
  so_block :: "int option"
  so_staleness :: "duration option"

definition source_state_of :: "store \<Rightarrow> instant \<Rightarrow> string \<Rightarrow> source_state option" where
  "source_state_of db now kind =
     map_option (\<lambda>beat.
         let good = newest (\<lambda>h. hb_kind h = kind \<and> hb_ok h) (recorder_heartbeat db)
         in \<lparr>so_ok = hb_ok beat, so_last_attempt = hb_ts beat, so_last_ok = map_option hb_ts good,
             so_block = Option.bind good hb_block, so_staleness = map_option (\<lambda>h. now - hb_ts h) good\<rparr>)
       (newest (\<lambda>h. hb_kind h = kind) (recorder_heartbeat db))"

definition recorder_status :: "store \<Rightarrow> instant \<Rightarrow> (string \<times> source_state) list" where
  "recorder_status db now =
     List.map_filter (\<lambda>k. map_option (\<lambda>s. (k, s)) (source_state_of db now k)) (sort (remdups (map hb_kind (recorder_heartbeat db))))"

definition recorder_status_command :: "bool \<Rightarrow> store \<Rightarrow> instant \<Rightarrow> (string \<times> source_state) list outcome" where
  "recorder_status_command have_db db now = (if \<not> have_db then Failed DatabaseMissing else Shown (recorder_status db now))"

section \<open>Quota, hedge and alerts\<close>

definition quota_end :: "quota_error + 'a \<Rightarrow> 'a outcome" where
  "quota_end x = (case x of Inr a \<Rightarrow> Shown a | Inl (UnknownPeriod p) \<Rightarrow> Crashed | Inl e \<Rightarrow> Failed (UpstreamFailed (ProbeQuota e)))"

definition quota_command :: "provider_seed list \<Rightarrow> bool \<Rightarrow> string option \<Rightarrow> instant \<Rightarrow> store \<Rightarrow> quota_summary list outcome \<times> store" where
  "quota_command seeds have_db provider now db =
     (if \<not> have_db then (Failed DatabaseMissing, db)
      else case ensure_providers seeds db of
        Inl e \<Rightarrow> (Failed (UpstreamFailed (ProbeQuota e)), db)
      | Inr db1 \<Rightarrow>
          (quota_end (case provider of Some (c # cs) \<Rightarrow> map_sum id (\<lambda>s. [s]) (provider_summary db1 now (c # cs)) | _ \<Rightarrow> summaries db1 now), db1))"

datatype hedge_request = HedgeStatus | HedgeSimulate "string option" int

datatype hedge_payload = HedgeAnalysis hedge_analysis | HedgePoints "sim_point list"

text \<open>The prices of a simulation: the one given, or \<open>n\<close> of them from the floor to the ceiling of the range.\<close>

definition curve_prices :: "lp_params \<Rightarrow> int \<Rightarrow> decimal list option" where
  "curve_prices lp curve =
     (let n = max curve 2; low = floor_of lp
      in map_option (\<lambda>step. map (\<lambda>i. dadd 28 low (dmul 28 step (dint (int i)))) [0..<nat n])
           (ddiv 28 (dsub 28 (ceiling_of lp) low) (dint (n - 1))))"

definition hedge_command :: "settings \<Rightarrow> bool \<Rightarrow> hedge_request \<Rightarrow> store \<Rightarrow> hedge_payload outcome" where
  "hedge_command cfg have_db rq db =
     (if \<not> have_db then Failed DatabaseMissing
      else case latest_inputs db of
        None \<Rightarrow> Crashed
      | Some None \<Rightarrow> Failed NoRecordedState
      | Some (Some (lp, short, recorded_price)) \<Rightarrow>
          (case rq of
             HedgeStatus \<Rightarrow> (case analyze cfg lp short recorded_price of None \<Rightarrow> Crashed | Some a \<Rightarrow> Shown (HedgeAnalysis a))
           | HedgeSimulate price curve \<Rightarrow>
               (case (case price of Some t \<Rightarrow> map_option (\<lambda>d. [d]) (text_to_decimal t) | None \<Rightarrow> curve_prices lp curve) of
                  None \<Rightarrow> Crashed
                | Some prices \<Rightarrow>
                    (case simulate lp short prices (case short of Some s \<Rightarrow> entry_price s | None \<Rightarrow> recorded_price) of
                       None \<Rightarrow> Crashed | Some ps \<Rightarrow> Shown (HedgePoints ps)))))"

datatype alerts_request = AlertsLog int | AlertsTest | AlertsCheck bool

datatype 'r alerts_payload =
    LogShown "alert_row list"
  | TestSent 'r
  | DryRun "alert list"
  | Checked "(alert \<times> delivery) list" "alert list" bool

definition alerts_degraded :: "'r alerts_payload \<Rightarrow> bool" where
  "alerts_degraded p = (case p of Checked _ _ d \<Rightarrow> d | _ \<Rightarrow> False)"

text \<open>A negative \<open>LIMIT\<close> limits nothing.\<close>

definition newest_alerts :: "int \<Rightarrow> store \<Rightarrow> alert_row list" where
  "newest_alerts limit db = (let rows = rev (alerts_log db) in if limit < 0 then rows else take (nat limit) rows)"

definition quota_failed :: "quota_error \<Rightarrow> 'a outcome" where
  "quota_failed e = Failed (UpstreamFailed (ProbeQuota e))"

definition alerts_test :: "nat \<Rightarrow> 'e outside \<Rightarrow> (dict \<Rightarrow> 'r option) \<Rightarrow> settings \<Rightarrow> string option \<Rightarrow> store \<times> 'e
    \<Rightarrow> ('r alerts_payload outcome \<times> store \<times> 'e) option" where
  "alerts_test fuel out validate cfg topic st =
     (case topic of
        None \<Rightarrow> Some (Failed NoTopicSecret, st)
      | Some name \<Rightarrow>
          (case new_ntfy_client cfg name of
             Inl e \<Rightarrow> Some (Failed (UpstreamFailed (ProbeTransport e)), st)
           | Inr (client, t) \<Rightarrow>
               map_option (\<lambda>(r, t1, st1).
                   (case r of Inr receipt \<Rightarrow> Shown (TestSent receipt) | Inl (NtfyRaised (TransportRaised e)) \<Rightarrow> Failed (UpstreamFailed (ProbeTransport e))
                            | Inl (NtfyRaised (QuotaRaised e)) \<Rightarrow> quota_failed e | Inl NtfyPython \<Rightarrow> Crashed, st1))
                 (publish fuel out validate client ''dexpaprika test'' (''Alert channel verification '' @ dash @ '' no action needed.'')
                    ''min'' [''white_check_mark''] None None (t, st))))"

definition alerts_command :: "nat \<Rightarrow> 'e outside \<Rightarrow> (rat \<Rightarrow> string) \<Rightarrow> (string \<Rightarrow> string) \<Rightarrow> (dict \<Rightarrow> 'r option) \<Rightarrow> (transport_error \<Rightarrow> string)
    \<Rightarrow> provider_seed list \<Rightarrow> 'd installation \<Rightarrow> settings \<Rightarrow> alerts_request \<Rightarrow> store \<times> 'e \<Rightarrow> ('r alerts_payload outcome \<times> store \<times> 'e) option" where
  "alerts_command fuel out pct_repr py_repr validate err_text seeds inst cfg rq st =
     (if \<not> in_have_db inst then Some (Failed DatabaseMissing, st)
      else if Migrations.pending (in_catalogue inst) (in_schema inst) \<noteq> [] then Some (Failed SchemaOutdated, st)
      else case ensure_providers seeds (fst st) of
        Inl e \<Rightarrow> Some (quota_failed e, st)
      | Inr db \<Rightarrow>
          (let ev = snd st; topic = resolve_secret (in_secrets inst) cfg ''ntfy_topic'' in
           case rq of
             AlertsLog limit \<Rightarrow> Some (Shown (LogShown (newest_alerts limit db)), db, ev)
           | AlertsTest \<Rightarrow> alerts_test fuel out validate cfg topic (db, ev)
           | AlertsCheck True \<Rightarrow>
               Some (case Alerts.evaluate pct_repr db cfg (o_clock out ev) (Some (offline_health py_repr inst cfg)) of
                   Inl AlertPython \<Rightarrow> Crashed | Inl (AlertQuota e) \<Rightarrow> quota_failed e | Inr alerts \<Rightarrow> Shown (DryRun alerts), db, ev)
           | AlertsCheck False \<Rightarrow>
               map_option (\<lambda>(r, st1). (case r of
                   Uncaught \<Rightarrow> Crashed | QuotaFailure e \<Rightarrow> quota_failed e | Reported fired suppressed degraded \<Rightarrow> Shown (Checked fired suppressed degraded), st1))
                 (alerts_check fuel out pct_repr validate err_text cfg topic (offline_health py_repr inst cfg) (o_clock out ev) (db, ev))))"

section \<open>Nothing is left out of the report\<close>

definition shown_entry :: "report_entry \<Rightarrow> string \<times> string \<times> position_kind \<times> string \<times> instant" where
  "shown_entry e = (re_venue e, re_chain e, re_kind e, re_external e, re_as_of e)"

definition row_entry :: "position_row \<times> event_row \<Rightarrow> string \<times> string \<times> position_kind \<times> string \<times> instant" where
  "row_entry pe = (p_venue (fst pe), p_chain (fst pe), p_kind (fst pe), p_external (fst pe), e_ts (snd pe))"

definition in_group :: "string \<Rightarrow> position_row \<times> event_row \<Rightarrow> bool" where
  "in_group g pe \<longleftrightarrow> p_group (fst pe) = g"

lemma report_row_groups:
  assumes "report_row of_float pe r = Some r1"
  shows "p_group (fst pe) \<in> fst ` set (rp_groups r)"
    "map (\<lambda>(g, es). (g, map shown_entry es)) (rp_groups r1)
      = map (\<lambda>(g, es). (g, map shown_entry es @ (if in_group g pe then [row_entry pe] else []))) (rp_groups r)"
proof -
  obtain p e where pe: "pe = (p, e)" by (cases pe) auto
  from assms obtain c where c: "contribution_of of_float (p_kind p) (e_state e) = Some c" "p_group p \<in> fst ` set (rp_groups r)"
    unfolding report_row_def pe Let_def prod.case by (auto split: option.splits if_splits)
  then show "p_group (fst pe) \<in> fst ` set (rp_groups r)" by (simp add: pe)
  let ?entry = "\<lparr>re_venue = p_venue p, re_chain = p_chain p, re_kind = p_kind p, re_external = p_external p, re_as_of = e_ts e,
    re_source = get_default (e_state e) ''source'' (JStr ''on-chain''), re_details = ct_details c\<rparr>"
  have "rp_groups r1 = map (\<lambda>(g, es). if g = p_group p then (g, es @ [?entry]) else (g, es)) (rp_groups r)"
    using assms c unfolding report_row_def pe Let_def prod.case by auto
  moreover have "shown_entry ?entry = row_entry pe" by (simp add: shown_entry_def row_entry_def pe)
  ultimately show "map (\<lambda>(g, es). (g, map shown_entry es)) (rp_groups r1)
      = map (\<lambda>(g, es). (g, map shown_entry es @ (if in_group g pe then [row_entry pe] else []))) (rp_groups r)"
    by (auto simp: in_group_def pe)
qed

lemma report_rows_groups:
  "report_rows of_float rows r = Some r1 \<Longrightarrow>
     list_all (\<lambda>pe. p_group (fst pe) \<in> fst ` set (rp_groups r)) rows
     \<and> map (\<lambda>(g, es). (g, map shown_entry es)) (rp_groups r1)
       = map (\<lambda>(g, es). (g, map shown_entry es @ map row_entry (filter (in_group g) rows))) (rp_groups r)"
proof (induction rows arbitrary: r)
  case Nil
  then show ?case by simp
next
  case (Cons pe rows)
  then obtain r0 where r0: "report_row of_float pe r = Some r0" "report_rows of_float rows r0 = Some r1" by (auto simp: bind_eq_Some_conv)
  note g = report_row_groups [OF r0(1)] and ih = Cons.IH [OF r0(2)]
  let ?f = "\<lambda>(g, es). (g, es @ map row_entry (filter (in_group g) rows))"
  have "map fst (rp_groups r0) = map fst (rp_groups r)"
    using arg_cong [OF g(2), of "map fst"] by (simp add: case_prod_unfold comp_def)
  from arg_cong [OF this, of set] have k: "fst ` set (rp_groups r0) = fst ` set (rp_groups r)" by simp
  have "map (\<lambda>(g, es). (g, map shown_entry es)) (rp_groups r1)
      = map (\<lambda>(g, es). (g, map shown_entry es @ map row_entry (filter (in_group g) rows))) (rp_groups r0)" using ih by (rule conjunct2)
  also have "\<dots>
      = map ?f (map (\<lambda>(g, es). (g, map shown_entry es)) (rp_groups r0))" by (simp add: case_prod_unfold)
  also have "\<dots> = map (\<lambda>(g, es). (g, map shown_entry es @ map row_entry (filter (in_group g) (pe # rows)))) (rp_groups r)"
    unfolding g(2) by (simp add: case_prod_unfold)
  finally have e: "map (\<lambda>(g, es). (g, map shown_entry es)) (rp_groups r1)
      = map (\<lambda>(g, es). (g, map shown_entry es @ map row_entry (filter (in_group g) (pe # rows)))) (rp_groups r)" .
  have "list_all (\<lambda>pe. p_group (fst pe) \<in> fst ` set (rp_groups r)) (pe # rows)"
    using g(1) conjunct1 [OF ih] unfolding k by simp
  then show ?case using e by (rule conjI)
qed

lemma reported_positions:
  "map fst (reported db) = filter (\<lambda>p. p_closed_at p = None \<and> list_ex (observed_of (p_id p)) (position_events db)) (positions db)"
proof -
  have n: "newest P xs = None \<longleftrightarrow> \<not> list_ex P xs" for P :: "event_row \<Rightarrow> bool" and xs
  proof -
    have "newest P xs = None \<longleftrightarrow> filter P xs = []" by (simp add: newest_def split: list.splits)
    then show ?thesis by (auto simp: list_ex_iff filter_empty_conv)
  qed
  show ?thesis
    by (auto simp: reported_def List.map_filter_def n conj_commute intro!: map_idI filter_cong)
      (use n in \<open>metis fst_conv option.collapse option.map_sel\<close>)
qed

text \<open>C25. The report leaves nothing out and invents nothing: every open position with an observation stands exactly once, with
  the time of its newest observation, in the group of its tag, in the order of the table, and there are no
  other entries and no other groups.\<close>

theorem report_shows_every_position:
  assumes "report_command of_float have_db db = Shown (r, lp_value, defi_net)"
  shows "map (\<lambda>(g, es). (g, map shown_entry es)) (rp_groups r)
      = map (\<lambda>g. (g, map row_entry (filter (in_group g) (reported db)))) [''lp_hedge'', ''defi'', ''holdings'']
    \<and> list_all (\<lambda>pe. p_group (fst pe) \<in> {''lp_hedge'', ''defi'', ''holdings''}
        \<and> newest (observed_of (p_id (fst pe))) (position_events db) = Some (snd pe)) (reported db)
    \<and> map fst (reported db) = filter (\<lambda>p. p_closed_at p = None \<and> list_ex (observed_of (p_id p)) (position_events db)) (positions db)"
proof -
  from assms have "report_rows of_float (reported db) empty_report = Some r"
    by (auto simp: report_command_def split: if_splits option.splits)
  note f = report_rows_groups [OF this]
  have "list_all (\<lambda>pe. newest (observed_of (p_id (fst pe))) (position_events db) = Some (snd pe)) (reported db)"
    by (auto simp: list_all_iff reported_def List.map_filter_def)
  with f reported_positions show ?thesis by (auto simp: empty_report_def list_all_iff)
qed

section \<open>The status is honest\<close>

lemma beats_of_kind:
  assumes "list_all2 (beat_of ts) rows src" "distinct (map fst src)"
  shows "(k, stamp) \<in> set src \<Longrightarrow> \<exists>row. filter (\<lambda>h. hb_kind h = k) rows = [row] \<and> beat_of ts row (k, stamp)"
    "k \<notin> fst ` set src \<Longrightarrow> filter (\<lambda>h. hb_kind h = k) rows = []"
  using assms
proof (induction arbitrary: rule: list_all2_induct)
  case (Cons row rows s src)
  obtain k0 st0 where s: "s = (k0, st0)" by (cases s) auto
  have hk: "hb_kind row = k0" using Cons.hyps(1) by (simp add: s)
  { case 1
    then show ?case using Cons.IH Cons.hyps(1) hk by (auto simp: s image_iff)
  next
    case 2
    then show ?case using Cons.IH hk by (auto simp: s)
  }
qed auto

definition status_follows :: "instant \<Rightarrow> instant \<Rightarrow> source_stamp \<Rightarrow> source_state option \<Rightarrow> source_state option \<Rightarrow> bool" where
  "status_follows ts now stamp before after \<longleftrightarrow>
     (case after of None \<Rightarrow> False
      | Some s \<Rightarrow> so_ok s = ss_ok stamp \<and> so_last_attempt s = ts
          \<and> (if ss_ok stamp then so_last_ok s = Some ts \<and> so_block s = ss_block stamp \<and> so_staleness s = Some (now - ts)
             else (case before of
                 None \<Rightarrow> so_last_ok s = None \<and> so_block s = None \<and> so_staleness s = None
               | Some b \<Rightarrow> so_last_ok s = so_last_ok b \<and> so_block s = so_block b \<and> so_staleness s = so_staleness b)))"

text \<open>C24. \<open>recorder status\<close> after a cycle: an attempted source shows the attempt and whether it succeeded; if it did,
  the good time, the block and the age are of this cycle; if it did not, they are the ones shown before
  (the age grows on from the last success, there is none when there never was one); a source that was not
  attempted shows what it showed, but for the age.\<close>

theorem recorder_status_honest:
  assumes "run_cycle fuel out repr co to_bool nm describe cfg kinds wallets btc_wallets ts w = Some (res, w1)"
  shows "list_all (\<lambda>(k, stamp). status_follows ts now stamp (source_state_of (cycle_store w) now k) (source_state_of (cycle_store w1) now k))
      (cr_sources res)
    \<and> (k \<in> set (map fst (cr_sources res)) \<or> source_state_of (cycle_store w1) now k = source_state_of (cycle_store w) now k)"
proof -
  from cycle_isolates_facts [OF assms] obtain rows where rows:
    "recorder_heartbeat (cycle_store w1) = recorder_heartbeat (cycle_store w) @ rows" "list_all2 (beat_of ts) rows (cr_sources res)"
    "map fst (cr_sources res) = cycle_kinds kinds (fst w)" by blast
  have d: "distinct (map fst (cr_sources res))" unfolding rows(3) cycle_kinds_def by (rule distinct_filter) simp
  let ?hs = "recorder_heartbeat (cycle_store w)"
  have n: "newest (\<lambda>h. hb_kind h = k) rows = (case filter (\<lambda>h. hb_kind h = k) rows of [] \<Rightarrow> None | _ \<Rightarrow> newest (\<lambda>h. hb_kind h = k) rows)" for k
    by (auto simp: newest_def split: list.splits)
  have ok: "filter (\<lambda>h. hb_kind h = k \<and> hb_ok h) rows = filter hb_ok (filter (\<lambda>h. hb_kind h = k) rows)" for k by (simp add: conj_commute)
  have none: "newest (\<lambda>h. hb_kind h = k) ?hs = None \<Longrightarrow> newest (\<lambda>h. hb_kind h = k \<and> hb_ok h) ?hs = None" for k
    by (auto simp: newest_def filter_empty_conv split: list.splits)
  have one: "status_follows ts now stamp (source_state_of (cycle_store w) now k) (source_state_of (cycle_store w1) now k)"
    if "(k, stamp) \<in> set (cr_sources res)" for k stamp
  proof -
    from beats_of_kind(1) [OF rows(2) d that] obtain row where row: "filter (\<lambda>h. hb_kind h = k) rows = [row]" "beat_of ts row (k, stamp)" by blast
    have a: "newest (\<lambda>h. hb_kind h = k) rows = Some row" by (simp add: newest_def row(1))
    have b: "newest (\<lambda>h. hb_kind h = k \<and> hb_ok h) rows = (if ss_ok stamp then Some row else None)"
      using row(2) by (simp add: newest_def ok row(1))
    show ?thesis
      using row(2) none [of k]
      by (auto simp: status_follows_def source_state_of_def rows(1) newest_append a b Let_def split: option.splits)
  qed
  have "source_state_of (cycle_store w1) now k = source_state_of (cycle_store w) now k" if "k \<notin> fst ` set (cr_sources res)"
  proof -
    note e = beats_of_kind(2) [OF rows(2) d that]
    have "newest (\<lambda>h. hb_kind h = k) rows = None" "newest (\<lambda>h. hb_kind h = k \<and> hb_ok h) rows = None" by (simp_all add: newest_def ok e)
    then show ?thesis by (simp add: source_state_of_def rows(1) newest_append)
  qed
  with one show ?thesis by (auto simp: list_all_iff)
qed

lemma recorder_status_honest_witness:
  "\<exists>res w1 s. run_cycle (Suc 0) (scripted [''zz'']) (\<lambda>_. []) \<lparr>to_int = (\<lambda>_. None), to_dec = (\<lambda>_. None)\<rparr> (\<lambda>_. None) (\<lambda>_. []) (\<lambda>_. [])
      default_settings [''lp''] [''0x1''] [] 50 bad_cycle_start = Some (res, w1)
    \<and> source_state_of (cycle_store w1) 60 ''lp'' = Some s \<and> \<not> so_ok s \<and> so_last_attempt s = 50 \<and> so_staleness s = None"
proof -
  obtain res w1 where run: "run_cycle (Suc 0) (scripted [''zz'']) (\<lambda>_. []) \<lparr>to_int = (\<lambda>_. None), to_dec = (\<lambda>_. None)\<rparr> (\<lambda>_. None)
      (\<lambda>_. []) (\<lambda>_. []) default_settings [''lp''] [''0x1''] [] 50 bad_cycle_start = Some (res, w1)"
    "cr_sources res = [(''lp'', \<lparr>ss_ok = False, ss_ts = 50, ss_block = None, ss_error = Some (CycleRpc PythonRaised)\<rparr>)]"
    using bad_cycle by fastforce
  have "source_state_of (cycle_store bad_cycle_start) 60 ''lp'' = None"
    by (simp add: source_state_of_def bad_cycle_start_def cycle_store_def script_store_def empty_store_def)
  with conjunct1 [OF recorder_status_honest [OF run(1), of 60]] run show ?thesis
    by (auto simp: status_follows_def split: option.splits)
qed

text \<open>One position, observed once.\<close>

definition one_holding :: store where
  "one_holding = empty_store\<lparr>
     positions := [\<lparr>p_id = 1, p_wallet = ''w'', p_venue = ''wallet'', p_chain = ''base'', p_kind = KHolding, p_external = ''eth'',
        p_group = ''holdings'', p_opened_at = Some 0, p_closed_at = None, p_metadata = None\<rparr>],
     position_events := [\<lparr>e_id = 1, e_position = 1, e_ts = 7, e_type = EObserved, e_delta = [],
        e_state = [(''symbol'', JStr ''ETH''), (''amount'', JStr ''2'')]\<rparr>]\<rparr>"

lemma report_shows_every_position_witness:
  "\<exists>r l d e. report_command (\<lambda>_. dint 0) True one_holding = Shown (r, l, d) \<and> rp_groups r = [(''lp_hedge'', []), (''defi'', []), (''holdings'', [e])]
     \<and> shown_entry e = (''wallet'', ''base'', KHolding, ''eth'', 7)"
proof -
  have rep: "reported one_holding = [(hd (positions one_holding), hd (position_events one_holding))]"
    by (simp add: reported_def one_holding_def List.map_filter_def newest_def observed_of_def)
  have q: "dquantize 28 (dint 0) (- 2) = Some (Dec False 0 (- 2))" by code_simp
  obtain r l d where run: "report_command (\<lambda>_. dint 0) True one_holding = Shown (r, l, d)"
    unfolding report_command_def rep
    by (simp add: report_row_def Let_def contribution_of_def empty_report_def one_holding_def add_opt_def q)
  have g: "filter (in_group ''lp_hedge'') (reported one_holding) = []" "filter (in_group ''defi'') (reported one_holding) = []"
    "map row_entry (filter (in_group ''holdings'') (reported one_holding)) = [(''wallet'', ''base'', KHolding, ''eth'', 7)]"
    unfolding rep by (simp_all add: in_group_def row_entry_def one_holding_def)
  have "map (\<lambda>(g, es). (g, map shown_entry es)) (rp_groups r)
      = [(''lp_hedge'', []), (''defi'', []), (''holdings'', [(''wallet'', ''base'', KHolding, ''eth'', 7)])]"
    using conjunct1 [OF report_shows_every_position [OF run]] by (simp add: g)
  then obtain e where "rp_groups r = [(''lp_hedge'', []), (''defi'', []), (''holdings'', [e])]" "shown_entry e = (''wallet'', ''base'', KHolding, ''eth'', 7)"
    by (auto simp: map_eq_Cons_conv)
  with run show ?thesis by blast
qed

end
