(* ===== verification/Upkeep.thy ===== *)
theory Upkeep
  imports Checks Strategy Registry Backup Digest
begin

text \<open>
  The remaining commands of \<open>cli.py\<close> (\<open>status\<close>, \<open>wallets\<close>, \<open>db\<close>, \<open>watchdog\<close>, \<open>strategy\<close>, \<open>dashboard export\<close>) and the scheduler of a
  container (\<open>scheduler.py\<close>), which runs commands as jobs. A result \<open>Inl\<close> is a reported failure (exit code 1); the
  scheduling itself is the library's.
\<close>

section \<open>Status and wallets\<close>

record wallet_summary =
  ws_total :: nat
  ws_included :: nat
  ws_by_family :: "(string \<times> nat) list"

definition wallet_summary_of :: "wallet list \<Rightarrow> wallet_summary" where
  "wallet_summary_of ws = \<lparr>ws_total = List.length ws, ws_included = List.length (filter w_included ws),
     ws_by_family = map (\<lambda>f. (f, List.length (filter (\<lambda>w. w_family w = f) ws))) [''evm'', ''btc'', ''solana'']\<rparr>"

text \<open>A corrupt registry is shown in the place of the summary.\<close>

definition status_command :: "registry_file \<Rightarrow> registry_error + wallet_summary" where
  "status_command registry = map_sum id wallet_summary_of (list_wallets registry)"

datatype wallets_request =
    WalletsList
  | WalletsAdd string string "string option"
  | WalletsRemove "string option" "string option"
  | WalletsInclude bool "string option" "string option"

datatype wallets_payload = WalletsListed "wallet list" | WalletAdded wallet | WalletRemoved wallet | WalletSet wallet

definition wallets_command :: "wallets_request \<Rightarrow> instant \<Rightarrow> registry_file \<Rightarrow> (registry_error + wallets_payload) \<times> registry_file" where
  "wallets_command rq now registry = (case rq of
     WalletsList \<Rightarrow> (map_sum id WalletsListed (list_wallets registry), registry)
   | WalletsAdd family address label \<Rightarrow> (case add_wallet family address label now registry of (r, f) \<Rightarrow> (map_sum id WalletAdded r, f))
   | WalletsRemove address label \<Rightarrow> (case remove_wallet address label registry of (r, f) \<Rightarrow> (map_sum id WalletRemoved r, f))
   | WalletsInclude included address label \<Rightarrow>
       (case set_included included address label registry of (r, f) \<Rightarrow> (map_sum id WalletSet r, f)))"

section \<open>The life of the database\<close>

datatype db_request = DbStatus | DbMigrate | DbBackup | DbRestore "path option"

datatype db_failure = BackupFailure backup_error | MigrationFailure migration_error | NoBackups

datatype db_payload =
    DbAbsent "string list"
  | DbPresent "string list" string
  | Migrated "string list"
  | BackedUp path
  | Restored path path

text \<open>The machine: the files, whose contents are databases, what SQLite does, the packaged files, and the clock's texts.\<close>

record 'd db_machine =
  dm_dir :: string
  dm_fresh :: "'d database"
  dm_integrity :: "'d database \<Rightarrow> string option"
  dm_exec :: "string \<Rightarrow> 'd \<Rightarrow> string + 'd"
  dm_catalogue :: catalogue
  dm_applied_at :: "int \<Rightarrow> instant"
  dm_stamp :: string

definition database_path :: "'d db_machine \<Rightarrow> path" where
  "database_path m = (dm_dir m, ''dexpaprika.db'')"

definition backups_dir :: "'d db_machine \<Rightarrow> string" where
  "backups_dir m = dm_dir m @ ''/backups''"

text \<open>Opening a database that is not there makes an empty one.\<close>

definition opened :: "'d db_machine \<Rightarrow> 'd database files \<Rightarrow> 'd database \<times> 'd database files" where
  "opened m fs = (case get_file fs (database_path m) of
     Some c \<Rightarrow> (c, fs) | None \<Rightarrow> (dm_fresh m, put_file (database_path m) (dm_fresh m) fs))"

definition db_command :: "'d db_machine \<Rightarrow> db_request \<Rightarrow> 'd database files \<Rightarrow> (db_failure + db_payload) \<times> 'd database files" where
  "db_command m rq fs = (case rq of
     DbStatus \<Rightarrow>
       (case get_file fs (database_path m) of
          None \<Rightarrow> (Inr (DbAbsent (map (\<lambda>(v, name, sql). name) (sort_key fst (dm_catalogue m)))), fs)
        | Some c \<Rightarrow> (Inr (DbPresent (pending (dm_catalogue m) c) (case dm_integrity m c of None \<Rightarrow> ''ok'' | Some e \<Rightarrow> e)), fs))
   | DbMigrate \<Rightarrow>
       (let (c, fs1) = opened m fs
        in case migrate (dm_exec m) (dm_applied_at m) (dm_catalogue m) c of
             (r, c1) \<Rightarrow> (map_sum MigrationFailure Migrated r, put_file (database_path m) c1 fs1))
   | DbBackup \<Rightarrow>
       (let (c, fs1) = opened m fs
        in case create_backup (dm_integrity m) c (backups_dir m) (dm_stamp m) 7 fs1 of
             (r, fs2) \<Rightarrow> (map_sum BackupFailure BackedUp r, fs2))
   | DbRestore source \<Rightarrow>
       (case (case source of Some p \<Rightarrow> Some p | None \<Rightarrow> latest_backup (backups_dir m) fs) of
          None \<Rightarrow> (Inl NoBackups, fs)
        | Some p \<Rightarrow>
            (case restore_backup (dm_integrity m) p (database_path m) fs of
               (Inl e, fs1) \<Rightarrow> (Inl (BackupFailure e), fs1)
             | (Inr _, fs1) \<Rightarrow> (Inr (Restored p (database_path m)), fs1))))"

section \<open>Watchdog, strategy, export\<close>

datatype watchdog_request = Heartbeat "ping_state option" | WatchdogStatus | WatchdogDigest bool

datatype watchdog_end =
    WatchdogMissing
  | WatchdogCrashed
  | HeartbeatDone heartbeat_result
  | PingDone ping_result
  | WatchdogShown bool health_verdict
  | DigestBuilt digest
  | DigestDone digest_result

definition watchdog_exit :: "watchdog_end \<Rightarrow> int" where
  "watchdog_exit r = (case r of
     WatchdogMissing \<Rightarrow> 1 | WatchdogCrashed \<Rightarrow> 1
   | HeartbeatDone h \<Rightarrow> if pr_sent (hr_ping h) then 0 else 3
   | PingDone p \<Rightarrow> if pr_sent p then 0 else 3
   | DigestDone d \<Rightarrow> if dr_sent d then 0 else 3
   | _ \<Rightarrow> 0)"

definition watchdog_command :: "nat \<Rightarrow> 'e outside \<Rightarrow> 'e http_get \<Rightarrow> (json \<Rightarrow> string) \<Rightarrow> (dict \<Rightarrow> 'r option) \<Rightarrow> secret_sources \<Rightarrow> settings \<Rightarrow> bool
    \<Rightarrow> watchdog_request \<Rightarrow> store \<times> 'e \<Rightarrow> (watchdog_end \<times> store \<times> 'e) option" where
  "watchdog_command fuel out http repr validate src cfg have_db rq st =
     (let (db, e) = st; now = o_clock out e
      in case rq of
           Heartbeat (Some state) \<Rightarrow> (case ping src cfg http state e of (p, e1) \<Rightarrow> Some (PingDone p, db, e1))
         | Heartbeat None \<Rightarrow>
             if \<not> have_db then Some (WatchdogMissing, st)
             else (case run_heartbeat src cfg http db now e of (h, e1) \<Rightarrow> Some (HeartbeatDone h, db, e1))
         | WatchdogStatus \<Rightarrow>
             Some (if \<not> have_db then WatchdogMissing
                   else WatchdogShown (resolve_secret src cfg ''heartbeat_url'' \<noteq> None) (assess_health db cfg now None), st)
         | WatchdogDigest True \<Rightarrow>
             Some (if \<not> have_db then WatchdogMissing
                   else case build_digest repr db cfg now of None \<Rightarrow> WatchdogCrashed | Some d \<Rightarrow> DigestBuilt d, st)
         | WatchdogDigest False \<Rightarrow>
             if \<not> have_db then Some (WatchdogMissing, st)
             else map_option (\<lambda>(r, st1). (case r of Inl _ \<Rightarrow> WatchdogCrashed | Inr d \<Rightarrow> DigestDone d, st1))
                    (send_digest fuel out repr validate src cfg now st))"

datatype strategy_request = StrategyStatus | StrategyRebalance bool

datatype strategy_end = StrategyMissing | StrategyCrashed | StrategyDecision rebalance_decision | StrategyOutcome rebalance_outcome

text \<open>With the production sidecar; the exit code is 0 whatever the outcome.\<close>

definition strategy_command :: "(string \<Rightarrow> string) \<Rightarrow> 'e machine \<Rightarrow> settings \<Rightarrow> 'e started publisher \<Rightarrow> bool \<Rightarrow> strategy_request \<Rightarrow> instant
    \<Rightarrow> 'e started world \<Rightarrow> 'e started world \<times> strategy_end" where
  "strategy_command sha mc cfg pub have_db rq now w =
     (if \<not> have_db then (w, StrategyMissing)
      else case rq of
        StrategyStatus \<Rightarrow> (w, case Strategy.evaluate (database w) cfg now of None \<Rightarrow> StrategyCrashed | Some d \<Rightarrow> StrategyDecision d)
      | StrategyRebalance arm_given \<Rightarrow>
          (case run_strategy sha (mc_secrets mc) cfg (production_sidecar mc cfg) pub now arm_given w of
             (w1, None) \<Rightarrow> (w1, StrategyCrashed) | (w1, Some oc) \<Rightarrow> (w1, StrategyOutcome oc)))"

text \<open>\<open>page\<close> renders the page of what it is given.\<close>

definition dashboard_export :: "(bootstrap \<Rightarrow> string) \<Rightarrow> (json \<Rightarrow> string) \<Rightarrow> settings \<Rightarrow> instant \<Rightarrow> string \<Rightarrow> path option \<Rightarrow> bool \<Rightarrow> store \<Rightarrow> string files
    \<Rightarrow> path option \<times> string files" where
  "dashboard_export page repr cfg now data_dir target have_db db fs =
     (if \<not> have_db then (None, fs)
      else case export_bootstrap repr db cfg now of
        None \<Rightarrow> (None, fs)
      | Some b \<Rightarrow> (let p = (case target of Some q \<Rightarrow> q | None \<Rightarrow> (data_dir, ''dashboard.html'')) in (Some p, put_file p (page b) fs)))"

section \<open>The scheduler\<close>

datatype job_trigger = CronHourly "int option" | Interval "int option" | CronDaily "int option" "int option"

record job_spec =
  js_id :: string
  js_argv :: "string list"
  js_trigger :: job_trigger

definition misfire_grace_seconds :: int where
  "misfire_grace_seconds = 120"

definition job_specs :: "settings \<Rightarrow> job_spec list" where
  "job_specs cfg =
     [\<lparr>js_id = ''snapshot'', js_argv = [''snapshot'', ''--json''], js_trigger = CronHourly (Some 0)\<rparr>,
      \<lparr>js_id = ''alerts-check'', js_argv = [''alerts'', ''check'', ''--json''], js_trigger = Interval (Some (scheduler_alerts_minutes cfg))\<rparr>,
      \<lparr>js_id = ''db-backup'', js_argv = [''db'', ''backup'', ''--json''], js_trigger = CronDaily (Some 3) (Some 10)\<rparr>,
      \<lparr>js_id = ''watchdog-heartbeat'', js_argv = [''watchdog'', ''heartbeat'', ''--json''], js_trigger = Interval (Some (watchdog_heartbeat_minutes cfg))\<rparr>,
      \<lparr>js_id = ''watchdog-digest'', js_argv = [''watchdog'', ''digest'', ''--json''], js_trigger = CronDaily (Some (watchdog_digest_hour cfg)) (Some 0)\<rparr>,
      \<lparr>js_id = ''strategy-rebalance'', js_argv = [''strategy'', ''rebalance'', ''--arm'', ''--json''],
        js_trigger = Interval (Some (strategy_rebalance_minutes cfg))\<rparr>]"

text \<open>What the library is given: every so many minutes, at an hour and minute of each day, or at a minute of each hour (UTC).\<close>

datatype schedule = Every int | DailyAt int int | HourlyAt int

definition or_int :: "int option \<Rightarrow> int \<Rightarrow> int" where
  "or_int x d = (case x of Some n \<Rightarrow> if n = 0 then d else n | None \<Rightarrow> d)"

definition trigger_for :: "job_spec \<Rightarrow> schedule" where
  "trigger_for spec = (case js_trigger spec of
     Interval m \<Rightarrow> Every (or_int m 5) | CronDaily h m \<Rightarrow> DailyAt (or_int h 0) (or_int m 0) | CronHourly m \<Rightarrow> HourlyAt (or_int m 0))"

record scheduled_job =
  sj_id :: string
  sj_argv :: "string list"
  sj_schedule :: schedule
  sj_max_instances :: nat
  sj_coalesce :: bool
  sj_misfire_grace :: int

definition build_scheduler :: "settings \<Rightarrow> scheduled_job list" where
  "build_scheduler cfg = map (\<lambda>spec. \<lparr>sj_id = js_id spec, sj_argv = js_argv spec, sj_schedule = trigger_for spec, sj_max_instances = 1,
     sj_coalesce = True, sj_misfire_grace = misfire_grace_seconds\<rparr>) (job_specs cfg)"

record job_line =
  jl_ts :: instant
  jl_job :: string
  jl_argv :: "string list"
  jl_exit_code :: int
  jl_error :: "string option"

text \<open>One run of a job: \<open>main\<close> returns a code or raises (the text of the exception); the line is written either way.\<close>

definition run_job :: "(string list \<Rightarrow> 'w \<Rightarrow> (string + int) \<times> 'w) \<Rightarrow> instant \<Rightarrow> string \<Rightarrow> string list \<Rightarrow> 'w \<Rightarrow> job_line \<times> 'w" where
  "run_job main now job_id argv w =
     (let (r, w1) = main argv w; line = \<lparr>jl_ts = now, jl_job = job_id, jl_argv = argv, jl_exit_code = 1, jl_error = None\<rparr>
      in (case r of Inr code \<Rightarrow> line\<lparr>jl_exit_code := code\<rparr> | Inl text \<Rightarrow> line\<lparr>jl_error := Some text\<rparr>, w1))"

section \<open>A backup comes back\<close>

lemma backups_elsewhere: "fst q \<noteq> dir \<Longrightarrow> backups dir (put_file q c fs) = backups dir fs"
proof -
  assume "fst q \<noteq> dir"
  then have "(dir, n) \<noteq> q" for n by auto
  then have "set (backups dir (put_file q c fs)) = set (backups dir fs)" by (auto simp: backups_iff)
  then show ?thesis by (intro sorted_distinct_set_unique sorted_backups distinct_backups) simp
qed

lemma backups_newest:
  assumes "is_backup n" "list_all (\<lambda>x. x < n) (backups dir fs)"
  shows "backups dir (put_file (dir, n) c fs) = backups dir fs @ [n]"
proof -
  have lt: "x < n" if "x \<in> set (backups dir fs)" for x using assms(2) that by (simp add: list_all_iff)
  then have "n \<notin> set (backups dir fs)" by blast
  then show ?thesis
    using lt backups_put [OF assms(1), of dir c fs]
    by (intro sorted_distinct_set_unique sorted_backups distinct_backups)
      (auto simp: sorted_append sorted_backups distinct_backups less_imp_le)
qed

lemma database_apart [simp]: "dm_dir m \<noteq> backups_dir m" "backups_dir m \<noteq> dm_dir m" "fst (database_path m) = dm_dir m"
  by (auto simp: backups_dir_def database_path_def)

lemma fresh_backup:
  assumes "create_backup integrity c dir stamp 7 fs = (Inr p, fs1)" "list_all (\<lambda>n. n < backup_name stamp) (backups dir fs)"
  shows "p = (dir, backup_name stamp)" "get_file fs1 p = Some c" "integrity c = None" "latest_backup dir fs1 = Some p"
proof -
  let ?n = "backup_name stamp" and ?fs = "put_file (dir, backup_name stamp) c fs"
  let ?old = "take (List.length (backups dir ?fs) - 7) (backups dir ?fs)"
  from assms(1) have i: "integrity c = None" and p: "p = (dir, ?n)" and fs1: "fs1 = fold (\<lambda>n. unlink (dir, n)) ?old ?fs"
    by (auto simp: create_backup_def Let_def split: option.splits)
  show "p = (dir, backup_name stamp)" "integrity c = None" by (rule p, rule i)
  note b = backups_newest [OF is_backup_name assms(2), of c]
  have "?n \<notin> set (backups dir fs)" using assms(2) by (auto simp: list_all_iff)
  then have "?n \<notin> set ?old" by (simp add: b) (meson in_set_takeD)
  then show "get_file fs1 p = Some c" by (simp add: fs1 get_fold_unlink p)
  have "backups dir fs1 = drop (List.length (backups dir ?fs) - 7) (backups dir ?fs)" unfolding fs1 by (rule backups_after_prune)
  then have "\<exists>xs. backups dir fs1 = xs @ [?n]" by (simp add: b)
  then show "latest_backup dir fs1 = Some p" by (auto simp: latest_backup_def p split: list.splits) (metis last.simps last_snoc)
qed

lemma restore_apart:
  assumes "get_file fs p = Some c" "integrity c = None" "fst p \<noteq> fst db"
  shows "\<exists>fs1. restore_backup integrity p db fs = (Inr (), fs1) \<and> get_file fs1 db = Some c"
proof -
  have "p \<noteq> db" "p \<noteq> with_suffix db s" for s using assms(3) by (auto simp: with_suffix_def)
  then show ?thesis using assms(1,2) by (simp add: restore_backup_def Let_def split: option.split)
qed

text \<open>C22. A backup comes back: after a \<open>db backup\<close> whose stamp sorts after the earlier ones, and whatever happens to the
  database and to other files meanwhile (the backups staying as they are), \<open>db restore\<close> finds that backup and puts
  the database as it was at the time of the backup in its place, with or without naming it.\<close>

theorem backup_then_restore:
  assumes "db_command m DbBackup fs = (Inr (BackedUp p), fs1)"
    "list_all (\<lambda>n. n < backup_name (dm_stamp m)) (backups (backups_dir m) fs)"
    "get_file fs2 p = get_file fs1 p" "backups (backups_dir m) fs2 = backups (backups_dir m) fs1"
  shows "\<exists>fs3. db_command m (DbRestore None) fs2 = (Inr (Restored p (database_path m)), fs3)
    \<and> db_command m (DbRestore (Some p)) fs2 = (Inr (Restored p (database_path m)), fs3)
    \<and> get_file fs3 (database_path m) = Some (fst (opened m fs))"
proof -
  obtain c fs0 where o: "opened m fs = (c, fs0)" by fastforce
  have "backups (backups_dir m) fs0 = backups (backups_dir m) fs"
    using o by (auto simp: opened_def backups_elsewhere split: option.splits)
  with assms(2) have older: "list_all (\<lambda>n. n < backup_name (dm_stamp m)) (backups (backups_dir m) fs0)" by simp
  from assms(1) have "create_backup (dm_integrity m) c (backups_dir m) (dm_stamp m) 7 fs0 = (Inr p, fs1)"
    by (auto simp: db_command_def o split: prod.splits sum.splits) (metis map_sum.simps obj_sumE sum.inject(2) sum.distinct(1) db_payload.inject(4))
  note b = fresh_backup [OF this older]
  have "latest_backup (backups_dir m) fs2 = Some p" using b(4) by (simp add: latest_backup_def assms(4))
  moreover have "\<exists>fs3. restore_backup (dm_integrity m) p (database_path m) fs2 = (Inr (), fs3) \<and> get_file fs3 (database_path m) = Some c"
  proof (rule restore_apart)
    show "get_file fs2 p = Some c" using b(2) assms(3) by simp
    show "fst p \<noteq> fst (database_path m)" by (simp add: b(1))
  qed (rule b(3))
  ultimately show ?thesis by (auto simp: db_command_def o)
qed

definition sample_machine :: "unit db_machine" where
  "sample_machine = \<lparr>dm_dir = ''d'', dm_fresh = \<lparr>schema_rows = [], db_body = ()\<rparr>, dm_integrity = (\<lambda>_. None), dm_exec = (\<lambda>_ _. Inr ()),
     dm_catalogue = [], dm_applied_at = (\<lambda>_. 0), dm_stamp = ''20260101''\<rparr>"

lemma backup_then_restore_witness:
  "\<exists>p fs1 fs3. db_command sample_machine DbBackup [] = (Inr (BackedUp p), fs1)
     \<and> db_command sample_machine (DbRestore None) (put_file (database_path sample_machine) \<lparr>schema_rows = [(1, ''x'', 0)], db_body = ()\<rparr> fs1)
         = (Inr (Restored p (database_path sample_machine)), fs3)
     \<and> get_file fs3 (database_path sample_machine) = Some \<lparr>schema_rows = [], db_body = ()\<rparr>"
proof -
  let ?m = sample_machine and ?c = "\<lparr>schema_rows = [(1, ''x'', 0)], db_body = ()\<rparr>"
  have none: "backups (backups_dir ?m) [] = []" by (simp add: backups_def listing_def)
  obtain p fs1 where b: "db_command ?m DbBackup [] = (Inr (BackedUp p), fs1)"
    by (simp add: db_command_def opened_def get_file_def sample_machine_def create_backup_def Let_def)
  have "p = (backups_dir ?m, backup_name (dm_stamp ?m))"
    using b by (auto simp: db_command_def create_backup_def Let_def split: prod.splits option.splits)
  then have e1: "get_file (put_file (database_path ?m) ?c fs1) p = get_file fs1 p" by (auto simp: database_path_def backups_dir_def)
  have e2: "backups (backups_dir ?m) (put_file (database_path ?m) ?c fs1) = backups (backups_dir ?m) fs1"
    by (rule backups_elsewhere) simp
  have "list_all (\<lambda>n. n < backup_name (dm_stamp ?m)) (backups (backups_dir ?m) [])" by (simp add: none)
  then obtain fs3 where "db_command ?m (DbRestore None) (put_file (database_path ?m) ?c fs1) = (Inr (Restored p (database_path ?m)), fs3)"
    "get_file fs3 (database_path ?m) = Some (fst (opened ?m []))"
    using backup_then_restore [OF b _ e1 e2] by blast
  with b show ?thesis by (auto simp: opened_def get_file_def sample_machine_def)
qed

section \<open>The unattended rebalance\<close>

lemma auto_approve_apart: "auto_approve = apart auto_approve"
  by (simp add: fun_eq_iff auto_approve_def apart_def)

definition keyless :: "process list \<Rightarrow> bool" where
  "keyless ps \<longleftrightarrow> list_all (\<lambda>p. pc_env p ''GMX_WALLET_KEY'' = None) ps"

definition started_since :: "'e started world \<Rightarrow> 'e started world \<Rightarrow> process list" where
  "started_since w w1 = drop (List.length (fst (env w))) (fst (env w1))"

lemma notify_started:
  "(\<And>t n w. fst (env (snd (pub t n w))) = fst (env w)) \<Longrightarrow> fst (env (snd (notify src settings pub n w))) = fst (env w)"
  by (auto simp: notify_def split: option.split prod.split) (metis snd_conv)

lemma rebalance_key_gates:
  assumes "\<And>t n w. fst (env (snd (pub t n w))) = fst (env w)"
  shows "keyless (started_since w (fst (execute_rebalance sha src cfg (production_sidecar mc cfg) pub now d row_id w)))
    \<or> kill_file w = None \<and> armed_until now w
      \<and> check_limits cfg (database w) now market_default (dmul 28 (Strategy.or_zero (rd_target_eth d)) (Strategy.or_zero (rd_price_usd d)))
          (est_move (Strategy.or_zero (rd_target_eth d)) (Strategy.or_zero (rd_current_eth d)) (Strategy.or_zero (rd_price_usd d))) = Allowed"
proof (cases rule: execute_rebalance_cases [of sha src cfg "production_sidecar mc cfg" pub now d row_id w])
  case invalid
  then show ?thesis by (simp add: keyless_def started_since_def)
next
  case (piped w1 r)
  have e: "fst (env (fst (execute_rebalance sha src cfg (production_sidecar mc cfg) pub now d row_id w))) = fst (env w1)"
    unfolding piped(2) using notify_started [OF assms] by (simp split: option.split)
  show ?thesis
  proof (cases "keyless (started_since w w1)")
    case True
    with e show ?thesis by (simp add: started_since_def)
  next
    case False
    then obtain p where "p \<in> set (drop (List.length (fst (env w))) (fst (env w1)))" "has_key p"
      by (auto simp: keyless_def started_since_def list_all_iff has_key_def)
    then have "p \<in> set (drop (List.length (fst (env w))) (fst (env (fst (execute_instruction sha cfg (production_sidecar mc cfg) (apart auto_approve)
        (resize_instruction (Strategy.or_zero (rd_target_eth d))) True now (est_move (Strategy.or_zero (rd_target_eth d)) (Strategy.or_zero (rd_current_eth d)) (Strategy.or_zero (rd_price_usd d)))
        (dmul 28 (Strategy.or_zero (rd_target_eth d)) (Strategy.or_zero (rd_price_usd d))) w)))))" "has_key p"
      using piped(1) by (simp_all flip: auto_approve_apart)
    from key_gates [OF this] show ?thesis by (simp add: resize_instruction_def)
  qed
qed

text \<open>C5. The unattended \<open>strategy\<close> command hands out the wallet key only when everything was opted into: either no process
  it starts is given the key, or it was a rebalance with \<open>--arm\<close>, automatic rebalancing is enabled in the
  settings, there was no kill-switch file, the armed state had not expired, the strategy had decided to
  execute, and the hard limits allowed the very move (for a publisher that starts no process).\<close>

theorem unattended_key_is_opt_in:
  assumes "\<And>t n w. fst (env (snd (pub t n w))) = fst (env w)"
  shows "keyless (started_since w (fst (strategy_command sha mc cfg pub have_db rq now w)))
    \<or> rq = StrategyRebalance True \<and> auto_rebalance_enabled cfg \<and> kill_file w = None \<and> armed_until now w
      \<and> (\<exists>d. Strategy.evaluate (database w) cfg now = Some d \<and> rd_decision d = ChExecute
          \<and> check_limits cfg (database w) now market_default (dmul 28 (Strategy.or_zero (rd_target_eth d)) (Strategy.or_zero (rd_price_usd d)))
              (est_move (Strategy.or_zero (rd_target_eth d)) (Strategy.or_zero (rd_current_eth d)) (Strategy.or_zero (rd_price_usd d))) = Allowed)"
proof -
  have none: "keyless (started_since w w1)" if "env w1 = env w" for w1
    using that by (simp add: keyless_def started_since_def)
  have run: "keyless (started_since w (fst (run_strategy sha (mc_secrets mc) cfg (production_sidecar mc cfg) pub now a w)))
    \<or> a \<and> auto_rebalance_enabled cfg \<and> kill_file w = None \<and> armed_until now w
      \<and> (\<exists>d. Strategy.evaluate (database w) cfg now = Some d \<and> rd_decision d = ChExecute
          \<and> check_limits cfg (database w) now market_default (dmul 28 (Strategy.or_zero (rd_target_eth d)) (Strategy.or_zero (rd_price_usd d)))
              (est_move (Strategy.or_zero (rd_target_eth d)) (Strategy.or_zero (rd_current_eth d)) (Strategy.or_zero (rd_price_usd d))) = Allowed)" for a
  proof (cases rule: run_strategy_cases [of w cfg now sha "mc_secrets mc" "production_sidecar mc cfg" pub a])
    case raises
    then show ?thesis using none by simp
  next
    case (dormant d row_id db1 oc)
    then show ?thesis using none by simp
  next
    case (live d row_id db1)
    note k = log_decision_keeps(1) [OF live(2)]
    from rebalance_key_gates [where pub = pub, OF assms, of "w\<lparr>database := db1\<rparr>" sha "mc_secrets mc" cfg mc now d row_id] live
    show ?thesis
      by (auto simp: armed_until_def check_limits_audit_only [OF k] started_since_def)
  qed
  show ?thesis
  proof (cases rq)
    case StrategyStatus
    then show ?thesis using none by (simp add: strategy_command_def)
  next
    case (StrategyRebalance a)
    with run [of a] none show ?thesis
      by (cases a; cases have_db) (auto simp: strategy_command_def split: prod.splits option.splits)
  qed
qed

lemma unattended_key_is_opt_in_witness:
  "keyless (started_since key_world (fst (strategy_command id test_machine default_settings (\<lambda>_ _ w. (None, w)) True (StrategyRebalance True) test_now key_world)))"
proof -
  have "\<not> auto_rebalance_enabled default_settings" by (simp add: default_settings_def)
  with unattended_key_is_opt_in [of "\<lambda>_ _ w. (None, w)" key_world id test_machine default_settings True "StrategyRebalance True" test_now]
  show ?thesis by simp
qed

section \<open>The jobs\<close>

lemma jobs_well_formed:
  "distinct (map sj_id (build_scheduler cfg))"
  "list_all (\<lambda>j. sj_max_instances j = 1 \<and> sj_coalesce j) (build_scheduler cfg)"
  "list_all (\<lambda>j. sj_schedule j \<noteq> Every 0) (build_scheduler cfg)"
  by (simp_all add: build_scheduler_def job_specs_def trigger_for_def or_int_def)

end
