(* ===== verification/Server.thy ===== *)
theory Server
  imports Dashboard Validation
begin

text \<open>
  The request handler of \<open>dashboard/server.py\<close> (\<open>_Handler\<close>): the target of a GET request split and decoded, the answer of
  the router sent with the encoding the client accepts, and the event stream over the broadcaster. Targets are ASCII
  in origin form. The bytes of a body (\<open>render\<close>) and \<open>gzip.decompress\<close> are parameters.
\<close>

section \<open>The target\<close>

text \<open>The server library folds leading slashes into one.\<close>

definition origin_form :: "string \<Rightarrow> string" where
  "origin_form t = (if startswith t ''//'' then CHR ''/'' # dropWhile (\<lambda>c. c = CHR ''/'') t else t)"

definition without_fragment :: "string \<Rightarrow> string" where
  "without_fragment t = takeWhile (\<lambda>c. c \<noteq> CHR ''#'') t"

text \<open>\<open>urlparse\<close> also cuts the parameters of the last segment off.\<close>

definition without_params :: "string \<Rightarrow> string" where
  "without_params p =
     (let segments = split_on (CHR ''/'') p
      in join_with (CHR ''/'') (butlast segments @ [takeWhile (\<lambda>c. c \<noteq> CHR '';'') (last segments)]))"

definition request_path :: "string \<Rightarrow> string" where
  "request_path t = without_params (takeWhile (\<lambda>c. c \<noteq> CHR ''?'') (without_fragment t))"

definition request_query :: "string \<Rightarrow> string" where
  "request_query t = tl (dropWhile (\<lambda>c. c \<noteq> CHR ''?'') (without_fragment t))"

section \<open>The query\<close>

text \<open>\<open>bytes.decode(errors="replace")\<close>: what may follow the first byte of a sequence; the longest well-formed start of a
  broken sequence becomes one replacement character.\<close>

definition continuation :: "nat \<Rightarrow> (nat \<times> nat) list" where
  "continuation b =
     (let t = (128, 191)
      in if 194 \<le> b \<and> b \<le> 223 then [t]
         else if b = 224 then [(160, 191), t]
         else if b = 237 then [(128, 159), t]
         else if 225 \<le> b \<and> b \<le> 239 then [t, t]
         else if b = 240 then [(144, 191), t, t]
         else if 241 \<le> b \<and> b \<le> 243 then [t, t, t]
         else if b = 244 then [(128, 143), t, t]
         else [])"

fun matched :: "(nat \<times> nat) list \<Rightarrow> string \<Rightarrow> nat" where
  "matched ((lo, hi) # rs) (c # s) = (if lo \<le> of_char c \<and> of_char c \<le> hi then Suc (matched rs s) else 0)"
| "matched rs s = 0"

definition replacement :: string where
  "replacement = [CHR 0xEF, CHR 0xBF, CHR 0xBD]"

function utf8_replace :: "string \<Rightarrow> string" where
  "utf8_replace [] = []"
| "utf8_replace (c # s) =
     (let ranges = continuation (of_char c); n = matched ranges s
      in if (of_char c :: nat) < 128 then c # utf8_replace s
         else if ranges \<noteq> [] \<and> n = List.length ranges then c # take n s @ utf8_replace (drop n s)
         else replacement @ utf8_replace (drop n s))"
  by pat_completeness auto
termination by (relation "measure List.length") (auto simp: less_Suc_eq_le)

fun percent_bytes :: "string \<Rightarrow> string" where
  "percent_bytes [] = []"
| "percent_bytes (c # s) =
     (if c \<noteq> CHR ''%'' then c # percent_bytes s
      else (case s of
              a # b # t \<Rightarrow>
                (case (hex_val a, hex_val b) of
                   (Some x, Some y) \<Rightarrow> char_of (16 * x + y) # percent_bytes t
                 | _ \<Rightarrow> c # percent_bytes s)
            | _ \<Rightarrow> c # percent_bytes s))"

definition unquote :: "string \<Rightarrow> string" where
  "unquote s = (if CHR ''%'' \<in> set s then utf8_replace (percent_bytes s) else s)"

definition unplus :: "string \<Rightarrow> string" where
  "unplus s = map (\<lambda>c. if c = CHR ''+'' then CHR '' '' else c) s"

text \<open>Blank values are dropped, and of a repeated name the first value counts.\<close>

definition parse_pair :: "string \<Rightarrow> (string \<times> string) option" where
  "parse_pair nv =
     (let name = takeWhile (\<lambda>c. c \<noteq> CHR ''='') nv; val = tl (dropWhile (\<lambda>c. c \<noteq> CHR ''='') nv)
      in if val = [] then None else Some (unquote (unplus name), unquote (unplus val)))"

definition query_of :: "string \<Rightarrow> string \<rightharpoonup> string" where
  "query_of q = map_of (List.map_filter parse_pair (split_on (CHR ''&'') q))"

section \<open>Answers\<close>

record http_reply =
  ht_status :: int
  ht_headers :: "(string \<times> string) list"
  ht_body :: string

definition gzipped :: "(string \<times> string) list \<Rightarrow> bool" where
  "gzipped headers \<longleftrightarrow> map_of headers ''Content-Encoding'' = Some ''gzip''"

definition accepts_gzip :: "string option \<Rightarrow> bool" where
  "accepts_gzip accept \<longleftrightarrow> substring_in ''gzip'' (case accept of None \<Rightarrow> [] | Some a \<Rightarrow> a)"

definition respond :: "(route_body \<Rightarrow> string) \<Rightarrow> (string \<Rightarrow> string) \<Rightarrow> string option \<Rightarrow> route_result \<Rightarrow> http_reply" where
  "respond render gunzip accept r =
     (let unpack = gzipped (rr_headers r) \<and> \<not> accepts_gzip accept;
          body = (if unpack then gunzip (render (rr_body r)) else render (rr_body r));
          headers = (if unpack then filter (\<lambda>(k, _). k \<noteq> ''Content-Encoding'') (rr_headers r) else rr_headers r)
      in \<lparr>ht_status = rr_status r,
          ht_headers = (''Content-Type'', rr_content_type r) # headers @ [(''Content-Length'', nat_str (List.length body))],
          ht_body = body\<rparr>)"

text \<open>\<open>Broken\<close>: an exception, and the connection ends without an answer.\<close>

datatype served = EventStream | Replied http_reply | Broken

definition do_get :: "(json \<Rightarrow> string) \<Rightarrow> (string \<Rightarrow> string) \<Rightarrow> (route_body \<Rightarrow> string) \<Rightarrow> (string \<Rightarrow> string) \<Rightarrow> string \<Rightarrow> string option \<Rightarrow> store \<Rightarrow> settings \<Rightarrow> instant
    \<Rightarrow> served" where
  "do_get repr quoted render gunzip target accept db settings now =
     (let t = origin_form target; path = request_path t
      in if path = ''/events'' then EventStream
         else case route repr quoted path (query_of (request_query t)) db settings now of
           None \<Rightarrow> Broken
         | Some r \<Rightarrow> Replied (respond render gunzip accept r))"

section \<open>The event stream\<close>

datatype frame = Connected | Event string | KeepAlive

definition blank_line :: string where
  "blank_line = [CHR 0x0A, CHR 0x0A]"

definition frame_text :: "frame \<Rightarrow> string" where
  "frame_text f = (case f of
     Connected \<Rightarrow> '': connected'' @ blank_line
   | Event e \<Rightarrow> ''event: '' @ e @ [CHR 0x0A] @ ''data: {}'' @ blank_line
   | KeepAlive \<Rightarrow> '': keepalive'' @ blank_line)"

text \<open>One turn: what the others did with the broadcaster until the queue was read, and whether the client could be
  written to. The stream is still open when the turns are used up.\<close>

type_synonym turn = "broadcast_op list \<times> bool"

fun sse_loop :: "nat \<Rightarrow> turn list \<Rightarrow> broadcaster \<Rightarrow> frame list \<times> bool \<times> broadcaster" where
  "sse_loop i [] b = ([], True, b)"
| "sse_loop i ((ops, written) # turns) b =
     (let (e, b1) = take_event i (run broadcast_step ops b)
      in if \<not> written then ([], False, unsubscribe i b1)
         else let (fs, r) = sse_loop i turns b1 in ((case e of Some x \<Rightarrow> Event x | None \<Rightarrow> KeepAlive) # fs, r))"

text \<open>The headers are written outside of the \<open>try\<close>.\<close>

definition serve_sse :: "bool \<Rightarrow> bool \<Rightarrow> turn list \<Rightarrow> broadcaster \<Rightarrow> frame list \<times> bool \<times> broadcaster" where
  "serve_sse headers_written greeted turns b =
     (let (i, b1) = subscribe b
      in if \<not> headers_written then ([], False, b1)
         else if \<not> greeted then ([], False, unsubscribe i b1)
         else let (fs, r) = sse_loop i turns b1 in (Connected # fs, r))"

section \<open>What a stream delivers\<close>

text \<open>The queue of a subscriber belongs to its stream: the others never take from it or remove it.\<close>

definition foreign :: "nat \<Rightarrow> broadcast_op \<Rightarrow> bool" where
  "foreign i op = (case op of Unsubscribe j \<Rightarrow> j \<noteq> i | TakeEvent j \<Rightarrow> j \<noteq> i | _ \<Rightarrow> True)"

definition queue_of :: "nat \<Rightarrow> broadcaster \<Rightarrow> string list option" where
  "queue_of i b = map_of (bc_queues b) i"

definition others :: "nat \<Rightarrow> broadcaster \<Rightarrow> broadcaster" where
  "others i b = b\<lparr>bc_queues := filter (\<lambda>q. fst q \<noteq> i) (bc_queues b)\<rparr>"

fun queue_after :: "broadcast_op list \<Rightarrow> string list \<Rightarrow> string list" where
  "queue_after [] q = q"
| "queue_after (Publish e # ops) q = queue_after ops (if List.length q < queue_size then q @ [e] else q)"
| "queue_after (_ # ops) q = queue_after ops q"

lemma map_of_publish:
  "map_of (map (\<lambda>q. if has_room q then (fst q, snd q @ [e]) else q) qs) i
   = map_option (\<lambda>v. if List.length v < queue_size then v @ [e] else v) (map_of qs i)"
  by (induction qs) (auto simp: has_room_def)

lemma map_of_unsubscribe: "map_of (filter (\<lambda>(k, _). k \<noteq> j) qs) i = (if i = j then None else map_of qs i)"
  by (induction qs) auto

lemma map_of_take:
  "map_of (map (\<lambda>(k, es). (k, if k = j then tl es else es)) qs) i = map_option (\<lambda>v. if i = j then tl v else v) (map_of qs i)"
  by (induction qs) auto

lemma step_queue:
  assumes "foreign i op" "i < bc_next b"
  shows "i < bc_next (broadcast_step op b)"
    "queue_of i b = Some q \<Longrightarrow> queue_of i (broadcast_step op b) = Some (queue_after [op] q)"
  using assms
  by (cases op; simp add: foreign_def queue_of_def subscribe_def unsubscribe_def publish_event_def take_event_def map_of_publish map_of_unsubscribe
      map_of_take)+

lemma filter_publish:
  "filter (\<lambda>q. fst q \<noteq> i) (map (\<lambda>q. if has_room q then (fst q, snd q @ [e]) else q) qs)
   = map (\<lambda>q. if has_room q then (fst q, snd q @ [e]) else q) (filter (\<lambda>q. fst q \<noteq> i) qs)"
  by (induction qs) simp_all

lemma filter_take:
  "filter (\<lambda>q. fst q \<noteq> i) (map (\<lambda>(k, es). (k, if k = j then tl es else es)) qs)
   = map (\<lambda>(k, es). (k, if k = j then tl es else es)) (filter (\<lambda>q. fst q \<noteq> i) qs)"
  by (induction qs) (simp_all add: case_prod_beta)

lemma filter_unsubscribe:
  "filter (\<lambda>q. fst q \<noteq> i) (filter (\<lambda>(k, _). k \<noteq> j) qs) = filter (\<lambda>(k, _). k \<noteq> j) (filter (\<lambda>q. fst q \<noteq> i) qs)"
  by (induction qs) (simp_all add: case_prod_beta del: filter_filter)

lemmas filter_other = filter_publish filter_take filter_unsubscribe

lemma others_step:
  assumes "foreign i op" "i < bc_next b"
  shows "others i (broadcast_step op b) = broadcast_step op (others i b)"
  using assms by (cases op)
    (simp_all add: foreign_def others_def subscribe_def unsubscribe_def publish_event_def take_event_def filter_other del: filter_filter)

lemma run_queue:
  assumes "list_all (foreign i) ops" "i < bc_next b" "queue_of i b = Some q"
  shows "i < bc_next (run broadcast_step ops b) \<and> queue_of i (run broadcast_step ops b) = Some (queue_after ops q)
    \<and> others i (run broadcast_step ops b) = run broadcast_step ops (others i b)"
  using assms
proof (induction ops arbitrary: b q)
  case (Cons op ops)
  have step: "foreign i op" "i < bc_next (broadcast_step op b)" "queue_of i (broadcast_step op b) = Some (queue_after [op] q)"
    using Cons.prems step_queue by auto
  have "queue_after (op # ops) q = queue_after ops (queue_after [op] q)" by (cases op) simp_all
  then show ?case using Cons.IH [OF _ step(2,3)] Cons.prems(1) others_step [OF step(1) Cons.prems(2)] by simp
qed simp

lemma queue_after_subseq: "subseq (queue_after ops q) (q @ published ops)"
proof (induction ops q rule: queue_after.induct)
  case (2 e ops q)
  have "subseq (published ops) (e # published ops)" by auto
  then have "subseq (q @ published ops) (q @ e # published ops)" by (intro list_emb_append_mono) simp_all
  then show ?case using 2 by (auto split: if_splits intro: subseq_order.trans)
qed simp_all

lemma queue_after_all: "List.length q + List.length (published ops) \<le> queue_size \<Longrightarrow> queue_after ops q = q @ published ops"
  by (induction ops q rule: queue_after.induct) auto

text \<open>The turns a stream lived through: its last one is the first in which the client could not be written to.\<close>

fun lived :: "turn list \<Rightarrow> broadcast_op list" where
  "lived [] = []"
| "lived ((ops, written) # turns) = ops @ (if written then lived turns else [])"

fun delivered :: "frame list \<Rightarrow> string list" where
  "delivered [] = []"
| "delivered (Event e # fs) = e # delivered fs"
| "delivered (_ # fs) = delivered fs"

text \<open>A client keeps up while no more events are outstanding than a queue holds.\<close>

fun keeps_up :: "nat \<Rightarrow> turn list \<Rightarrow> bool" where
  "keeps_up n [] \<longleftrightarrow> True"
| "keeps_up n ((ops, _) # turns) \<longleftrightarrow>
     n + List.length (published ops) \<le> queue_size \<and> keeps_up (n + List.length (published ops) - 1) turns"

lemma published_append: "published (xs @ ys) = published xs @ published ys"
  by (induction xs rule: published.induct) auto

lemma unsubscribe_others: "unsubscribe i b = others i b"
proof -
  have "(\<lambda>(k, _). k \<noteq> i) = (\<lambda>q :: nat \<times> string list. fst q \<noteq> i)" by auto
  then show ?thesis by (simp add: unsubscribe_def others_def)
qed

lemma take_others: "others i (snd (take_event i b)) = others i b"
proof -
  have "map (\<lambda>(k, es). (k, if k = i then tl es else es)) (filter (\<lambda>q. fst q \<noteq> i) qs) = filter (\<lambda>q. fst q \<noteq> i) qs"
    for qs :: "(nat \<times> string list) list"
    by (induction qs) auto
  then show ?thesis by (simp add: others_def take_event_def filter_take)
qed

lemma loop_follows:
  assumes "sse_loop i turns b = (fs, still, b1)" "list_all (foreign i) (concat (map fst turns))" "i < bc_next b" "queue_of i b = Some q"
  shows "subseq (delivered fs) (q @ published (lived turns))
    \<and> (keeps_up (List.length q) turns \<longrightarrow> prefix (delivered fs) (q @ published (lived turns)))
    \<and> (if still then i < bc_next b1 \<and> others i b1 = run broadcast_step (lived turns) (others i b)
           \<and> (\<exists>r. queue_of i b1 = Some r \<and> subseq (delivered fs @ r) (q @ published (lived turns))
                \<and> (keeps_up (List.length q) turns \<longrightarrow> delivered fs @ r = q @ published (lived turns)))
       else b1 = run broadcast_step (lived turns) (others i b))"
  using assms
proof (induction i turns b arbitrary: fs q rule: sse_loop.induct)
  case (2 i ops written turns b)
  let ?b = "run broadcast_step ops b" and ?q = "queue_after ops q"
  have r: "i < bc_next ?b" "queue_of i ?b = Some ?q" "others i ?b = run broadcast_step ops (others i b)"
    using run_queue [OF _ 2(4,5)] 2(3) by auto
  obtain e b2 where t: "take_event i ?b = (e, b2)" by (cases "take_event i ?b")
  have e: "e = (case ?q of [] \<Rightarrow> None | x # _ \<Rightarrow> Some x)"
    using t r(2) by (auto simp: take_event_def queue_of_def split: list.splits)
  have b2: "i < bc_next b2" "queue_of i b2 = Some (tl ?q)" "others i b2 = others i ?b"
    using r t take_others [of i ?b] by (auto simp: take_event_def queue_of_def map_of_take)
  define h where "h = (case e of None \<Rightarrow> [] | Some x \<Rightarrow> [x])"
  have q: "?q = h @ tl ?q" by (simp add: h_def e split: list.split)
  show ?case
  proof (cases written)
    case False
    then show ?thesis using 2(2) t b2(3) r(3) by (auto simp: unsubscribe_others)
  next
    case True
    obtain fs' where l: "sse_loop i turns b2 = (fs', still, b1)" "delivered fs = h @ delivered fs'"
      using 2(2) t True by (cases e) (auto simp: h_def split: prod.splits)
    let ?p = "published (lived turns)"
    have ih: "subseq (delivered fs') (tl ?q @ ?p)" "keeps_up (List.length (tl ?q)) turns \<longrightarrow> prefix (delivered fs') (tl ?q @ ?p)"
      "if still then i < bc_next b1 \<and> others i b1 = run broadcast_step (lived turns) (others i b2)
         \<and> (\<exists>r. queue_of i b1 = Some r \<and> subseq (delivered fs' @ r) (tl ?q @ ?p)
              \<and> (keeps_up (List.length (tl ?q)) turns \<longrightarrow> delivered fs' @ r = tl ?q @ ?p))
       else b1 = run broadcast_step (lived turns) (others i b2)"
      using 2(1) [OF refl t [symmetric] _ l(1) _ b2(1,2)] True 2(3) by auto
    have all: "q @ published (lived ((ops, written) # turns)) = (q @ published ops) @ ?p" using True by (simp add: published_append)
    have grow: "subseq (h @ xs) (q @ published (lived ((ops, written) # turns)))" if "subseq xs (tl ?q @ ?p)" for xs
    proof -
      have "subseq (h @ xs) ((h @ tl ?q) @ ?p)" using that by (simp add: list_emb_append_mono)
      also have "subseq ((h @ tl ?q) @ ?p) ((q @ published ops) @ ?p)"
        using queue_after_subseq [of ops q] unfolding q [symmetric] by (intro list_emb_append_mono) simp_all
      finally show ?thesis unfolding all .
    qed
    have up: "q @ published (lived ((ops, written) # turns)) = h @ tl ?q @ ?p \<and> keeps_up (List.length (tl ?q)) turns"
      if "keeps_up (List.length q) ((ops, written) # turns)"
    proof -
      have "?q = q @ published ops" using that queue_after_all by simp
      then show ?thesis using that q unfolding all by (metis append.assoc keeps_up.simps(2) length_append length_tl)
    qed
    have run: "run broadcast_step (lived ((ops, written) # turns)) (others i b) = run broadcast_step (lived turns) (others i b2)"
      using True b2(3) r(3) by (simp add: run_append)
    show ?thesis
    proof (cases still)
      case True
      with ih(3) obtain r' where r': "i < bc_next b1" "others i b1 = run broadcast_step (lived turns) (others i b2)" "queue_of i b1 = Some r'"
        "subseq (delivered fs' @ r') (tl ?q @ ?p)" "keeps_up (List.length (tl ?q)) turns \<longrightarrow> delivered fs' @ r' = tl ?q @ ?p" by auto
      show ?thesis using True r' grow [OF ih(1)] grow [OF r'(4)] up ih(2) unfolding run l(2) by (simp only: if_True append_assoc same_prefix_prefix) auto
    next
      case False
      then show ?thesis using ih grow [OF ih(1)] up unfolding run l(2) by (simp only: if_False append_assoc same_prefix_prefix) auto
    qed
  qed
qed auto

lemma written_stream_follows:
  assumes "serve_sse True greeted turns b = (fs, still, b1)" "list_all (\<lambda>q. fst q < bc_next b) (bc_queues b)"
    "list_all (foreign (bc_next b)) (concat (map fst turns))"
  shows "let ops = (if greeted then lived turns else []); alone = run broadcast_step ops (b\<lparr>bc_next := Suc (bc_next b)\<rparr>)
    in subseq (delivered fs) (published ops)
      \<and> (keeps_up 0 turns \<longrightarrow> prefix (delivered fs) (published ops))
      \<and> (if still then others (bc_next b) b1 = alone
             \<and> (\<exists>r. queue_of (bc_next b) b1 = Some r \<and> (keeps_up 0 turns \<longrightarrow> delivered fs @ r = published ops))
         else b1 = alone)"
proof -
  obtain i bs where sub: "subscribe b = (i, bs)" by fastforce
  have new: "map_of (bc_queues b) (bc_next b) = None"
    using assms(2) by (fastforce simp: list_all_iff map_of_eq_None_iff)
  have "filter (\<lambda>q. fst q \<noteq> bc_next b) (bc_queues b) = bc_queues b" using assms(2) by (auto simp: filter_id_conv list_all_iff)
  then have i: "i = bc_next b" "i < bc_next bs" "queue_of i bs = Some []" "others i bs = b\<lparr>bc_next := Suc (bc_next b)\<rparr>"
    using sub new by (auto simp: subscribe_def queue_of_def others_def map_add_def)
  show ?thesis
  proof (cases greeted)
    case False
    then show ?thesis using assms(1) sub i by (auto simp: serve_sse_def unsubscribe_others)
  next
    case True
    then obtain fs' where l: "sse_loop i turns bs = (fs', still, b1)" "delivered fs = delivered fs'"
      using assms(1) sub by (auto simp: serve_sse_def split: prod.splits)
    show ?thesis using loop_follows [OF l(1) _ i(2,3)] assms(3) True i l(2) by (auto simp: Let_def)
  qed
qed

text \<open>A client that is gone before the headers are written leaves its queue behind: nobody ever removes it.\<close>

lemma lost_client_keeps_its_queue:
  assumes "list_all (\<lambda>q. fst q < bc_next b) (bc_queues b)" "list_all (foreign (bc_next b)) ops"
    "serve_sse False greeted turns b = (fs, still, b1)"
  shows "queue_of (bc_next b) (run broadcast_step ops b1) = Some (queue_after ops [])"
proof -
  have "map_of (bc_queues b) (bc_next b) = None" using assms(1) by (fastforce simp: list_all_iff map_of_eq_None_iff)
  then have "queue_of (bc_next b) b1 = Some []" "bc_next b < bc_next b1"
    using assms(3) by (auto simp: serve_sse_def subscribe_def queue_of_def map_add_def)
  then show ?thesis using run_queue [OF assms(2)] by simp
qed

text \<open>C34. The event stream follows the events. Once its headers are written, a client sees a subsequence of the events
  published while its stream lived, in their order; while it keeps up it sees every one of them, but for those still in
  its queue when the stream is open and the one being written when the client is lost; when such a stream ends its queue
  is gone and the broadcaster is as if there had been no stream (an id is used up), and while it is open the other queues
  are. A client lost while the headers are written sees nothing and leaves its queue behind: whatever the others
  do afterwards, it stays with the broadcaster and is filled.\<close>

theorem stream_follows_events:
  assumes "serve_sse headers_written greeted turns b = (fs, still, b1)" "list_all (\<lambda>q. fst q < bc_next b) (bc_queues b)"
    "list_all (foreign (bc_next b)) (concat (map fst turns))"
  shows "if headers_written
    then let ops = (if greeted then lived turns else []); alone = run broadcast_step ops (b\<lparr>bc_next := Suc (bc_next b)\<rparr>)
      in subseq (delivered fs) (published ops)
        \<and> (keeps_up 0 turns \<longrightarrow> prefix (delivered fs) (published ops))
        \<and> (if still then others (bc_next b) b1 = alone
               \<and> (\<exists>r. queue_of (bc_next b) b1 = Some r \<and> (keeps_up 0 turns \<longrightarrow> delivered fs @ r = published ops))
           else b1 = alone)
    else fs = [] \<and> \<not> still
      \<and> (\<forall>ops. list_all (foreign (bc_next b)) ops \<longrightarrow>
           queue_of (bc_next b) (run broadcast_step ops b1) = Some (queue_after ops []))"
proof (cases headers_written)
  case True
  with written_stream_follows [OF _ assms(2,3)] assms(1) show ?thesis by (simp only: if_True)
next
  case False
  then have lost: "serve_sse False greeted turns b = (fs, still, b1)" using assms(1) by simp
  then have "fs = [] \<and> \<not> still" by (auto simp: serve_sse_def split: prod.splits)
  with False lost_client_keeps_its_queue [OF assms(2) _ lost] show ?thesis by simp
qed

definition two_updates :: "turn list" where
  "two_updates = [([Publish ''update'', Publish ''update''], True), ([Subscribe], True), ([], True), ([Publish ''update''], False)]"

lemma stream_follows_events_witness:
  "(case serve_sse True True two_updates new_broadcaster of (fs, still, b1) \<Rightarrow>
      map frame_text fs = map frame_text [Connected, Event ''update'', Event ''update'', KeepAlive] \<and> \<not> still
      \<and> prefix (delivered fs) (published (lived two_updates))
      \<and> b1 = run broadcast_step (lived two_updates) (new_broadcaster\<lparr>bc_next := Suc (bc_next new_broadcaster)\<rparr>))"
proof -
  obtain fs still b1 where r: "serve_sse True True two_updates new_broadcaster = (fs, still, b1)" by (cases "serve_sse True True two_updates new_broadcaster")
  have v: "fs = [Connected, Event ''update'', Event ''update'', KeepAlive]" "\<not> still"
    using r by (simp_all add: serve_sse_def two_updates_def new_broadcaster_def subscribe_def publish_event_def take_event_def has_room_def queue_size_def)
  have "list_all (\<lambda>q. fst q < bc_next new_broadcaster) (bc_queues new_broadcaster)" by (simp add: new_broadcaster_def)
  moreover have "list_all (foreign (bc_next new_broadcaster)) (concat (map fst two_updates))" by (simp add: two_updates_def foreign_def)
  moreover have "keeps_up 0 two_updates" by (simp add: two_updates_def queue_size_def)
  ultimately show ?thesis using stream_follows_events [OF r] v(2) by (simp add: r v(1) Let_def)
qed

section \<open>What an answer holds\<close>

definition received :: "(string \<Rightarrow> string) \<Rightarrow> http_reply \<Rightarrow> string" where
  "received gunzip rep = (if gzipped (ht_headers rep) then gunzip (ht_body rep) else ht_body rep)"

lemma route_headers:
  "route repr quoted path query db settings now = Some r \<Longrightarrow>
   rr_headers r = [] \<or> rr_headers r = [(''Content-Encoding'', ''gzip''), (''Cache-Control'', ''max-age=86400'')]"
  by (auto simp: route_def json_result_def Let_def split: if_splits option.splits)

lemma respond_facts:
  assumes "rr_headers r = [] \<or> rr_headers r = [(''Content-Encoding'', ''gzip''), (''Cache-Control'', ''max-age=86400'')]"
  shows "map_of (ht_headers (respond render gunzip accept r)) ''Content-Length'' = Some (nat_str (List.length (ht_body (respond render gunzip accept r))))"
    "gzipped (ht_headers (respond render gunzip accept r)) \<longleftrightarrow> gzipped (rr_headers r) \<and> accepts_gzip accept"
    "ht_status (respond render gunzip accept r) = rr_status r"
    "received gunzip (respond render gunzip accept r) = (if gzipped (rr_headers r) then gunzip (render (rr_body r)) else render (rr_body r))"
  using assms by (elim disjE; cases "accepts_gzip accept"; simp add: respond_def gzipped_def received_def Let_def)+

text \<open>The encoding of an answer is negotiated and changes nothing: the stated length is that of the body, a compressed
  body is sent only to a client that accepts it, and whatever a client accepts it gets the same status and, once
  uncompressed, the same content.\<close>

theorem replies_negotiated:
  assumes "do_get repr quoted render gunzip target accept db settings now = Replied rep"
  shows "map_of (ht_headers rep) ''Content-Length'' = Some (nat_str (List.length (ht_body rep)))
    \<and> (gzipped (ht_headers rep) \<longrightarrow> accepts_gzip accept)
    \<and> (\<exists>rep'. do_get repr quoted render gunzip target other db settings now = Replied rep'
          \<and> ht_status rep' = ht_status rep \<and> received gunzip rep' = received gunzip rep)"
proof -
  from assms obtain r where r: "route repr quoted (request_path (origin_form target)) (query_of (request_query (origin_form target))) db settings now = Some r"
    "rep = respond render gunzip accept r" "request_path (origin_form target) \<noteq> ''/events''"
    by (auto simp: do_get_def Let_def split: if_splits option.splits)
  have "do_get repr quoted render gunzip target other db settings now = Replied (respond render gunzip other r)"
    using r(1,3) by (simp add: do_get_def Let_def)
  then show ?thesis
    unfolding r(2) by (simp add: respond_facts [OF route_headers [OF r(1)]])
qed

definition asset_request :: "string option \<Rightarrow> served" where
  "asset_request accept = do_get (\<lambda>_. []) id (\<lambda>_. ''cba'') rev ''//static/echarts.min.js;v=1?x=%41'' accept empty_store default_settings 0"

lemma asset_replies: "\<exists>rep. asset_request accept = Replied rep"
proof -
  have "request_path (origin_form ''//static/echarts.min.js;v=1?x=%41'') = ''/static/echarts.min.js''" by code_simp
  then show ?thesis by (simp add: asset_request_def do_get_def route_def Let_def)
qed

lemma replies_negotiated_witness:
  "\<exists>rep rep'. asset_request None = Replied rep \<and> asset_request (Some ''br, gzip'') = Replied rep' \<and> \<not> gzipped (ht_headers rep)
     \<and> received rev rep' = received rev rep"
proof -
  obtain rep where rep: "asset_request None = Replied rep" using asset_replies by blast
  note facts = replies_negotiated [OF rep [unfolded asset_request_def], where other = "Some ''br, gzip''"]
  have "\<not> accepts_gzip None" by (simp add: accepts_gzip_def)
  with facts rep show ?thesis by (auto simp: asset_request_def)
qed

text \<open>Of a repeated name the first value counts, blanks are dropped, and a broken sequence of bytes is one replacement character.\<close>

lemma query_examples:
  "query_of ''kind=lp&kind=perp&since=&field=price%5fusd'' ''kind'' = Some ''lp''"
  "query_of ''kind=lp&kind=perp&since=&field=price%5fusd'' ''since'' = None"
  "query_of ''kind=lp&kind=perp&since=&field=price%5fusd'' ''field'' = Some ''price_usd''"
  "query_of ''since=2026-01-01T00:00:00%2B00:00&field=a+%E2%82x'' ''since'' = Some ''2026-01-01T00:00:00+00:00''"
  "query_of ''since=2026-01-01T00:00:00%2B00:00&field=a+%E2%82x'' ''field'' = Some (''a '' @ replacement @ ''x'')"
  by code_simp+

end
