(* ===== verification/Pgdialect.thy ===== *)
theory Pgdialect
  imports Migrations
begin

text \<open>
  \<open>storage/pgdialect.py\<close>: the packaged migrations translated to Postgres, two regular expressions written out as
  scans that know the character before. The statements are ASCII.
\<close>

section \<open>Scans\<close>

definition word_char :: "char \<Rightarrow> bool" where
  "word_char c \<longleftrightarrow> is_digit c \<or> is_lower_az c \<or> is_upper_az c \<or> c = CHR ''_''"

definition starts_with_word :: "string \<Rightarrow> bool" where
  "starts_with_word s = (case s of [] \<Rightarrow> False | c # _ \<Rightarrow> word_char c)"

definition after_word :: "char option \<Rightarrow> bool" where
  "after_word prev = (case prev of None \<Rightarrow> False | Some c \<Rightarrow> word_char c)"

text \<open>\<open>\b(ts|ts_start|ts_end) TEXT\b\<close> at the beginning of a text: the name that matches.\<close>

definition time_column :: "char option \<Rightarrow> string \<Rightarrow> string option" where
  "time_column prev s =
     (if after_word prev then None
      else find (\<lambda>n. startswith s (n @ '' TEXT'') \<and> \<not> starts_with_word (drop (List.length n + 5) s)) [''ts'', ''ts_start'', ''ts_end''])"

function retime :: "char option \<Rightarrow> string \<Rightarrow> string" where
  "retime prev [] = []"
| "retime prev (c # s) =
     (case time_column prev (c # s) of
        Some n \<Rightarrow> n @ '' TIMESTAMPTZ'' @ retime (Some CHR ''T'') (drop (List.length n + 5) (c # s))
      | None \<Rightarrow> c # retime (Some c) s)"
  by pat_completeness auto
termination by (relation "measure (\<lambda>(prev, s). List.length s)") auto

text \<open>\<open>(?<![\w"'])interval(?![\w"'])\<close>.\<close>

definition quote_or_word :: "char \<Rightarrow> bool" where
  "quote_or_word c \<longleftrightarrow> word_char c \<or> c = CHR 0x22 \<or> c = CHR 0x27"

definition bare_interval :: "char option \<Rightarrow> string \<Rightarrow> bool" where
  "bare_interval prev s \<longleftrightarrow> (case prev of None \<Rightarrow> True | Some c \<Rightarrow> \<not> quote_or_word c) \<and> startswith s ''interval''
     \<and> (case drop 8 s of [] \<Rightarrow> True | c # _ \<Rightarrow> \<not> quote_or_word c)"

function quote_interval :: "char option \<Rightarrow> string \<Rightarrow> string" where
  "quote_interval prev [] = []"
| "quote_interval prev (c # s) =
     (if bare_interval prev (c # s) then [CHR 0x22] @ ''interval'' @ [CHR 0x22] @ quote_interval (Some CHR ''l'') (drop 8 (c # s))
      else c # quote_interval (Some c) s)"
  by pat_completeness auto
termination by (relation "measure (\<lambda>(prev, s). List.length s)") auto

section \<open>Translation\<close>

definition translate_statement :: "string \<Rightarrow> string" where
  "translate_statement statement =
     quote_interval None (retime None (replace_all ''INTEGER PRIMARY KEY'' ''BIGSERIAL PRIMARY KEY'' statement))"

definition translated_migrations :: "catalogue \<Rightarrow> (int \<times> string \<times> string list) list" where
  "translated_migrations catalogue =
     map (\<lambda>(version, name, sql). (version, name, map translate_statement (split_statements sql))) (sort_key fst catalogue)"

definition hypertables :: "(string \<times> string \<times> string) list" where
  "hypertables = [(''api_call_log'', ''ts'', ''1 day''), (''pool_metrics'', ''ts'', ''1 hour''), (''ohlcv'', ''ts_start'', ''1 day'')]"

definition hypertable_ddl :: "string list" where
  "hypertable_ddl = concat (map (\<lambda>(table, column, chunk).
     [''ALTER TABLE '' @ table @ '' DROP COLUMN id'',
      ''SELECT create_hypertable('' @ [CHR 0x27] @ table @ [CHR 0x27] @ '', by_range('' @ [CHR 0x27] @ column @ [CHR 0x27]
        @ '', INTERVAL '' @ [CHR 0x27] @ chunk @ [CHR 0x27] @ ''))'']) hypertables)"

section \<open>No bare keyword remains\<close>

text \<open>Some place of the text has the identifier unquoted.\<close>

fun has_bare :: "char option \<Rightarrow> string \<Rightarrow> bool" where
  "has_bare prev [] = False"
| "has_bare prev (c # s) = (bare_interval prev (c # s) \<or> has_bare (Some c) s)"

lemma bare_startswith: "bare_interval prev s \<Longrightarrow> startswith s ''interval''"
  by (simp add: bare_interval_def)

lemma bare_interval_next: "bare_interval prev (c # ''nterval'' @ rest) \<Longrightarrow> (case rest of [] \<Rightarrow> True | d # _ \<Rightarrow> \<not> quote_or_word d)"
  by (simp add: bare_interval_def)

lemma has_bare_prev: "quote_or_word c \<Longrightarrow> quote_or_word d \<Longrightarrow> has_bare (Some c) s = has_bare (Some d) s"
  by (cases s) (simp_all add: bare_interval_def)

lemma quote_interval_prefix:
  assumes "startswith (quote_interval p s) x" "CHR 0x22 \<notin> set x"
  shows "\<exists>t p'. s = x @ t \<and> quote_interval p s = x @ quote_interval p' t"
  using assms
proof (induction x arbitrary: p s)
  case (Cons y ys)
  then obtain c s' where s: "s = c # s'" by (cases s) auto
  then have "\<not> bare_interval p (c # s')" "c = y" "startswith (quote_interval (Some c) s') ys" using Cons.prems by (auto split: if_splits)
  with Cons.IH [of "Some c" s'] Cons.prems(2) show ?case by (auto simp: s)
qed auto

lemma quote_interval_next:
  "(case quote_interval p t of [] \<Rightarrow> True | c # _ \<Rightarrow> \<not> quote_or_word c) \<Longrightarrow> (case t of [] \<Rightarrow> True | c # _ \<Rightarrow> \<not> quote_or_word c)"
  by (cases t) (auto simp: quote_or_word_def split: if_splits)

lemma quoted_not_bare: "\<not> has_bare prev (quote_interval prev s)"
proof (induction prev s rule: quote_interval.induct)
  case (2 prev c s)
  have marks: "quote_or_word CHR 0x22" "quote_or_word CHR ''l''" by code_simp+
  show ?case
  proof (cases "bare_interval prev (c # s)")
    case True
    have "\<not> has_bare (Some CHR 0x22) (quote_interval (Some CHR ''l'') (drop 8 (c # s)))"
      using 2(1) [OF True] has_bare_prev [OF marks] by blast
    then show ?thesis using True marks(1) by (simp add: bare_interval_def)
  next
    case False
    have "\<not> bare_interval prev (c # quote_interval (Some c) s)"
    proof
      assume b: "bare_interval prev (c # quote_interval (Some c) s)"
      then have i: "c = CHR ''i''" "startswith (quote_interval (Some c) s) ''nterval''" by (auto simp: bare_interval_def)
      have "CHR 0x22 \<notin> set ''nterval''" by simp
      from quote_interval_prefix [OF i(2) this]
      obtain t p' where t: "s = ''nterval'' @ t" "quote_interval (Some c) s = ''nterval'' @ quote_interval p' t" by blast
      from b have "bare_interval prev (c # ''nterval'' @ quote_interval p' t)" by (simp only: t(2))
      from quote_interval_next [OF bare_interval_next [OF this]]
      have "case t of [] \<Rightarrow> True | c # _ \<Rightarrow> \<not> quote_or_word c" .
      moreover have "case prev of None \<Rightarrow> True | Some c \<Rightarrow> \<not> quote_or_word c" using b by (simp add: bare_interval_def)
      ultimately have "bare_interval prev (c # s)" by (simp add: bare_interval_def i(1) t(1))
      with False show False ..
    qed
    then show ?thesis using False 2(2) by simp
  qed
qed simp

lemma not_bare_same: "\<not> has_bare prev s \<Longrightarrow> quote_interval prev s = s"
  by (induction prev s rule: has_bare.induct) auto

text \<open>No unquoted \<open>interval\<close> remains in a translated statement, so quoting it again changes nothing.\<close>

lemma translated_not_bare:
  "\<not> has_bare None (translate_statement statement)" "quote_interval None (translate_statement statement) = translate_statement statement"
  using quoted_not_bare not_bare_same by (simp_all add: translate_statement_def)

lemma translation_examples:
  "translate_statement ''CREATE TABLE t (id INTEGER PRIMARY KEY, ts TEXT NOT NULL, opened_ts TEXT, interval TEXT, ts_end TEXT)''
   = ''CREATE TABLE t (id BIGSERIAL PRIMARY KEY, ts TIMESTAMPTZ NOT NULL, opened_ts TEXT, '' @ [CHR 0x22] @ ''interval'' @ [CHR 0x22]
       @ '' TEXT, ts_end TIMESTAMPTZ)''"
  by code_simp

end
