(* ===== verification/Spec2Isabelle.thy ===== *)
theory Spec2Isabelle
  imports Digest Strategy Registry Service Backup Sidecar Privileged Checks Freshness Commands Reports Upkeep Server Pgdialect
begin

text \<open>
  Verification library of dexpaprika: a program that records a portfolio (liquidity positions, the short
  that hedges them, lending accounts, balances) from chain nodes and REST services into one SQLite database,
  judges the hedge, alerts, and can adjust the short behind safety gates. Paths below are relative to
  \<open>src/dexpaprika/\<close>.

  \<^bold>\<open>How the parts interact.\<close> The recorder service (\<open>recorder/service.py\<close>) calls a cycle (\<open>recorder/cycle.py\<close>), which
  reads the sources through the clients and writes positions, their events and heartbeats. Every request goes
  through one transport (\<open>clients/base.py\<close>) that asks the quota tracker (\<open>quota/tracker.py\<close>) for a slot and logs the call.
  The hedge engine reads the newest recorded state; its analysis feeds the alerts, the dashboard, the digest
  and the rebalance strategy, and the strategy hands an instruction to the execution pipeline, whose gates
  (kill switch, arming, limits, approval, failure breaker) stand before the external executor.

  \<^bold>\<open>Foundations.\<close> \<open>Prelude\<close>: shared lemmas, and the locales of a state machine with an invariant and of an
  append-only log. \<open>Decimal\<close>, \<open>Roots\<close>, \<open>Dectext\<close>: Python's \<open>Decimal\<close> (sign, coefficient, exponent, rounding half even at an
  explicit precision), its square root and powers, and its texts. \<open>Pystring\<close>, \<open>Json\<close>, \<open>Calendar\<close>, \<open>Windows\<close>: strings, JSON, ISO
  times, sliding windows. Times and durations are integers of microseconds. A text is a list of characters
  below 256, UTF-8 bytes where the code has others. \<open>Store\<close>: the database as a record of tables, each the list of its rows.

  \<^bold>\<open>Chain and wallets.\<close> \<open>Keccak\<close> and \<open>Sha256\<close> (\<open>_keccak.py\<close>, \<open>hashlib\<close>), \<open>Validation\<close> and \<open>Registry\<close> (\<open>wallets/\<close>), \<open>Abi\<close> and \<open>Rpc\<close>
  (\<open>chains/\<close>), \<open>Scripted\<close> (a node answering from a script, for examples). Lemmas: the in-place permutation is that of the
  reference, whose offsets and round constants are defined apart from the program's tables; checksums catch substitutions; decoding inverts the ABI layout; a snapshot row is of the pinned
  block and the right chain.

  \<^bold>\<open>Clients.\<close> \<open>Quota\<close>, \<open>Transport\<close> (\<open>clients/base.py\<close>), \<open>Peers\<close> (the ring of \<open>clients/gmx.py\<close> and \<open>clients/btc.py\<close>), \<open>Gmx\<close>, \<open>Market\<close>
  (\<open>clients/dexpaprika.py\<close>), \<open>Portfolio\<close> (\<open>portfolio/aave.py\<close>, \<open>portfolio/holdings.py\<close>, \<open>clients/btc.py\<close>), \<open>Discovery\<close> (\<open>lp/discovery.py\<close>). An
  operation maps a state (transports, store, environment) to a result of a sum type (an error or a value) and a
  state; \<open>None\<close> is running out of fuel. The only loop with fuel is the wait for a quota slot: its
  recursion needs at most twice the number of logged calls of the provider plus one rounds, and
  \<open>wait_for_slot_returns_iff\<close> says when it returns. Lemmas: all traffic is logged and no window is overdrawn; the breaker
  follows the outcomes; numbers are scaled without rounding; what a discovered position says is computed from
  its pool's state or missing with the reason.

  \<^bold>\<open>Recording.\<close> \<open>Positions\<close> (\<open>portfolio/lifecycle.py\<close> and the upserts), \<open>Recorders\<close> (what each source writes, and
  \<open>hedge/state.py\<close>, which reads it back), \<open>Cycle\<close>, \<open>Service\<close> (its loop is a \<open>partial_function (option)\<close>; that it returns is proved
  for bounded runs). Lemmas: closed positions stay closed, the events replay to the newest state, what was
  recorded reads back, a failed source leaves its heartbeat and nothing else whatever the sources before it did,
  the service keeps each cadence.

  \<^bold>\<open>Judging.\<close> \<open>Clmath\<close> (\<open>lp/clmath.py\<close>), \<open>Hedge\<close> (\<open>hedge/engine.py\<close>), \<open>Config\<close> (\<open>config.py\<close>), \<open>Alerts\<close> and \<open>Ntfy\<close> (\<open>alerts/\<close>, and the check command
  of \<open>cli.py\<close>), \<open>Dashboard\<close> (\<open>dashboard/read.py\<close>, \<open>app.py\<close>, \<open>export.py\<close>, the broadcaster and watcher of \<open>server.py\<close>), \<open>Server\<close> (its request handler and event stream), \<open>Health\<close>
  (\<open>secrets.py\<close>, \<open>watchdog/heartbeat.py\<close>), \<open>Digest\<close> (\<open>watchdog/digest.py\<close>). Lemmas: accuracy and monotonicity of the formulas, rules
  that fire exactly when due, firings on record before anything is sent of them, a notification topic that only the body
  of the publish request depends on, panels that never show stale data as fresh, an event stream that follows the events.

  \<^bold>\<open>Acting.\<close> \<open>Instruction\<close>, \<open>Safety\<close>, \<open>Approval\<close>, \<open>Engine\<close> (\<open>execute/\<close>), \<open>Pipeline\<close>, \<open>Execution\<close>, \<open>Postconditions\<close> (what they guarantee),
  \<open>Strategy\<close> (\<open>strategy/rebalance.py\<close>). The abstract specification of the executor is an automaton over its effects
  (\<open>Pipeline\<close>), which every run of \<open>execute_instruction\<close> refines. \<open>Sidecar\<close> (the process behind the executor and its
  environment, \<open>_sidecar_runner\<close> of \<open>cli.py\<close>) and \<open>Privileged\<close> (the \<open>execute\<close> commands) show that the wallet key is handed out
  only behind all the gates, and what an exit code of an order means.

  \<^bold>\<open>Commands.\<close> \<open>Checks\<close> (the health check), \<open>Commands\<close> (the commands that record, over \<open>Freshness\<close>: a source that succeeded left
  its snapshot row), \<open>Reports\<close> (the commands that show) and \<open>Upkeep\<close> (wallets, database, watchdog, strategy, export, and the
  jobs of \<open>scheduler.py\<close>) are \<open>cli.py\<close> over parsed arguments: a command maps them and the state to an end (a payload, a
  reported failure, an exception) and a state. Lemmas: the exit codes mean what they say, what a command shows is what
  the database holds, and an unattended run cannot reach the key without every opt-in.

  \<^bold>\<open>Storage.\<close> \<open>Migrations\<close>, \<open>Pgdialect\<close> and \<open>Backup\<close> (\<open>storage/\<close>). The specification of a migration is the fold of the pending files;
  a file system is a map of paths to contents. \<open>Pgdialect\<close> translates the migrations to Postgres.

  \<^bold>\<open>Parameters.\<close> The HTTP services and the clock (one record \<open>outside\<close> of functions on an environment), the external
  executor, SQLite's execution of a schema statement and its integrity check, pydantic's coercions, Python's
  \<open>repr\<close> and \<open>str\<close> of floats and exceptions.

  \<^bold>\<open>Not modelled.\<close> The page of \<open>dashboard/html.py\<close> (constant text and JavaScript), the sockets and threads of \<open>http.server\<close>,
  opening a connection and its pragmas in \<open>storage/db.py\<close>, argument parsing and printing in \<open>cli.py\<close>, the JavaScript executor,
  the probes and scripts: they hold no state of their own, or are not of this program's language.
\<close>

end
